(* ===== verification/Prelude.thy ===== *)
theory Prelude
  imports Main "HOL-Library.Word"
begin

text \<open>
  Shared vocabulary of the development: the machine integers of
  \<^verbatim>\<open>include/bricks/core/types.h\<close>, the exception classes of
  \<^verbatim>\<open>include/bricks/core/exception.h\<close> (and those the other headers derive from
  \<^verbatim>\<open>Exception\<close>), results that may fail, C integer arithmetic and checked access to
  blocks of memory.

  Conventions.  \<^verbatim>\<open>size_t\<close>, \<^verbatim>\<open>u64\<close> lengths and offsets are natural numbers; a
  subtraction that may go below zero is written with \<open>size_sub\<close>, which wraps at
  \<open>2 ^ 64\<close>, and a sum that may reach \<open>2 ^ 64\<close> with \<open>size_add\<close>.  Signed integers are mathematical integers brought back to their width by
  \<open>s32\<close> and \<open>s64\<close> wherever the source stores or narrows them.  Bytes are \<open>8 word\<close>.
  A computation the C++ standard leaves undefined (an access outside an allocated block, a
  null pointer) is the error \<open>Undefined\<close>; a \<^verbatim>\<open>throw\<close> is \<open>Thrown\<close>.  Memory that
  is allocated but not yet written has arbitrary contents: it is filled from a function
  \<open>g\<close> that the theorems quantify over.
\<close>

unbundle bit_operations_syntax

section \<open>Machine integers\<close>

type_synonym u8 = "8 word"
type_synonym u16 = "16 word"
type_synonym u32 = "32 word"
type_synonym u64 = "64 word"

definition npos :: nat where
  "npos = 2 ^ 64 - 1"

definition size_sub :: "nat \<Rightarrow> nat \<Rightarrow> nat" where
  "size_sub a b = (if b \<le> a then a - b else a + 2 ^ 64 - b)"

definition size_add :: "nat \<Rightarrow> nat \<Rightarrow> nat" where
  "size_add a b = (a + b) mod 2 ^ 64"

definition s32 :: "int \<Rightarrow> int" where
  "s32 x = signed_take_bit 31 x"

definition s64 :: "int \<Rightarrow> int" where
  "s64 x = signed_take_bit 63 x"

text \<open>Conversions to unsigned types.\<close>

definition u64_of :: "int \<Rightarrow> nat" where
  "u64_of x = nat (x mod 2 ^ 64)"

definition u32_of :: "int \<Rightarrow> nat" where
  "u32_of x = nat (x mod 2 ^ 32)"

text \<open>Division and remainder of C: truncated towards zero.\<close>

definition c_div :: "int \<Rightarrow> int \<Rightarrow> int" where
  "c_div a b = sgn a * sgn b * (\<bar>a\<bar> div \<bar>b\<bar>)"

definition c_mod :: "int \<Rightarrow> int \<Rightarrow> int" where
  "c_mod a b = a - c_div a b * b"

section \<open>Exceptions and results\<close>

datatype exn =
    Exception string
  | InternalInconsistencyException string
  | InvalidArgumentException string
  | InvalidOperationException string
  | NotImplementedException string
  | NotSupportedException string
  | NullReferenceException string
  | OutOfMemoryException string
  | FormatException string
  | ErrnoException string int
  | InvalidIteratorException string
  | QueueEmptyException string
  | EndOfStreamException string
  | StreamException string
  | FileNotFoundException string
  | LibZipException int

datatype error = Thrown exn | Undefined

type_synonym 'a result = "error + 'a"

fun bind_r :: "'a result \<Rightarrow> ('a \<Rightarrow> 'b result) \<Rightarrow> 'b result" where
  "bind_r (Inl e) f = Inl e"
| "bind_r (Inr x) f = f x"

abbreviation throw :: "exn \<Rightarrow> 'a result" where
  "throw e \<equiv> Inl (Thrown e)"

section \<open>Blocks of memory\<close>

type_synonym bytes = "u8 list"

definition peek :: "'a list \<Rightarrow> nat \<Rightarrow> 'a result" where
  "peek m i = (if i < length m then Inr (m ! i) else Inl Undefined)"

definition poke :: "'a list \<Rightarrow> nat \<Rightarrow> 'a \<Rightarrow> 'a list result" where
  "poke m i x = (if i < length m then Inr (m[i := x]) else Inl Undefined)"

definition mem_read :: "'a list \<Rightarrow> nat \<Rightarrow> nat \<Rightarrow> 'a list result" where
  "mem_read m off n =
     (if off + n \<le> length m then Inr (take n (drop off m)) else Inl Undefined)"

definition mem_write :: "'a list \<Rightarrow> nat \<Rightarrow> 'a list \<Rightarrow> 'a list result" where
  "mem_write m off src =
     (if off + length src \<le> length m
      then Inr (take off m @ src @ drop (off + length src) m) else Inl Undefined)"

definition fresh_block :: "(nat \<Rightarrow> 'a) \<Rightarrow> nat \<Rightarrow> 'a list" where
  "fresh_block g n = map g [0..<n]"

section \<open>Lemmas and automation\<close>

named_theorems mem_simps \<open>equations that evaluate checked memory accesses inside the block\<close>
named_theorems wrap_simps \<open>the narrowing functions are the identity within their range\<close>

lemma bind_r_Inr_iff:
  "bind_r m f = Inr y \<longleftrightarrow> (\<exists>x. m = Inr x \<and> f x = Inr y)"
  by (cases m) auto

lemma bind_r_assoc: "bind_r (bind_r m f) h = bind_r m (\<lambda>x. bind_r (f x) h)"
  by (cases m) auto

lemma bind_r_cong [fundef_cong]:
  "m = m' \<Longrightarrow> (\<And>x. m' = Inr x \<Longrightarrow> f x = f' x) \<Longrightarrow> bind_r m f = bind_r m' f'"
  by (cases m') auto

lemma s32_id [wrap_simps]: "- (2 ^ 31) \<le> x \<Longrightarrow> x < 2 ^ 31 \<Longrightarrow> s32 x = x"
  by (simp add: s32_def signed_take_bit_int_eq_self)

lemma s64_id [wrap_simps]: "- (2 ^ 63) \<le> x \<Longrightarrow> x < 2 ^ 63 \<Longrightarrow> s64 x = x"
  by (simp add: s64_def signed_take_bit_int_eq_self)

lemma size_sub_le [wrap_simps]: "b \<le> a \<Longrightarrow> size_sub a b = a - b"
  by (simp add: size_sub_def)

lemma size_add_small [wrap_simps]: "a + b < 2 ^ 64 \<Longrightarrow> size_add a b = a + b"
  by (simp add: size_add_def)

lemma peek_in [mem_simps]: "i < length m \<Longrightarrow> peek m i = Inr (m ! i)"
  by (simp add: peek_def)

lemma peek_append [mem_simps]:
  "peek (xs @ y # ys) (length xs) = Inr y"
  by (simp add: peek_def)

lemma poke_in [mem_simps]: "i < length m \<Longrightarrow> poke m i x = Inr (m[i := x])"
  by (simp add: poke_def)

lemma mem_read_in [mem_simps]:
  "off + n \<le> length m \<Longrightarrow> mem_read m off n = Inr (take n (drop off m))"
  by (simp add: mem_read_def)

lemma mem_write_in [mem_simps]:
  "off + length src \<le> length m \<Longrightarrow>
   mem_write m off src = Inr (take off m @ src @ drop (off + length src) m)"
  by (simp add: mem_write_def)

lemma list_split3:
  assumes "length xs = a + b + c"
  obtains p q r where "xs = p @ q @ r" "length p = a" "length q = b" "length r = c"
proof
  show "xs = take a xs @ take b (drop a xs) @ drop b (drop a xs)"
    by (simp del: drop_drop)
qed (use assms in auto)

lemma mem_read_mid [mem_simps]: "mem_read (xs @ ys @ zs) (length xs) (length ys) = Inr ys"
  by (simp add: mem_read_def)

lemma mem_write_mid [mem_simps]:
  "length ys' = length ys \<Longrightarrow> mem_write (xs @ ys @ zs) (length xs) ys' = Inr (xs @ ys' @ zs)"
  by (simp add: mem_write_def)

lemma mem_write_prefix:
  "length ys' \<le> length ys \<Longrightarrow>
   mem_write (xs @ ys) (length xs) ys' = Inr (xs @ ys' @ drop (length ys') ys)"
  by (simp add: mem_write_def)

lemma mem_write_InrD:
  "mem_write m off src = Inr m' \<Longrightarrow>
   off + length src \<le> length m \<and> m' = take off m @ src @ drop (off + length src) m"
  by (auto simp: mem_write_def split: if_splits)

lemma mem_write_length: "mem_write m off src = Inr m' \<Longrightarrow> length m' = length m"
  by (auto dest!: mem_write_InrD)

lemma mem_read_length: "mem_read m off n = Inr xs \<Longrightarrow> length xs = n"
  by (auto simp: mem_read_def split: if_splits)

text \<open>Reading back what was just written.\<close>

lemma mem_read_written:
  "mem_write m off src = Inr m' \<Longrightarrow> mem_read m' off (length src) = Inr src"
  by (auto dest!: mem_write_InrD simp: mem_read_def)

text \<open>Cells outside the written range keep their value.\<close>

lemma mem_write_other:
  assumes "mem_write m off src = Inr m'" and "i < off \<or> off + length src \<le> i"
    and "i < length m"
  shows "m' ! i = m ! i"
  using assms by (auto dest!: mem_write_InrD simp: nth_append min_def)

lemma length_fresh_block [simp]: "length (fresh_block g n) = n"
  by (simp add: fresh_block_def)

lemma nth_fresh_block [simp]: "i < n \<Longrightarrow> fresh_block g n ! i = g i"
  by (simp add: fresh_block_def)

lemma c_div_nonneg: "0 \<le> a \<Longrightarrow> 0 < b \<Longrightarrow> c_div a b = a div b"
  by (cases "a = 0") (auto simp: c_div_def)

lemma c_mod_nonneg: "0 \<le> a \<Longrightarrow> 0 < b \<Longrightarrow> c_mod a b = a mod b"
  by (simp add: c_mod_def c_div_nonneg minus_div_mult_eq_mod)

lemma c_div_neg: "a \<le> 0 \<Longrightarrow> 0 < b \<Longrightarrow> c_div a b = - ((- a) div b)"
  by (cases "a = 0") (auto simp: c_div_def)

lemma c_div_mod: "c_div a b * b + c_mod a b = a"
  by (simp add: c_mod_def)

lemma c_mod_bound:
  assumes "0 < b" shows "\<bar>c_mod a b\<bar> < b"
proof (cases "0 \<le> a")
  case True
  then show ?thesis using assms by (simp add: c_mod_nonneg)
next
  case False
  then have "c_mod a b = - ((- a) mod b)"
    using assms by (simp add: c_mod_def c_div_neg minus_div_mult_eq_mod [symmetric])
  then show ?thesis using assms by simp
qed

lemma c_mod_sign: "0 < b \<Longrightarrow> 0 \<le> a \<Longrightarrow> 0 \<le> c_mod a b"
  by (simp add: c_mod_nonneg)

text \<open>Bytes are equal when their eight bits are.\<close>

lemma all_less_8: "(\<forall>n<8. P n) \<longleftrightarrow> P 0 \<and> P 1 \<and> P 2 \<and> P 3 \<and> P 4 \<and> P 5 \<and> P 6 \<and> P (7::nat)"
  by (simp add: eval_nat_numeral All_less_Suc conj_assoc) blast

lemma u8_eq_iff: "(v::u8) = w \<longleftrightarrow> (\<forall>n<8. bit v n = bit w n)"
  by (simp add: bit_eq_iff)

section \<open>Loops\<close>

text \<open>A loop that runs its body for the values of a list, and the values of
  \<^verbatim>\<open>for (u32 i = a; i < b; i++)\<close>.\<close>

fun fold_r :: "('a \<Rightarrow> 's \<Rightarrow> 's result) \<Rightarrow> 'a list \<Rightarrow> 's \<Rightarrow> 's result" where
  "fold_r f [] s = Inr s"
| "fold_r f (x # xs) s = bind_r (f x s) (fold_r f xs)"

definition u32_range :: "u32 \<Rightarrow> u32 \<Rightarrow> u32 list" where
  "u32_range a b = map word_of_nat [unat a..<unat b]"

lemma fold_r_append: "fold_r f (xs @ ys) s = bind_r (fold_r f xs s) (fold_r f ys)"
proof (induction xs arbitrary: s)
  case (Cons x xs)
  then have "fold_r f (xs @ ys) = (\<lambda>s. bind_r (fold_r f xs s) (fold_r f ys))" by (rule ext)
  then show ?case by (simp add: bind_r_assoc)
qed simp

lemma fold_r_product:
  "fold_r (\<lambda>i. fold_r (f i) ks) xs s = fold_r (\<lambda>(i, k). f i k) (List.product xs ks) s"
proof (induction xs arbitrary: s)
  case (Cons x xs)
  have "fold_r (\<lambda>(i, k). f i k) (map (Pair x) ks) s = fold_r (f x) ks s" for s
    by (induction ks arbitrary: s) (auto intro: bind_r_cong)
  moreover have "fold_r (\<lambda>i. fold_r (f i) ks) xs = fold_r (\<lambda>(i, k). f i k) (List.product xs ks)"
    by (rule ext) (rule Cons.IH)
  ultimately show ?case by (simp add: fold_r_append)
qed simp

lemma fold_r_cong [fundef_cong]:
  assumes "s = s'" "xs = ys" "\<And>x s. x \<in> set ys \<Longrightarrow> f x s = g x s"
  shows "fold_r f xs s = fold_r g ys s'"
proof -
  have "fold_r f ys s = fold_r g ys s" for s
    using assms(3) by (induction ys arbitrary: s) (auto intro!: bind_r_cong)
  then show ?thesis using assms(1,2) by simp
qed

lemma u32_range_unat:
  assumes "x \<in> set (u32_range a b)" shows "unat a \<le> unat x" "unat x < unat b"
proof -
  obtain n where n: "unat a \<le> n" "n < unat b" "x = word_of_nat n"
    using assms by (auto simp: u32_range_def)
  moreover have "n < 2 ^ 32" using n(2) unsigned_less [of b, where ?'a = nat] by simp
  ultimately show "unat a \<le> unat x" "unat x < unat b" by (simp_all add: unat_of_nat take_bit_nat_eq_self)
qed

lemma u32_range_mem: "x \<in> set (u32_range a b) \<longleftrightarrow> a \<le> x \<and> x < b"
proof
  assume "a \<le> x \<and> x < b"
  then have "unat x \<in> {unat a..<unat b}" by (simp add: word_le_nat_alt word_less_nat_alt)
  then have "word_of_nat (unat x) \<in> set (u32_range a b)"
    unfolding u32_range_def set_map set_upt by (rule imageI)
  then show "x \<in> set (u32_range a b)" by simp
qed (use u32_range_unat in \<open>auto simp: word_le_nat_alt word_less_nat_alt\<close>)

lemma distinct_u32_range: "distinct (u32_range a b)"
proof -
  have "inj_on (word_of_nat :: nat \<Rightarrow> u32) {unat a..<unat b}"
  proof (rule inj_on_inverseI)
    fix n assume "n \<in> {unat a..<unat b}"
    then have "n < 2 ^ 32" using unsigned_less [of b, where ?'a = nat] by simp
    then show "unat (word_of_nat n :: u32) = n" by (simp add: unat_of_nat take_bit_nat_eq_self)
  qed
  then show ?thesis by (simp add: u32_range_def distinct_map)
qed

section \<open>Floating point\<close>

text \<open>The arithmetic of \<^verbatim>\<open>float\<close> is a parameter; the conversion to an integer type has no value
  where C++ leaves it undefined.\<close>

record 'f float_ops =
  fl_of_int :: "int \<Rightarrow> 'f"
  fl_add :: "'f \<Rightarrow> 'f \<Rightarrow> 'f"
  fl_sub :: "'f \<Rightarrow> 'f \<Rightarrow> 'f"
  fl_mul :: "'f \<Rightarrow> 'f \<Rightarrow> 'f"
  fl_div :: "'f \<Rightarrow> 'f \<Rightarrow> 'f"
  fl_to_s64 :: "'f \<Rightarrow> int option"

definition float_to_s64 :: "'f float_ops \<Rightarrow> 'f \<Rightarrow> int result" where
  "float_to_s64 F x = (case fl_to_s64 F x of None \<Rightarrow> Inl Undefined | Some n \<Rightarrow> Inr n)"

section \<open>Operations on the world\<close>

text \<open>An operation on a state of the world that may throw; the world after it is kept either way.\<close>

type_synonym ('w, 'a) io = "'w \<Rightarrow> 'a result \<times> 'w"

definition bind_w :: "('w, 'a) io \<Rightarrow> ('a \<Rightarrow> ('w, 'b) io) \<Rightarrow> ('w, 'b) io" where
  "bind_w m f w = (case m w of (Inl e, w') \<Rightarrow> (Inl e, w') | (Inr x, w') \<Rightarrow> f x w')"

definition return_w :: "'a result \<Rightarrow> ('w, 'a) io" where
  "return_w r w = (r, w)"

text \<open>A loop that runs an operation for each item of a list.\<close>

fun fold_w :: "('a \<Rightarrow> ('w, unit) io) \<Rightarrow> 'a list \<Rightarrow> ('w, unit) io" where
  "fold_w f [] = return_w (Inr ())"
| "fold_w f (x # xs) = bind_w (f x) (\<lambda>_. fold_w f xs)"

lemma bind_w_Inr: "m w = (Inr x, w') \<Longrightarrow> bind_w m f w = f x w'"
  by (simp add: bind_w_def)

lemma bind_w_return [simp]: "bind_w (return_w (Inr x)) f = f x"
  by (rule ext) (simp add: bind_w_def return_w_def)

end
