(* ===== verification/Type_Info.thy ===== *)
theory Type_Info
  imports Prelude
begin

text \<open>
  Types at run time (\<^verbatim>\<open>include/bricks/core/typeinfo.h\<close>), the casts of \<^verbatim>\<open>pointer.h\<close> and the
  pointers that cast what they are given (\<^verbatim>\<open>loosepointer.h\<close>, \<^verbatim>\<open>loosedynamicpointer.h\<close>).  The
  order \<^verbatim>\<open>std::type_info::before\<close> of the types, their names and the classes' inheritance are
  parameters; a class is a number and a pointer that is not null is an object with its class.
\<close>

section \<open>TypeInfo\<close>

text \<open>\<open>'i\<close> are the objects of \<^verbatim>\<open>std::type_info\<close>, one for each type; None is the null pointer.\<close>

type_synonym 'i type_info = "'i option"

definition type_info_new :: "'i type_info" where
  "type_info_new = None"

definition type_info_copy :: "'i type_info \<Rightarrow> 'i type_info" where
  "type_info_copy t = t"

definition type_info_of :: "'i \<Rightarrow> 'i type_info" where
  "type_info_of i = Some i"

text \<open>\<^verbatim>\<open>typeid(*object)\<close>; that of a null pointer is undefined or throws \<^verbatim>\<open>std::bad_typeid\<close>,
  which is no exception of the library.\<close>

definition type_info_of_object :: "(nat \<Rightarrow> 'i) \<Rightarrow> (nat \<times> nat) option \<Rightarrow> 'i type_info result" where
  "type_info_of_object typeid object =
     (case object of None \<Rightarrow> Inl Undefined | Some (a, c) \<Rightarrow> Inr (Some (typeid c)))"

definition type_info_get_name :: "('i \<Rightarrow> string) \<Rightarrow> 'i type_info \<Rightarrow> string result" where
  "type_info_get_name name t = (case t of None \<Rightarrow> Inl Undefined | Some i \<Rightarrow> Inr (name i))"

definition type_info_eq :: "'i type_info \<Rightarrow> 'i type_info \<Rightarrow> bool" where
  "type_info_eq l r = (case (l, r) of (Some i, Some j) \<Rightarrow> i = j | _ \<Rightarrow> False)"

definition type_info_neq :: "'i type_info \<Rightarrow> 'i type_info \<Rightarrow> bool" where
  "type_info_neq l r = (case (l, r) of (Some i, Some j) \<Rightarrow> i \<noteq> j | _ \<Rightarrow> True)"

definition type_info_gt :: "('i \<Rightarrow> 'i \<Rightarrow> bool) \<Rightarrow> 'i type_info \<Rightarrow> 'i type_info \<Rightarrow> bool" where
  "type_info_gt before l r = (case (l, r) of (Some i, Some j) \<Rightarrow> before j i | _ \<Rightarrow> False)"

definition type_info_lt :: "('i \<Rightarrow> 'i \<Rightarrow> bool) \<Rightarrow> 'i type_info \<Rightarrow> 'i type_info \<Rightarrow> bool" where
  "type_info_lt before l r = (case (l, r) of (Some i, Some j) \<Rightarrow> before i j | _ \<Rightarrow> False)"

definition type_info_ge :: "('i \<Rightarrow> 'i \<Rightarrow> bool) \<Rightarrow> 'i type_info \<Rightarrow> 'i type_info \<Rightarrow> bool" where
  "type_info_ge before l r \<longleftrightarrow> type_info_gt before l r \<or> type_info_eq l r"

definition type_info_le :: "('i \<Rightarrow> 'i \<Rightarrow> bool) \<Rightarrow> 'i type_info \<Rightarrow> 'i type_info \<Rightarrow> bool" where
  "type_info_le before l r \<longleftrightarrow> type_info_lt before l r \<or> type_info_eq l r"

section \<open>Casts\<close>

text \<open>\<open>derives c t\<close>: class \<open>c\<close> is \<open>t\<close> or has it as a base.  A cast between pointers goes from
  the static class \<open>u\<close> to \<open>t\<close>.\<close>

type_synonym object_ptr = "(nat \<times> nat) option"

definition dynamic_cast :: "(nat \<Rightarrow> nat \<Rightarrow> bool) \<Rightarrow> nat \<Rightarrow> object_ptr \<Rightarrow> object_ptr" where
  "dynamic_cast derives t p =
     (case p of None \<Rightarrow> None | Some (a, c) \<Rightarrow> if derives c t then p else None)"

definition cast_to_dynamic :: "(nat \<Rightarrow> nat \<Rightarrow> bool) \<Rightarrow> nat \<Rightarrow> nat \<Rightarrow> object_ptr \<Rightarrow> object_ptr" where
  "cast_to_dynamic derives t u p = (if derives u t then p else dynamic_cast derives t p)"

definition is_type_of_object :: "(nat \<Rightarrow> nat \<Rightarrow> bool) \<Rightarrow> nat \<Rightarrow> object_ptr \<Rightarrow> bool" where
  "is_type_of_object derives t p \<longleftrightarrow> dynamic_cast derives t p \<noteq> None"

text \<open>\<^verbatim>\<open>CastTo\<close>: a release build casts up and down without a check; down to a class the object
  is not of is undefined.\<close>

definition cast_to :: "bool \<Rightarrow> (nat \<Rightarrow> nat \<Rightarrow> bool) \<Rightarrow> nat \<Rightarrow> nat \<Rightarrow> object_ptr \<Rightarrow> object_ptr result" where
  "cast_to release derives t u p =
     (if release then
        (if derives u t then Inr p
         else if derives t u then
           (case p of None \<Rightarrow> Inr None | Some (a, c) \<Rightarrow> if derives c t then Inr p else Inl Undefined)
         else Inr (dynamic_cast derives t p))
      else Inr (cast_to_dynamic derives t u p))"

section \<open>Pointers\<close>

text \<open>\<^verbatim>\<open>Pointer<T>\<close> holds an address and keeps nothing alive; comparisons are those of the
  addresses, of which null is the least.\<close>

definition pointer_new :: object_ptr where
  "pointer_new = None"

definition pointer_swap :: "object_ptr \<Rightarrow> object_ptr \<Rightarrow> object_ptr" where
  "pointer_swap this t = t"

definition pointer_address :: "object_ptr \<Rightarrow> nat" where
  "pointer_address p = (case p of None \<Rightarrow> 0 | Some (a, c) \<Rightarrow> a)"

definition pointer_compare :: "(nat \<Rightarrow> nat \<Rightarrow> bool) \<Rightarrow> object_ptr \<Rightarrow> object_ptr \<Rightarrow> bool" where
  "pointer_compare oper p q = oper (pointer_address p) (pointer_address q)"

definition pointer_dereference :: "object_ptr \<Rightarrow> (nat \<times> nat) result" where
  "pointer_dereference p = (case p of None \<Rightarrow> Inl Undefined | Some o1 \<Rightarrow> Inr o1)"

text \<open>A \<^verbatim>\<open>LoosePointer<T>\<close> takes pointers to \<open>T\<close> as they are and casts those to another class.\<close>

definition loose_of :: "object_ptr \<Rightarrow> object_ptr" where
  "loose_of p = p"

definition loose_of_other :: "bool \<Rightarrow> (nat \<Rightarrow> nat \<Rightarrow> bool) \<Rightarrow> nat \<Rightarrow> nat \<Rightarrow> object_ptr \<Rightarrow> object_ptr result" where
  "loose_of_other release derives t u p = cast_to release derives t u p"

definition loose_assign :: "object_ptr \<Rightarrow> object_ptr \<Rightarrow> object_ptr" where
  "loose_assign this p = pointer_swap this p"

definition loose_assign_other ::
    "bool \<Rightarrow> (nat \<Rightarrow> nat \<Rightarrow> bool) \<Rightarrow> nat \<Rightarrow> nat \<Rightarrow> object_ptr \<Rightarrow> object_ptr \<Rightarrow> object_ptr result" where
  "loose_assign_other release derives t u this p =
     bind_r (cast_to release derives t u p) (\<lambda>q. Inr (pointer_swap this q))"

definition dynamic_loose_of_other :: "(nat \<Rightarrow> nat \<Rightarrow> bool) \<Rightarrow> nat \<Rightarrow> nat \<Rightarrow> object_ptr \<Rightarrow> object_ptr" where
  "dynamic_loose_of_other derives t u p = cast_to_dynamic derives t u p"

definition dynamic_loose_assign_other ::
    "(nat \<Rightarrow> nat \<Rightarrow> bool) \<Rightarrow> nat \<Rightarrow> nat \<Rightarrow> object_ptr \<Rightarrow> object_ptr \<Rightarrow> object_ptr" where
  "dynamic_loose_assign_other derives t u this p = pointer_swap this (cast_to_dynamic derives t u p)"

section \<open>Types of pointers\<close>

definition typed :: "(nat \<Rightarrow> nat \<Rightarrow> bool) \<Rightarrow> nat \<Rightarrow> object_ptr \<Rightarrow> bool" where
  "typed derives t p \<longleftrightarrow> (case p of None \<Rightarrow> True | Some (a, c) \<Rightarrow> derives c t)"

lemma dynamic_cast_typed: "typed derives t (dynamic_cast derives t p)"
  by (auto simp: typed_def dynamic_cast_def split: option.splits)

lemma dynamic_cast_same: "typed derives t p \<Longrightarrow> dynamic_cast derives t p = p"
  by (auto simp: typed_def dynamic_cast_def split: option.splits)

lemma typed_up: "transp derives \<Longrightarrow> derives u t \<Longrightarrow> typed derives u p \<Longrightarrow> typed derives t p"
  by (auto simp: typed_def transp_def split: option.splits)

text \<open>The cast with a test is the dynamic cast, whichever the code takes.\<close>

lemma cast_to_dynamic_is: "transp derives \<Longrightarrow> typed derives u p \<Longrightarrow> cast_to_dynamic derives t u p = dynamic_cast derives t p"
  using typed_up [of derives u t p] by (auto simp: cast_to_dynamic_def dynamic_cast_same)

lemma cast_to_cases:
  assumes "transp derives" "typed derives u p"
  shows "cast_to release derives t u p = Inr (dynamic_cast derives t p) \<or>
    cast_to release derives t u p = Inl Undefined \<and> release \<and> derives t u \<and> \<not> typed derives t p"
  using assms typed_up [of derives u t p]
  by (auto simp: cast_to_def cast_to_dynamic_is dynamic_cast_same typed_def split: option.splits)

text \<open>An assignment of a pointer of the class itself or of another.\<close>

datatype assignment = SameClass object_ptr | OtherClass nat object_ptr

fun source_typed :: "(nat \<Rightarrow> nat \<Rightarrow> bool) \<Rightarrow> nat \<Rightarrow> assignment \<Rightarrow> bool" where
  "source_typed derives t (SameClass p) = typed derives t p"
| "source_typed derives t (OtherClass u p) = typed derives u p"

fun loose_step :: "bool \<Rightarrow> (nat \<Rightarrow> nat \<Rightarrow> bool) \<Rightarrow> nat \<Rightarrow> assignment \<Rightarrow> object_ptr \<Rightarrow> object_ptr result" where
  "loose_step release derives t (SameClass p) this = Inr (loose_assign this p)"
| "loose_step release derives t (OtherClass u p) this = loose_assign_other release derives t u this p"

fun dynamic_loose_step :: "(nat \<Rightarrow> nat \<Rightarrow> bool) \<Rightarrow> nat \<Rightarrow> assignment \<Rightarrow> object_ptr \<Rightarrow> object_ptr" where
  "dynamic_loose_step derives t (SameClass p) this = loose_assign this p"
| "dynamic_loose_step derives t (OtherClass u p) this = dynamic_loose_assign_other derives t u this p"

lemma dynamic_loose_step_typed:
  assumes "transp derives" "source_typed derives t x"
  shows "typed derives t (dynamic_loose_step derives t x p)"
  using assms dynamic_cast_typed
  by (cases x) (auto simp: loose_assign_def pointer_swap_def dynamic_loose_assign_other_def cast_to_dynamic_is)

lemma loose_step_dynamic:
  assumes "transp derives" "source_typed derives t x" "loose_step release derives t x p = Inr q"
  shows "q = dynamic_loose_step derives t x p"
  using assms cast_to_cases [of derives _ _ release t]
  by (cases x) (auto simp: loose_assign_other_def dynamic_loose_assign_other_def cast_to_dynamic_is bind_r_Inr_iff, fastforce)

lemma loose_debug_defined: "\<exists>q. loose_step False derives t x p = Inr q"
  by (cases x) (auto simp: loose_assign_other_def cast_to_def)

section \<open>Properties\<close>

text \<open>On types that are given, the six comparisons of \<^verbatim>\<open>TypeInfo\<close> are those of one linear order;
  with an empty \<^verbatim>\<open>TypeInfo\<close> on either side all are false but \<^verbatim>\<open>!=\<close>, so that an empty one
  differs from itself.\<close>

theorem type_info_order:
  assumes "transp before" "irreflp before" "totalp before"
  shows "type_info_neq l r = (\<not> type_info_eq l r) \<and>
    (case (l, r) of
       (Some i, Some j) \<Rightarrow>
         (type_info_lt before l r, type_info_eq l r, type_info_gt before l r)
           \<in> {(True, False, False), (False, True, False), (False, False, True)} \<and>
         type_info_le before l r = (\<not> type_info_gt before l r) \<and>
         type_info_ge before l r = (\<not> type_info_lt before l r)
     | _ \<Rightarrow> type_info_neq l r \<and> \<not> type_info_eq l r \<and> \<not> type_info_lt before l r \<and> \<not> type_info_gt before l r \<and>
         \<not> type_info_le before l r \<and> \<not> type_info_ge before l r)"
  using assms
  by (auto simp: type_info_neq_def type_info_eq_def type_info_lt_def type_info_gt_def type_info_le_def type_info_ge_def
      transp_def irreflp_def totalp_on_def split: option.splits)

theorem type_info_order_witness:
  "type_info_le (<) (Some (3::nat)) (Some 5) = (\<not> type_info_gt (<) (Some (3::nat)) (Some 5))"
proof -
  have t: "totalp ((<) :: nat \<Rightarrow> nat \<Rightarrow> bool)" by (auto simp: totalp_on_def)
  show ?thesis using type_info_order [OF _ _ t, of "Some 3" "Some 5"] by (simp add: transp_def irreflp_def)
qed



text \<open>A cast down to a class that the object is not of gives null in a debug build and is undefined
  in a release build.\<close>

lemma cast_to_wrong_class:
  "cast_to False (\<lambda>c t. t \<le> c) 2 1 (Some (7, 1)) = Inr None" "cast_to True (\<lambda>c t. t \<le> c) 2 1 (Some (7, 1)) = Inl Undefined"
  by (simp_all add: cast_to_def cast_to_dynamic_def dynamic_cast_def)

end
