(* ===== verification/Utf8.thy ===== *)
theory Utf8
  imports Prelude
begin

text \<open>
  The character encoding of \<^verbatim>\<open>source/core/string.cpp\<close> (lines 10 to 155): the encoder and
  decoder of one character, and the two scanners that count the characters of a buffer and
  find the byte offset of a character.  A \<^verbatim>\<open>const char*\<close> is the list of the bytes from the
  pointer to the end of its allocated block; reading at the empty list is \<open>Undefined\<close>.
\<close>

section \<open>One character\<close>

definition utf8_char_size :: "u32 \<Rightarrow> nat" where
  "utf8_char_size c =
     (if c = 0 then 2
      else if c \<le> 0x7F then 1
      else if c \<le> 0x7FF then 2
      else if c \<le> 0xFFFF then 3
      else 4)"

text \<open>
  The macros \<^verbatim>\<open>UTF8_ENCODE_CHAR_k\<close>: the last byte is stored first, each taking the low six
  bits of the character and shifting it, and the first byte combines the header with the
  remaining bits.
\<close>

definition encode_cont :: "u32 \<Rightarrow> u8" where
  "encode_cont c = ucast (c AND 0x3F)"

definition encode_head :: "u32 \<Rightarrow> u32 \<Rightarrow> u32 \<Rightarrow> u8" where
  "encode_head header msk c = ucast (header OR (c AND msk))"

definition utf8_encode :: "u32 \<Rightarrow> bytes" where
  "utf8_encode c =
     (let c1 = drop_bit 6 c; c2 = drop_bit 6 c1; c3 = drop_bit 6 c2 in
      if utf8_char_size c = 1 then [encode_head 0x00 0x7F c]
      else if utf8_char_size c = 2 then [encode_head 0xC0 0x1F c1, encode_cont c]
      else if utf8_char_size c = 3 then [encode_head 0xE0 0x0F c2, encode_cont c1, encode_cont c]
      else if utf8_char_size c = 4 then
        [encode_head 0xF0 0x07 c3, encode_cont c2, encode_cont c1, encode_cont c]
      else [])"

definition utf8_lead_size :: "u8 \<Rightarrow> nat" where
  "utf8_lead_size b =
     (if b AND 0x80 = 0 then 1
      else if b AND 0xF0 = 0xF0 then 4
      else if b AND 0xF0 = 0xE0 then 3
      else 2)"

definition decode_head :: "u32 \<Rightarrow> nat \<Rightarrow> u8 \<Rightarrow> u32" where
  "decode_head msk len b = push_bit ((len - 1) * 6) (ucast b AND msk)"

definition decode_cont :: "nat \<Rightarrow> nat \<Rightarrow> u8 \<Rightarrow> u32" where
  "decode_cont len index b = push_bit ((len - index - 1) * 6) (ucast b AND 0x3F)"

fun utf8_decode :: "bytes \<Rightarrow> u32 result" where
  "utf8_decode [] = Inl Undefined"
| "utf8_decode (b # bs) =
     (if utf8_lead_size b = 4 then
        (case bs of b1 # b2 # b3 # _ \<Rightarrow>
           Inr (((decode_head 0x07 4 b OR decode_cont 4 1 b1) OR decode_cont 4 2 b2)
                OR decode_cont 4 3 b3)
         | _ \<Rightarrow> Inl Undefined)
      else if utf8_lead_size b = 3 then
        (case bs of b1 # b2 # _ \<Rightarrow>
           Inr ((decode_head 0x0F 3 b OR decode_cont 3 1 b1) OR decode_cont 3 2 b2)
         | _ \<Rightarrow> Inl Undefined)
      else if utf8_lead_size b = 2 then
        (case bs of b1 # _ \<Rightarrow> Inr (decode_head 0x1F 2 b OR decode_cont 2 1 b1)
         | _ \<Rightarrow> Inl Undefined)
      else Inr (decode_head 0x7F 1 b))"

section \<open>Scanning a buffer\<close>

text \<open>The inner \<^verbatim>\<open>do ... while\<close> loop of \<^verbatim>\<open>UTF8GetStringLength\<close>: skip a run of ASCII.\<close>

fun ascii_run :: "bytes \<Rightarrow> nat \<Rightarrow> (bytes \<times> nat) result" where
  "ascii_run [] count = Inl Undefined"
| "ascii_run (b # bs) count =
     (if b \<noteq> 0 \<and> b AND 0x80 = 0 then ascii_run bs (count + 1) else Inr (b # bs, count))"

text \<open>The \<^verbatim>\<open>switch\<close>: how far a byte with its top bit set moves the pointer.\<close>

definition switch_skip :: "u8 \<Rightarrow> nat" where
  "switch_skip b = (if b AND 0xF0 = 0xF0 then 4 else if b AND 0xF0 = 0xE0 then 3 else 2)"

lemma ascii_run_length: "ascii_run bs n = Inr (bs', n') \<Longrightarrow> length bs' \<le> length bs"
  by (induction bs n rule: ascii_run.induct) (auto split: if_splits)

lemma ascii_run_nonempty: "ascii_run bs n = Inr (bs', n') \<Longrightarrow> bs' \<noteq> []"
  by (induction bs n rule: ascii_run.induct) (auto split: if_splits)

function utf8_string_length :: "bytes \<Rightarrow> nat \<Rightarrow> nat result" where
  "utf8_string_length data count =
     (if data = [] then Inl Undefined
      else if hd data = 0 then Inr count
      else if hd data AND 0x80 = 0 then
        (case ascii_run data count of
           Inl e \<Rightarrow> Inl e
         | Inr (rest, n) \<Rightarrow>
             if hd rest = 0 then Inr n
             else utf8_string_length (drop (switch_skip (hd rest)) rest) (n + 1))
      else utf8_string_length (drop (switch_skip (hd data)) data) (count + 1))"
  by pat_completeness auto
termination
proof (relation "measure (\<lambda>(data, count). length data)", goal_cases)
  case (2 data count x rest n)
  then show ?case
    using ascii_run_length [of data count rest n] ascii_run_nonempty [of data count rest n]
    by (cases rest) (auto simp: switch_skip_def)
qed (auto simp: switch_skip_def length_greater_0_conv [symmetric] simp del: length_greater_0_conv)

text \<open>
  \<^verbatim>\<open>UTF8GetStringOffset\<close> takes a signed \<^verbatim>\<open>index\<close> and stops when it reaches zero.  Its inner
  loop decrements the index as it skips ASCII.
\<close>

fun ascii_run_upto :: "bytes \<Rightarrow> int \<Rightarrow> nat \<Rightarrow> (bytes \<times> int \<times> nat) result" where
  "ascii_run_upto data index off =
     (if index \<le> 0 then Inr (data, index, off)
      else case data of
        [] \<Rightarrow> Inl Undefined
      | b # bs \<Rightarrow>
          if b \<noteq> 0 \<and> b AND 0x80 = 0 then ascii_run_upto bs (index - 1) (off + 1)
          else Inr (b # bs, index, off))"

declare utf8_string_length.simps [simp del] ascii_run_upto.simps [simp del]

lemma ascii_run_upto_length:
  "ascii_run_upto bs i n = Inr (bs', i', n') \<Longrightarrow> length bs' \<le> length bs \<and> i' \<le> i"
proof (induction bs i n rule: ascii_run_upto.induct)
  case (1 data index off)
  then show ?case
    by (subst (asm) (2) ascii_run_upto.simps)
       (fastforce split: if_splits list.splits)
qed

lemma ascii_run_upto_nonempty:
  "ascii_run_upto bs i n = Inr (bs', i', n') \<Longrightarrow> 0 < i' \<Longrightarrow> bs' \<noteq> []"
proof (induction bs i n rule: ascii_run_upto.induct)
  case (1 data index off)
  then show ?case
    by (subst (asm) (2) ascii_run_upto.simps)
       (fastforce split: if_splits list.splits)
qed

function utf8_offset_loop :: "bytes \<Rightarrow> int \<Rightarrow> nat \<Rightarrow> nat result" where
  "utf8_offset_loop data index off =
     (if index \<le> 0 then Inr off
      else if data = [] then Inl Undefined
      else if hd data = 0 then Inr off
      else if hd data AND 0x80 = 0 then
        (case ascii_run_upto data index off of
           Inl e \<Rightarrow> Inl e
         | Inr (rest, i, o') \<Rightarrow>
             if i \<le> 0 then Inr o'
             else if hd rest = 0 then Inr o'
             else utf8_offset_loop (drop (switch_skip (hd rest)) rest) (i - 1)
                    (o' + switch_skip (hd rest)))
      else utf8_offset_loop (drop (switch_skip (hd data)) data) (index - 1)
             (off + switch_skip (hd data)))"
  by pat_completeness auto
termination
proof (relation "measure (\<lambda>(data, index, off). nat index)", goal_cases)
  case (2 data index off x rest y i o')
  then show ?case
    using ascii_run_upto_length [of data index off rest i o'] by auto
qed auto

declare utf8_offset_loop.simps [simp del]

definition utf8_offset :: "bytes \<Rightarrow> int \<Rightarrow> nat result" where
  "utf8_offset data index = utf8_offset_loop data index 0"

section \<open>Encoding and decoding one character\<close>

text \<open>The tests on the first byte, bit by bit.\<close>

lemma top_clear: "(w::u8) AND 0x80 = 0 \<longleftrightarrow> \<not> bit w 7"
  by (simp add: u8_eq_iff all_less_8 bit_simps)

lemma high_F0: "(w::u8) AND 0xF0 = 0xF0 \<longleftrightarrow> bit w 7 \<and> bit w 6 \<and> bit w 5 \<and> bit w 4"
  by (auto simp add: u8_eq_iff all_less_8 bit_simps)
  
lemma high_E0: "(w::u8) AND 0xF0 = 0xE0 \<longleftrightarrow> bit w 7 \<and> bit w 6 \<and> bit w 5 \<and> \<not> bit w 4"
  by (auto simp add: u8_eq_iff all_less_8 bit_simps)

lemma utf8_lead_size_bits: "utf8_lead_size b = (if \<not> bit b 7 then 1 else if bit b 6 \<and> bit b 5 then (if bit b 4 then 4 else 3) else 2)"
  by (simp add: utf8_lead_size_def top_clear high_F0 high_E0)

lemma encode_head_bits: "bit (encode_head h m c) n \<longleftrightarrow> n < 8 \<and> (bit h n \<or> bit c n \<and> bit m n)"
  by (auto simp: encode_head_def bit_simps)

lemma encode_head_lead:
  "utf8_lead_size (encode_head 0 0x7F c) = 1" "utf8_lead_size (encode_head 0xC0 0x1F c) = 2"
  "utf8_lead_size (encode_head 0xE0 0x0F c) = 3" "utf8_lead_size (encode_head 0xF0 0x07 c) = 4"
  by (simp_all add: utf8_lead_size_bits encode_head_bits)

lemma mask_lits: "(0x3F::u32) = mask 6" "(0x7F::u32) = mask 7" "(0x1F::u32) = mask 5"
   "(0x0F::u32) = mask 4" "(0x07::u32) = mask 3"
  by (simp_all add: mask_eq_exp_minus_1)

lemma cont_back: "ucast (encode_cont x) AND 0x3F = (take_bit 6 x :: u32)"
  by (rule bit_word_eqI) (auto simp: encode_cont_def mask_lits bit_simps)


lemma decode_cont_back:
  "decode_cont len i (encode_cont x) = push_bit ((len - i - 1) * 6) (take_bit 6 x)"
  by (simp only: decode_cont_def cont_back)

lemma head_back_gen:
  assumes k: "k \<le> 8" and h: "take_bit k (h :: u32) = 0"
  shows "ucast (encode_head h (mask k) x) AND mask k = (take_bit k x :: u32)"
proof (rule bit_word_eqI)
  fix n assume "n < LENGTH(32)"
  have "n < k \<Longrightarrow> \<not> bit h n"
    using h by (metis bit_0_eq bit_take_bit_iff bot_apply bot_bool_def)
  then show "bit (ucast (encode_head h (mask k) x) AND mask k :: u32) n = bit (take_bit k x) n"
    using k by (auto simp: encode_head_bits bit_simps)
qed

lemma head_back:
  "ucast (encode_head 0x00 0x7F x) AND 0x7F = (take_bit 7 x :: u32)"
  "ucast (encode_head 0xC0 0x1F x) AND 0x1F = (take_bit 5 x :: u32)"
  "ucast (encode_head 0xE0 0x0F x) AND 0x0F = (take_bit 4 x :: u32)"
  "ucast (encode_head 0xF0 0x07 x) AND 0x07 = (take_bit 3 x :: u32)"
  unfolding mask_lits by (rule head_back_gen; simp)+

lemma cont_merge:
  "push_bit (n + 6) (take_bit k (drop_bit 6 y)) OR push_bit n (take_bit 6 y)
   = push_bit n (take_bit (k + 6) (y :: u32))"
  by (rule bit_word_eqI) (auto simp: bit_simps)

lemma small_take_bit: "(c::u32) < 2 ^ n \<Longrightarrow> take_bit n c = c"
  by (cases "n < 32") (simp_all add: take_bit_eq_mask less_mask_eq take_bit_word_eq_self)

lemma char_size_cases:
  "utf8_char_size c = 1 \<and> c \<noteq> 0 \<and> c < 2 ^ 7 \<or> utf8_char_size c = 2 \<and> c < 2 ^ 11 \<or>
   utf8_char_size c = 3 \<and> c < 2 ^ 16 \<or> utf8_char_size c = 4"
  by (auto simp: utf8_char_size_def word_less_nat_alt word_le_nat_alt)

lemma utf8_decode_encode: "c < 2 ^ 21 \<Longrightarrow> utf8_decode (utf8_encode c @ rest) = Inr c"
proof -
  assume c: "c < 2 ^ 21"
  consider "utf8_char_size c = 1" "c < 2 ^ 7" | "utf8_char_size c = 2" "c < 2 ^ 11"
    | "utf8_char_size c = 3" "c < 2 ^ 16" | "utf8_char_size c = 4" using char_size_cases by blast
  then show ?thesis
  proof cases
    case 1
    then show ?thesis
      by (simp add: utf8_encode_def encode_head_lead decode_head_def head_back small_take_bit)
  next
    case 2
    then show ?thesis
      using cont_merge[of 0 5 c]
      by (simp add: utf8_encode_def encode_head_lead decode_head_def decode_cont_back head_back small_take_bit)
  next
    case 3
    then show ?thesis
      using cont_merge[of 0 10 c] cont_merge[of 6 4 "drop_bit 6 c"]
      by (simp add: utf8_encode_def encode_head_lead decode_head_def decode_cont_back head_back small_take_bit)
  next
    case 4
    then show ?thesis
      using cont_merge[of 0 15 c] cont_merge[of 6 9 "drop_bit 6 c"] cont_merge[of 12 3 "drop_bit 6 (drop_bit 6 c)"] c
      by (simp add: utf8_encode_def encode_head_lead decode_head_def decode_cont_back head_back small_take_bit)
  qed
qed

section \<open>Buffers made of encoded characters\<close>

text \<open>
  A unit is a run of bytes that the decoder reads as one character: it does not start with
  a zero byte and its first byte announces its length.  The buffer of a string of units is
  their concatenation and a zero byte; what follows is not looked at.
\<close>

definition utf8_unit :: "bytes \<Rightarrow> u32 \<Rightarrow> bool" where
  "utf8_unit u c \<longleftrightarrow>
     u \<noteq> [] \<and> hd u \<noteq> 0 \<and> length u = utf8_lead_size (hd u) \<and> utf8_decode u = Inr c"

definition utf8_units :: "bytes list \<Rightarrow> bool" where
  "utf8_units us \<longleftrightarrow> (\<forall>u \<in> set us. \<exists>c. utf8_unit u c)"

lemma utf8_units_Nil [simp]: "utf8_units []"
  by (simp add: utf8_units_def)

lemma utf8_units_Cons [simp]: "utf8_units (u # us) \<longleftrightarrow> (\<exists>c. utf8_unit u c) \<and> utf8_units us"
  by (simp add: utf8_units_def)

lemma utf8_units_append [simp]: "utf8_units (us @ vs) \<longleftrightarrow> utf8_units us \<and> utf8_units vs"
  by (auto simp: utf8_units_def)

lemma utf8_encode_length: "length (utf8_encode c) = utf8_char_size c"
  using char_size_cases [of c] by (auto simp: utf8_encode_def)

lemma utf8_encode_lead:
  "utf8_encode c \<noteq> [] \<and> utf8_lead_size (hd (utf8_encode c)) = utf8_char_size c"
  using char_size_cases [of c] by (auto simp: utf8_encode_def encode_head_lead)

lemma lead_nonzero: "1 < utf8_lead_size b \<Longrightarrow> b \<noteq> 0"
  by (auto simp: utf8_lead_size_def)

lemma utf8_encode_hd: "hd (utf8_encode c) \<noteq> 0"
proof (cases "utf8_char_size c = 1")
  case True
  then have c: "c \<noteq> 0" "c < 2 ^ 7"
    using char_size_cases [of c] by auto
  have hd: "hd (utf8_encode c) = encode_head 0x00 0x7F c"
    using True by (simp add: utf8_encode_def)
  show ?thesis
  proof
    assume "hd (utf8_encode c) = 0"
    then have "take_bit 7 c = 0" using head_back(1) [of c] hd by simp
    then show False using c by (simp add: small_take_bit)
  qed
next
  case False
  then have "1 < utf8_lead_size (hd (utf8_encode c))"
    using utf8_encode_lead [of c] char_size_cases [of c] by auto
  then show ?thesis by (rule lead_nonzero)
qed

lemma utf8_encode_unit: "c < 2 ^ 21 \<Longrightarrow> utf8_unit (utf8_encode c) c"
  using utf8_decode_encode [of c "[]"] utf8_encode_lead [of c]
  by (simp add: utf8_unit_def utf8_encode_hd utf8_encode_length)

lemma utf8_decode_append:
  assumes "utf8_unit u c" shows "utf8_decode (u @ rest) = Inr c"
proof -
  from assms obtain b bs where u: "u = b # bs" by (cases u) (auto simp: utf8_unit_def)
  with assms show ?thesis
    by (auto simp: utf8_unit_def utf8_lead_size_def split: if_splits list.splits)
qed

lemma utf8_unit_cases:
  assumes "utf8_unit u c"
  obtains b bs where "u = b # bs" "b \<noteq> 0" "length u = utf8_lead_size b"
  using assms by (cases u) (auto simp: utf8_unit_def)

lemma lead_size_ascii: "b AND 0x80 = 0 \<Longrightarrow> utf8_lead_size b = 1"
  by (simp add: utf8_lead_size_def)

lemma switch_skip_lead: "b AND 0x80 \<noteq> 0 \<Longrightarrow> switch_skip b = utf8_lead_size b"
  by (simp add: switch_skip_def utf8_lead_size_def)

lemma utf8_lead_size_pos: "0 < utf8_lead_size b"
  by (simp add: utf8_lead_size_def)

section \<open>The scanners on a buffer of units\<close>

text \<open>
  Both scanners treat a run of ASCII bytes in an inner loop.  One round of either loop is
  one unit, so they agree with the simple recursion over units.
\<close>

lemma utf8_string_length_Nil: "utf8_string_length (0 # junk) n = Inr n"
  by (subst utf8_string_length.simps) simp

lemma utf8_string_length_ascii:
  assumes "b \<noteq> 0" and "b AND 0x80 = 0"
  shows "utf8_string_length (b # bs) n = utf8_string_length bs (n + 1)"
proof (cases bs)
  case Nil
  then show ?thesis using assms
    by (subst (1 2) utf8_string_length.simps) simp
next
  case (Cons b' bs')
  show ?thesis
  proof (cases "b' \<noteq> 0 \<and> b' AND 0x80 = 0")
    case True
    then show ?thesis using assms Cons
      by (subst (1 2) utf8_string_length.simps) simp
  next
    case False
    then show ?thesis using assms Cons
      by (subst utf8_string_length.simps, subst (2) utf8_string_length.simps) auto
  qed
qed

lemma utf8_string_length_multi:
  assumes "b AND 0x80 \<noteq> 0"
  shows "utf8_string_length (b # bs) n
         = utf8_string_length (drop (utf8_lead_size b) (b # bs)) (n + 1)"
proof -
  have "b \<noteq> 0" using assms by auto
  then show ?thesis using assms
    by (subst utf8_string_length.simps) (simp add: switch_skip_lead)
qed

lemma utf8_string_length_unit:
  assumes "utf8_unit u c"
  shows "utf8_string_length (u @ rest) n = utf8_string_length rest (n + 1)"
proof -
  obtain b bs where u: "u = b # bs" "b \<noteq> 0" "length u = utf8_lead_size b"
    using assms by (rule utf8_unit_cases)
  show ?thesis
  proof (cases "b AND 0x80 = 0")
    case True
    with u show ?thesis by (simp add: lead_size_ascii utf8_string_length_ascii)
  next
    case False
    have "drop (utf8_lead_size b) (u @ rest) = rest"
      using u(3) by (simp flip: u(3))
    with False u show ?thesis by (simp add: utf8_string_length_multi)
  qed
qed

theorem utf8_string_length_units:
  "utf8_units us \<Longrightarrow> utf8_string_length (concat us @ 0 # junk) n = Inr (n + length us)"
  by (induction us arbitrary: n)
     (auto simp: utf8_string_length_Nil utf8_string_length_unit)

lemma utf8_offset_zero: "i \<le> 0 \<Longrightarrow> utf8_offset_loop bs i off = Inr off"
  by (subst utf8_offset_loop.simps) simp

lemma utf8_offset_Nil: "utf8_offset_loop (0 # junk) i off = Inr off"
  by (subst utf8_offset_loop.simps) simp

lemma utf8_offset_ascii:
  assumes "b \<noteq> 0" and "b AND 0x80 = 0" and "0 < i"
  shows "utf8_offset_loop (b # bs) i off = utf8_offset_loop bs (i - 1) (off + 1)"
proof -
  have run: "ascii_run_upto (b # bs) i off = ascii_run_upto bs (i - 1) (off + 1)"
    using assms by (subst ascii_run_upto.simps) simp
  note lhs = utf8_offset_loop.simps [of "b # bs" i off]
  note rhs = utf8_offset_loop.simps [of bs "i - 1" "off + 1"]
  note stop = ascii_run_upto.simps [of bs "i - 1" "off + 1"]
  consider "i - 1 \<le> 0" | "\<not> i - 1 \<le> 0" "bs = []"
    | "\<not> i - 1 \<le> 0" "bs \<noteq> []" "hd bs \<noteq> 0 \<and> hd bs AND 0x80 = 0"
    | "\<not> i - 1 \<le> 0" "bs \<noteq> []" "\<not> (hd bs \<noteq> 0 \<and> hd bs AND 0x80 = 0)" by blast
  then show ?thesis
  proof cases
    case 1
    then show ?thesis using assms unfolding lhs rhs run stop by simp
  next
    case 2
    then show ?thesis using assms unfolding lhs rhs run stop by simp
  next
    case 3
    then show ?thesis using assms unfolding lhs rhs run by simp
  next
    case 4
    then show ?thesis using assms unfolding lhs rhs run stop
      by (auto split: list.splits)
  qed
qed

lemma utf8_offset_multi:
  assumes "b AND 0x80 \<noteq> 0" and "0 < i"
  shows "utf8_offset_loop (b # bs) i off
         = utf8_offset_loop (drop (utf8_lead_size b) (b # bs)) (i - 1) (off + utf8_lead_size b)"
proof -
  have "b \<noteq> 0" using assms by auto
  then show ?thesis using assms
    by (subst utf8_offset_loop.simps) (simp add: switch_skip_lead)
qed

lemma utf8_offset_unit:
  assumes "utf8_unit u c" and "0 < i"
  shows "utf8_offset_loop (u @ rest) i off = utf8_offset_loop rest (i - 1) (off + length u)"
proof -
  obtain b bs where u: "u = b # bs" "b \<noteq> 0" "length u = utf8_lead_size b"
    using assms(1) by (rule utf8_unit_cases)
  show ?thesis
  proof (cases "b AND 0x80 = 0")
    case True
    with u assms(2) show ?thesis by (simp add: lead_size_ascii utf8_offset_ascii)
  next
    case False
    have "drop (utf8_lead_size b) (u @ rest) = rest"
      using u(3) by (simp flip: u(3))
    with False u assms(2) show ?thesis by (simp add: utf8_offset_multi)
  qed
qed

lemma utf8_offset_loop_units:
  "utf8_units us \<Longrightarrow>
   utf8_offset_loop (concat us @ 0 # junk) (int k) off
   = Inr (off + length (concat (take k us)))"
proof (induction us arbitrary: k off)
  case Nil
  then show ?case by (simp add: utf8_offset_Nil)
next
  case (Cons u us)
  then obtain c where u: "utf8_unit u c" by auto
  show ?case
  proof (cases k)
    case 0
    then show ?thesis by (simp add: utf8_offset_zero)
  next
    case (Suc k')
    with Cons u show ?thesis
      by (simp add: utf8_offset_unit)
  qed
qed

theorem utf8_offset_units:
  "utf8_units us \<Longrightarrow>
   utf8_offset (concat us @ 0 # junk) (int k) = Inr (length (concat (take k us)))"
  by (simp add: utf8_offset_def utf8_offset_loop_units)

end
