(* ===== verification/Data_Buffer.thy ===== *)
theory Data_Buffer
  imports Prelude
begin

text \<open>
  \<^verbatim>\<open>Bricks::Data\<close> (\<^verbatim>\<open>include/bricks/core/data.h\<close>, \<^verbatim>\<open>source/core/data.cpp\<close>): a pointer
  to a block of bytes with a length that may be changed without touching the block, and
  the helpers \<^verbatim>\<open>Min\<close>, \<^verbatim>\<open>RoundUp\<close>, \<dots> of \<^verbatim>\<open>include/bricks/core/math.h\<close>.
\<close>

section \<open>Arithmetic helpers\<close>

definition math_min :: "'a::linorder \<Rightarrow> 'a \<Rightarrow> 'a" where
  "math_min a b = (if a < b then a else b)"

definition math_max :: "'a::linorder \<Rightarrow> 'a \<Rightarrow> 'a" where
  "math_max a b = (if a > b then a else b)"

definition math_abs :: "int \<Rightarrow> int" where
  "math_abs num = (if num < 0 then - num else num)"

definition round_down :: "nat \<Rightarrow> nat \<Rightarrow> nat" where
  "round_down num r = num div r * r"

definition round_up :: "nat \<Rightarrow> nat \<Rightarrow> nat" where
  "round_up num r = round_down (num + r - 1) r"

definition math_clamp :: "'a::linorder \<Rightarrow> 'a \<Rightarrow> 'a \<Rightarrow> 'a" where
  "math_clamp num lo hi = math_max (math_min num hi) lo"

lemma math_min_min [simp]: "math_min a b = min a b"
  by (auto simp: math_min_def min_def)

lemma math_max_max [simp]: "math_max a b = max a b"
  by (auto simp: math_max_def max_def)

lemma math_clamp_range: "lo \<le> hi \<Longrightarrow> lo \<le> math_clamp num lo hi \<and> math_clamp num lo hi \<le> hi"
  by (auto simp: math_clamp_def)

lemma math_clamp_id: "lo \<le> num \<Longrightarrow> num \<le> hi \<Longrightarrow> math_clamp num lo hi = num"
  by (simp add: math_clamp_def)

lemma round_up_dvd: "r dvd round_up n r"
  by (simp add: round_up_def round_down_def)

lemma round_up_bounds:
  assumes "0 < r" shows "n \<le> round_up n r \<and> round_up n r < n + r"
proof -
  have "(n + r - 1) div r * r + (n + r - 1) mod r = n + r - 1" by simp
  moreover have "(n + r - 1) mod r < r" using assms by simp
  ultimately show ?thesis using assms unfolding round_up_def round_down_def by linarith
qed

lemma round_up_multiple: "0 < r \<Longrightarrow> r dvd n \<Longrightarrow> round_up n r = n"
proof -
  assume r: "0 < r" "r dvd n"
  then obtain k where n: "n = r * k" by blast
  obtain j where j: "round_up n r = r * j" using round_up_dvd [of r n] by blast
  have "r * k \<le> r * j \<and> r * j < r * (k + 1)"
    using round_up_bounds [OF r(1), of n] n j by (simp add: algebra_simps)
  then have "k \<le> j \<and> j < k + 1" using r(1) mult_less_cancel1 mult_le_cancel1 by blast
  then show ?thesis using n j by auto
qed

section \<open>Data\<close>

record data =
  d_block :: bytes
  d_length :: nat
  d_owned :: bool

definition data_new :: "(nat \<Rightarrow> u8) \<Rightarrow> nat \<Rightarrow> data" where
  "data_new g len = \<lparr>d_block = fresh_block g len, d_length = len, d_owned = True\<rparr>"

definition data_construct :: "(nat \<Rightarrow> u8) \<Rightarrow> data \<Rightarrow> data" where
  "data_construct g d = d\<lparr>d_block := fresh_block g (d_length d), d_owned := True\<rparr>"

definition data_copy_from :: "data \<Rightarrow> bytes \<Rightarrow> nat \<Rightarrow> nat \<Rightarrow> data result" where
  "data_copy_from d value len offset =
     bind_r (mem_read value 0 (math_min len (size_sub (d_length d) offset))) (\<lambda>bs.
     bind_r (mem_write (d_block d) offset bs) (\<lambda>m.
     Inr (d\<lparr>d_block := m\<rparr>)))"

definition data_of_bytes :: "(nat \<Rightarrow> u8) \<Rightarrow> bytes \<Rightarrow> nat \<Rightarrow> bool \<Rightarrow> data result" where
  "data_of_bytes g src len copy =
     (if copy
      then data_copy_from
             (data_construct g \<lparr>d_block = [], d_length = len, d_owned = True\<rparr>) src len 0
      else Inr \<lparr>d_block = src, d_length = len, d_owned = False\<rparr>)"

definition data_of_data :: "(nat \<Rightarrow> u8) \<Rightarrow> data \<Rightarrow> bool \<Rightarrow> data result" where
  "data_of_data g d copy =
     (if copy
      then data_copy_from
             (data_construct g \<lparr>d_block = [], d_length = d_length d, d_owned = True\<rparr>)
             (d_block d) (d_length d) 0
      else Inr \<lparr>d_block = d_block d, d_length = d_length d, d_owned = False\<rparr>)"

definition data_assign :: "(nat \<Rightarrow> u8) \<Rightarrow> data \<Rightarrow> data \<Rightarrow> data result" where
  "data_assign g d rhs =
     data_copy_from (data_construct g (d\<lparr>d_length := d_length rhs\<rparr>))
       (d_block rhs) (d_length rhs) 0"

definition data_subdata :: "(nat \<Rightarrow> u8) \<Rightarrow> data \<Rightarrow> nat \<Rightarrow> nat \<Rightarrow> data result" where
  "data_subdata g d offset len =
     (if offset \<le> length (d_block d)
      then data_of_bytes g (drop offset (d_block d)) (if len = npos then d_length d else len) True
      else Inl Undefined)"

definition data_set_size :: "data \<Rightarrow> nat \<Rightarrow> data" where
  "data_set_size d n = d\<lparr>d_length := n\<rparr>"

definition data_get_value :: "data \<Rightarrow> nat \<Rightarrow> u8 result" where
  "data_get_value d i = peek (d_block d) i"

definition data_set_value :: "data \<Rightarrow> nat \<Rightarrow> u8 \<Rightarrow> data result" where
  "data_set_value d i v = bind_r (poke (d_block d) i v) (\<lambda>m. Inr (d\<lparr>d_block := m\<rparr>))"

text \<open>A well-formed buffer has at least as many bytes as its length says.\<close>

definition data_ok :: "data \<Rightarrow> bool" where
  "data_ok d \<longleftrightarrow> d_length d \<le> length (d_block d)"

definition data_contents :: "data \<Rightarrow> bytes" where
  "data_contents d = take (d_length d) (d_block d)"

lemma data_new_ok: "data_ok (data_new g n)"
  by (simp add: data_ok_def data_new_def)

text \<open>A whole-buffer copy into a buffer of the same length.\<close>

lemma data_copy_from_all:
  "len \<le> length src \<Longrightarrow>
   data_copy_from (data_construct g \<lparr>d_block = b, d_length = len, d_owned = ow\<rparr>) src len 0
   = Inr \<lparr>d_block = take len src, d_length = len, d_owned = True\<rparr>"
  by (simp add: data_copy_from_def data_construct_def size_sub_def mem_read_def mem_write_def)

lemma data_of_bytes_copy:
  "len \<le> length src \<Longrightarrow>
   data_of_bytes g src len True
   = Inr \<lparr>d_block = take len src, d_length = len, d_owned = True\<rparr>"
  by (simp add: data_of_bytes_def data_copy_from_all)

lemma data_of_data_copy:
  "data_ok d \<Longrightarrow>
   data_of_data g d True
   = Inr \<lparr>d_block = data_contents d, d_length = d_length d, d_owned = True\<rparr>"
  by (simp add: data_of_data_def data_copy_from_all data_ok_def data_contents_def)

lemma data_assign_contents:
  "data_ok rhs \<Longrightarrow>
   data_assign g d rhs
   = Inr \<lparr>d_block = data_contents rhs, d_length = d_length rhs, d_owned = True\<rparr>"
  by (cases d)
     (simp add: data_assign_def data_construct_def data_copy_from_def size_sub_def mem_read_def
       mem_write_def data_ok_def data_contents_def)

text \<open>A copy within the bounds of both blocks changes only the copied range.\<close>

lemma data_copy_from_range:
  assumes "data_ok d" and "off \<le> d_length d" and "len \<le> length src"
  shows "data_copy_from d src len off
         = Inr (d\<lparr>d_block := take off (d_block d) @ take (min len (d_length d - off)) src
                  @ drop (off + min len (d_length d - off)) (d_block d)\<rparr>)"
  using assms
  by (auto simp: data_copy_from_def size_sub_def data_ok_def mem_read_def mem_write_def min_def)

end
