(* ===== verification/BString.thy ===== *)
theory BString
  imports Utf8 Data_Buffer
begin

text \<open>
  \<^verbatim>\<open>Bricks::String\<close> (\<^verbatim>\<open>include/bricks/core/string.h\<close>, \<^verbatim>\<open>source/core/string.cpp\<close>): a
  buffer that ends in a zero byte and a cached character count, zero when it is not known.
  Operations on one string are modelled on its value; \<open>g\<close> gives the bytes that
  \<^verbatim>\<open>new u8[n]\<close> leaves in a fresh block.  A \<^verbatim>\<open>size_t\<close> index passed to
  \<^verbatim>\<open>UTF8GetStringOffset\<close> is narrowed to \<^verbatim>\<open>int\<close>, as there.
\<close>

declare utf8_decode.simps [simp del]

section \<open>The C string functions used\<close>

fun c_strlen :: "bytes \<Rightarrow> nat result" where
  "c_strlen [] = Inl Undefined"
| "c_strlen (b # bs) = (if b = 0 then Inr 0 else bind_r (c_strlen bs) (\<lambda>n. Inr (n + 1)))"

text \<open>The \<open>n\<close> bytes that \<^verbatim>\<open>strncpy\<close> writes: up to the zero byte, then zeros.\<close>

fun c_strncpy :: "bytes \<Rightarrow> nat \<Rightarrow> bytes result" where
  "c_strncpy src 0 = Inr []"
| "c_strncpy [] (Suc n) = Inl Undefined"
| "c_strncpy (b # bs) (Suc n) =
     (if b = 0 then Inr (replicate (Suc n) 0)
      else bind_r (c_strncpy bs n) (\<lambda>r. Inr (b # r)))"

text \<open>The sign of \<^verbatim>\<open>strcmp\<close> and \<^verbatim>\<open>strncmp\<close> (bytes compared as unsigned).\<close>

fun c_strcmp :: "bytes \<Rightarrow> bytes \<Rightarrow> int result" where
  "c_strcmp (a # as) (b # bs) =
     (if a < b then Inr (- 1) else if b < a then Inr 1
      else if a = 0 then Inr 0 else c_strcmp as bs)"
| "c_strcmp _ _ = Inl Undefined"

fun c_strncmp :: "bytes \<Rightarrow> bytes \<Rightarrow> nat \<Rightarrow> int result" where
  "c_strncmp as bs 0 = Inr 0"
| "c_strncmp (a # as) (b # bs) (Suc n) =
     (if a < b then Inr (- 1) else if b < a then Inr 1
      else if a = 0 then Inr 0 else c_strncmp as bs n)"
| "c_strncmp _ _ (Suc n) = Inl Undefined"

section \<open>The string and its constructors\<close>

record bstring =
  bs_buffer :: data
  bs_cached :: nat

abbreviation c_string :: "bstring \<Rightarrow> bytes" where
  "c_string s \<equiv> d_block (bs_buffer s)"

definition get_size :: "bstring \<Rightarrow> nat" where
  "get_size s = size_sub (d_length (bs_buffer s)) 1"

definition int_index :: "nat \<Rightarrow> int" where
  "int_index i = s32 (int i)"

definition string_construct :: "(nat \<Rightarrow> u8) \<Rightarrow> nat \<Rightarrow> bstring result" where
  "string_construct g len =
     bind_r (data_set_value (data_new g (len + 1)) len 0) (\<lambda>d.
     Inr \<lparr>bs_buffer = d, bs_cached = 0\<rparr>)"

definition string_construct_from :: "(nat \<Rightarrow> u8) \<Rightarrow> bytes option \<Rightarrow> nat \<Rightarrow> bstring result" where
  "string_construct_from g str len =
     bind_r (if len = npos then (case str of None \<Rightarrow> Inr 0 | Some src \<Rightarrow> c_strlen src)
             else Inr len) (\<lambda>n.
     bind_r (string_construct g n) (\<lambda>s.
     bind_r (case str of None \<Rightarrow> if n = 0 then Inr [] else Inl Undefined
             | Some src \<Rightarrow> c_strncpy src n) (\<lambda>bs.
     bind_r (mem_write (c_string s) 0 bs) (\<lambda>m.
     Inr (s\<lparr>bs_buffer := (bs_buffer s)\<lparr>d_block := m\<rparr>\<rparr>)))))"

definition string_empty :: "(nat \<Rightarrow> u8) \<Rightarrow> bstring result" where
  "string_empty g = string_construct g 0"

definition string_copy :: "bstring \<Rightarrow> bstring" where
  "string_copy s = \<lparr>bs_buffer = bs_buffer s, bs_cached = bs_cached s\<rparr>"

definition suffix_at :: "bytes \<Rightarrow> nat \<Rightarrow> bytes result" where
  "suffix_at m off = (if off \<le> length m then Inr (drop off m) else Inl Undefined)"

definition string_of_range :: "(nat \<Rightarrow> u8) \<Rightarrow> bstring \<Rightarrow> nat \<Rightarrow> nat \<Rightarrow> bstring result" where
  "string_of_range g s off len =
     bind_r (utf8_offset (c_string s) (int_index off)) (\<lambda>offset.
     bind_r (suffix_at (c_string s) offset) (\<lambda>rest.
     bind_r (if len = npos then Inr (size_sub (get_size s) offset)
             else utf8_offset rest (int_index len)) (\<lambda>n.
     bind_r (string_construct_from g (Some rest) n) (\<lambda>r.
     Inr (r\<lparr>bs_cached := if len = npos then 0 else len\<rparr>)))))"

definition string_of_cstr :: "(nat \<Rightarrow> u8) \<Rightarrow> bytes \<Rightarrow> nat \<Rightarrow> bstring result" where
  "string_of_cstr g str len =
     bind_r (if len = npos then c_strlen str else utf8_offset str (int_index len)) (\<lambda>n.
     bind_r (string_construct_from g (Some str) n) (\<lambda>r.
     Inr (r\<lparr>bs_cached := if len = npos then 0 else len\<rparr>)))"

definition string_of_char :: "(nat \<Rightarrow> u8) \<Rightarrow> u8 \<Rightarrow> nat \<Rightarrow> bstring result" where
  "string_of_char g c repeat =
     bind_r (string_construct g repeat) (\<lambda>s.
     bind_r (mem_write (c_string s) 0 (replicate repeat c)) (\<lambda>m.
     Inr (s\<lparr>bs_buffer := (bs_buffer s)\<lparr>d_block := m\<rparr>\<rparr>)))"

fun fill_characters :: "u32 \<Rightarrow> nat \<Rightarrow> nat \<Rightarrow> nat \<Rightarrow> bytes \<Rightarrow> bytes result" where
  "fill_characters c sz i 0 m = Inr m"
| "fill_characters c sz i (Suc k) m =
     bind_r (mem_write m (i * sz) (utf8_encode c)) (\<lambda>m'. fill_characters c sz (i + 1) k m')"

definition string_of_character :: "(nat \<Rightarrow> u8) \<Rightarrow> u32 \<Rightarrow> nat \<Rightarrow> bstring result" where
  "string_of_character g c repeat =
     (let sz = utf8_char_size c in
      bind_r (string_construct g (repeat * sz)) (\<lambda>s.
      bind_r (fill_characters c sz 0 repeat (c_string s)) (\<lambda>m.
      Inr (s\<lparr>bs_buffer := (bs_buffer s)\<lparr>d_block := m\<rparr>\<rparr>))))"

section \<open>Assignment and concatenation\<close>

definition string_assign :: "bstring \<Rightarrow> bstring \<Rightarrow> bstring" where
  "string_assign s rhs = s\<lparr>bs_buffer := bs_buffer rhs, bs_cached := bs_cached rhs\<rparr>"

definition string_assign_cstr :: "(nat \<Rightarrow> u8) \<Rightarrow> bytes option \<Rightarrow> bstring result" where
  "string_assign_cstr g str = string_construct_from g str npos"

definition string_append :: "(nat \<Rightarrow> u8) \<Rightarrow> bstring \<Rightarrow> bstring \<Rightarrow> bstring result" where
  "string_append g s t =
     bind_r (string_construct_from g (Some (c_string s)) (get_size s + get_size t)) (\<lambda>out.
     bind_r (mem_read (c_string t) 0 (get_size t)) (\<lambda>bs.
     bind_r (mem_write (c_string out) (get_size s) bs) (\<lambda>m.
     Inr (out\<lparr>bs_buffer := (bs_buffer out)\<lparr>d_block := m\<rparr>\<rparr>))))"

definition string_append_assign :: "(nat \<Rightarrow> u8) \<Rightarrow> bstring \<Rightarrow> bstring \<Rightarrow> bstring result" where
  "string_append_assign g s t =
     (let nb = data_new g (get_size s + get_size t + 1) in
      bind_r (mem_read (c_string s) 0 (get_size s)) (\<lambda>xs.
      bind_r (mem_write (d_block nb) 0 xs) (\<lambda>m1.
      bind_r (mem_read (c_string t) 0 (d_length (bs_buffer t))) (\<lambda>ys.
      bind_r (mem_write m1 (get_size s) ys) (\<lambda>m2.
      Inr (s\<lparr>bs_buffer := nb\<lparr>d_block := m2\<rparr>\<rparr>))))))"

section \<open>Characters\<close>

definition string_get_character :: "bstring \<Rightarrow> nat \<Rightarrow> u32 result" where
  "string_get_character s index =
     bind_r (utf8_offset (c_string s) (int_index index)) (\<lambda>offset.
     bind_r (suffix_at (c_string s) offset) utf8_decode)"

definition string_truncate_size :: "bstring \<Rightarrow> nat \<Rightarrow> bstring result" where
  "string_truncate_size s len =
     bind_r (data_set_value (data_set_size (bs_buffer s) (len + 1)) len 0) (\<lambda>d.
     Inr (s\<lparr>bs_buffer := d\<rparr>))"

definition string_truncate :: "bstring \<Rightarrow> nat \<Rightarrow> bstring result" where
  "string_truncate s len =
     bind_r (utf8_offset (c_string s) (int_index len)) (\<lambda>n. string_truncate_size s n)"

text \<open>
  \<^verbatim>\<open>SetCharacter\<close>: a shorter encoding moves the tail down in place and truncates, a longer
  one copies into a new buffer; the new character is then written at the offset.
\<close>

definition string_set_character :: "(nat \<Rightarrow> u8) \<Rightarrow> bstring \<Rightarrow> nat \<Rightarrow> u32 \<Rightarrow> bstring result" where
  "string_set_character g s index character =
     bind_r (utf8_offset (c_string s) (int_index index)) (\<lambda>offset.
     bind_r (peek (c_string s) offset) (\<lambda>b.
     (let sourceSize = utf8_lead_size b;
          destSize = utf8_char_size character;
          buf = bs_buffer s;
          tail_len = size_sub (size_sub (d_length buf) offset) sourceSize in
      bind_r
        (if sourceSize > destSize then
           bind_r (mem_read (d_block buf) (offset + sourceSize) tail_len) (\<lambda>tl.
           bind_r (mem_write (d_block buf) (offset + destSize) tl) (\<lambda>m.
           string_truncate_size (s\<lparr>bs_buffer := buf\<lparr>d_block := m\<rparr>\<rparr>)
             (size_sub (get_size s) (sourceSize - destSize))))
         else if destSize > sourceSize then
           (let nb = data_new g (size_sub (d_length buf + destSize) sourceSize) in
            bind_r (mem_read (d_block buf) 0 offset) (\<lambda>hd.
            bind_r (mem_write (d_block nb) 0 hd) (\<lambda>m1.
            bind_r (mem_read (d_block buf) (offset + sourceSize) tail_len) (\<lambda>tl.
            bind_r (mem_write m1 (offset + destSize) tl) (\<lambda>m2.
            Inr (s\<lparr>bs_buffer := nb\<lparr>d_block := m2\<rparr>\<rparr>))))))
         else Inr s) (\<lambda>s'.
      bind_r (mem_write (c_string s') offset (utf8_encode character)) (\<lambda>m.
      Inr (s'\<lparr>bs_buffer := (bs_buffer s')\<lparr>d_block := m\<rparr>\<rparr>))))))"

section \<open>Length and comparison\<close>

text \<open>\<^verbatim>\<open>GetLength\<close> fills the cache, so it returns the string too.\<close>

definition string_get_length :: "bstring \<Rightarrow> (nat \<times> bstring) result" where
  "string_get_length s =
     (if bs_cached s \<noteq> 0 then Inr (bs_cached s, s)
      else bind_r (utf8_string_length (c_string s) 0) (\<lambda>n. Inr (n, s\<lparr>bs_cached := n\<rparr>)))"

definition string_equal :: "bstring \<Rightarrow> bstring \<Rightarrow> bool result" where
  "string_equal s t =
     (if get_size s = get_size t
      then bind_r (mem_read (c_string s) 0 (get_size s)) (\<lambda>xs.
           bind_r (mem_read (c_string t) 0 (get_size s)) (\<lambda>ys. Inr (xs = ys)))
      else Inr False)"

definition string_compare_cstr_at :: "bstring \<Rightarrow> nat \<Rightarrow> bytes \<Rightarrow> int result" where
  "string_compare_cstr_at s off1 str =
     bind_r (suffix_at (c_string s) off1) (\<lambda>rest. c_strcmp rest str)"

definition string_compare_cstr_len :: "bstring \<Rightarrow> nat \<Rightarrow> bytes \<Rightarrow> nat \<Rightarrow> int result" where
  "string_compare_cstr_len s off1 str len =
     bind_r (suffix_at (c_string s) off1) (\<lambda>rest. c_strncmp rest str len)"

definition string_compare :: "bstring \<Rightarrow> bstring \<Rightarrow> int result" where
  "string_compare s t = string_compare_cstr_at s 0 (c_string t)"

definition string_compare_len :: "bstring \<Rightarrow> bstring \<Rightarrow> nat \<Rightarrow> int result" where
  "string_compare_len s t len = string_compare_cstr_len s 0 (c_string t) len"

definition string_compare_off :: "bstring \<Rightarrow> nat \<Rightarrow> bstring \<Rightarrow> nat \<Rightarrow> nat \<Rightarrow> int result" where
  "string_compare_off s off1 t off2 len =
     bind_r (suffix_at (c_string t) off2) (\<lambda>str. string_compare_cstr_len s off1 str len)"

section \<open>Formatting\<close>

text \<open>\<^verbatim>\<open>vasprintf\<close> and \<^verbatim>\<open>vsscanf\<close> are parameters: the first gives the text of a format and its
  arguments, with a terminator, or fails; the second reads a text and stores through its arguments.\<close>

definition string_format :: "(nat \<Rightarrow> u8) \<Rightarrow> (bytes \<Rightarrow> 'v list \<Rightarrow> bytes option) \<Rightarrow> bstring \<Rightarrow> 'v list \<Rightarrow> bstring result" where
  "string_format g vasprintf format args =
     (case vasprintf (c_string format) args of
        None \<Rightarrow> throw (OutOfMemoryException '''')
      | Some temp \<Rightarrow> string_of_cstr g temp npos)"

definition string_scan :: "(bytes \<Rightarrow> bytes \<Rightarrow> 'v list \<Rightarrow> int \<times> 'v list) \<Rightarrow> bstring \<Rightarrow> bstring \<Rightarrow> 'v list \<Rightarrow> int \<times> 'v list" where
  "string_scan vsscanf s format args = vsscanf (c_string s) (c_string format) args"

section \<open>Substrings and searches\<close>

definition string_substring :: "(nat \<Rightarrow> u8) \<Rightarrow> bstring \<Rightarrow> nat \<Rightarrow> nat \<Rightarrow> bstring result" where
  "string_substring g s off len =
     bind_r (if off = npos then Inr 0 else utf8_offset (c_string s) (int_index off)) (\<lambda>o1.
     bind_r (suffix_at (c_string s) o1) (\<lambda>rest. string_of_cstr g rest len))"

text \<open>
  The search loops walk \<^verbatim>\<open>charData\<close> character by character up to the zero byte.
\<close>

function find_first :: "bytes \<Rightarrow> u32 \<Rightarrow> nat \<Rightarrow> nat result" where
  "find_first charData chr index =
     (case charData of
        [] \<Rightarrow> Inl Undefined
      | b # bs \<Rightarrow>
          if b = 0 then Inr npos
          else bind_r (utf8_decode (b # bs)) (\<lambda>c.
            if c = chr then Inr index
            else find_first (drop (utf8_lead_size b) (b # bs)) chr (index + 1)))"
  by pat_completeness auto
termination
  by (relation "measure (\<lambda>(d, c, i). length d)") (auto simp: utf8_lead_size_pos)

function find_last :: "bytes \<Rightarrow> u32 \<Rightarrow> nat \<Rightarrow> nat \<Rightarrow> nat result" where
  "find_last charData chr index lastIndex =
     (case charData of
        [] \<Rightarrow> Inl Undefined
      | b # bs \<Rightarrow>
          if b = 0 then Inr lastIndex
          else bind_r (utf8_decode (b # bs)) (\<lambda>c.
            find_last (drop (utf8_lead_size b) (b # bs)) chr (index + 1)
              (if c = chr then index else lastIndex)))"
  by pat_completeness auto
termination
  by (relation "measure (\<lambda>(d, c, i, l). length d)") (auto simp: utf8_lead_size_pos)

declare find_first.simps [simp del] find_last.simps [simp del]

definition string_first_index_of :: "bstring \<Rightarrow> u32 \<Rightarrow> nat \<Rightarrow> nat result" where
  "string_first_index_of s chr off =
     bind_r (utf8_offset (c_string s) (int_index off)) (\<lambda>o1.
     bind_r (suffix_at (c_string s) o1) (\<lambda>rest. find_first rest chr off))"

definition string_last_index_of :: "bstring \<Rightarrow> u32 \<Rightarrow> nat \<Rightarrow> nat result" where
  "string_last_index_of s chr off =
     bind_r (utf8_offset (c_string s) (int_index off)) (\<lambda>o1.
     bind_r (suffix_at (c_string s) o1) (\<lambda>rest. find_last rest chr off npos))"

text \<open>
  The searches for any character of a string: the smallest (largest) of the indices found
  for its characters.  The first one starts from the string's own length.
\<close>

fun first_of_loop :: "bstring \<Rightarrow> bstring \<Rightarrow> nat \<Rightarrow> nat list \<Rightarrow> nat \<Rightarrow> nat result" where
  "first_of_loop s str off [] firstindex = Inr firstindex"
| "first_of_loop s str off (i # is) firstindex =
     bind_r (string_get_character str i) (\<lambda>c.
     bind_r (string_first_index_of s c off) (\<lambda>index.
     first_of_loop s str off is
       (if index \<noteq> npos \<and> index < firstindex then index else firstindex)))"

definition string_first_index_of_any ::
    "bstring \<Rightarrow> bstring \<Rightarrow> nat \<Rightarrow> (nat \<times> bstring) result" where
  "string_first_index_of_any s str off =
     bind_r (string_get_length str) (\<lambda>(count, str').
     bind_r (string_get_length s) (\<lambda>(len, s').
     bind_r (first_of_loop s' str' off [0..<count] len) (\<lambda>firstindex.
     Inr (if firstindex = len then npos else firstindex, s'))))"

fun last_of_loop ::
    "bstring \<Rightarrow> bstring \<Rightarrow> nat \<Rightarrow> nat list \<Rightarrow> nat \<Rightarrow> bool \<Rightarrow> (nat \<times> bool) result" where
  "last_of_loop s str off [] firstindex found = Inr (firstindex, found)"
| "last_of_loop s str off (i # is) firstindex found =
     bind_r (string_get_character str i) (\<lambda>c.
     bind_r (string_last_index_of s c off) (\<lambda>index.
     if index \<noteq> npos \<and> index > firstindex then last_of_loop s str off is index True
     else last_of_loop s str off is firstindex found))"

definition string_last_index_of_any :: "bstring \<Rightarrow> bstring \<Rightarrow> nat \<Rightarrow> nat result" where
  "string_last_index_of_any s str off =
     bind_r (string_get_length str) (\<lambda>(count, str').
     bind_r (last_of_loop s str' off [0..<count] 0 False) (\<lambda>(firstindex, found).
     Inr (if found then firstindex else npos)))"


section \<open>Strings of decoded units\<close>

text \<open>
  \<open>string_is s us\<close>: the buffer of \<open>s\<close> holds the units \<open>us\<close> and a zero byte, its length
  counts exactly these, and the cache is empty or right.
\<close>

definition string_is :: "bstring \<Rightarrow> bytes list \<Rightarrow> bool" where
  "string_is s us \<longleftrightarrow>
     utf8_units us \<and>
     (\<exists>junk. c_string s = concat us @ 0 # junk) \<and>
     d_length (bs_buffer s) = length (concat us) + 1 \<and>
     (bs_cached s = 0 \<or> bs_cached s = length us)"

definition unit_char :: "bytes \<Rightarrow> u32" where
  "unit_char u = (case utf8_decode u of Inr c \<Rightarrow> c | Inl _ \<Rightarrow> 0)"

definition string_chars :: "bytes list \<Rightarrow> u32 list" where
  "string_chars us = map unit_char us"

lemma string_isE:
  assumes "string_is s us"
  obtains junk where "utf8_units us" "c_string s = concat us @ 0 # junk"
    "d_length (bs_buffer s) = length (concat us) + 1" "bs_cached s = 0 \<or> bs_cached s = length us"
  using assms by (auto simp: string_is_def)

lemma string_is_size: "string_is s us \<Longrightarrow> get_size s = length (concat us)"
  by (auto simp: string_is_def get_size_def size_sub_def)

lemma int_index_small: "i < 2 ^ 31 \<Longrightarrow> int_index i = int i"
  by (simp add: int_index_def s32_id)

lemma unit_char_unit: "utf8_unit u c \<Longrightarrow> unit_char u = c"
  by (simp add: utf8_unit_def unit_char_def)

lemma utf8_units_nth: "utf8_units us \<Longrightarrow> i < length us \<Longrightarrow> utf8_unit (us ! i) (unit_char (us ! i))"
  by (metis nth_mem unit_char_unit utf8_units_def)

lemma suffix_at_append [mem_simps]: "suffix_at (xs @ ys) (length xs) = Inr ys"
  by (simp add: suffix_at_def)

lemma concat_split2: "concat us = concat (take i us) @ concat (drop i us)"
  by (simp flip: concat_append)

lemma concat_drop_nth: "i < length us \<Longrightarrow> concat (drop i us) = us ! i @ concat (drop (Suc i) us)"
  by (simp flip: Cons_nth_drop_Suc)

lemma string_offset:
  assumes "string_is s us" and "i < 2 ^ 31"
  shows "utf8_offset (c_string s) (int_index i) = Inr (length (concat (take i us)))"
proof -
  from assms(1) obtain junk where "utf8_units us" "c_string s = concat us @ 0 # junk"
    by (rule string_isE)
  then show ?thesis by (simp add: int_index_small [OF assms(2)] utf8_offset_units)
qed

lemma string_suffix:
  assumes "c_string s = concat us @ 0 # junk"
  shows "suffix_at (c_string s) (length (concat (take i us)))
         = Inr (concat (drop i us) @ 0 # junk)"
proof -
  have "c_string s = concat (take i us) @ concat (drop i us) @ 0 # junk"
    using assms concat_split2 [of us i] by simp
  then show ?thesis by (simp only: suffix_at_append)
qed

lemma string_get_character_nth:
  assumes s: "string_is s us" and i: "i < length us" "i < 2 ^ 31"
  shows "string_get_character s i = Inr (string_chars us ! i)"
proof -
  from s obtain junk where us: "utf8_units us" and b: "c_string s = concat us @ 0 # junk"
    by (rule string_isE)
  have "concat (drop i us) @ 0 # junk = us ! i @ (concat (drop (Suc i) us) @ 0 # junk)"
    using i by (simp add: concat_drop_nth)
  then have "suffix_at (c_string s) (length (concat (take i us)))
             = Inr (us ! i @ (concat (drop (Suc i) us) @ 0 # junk))"
    using string_suffix [OF b, of i] by simp
  moreover have "utf8_decode (us ! i @ (concat (drop (Suc i) us) @ 0 # junk)) = Inr (unit_char (us ! i))"
    by (rule utf8_decode_append) (rule utf8_units_nth [OF us i(1)])
  ultimately show ?thesis
    using string_offset [OF s i(2)] i(1) by (simp add: string_get_character_def string_chars_def)
qed

lemma string_get_length_is:
  assumes "string_is s us"
  shows "string_get_length s = Inr (length us, s\<lparr>bs_cached := length us\<rparr>)"
proof -
  from assms obtain junk where us: "utf8_units us" and b: "c_string s = concat us @ 0 # junk"
    and c: "bs_cached s = 0 \<or> bs_cached s = length us"
    by (rule string_isE)
  show ?thesis using c utf8_string_length_units [OF us, of junk 0]
    by (auto simp: string_get_length_def b)
qed

lemma string_is_cache: "string_is s us \<Longrightarrow> string_is (s\<lparr>bs_cached := length us\<rparr>) us"
  by (auto simp: string_is_def)

section \<open>Replacing a character\<close>


text \<open>The three cases of \<^verbatim>\<open>SetCharacter\<close> on a buffer split at the character.\<close>

lemma set_character_buffer:
  assumes b: "c_string s = pre @ u @ post @ 0 # junk"
    and len: "d_length (bs_buffer s) = length (pre @ u @ post) + 1"
    and off: "utf8_offset (c_string s) (int_index i) = Inr (length pre)"
    and u: "utf8_unit u c0"
  shows "\<exists>s' junk'. string_set_character g s i c = Inr s' \<and>
           c_string s' = pre @ utf8_encode c @ post @ 0 # junk' \<and>
           d_length (bs_buffer s') = length (pre @ utf8_encode c @ post) + 1 \<and>
           bs_cached s' = bs_cached s"
proof -
  obtain b0 bs where ub: "u = b0 # bs" and lu: "length u = utf8_lead_size b0"
    using u by (rule utf8_unit_cases)
  have pk: "peek (c_string s) (length pre) = Inr b0"
    by (simp add: b ub peek_append)
  let ?e = "utf8_encode c"
  have le: "length ?e = utf8_char_size c" by (rule utf8_encode_length)
  have tl: "size_sub (size_sub (d_length (bs_buffer s)) (length pre)) (length u) = length (post @ [0::u8])"
    by (simp add: len size_sub_def)
  have rd: "mem_read (c_string s) (length pre + length u) (length (post @ [0])) = Inr (post @ [0])"
    using mem_read_mid [of "pre @ u" "post @ [0]" junk] by (simp add: b)
  consider "length u = length ?e" | "length ?e < length u" | "length u < length ?e" by linarith
  then show ?thesis
  proof cases
    case 1
    have "mem_write (c_string s) (length pre) ?e = Inr (pre @ ?e @ post @ 0 # junk)"
      using mem_write_mid [of ?e u pre] 1 by (simp add: b)
    then show ?thesis using 1 lu le
      by (simp add: string_set_character_def off pk Let_def len)
  next
    case 2
    obtain u1 u2 where u12: "u = u1 @ u2" "length u1 = length ?e"
      using 2 by (metis append_take_drop_id length_take min.absorb4)
    let ?tail = "post @ [0]"
    obtain junk1 where j1: "drop (length ?tail) (u2 @ post @ 0 # junk) = junk1" by simp
    have w1: "mem_write (c_string s) (length pre + length ?e) ?tail
              = Inr (pre @ u1 @ post @ 0 # junk1)"
      using mem_write_prefix [of ?tail "u2 @ post @ 0 # junk" "pre @ u1"] j1
      by (simp add: b u12)
    have sz: "size_sub (get_size s) (length u - length ?e) = length (pre @ u1 @ post)"
      using 2 by (simp add: get_size_def len size_sub_def u12)
    have pk2: "poke (pre @ u1 @ post @ 0 # junk1) (length (pre @ u1 @ post)) 0
               = Inr (pre @ u1 @ post @ 0 # junk1)"
      by (simp add: poke_def list_update_append)
    have w2: "mem_write (pre @ u1 @ post @ 0 # junk1) (length pre) ?e
              = Inr (pre @ ?e @ post @ 0 # junk1)"
      using u12(2) by (intro mem_write_mid) simp
    have lt: "utf8_char_size c < utf8_lead_size b0" using 2 lu le by simp
    have pl: "length (pre @ u1 @ post) = length (pre @ ?e @ post)" using u12(2) by simp
    show ?thesis
      using lt
      by (simp add: string_set_character_def off pk Let_def rd [unfolded lu] tl [unfolded lu]
          w1 [unfolded le] w2 sz [unfolded lu le] pk2 [unfolded pl] pl
          string_truncate_size_def data_set_value_def data_set_size_def
          del: length_append append_assoc list_update_append length_Cons list.size)
  next
    case 3
    let ?nb = "fresh_block g (size_sub (d_length (bs_buffer s) + length ?e) (length u))"
    have ln: "length ?nb = length pre + length ?e + length post + 1"
      using 3 by (simp add: len size_sub_def)
    obtain p2 g2 t2 where nb: "?nb = p2 @ g2 @ t2" "length p2 = length pre"
      "length g2 = length ?e" "length t2 = length (post @ [0::u8])"
      using ln by (rule_tac list_split3 [of ?nb "length pre" "length ?e" "length post + 1"]) auto
    have r0: "mem_read (c_string s) 0 (length pre) = Inr pre"
      using mem_read_mid [of "[]" pre] by (simp add: b)
    have w1: "mem_write ?nb 0 pre = Inr (pre @ g2 @ t2)"
      using mem_write_mid [of pre p2 "[]"] nb by simp
    have dl: "size_sub (d_length (bs_buffer s) + length ?e) (length u) = Suc (length (pre @ ?e @ post))"
      using 3 by (simp add: len size_sub_def)
    have w2: "mem_write (pre @ g2 @ t2) (length pre + length ?e) (post @ [0])
              = Inr (pre @ g2 @ post @ [0])"
      using mem_write_mid [of "post @ [0]" t2 "pre @ g2" "[]"] nb by simp
    have w3: "mem_write (pre @ g2 @ post @ [0]) (length pre) ?e = Inr (pre @ ?e @ post @ [0])"
      using nb(3) by (intro mem_write_mid) simp
    have lt: "utf8_lead_size b0 < utf8_char_size c" using 3 lu le by simp
    show ?thesis
      using lt
      by (simp add: string_set_character_def off pk Let_def rd [unfolded lu] tl [unfolded lu]
          r0 w1 [unfolded dl] w2 [unfolded le] w3 data_new_def dl [unfolded lu le]
          del: length_append append_assoc length_Cons list.size)
  qed
qed

lemma utf8_units_update:
  "utf8_units us \<Longrightarrow> utf8_unit u c \<Longrightarrow> utf8_units (us[i := u])"
  by (auto simp: utf8_units_def dest: set_update_subset_insert [THEN subsetD])

lemma concat_update:
  assumes "i < length us"
  shows "concat (us[i := u]) = concat (take i us) @ u @ concat (drop (Suc i) us)"
  using assms by (simp add: upd_conv_take_nth_drop)

lemma set_character_is:
  assumes s: "string_is s us" and i: "i < length us" "i < 2 ^ 31" and c: "c < 2 ^ 21"
  shows "\<exists>s'. string_set_character g s i c = Inr s' \<and> string_is s' (us[i := utf8_encode c])"
proof -
  from s obtain junk where us: "utf8_units us" and b: "c_string s = concat us @ 0 # junk"
    and d: "d_length (bs_buffer s) = length (concat us) + 1"
    and ca: "bs_cached s = 0 \<or> bs_cached s = length us"
    by (rule string_isE)
  have sp: "concat us = concat (take i us) @ us ! i @ concat (drop (Suc i) us)"
    using concat_split2 [of us i] concat_drop_nth [OF i(1)] by simp
  obtain s' junk' where r: "string_set_character g s i c = Inr s'"
      "c_string s' = concat (take i us) @ utf8_encode c @ concat (drop (Suc i) us) @ 0 # junk'"
      "d_length (bs_buffer s')
         = length (concat (take i us) @ utf8_encode c @ concat (drop (Suc i) us)) + 1"
      "bs_cached s' = bs_cached s"
    using set_character_buffer [of s "concat (take i us)" "us ! i" "concat (drop (Suc i) us)" junk]
      b d sp string_offset [OF s i(2)] utf8_units_nth [OF us i(1)] by (metis append_assoc)
  have "string_is s' (us[i := utf8_encode c])"
    using utf8_units_update [OF us utf8_encode_unit [OF c]] r ca i(1)
    by (auto simp: string_is_def concat_update)
  then show ?thesis using r(1) by blast
qed

section \<open>Searching\<close>

lemma utf8_units_drop: "utf8_units us \<Longrightarrow> utf8_units (drop n us)"
  by (auto simp: utf8_units_def dest: in_set_dropD)

lemma utf8_units_take: "utf8_units us \<Longrightarrow> utf8_units (take n us)"
  by (auto simp: utf8_units_def dest: in_set_takeD)

fun list_first_index :: "'a list \<Rightarrow> 'a \<Rightarrow> nat option" where
  "list_first_index [] x = None"
| "list_first_index (y # ys) x =
     (if y = x then Some 0 else map_option Suc (list_first_index ys x))"

fun list_last_index :: "'a list \<Rightarrow> 'a \<Rightarrow> nat option" where
  "list_last_index [] x = None"
| "list_last_index (y # ys) x =
     (case list_last_index ys x of Some i \<Rightarrow> Some (Suc i)
      | None \<Rightarrow> if y = x then Some 0 else None)"

lemma list_first_index_Some:
  "list_first_index xs x = Some i \<longleftrightarrow> i < length xs \<and> xs ! i = x \<and> (\<forall>j<i. xs ! j \<noteq> x)"
proof (induction xs arbitrary: i)
  case (Cons y ys)
  then show ?case by (cases i) (auto simp: All_less_Suc2)
qed simp

lemma list_first_index_None: "list_first_index xs x = None \<longleftrightarrow> x \<notin> set xs"
  by (induction xs) auto

lemma list_last_index_None: "list_last_index xs x = None \<longleftrightarrow> x \<notin> set xs"
  by (induction xs) (auto split: option.splits)

lemma list_last_index_Some:
  "list_last_index xs x = Some i \<Longrightarrow>
   i < length xs \<and> xs ! i = x \<and> (\<forall>j<length xs. i < j \<longrightarrow> xs ! j \<noteq> x)"
proof (induction xs arbitrary: i)
  case (Cons y ys)
  show ?case
  proof (cases "list_last_index ys x")
    case None
    then have "x \<notin> set ys" by (simp add: list_last_index_None)
    with Cons.prems None show ?thesis
      by (auto split: if_splits simp: nth_Cons' in_set_conv_nth)
  next
    case (Some k)
    with Cons.prems Cons.IH [OF Some] show ?thesis
      by (auto simp: All_less_Suc2 less_Suc_eq_0_disj)
  qed
qed simp

lemma find_first_units:
  assumes "utf8_units us"
  shows "find_first (concat us @ 0 # junk) chr n =
    Inr (case list_first_index (string_chars us) chr of None \<Rightarrow> npos | Some i \<Rightarrow> n + i)"
  using assms
proof (induction us arbitrary: n)
  case Nil
  then show ?case by (simp add: find_first.simps string_chars_def)
next
  case (Cons u us)
  then obtain c where u: "utf8_unit u c" and us: "utf8_units us" by auto
  obtain b bs where ub: "u = b # bs" and lu: "length u = utf8_lead_size b"
    using u by (rule utf8_unit_cases)
  have b0: "b \<noteq> 0" using u by (simp add: utf8_unit_def ub)
  have dec: "utf8_decode (b # (bs @ concat us @ 0 # junk)) = Inr c"
    using utf8_decode_append [OF u, of "concat us @ 0 # junk"] by (simp add: ub)
  have dr: "drop (utf8_lead_size b) (b # (bs @ concat us @ 0 # junk)) = concat us @ 0 # junk"
    using lu by (simp add: ub flip: lu)
  show ?case
    using b0 unit_char_unit [OF u] Cons.IH [OF us, of "n + 1"] dr
    by (simp add: ub find_first.simps [of "b # _"] dec string_chars_def option.case_eq_if
        option.map_sel option.map_disc_iff)
qed

lemma find_last_units:
  assumes "utf8_units us"
  shows "find_last (concat us @ 0 # junk) chr n l =
    Inr (case list_last_index (string_chars us) chr of None \<Rightarrow> l | Some i \<Rightarrow> n + i)"
  using assms
proof (induction us arbitrary: n l)
  case Nil
  then show ?case by (simp add: find_last.simps string_chars_def)
next
  case (Cons u us)
  then obtain c where u: "utf8_unit u c" and us: "utf8_units us" by auto
  obtain b bs where ub: "u = b # bs" and lu: "length u = utf8_lead_size b"
    using u by (rule utf8_unit_cases)
  have b0: "b \<noteq> 0" using u by (simp add: utf8_unit_def ub)
  have dec: "utf8_decode (b # (bs @ concat us @ 0 # junk)) = Inr c"
    using utf8_decode_append [OF u, of "concat us @ 0 # junk"] by (simp add: ub)
  have dr: "drop (utf8_lead_size b) (b # (bs @ concat us @ 0 # junk)) = concat us @ 0 # junk"
    using lu by (simp add: ub flip: lu)
  show ?case
    using b0 unit_char_unit [OF u] Cons.IH [OF us, of "n + 1"] dr
    by (auto simp add: ub find_last.simps [of "b # _"] dec string_chars_def split: option.splits)
qed

lemma string_suffix_units:
  assumes s: "string_is s us" and i: "i < 2 ^ 31"
  obtains junk where "utf8_units (drop i us)"
    "bind_r (utf8_offset (c_string s) (int_index i)) (\<lambda>o1. suffix_at (c_string s) o1)
     = Inr (concat (drop i us) @ 0 # junk)"
proof -
  from s obtain junk where us: "utf8_units us" and b: "c_string s = concat us @ 0 # junk"
    by (rule string_isE)
  show thesis using that utf8_units_drop [OF us] string_offset [OF s i] string_suffix [OF b, of i]
    by simp
qed

lemma first_index_of_is:
  assumes s: "string_is s us" and i: "off < 2 ^ 31"
  shows "string_first_index_of s chr off =
    Inr (case list_first_index (drop off (string_chars us)) chr of None \<Rightarrow> npos | Some i \<Rightarrow> off + i)"
proof -
  obtain junk where "utf8_units (drop off us)"
    "bind_r (utf8_offset (c_string s) (int_index off)) (\<lambda>o1. suffix_at (c_string s) o1)
     = Inr (concat (drop off us) @ 0 # junk)"
    using s i by (rule string_suffix_units)
  then show ?thesis
    by (simp add: string_first_index_of_def flip: bind_r_assoc)
       (simp add: find_first_units string_chars_def drop_map)
qed

lemma last_index_of_is:
  assumes s: "string_is s us" and i: "off < 2 ^ 31"
  shows "string_last_index_of s chr off =
    Inr (case list_last_index (drop off (string_chars us)) chr of None \<Rightarrow> npos | Some i \<Rightarrow> off + i)"
proof -
  obtain junk where "utf8_units (drop off us)"
    "bind_r (utf8_offset (c_string s) (int_index off)) (\<lambda>o1. suffix_at (c_string s) o1)
     = Inr (concat (drop off us) @ 0 # junk)"
    using s i by (rule string_suffix_units)
  then show ?thesis
    by (simp add: string_last_index_of_def flip: bind_r_assoc)
       (simp add: find_last_units string_chars_def drop_map)
qed

section \<open>Constructing, joining and cutting strings\<close>

text \<open>
  The routines that go through \<^verbatim>\<open>strlen\<close> and \<^verbatim>\<open>strncpy\<close> stop at the first zero byte, so
  their lemmas ask for contents without one.
\<close>

lemma c_strlen_nul: "0 \<notin> set xs \<Longrightarrow> c_strlen (xs @ 0 # ys) = Inr (length xs)"
  by (induction xs) auto

lemma c_strncpy_prefix: "0 \<notin> set xs \<Longrightarrow> c_strncpy (xs @ ys) (length xs) = Inr xs"
  by (induction xs) auto

lemma c_strncpy_pad:
  "0 \<notin> set xs \<Longrightarrow> length xs \<le> n \<Longrightarrow>
   c_strncpy (xs @ 0 # ys) n = Inr (xs @ replicate (n - length xs) 0)"
proof (induction xs arbitrary: n)
  case Nil
  then show ?case by (cases n) auto
next
  case (Cons a xs)
  then show ?case by (cases n) auto
qed

lemma string_construct_fresh:
  "string_construct g n =
   Inr \<lparr>bs_buffer = \<lparr>d_block = fresh_block g n @ [0], d_length = n + 1, d_owned = True\<rparr>, bs_cached = 0\<rparr>"
  by (simp add: string_construct_def data_set_value_def data_new_def poke_def fresh_block_def
      list_update_append)

lemma string_construct_from_copy:
  assumes "c_strncpy src n = Inr bs" and "length bs = n" and "n \<noteq> npos"
  shows "string_construct_from g (Some src) n =
    Inr \<lparr>bs_buffer = \<lparr>d_block = bs @ [0], d_length = n + 1, d_owned = True\<rparr>, bs_cached = 0\<rparr>"
  using assms mem_write_mid [of bs "fresh_block g n" "[]" "[0]"]
  by (simp add: string_construct_from_def string_construct_fresh)

lemma string_construct_from_nul:
  assumes "0 \<notin> set xs" and "length xs \<noteq> npos"
  shows "string_construct_from g (Some (xs @ 0 # ys)) npos =
    Inr \<lparr>bs_buffer = \<lparr>d_block = xs @ [0], d_length = length xs + 1, d_owned = True\<rparr>, bs_cached = 0\<rparr>"
  using string_construct_from_copy [of "xs @ 0 # ys" "length xs" xs g] assms
  by (simp add: string_construct_from_def c_strlen_nul c_strncpy_prefix)

lemma string_append_buffer:
  assumes s: "c_string s = xs @ 0 # j1" "d_length (bs_buffer s) = length xs + 1"
    and t: "c_string t = ys @ 0 # j2" "d_length (bs_buffer t) = length ys + 1"
    and z: "0 \<notin> set xs" and n: "length xs + length ys < npos"
  shows "string_append g s t = Inr \<lparr>bs_buffer = \<lparr>d_block = xs @ ys @ [0],
           d_length = length (xs @ ys) + 1, d_owned = True\<rparr>, bs_cached = 0\<rparr>"
proof -
  have g: "get_size s = length xs" "get_size t = length ys"
    using s t by (simp_all add: get_size_def size_sub_def)
  have c: "string_construct_from g (Some (c_string s)) (length xs + length ys) =
     Inr \<lparr>bs_buffer = \<lparr>d_block = (xs @ replicate (length ys) 0) @ [0],
           d_length = length xs + length ys + 1, d_owned = True\<rparr>, bs_cached = 0\<rparr>"
    using n z by (intro string_construct_from_copy) (simp_all add: s c_strncpy_pad)
  show ?thesis
    using mem_read_mid [of "[]" ys "0 # j2"] mem_write_mid [of ys "replicate (length ys) 0" xs "[0]"]
    by (simp add: string_append_def g c t)
qed

lemma append_is:
  assumes s: "string_is s us" and t: "string_is t vs"
    and z: "0 \<notin> set (concat us)" and n: "length (concat us) + length (concat vs) < npos"
  shows "\<exists>r. string_append g s t = Inr r \<and> string_is r (us @ vs)"
proof -
  from s obtain j1 where us: "utf8_units us" "c_string s = concat us @ 0 # j1"
    "d_length (bs_buffer s) = length (concat us) + 1" by (rule string_isE)
  from t obtain j2 where vs: "utf8_units vs" "c_string t = concat vs @ 0 # j2"
    "d_length (bs_buffer t) = length (concat vs) + 1" by (rule string_isE)
  show ?thesis
    using string_append_buffer [OF us(2,3) vs(2,3) z n, of g] us(1) vs(1)
    by (auto simp: string_is_def)
qed

text \<open>\<^verbatim>\<open>operator +=\<close> keeps \<^verbatim>\<open>dataLength\<close>: the buffer is right, the cached count is not.\<close>

lemma string_append_assign_buffer:
  assumes s: "string_is s us" and t: "string_is t vs"
  shows "\<exists>r. string_append_assign g s t = Inr r \<and>
     c_string r = concat (us @ vs) @ [0] \<and>
     d_length (bs_buffer r) = length (concat (us @ vs)) + 1 \<and> bs_cached r = bs_cached s"
proof -
  from s obtain j1 where us: "c_string s = concat us @ 0 # j1" by (rule string_isE)
  from t obtain j2 where vs: "c_string t = concat vs @ 0 # j2"
    "d_length (bs_buffer t) = length (concat vs) + 1" by (rule string_isE)
  let ?nb = "fresh_block g (length (concat us) + length (concat vs) + 1)"
  obtain a b e where ab: "?nb = a @ b @ e" "length a = length (concat us)"
     "length b = length (concat vs @ [0::u8])" "length e = 0"
    using list_split3 [of ?nb "length (concat us)" "length (concat vs) + 1" 0] by auto
  have r1: "mem_read (c_string s) 0 (length (concat us)) = Inr (concat us)"
    using mem_read_mid [of "[]" "concat us"] by (simp add: us)
  have r2: "mem_read (c_string t) 0 (Suc (length (concat vs))) = Inr (concat vs @ [0])"
    using mem_read_mid [of "[]" "concat vs @ [0]" j2] by (simp add: vs)
  have w1: "mem_write ?nb 0 (concat us) = Inr (concat us @ b @ e)"
    using mem_write_mid [of "concat us" a "[]"] ab by simp
  have w2: "mem_write (concat us @ b @ e) (length (concat us)) (concat vs @ [0])
            = Inr (concat us @ concat vs @ [0])"
    using mem_write_mid [of "concat vs @ [0]" b "concat us" e] ab by simp
  show ?thesis
    using r1 r2 w1 w2 vs
    by (simp add: string_append_assign_def string_is_size [OF s] string_is_size [OF t] data_new_def
        Let_def del: length_concat)
qed

lemma append_assign_is:
  assumes s: "string_is s us" and t: "string_is t vs" and c: "bs_cached s = 0"
  shows "\<exists>r. string_append_assign g s t = Inr r \<and> string_is r (us @ vs)"
proof -
  have "utf8_units us" "utf8_units vs" using s t by (auto simp: string_is_def)
  then show ?thesis using string_append_assign_buffer [OF s t, of g] c
    by (auto simp: string_is_def)
qed

lemma truncate_buffer:
  assumes s: "string_is s us" and n: "n < 2 ^ 31"
  shows "\<exists>r junk. string_truncate s n = Inr r \<and>
     c_string r = concat (take n us) @ 0 # junk \<and>
     d_length (bs_buffer r) = length (concat (take n us)) + 1 \<and> bs_cached r = bs_cached s"
proof -
  from s obtain j1 where b: "c_string s = concat us @ 0 # j1" by (rule string_isE)
  obtain x xs where x: "concat (drop n us) @ 0 # j1 = x # xs" by (cases "concat (drop n us)") auto
  have "c_string s = concat (take n us) @ x # xs"
    using b concat_split2 [of us n] x by simp
  then have "poke (c_string s) (length (concat (take n us))) 0 = Inr (concat (take n us) @ 0 # xs)"
    by (simp add: poke_def list_update_append del: length_concat)
  then show ?thesis
    by (simp add: string_truncate_def string_offset [OF s n] string_truncate_size_def
        data_set_value_def data_set_size_def)
qed

lemma truncate_is:
  assumes s: "string_is s us" and n: "n < 2 ^ 31" and c: "bs_cached s = 0 \<or> length us \<le> n"
  shows "\<exists>r. string_truncate s n = Inr r \<and> string_is r (take n us)"
proof -
  have "utf8_units us" "bs_cached s = 0 \<or> bs_cached s = length us" using s by (auto simp: string_is_def)
  then show ?thesis using truncate_buffer [OF s n] c
    by (auto simp: string_is_def utf8_units_take)
qed

text \<open>Substrings: \<^verbatim>\<open>String(const char*, len)\<close> takes at most \<^verbatim>\<open>len\<close> characters.\<close>

lemma units_length_le: "utf8_units us \<Longrightarrow> length us \<le> length (concat us)"
proof (induction us)
  case (Cons u us)
  then have "u \<noteq> []" by (auto simp: utf8_unit_def)
  then have "1 \<le> length u" by (cases u) auto
  with Cons show ?case by simp
qed simp

lemma string_of_cstr_buffer:
  assumes us: "utf8_units us" and z: "0 \<notin> set (concat us)" and sz: "length (concat us) < npos"
    and n: "n < 2 ^ 31 \<or> n = npos"
  shows "string_of_cstr g (concat us @ 0 # junk) n =
    Inr \<lparr>bs_buffer = \<lparr>d_block = concat (take n us) @ [0],
           d_length = length (concat (take n us)) + 1, d_owned = True\<rparr>,
         bs_cached = (if n = npos then 0 else n)\<rparr>"
proof -
  have sp: "concat us @ 0 # junk = concat (take n us) @ concat (drop n us) @ 0 # junk"
    using concat_split2 [of us n] by simp
  have z': "0 \<notin> set (concat (take n us))" using z sp by (metis UnCI concat_append append_take_drop_id set_append)
  have l: "length (concat (take n us)) \<le> length (concat us)"
    using concat_split2 [of us n] by (metis le_add1 length_append)
  have c: "string_construct_from g (Some (concat us @ 0 # junk)) (length (concat (take n us))) =
    Inr \<lparr>bs_buffer = \<lparr>d_block = concat (take n us) @ [0],
           d_length = length (concat (take n us)) + 1, d_owned = True\<rparr>, bs_cached = 0\<rparr>"
    using z' l sz by (intro string_construct_from_copy) (simp_all add: sp c_strncpy_prefix del: length_concat)
  show ?thesis
  proof (cases "n = npos")
    case True
    have tk: "take n us = us" using units_length_le [OF us] sz True by simp
    show ?thesis using c [unfolded tk] True
      by (simp add: string_of_cstr_def c_strlen_nul [OF z] tk [unfolded True])
  next
    case False
    then show ?thesis using c n utf8_offset_units [OF us, of junk n]
      by (simp add: string_of_cstr_def int_index_small)
  qed
qed

text \<open>The text that the C library made is the text of the string.\<close>

lemma string_format_text:
  assumes "vasprintf (c_string format) args = Some (concat us @ [0])"
    and "utf8_units us" "0 \<notin> set (concat us)" "length (concat us) < 2 ^ 31"
  shows "\<exists>r. string_format g vasprintf format args = Inr r \<and> string_is r us"
proof -
  have u: "length us \<le> length (concat us)" by (rule units_length_le [OF assms(2)])
  then have "take npos us = us" "length (concat us) < npos" using assms(4) by (simp_all add: npos_def)
  then show ?thesis
    using string_of_cstr_buffer [OF assms(2,3), of npos g "[]"] assms
    by (simp add: string_format_def string_is_def)
qed

lemma substring_buffer:
  assumes s: "string_is s us" and z: "0 \<notin> set (concat us)" and sz: "length (concat us) < npos"
    and i: "i < 2 ^ 31" and n: "n < 2 ^ 31 \<or> n = npos"
  shows "string_substring g s i n =
    Inr \<lparr>bs_buffer = \<lparr>d_block = concat (take n (drop i us)) @ [0],
           d_length = length (concat (take n (drop i us))) + 1, d_owned = True\<rparr>,
         bs_cached = (if n = npos then 0 else n)\<rparr>"
proof -
  from s obtain junk where us: "utf8_units us" and b: "c_string s = concat us @ 0 # junk"
    by (rule string_isE)
  have sp: "concat us = concat (take i us) @ concat (drop i us)" by (rule concat_split2)
  have "0 \<notin> set (concat (drop i us))" using z by (metis UnCI set_append sp)
  moreover have "length (concat (drop i us)) < npos"
    using sz by (metis le_add2 le_less_trans length_append sp)
  ultimately have "string_of_cstr g (concat (drop i us) @ 0 # junk) n =
    Inr \<lparr>bs_buffer = \<lparr>d_block = concat (take n (drop i us)) @ [0],
           d_length = length (concat (take n (drop i us))) + 1, d_owned = True\<rparr>,
         bs_cached = (if n = npos then 0 else n)\<rparr>"
    by (intro string_of_cstr_buffer utf8_units_drop us n)
  moreover have "i \<noteq> npos" using i by (simp add: npos_def)
  ultimately show ?thesis
    by (simp add: string_substring_def string_offset [OF s i] string_suffix [OF b])
qed

lemma substring_is:
  assumes s: "string_is s us" and z: "0 \<notin> set (concat us)" and sz: "length (concat us) < npos"
    and i: "i < 2 ^ 31" and n: "i + n \<le> length us \<and> n < 2 ^ 31 \<or> n = npos"
  shows "\<exists>r. string_substring g s i n = Inr r \<and> string_is r (take n (drop i us))"
proof -
  have us: "utf8_units us" using s by (auto simp: string_is_def)
  have "string_is \<lparr>bs_buffer = \<lparr>d_block = concat (take n (drop i us)) @ [0],
           d_length = length (concat (take n (drop i us))) + 1, d_owned = True\<rparr>,
         bs_cached = (if n = npos then 0 else n)\<rparr> (take n (drop i us))"
    using n by (auto simp: string_is_def utf8_units_take utf8_units_drop us)
  then show ?thesis using substring_buffer [OF s z sz i, of n g] n by auto
qed

text \<open>Equality compares the bytes.\<close>

lemma string_equal_is:
  assumes s: "string_is s us" and t: "string_is t vs"
  shows "string_equal s t = Inr (concat us = concat vs)"
proof -
  from s obtain j1 where b1: "c_string s = concat us @ 0 # j1" by (rule string_isE)
  from t obtain j2 where b2: "c_string t = concat vs @ 0 # j2" by (rule string_isE)
  have r: "mem_read (c_string s) 0 (length (concat us)) = Inr (concat us)"
       "mem_read (c_string t) 0 (length (concat vs)) = Inr (concat vs)"
    using mem_read_mid [of "[]" "concat us" "0 # j1"] mem_read_mid [of "[]" "concat vs" "0 # j2"]
    by (simp_all add: b1 b2)
  show ?thesis
  proof (cases "length (concat us) = length (concat vs)")
    case True
    then show ?thesis using r
      by (simp add: string_equal_def string_is_size [OF s] string_is_size [OF t] del: length_concat)
  next
    case False
    then have "concat us \<noteq> concat vs" by auto
    then show ?thesis using False
      by (simp add: string_equal_def string_is_size [OF s] string_is_size [OF t] del: length_concat)
  qed
qed

lemma c_strcmp_eq:
  "0 \<notin> set xs \<Longrightarrow> 0 \<notin> set ys \<Longrightarrow>
   \<exists>k. c_strcmp (xs @ 0 # as) (ys @ 0 # bs) = Inr k \<and> (k = 0 \<longleftrightarrow> xs = ys)"
proof (induction xs arbitrary: ys)
  case Nil
  then show ?case by (cases ys) (auto simp: word_neq_0_conv)
next
  case (Cons x xs)
  show ?case
  proof (cases ys)
    case Nil
    then show ?thesis using Cons.prems by (auto simp: word_gt_0)
  next
    case (Cons y ys')
    then show ?thesis using Cons.IH [of ys'] Cons.prems by (auto simp: not_less_iff_gr_or_eq)
  qed
qed

lemma string_compare_is:
  assumes s: "string_is s us" and t: "string_is t vs"
    and "0 \<notin> set (concat us)" and "0 \<notin> set (concat vs)"
  shows "\<exists>k. string_compare s t = Inr k \<and> (k = 0 \<longleftrightarrow> concat us = concat vs)"
proof -
  from s obtain j1 where b1: "c_string s = concat us @ 0 # j1" by (rule string_isE)
  from t obtain j2 where b2: "c_string t = concat vs @ 0 # j2" by (rule string_isE)
  show ?thesis using c_strcmp_eq [OF assms(3,4), of j1 j2]
    by (simp add: string_compare_def string_compare_cstr_at_def suffix_at_def b1 b2)
qed

section \<open>Concrete strings\<close>

text \<open>The string \<^verbatim>\<open>"abc"\<close> with its length not yet counted.\<close>

definition abc_string :: bstring where
  "abc_string = \<lparr>bs_buffer = \<lparr>d_block = [0x61, 0x62, 0x63, 0], d_length = 4, d_owned = True\<rparr>,
                 bs_cached = 0\<rparr>"

lemma utf8_unit_ascii: "utf8_unit [0x61] 0x61" "utf8_unit [0x62] 0x62" "utf8_unit [0x63] 0x63"
  by (simp_all add: utf8_unit_def utf8_lead_size_def utf8_decode.simps decode_head_def)

lemma abc_string_is: "string_is abc_string [[0x61], [0x62], [0x63]]"
  using utf8_unit_ascii by (auto simp: string_is_def abc_string_def utf8_units_def)

text \<open>
  The encoder writes continuation bytes without their high bit: U+00E9 becomes C3 29, and
  U+00C0 has a zero byte inside.
\<close>

lemma utf8_encode_continuation: "utf8_encode 0xE9 = [0xC3, 0x29]" "utf8_encode 0xC0 = [0xC3, 0]"
  by code_simp+

text \<open>After \<^verbatim>\<open>s.GetLength(); s += s;\<close> the length reported is still the old one.\<close>

lemma append_assign_stale_length:
  "(case string_get_length abc_string of Inr (n, s) \<Rightarrow>
      bind_r (string_append_assign (\<lambda>_. 0) s s) string_get_length
    | Inl e \<Rightarrow> Inl e) =
   Inr (3, \<lparr>bs_buffer = \<lparr>d_block = [0x61, 0x62, 0x63, 0x61, 0x62, 0x63, 0], d_length = 7,
                          d_owned = True\<rparr>, bs_cached = 3\<rparr>)"
  by code_simp

text \<open>A substring longer than what is left reports the requested length.\<close>

lemma substring_overlong_length:
  "bind_r (string_substring (\<lambda>_. 0) abc_string 1 5) string_get_length =
   Inr (5, \<lparr>bs_buffer = \<lparr>d_block = [0x62, 0x63, 0], d_length = 3, d_owned = True\<rparr>, bs_cached = 5\<rparr>)"
  using substring_buffer [OF abc_string_is, of 1 5 "\<lambda>_. 0"]
  by (simp add: npos_def string_get_length_def)

text \<open>\<^verbatim>\<open>LastIndexOf(String)\<close> does not find a character that only occurs at index 0.\<close>

lemma last_index_of_any_zero:
  assumes "str = \<lparr>bs_buffer = \<lparr>d_block = [0x61, 0], d_length = 2, d_owned = True\<rparr>, bs_cached = 0\<rparr>"
  shows "string_last_index_of abc_string 0x61 0 = Inr 0"
    and "string_last_index_of_any abc_string str 0 = Inr npos"
proof -
  have str: "string_is str [[0x61]]"
    using utf8_unit_ascii by (auto simp: string_is_def assms utf8_units_def)
  note ch = utf8_unit_ascii [THEN unit_char_unit]
  show l: "string_last_index_of abc_string 0x61 0 = Inr 0"
    using last_index_of_is [OF abc_string_is, of 0 "0x61"] by (simp add: string_chars_def ch)
  show "string_last_index_of_any abc_string str 0 = Inr npos"
    using string_get_length_is [OF str] l
      string_get_character_nth [OF string_is_cache [OF str], of 0]
    by (simp add: string_last_index_of_any_def string_chars_def ch)
qed

section \<open>Properties\<close>

text \<open>C3: Replacing character \<open>i\<close> of a string of \<open>n > i\<close> characters succeeds, whatever the
  byte lengths of the old and the new character, and yields a well-formed string whose
  characters are the old list updated at \<open>i\<close>: \<^verbatim>\<open>SetCharacter\<close> refines \<open>xs[i := c]\<close>, and a
  following \<^verbatim>\<open>operator []\<close> reads the new character.\<close>

theorem string_set_character_refines:
  assumes "string_is s us" and "i < length us" and "i < 2 ^ 31" and "c < 2 ^ 21"
  shows "\<exists>s' us'. string_set_character g s i c = Inr s' \<and> string_is s' us' \<and>
           string_chars us' = (string_chars us)[i := c] \<and>
           string_get_character s' i = Inr c"
proof -
  obtain s' where s': "string_set_character g s i c = Inr s'" "string_is s' (us[i := utf8_encode c])"
    using set_character_is [OF assms] by blast
  have ch: "string_chars (us[i := utf8_encode c]) = (string_chars us)[i := c]"
    by (simp add: string_chars_def map_update unit_char_unit [OF utf8_encode_unit [OF assms(4)]])
  have "string_get_character s' i = Inr c"
    using string_get_character_nth [OF s'(2) _ assms(3)] assms(2) ch
    by (simp add: string_chars_def unit_char_unit [OF utf8_encode_unit [OF assms(4)]])
  with s' ch show ?thesis by blast
qed

theorem string_set_character_refines_witness:
  "\<exists>s' us'. string_set_character (\<lambda>_. 0) abc_string 1 0xE9 = Inr s' \<and> string_is s' us' \<and>
           string_chars us' = (string_chars [[0x61], [0x62], [0x63]])[1 := 0xE9] \<and>
           string_get_character s' 1 = Inr 0xE9"
  by (rule string_set_character_refines [OF abc_string_is]) simp_all

text \<open>C17: \<^verbatim>\<open>IndexOf(Character, off)\<close> of a well-formed string is the least index from
  \<open>off\<close> on that holds the character, and \<^verbatim>\<open>npos\<close> exactly when there is none.\<close>

theorem string_first_index_of_least:
  assumes "string_is s us" and "off < 2 ^ 31" and "length us < npos"
  shows "\<exists>i. string_first_index_of s chr off = Inr i \<and>
    (if chr \<in> set (drop off (string_chars us))
     then off \<le> i \<and> i < length us \<and> string_chars us ! i = chr \<and>
          (\<forall>j. off \<le> j \<and> j < i \<longrightarrow> string_chars us ! j \<noteq> chr)
     else i = npos)"
proof (cases "list_first_index (drop off (string_chars us)) chr")
  case None
  then have "chr \<notin> set (drop off (string_chars us))" by (simp add: list_first_index_None)
  with None show ?thesis using first_index_of_is [OF assms(1,2), of chr] by simp
next
  case (Some k)
  then have k: "k < length (drop off (string_chars us))" "drop off (string_chars us) ! k = chr"
    "\<forall>j<k. drop off (string_chars us) ! j \<noteq> chr" by (simp_all add: list_first_index_Some)
  have "string_chars us ! j \<noteq> chr" if "off \<le> j" "j < off + k" for j
    using k(1,3) that by (auto dest!: spec [of _ "j - off"])
  moreover have "chr \<in> set (drop off (string_chars us))" using k(1,2) by (metis nth_mem)
  ultimately show ?thesis using first_index_of_is [OF assms(1,2), of chr] Some k
    by (auto simp: string_chars_def)
qed

theorem string_first_index_of_least_witness:
  "\<exists>i. string_first_index_of abc_string 0x62 0 = Inr i \<and>
    (if 0x62 \<in> set (drop 0 (string_chars [[0x61], [0x62], [0x63]]))
     then 0 \<le> i \<and> i < length [[0x61::u8], [0x62], [0x63]] \<and>
          string_chars [[0x61], [0x62], [0x63]] ! i = 0x62 \<and>
          (\<forall>j. 0 \<le> j \<and> j < i \<longrightarrow> string_chars [[0x61], [0x62], [0x63]] ! j \<noteq> 0x62)
     else i = npos)"
  by (rule string_first_index_of_least [OF abc_string_is]) (simp_all add: npos_def)

text \<open>\<^verbatim>\<open>operator +\<close> followed by the two \<^verbatim>\<open>Substring\<close> calls that cut at the seam gives back
  both operands, byte for byte, for strings without embedded zero bytes.\<close>

theorem string_append_substring:
  assumes "string_is s us" and "string_is t vs" and "0 \<notin> set (concat (us @ vs))"
    and "length (concat us) + length (concat vs) < npos" and "length us < 2 ^ 31"
  shows "\<exists>r a b. string_append g s t = Inr r \<and>
    string_substring g r 0 (length us) = Inr a \<and> string_equal a s = Inr True \<and>
    string_substring g r (length us) npos = Inr b \<and> string_equal b t = Inr True"
proof -
  obtain r where r: "string_append g s t = Inr r" "string_is r (us @ vs)"
    using append_is [OF assms(1,2), of g] assms(3,4) by auto
  have n: "length (concat (us @ vs)) < npos" using assms(4) by simp
  obtain a where a: "string_substring g r 0 (length us) = Inr a" "string_is a us"
    using substring_is [OF r(2) assms(3) n, of 0 "length us" g] assms(5) by auto
  have "length vs < npos"
    using units_length_le [of vs] assms(2,4) by (auto simp: string_is_def)
  then obtain b where b: "string_substring g r (length us) npos = Inr b" "string_is b vs"
    using substring_is [OF r(2) assms(3) n assms(5), of npos g] by auto
  show ?thesis using r(1) a(1) b(1) string_equal_is [OF a(2) assms(1)] string_equal_is [OF b(2) assms(2)]
    by simp
qed

theorem string_append_substring_witness:
  "\<exists>r a b. string_append (\<lambda>_. 0) abc_string abc_string = Inr r \<and>
    string_substring (\<lambda>_. 0) r 0 (length [[0x61::u8], [0x62], [0x63]]) = Inr a \<and>
    string_equal a abc_string = Inr True \<and>
    string_substring (\<lambda>_. 0) r (length [[0x61::u8], [0x62], [0x63]]) npos = Inr b \<and>
    string_equal b abc_string = Inr True"
  by (rule string_append_substring [OF abc_string_is abc_string_is]) (simp_all add: npos_def)

end
