(* ===== verification/Iteration.thy ===== *)
theory Iteration
  imports Prelude "HOL-Library.Multiset"
begin

text \<open>
  Comparison objects and iteration (\<^verbatim>\<open>include/bricks/collections/comparison.h\<close>,
  \<^verbatim>\<open>iterator.h\<close>): the four variants of \<^verbatim>\<open>OperatorValueComparison\<close>, the position iterators
  of \<^verbatim>\<open>Array\<close> and \<^verbatim>\<open>Deque\<close> (\<^verbatim>\<open>array.h\<close>, \<^verbatim>\<open>deque_internal.h\<close>), the loop that the
  \<^verbatim>\<open>BRICKS_FOR_EACH\<close> macro expands to and \<^verbatim>\<open>Iterable::Iterate\<close> built on it.  The loop is a
  partial function, because a general iterator need not end; over a position iterator it is
  shown to return, with the result of a recursion over the list.
\<close>

section \<open>Comparisons\<close>

datatype comparison_result = Equal | Greater | Less

type_synonym 'a comparison = "'a \<Rightarrow> 'a \<Rightarrow> comparison_result"

text \<open>The variants that \<^verbatim>\<open>SFINAE\<close> selects by the operators the type has: no known operator,
  both orderings, equality only, addresses only.\<close>

definition compare_default :: "'a comparison" where
  "compare_default v1 v2 = Less"

definition compare_ordered :: "('a \<Rightarrow> 'a \<Rightarrow> bool) \<Rightarrow> ('a \<Rightarrow> 'a \<Rightarrow> bool) \<Rightarrow> 'a comparison" where
  "compare_ordered gt lt v1 v2 = (if gt v1 v2 then Greater else if lt v1 v2 then Less else Equal)"

definition compare_equality :: "('a \<Rightarrow> 'a \<Rightarrow> bool) \<Rightarrow> 'a comparison" where
  "compare_equality eq v1 v2 = (if eq v1 v2 then Equal else Less)"

definition compare_address :: "('a \<Rightarrow> nat) \<Rightarrow> 'a comparison" where
  "compare_address addr v1 v2 = (if addr v1 = addr v2 then Equal else Less)"

definition compare_pointer :: "('p \<Rightarrow> 'a) \<Rightarrow> 'a comparison \<Rightarrow> 'p comparison" where
  "compare_pointer deref comparison v1 v2 = comparison (deref v1) (deref v2)"

text \<open>\<^verbatim>\<open>StlCompare\<close>, the predicate given to the standard containers and sorts.\<close>

definition stl_compare :: "'a comparison \<Rightarrow> 'a \<Rightarrow> 'a \<Rightarrow> bool" where
  "stl_compare cmp v1 v2 \<longleftrightarrow> cmp v1 v2 = Less"

text \<open>\<^verbatim>\<open>!comparison->Compare(*iter, value)\<close>: the item is the one looked for.\<close>

definition matches :: "'a comparison \<Rightarrow> 'a \<Rightarrow> 'a \<Rightarrow> bool" where
  "matches cmp x v \<longleftrightarrow> cmp x v = Equal"

lemma stl_compare_ordered [simp]:
  "stl_compare (compare_ordered (>) (<)) a b \<longleftrightarrow> a < (b :: 'a :: linorder)"
  by (auto simp: stl_compare_def compare_ordered_def)

lemma matches_ordered [simp]:
  "matches (compare_ordered (>) (<)) a b \<longleftrightarrow> a = (b :: 'a :: linorder)"
  by (auto simp: matches_def compare_ordered_def)

lemma matches_equality [simp]: "matches (compare_equality (=)) a b \<longleftrightarrow> a = b"
  by (auto simp: matches_def compare_equality_def)

lemma matches_address [simp]: "matches (compare_address addr) a b \<longleftrightarrow> addr a = addr b"
  by (auto simp: matches_def compare_address_def)

lemma matches_pointer [simp]:
  "matches (compare_pointer deref cmp) p q \<longleftrightarrow> matches cmp (deref p) (deref q)"
  by (simp add: matches_def compare_pointer_def)

text \<open>
  Two different values of a type with equality only are each less than the other: this is no
  ordering, so such a type must not be the key of a \<^verbatim>\<open>Dictionary\<close> nor be sorted.
\<close>

lemma compare_equality_not_an_order:
  "a \<noteq> b \<Longrightarrow> stl_compare (compare_equality (=)) a b \<and> stl_compare (compare_equality (=)) b a"
  by (simp add: stl_compare_def compare_equality_def)

section \<open>Position iterators\<close>

text \<open>\<^verbatim>\<open>ArrayIterator\<close> and \<^verbatim>\<open>DequeIterator\<close>: one before the first item, and the end.\<close>

record pos_iterator =
  it_position :: int
  it_end :: int

definition pos_iterator_new :: "'a list \<Rightarrow> pos_iterator" where
  "pos_iterator_new xs = \<lparr>it_position = - 1, it_end = int (length xs)\<rparr>"

definition pos_move_next :: "pos_iterator \<Rightarrow> bool \<times> pos_iterator" where
  "pos_move_next it =
     (let it' = it\<lparr>it_position := it_position it + 1\<rparr> in (it_position it' < it_end it', it'))"

definition pos_get_current :: "'a list \<Rightarrow> pos_iterator \<Rightarrow> 'a result" where
  "pos_get_current xs it =
     (if 0 \<le> it_position it then peek xs (nat (it_position it)) else Inl Undefined)"

section \<open>The loop of BRICKS\_FOR\_EACH\<close>

text \<open>
  The body returns whether it ran to its end (a \<^verbatim>\<open>break\<close> leaves \<^verbatim>\<open>state\<close> false).  The outer
  loop moves the iterator before it looks at \<^verbatim>\<open>state\<close>, so a loop that was left has moved
  once more.
\<close>

partial_function (option) for_each ::
    "('i \<Rightarrow> bool \<times> 'i) \<Rightarrow> ('i \<Rightarrow> 'a result) \<Rightarrow> ('a \<Rightarrow> 's \<Rightarrow> (bool \<times> 's) result) \<Rightarrow>
     'i \<Rightarrow> bool \<Rightarrow> 's \<Rightarrow> ('i \<times> 's) result option" where
  "for_each move_next get_current body it state s =
     (let (more, it') = move_next it in
      if more \<and> state then
        (case get_current it' of
           Inl e \<Rightarrow> Some (Inl e)
         | Inr x \<Rightarrow>
             (case body x s of
                Inl e \<Rightarrow> Some (Inl e)
              | Inr (finished, s') \<Rightarrow> for_each move_next get_current body it' finished s'))
      else Some (Inr (it', s)))"

fun list_for_each :: "('a \<Rightarrow> 's \<Rightarrow> (bool \<times> 's) result) \<Rightarrow> 'a list \<Rightarrow> 's \<Rightarrow> 's result" where
  "list_for_each body [] s = Inr s"
| "list_for_each body (x # xs) s =
     bind_r (body x s) (\<lambda>(finished, s').
     if finished then list_for_each body xs s' else Inr s')"

definition iterate_while ::
    "('a \<Rightarrow> 's \<Rightarrow> (bool \<times> 's) result) \<Rightarrow> 'a list \<Rightarrow> 's \<Rightarrow> (pos_iterator \<times> 's) result option" where
  "iterate_while delegate xs s =
     for_each pos_move_next (pos_get_current xs) delegate (pos_iterator_new xs) True s"

definition iterate_all ::
    "('a \<Rightarrow> 's \<Rightarrow> 's result) \<Rightarrow> 'a list \<Rightarrow> 's \<Rightarrow> (pos_iterator \<times> 's) result option" where
  "iterate_all delegate xs s =
     iterate_while (\<lambda>x s. bind_r (delegate x s) (\<lambda>s'. Inr (True, s'))) xs s"

definition iterator_at :: "'a list \<Rightarrow> nat \<Rightarrow> pos_iterator" where
  "iterator_at xs k = \<lparr>it_position = int k - 1, it_end = int (length xs)\<rparr>"

lemma pos_iterator_new_at: "pos_iterator_new xs = iterator_at xs 0"
  by (simp add: pos_iterator_new_def iterator_at_def)

lemma pos_move_next_at:
  "pos_move_next (iterator_at xs k) = (k < length xs, iterator_at xs (Suc k))"
  by (simp add: pos_move_next_def iterator_at_def)

lemma pos_get_current_at:
  "k < length xs \<Longrightarrow> pos_get_current xs (iterator_at xs (Suc k)) = Inr (xs ! k)"
  by (simp add: pos_get_current_def iterator_at_def peek_in)

lemma for_each_pos:
  "k \<le> length xs \<Longrightarrow>
   \<exists>r. for_each pos_move_next (pos_get_current xs) body (iterator_at xs k) True s = Some r \<and>
       map_sum id snd r = list_for_each body (drop k xs) s"
proof (induction "length xs - k" arbitrary: k s)
  case 0
  then show ?case
    by (subst for_each.simps) (simp add: pos_move_next_at)
next
  case (Suc n)
  then have k: "k < length xs" by simp
  have dr: "drop k xs = xs ! k # drop (Suc k) xs" using k by (simp add: Cons_nth_drop_Suc)
  show ?case
  proof (cases "body (xs ! k) s")
    case (Inl e)
    then show ?thesis
      by (subst for_each.simps) (simp add: pos_move_next_at pos_get_current_at k dr)
  next
    case (Inr p)
    obtain f s' where p: "p = (f, s')" by (cases p)
    show ?thesis
    proof (cases f)
      case True
      then show ?thesis using Suc.hyps(1) [of "Suc k" s'] Suc.hyps(2) k Inr p
        by (subst for_each.simps) (simp add: pos_move_next_at pos_get_current_at dr)
    next
      case False
      have stop: "for_each pos_move_next (pos_get_current xs) body (iterator_at xs (Suc k)) False s'
        = Some (Inr (iterator_at xs (Suc (Suc k)), s'))"
        by (subst for_each.simps) (simp add: pos_move_next_at)
      show ?thesis using k Inr p False stop
        by (subst for_each.simps) (simp add: pos_move_next_at pos_get_current_at dr)
    qed
  qed
qed

lemma iterate_while_list:
  "\<exists>r. iterate_while delegate xs s = Some r \<and> map_sum id snd r = list_for_each delegate xs s"
  using for_each_pos [of 0 xs delegate s] by (simp add: iterate_while_def pos_iterator_new_at)

lemma list_for_each_fold:
  "list_for_each (\<lambda>x s. Inr (True, f x s)) xs s = Inr (fold f xs s)"
  by (induction xs arbitrary: s) auto

section \<open>Property\<close>

text \<open>The loop of \<^verbatim>\<open>BRICKS_FOR_EACH\<close> over a position iterator always returns, visits the
  items in order, each once, stops at the first body that breaks or throws, and never reads
  outside the container: \<^verbatim>\<open>Iterate\<close> is the recursion over the list of items.\<close>

theorem iterate_while_visits_in_order:
  "\<exists>r. iterate_while delegate xs s = Some r \<and> map_sum id snd r = list_for_each delegate xs s"
  by (rule iterate_while_list)

end
