(* ===== verification/Collections.thy ===== *)
theory Collections
  imports Iteration
begin

text \<open>
  \<^verbatim>\<open>Collection\<close> and \<^verbatim>\<open>List\<close> (\<^verbatim>\<open>include/bricks/collections/collection.h\<close>, \<^verbatim>\<open>list.h\<close>) as
  interfaces, and the containers that provide them: \<^verbatim>\<open>Array\<close> over \<^verbatim>\<open>std::vector\<close>
  (\<^verbatim>\<open>array.h\<close>), \<^verbatim>\<open>Deque\<close>, \<^verbatim>\<open>Queue\<close> and \<^verbatim>\<open>Stack\<close> over \<^verbatim>\<open>std::deque\<close>
  (\<^verbatim>\<open>deque_internal.h\<close>, \<^verbatim>\<open>queue.h\<close>, \<^verbatim>\<open>stack.h\<close>).  A \<^verbatim>\<open>long\<close> index is an integer; an
  index outside the vector is undefined behaviour.
\<close>

section \<open>Searching, shared by the containers\<close>

text \<open>\<^verbatim>\<open>IteratorOfItem\<close>: the position of the first match, the length for \<^verbatim>\<open>end()\<close>.\<close>

fun iterator_of_item :: "'a comparison \<Rightarrow> 'a list \<Rightarrow> 'a \<Rightarrow> nat" where
  "iterator_of_item cmp [] v = 0"
| "iterator_of_item cmp (x # xs) v = (if matches cmp x v then 0 else Suc (iterator_of_item cmp xs v))"

definition erase_at :: "'a list \<Rightarrow> nat \<Rightarrow> 'a list" where
  "erase_at xs i = take i xs @ drop (Suc i) xs"

definition insert_at :: "'a list \<Rightarrow> nat \<Rightarrow> 'a \<Rightarrow> 'a list" where
  "insert_at xs i v = take i xs @ v # drop i xs"

section \<open>Defaults of Collection\<close>

text \<open>\<^verbatim>\<open>AddItems\<close> and \<^verbatim>\<open>RemoveItems\<close>, over the operations of the container.\<close>

definition add_items :: "('c \<Rightarrow> 'a \<Rightarrow> 'c) \<Rightarrow> 'c \<Rightarrow> 'a list \<Rightarrow> 'c" where
  "add_items add_item c values = fold (\<lambda>v c. add_item c v) values c"

partial_function (option) remove_items :: "('c \<Rightarrow> 'a \<Rightarrow> bool \<times> 'c) \<Rightarrow> 'c \<Rightarrow> 'a \<Rightarrow> 'c option" where
  "remove_items remove_item c v =
     (let (removed, c') = remove_item c v in
      if removed then remove_items remove_item c' v else Some c')"

section \<open>Array\<close>

record 'a array =
  arr_comparison :: "'a comparison"
  arr_vector :: "'a list"

definition array_new :: "'a comparison \<Rightarrow> 'a array" where
  "array_new cmp = \<lparr>arr_comparison = cmp, arr_vector = []\<rparr>"

definition array_copy :: "'a array \<Rightarrow> 'a comparison option \<Rightarrow> 'a array" where
  "array_copy a cmp =
     \<lparr>arr_comparison = (case cmp of Some c \<Rightarrow> c | None \<Rightarrow> arr_comparison a),
      arr_vector = arr_vector a\<rparr>"

definition array_get_count :: "'a array \<Rightarrow> nat" where
  "array_get_count a = length (arr_vector a)"

definition array_find :: "'a array \<Rightarrow> 'a \<Rightarrow> nat" where
  "array_find a v = iterator_of_item (arr_comparison a) (arr_vector a) v"

definition array_contains_item :: "'a array \<Rightarrow> 'a \<Rightarrow> bool" where
  "array_contains_item a v \<longleftrightarrow> array_find a v \<noteq> length (arr_vector a)"

definition array_add_item :: "'a array \<Rightarrow> 'a \<Rightarrow> 'a array" where
  "array_add_item a v = a\<lparr>arr_vector := arr_vector a @ [v]\<rparr>"

definition array_from :: "'a list \<Rightarrow> 'a comparison \<Rightarrow> 'a array" where
  "array_from values cmp = add_items array_add_item (array_new cmp) values"

definition array_remove_item :: "'a array \<Rightarrow> 'a \<Rightarrow> bool \<times> 'a array" where
  "array_remove_item a v =
     (let iter = array_find a v in
      if iter = length (arr_vector a) then (False, a)
      else (True, a\<lparr>arr_vector := erase_at (arr_vector a) iter\<rparr>))"

definition array_clear :: "'a array \<Rightarrow> 'a array" where
  "array_clear a = a\<lparr>arr_vector := []\<rparr>"

definition array_set_item :: "'a array \<Rightarrow> int \<Rightarrow> 'a \<Rightarrow> 'a array result" where
  "array_set_item a index v =
     (if 0 \<le> index \<and> index < int (length (arr_vector a))
      then Inr (a\<lparr>arr_vector := (arr_vector a)[nat index := v]\<rparr>) else Inl Undefined)"

definition array_get_item :: "'a array \<Rightarrow> int \<Rightarrow> 'a result" where
  "array_get_item a index =
     (if 0 \<le> index \<and> index < int (length (arr_vector a))
      then Inr (arr_vector a ! nat index) else Inl Undefined)"

definition array_index_of_item :: "'a array \<Rightarrow> 'a \<Rightarrow> int" where
  "array_index_of_item a v =
     (let iter = array_find a v in
      if iter = length (arr_vector a) then - 1 else int iter)"

definition array_insert_item :: "'a array \<Rightarrow> int \<Rightarrow> 'a \<Rightarrow> 'a array result" where
  "array_insert_item a index v =
     (if 0 \<le> index \<and> index \<le> int (length (arr_vector a))
      then Inr (a\<lparr>arr_vector := insert_at (arr_vector a) (nat index) v\<rparr>) else Inl Undefined)"

definition array_remove_item_at :: "'a array \<Rightarrow> int \<Rightarrow> 'a array result" where
  "array_remove_item_at a index =
     (if 0 \<le> index \<and> index < int (length (arr_vector a))
      then Inr (a\<lparr>arr_vector := erase_at (arr_vector a) (nat index)\<rparr>) else Inl Undefined)"

text \<open>
  \<^verbatim>\<open>std::stable_sort\<close> by insertion.  The order in which \<^verbatim>\<open>std::sort\<close> leaves equivalent items
  is the library's choice, so \<^verbatim>\<open>Sort\<close> takes the library routine as an argument.
\<close>

fun stable_insert :: "('a \<Rightarrow> 'a \<Rightarrow> bool) \<Rightarrow> 'a \<Rightarrow> 'a list \<Rightarrow> 'a list" where
  "stable_insert lt x [] = [x]"
| "stable_insert lt x (y # ys) = (if lt y x then y # stable_insert lt x ys else x # y # ys)"

definition std_stable_sort :: "('a \<Rightarrow> 'a \<Rightarrow> bool) \<Rightarrow> 'a list \<Rightarrow> 'a list" where
  "std_stable_sort lt xs = foldr (stable_insert lt) xs []"

definition array_stable_sort :: "'a array \<Rightarrow> 'a comparison option \<Rightarrow> 'a array" where
  "array_stable_sort a cmp =
     a\<lparr>arr_vector := std_stable_sort
         (stl_compare (case cmp of Some c \<Rightarrow> c | None \<Rightarrow> arr_comparison a)) (arr_vector a)\<rparr>"

definition array_sort ::
    "(('a \<Rightarrow> 'a \<Rightarrow> bool) \<Rightarrow> 'a list \<Rightarrow> 'a list) \<Rightarrow> 'a array \<Rightarrow> 'a comparison option \<Rightarrow> 'a array" where
  "array_sort std_sort a cmp =
     a\<lparr>arr_vector := std_sort
         (stl_compare (case cmp of Some c \<Rightarrow> c | None \<Rightarrow> arr_comparison a)) (arr_vector a)\<rparr>"

section \<open>Deque, Queue and Stack\<close>

record 'a deque =
  dq_comparison :: "'a comparison"
  dq_queue :: "'a list"

definition deque_new :: "'a comparison \<Rightarrow> 'a deque" where
  "deque_new cmp = \<lparr>dq_comparison = cmp, dq_queue = []\<rparr>"

definition deque_copy :: "'a deque \<Rightarrow> 'a comparison option \<Rightarrow> 'a deque" where
  "deque_copy d cmp =
     \<lparr>dq_comparison = (case cmp of Some c \<Rightarrow> c | None \<Rightarrow> dq_comparison d), dq_queue = dq_queue d\<rparr>"

definition deque_get_count :: "'a deque \<Rightarrow> nat" where
  "deque_get_count d = length (dq_queue d)"

definition deque_find :: "'a deque \<Rightarrow> 'a \<Rightarrow> nat" where
  "deque_find d v = iterator_of_item (dq_comparison d) (dq_queue d) v"

definition deque_contains_item :: "'a deque \<Rightarrow> 'a \<Rightarrow> bool" where
  "deque_contains_item d v \<longleftrightarrow> deque_find d v \<noteq> length (dq_queue d)"

definition deque_clear :: "'a deque \<Rightarrow> 'a deque" where
  "deque_clear d = d\<lparr>dq_queue := []\<rparr>"

definition deque_remove_item :: "'a deque \<Rightarrow> 'a \<Rightarrow> bool \<times> 'a deque" where
  "deque_remove_item d v =
     (let iter = deque_find d v in
      if iter = length (dq_queue d) then (False, d)
      else (True, d\<lparr>dq_queue := erase_at (dq_queue d) iter\<rparr>))"

definition queue_push :: "'a deque \<Rightarrow> 'a \<Rightarrow> 'a deque" where
  "queue_push d v = d\<lparr>dq_queue := dq_queue d @ [v]\<rparr>"

definition stack_push :: "'a deque \<Rightarrow> 'a \<Rightarrow> 'a deque" where
  "stack_push d v = d\<lparr>dq_queue := v # dq_queue d\<rparr>"

text \<open>\<^verbatim>\<open>Pop\<close>, \<^verbatim>\<open>PopItem\<close> and \<^verbatim>\<open>Peek\<close>, the same text in \<^verbatim>\<open>Queue\<close> and \<^verbatim>\<open>Stack\<close>.\<close>

definition deque_pop :: "'a deque \<Rightarrow> 'a deque result" where
  "deque_pop d =
     (case dq_queue d of [] \<Rightarrow> throw (QueueEmptyException '''') | x # xs \<Rightarrow> Inr (d\<lparr>dq_queue := xs\<rparr>))"

definition deque_pop_item :: "'a deque \<Rightarrow> ('a \<times> 'a deque) result" where
  "deque_pop_item d =
     (case dq_queue d of [] \<Rightarrow> throw (QueueEmptyException '''')
      | x # xs \<Rightarrow> Inr (x, d\<lparr>dq_queue := xs\<rparr>))"

definition deque_peek :: "'a deque \<Rightarrow> 'a result" where
  "deque_peek d =
     (case dq_queue d of [] \<Rightarrow> throw (QueueEmptyException '''') | x # xs \<Rightarrow> Inr x)"

definition queue_add_items :: "'a deque \<Rightarrow> 'a list \<Rightarrow> 'a deque" where
  "queue_add_items d values = add_items queue_push d values"

definition stack_add_items :: "'a deque \<Rightarrow> 'a list \<Rightarrow> 'a deque" where
  "stack_add_items d values = add_items stack_push d values"

section \<open>Lemmas on the list operations\<close>

lemma iterator_of_item_le: "iterator_of_item cmp xs v \<le> length xs"
  by (induction xs) auto

lemma iterator_of_item_end:
  "iterator_of_item cmp xs v = length xs \<longleftrightarrow> (\<forall>x \<in> set xs. \<not> matches cmp x v)"
  by (induction xs) auto

lemma iterator_of_item_hit:
  "iterator_of_item cmp xs v < length xs \<Longrightarrow>
   matches cmp (xs ! iterator_of_item cmp xs v) v \<and>
   (\<forall>j < iterator_of_item cmp xs v. \<not> matches cmp (xs ! j) v)"
  by (induction xs) (auto simp: All_less_Suc2)

lemma mset_erase_at: "i < length xs \<Longrightarrow> mset xs = add_mset (xs ! i) (mset (erase_at xs i))"
  by (simp add: erase_at_def flip: mset_append) (metis id_take_nth_drop mset_append mset.simps(2) union_mset_add_mset_right)

lemma mset_insert_at: "mset (insert_at xs i v) = add_mset v (mset xs)"
  by (metis append_take_drop_id insert_at_def mset.simps(2) mset_append union_mset_add_mset_right)

lemma length_erase_at: "i < length xs \<Longrightarrow> length (erase_at xs i) = length xs - 1"
  by (simp add: erase_at_def)

lemma length_insert_at: "i \<le> length xs \<Longrightarrow> length (insert_at xs i v) = Suc (length xs)"
  by (simp add: insert_at_def)

lemma nth_insert_at:
  "i \<le> length xs \<Longrightarrow> j \<le> length xs \<Longrightarrow>
   insert_at xs i v ! j = (if j < i then xs ! j else if j = i then v else xs ! (j - 1))"
  by (auto simp: insert_at_def nth_append nth_Cons' min_def)

lemma erase_insert_at: "i \<le> length xs \<Longrightarrow> erase_at (insert_at xs i v) i = xs"
  by (simp add: insert_at_def erase_at_def)

lemma fold_add_vector:
  "fold (\<lambda>v c. array_add_item c v) values a = a\<lparr>arr_vector := arr_vector a @ values\<rparr>"
  by (induction "values" arbitrary: a) (auto simp: array_add_item_def)

lemma fold_queue_push: "fold (\<lambda>v c. queue_push c v) values d = d\<lparr>dq_queue := dq_queue d @ values\<rparr>"
  by (induction "values" arbitrary: d) (auto simp: queue_push_def)

lemma fold_stack_push: "fold (\<lambda>v c. stack_push c v) values d = d\<lparr>dq_queue := rev values @ dq_queue d\<rparr>"
  by (induction "values" arbitrary: d) (auto simp: stack_push_def)

section \<open>The contract of Collection\<close>

text \<open>
  What a client of \<^verbatim>\<open>Collection<T>\<close> relies on.  \<open>items\<close> are the items in iteration order,
  \<open>mat c\<close> the container's own notion of a match.
\<close>

locale collection =
  fixes items :: "'c \<Rightarrow> 'a list"
    and mat :: "'c \<Rightarrow> 'a \<Rightarrow> 'a \<Rightarrow> bool"
    and get_count :: "'c \<Rightarrow> nat"
    and contains_item :: "'c \<Rightarrow> 'a \<Rightarrow> bool"
    and add_item :: "'c \<Rightarrow> 'a \<Rightarrow> 'c"
    and remove_item :: "'c \<Rightarrow> 'a \<Rightarrow> bool \<times> 'c"
    and clear :: "'c \<Rightarrow> 'c"
  assumes count_items: "get_count c = length (items c)"
    and contains_items: "contains_item c v \<longleftrightarrow> (\<exists>x \<in> set (items c). mat c x v)"
    and add_item_items: "mset (items (add_item c v)) = add_mset v (mset (items c))"
    and add_item_mat: "mat (add_item c v) = mat c"
    and remove_item_hit: "contains_item c v \<Longrightarrow>
      \<exists>x c'. remove_item c v = (True, c') \<and> mat c x v \<and> mat c' = mat c \<and>
           mset (items c) = add_mset x (mset (items c'))"
    and remove_item_miss: "\<not> contains_item c v \<Longrightarrow> remove_item c v = (False, c)"
    and clear_items: "items (clear c) = []"
begin

lemma add_items_items:
  "mset (items (add_items add_item c vs)) = mset (items c) + mset vs"
  by (induction vs arbitrary: c) (simp_all add: add_items_def add_item_items)

lemma count_add_items: "get_count (add_items add_item c vs) = get_count c + length vs"
  using add_items_items [THEN arg_cong [where f = size]] by (simp add: count_items)

text \<open>The default \<^verbatim>\<open>RemoveItems\<close> returns, and leaves exactly the items that do not match.\<close>

lemma remove_items_returns:
  "\<exists>c'. remove_items remove_item c v = Some c' \<and> mat c' = mat c \<and>
        mset (items c') = filter_mset (\<lambda>x. \<not> mat c x v) (mset (items c))"
proof (induction "length (items c)" arbitrary: c rule: less_induct)
  case less
  show ?case
  proof (cases "contains_item c v")
    case True
    then obtain x c' where c': "remove_item c v = (True, c')" "mat c x v" "mat c' = mat c"
      "mset (items c) = add_mset x (mset (items c'))"
      using remove_item_hit by blast
    have "length (items c') < length (items c)"
      using c'(4) [THEN arg_cong [where f = size]] by simp
    from less [OF this] obtain d where "remove_items remove_item c' v = Some d" "mat d = mat c'"
      "mset (items d) = filter_mset (\<lambda>x. \<not> mat c' x v) (mset (items c'))" by blast
    then show ?thesis using c' by (subst remove_items.simps) simp
  next
    case False
    then have "filter_mset (\<lambda>x. \<not> mat c x v) (mset (items c)) = mset (items c)"
      by (auto simp: contains_items filter_mset_eq_conv)
    then show ?thesis using remove_item_miss [OF False] by (subst remove_items.simps) simp
  qed
qed

lemma remove_items_none_left:
  "remove_items remove_item c v = Some c' \<Longrightarrow> \<not> contains_item c' v"
  using remove_items_returns [of c v]
  by (auto simp: contains_items dest!: arg_cong [where f = set_mset])

end

section \<open>The contract of List\<close>

text \<open>\<^verbatim>\<open>List<T>\<close>: a collection with positions.\<close>

locale list_collection = collection +
  fixes get_item :: "'a \<Rightarrow> int \<Rightarrow> 'b result"
    and set_item :: "'a \<Rightarrow> int \<Rightarrow> 'b \<Rightarrow> 'a result"
    and insert_item :: "'a \<Rightarrow> int \<Rightarrow> 'b \<Rightarrow> 'a result"
    and remove_item_at :: "'a \<Rightarrow> int \<Rightarrow> 'a result"
    and index_of_item :: "'a \<Rightarrow> 'b \<Rightarrow> int"
  assumes get_item_nth: "0 \<le> i \<Longrightarrow> i < int (length (items c)) \<Longrightarrow>
      get_item c i = Inr (items c ! nat i)"
    and set_item_update: "0 \<le> i \<Longrightarrow> i < int (length (items c)) \<Longrightarrow>
      \<exists>c'. set_item c i v = Inr c' \<and> items c' = (items c)[nat i := v]"
    and insert_item_at: "0 \<le> i \<Longrightarrow> i \<le> int (length (items c)) \<Longrightarrow>
      \<exists>c'. insert_item c i v = Inr c' \<and> items c' = insert_at (items c) (nat i) v"
    and remove_at_erase: "0 \<le> i \<Longrightarrow> i < int (length (items c)) \<Longrightarrow>
      \<exists>c'. remove_item_at c i = Inr c' \<and> items c' = erase_at (items c) (nat i)"
    and index_of_first: "index_of_item c v =
      (if contains_item c v then int (LEAST i. i < length (items c) \<and> mat c (items c ! i) v) else - 1)"
begin

lemma index_of_bounds:
  "contains_item c v \<Longrightarrow>
   0 \<le> index_of_item c v \<and> index_of_item c v < int (length (items c)) \<and>
   (\<exists>x. get_item c (index_of_item c v) = Inr x \<and> mat c x v)"
proof -
  assume v: "contains_item c v"
  let ?i = "LEAST i. i < length (items c) \<and> mat c (items c ! i) v"
  have "\<exists>i. i < length (items c) \<and> mat c (items c ! i) v"
    using v by (auto simp: contains_items in_set_conv_nth)
  then have "?i < length (items c) \<and> mat c (items c ! ?i) v" by (rule LeastI_ex)
  then show ?thesis using v by (simp add: index_of_first get_item_nth)
qed

lemma set_get:
  assumes "0 \<le> i" "i < int (length (items c))"
  shows "bind_r (set_item c i v) (\<lambda>c'. get_item c' j) =
    (if j = i then Inr v else bind_r (set_item c i v) (\<lambda>c'. get_item c' j))"
  using set_item_update [OF assms, of v] assms by (auto simp: get_item_nth)

lemma insert_remove:
  assumes "0 \<le> i" "i \<le> int (length (items c))"
  shows "\<exists>c' c''. insert_item c i v = Inr c' \<and> get_item c' i = Inr v \<and>
      remove_item_at c' i = Inr c'' \<and> items c'' = items c"
proof -
  obtain c' where c': "insert_item c i v = Inr c'" "items c' = insert_at (items c) (nat i) v"
    using insert_item_at [OF assms] by blast
  have l: "i < int (length (items c'))" using assms by (simp add: c' length_insert_at)
  moreover obtain c'' where "remove_item_at c' i = Inr c''" "items c'' = erase_at (items c') (nat i)"
    using remove_at_erase [OF assms(1) l] by blast
  moreover have "erase_at (items c') (nat i) = items c" "items c' ! nat i = v"
    using assms by (simp_all add: c' erase_insert_at nth_insert_at)
  moreover have "nat i \<le> length (items c)" using assms by simp
  ultimately show ?thesis using c'(1) assms(1) get_item_nth [OF assms(1) l] by metis
qed

end

section \<open>The containers keep the contracts\<close>

abbreviation array_mat :: "'a array \<Rightarrow> 'a \<Rightarrow> 'a \<Rightarrow> bool" where
  "array_mat a \<equiv> matches (arr_comparison a)"

abbreviation deque_mat :: "'a deque \<Rightarrow> 'a \<Rightarrow> 'a \<Rightarrow> bool" where
  "deque_mat d \<equiv> matches (dq_comparison d)"

lemma erase_found:
  assumes "\<exists>x \<in> set xs. matches cmp x v"
  shows "\<exists>x. matches cmp x v \<and> mset xs = add_mset x (mset (erase_at xs (iterator_of_item cmp xs v)))"
proof -
  have "iterator_of_item cmp xs v < length xs"
    using assms iterator_of_item_le [of cmp xs v] iterator_of_item_end [of cmp xs v] by force
  from iterator_of_item_hit [OF this] mset_erase_at [OF this] show ?thesis by blast
qed

lemma iterator_of_item_Least:
  assumes "iterator_of_item cmp xs v < length xs"
  shows "(LEAST i. i < length xs \<and> matches cmp (xs ! i) v) = iterator_of_item cmp xs v"
  using iterator_of_item_hit [OF assms] assms
  by (intro Least_equality) (auto simp: not_less [symmetric])

interpretation arr: list_collection arr_vector array_mat array_get_count array_contains_item
    array_add_item array_remove_item array_clear array_get_item array_set_item
    array_insert_item array_remove_item_at array_index_of_item
proof
  fix a :: "'a array" and v :: 'a and i :: int
  show "array_get_count a = length (arr_vector a)" by (simp add: array_get_count_def)
  show c: "array_contains_item a v \<longleftrightarrow> (\<exists>x \<in> set (arr_vector a). array_mat a x v)"
    by (simp add: array_contains_item_def array_find_def iterator_of_item_end)
  show "mset (arr_vector (array_add_item a v)) = add_mset v (mset (arr_vector a))"
    and "array_mat (array_add_item a v) = array_mat a" by (simp_all add: array_add_item_def)
  show "\<exists>x c'. array_remove_item a v = (True, c') \<and> array_mat a x v \<and> array_mat c' = array_mat a \<and>
      mset (arr_vector a) = add_mset x (mset (arr_vector c'))" if "array_contains_item a v"
    using erase_found [of "arr_vector a" "arr_comparison a" v] that [unfolded c] that
    by (auto simp: array_remove_item_def Let_def array_contains_item_def array_find_def)
  show "array_remove_item a v = (False, a)" if "\<not> array_contains_item a v"
    using that by (simp add: array_remove_item_def array_contains_item_def)
  show "arr_vector (array_clear a) = []" by (simp add: array_clear_def)
  show "array_index_of_item a v = (if array_contains_item a v
      then int (LEAST i. i < length (arr_vector a) \<and> array_mat a (arr_vector a ! i) v) else - 1)"
    using iterator_of_item_Least [of "arr_comparison a" "arr_vector a" v]
      iterator_of_item_le [of "arr_comparison a" "arr_vector a" v]
    by (simp add: array_index_of_item_def array_contains_item_def array_find_def Let_def)
qed (simp_all add: array_get_item_def array_set_item_def array_insert_item_def
      array_remove_item_at_def)

lemma deque_contract:
  "deque_get_count d = length (dq_queue d)"
  "deque_contains_item d v \<longleftrightarrow> (\<exists>x \<in> set (dq_queue d). deque_mat d x v)"
  "deque_contains_item d v \<Longrightarrow>
     \<exists>x d'. deque_remove_item d v = (True, d') \<and> deque_mat d x v \<and> deque_mat d' = deque_mat d \<and>
          mset (dq_queue d) = add_mset x (mset (dq_queue d'))"
  "\<not> deque_contains_item d v \<Longrightarrow> deque_remove_item d v = (False, d)"
  "dq_queue (deque_clear d) = []"
proof -
  show c: "deque_contains_item d v \<longleftrightarrow> (\<exists>x \<in> set (dq_queue d). deque_mat d x v)"
    by (simp add: deque_contains_item_def deque_find_def iterator_of_item_end)
  show "\<exists>x d'. deque_remove_item d v = (True, d') \<and> deque_mat d x v \<and> deque_mat d' = deque_mat d \<and>
          mset (dq_queue d) = add_mset x (mset (dq_queue d'))" if "deque_contains_item d v"
    using erase_found [of "dq_queue d" "dq_comparison d" v] that [unfolded c] that
    by (auto simp: deque_remove_item_def Let_def deque_contains_item_def deque_find_def)
qed (simp_all add: deque_get_count_def deque_remove_item_def deque_contains_item_def deque_clear_def)

interpretation que: collection dq_queue deque_mat deque_get_count deque_contains_item queue_push
    deque_remove_item deque_clear
  by unfold_locales (simp_all add: deque_contract, simp_all add: queue_push_def)

interpretation stk: collection dq_queue deque_mat deque_get_count deque_contains_item stack_push
    deque_remove_item deque_clear
  by unfold_locales (simp_all add: deque_contract, simp_all add: stack_push_def)

section \<open>Sorting and draining\<close>

text \<open>What \<^verbatim>\<open>StlCompare\<close> must be for the sorts: a strict weak ordering.\<close>

definition strict_weak :: "('a \<Rightarrow> 'a \<Rightarrow> bool) \<Rightarrow> bool" where
  "strict_weak lt \<longleftrightarrow> (\<forall>x y. lt x y \<longrightarrow> \<not> lt y x) \<and> (\<forall>x y z. lt x y \<longrightarrow> lt x z \<or> lt z y)"

lemma stable_insert_mset: "mset (stable_insert lt x xs) = add_mset x (mset xs)"
  by (induction xs) auto

lemma std_stable_sort_mset: "mset (std_stable_sort lt xs) = mset xs"
  by (induction xs) (simp_all add: std_stable_sort_def stable_insert_mset)

lemma stable_insert_sorted:
  assumes "strict_weak lt" and "sorted_wrt (\<lambda>x y. \<not> lt y x) xs"
  shows "sorted_wrt (\<lambda>x y. \<not> lt y x) (stable_insert lt x xs)"
  using assms(2)
proof (induction xs)
  case (Cons y ys)
  have set: "set (stable_insert lt x ys) = insert x (set ys)"
    using stable_insert_mset [of lt x ys] by (metis set_mset_add_mset_insert set_mset_mset)
  have sw: "lt a b \<Longrightarrow> \<not> lt b a" "lt a b \<Longrightarrow> lt a c \<or> lt c b" for a b c
    using assms(1) by (auto simp: strict_weak_def)
  show ?case using Cons set by (auto dest: sw(2) [of _ _ y] sw(2) [of _ _ x] sw(1))
qed simp

lemma std_stable_sort_sorted:
  "strict_weak lt \<Longrightarrow> sorted_wrt (\<lambda>x y. \<not> lt y x) (std_stable_sort lt xs)"
  by (induction xs) (simp_all add: std_stable_sort_def stable_insert_sorted)

lemma stable_insert_filter:
  assumes "strict_weak lt"
  shows "filter (\<lambda>x. \<not> lt x k \<and> \<not> lt k x) (stable_insert lt y xs)
         = filter (\<lambda>x. \<not> lt x k \<and> \<not> lt k x) (y # xs)"
proof (induction xs)
  case (Cons z zs)
  have "lt a b \<Longrightarrow> lt a k \<or> lt k b" for a b using assms by (auto simp: strict_weak_def)
  then show ?case using Cons by auto
qed simp

lemma std_stable_sort_stable:
  "strict_weak lt \<Longrightarrow>
   filter (\<lambda>x. \<not> lt x k \<and> \<not> lt k x) (std_stable_sort lt xs) = filter (\<lambda>x. \<not> lt x k \<and> \<not> lt k x) xs"
  by (induction xs) (simp_all add: std_stable_sort_def stable_insert_filter)

text \<open>\<^verbatim>\<open>RemoveItems\<close> on the vector, in order.\<close>

lemma filter_erase_at:
  assumes "i < length xs" and "\<not> P (xs ! i)"
  shows "filter P (erase_at xs i) = filter P xs"
proof -
  have "xs = take i xs @ xs ! i # drop (Suc i) xs" using assms(1) by (rule id_take_nth_drop)
  then have "filter P xs = filter P (take i xs @ xs ! i # drop (Suc i) xs)" by simp
  then show ?thesis using assms(2) by (simp add: erase_at_def)
qed

lemma array_remove_items_result:
  "remove_items array_remove_item a v = Some b \<Longrightarrow>
   arr_comparison b = arr_comparison a \<and>
   arr_vector b = filter (\<lambda>x. \<not> array_mat a x v) (arr_vector a)"
proof (induction "length (arr_vector a)" arbitrary: a rule: less_induct)
  case less
  let ?i = "array_find a v"
  show ?case
  proof (cases "?i = length (arr_vector a)")
    case True
    then have "\<forall>x \<in> set (arr_vector a). \<not> array_mat a x v"
      by (simp add: array_find_def iterator_of_item_end)
    moreover have "b = a" using less.prems True
      by (subst (asm) remove_items.simps) (simp add: array_remove_item_def)
    ultimately show ?thesis by simp
  next
    case False
    then have lt: "?i < length (arr_vector a)"
      using iterator_of_item_le [of "arr_comparison a" "arr_vector a" v] by (simp add: array_find_def)
    have hit: "array_mat a (arr_vector a ! ?i) v"
      using iterator_of_item_hit [of "arr_comparison a" "arr_vector a" v] lt
      by (simp add: array_find_def)
    let ?c = "a\<lparr>arr_vector := erase_at (arr_vector a) ?i\<rparr>"
    have "remove_items array_remove_item ?c v = Some b" using less.prems False
      by (subst (asm) remove_items.simps) (simp add: array_remove_item_def Let_def)
    moreover have "length (arr_vector ?c) < length (arr_vector a)"
      using lt by (simp add: length_erase_at)
    ultimately have "arr_comparison b = arr_comparison ?c \<and>
      arr_vector b = filter (\<lambda>x. \<not> array_mat ?c x v) (arr_vector ?c)" using less.hyps by blast
    then show ?thesis using filter_erase_at [OF lt, of "\<lambda>x. \<not> array_mat a x v"] hit by simp
  qed
qed

text \<open>A run of a queue or a stack: the items popped, in order, and the container left.\<close>

datatype 'a deque_op = Push 'a | PopItem

fun run_deque :: "('a deque \<Rightarrow> 'a \<Rightarrow> 'a deque) \<Rightarrow> 'a deque_op list \<Rightarrow> 'a deque
    \<Rightarrow> ('a list \<times> 'a deque) result" where
  "run_deque push [] d = Inr ([], d)"
| "run_deque push (Push v # ops) d = run_deque push ops (push d v)"
| "run_deque push (PopItem # ops) d =
     bind_r (deque_pop_item d) (\<lambda>(v, d').
     bind_r (run_deque push ops d') (\<lambda>(vs, d''). Inr (v # vs, d'')))"

fun pushed :: "'a deque_op list \<Rightarrow> 'a list" where
  "pushed [] = []"
| "pushed (Push v # ops) = v # pushed ops"
| "pushed (PopItem # ops) = pushed ops"

lemma run_queue_fifo:
  "run_deque queue_push ops d = Inr (vs, d') \<Longrightarrow> vs @ dq_queue d' = dq_queue d @ pushed ops"
proof (induction ops arbitrary: d vs d')
  case (Cons op ops)
  show ?case
  proof (cases op)
    case (Push v)
    then show ?thesis using Cons.prems Cons.IH [of "queue_push d v" vs d'] by (simp add: queue_push_def)
  next
    case PopItem
    then obtain v d1 ws where v: "deque_pop_item d = Inr (v, d1)"
      "run_deque queue_push ops d1 = Inr (ws, d')" "vs = v # ws"
      using Cons.prems by (auto simp: bind_r_Inr_iff)
    have "dq_queue d = v # dq_queue d1"
      using v(1) by (auto simp: deque_pop_item_def split: list.splits)
    then show ?thesis using Cons.IH [OF v(2)] v(3) PopItem by simp
  qed
qed simp

section \<open>Properties\<close>

text \<open>C21: \<^verbatim>\<open>RemoveItems\<close>, the loop that \<^verbatim>\<open>Collection\<close> gives every container, always returns
  on an \<^verbatim>\<open>Array\<close>; the array then holds exactly the items that do not match, in their old
  order, and no longer contains the value.\<close>

theorem array_remove_items_filters:
  "\<exists>b. remove_items array_remove_item a v = Some b \<and>
       arr_vector b = filter (\<lambda>x. \<not> array_mat a x v) (arr_vector a) \<and>
       \<not> array_contains_item b v \<and> array_index_of_item b v = - 1"
proof -
  obtain b where b: "remove_items array_remove_item a v = Some b"
    using arr.remove_items_returns [of a v] by auto
  have "\<not> array_contains_item b v" using b by (rule arr.remove_items_none_left)
  then show ?thesis using array_remove_items_result [OF b] b arr.index_of_first [of b v] by simp
qed


definition sort_example :: "(nat \<times> nat) array" where
  "sort_example = \<lparr>arr_comparison = (\<lambda>p q. compare_ordered (>) (<) (fst p) (fst q)),
                   arr_vector = [(2, 0), (1, 1), (2, 2), (1, 3)]\<rparr>"


text \<open>A \<^verbatim>\<open>Queue\<close> is first in, first out under every interleaving of \<^verbatim>\<open>Push\<close> and
  \<^verbatim>\<open>PopItem\<close> that does not throw: the items popped, followed by those still queued, are the
  initial items followed by the items pushed.  \<^verbatim>\<open>PopItem\<close> throws exactly on the empty queue.\<close>

theorem queue_fifo:
  "(run_deque queue_push ops d = Inr (vs, d') \<longrightarrow> vs @ dq_queue d' = dq_queue d @ pushed ops) \<and>
   (deque_pop_item d = throw (QueueEmptyException '''') \<longleftrightarrow> deque_get_count d = 0)"
  using run_queue_fifo [of ops d vs d']
  by (auto simp: deque_pop_item_def deque_get_count_def split: list.splits)

theorem queue_fifo_witness:
  "run_deque queue_push [Push 7, Push 8, PopItem, Push 9, PopItem] (deque_new (compare_equality (=)))
     = Inr ([7, 8], \<lparr>dq_comparison = compare_equality (=), dq_queue = [9::nat]\<rparr>) \<and>
   [7, 8] @ dq_queue \<lparr>dq_comparison = compare_equality (=), dq_queue = [9::nat]\<rparr>
     = dq_queue (deque_new (compare_equality (=))) @
       pushed [Push 7, Push 8, PopItem, Push 9, PopItem]"
proof -
  have r: "run_deque queue_push [Push 7, Push 8, PopItem, Push 9, PopItem] (deque_new (compare_equality (=)))
     = Inr ([7, 8], \<lparr>dq_comparison = compare_equality (=), dq_queue = [9::nat]\<rparr>)"
    by (simp add: deque_new_def queue_push_def deque_pop_item_def)
  show ?thesis using queue_fifo [of "[Push 7, Push 8, PopItem, Push 9, PopItem]"
      "deque_new (compare_equality (=))" "[7, 8]"
      "\<lparr>dq_comparison = compare_equality (=), dq_queue = [9::nat]\<rparr>"] r by blast
qed

end
