(* ===== verification/Dictionary.thy ===== *)
theory Dictionary
  imports Collections
begin

text \<open>
  \<^verbatim>\<open>Dictionary\<close> (\<^verbatim>\<open>include/bricks/collections/dictionary.h\<close>): a \<^verbatim>\<open>std::map\<close> ordered by a key
  comparison, which is modelled as its list of entries in key order, searched the way
  \<^verbatim>\<open>lower_bound\<close> searches.  The iterator walks that list.  A dictionary refines a partial
  function from keys to values when its comparison is the key type's order.
\<close>

section \<open>The ordered map of the standard library\<close>

text \<open>\<open>lower_bound\<close>: the entries before the key, and those from it on.\<close>

fun lower_bound :: "('k \<Rightarrow> 'k \<Rightarrow> bool) \<Rightarrow> ('k \<times> 'v) list \<Rightarrow> 'k \<Rightarrow> nat" where
  "lower_bound lt [] k = 0"
| "lower_bound lt (e # es) k = (if lt (fst e) k then Suc (lower_bound lt es k) else 0)"

definition map_find :: "('k \<Rightarrow> 'k \<Rightarrow> bool) \<Rightarrow> ('k \<times> 'v) list \<Rightarrow> 'k \<Rightarrow> nat" where
  "map_find lt m k =
     (let i = lower_bound lt m k in
      if i < length m \<and> \<not> lt k (fst (m ! i)) then i else length m)"

text \<open>\<^verbatim>\<open>map[key] = value\<close>: an equivalent key that is already there stays.\<close>

definition map_assign :: "('k \<Rightarrow> 'k \<Rightarrow> bool) \<Rightarrow> ('k \<times> 'v) list \<Rightarrow> 'k \<Rightarrow> 'v \<Rightarrow> ('k \<times> 'v) list" where
  "map_assign lt m k v =
     (let i = map_find lt m k in
      if i < length m then m[i := (fst (m ! i), v)]
      else insert_at m (lower_bound lt m k) (k, v))"

section \<open>Dictionary\<close>

record ('k, 'v) dictionary =
  dict_keycomparison :: "'k comparison"
  dict_comparison :: "'v comparison"
  dict_map :: "('k \<times> 'v) list"

abbreviation dict_less :: "('k, 'v) dictionary \<Rightarrow> 'k \<Rightarrow> 'k \<Rightarrow> bool" where
  "dict_less d \<equiv> stl_compare (dict_keycomparison d)"

definition dictionary_new :: "'k comparison \<Rightarrow> 'v comparison \<Rightarrow> ('k, 'v) dictionary" where
  "dictionary_new kc vc = \<lparr>dict_keycomparison = kc, dict_comparison = vc, dict_map = []\<rparr>"

definition dictionary_find :: "('k, 'v) dictionary \<Rightarrow> 'k \<Rightarrow> nat" where
  "dictionary_find d k = map_find (dict_less d) (dict_map d) k"

fun find_value :: "'v comparison \<Rightarrow> ('k \<times> 'v) list \<Rightarrow> 'v \<Rightarrow> nat" where
  "find_value cmp [] v = 0"
| "find_value cmp (e # es) v = (if matches cmp (snd e) v then 0 else Suc (find_value cmp es v))"

definition dictionary_get_item :: "('k, 'v) dictionary \<Rightarrow> 'k \<Rightarrow> 'v result" where
  "dictionary_get_item d k =
     (let i = dictionary_find d k in
      if i = length (dict_map d) then throw (InvalidArgumentException '''')
      else Inr (snd (dict_map d ! i)))"

definition dictionary_add :: "('k, 'v) dictionary \<Rightarrow> 'k \<Rightarrow> 'v \<Rightarrow> ('k, 'v) dictionary" where
  "dictionary_add d k v = d\<lparr>dict_map := map_assign (dict_less d) (dict_map d) k v\<rparr>"

definition dictionary_get_item_or ::
    "('k, 'v) dictionary \<Rightarrow> 'k \<Rightarrow> 'v \<Rightarrow> 'v \<times> ('k, 'v) dictionary" where
  "dictionary_get_item_or d k v =
     (let i = dictionary_find d k in
      if i \<noteq> length (dict_map d) then (snd (dict_map d ! i), d)
      else (v, d\<lparr>dict_map := map_assign (dict_less d) (dict_map d) k v\<rparr>))"

definition dictionary_contains_key :: "('k, 'v) dictionary \<Rightarrow> 'k \<Rightarrow> bool" where
  "dictionary_contains_key d k \<longleftrightarrow> dictionary_find d k \<noteq> length (dict_map d)"

definition dictionary_contains_value :: "('k, 'v) dictionary \<Rightarrow> 'v \<Rightarrow> bool" where
  "dictionary_contains_value d v \<longleftrightarrow>
     find_value (dict_comparison d) (dict_map d) v \<noteq> length (dict_map d)"

definition dictionary_set :: "('k, 'v) dictionary \<Rightarrow> 'k \<Rightarrow> 'v \<Rightarrow> ('k, 'v) dictionary result" where
  "dictionary_set d k v =
     (let i = dictionary_find d k in
      if i = length (dict_map d) then throw (InvalidArgumentException '''')
      else Inr (d\<lparr>dict_map := (dict_map d)[i := (fst (dict_map d ! i), v)]\<rparr>))"

definition dictionary_remove_key :: "('k, 'v) dictionary \<Rightarrow> 'k \<Rightarrow> bool \<times> ('k, 'v) dictionary" where
  "dictionary_remove_key d k =
     (let i = dictionary_find d k in
      if i = length (dict_map d) then (False, d)
      else (True, d\<lparr>dict_map := erase_at (dict_map d) i\<rparr>))"

definition dictionary_remove_value :: "('k, 'v) dictionary \<Rightarrow> 'v \<Rightarrow> bool \<times> ('k, 'v) dictionary" where
  "dictionary_remove_value d v =
     (let i = find_value (dict_comparison d) (dict_map d) v in
      if i = length (dict_map d) then (False, d)
      else (True, d\<lparr>dict_map := erase_at (dict_map d) i\<rparr>))"

definition dictionary_get_count :: "('k, 'v) dictionary \<Rightarrow> nat" where
  "dictionary_get_count d = length (dict_map d)"

definition dictionary_contains_item :: "('k, 'v) dictionary \<Rightarrow> 'k \<times> 'v \<Rightarrow> bool" where
  "dictionary_contains_item d p \<longleftrightarrow>
     (let i = dictionary_find d (fst p) in
      i \<noteq> length (dict_map d) \<and> matches (dict_comparison d) (snd (dict_map d ! i)) (snd p))"

definition dictionary_add_item :: "('k, 'v) dictionary \<Rightarrow> 'k \<times> 'v \<Rightarrow> ('k, 'v) dictionary" where
  "dictionary_add_item d p = d\<lparr>dict_map := map_assign (dict_less d) (dict_map d) (fst p) (snd p)\<rparr>"

definition dictionary_add_items :: "('k, 'v) dictionary \<Rightarrow> ('k \<times> 'v) list \<Rightarrow> ('k, 'v) dictionary" where
  "dictionary_add_items d ps = add_items dictionary_add_item d ps"

text \<open>\<^verbatim>\<open>RemoveItem\<close> of a pair looks at the key only.\<close>

definition dictionary_remove_item :: "('k, 'v) dictionary \<Rightarrow> 'k \<times> 'v \<Rightarrow> bool \<times> ('k, 'v) dictionary" where
  "dictionary_remove_item d p = dictionary_remove_key d (fst p)"

definition dictionary_clear :: "('k, 'v) dictionary \<Rightarrow> ('k, 'v) dictionary" where
  "dictionary_clear d = d\<lparr>dict_map := []\<rparr>"

section \<open>The iterator\<close>

record dict_iterator =
  di_first :: bool
  di_position :: nat
  di_end :: nat

definition dict_iterator_new :: "('k, 'v) dictionary \<Rightarrow> dict_iterator" where
  "dict_iterator_new d = \<lparr>di_first = True, di_position = 0, di_end = length (dict_map d)\<rparr>"

definition dict_move_next :: "dict_iterator \<Rightarrow> bool \<times> dict_iterator" where
  "dict_move_next it =
     (let it' = (if di_first it then it\<lparr>di_first := False\<rparr>
                 else it\<lparr>di_position := di_position it + 1\<rparr>)
      in (di_position it' \<noteq> di_end it', it'))"

definition dict_get_current :: "('k, 'v) dictionary \<Rightarrow> dict_iterator \<Rightarrow> ('k \<times> 'v) result" where
  "dict_get_current d it = peek (dict_map d) (di_position it)"

section \<open>The abstract map\<close>

text \<open>The default comparison of an ordered key type, entries strictly ascending.\<close>

definition dict_ok :: "('k::linorder, 'v) dictionary \<Rightarrow> bool" where
  "dict_ok d \<longleftrightarrow> dict_keycomparison d = compare_ordered (>) (<) \<and>
                 sorted_wrt (<) (map fst (dict_map d))"

definition dict_abs :: "('k, 'v) dictionary \<Rightarrow> 'k \<rightharpoonup> 'v" where
  "dict_abs d = map_of (dict_map d)"

lemma lower_bound_le: "lower_bound lt m k \<le> length m"
  by (induction m) auto

lemma lower_bound_split:
  assumes "sorted_wrt (<) (map fst m)"
  shows "\<forall>e \<in> set (take (lower_bound (<) m k) m). fst e < (k::'k::linorder)"
    and "\<forall>e \<in> set (drop (lower_bound (<) m k) m). k \<le> fst e"
  using assms by (induction m) (auto intro: less_imp_le order.strict_trans1 simp: not_less)

lemma map_find_cases:
  fixes k :: "'k::linorder"
  assumes s: "sorted_wrt (<) (map fst m)"
  obtains (found) p v q where "m = p @ (k, v) # q" "map_find (<) m k = length p"
      "\<forall>e \<in> set p. fst e < k" "\<forall>e \<in> set q. k < fst e"
  | (absent) p q where "m = p @ q" "map_find (<) m k = length m" "lower_bound (<) m k = length p"
      "\<forall>e \<in> set p. fst e < k" "\<forall>e \<in> set q. k < fst e"
proof -
  let ?i = "lower_bound (<) m k"
  let ?p = "take ?i m" and ?q = "drop ?i m"
  have m: "m = ?p @ ?q" by simp
  have lp: "length ?p = ?i" using lower_bound_le [of "(<)" m k] by simp
  have p: "\<forall>e \<in> set ?p. fst e < k" and q: "\<forall>e \<in> set ?q. k \<le> fst e"
    using lower_bound_split [OF s] by blast+
  have sq: "sorted_wrt (<) (map fst ?q)" using s by (metis m map_append sorted_wrt_append)
  show thesis
  proof (cases ?q)
    case Nil
    then show thesis using absent [of ?p "[]"] p lp by (simp add: map_find_def)
  next
    case (Cons e es)
    then have i: "?i < length m" "m ! ?i = e" by (auto simp: nth_via_drop)
        (metis length_drop length_greater_0_conv list.distinct(1) zero_less_diff)
    show thesis
    proof (cases "fst e = k")
      case True
      have "m = ?p @ (k, snd e) # es" using m Cons True by (metis prod.collapse)
      moreover have "\<forall>e' \<in> set es. k < fst e'" using sq Cons True by auto
      ultimately show thesis using found [of ?p "snd e" es] p i lp True
        by (simp add: map_find_def)
    next
      case False
      then have "k < fst e" using q Cons by (auto simp: order_less_le)
      then have "\<forall>e' \<in> set ?q. k < fst e'" using sq Cons by auto
      then show thesis using absent [of ?p ?q] p i lp \<open>k < fst e\<close> m by (simp add: map_find_def)
    qed
  qed
qed

lemma map_of_split:
  fixes k :: "'k::linorder"
  assumes "\<forall>e \<in> set p. fst e < k" and "\<forall>e \<in> set q. k < fst e"
  shows "map_of p k = None" "map_of q k = None"
  using assms by (force simp: map_of_eq_None_iff)+

lemma map_find_abs:
  assumes "sorted_wrt (<) (map fst m)"
  shows "(if map_find (<) m k = length m then None else Some (snd (m ! map_find (<) m k)))
         = map_of m (k::'k::linorder)"
  using assms
proof (cases rule: map_find_cases [of m k])
  case (found p v q)
  then show ?thesis using map_of_split [OF found(3,4)] by (simp add: map_add_def)
next
  case (absent p q)
  then show ?thesis using map_of_split [OF absent(4,5)] by (simp add: map_add_def)
qed

lemma map_assign_abs:
  assumes "sorted_wrt (<) (map fst m)"
  shows "map_of (map_assign (<) m k v) = (map_of m)(k \<mapsto> (v::'v))"
    and "sorted_wrt (<) (map fst (map_assign (<) m (k::'k::linorder) v))"
  using assms
proof -
  show "map_of (map_assign (<) m k v) = (map_of m)(k \<mapsto> v)"
  proof (cases rule: map_find_cases [OF assms, of k])
    case (1 p v' q)
    then show ?thesis using map_of_split [OF 1(3,4)]
      by (auto simp: map_assign_def list_update_append map_add_def fun_eq_iff split: option.splits)
  next
    case (2 p q)
    then show ?thesis using map_of_split [OF 2(4,5)]
      by (auto simp: map_assign_def insert_at_def map_add_def fun_eq_iff split: option.splits)
  qed
  show "sorted_wrt (<) (map fst (map_assign (<) m k v))"
  proof (cases rule: map_find_cases [OF assms, of k])
    case (1 p v' q)
    then show ?thesis using assms by (simp add: map_assign_def list_update_append)
  next
    case (2 p q)
    then show ?thesis using assms by (auto simp: map_assign_def insert_at_def sorted_wrt_append)
  qed
qed

lemma map_erase_abs:
  assumes "sorted_wrt (<) (map fst m)" and "map_find (<) m k \<noteq> length m"
  shows "map_of (erase_at m (map_find (<) m k)) = (map_of m)((k::'k::linorder) := None)"
    and "sorted_wrt (<) (map fst (erase_at m (map_find (<) m k)))"
proof -
  show "map_of (erase_at m (map_find (<) m k)) = (map_of m)(k := None)"
  proof (cases rule: map_find_cases [OF assms(1), of k])
    case (1 p v' q)
    then show ?thesis using map_of_split [OF 1(3,4)]
      by (auto simp: erase_at_def map_add_def fun_eq_iff split: option.splits)
  qed (use assms in simp)
  show "sorted_wrt (<) (map fst (erase_at m (map_find (<) m k)))"
  proof (cases rule: map_find_cases [OF assms(1), of k])
    case (1 p v' q)
    then show ?thesis using assms(1) by (simp add: erase_at_def sorted_wrt_append)
  qed (use assms in simp)
qed

section \<open>The contract of a keyed store\<close>

locale keyed_store =
  fixes ok :: "'d \<Rightarrow> bool"
    and abs :: "'d \<Rightarrow> 'k \<rightharpoonup> 'v"
    and get_item :: "'d \<Rightarrow> 'k \<Rightarrow> 'v result"
    and contains_key :: "'d \<Rightarrow> 'k \<Rightarrow> bool"
    and add :: "'d \<Rightarrow> 'k \<Rightarrow> 'v \<Rightarrow> 'd"
    and set :: "'d \<Rightarrow> 'k \<Rightarrow> 'v \<Rightarrow> 'd result"
    and remove_key :: "'d \<Rightarrow> 'k \<Rightarrow> bool \<times> 'd"
  assumes get_item_abs: "ok d \<Longrightarrow> get_item d k =
      (case abs d k of None \<Rightarrow> throw (InvalidArgumentException '''') | Some v \<Rightarrow> Inr v)"
    and contains_key_abs: "ok d \<Longrightarrow> contains_key d k \<longleftrightarrow> k \<in> dom (abs d)"
    and add_ok: "ok d \<Longrightarrow> ok (add d k v)"
    and add_abs: "ok d \<Longrightarrow> abs (add d k v) = (abs d)(k \<mapsto> v)"
    and set_abs: "ok d \<Longrightarrow> set d k v =
      (if k \<in> dom (abs d) then Inr (add d k v) else throw (InvalidArgumentException ''''))"
    and remove_key_abs: "ok d \<Longrightarrow> \<exists>d'. remove_key d k = (k \<in> dom (abs d), d') \<and> ok d' \<and>
      abs d' = (abs d)(k := None)"
begin

lemma get_add: "ok d \<Longrightarrow> get_item (add d k v) k' = (if k' = k then Inr v else get_item d k')"
  by (simp add: get_item_abs add_ok add_abs)

lemma get_remove:
  assumes "ok d"
  shows "get_item (snd (remove_key d k)) k' =
    (if k' = k then throw (InvalidArgumentException '''') else get_item d k')"
  using remove_key_abs [OF assms, of k] assms by (auto simp: get_item_abs)

lemma add_fold_ok: "ok d \<Longrightarrow> ok (fold (\<lambda>p d. add d (fst p) (snd p)) ps d)"
  by (induction ps arbitrary: d) (simp_all add: add_ok)

lemma add_fold_abs:
  "ok d \<Longrightarrow> abs (fold (\<lambda>p d. add d (fst p) (snd p)) ps d) = abs d ++ map_of (rev ps)"
  by (induction ps arbitrary: d) (simp_all add: add_ok add_abs map_add_def fun_eq_iff split: option.splits)

end

lemma dict_less_ok: "dict_ok d \<Longrightarrow> dict_less d = (<)"
  by (intro ext) (simp add: dict_ok_def)

lemma dictionary_find_abs:
  "dict_ok d \<Longrightarrow> (if dictionary_find d k = length (dict_map d) then None
                  else Some (snd (dict_map d ! dictionary_find d k))) = dict_abs d k"
  using map_find_abs [of "dict_map d" k, symmetric]
  by (simp add: dictionary_find_def dict_less_ok dict_abs_def) (simp add: dict_ok_def)

lemma dictionary_find_dom:
  "dict_ok d \<Longrightarrow> dictionary_find d k = length (dict_map d) \<longleftrightarrow> k \<notin> dom (dict_abs d)"
  using dictionary_find_abs [of d k, symmetric] by (simp add: domIff)

lemma dictionary_add_ok:
  "dict_ok d \<Longrightarrow> dict_ok (dictionary_add d k v) \<and> dict_abs (dictionary_add d k v) = (dict_abs d)(k \<mapsto> v)"
  using map_assign_abs [of "dict_map d" k v]
  by (simp add: dictionary_add_def dict_less_ok) (simp add: dict_ok_def dict_abs_def)

lemma dictionary_remove_key_ok:
  "dict_ok d \<Longrightarrow> \<exists>d'. dictionary_remove_key d k = (k \<in> dom (dict_abs d), d') \<and> dict_ok d' \<and>
      dict_abs d' = (dict_abs d)(k := None)"
proof -
  assume ok: "dict_ok d"
  show ?thesis
  proof (cases "k \<in> dom (dict_abs d)")
    case False
    then have "(dict_abs d)(k := None) = dict_abs d" by (auto simp: dom_def fun_eq_iff)
    then show ?thesis using False ok dictionary_find_dom [OF ok, of k]
      by (simp add: dictionary_remove_key_def)
  next
    case True
    then have f: "dictionary_find d k \<noteq> length (dict_map d)" using dictionary_find_dom [OF ok] by simp
    then have "map_find (<) (dict_map d) k \<noteq> length (dict_map d)"
      by (simp add: dictionary_find_def dict_less_ok [OF ok])
    with map_erase_abs [of "dict_map d" k] ok True f show ?thesis
      by (simp add: dictionary_remove_key_def Let_def dictionary_find_def dict_less_ok [OF ok])
         (simp add: dict_ok_def dict_abs_def)
  qed
qed

lemma dictionary_set_is_add:
  assumes ok: "dict_ok d"
  shows "dictionary_set d k v = (if k \<in> dom (dict_abs d) then Inr (dictionary_add d k v)
           else throw (InvalidArgumentException ''''))"
proof -
  have le: "map_find (dict_less d) (dict_map d) k \<le> length (dict_map d)"
    by (simp add: map_find_def Let_def)
  show ?thesis using dictionary_find_dom [OF ok, of k] le
    by (auto simp: dictionary_set_def dictionary_add_def map_assign_def dictionary_find_def Let_def)
qed

interpretation dict: keyed_store dict_ok dict_abs dictionary_get_item dictionary_contains_key
    dictionary_add dictionary_set dictionary_remove_key
proof
  fix d :: "('k::linorder, 'v) dictionary" and k v
  assume ok: "dict_ok d"
  show "dictionary_get_item d k =
      (case dict_abs d k of None \<Rightarrow> throw (InvalidArgumentException '''') | Some v \<Rightarrow> Inr v)"
    using dictionary_find_abs [OF ok, of k, symmetric] by (simp add: dictionary_get_item_def Let_def)
  show "dictionary_contains_key d k \<longleftrightarrow> k \<in> dom (dict_abs d)"
    using dictionary_find_dom [OF ok, of k] by (simp add: dictionary_contains_key_def)
qed (simp_all add: dictionary_add_ok dictionary_set_is_add dictionary_remove_key_ok)

lemma dictionary_add_items_fold:
  "dictionary_add_items d ps = fold (\<lambda>p d. dictionary_add d (fst p) (snd p)) ps d"
  by (simp add: dictionary_add_items_def add_items_def dictionary_add_item_def dictionary_add_def)

section \<open>Iteration\<close>

definition dict_iterator_at :: "('k, 'v) dictionary \<Rightarrow> nat \<Rightarrow> dict_iterator" where
  "dict_iterator_at d k = \<lparr>di_first = (k = 0), di_position = k - 1, di_end = length (dict_map d)\<rparr>"

lemma dict_move_next_at:
  "k \<le> length (dict_map d) \<Longrightarrow>
   dict_move_next (dict_iterator_at d k) = (k < length (dict_map d), dict_iterator_at d (Suc k))"
  by (auto simp: dict_move_next_def dict_iterator_at_def Let_def)

lemma for_each_dict:
  "k \<le> length (dict_map d) \<Longrightarrow>
   \<exists>it. for_each dict_move_next (dict_get_current d) (\<lambda>p s. Inr (True, f p s)) (dict_iterator_at d k) True s
     = Some (Inr (it, fold f (drop k (dict_map d)) s))"
proof (induction "length (dict_map d) - k" arbitrary: k s)
  case 0
  then show ?case by (subst for_each.simps) (simp add: dict_move_next_at)
next
  case (Suc n)
  then have k: "k < length (dict_map d)" by simp
  then have cur: "dict_get_current d (dict_iterator_at d (Suc k)) = Inr (dict_map d ! k)"
    by (simp add: dict_get_current_def dict_iterator_at_def peek_in)
  have dr: "drop k (dict_map d) = dict_map d ! k # drop (Suc k) (dict_map d)"
    using k by (simp add: Cons_nth_drop_Suc)
  show ?case using Suc.hyps(1) [of "Suc k" "f (dict_map d ! k) s"] Suc.hyps(2) k
    by (subst for_each.simps) (simp add: dict_move_next_at cur dr)
qed

section \<open>Properties\<close>

definition small_dictionary :: "(nat, nat) dictionary" where
  "small_dictionary = dictionary_add_items
     (dictionary_new (compare_ordered (>) (<)) (compare_ordered (>) (<))) [(5, 50), (1, 10), (5, 51)]"

lemma small_dictionary_ok: "dict_ok small_dictionary"
  unfolding small_dictionary_def dictionary_add_items_fold
  by (rule dict.add_fold_ok) (simp add: dictionary_new_def dict_ok_def)

text \<open>C9: \<^verbatim>\<open>Dictionary\<close> with the default comparison of an ordered key type refines a
  partial function: adding the pairs of a list gives the map that the last pair of each key
  wins, and then \<^verbatim>\<open>GetItem\<close> reads that map or throws, \<^verbatim>\<open>Set\<close> changes only keys that are
  there, \<^verbatim>\<open>RemoveKey\<close> removes the key and reports whether it was there, and the entries
  stay in strictly ascending key order.\<close>

theorem dictionary_refines_map:
  fixes d :: "('k::linorder, 'v) dictionary"
  assumes "dict_ok d"
  shows "dict_ok (dictionary_add_items d ps) \<and>
    dict_abs (dictionary_add_items d ps) = dict_abs d ++ map_of (rev ps) \<and>
    dictionary_get_item (dictionary_add d k v) k' = (if k' = k then Inr v else dictionary_get_item d k') \<and>
    dictionary_get_item (snd (dictionary_remove_key d k)) k' =
      (if k' = k then throw (InvalidArgumentException '''') else dictionary_get_item d k') \<and>
    dictionary_set d k v = (if dictionary_contains_key d k then Inr (dictionary_add d k v)
      else throw (InvalidArgumentException '''')) \<and>
    fst (dictionary_remove_key d k) = dictionary_contains_key d k"
  using dict.add_fold_ok [OF assms, of ps] dict.add_fold_abs [OF assms, of ps]
    dict.get_add [OF assms] dict.get_remove [OF assms] dict.set_abs [OF assms]
    dict.contains_key_abs [OF assms] dict.remove_key_abs [OF assms, of k]
  by (auto simp: dictionary_add_items_fold)

theorem dictionary_refines_map_witness:
  "dict_ok (dictionary_add_items small_dictionary [(3, 30)]) \<and>
    dict_abs (dictionary_add_items small_dictionary [(3, 30)])
      = dict_abs small_dictionary ++ map_of (rev [(3, 30)]) \<and>
    dictionary_get_item (dictionary_add small_dictionary 5 9) 1
      = (if (1::nat) = 5 then Inr 9 else dictionary_get_item small_dictionary 1) \<and>
    dictionary_get_item (snd (dictionary_remove_key small_dictionary 5)) 1 =
      (if (1::nat) = 5 then throw (InvalidArgumentException '''') else dictionary_get_item small_dictionary 1) \<and>
    dictionary_set small_dictionary 5 9 = (if dictionary_contains_key small_dictionary 5
      then Inr (dictionary_add small_dictionary 5 9) else throw (InvalidArgumentException '''')) \<and>
    fst (dictionary_remove_key small_dictionary 5) = dictionary_contains_key small_dictionary 5"
  by (rule dictionary_refines_map [OF small_dictionary_ok])

text \<open>
  \<^verbatim>\<open>RemoveItem\<close> of a pair removes an entry that \<^verbatim>\<open>ContainsItem\<close> says is not there, so a
  dictionary is not a \<open>collection\<close> of pairs.
\<close>

lemma dictionary_remove_item_ignores_value:
  "\<not> dictionary_contains_item small_dictionary (1, 99)"
  "fst (dictionary_remove_item small_dictionary (1, 99))"
  by (simp_all add: small_dictionary_def dictionary_add_items_fold dictionary_new_def
      dictionary_add_def map_assign_def map_find_def Let_def insert_at_def dictionary_contains_item_def
      dictionary_find_def dictionary_remove_item_def dictionary_remove_key_def)

end
