(* ===== verification/List_Guard.thy ===== *)
theory List_Guard
  imports Collections
begin

text \<open>
  \<^verbatim>\<open>ListGuard\<close> over an \<^verbatim>\<open>Array\<close> (\<^verbatim>\<open>include/bricks/collections/listguard.h\<close>): a list that tells
  its live iterators before each change, so that each copies what it has left.  The state
  holds the list, the iterator objects by address, and the array \<^verbatim>\<open>iterators\<close> of the addresses
  registered.  An iterator's \<^verbatim>\<open>list\<close> pointer is the flag \<open>gi_attached\<close>.
\<close>

section \<open>Guarded iterators\<close>

record 'a guard_iterator =
  gi_attached :: bool
  gi_iterator :: pos_iterator
  gi_cache :: "('a list \<times> pos_iterator) option"
  gi_status :: bool

definition guard_iterator_new :: "'a list \<Rightarrow> 'a guard_iterator" where
  "guard_iterator_new xs =
     \<lparr>gi_attached = True, gi_iterator = pos_iterator_new xs, gi_cache = None, gi_status = False\<rparr>"

text \<open>The \<^verbatim>\<open>do ... while (iterator.MoveNext())\<close> loop that fills the cache.\<close>

function guard_collect :: "'a list \<Rightarrow> pos_iterator \<Rightarrow> 'a list \<Rightarrow> ('a list \<times> pos_iterator) result" where
  "guard_collect xs it listCache =
     bind_r (pos_get_current xs it) (\<lambda>x.
     (let (more, it') = pos_move_next it in
      if more then guard_collect xs it' (listCache @ [x]) else Inr (listCache @ [x], it')))"
  by pat_completeness auto
termination
  by (relation "measure (\<lambda>(xs, it, c). nat (it_end it - it_position it))")
     (auto simp: pos_move_next_def Let_def)

declare guard_collect.simps [simp del]

definition list_changed :: "'a list \<Rightarrow> 'a guard_iterator \<Rightarrow> 'a guard_iterator result" where
  "list_changed xs it =
     (if gi_cache it \<noteq> None \<or> \<not> gi_attached it then Inr it
      else
        bind_r
          (if gi_status it then guard_collect xs (gi_iterator it) []
           else (let (more, it') = pos_move_next (gi_iterator it) in
                 if \<not> more then guard_collect xs it' [] else Inr ([], it'))) (\<lambda>(listCache, it').
        (let iteratorCache = pos_iterator_new listCache;
             iteratorCache' = (if gi_status it then snd (pos_move_next iteratorCache)
                               else iteratorCache)
         in Inr (it\<lparr>gi_iterator := it', gi_cache := Some (listCache, iteratorCache')\<rparr>))))"

definition guard_get_current :: "'a list \<Rightarrow> 'a guard_iterator \<Rightarrow> 'a result" where
  "guard_get_current xs it =
     (case gi_cache it of
        Some (listCache, ci) \<Rightarrow> pos_get_current listCache ci
      | None \<Rightarrow> pos_get_current xs (gi_iterator it))"

text \<open>\<^verbatim>\<open>MoveNext\<close>; the flag says whether the iterator has to be unregistered.\<close>

definition guard_move_next :: "'a guard_iterator \<Rightarrow> bool \<times> 'a guard_iterator" where
  "guard_move_next it =
     (let (more, it') =
        (case gi_cache it of
           Some (listCache, ci) \<Rightarrow>
             (let (m, ci') = pos_move_next ci in (m, it\<lparr>gi_cache := Some (listCache, ci')\<rparr>))
         | None \<Rightarrow>
             (let (m, i') = pos_move_next (gi_iterator it) in (m, it\<lparr>gi_iterator := i'\<rparr>)))
      in if more then (True, it'\<lparr>gi_status := True\<rparr>) else (False, it'\<lparr>gi_attached := False\<rparr>))"

section \<open>The guarded list\<close>

record 'a guard =
  gs_list :: "'a array"
  gs_iterators :: "nat list"
  gs_object :: "nat \<Rightarrow> 'a guard_iterator option"

abbreviation gs_items :: "'a guard \<Rightarrow> 'a list" where
  "gs_items s \<equiv> arr_vector (gs_list s)"

definition guard_new :: "'a array \<Rightarrow> 'a guard" where
  "guard_new a = \<lparr>gs_list = a, gs_iterators = [], gs_object = (\<lambda>_. None)\<rparr>"

definition iterator_register :: "nat \<Rightarrow> 'a guard \<Rightarrow> 'a guard" where
  "iterator_register i s = s\<lparr>gs_iterators := gs_iterators s @ [i]\<rparr>"

definition iterator_unregister :: "nat \<Rightarrow> 'a guard \<Rightarrow> 'a guard" where
  "iterator_unregister i s = s\<lparr>gs_iterators := remove1 i (gs_iterators s)\<rparr>"

definition guard_get_iterator :: "nat \<Rightarrow> 'a guard \<Rightarrow> 'a guard" where
  "guard_get_iterator i s =
     iterator_register i (s\<lparr>gs_object := (gs_object s)(i \<mapsto> guard_iterator_new (gs_items s))\<rparr>)"

text \<open>Copies of iterators.  They share the cache of the original and the position in it, so that
  moving one moves the other; a copy of an iterator with a cache is not modelled and has the value
  None.\<close>

definition guard_copy_iterator :: "nat \<Rightarrow> nat \<Rightarrow> 'a guard \<Rightarrow> 'a guard result option" where
  "guard_copy_iterator i j s =
     (case gs_object s j of
        None \<Rightarrow> Some (Inl Undefined)
      | Some it \<Rightarrow>
          if gi_cache it \<noteq> None then None
          else if gi_attached it then Some (Inr (iterator_register i (s\<lparr>gs_object := (gs_object s)(i \<mapsto> it)\<rparr>)))
          else Some (Inl Undefined))"

definition guard_assign_iterator :: "nat \<Rightarrow> nat \<Rightarrow> 'a guard \<Rightarrow> 'a guard result option" where
  "guard_assign_iterator i j s =
     (case (gs_object s i, gs_object s j) of
        (Some old, Some it) \<Rightarrow>
          if gi_cache it \<noteq> None then None
          else (let s1 = (if gi_attached old then iterator_unregister i s else s);
                    s2 = s1\<lparr>gs_object := (gs_object s1)(i \<mapsto> it)\<rparr>
                in Some (Inr (if gi_attached it then iterator_register i s2 else s2)))
      | _ \<Rightarrow> Some (Inl Undefined))"

definition guard_delete_iterator :: "nat \<Rightarrow> 'a guard \<Rightarrow> 'a guard result" where
  "guard_delete_iterator i s =
     (case gs_object s i of
        None \<Rightarrow> Inl Undefined
      | Some it \<Rightarrow>
          Inr ((if gi_attached it then iterator_unregister i s else s)
                 \<lparr>gs_object := (gs_object s)(i := None)\<rparr>))"

definition guard_next :: "nat \<Rightarrow> 'a guard \<Rightarrow> (bool \<times> 'a guard) result" where
  "guard_next i s =
     (case gs_object s i of
        None \<Rightarrow> Inl Undefined
      | Some it \<Rightarrow>
          (let (more, it') = guard_move_next it;
               s' = s\<lparr>gs_object := (gs_object s)(i \<mapsto> it')\<rparr>
           in Inr (more, if \<not> more \<and> gi_attached it then iterator_unregister i s' else s')))"

definition guard_current :: "nat \<Rightarrow> 'a guard \<Rightarrow> 'a result" where
  "guard_current i s =
     (case gs_object s i of None \<Rightarrow> Inl Undefined | Some it \<Rightarrow> guard_get_current (gs_items s) it)"

fun notify :: "nat list \<Rightarrow> 'a guard \<Rightarrow> 'a guard result" where
  "notify [] s = Inr s"
| "notify (i # is) s =
     (case gs_object s i of
        None \<Rightarrow> Inl Undefined
      | Some it \<Rightarrow>
          bind_r (list_changed (gs_items s) it) (\<lambda>it'.
          notify is (s\<lparr>gs_object := (gs_object s)(i \<mapsto> it')\<rparr>)))"

definition guard_iterators :: "'a guard \<Rightarrow> 'a guard result" where
  "guard_iterators s = notify (gs_iterators s) s"

definition with_guard :: "'a guard \<Rightarrow> ('a array \<Rightarrow> ('b \<times> 'a array) result) \<Rightarrow> ('b \<times> 'a guard) result" where
  "with_guard s change =
     bind_r (guard_iterators s) (\<lambda>s'.
     bind_r (change (gs_list s')) (\<lambda>(r, l). Inr (r, s'\<lparr>gs_list := l\<rparr>)))"

definition guard_assign :: "'a guard \<Rightarrow> 'a array \<Rightarrow> (unit \<times> 'a guard) result" where
  "guard_assign s a = with_guard s (\<lambda>_. Inr ((), a))"

definition guard_add_item :: "'a guard \<Rightarrow> 'a \<Rightarrow> (unit \<times> 'a guard) result" where
  "guard_add_item s v = with_guard s (\<lambda>l. Inr ((), array_add_item l v))"

definition guard_add_items :: "'a guard \<Rightarrow> 'a list \<Rightarrow> (unit \<times> 'a guard) result" where
  "guard_add_items s vs = with_guard s (\<lambda>l. Inr ((), add_items array_add_item l vs))"

definition guard_remove_item :: "'a guard \<Rightarrow> 'a \<Rightarrow> (bool \<times> 'a guard) result" where
  "guard_remove_item s v = with_guard s (\<lambda>l. Inr (array_remove_item l v))"

definition guard_remove_items :: "'a guard \<Rightarrow> 'a \<Rightarrow> (unit \<times> 'a guard) result" where
  "guard_remove_items s v =
     with_guard s (\<lambda>l. case remove_items array_remove_item l v of
       Some l' \<Rightarrow> Inr ((), l') | None \<Rightarrow> Inl Undefined)"

definition guard_clear :: "'a guard \<Rightarrow> (unit \<times> 'a guard) result" where
  "guard_clear s = with_guard s (\<lambda>l. Inr ((), array_clear l))"

definition guard_set_item :: "'a guard \<Rightarrow> int \<Rightarrow> 'a \<Rightarrow> (unit \<times> 'a guard) result" where
  "guard_set_item s i v = with_guard s (\<lambda>l. bind_r (array_set_item l i v) (\<lambda>l'. Inr ((), l')))"

definition guard_insert_item :: "'a guard \<Rightarrow> int \<Rightarrow> 'a \<Rightarrow> (unit \<times> 'a guard) result" where
  "guard_insert_item s i v = with_guard s (\<lambda>l. bind_r (array_insert_item l i v) (\<lambda>l'. Inr ((), l')))"

definition guard_remove_item_at :: "'a guard \<Rightarrow> int \<Rightarrow> (unit \<times> 'a guard) result" where
  "guard_remove_item_at s i = with_guard s (\<lambda>l. bind_r (array_remove_item_at l i) (\<lambda>l'. Inr ((), l')))"

text \<open>What reads the list goes past the iterators.\<close>

definition guard_get_count :: "'a guard \<Rightarrow> nat" where
  "guard_get_count s = array_get_count (gs_list s)"

definition guard_contains_item :: "'a guard \<Rightarrow> 'a \<Rightarrow> bool" where
  "guard_contains_item s v = array_contains_item (gs_list s) v"

definition guard_get_item :: "'a guard \<Rightarrow> int \<Rightarrow> 'a result" where
  "guard_get_item s i = array_get_item (gs_list s) i"

definition guard_index_of_item :: "'a guard \<Rightarrow> 'a \<Rightarrow> int" where
  "guard_index_of_item s v = array_index_of_item (gs_list s) v"

definition guard_is_guarding :: "'a guard \<Rightarrow> bool" where
  "guard_is_guarding s \<longleftrightarrow> gs_iterators s \<noteq> []"

text \<open>\<^verbatim>\<open>~ListGuardBase\<close>: every iterator keeps its copy and loses the list.\<close>

fun destroy_iterators :: "nat list \<Rightarrow> 'a guard \<Rightarrow> 'a guard result" where
  "destroy_iterators [] s = Inr s"
| "destroy_iterators (i # is) s =
     (case gs_object s i of
        None \<Rightarrow> Inl Undefined
      | Some it \<Rightarrow>
          bind_r (list_changed (gs_items s) it) (\<lambda>it'.
          destroy_iterators is
            (s\<lparr>gs_object := (gs_object s)(i \<mapsto> it'\<lparr>gi_attached := False\<rparr>)\<rparr>)))"

section \<open>Observations\<close>

text \<open>The items an iterator has still to deliver.\<close>

definition pos_rest :: "'a list \<Rightarrow> pos_iterator \<Rightarrow> 'a list" where
  "pos_rest xs it = drop (nat (it_position it + 1)) xs"

definition guard_rest :: "'a list \<Rightarrow> 'a guard_iterator \<Rightarrow> 'a list" where
  "guard_rest xs it =
     (case gi_cache it of Some (ys, ci) \<Rightarrow> pos_rest ys ci | None \<Rightarrow> pos_rest xs (gi_iterator it))"

definition pos_inside :: "'a list \<Rightarrow> pos_iterator \<Rightarrow> bool" where
  "pos_inside xs it \<longleftrightarrow> 0 \<le> it_position it \<and> it_position it < it_end it \<and> it_end it = int (length xs)"

text \<open>An iterator between its first and its last item.\<close>

definition guard_started :: "'a list \<Rightarrow> 'a guard_iterator \<Rightarrow> bool" where
  "guard_started xs it \<longleftrightarrow> gi_status it \<and> gi_attached it \<and>
     (case gi_cache it of Some (ys, ci) \<Rightarrow> pos_inside ys ci | None \<Rightarrow> pos_inside xs (gi_iterator it))"

lemma guard_collect_rest:
  "pos_inside xs it \<Longrightarrow>
   \<exists>it'. guard_collect xs it c = Inr (c @ drop (nat (it_position it)) xs, it')"
proof (induction xs it c rule: guard_collect.induct)
  case (1 xs it c)
  let ?k = "nat (it_position it)"
  have k: "?k < length xs" using "1.prems" by (auto simp: pos_inside_def)
  have cur: "pos_get_current xs it = Inr (xs ! ?k)"
    using "1.prems" k by (simp add: pos_get_current_def pos_inside_def peek_in)
  have dr: "drop ?k xs = xs ! ?k # drop (Suc ?k) xs" using k by (simp add: Cons_nth_drop_Suc)
  obtain more it' where mv: "pos_move_next it = (more, it')" by (cases "pos_move_next it")
  have it': "it_position it' = it_position it + 1" "it_end it' = it_end it"
    "more \<longleftrightarrow> it_position it + 1 < it_end it"
    using mv by (auto simp: pos_move_next_def Let_def)
  have n: "nat (it_position it + 1) = Suc ?k" using "1.prems" by (simp add: pos_inside_def nat_add_distrib)
  show ?case
  proof (cases more)
    case True
    then have "pos_inside xs it'" using "1.prems" it' by (simp add: pos_inside_def)
    from "1.IH" [OF cur mv [symmetric] refl True this] show ?thesis
      by (subst guard_collect.simps) (simp add: cur mv True it' n dr)
  next
    case False
    then have "length xs \<le> Suc ?k" using "1.prems" it'(3) by (simp add: pos_inside_def)
    then show ?thesis
      by (subst guard_collect.simps) (simp add: cur mv False dr)
  qed
qed

lemma pos_inside_cache:
  "ys \<noteq> [] \<Longrightarrow> pos_inside ys (snd (pos_move_next (pos_iterator_new ys)))"
  by (simp add: pos_inside_def pos_move_next_def pos_iterator_new_def)

text \<open>The snapshot: a started iterator shows the same item, and has the same items left.\<close>

lemma list_changed_started:
  assumes "guard_started xs it"
  shows "\<exists>it'. list_changed xs it = Inr it' \<and> gi_cache it' \<noteq> None \<and> guard_started ys it' \<and>
           guard_get_current ys it' = guard_get_current xs it \<and>
           guard_rest ys it' = guard_rest xs it"
proof (cases "gi_cache it")
  case (Some p)
  then show ?thesis using assms
    by (cases p) (auto simp: list_changed_def guard_started_def guard_get_current_def guard_rest_def)
next
  case None
  then have st: "gi_status it" "gi_attached it" and ins: "pos_inside xs (gi_iterator it)"
    using assms by (auto simp: guard_started_def)
  let ?k = "nat (it_position (gi_iterator it))"
  let ?ys = "drop ?k xs"
  obtain it1 where c: "guard_collect xs (gi_iterator it) [] = Inr (?ys, it1)"
    using guard_collect_rest [OF ins, of "[]"] by auto
  have k: "?k < length xs" using ins by (auto simp: pos_inside_def)
  have n: "nat (it_position (gi_iterator it) + 1) = Suc ?k" using ins by (simp add: pos_inside_def nat_add_distrib)
  have "pos_inside ?ys (snd (pos_move_next (pos_iterator_new ?ys)))"
    by (rule pos_inside_cache) (use k in simp)
  then show ?thesis using None st ins c k n
    by (simp add: list_changed_def guard_started_def guard_get_current_def guard_rest_def
        pos_rest_def pos_get_current_def pos_move_next_def pos_iterator_new_def peek_in pos_inside_def)
qed

section \<open>Changes of the guarded list\<close>

text \<open>Iterator \<open>i\<close> is at an item: what it shows, and what it has left.\<close>

definition guard_view :: "nat \<Rightarrow> 'a guard \<Rightarrow> ('a result \<times> 'a list) option" where
  "guard_view i s =
     (case gs_object s i of
        None \<Rightarrow> None
      | Some it \<Rightarrow> Some (guard_get_current (gs_items s) it, guard_rest (gs_items s) it))"

definition guard_iterating :: "nat \<Rightarrow> 'a guard \<Rightarrow> bool" where
  "guard_iterating i s \<longleftrightarrow> distinct (gs_iterators s) \<and> i \<in> set (gs_iterators s) \<and>
     (\<exists>it. gs_object s i = Some it \<and> guard_started (gs_items s) it)"

lemma notify_frame:
  "notify is s = Inr s' \<Longrightarrow> gs_list s' = gs_list s \<and> gs_iterators s' = gs_iterators s \<and>
     (\<forall>j. j \<notin> set is \<longrightarrow> gs_object s' j = gs_object s j)"
proof (induction "is" arbitrary: s)
  case (Cons i "is")
  then obtain it it' where "gs_object s i = Some it"
    "notify is (s\<lparr>gs_object := (gs_object s)(i \<mapsto> it')\<rparr>) = Inr s'"
    by (auto simp: bind_r_Inr_iff split: option.splits)
  from Cons.IH [OF this(2)] show ?case by simp
qed simp

text \<open>After notification, started iterators no longer depend on the list.\<close>

lemma notify_started:
  assumes "notify is s = Inr s'" and "distinct is" and "i \<in> set is"
    and "gs_object s i = Some it" and "guard_started (gs_items s) it"
  shows "\<exists>it'. gs_object s' i = Some it' \<and> gi_cache it' \<noteq> None \<and> guard_started ys it' \<and>
           guard_get_current ys it' = guard_get_current (gs_items s) it \<and>
           guard_rest ys it' = guard_rest (gs_items s) it"
  using assms
proof (induction "is" arbitrary: s)
  case (Cons k "is")
  show ?case
  proof (cases "k = i")
    case True
    obtain it' where it': "list_changed (gs_items s) it = Inr it'" "gi_cache it' \<noteq> None"
      "guard_started ys it'" "guard_get_current ys it' = guard_get_current (gs_items s) it"
      "guard_rest ys it' = guard_rest (gs_items s) it"
      using list_changed_started [OF Cons.prems(5), of ys] by blast
    let ?s1 = "s\<lparr>gs_object := (gs_object s)(i \<mapsto> it')\<rparr>"
    have "notify is ?s1 = Inr s'" using Cons.prems(1,4) True it'(1) by simp
    from notify_frame [OF this] have "gs_object s' i = Some it'"
      using Cons.prems(2) True by simp
    then show ?thesis using it' by blast
  next
    case False
    then obtain kt kt' where "gs_object s k = Some kt"
      "notify is (s\<lparr>gs_object := (gs_object s)(k \<mapsto> kt')\<rparr>) = Inr s'"
      using Cons.prems(1) by (auto simp: bind_r_Inr_iff split: option.splits)
    from Cons.IH [OF this(2)] Cons.prems False show ?thesis by simp
  qed
qed simp

lemma with_guard_view:
  assumes g: "guard_iterating i s" and w: "with_guard s change = Inr (r, s')"
  shows "guard_iterating i s' \<and> guard_view i s' = guard_view i s"
proof -
  obtain s1 l where s1: "notify (gs_iterators s) s = Inr s1" and s': "s' = s1\<lparr>gs_list := l\<rparr>"
    using w by (auto simp: with_guard_def guard_iterators_def bind_r_Inr_iff)
  obtain it where it: "gs_object s i = Some it" "guard_started (gs_items s) it"
    using g by (auto simp: guard_iterating_def)
  obtain it' where "gs_object s1 i = Some it'" "guard_started (arr_vector l) it'"
    "guard_get_current (arr_vector l) it' = guard_get_current (gs_items s) it"
    "guard_rest (arr_vector l) it' = guard_rest (gs_items s) it"
    using notify_started [OF s1 _ _ it, of "arr_vector l"] g by (auto simp: guard_iterating_def)
  then show ?thesis using notify_frame [OF s1] g it
    by (auto simp: guard_iterating_def guard_view_def s')
qed

datatype 'a guard_op =
    AddItem 'a | AddItems "'a list" | RemoveItem 'a | RemoveItems 'a | Clear
  | SetItem int 'a | InsertItem int 'a | RemoveItemAt int | Assign "'a array"

fun guard_change :: "'a guard_op \<Rightarrow> 'a guard \<Rightarrow> 'a guard result" where
  "guard_change (AddItem v) s = map_sum id snd (guard_add_item s v)"
| "guard_change (AddItems vs) s = map_sum id snd (guard_add_items s vs)"
| "guard_change (RemoveItem v) s = map_sum id snd (guard_remove_item s v)"
| "guard_change (RemoveItems v) s = map_sum id snd (guard_remove_items s v)"
| "guard_change Clear s = map_sum id snd (guard_clear s)"
| "guard_change (SetItem i v) s = map_sum id snd (guard_set_item s i v)"
| "guard_change (InsertItem i v) s = map_sum id snd (guard_insert_item s i v)"
| "guard_change (RemoveItemAt i) s = map_sum id snd (guard_remove_item_at s i)"
| "guard_change (Assign a) s = map_sum id snd (guard_assign s a)"

fun guard_changes :: "'a guard_op list \<Rightarrow> 'a guard \<Rightarrow> 'a guard result" where
  "guard_changes [] s = Inr s"
| "guard_changes (c # cs) s = bind_r (guard_change c s) (guard_changes cs)"

lemmas guard_operation_defs =
  guard_add_item_def guard_add_items_def guard_remove_item_def guard_remove_items_def
  guard_clear_def guard_set_item_def guard_insert_item_def guard_remove_item_at_def guard_assign_def

lemma map_sum_snd_Inr: "map_sum id snd x = Inr y \<longleftrightarrow> (\<exists>r. x = Inr (r, y))"
  by (cases x) auto

lemma guard_change_view:
  "guard_iterating i s \<Longrightarrow> guard_change c s = Inr s' \<Longrightarrow>
   guard_iterating i s' \<and> guard_view i s' = guard_view i s"
  by (cases c) (auto simp: guard_operation_defs map_sum_snd_Inr dest: with_guard_view)

lemma guard_changes_view:
  "guard_iterating i s \<Longrightarrow> guard_changes cs s = Inr s' \<Longrightarrow>
   guard_iterating i s' \<and> guard_view i s' = guard_view i s"
  by (induction cs arbitrary: s) (fastforce simp: bind_r_Inr_iff dest: guard_change_view)+

text \<open>Moving: the next item is the head of what was left.\<close>

lemma pos_move_next_rest:
  assumes "pos_inside xs it"
  shows "fst (pos_move_next it) = (pos_rest xs it \<noteq> [])"
    and "pos_rest xs it = y # ys \<Longrightarrow> pos_inside xs (snd (pos_move_next it)) \<and>
           pos_get_current xs (snd (pos_move_next it)) = Inr y \<and>
           pos_rest xs (snd (pos_move_next it)) = ys"
proof -
  obtain k where k: "it_position it + 1 = int k"
    using assms nonneg_int_cases [of "it_position it + 1"] by (auto simp: pos_inside_def)
  have p: "it_position (snd (pos_move_next it)) = int k" "it_end (snd (pos_move_next it)) = int (length xs)"
    "fst (pos_move_next it) \<longleftrightarrow> k < length xs"
    using assms k by (auto simp: pos_inside_def pos_move_next_def Let_def)
  have rest: "pos_rest xs it = drop k xs" "pos_rest xs (snd (pos_move_next it)) = drop (Suc k) xs"
    by (simp_all add: pos_rest_def k p nat_add_distrib)
  show "fst (pos_move_next it) = (pos_rest xs it \<noteq> [])" using p rest by auto
  assume r: "pos_rest xs it = y # ys"
  then have lt: "k < length xs" using rest by (auto dest: arg_cong [where f = length])
  then have "xs ! k = y" "drop (Suc k) xs = ys"
    using r rest Cons_nth_drop_Suc [OF lt] by simp_all
  then show "pos_inside xs (snd (pos_move_next it)) \<and>
           pos_get_current xs (snd (pos_move_next it)) = Inr y \<and>
           pos_rest xs (snd (pos_move_next it)) = ys"
    using lt p rest by (simp add: pos_inside_def pos_get_current_def peek_in)
qed

lemma pos_move_next_Cons:
  assumes "pos_inside xs it" and "pos_rest xs it = y # ys"
  obtains it' where "pos_move_next it = (True, it')" "pos_inside xs it'"
    "pos_get_current xs it' = Inr y" "pos_rest xs it' = ys"
  using pos_move_next_rest(1) [OF assms(1)] pos_move_next_rest(2) [OF assms] assms(2)
  by (cases "pos_move_next it") auto

lemma guard_move_next_Nil:
  assumes "guard_started xs it" and "guard_rest xs it = []"
  shows "fst (guard_move_next it) = False"
proof (cases "gi_cache it")
  case None
  then show ?thesis using assms pos_move_next_rest(1) [of xs "gi_iterator it"]
    by (auto simp: guard_started_def guard_rest_def guard_move_next_def split_beta Let_def)
next
  case (Some p)
  then show ?thesis using assms pos_move_next_rest(1) [of "fst p" "snd p"]
    by (cases p) (auto simp: guard_started_def guard_rest_def guard_move_next_def split_beta Let_def)
qed

lemma guard_move_next_Cons:
  assumes "guard_started xs it" and "guard_rest xs it = y # ys"
  shows "\<exists>it'. guard_move_next it = (True, it') \<and>
           guard_started xs it' \<and> guard_get_current xs it' = Inr y \<and> guard_rest xs it' = ys"
proof (cases "gi_cache it")
  case None
  then have r: "pos_inside xs (gi_iterator it)" "pos_rest xs (gi_iterator it) = y # ys"
    using assms by (simp_all add: guard_started_def guard_rest_def)
  then obtain it' where "pos_move_next (gi_iterator it) = (True, it')" "pos_inside xs it'"
    "pos_get_current xs it' = Inr y" "pos_rest xs it' = ys" by (rule pos_move_next_Cons)
  then show ?thesis using None assms(1)
    by (simp add: guard_started_def guard_rest_def guard_move_next_def guard_get_current_def)
next
  case (Some p)
  obtain zs ci where p: "p = (zs, ci)" by (cases p)
  then have r: "pos_inside zs ci" "pos_rest zs ci = y # ys"
    using assms Some by (simp_all add: guard_started_def guard_rest_def)
  then obtain it' where "pos_move_next ci = (True, it')" "pos_inside zs it'"
    "pos_get_current zs it' = Inr y" "pos_rest zs it' = ys" by (rule pos_move_next_Cons)
  then show ?thesis using Some p assms(1)
    by (simp add: guard_started_def guard_rest_def guard_move_next_def guard_get_current_def)
qed

lemma guard_next_view:
  assumes g: "guard_iterating i s" and v: "guard_view i s = Some (c, y # ys)"
  shows "\<exists>s'. guard_next i s = Inr (True, s') \<and> guard_iterating i s' \<and>
           guard_view i s' = Some (Inr y, ys) \<and> gs_list s' = gs_list s"
proof -
  obtain it where it: "gs_object s i = Some it" "guard_started (gs_items s) it"
    using g by (auto simp: guard_iterating_def)
  then have "guard_rest (gs_items s) it = y # ys" using v by (simp add: guard_view_def)
  from guard_move_next_Cons [OF it(2) this] show ?thesis
    using it g by (auto simp: guard_next_def guard_iterating_def guard_view_def)
qed

lemma guard_next_end:
  assumes g: "guard_iterating i s" and v: "guard_view i s = Some (c, [])"
  shows "\<exists>s'. guard_next i s = Inr (False, s')"
proof -
  obtain it where it: "gs_object s i = Some it" "guard_started (gs_items s) it"
    using g by (auto simp: guard_iterating_def)
  then have "guard_rest (gs_items s) it = []" using v by (simp add: guard_view_def)
  from guard_move_next_Nil [OF it(2) this] show ?thesis
    using it by (auto simp: guard_next_def split_beta Let_def)
qed


text \<open>
  A loop over a guarded list: after each item the body makes some changes to the list.
\<close>

fun guard_walk :: "nat \<Rightarrow> 'a guard_op list list \<Rightarrow> 'a guard \<Rightarrow> ('a list \<times> 'a guard) result" where
  "guard_walk i [] s = Inr ([], s)"
| "guard_walk i (cs # css) s =
     bind_r (guard_next i s) (\<lambda>(more, s1).
     if more then
       bind_r (guard_current i s1) (\<lambda>x.
       bind_r (guard_changes cs s1) (\<lambda>s2.
       bind_r (guard_walk i css s2) (\<lambda>(xs, s3). Inr (x # xs, s3))))
     else Inr ([], s1))"

lemma guard_walk_view:
  "guard_iterating i s \<Longrightarrow> guard_view i s = Some (c, rest) \<Longrightarrow> guard_walk i css s = Inr (xs, s') \<Longrightarrow>
   xs = take (length css) rest"
proof (induction css arbitrary: s c rest xs)
  case (Cons cs css)
  show ?case
  proof (cases rest)
    case Nil
    then show ?thesis using guard_next_end [OF Cons.prems(1)] Cons.prems(2,3) by auto
  next
    case (Cons y ys)
    obtain s1 where s1: "guard_next i s = Inr (True, s1)" "guard_iterating i s1"
      "guard_view i s1 = Some (Inr y, ys)"
      using guard_next_view [OF Cons.prems(1) Cons.prems(2) [unfolded Cons]] by blast
    have "guard_current i s1 = Inr y"
      using s1(3) by (auto simp: guard_view_def guard_current_def split: option.splits)
    then obtain s2 ws where s2: "guard_changes cs s1 = Inr s2" "guard_walk i css s2 = Inr (ws, s')"
      "xs = y # ws" using Cons.prems(3) s1(1) by (auto simp: bind_r_Inr_iff)
    have "guard_iterating i s2" "guard_view i s2 = Some (Inr y, ys)"
      using guard_changes_view [OF s1(2) s2(1)] s1(3) by simp_all
    from Cons.IH [OF this s2(2)] show ?thesis using s2(3) Cons by simp
  qed
qed simp

text \<open>An assigned iterator delivers what the other has left and is registered when the other is.\<close>

lemma guard_assign_iterator_view:
  assumes "guard_assign_iterator i j s = Some (Inr s')" "distinct (gs_iterators s)"
    and "\<And>old. gs_object s i = Some old \<Longrightarrow> gi_attached old \<longleftrightarrow> i \<in> set (gs_iterators s)"
  shows "gs_object s' i = gs_object s j \<and> gs_list s' = gs_list s \<and> distinct (gs_iterators s') \<and>
    (i \<in> set (gs_iterators s') \<longleftrightarrow> (\<exists>it. gs_object s j = Some it \<and> gi_attached it))"
  using assms
  by (auto simp: guard_assign_iterator_def Let_def iterator_register_def iterator_unregister_def
      split: option.splits if_splits)

section \<open>Concrete loops\<close>

definition guarded_list :: "nat guard" where
  "guarded_list = guard_get_iterator 0
     (guard_new \<lparr>arr_comparison = compare_ordered (>) (<), arr_vector = [1, 2, 3]\<rparr>)"

text \<open>
  An iterator that has not moved yet moves when the list changes, and then keeps nothing:
  after \<^verbatim>\<open>GetIterator\<close> and \<^verbatim>\<open>AddItem\<close> the loop body never runs.  On an empty list it reads
  \<^verbatim>\<open>GetCurrent\<close> at the end of the list.
\<close>

lemma guard_fresh_iterator_lost:
  "bind_r (guard_add_item guarded_list 4) (\<lambda>(_, s). map_sum id fst (guard_next 0 s)) = Inr False"
  by code_simp

lemma guard_fresh_iterator_empty_list:
  "guard_add_item (guard_get_iterator 0 (guard_new (array_new (compare_ordered (>) (<))))) (4::nat)
   = Inl Undefined"
  by (simp add: guard_add_item_def with_guard_def guard_iterators_def guard_get_iterator_def
      guard_new_def array_new_def iterator_register_def list_changed_def guard_iterator_new_def
      pos_iterator_new_def pos_move_next_def guard_collect.simps pos_get_current_def peek_def)

definition guarded_started :: "nat guard" where
  "guarded_started =
     guarded_list\<lparr>gs_object := [0 \<mapsto> \<lparr>gi_attached = True,
       gi_iterator = \<lparr>it_position = 0, it_end = 3\<rparr>, gi_cache = None, gi_status = True\<rparr>]\<rparr>"

lemma guarded_started_next: "guard_next 0 guarded_list = Inr (True, guarded_started)"
  by (simp add: guard_next_def guarded_list_def guarded_started_def guard_get_iterator_def
      guard_new_def iterator_register_def guard_iterator_new_def pos_iterator_new_def
      guard_move_next_def pos_move_next_def)

section \<open>Property\<close>

text \<open>C5: Once an iterator of a guarded list is at an item, the loop delivers exactly the
  items that were left then, in order, whatever changes the body makes to the list between
  two items (adding, inserting, replacing, removing, clearing, assigning a new list).\<close>

theorem guard_iteration_is_snapshot:
  assumes "guard_iterating i s" and "guard_view i s = Some (c, rest)"
    and "guard_walk i css s = Inr (xs, s')"
  shows "xs = take (length css) rest"
  using assms by (rule guard_walk_view)

theorem guard_iteration_is_snapshot_witness:
  "\<exists>s'. guard_walk 0 [[Clear], [AddItem 9]] guarded_started = Inr ([2, 3], s') \<and>
        [2, 3] = take (length [[Clear], [AddItem (9::nat)]]) [2, 3::nat]"
proof -
  have g: "guard_iterating 0 guarded_started"
    by (simp add: guard_iterating_def guarded_started_def guarded_list_def guard_get_iterator_def
        guard_new_def iterator_register_def guard_started_def pos_inside_def)
  have v: "guard_view 0 guarded_started = Some (Inr 1, [2, 3])"
    by (simp add: guard_view_def guarded_started_def guarded_list_def guard_get_iterator_def
        guard_new_def iterator_register_def guard_get_current_def guard_rest_def pos_get_current_def
        pos_rest_def peek_def)
  have "\<exists>s'. guard_walk 0 [[Clear], [AddItem 9]] guarded_started = Inr ([2, 3], s')"
    by (simp add: guarded_started_def guarded_list_def guard_get_iterator_def guard_new_def
        iterator_register_def guard_next_def guard_move_next_def pos_move_next_def guard_current_def
        guard_get_current_def pos_get_current_def peek_def guard_operation_defs with_guard_def
        guard_iterators_def list_changed_def guard_collect.simps pos_iterator_new_def
        array_clear_def array_add_item_def)
  then obtain s' where w: "guard_walk 0 [[Clear], [AddItem 9]] guarded_started = Inr ([2, 3], s')" ..
  show ?thesis using w guard_iteration_is_snapshot [OF g v w] by blast
qed

end
