(* ===== verification/Ref_Count.thy ===== *)
theory Ref_Count
  imports Prelude
begin

text \<open>
  Reference counting: \<^verbatim>\<open>Object\<close> and \<^verbatim>\<open>ReferenceCounter\<close> (\<^verbatim>\<open>include/bricks/core/object.h\<close>,
  \<^verbatim>\<open>source/core/object.cpp\<close>), \<^verbatim>\<open>Pointer\<close>, \<^verbatim>\<open>AutoPointer\<close>, \<^verbatim>\<open>ReturnPointer\<close> and
  \<^verbatim>\<open>CopyPointer\<close> (\<^verbatim>\<open>pointer.h\<close>, \<^verbatim>\<open>autopointer.h\<close>, \<^verbatim>\<open>returnpointer.h\<close>, \<^verbatim>\<open>copypointer.h\<close>).

  The heap lists the objects by address, \<open>None\<close> for an object already deleted, each with its
  32-bit count and the \<^verbatim>\<open>AutoPointer\<close> members it owns others by; and the pointer variables of
  the program.  Deleting an object destroys its members, which releases what they point to:
  \<open>release_all\<close> is this cascade, as a work list.  An object counts as gone from the moment its
  destruction starts.
\<close>

section \<open>The heap\<close>

record object =
  ob_count :: u32
  ob_fields :: "nat option list"

text \<open>A pointer variable; \<open>pv_owner\<close> is true for an \<^verbatim>\<open>AutoPointer\<close> and is \<^verbatim>\<open>retained\<close> for a
  \<^verbatim>\<open>ReturnPointer\<close>.\<close>

record pointer_var =
  pv_value :: "nat option"
  pv_owner :: bool

record heap =
  hp_objects :: "object option list"
  hp_vars :: "pointer_var option list"

definition heap_empty :: heap where
  "heap_empty = \<lparr>hp_objects = [], hp_vars = []\<rparr>"

definition live_object :: "heap \<Rightarrow> nat \<Rightarrow> object option" where
  "live_object h a = (if a < length (hp_objects h) then hp_objects h ! a else None)"

text \<open>Where a \<^verbatim>\<open>const Pointer&\<close> argument lives: a variable, a member, or a temporary.\<close>

datatype loc = Var nat | Field nat nat | Raw "nat option"

fun read_loc :: "heap \<Rightarrow> loc \<Rightarrow> nat option result" where
  "read_loc h (Var i) =
     bind_r (peek (hp_vars h) i) (\<lambda>v. case v of None \<Rightarrow> Inl Undefined | Some pv \<Rightarrow> Inr (pv_value pv))"
| "read_loc h (Field a k) =
     (case live_object h a of None \<Rightarrow> Inl Undefined | Some ob \<Rightarrow> peek (ob_fields ob) k)"
| "read_loc h (Raw p) = Inr p"

fun write_loc :: "heap \<Rightarrow> loc \<Rightarrow> nat option \<Rightarrow> heap result" where
  "write_loc h (Var i) p =
     bind_r (peek (hp_vars h) i) (\<lambda>v. case v of None \<Rightarrow> Inl Undefined
     | Some pv \<Rightarrow> Inr (h\<lparr>hp_vars := (hp_vars h)[i := Some (pv\<lparr>pv_value := p\<rparr>)]\<rparr>))"
| "write_loc h (Field a k) p =
     (case live_object h a of None \<Rightarrow> Inl Undefined
      | Some ob \<Rightarrow> bind_r (poke (ob_fields ob) k p) (\<lambda>fs.
          Inr (h\<lparr>hp_objects := (hp_objects h)[a := Some (ob\<lparr>ob_fields := fs\<rparr>)]\<rparr>)))"
| "write_loc h (Raw _) p = Inl Undefined"

section \<open>Retain and Release\<close>

definition retain :: "nat option \<Rightarrow> heap \<Rightarrow> heap result" where
  "retain p h =
     (case p of None \<Rightarrow> Inr h
      | Some a \<Rightarrow> (case live_object h a of None \<Rightarrow> Inl Undefined
          | Some ob \<Rightarrow> Inr (h\<lparr>hp_objects := (hp_objects h)[a := Some (ob\<lparr>ob_count := ob_count ob + 1\<rparr>)]\<rparr>)))"

function release_all :: "nat option list \<Rightarrow> heap \<Rightarrow> heap result" where
  "release_all [] h = Inr h"
| "release_all (None # ps) h = release_all ps h"
| "release_all (Some a # ps) h =
     (case live_object h a of
        None \<Rightarrow> Inl Undefined
      | Some ob \<Rightarrow>
          if ob_count ob - 1 \<noteq> 0
          then release_all ps
                 (h\<lparr>hp_objects := (hp_objects h)[a := Some (ob\<lparr>ob_count := ob_count ob - 1\<rparr>)]\<rparr>)
          else release_all (rev (ob_fields ob) @ ps) (h\<lparr>hp_objects := (hp_objects h)[a := None]\<rparr>))"
  by pat_completeness auto

definition live_count :: "heap \<Rightarrow> nat" where
  "live_count h = sum_list (map (\<lambda>x. if x = None then 0 else 1) (hp_objects h))"

lemma sum_list_map_update:
  "i < length xs \<Longrightarrow> sum_list (map f (xs[i := y])) + f (xs ! i) = sum_list (map f xs) + (f y :: nat)"
  by (induction xs arbitrary: i) (auto split: nat.splits)

lemma live_count_update:
  assumes "live_object h a = Some ob"
  shows "live_count (h\<lparr>hp_objects := (hp_objects h)[a := Some ob']\<rparr>) = live_count h"
    and "live_count (h\<lparr>hp_objects := (hp_objects h)[a := None]\<rparr>) < live_count h"
proof -
  have a: "a < length (hp_objects h)" "hp_objects h ! a = Some ob"
    using assms by (auto simp: live_object_def split: if_splits)
  note u = sum_list_map_update [OF a(1), of "\<lambda>x. if x = None then 0 else 1"]
  show "live_count (h\<lparr>hp_objects := (hp_objects h)[a := Some ob']\<rparr>) = live_count h"
    using u [of "Some ob'"] a(2) by (simp add: live_count_def)
  show "live_count (h\<lparr>hp_objects := (hp_objects h)[a := None]\<rparr>) < live_count h"
    using u [of None] a(2) by (simp add: live_count_def)
qed

termination release_all
  by (relation "inv_image (less_than <*lex*> less_than) (\<lambda>(ps, h). (live_count h, length ps))")
     (auto simp: live_count_update)

definition release :: "nat option \<Rightarrow> heap \<Rightarrow> heap result" where
  "release p h = release_all [p] h"

section \<open>Creating objects and pointers\<close>

definition alloc_object :: "nat option list \<Rightarrow> heap \<Rightarrow> nat \<times> heap" where
  "alloc_object fs h =
     (length (hp_objects h),
      h\<lparr>hp_objects := hp_objects h @ [Some \<lparr>ob_count = 1, ob_fields = fs\<rparr>]\<rparr>)"

definition new_var :: "nat option \<Rightarrow> bool \<Rightarrow> heap \<Rightarrow> nat \<times> heap" where
  "new_var p own h =
     (length (hp_vars h), h\<lparr>hp_vars := hp_vars h @ [Some \<lparr>pv_value = p, pv_owner = own\<rparr>]\<rparr>)"

text \<open>\<^verbatim>\<open>autonew T(...)\<close>, \<open>n\<close> being the number of members: no retain, the new count is 1.\<close>

definition autonew :: "nat \<Rightarrow> heap \<Rightarrow> nat \<times> heap" where
  "autonew n h = (let (a, h1) = alloc_object (replicate n None) h in new_var (Some a) True h1)"

text \<open>\<^verbatim>\<open>AutoPointer(t, retain)\<close>, from a pointer of any kind.\<close>

definition auto_pointer :: "loc \<Rightarrow> bool \<Rightarrow> heap \<Rightarrow> (nat \<times> heap) result" where
  "auto_pointer l ret h =
     bind_r (read_loc h l) (\<lambda>p.
     bind_r (if ret then retain p h else Inr h) (\<lambda>h1. Inr (new_var p True h1)))"

text \<open>\<^verbatim>\<open>ReturnPointer(t, retain)\<close>, and the copy of one, which retains if the original has.\<close>

definition return_pointer :: "loc \<Rightarrow> bool \<Rightarrow> heap \<Rightarrow> (nat \<times> heap) result" where
  "return_pointer l ret h =
     bind_r (read_loc h l) (\<lambda>p.
     bind_r (if ret then retain p h else Inr h) (\<lambda>h1. Inr (new_var p ret h1)))"

definition return_pointer_copy :: "nat \<Rightarrow> heap \<Rightarrow> (nat \<times> heap) result" where
  "return_pointer_copy i h =
     bind_r (peek (hp_vars h) i) (\<lambda>v. case v of None \<Rightarrow> Inl Undefined
     | Some pv \<Rightarrow> return_pointer (Var i) (pv_owner pv) h)"

fun retain_all :: "nat option list \<Rightarrow> heap \<Rightarrow> heap result" where
  "retain_all [] h = Inr h"
| "retain_all (p # ps) h = bind_r (retain p h) (retain_all ps)"

text \<open>\<^verbatim>\<open>CopyPointer(t)\<close>: a pointer to a fresh copy of the object, whose members are retained by
  their copy constructors.\<close>

definition copy_pointer :: "loc \<Rightarrow> heap \<Rightarrow> (nat \<times> heap) result" where
  "copy_pointer l h =
     bind_r (read_loc h l) (\<lambda>p.
     case p of
       None \<Rightarrow> Inr (new_var None True h)
     | Some a \<Rightarrow> (case live_object h a of None \<Rightarrow> Inl Undefined
         | Some ob \<Rightarrow> bind_r (retain_all (ob_fields ob) h) (\<lambda>h1.
             (let (b, h2) = alloc_object (ob_fields ob) h1 in Inr (new_var (Some b) True h2)))))"

section \<open>Changing and destroying pointers\<close>

text \<open>
  \<^verbatim>\<open>AutoPointer::Swap(t, true)\<close> on a variable or a member: the new value is retained first,
  the old one released, and the value then read again through the reference \<^verbatim>\<open>t\<close>.
\<close>

definition auto_swap :: "loc \<Rightarrow> loc \<Rightarrow> heap \<Rightarrow> heap result" where
  "auto_swap dst src h =
     bind_r (read_loc h src) (\<lambda>p.
     bind_r (retain p h) (\<lambda>h1.
     bind_r (read_loc h1 dst) (\<lambda>old.
     bind_r (release old h1) (\<lambda>h2.
     bind_r (read_loc h2 src) (\<lambda>p'. write_loc h2 dst p')))))"

definition auto_release :: "loc \<Rightarrow> heap \<Rightarrow> heap result" where
  "auto_release l h =
     bind_r (read_loc h l) (\<lambda>p. bind_r (release p h) (\<lambda>h1. write_loc h1 l None))"

definition drop_var :: "nat \<Rightarrow> heap \<Rightarrow> heap" where
  "drop_var i h = h\<lparr>hp_vars := (hp_vars h)[i := None]\<rparr>"

text \<open>The destructors: a \<^verbatim>\<open>ReturnPointer\<close> that has not retained forgets its value first.\<close>

definition destroy_pointer :: "nat \<Rightarrow> heap \<Rightarrow> heap result" where
  "destroy_pointer i h =
     bind_r (peek (hp_vars h) i) (\<lambda>v. case v of None \<Rightarrow> Inl Undefined
     | Some pv \<Rightarrow>
         bind_r (if pv_owner pv then Inr h else write_loc h (Var i) None) (\<lambda>h1.
         bind_r (auto_release (Var i) h1) (\<lambda>h2. Inr (drop_var i h2))))"

text \<open>\<^verbatim>\<open>ReturnPointer::Swap(t, retain)\<close>.\<close>

definition return_swap :: "nat \<Rightarrow> loc \<Rightarrow> bool \<Rightarrow> heap \<Rightarrow> heap result" where
  "return_swap i src ret h =
     bind_r (peek (hp_vars h) i) (\<lambda>v. case v of None \<Rightarrow> Inl Undefined
     | Some pv \<Rightarrow>
         bind_r (if pv_owner pv then Inr h else write_loc h (Var i) None) (\<lambda>h0.
         bind_r (read_loc h0 src) (\<lambda>p.
         bind_r (if ret then retain p h0 else Inr h0) (\<lambda>h1.
         bind_r (read_loc h1 (Var i)) (\<lambda>old.
         bind_r (release old h1) (\<lambda>h2.
         bind_r (read_loc h2 src) (\<lambda>p'.
         bind_r (write_loc h2 (Var i) p') (\<lambda>h3.
         Inr (h3\<lparr>hp_vars := (hp_vars h3)[i := Some \<lparr>pv_value = p', pv_owner = ret\<rparr>]\<rparr>)))))))))"

section \<open>Ownership\<close>

text \<open>The owners of an object: owning variables, and members of live objects.\<close>

definition var_owns :: "nat \<Rightarrow> pointer_var option \<Rightarrow> nat" where
  "var_owns a v = (case v of None \<Rightarrow> 0 | Some pv \<Rightarrow> if pv_owner pv \<and> pv_value pv = Some a then 1 else 0)"

definition fields_own :: "nat \<Rightarrow> object option \<Rightarrow> nat" where
  "fields_own a x = (case x of None \<Rightarrow> 0 | Some ob \<Rightarrow> count_list (ob_fields ob) (Some a))"

definition owners :: "heap \<Rightarrow> nat \<Rightarrow> nat" where
  "owners h a = sum_list (map (var_owns a) (hp_vars h)) + sum_list (map (fields_own a) (hp_objects h))"

definition refcount :: "heap \<Rightarrow> nat \<Rightarrow> nat" where
  "refcount h a = (case live_object h a of None \<Rightarrow> 0 | Some ob \<Rightarrow> unat (ob_count ob))"

text \<open>
  The invariant, with references in hand: the count of every object is the number of its
  owners and of the references in \<open>w\<close> that an operation has still to give back or to store.
\<close>

definition balanced :: "heap \<Rightarrow> nat option list \<Rightarrow> bool" where
  "balanced h w \<longleftrightarrow> (\<forall>a. owners h a + count_list w (Some a) = refcount h a) \<and>
     (\<forall>a ob. live_object h a = Some ob \<longrightarrow> ob_count ob \<noteq> 0)"

definition heap_room :: "nat \<Rightarrow> heap \<Rightarrow> bool" where
  "heap_room n h \<longleftrightarrow> (\<forall>a. refcount h a + n < 2 ^ 32)"

lemma live_object_upd:
  "live_object h a = Some ob \<Longrightarrow>
   live_object (h\<lparr>hp_objects := (hp_objects h)[a := x]\<rparr>) b = (if b = a then x else live_object h b)"
  by (auto simp: live_object_def split: if_splits)

lemma owners_object_upd:
  assumes "live_object h a = Some ob"
  shows "owners (h\<lparr>hp_objects := (hp_objects h)[a := x]\<rparr>) b + count_list (ob_fields ob) (Some b)
         = owners h b + fields_own b x"
proof -
  have a: "a < length (hp_objects h)" "hp_objects h ! a = Some ob"
    using assms by (auto simp: live_object_def split: if_splits)
  show ?thesis using sum_list_map_update [OF a(1), of "fields_own b" x] a(2)
    by (simp add: owners_def fields_own_def)
qed

lemma owners_count_upd:
  "live_object h a = Some ob \<Longrightarrow>
   owners (h\<lparr>hp_objects := (hp_objects h)[a := Some (ob\<lparr>ob_count := n\<rparr>)]\<rparr>) b = owners h b"
  using owners_object_upd [of h a ob "Some (ob\<lparr>ob_count := n\<rparr>)" b] by (simp add: fields_own_def)

lemma owners_var_upd:
  "i < length (hp_vars h) \<Longrightarrow>
   owners (h\<lparr>hp_vars := (hp_vars h)[i := v]\<rparr>) b + var_owns b (hp_vars h ! i) = owners h b + var_owns b v"
  using sum_list_map_update [of i "hp_vars h" "var_owns b" v] by (simp add: owners_def)

lemma live_object_vars [simp]: "live_object (h\<lparr>hp_vars := vs\<rparr>) a = live_object h a"
  by (simp add: live_object_def)

lemma refcount_vars [simp]: "refcount (h\<lparr>hp_vars := vs\<rparr>) a = refcount h a"
  by (simp add: refcount_def)

lemma balanced_None [simp]: "balanced h (None # w) = balanced h w"
  by (simp add: balanced_def)

lemma balanced_perm: "(\<And>a. count_list w (Some a) = count_list w' (Some a)) \<Longrightarrow> balanced h w = balanced h w'"
  by (simp add: balanced_def)

lemma count_list_rev [simp]: "count_list (rev xs) x = count_list xs x"
  by (induction xs) auto

section \<open>Retain and release keep the books\<close>

lemma retain_balanced:
  assumes b: "balanced h w" and r: "retain p h = Inr h'" and room: "heap_room 1 h"
  shows "balanced h' (p # w)"
proof (cases p)
  case None
  then show ?thesis using b r by (simp add: retain_def)
next
  case (Some a)
  obtain ob where ob: "live_object h a = Some ob"
    and h': "h' = h\<lparr>hp_objects := (hp_objects h)[a := Some (ob\<lparr>ob_count := ob_count ob + 1\<rparr>)]\<rparr>"
    using r Some by (auto simp: retain_def split: option.splits)
  have lt: "unat (ob_count ob) + 1 < 2 ^ 32"
    using room ob by (auto simp: heap_room_def refcount_def dest: spec [of _ a])
  then have u: "unat (ob_count ob + 1) = unat (ob_count ob) + 1"
    by (simp add: unat_word_ariths)
  then have nz: "ob_count ob + 1 \<noteq> 0" by (metis Suc_eq_plus1 nat.distinct(1) unat_0)
  show ?thesis using b u nz
    by (auto simp: balanced_def h' Some owners_count_upd [OF ob] refcount_def live_object_upd [OF ob] ob)
qed

lemma release_all_vars: "release_all ps h = Inr h' \<Longrightarrow> hp_vars h' = hp_vars h"
  by (induction ps h rule: release_all.induct) (auto split: option.splits if_splits)

lemma release_all_set_vars:
  "release_all ps (h\<lparr>hp_vars := vs\<rparr>) = map_sum id (\<lambda>h'. h'\<lparr>hp_vars := vs\<rparr>) (release_all ps h)"
proof -
  have comm: "h\<lparr>hp_vars := vs, hp_objects := os\<rparr> = h\<lparr>hp_objects := os, hp_vars := vs\<rparr>" for h :: heap and os
    by (cases h) simp
  show ?thesis
    by (induction ps h rule: release_all.induct) (auto split: option.splits simp: comm)
qed

text \<open>A deleted object stays deleted, a live one keeps its members.\<close>

lemma release_all_fields:
  "release_all ps h = Inr h' \<Longrightarrow> live_object h' a = Some ob' \<Longrightarrow>
   \<exists>ob. live_object h a = Some ob \<and> ob_fields ob' = ob_fields ob"
proof (induction ps h rule: release_all.induct)
  case (3 b ps h)
  obtain obb where b: "live_object h b = Some obb" using 3 by (auto split: option.splits)
  show ?case
  proof (cases "ob_count obb - 1 \<noteq> 0")
    case True
    then show ?thesis using "3.IH"(1) [OF b True] "3.prems" b
      by (auto simp: live_object_upd [OF b] split: if_splits)
  next
    case False
    then show ?thesis using "3.IH"(2) [OF b False] "3.prems" b
      by (auto simp: live_object_upd [OF b] split: if_splits)
  qed
qed auto

text \<open>Releasing references that are in hand succeeds, and pays them back.\<close>

lemma release_all_balanced:
  "balanced h (ps @ w) \<Longrightarrow> \<exists>h'. release_all ps h = Inr h' \<and> balanced h' w"
proof (induction ps h rule: release_all.induct)
  case (3 a ps h)
  have "0 < refcount h a" using "3.prems" by (auto simp: balanced_def dest: spec [of _ a])
  then obtain ob where ob: "live_object h a = Some ob"
    by (auto simp: refcount_def split: option.splits)
  have nz: "ob_count ob \<noteq> 0" using "3.prems" ob by (auto simp: balanced_def)
  then have "0 < unat (ob_count ob)" by (simp add: unat_gt_0)
  then have u: "unat (ob_count ob) = unat (ob_count ob - 1) + 1" using nz by (simp add: unat_minus_one)
  show ?case
  proof (cases "ob_count ob - 1 \<noteq> 0")
    case True
    let ?h = "h\<lparr>hp_objects := (hp_objects h)[a := Some (ob\<lparr>ob_count := ob_count ob - 1\<rparr>)]\<rparr>"
    have "owners ?h b + count_list (ps @ w) (Some b) = refcount ?h b" for b
    proof -
      have "owners h b + count_list (Some a # ps @ w) (Some b) = refcount h b"
        using "3.prems" by (simp add: balanced_def)
      then show ?thesis using u
        by (cases "b = a") (simp_all add: owners_count_upd [OF ob] refcount_def live_object_upd [OF ob] ob)
    qed
    moreover have "ob_count ob' \<noteq> 0" if "live_object ?h b = Some ob'" for b ob'
      using that True "3.prems" by (auto simp: balanced_def live_object_upd [OF ob] split: if_splits)
    ultimately have "balanced ?h (ps @ w)" by (simp add: balanced_def)
    with "3.IH"(1) [OF ob True] True ob show ?thesis by simp
  next
    case False
    let ?h = "h\<lparr>hp_objects := (hp_objects h)[a := None]\<rparr>"
    have one: "unat (ob_count ob) = 1" using u False by simp
    have "owners ?h b + count_list (rev (ob_fields ob) @ ps @ w) (Some b) = refcount ?h b" for b
    proof -
      have "owners h b + count_list (Some a # ps @ w) (Some b) = refcount h b"
        using "3.prems" by (simp add: balanced_def)
      moreover have "owners ?h b + count_list (ob_fields ob) (Some b) = owners h b"
        using owners_object_upd [OF ob, of None b] by (simp add: fields_own_def)
      ultimately show ?thesis
        by (cases "b = a") (simp_all add: refcount_def live_object_upd [OF ob] ob one)
    qed
    then have "balanced ?h ((rev (ob_fields ob) @ ps) @ w)"
      using "3.prems" by (auto simp: balanced_def live_object_upd [OF ob])
    with "3.IH"(2) [OF ob] False ob show ?thesis by simp
  qed
qed auto


section \<open>Operations keep the books\<close>

lemma write_var_balanced:
  assumes i: "i < length (hp_vars h)" "hp_vars h ! i = Some pv" "pv_owner pv"
    and b: "balanced h (p # w)"
  shows "balanced (h\<lparr>hp_vars := (hp_vars h)[i := Some (pv\<lparr>pv_value := p\<rparr>)]\<rparr>) (pv_value pv # w)"
proof -
  have "owners (h\<lparr>hp_vars := (hp_vars h)[i := Some (pv\<lparr>pv_value := p\<rparr>)]\<rparr>) a
      + (if pv_value pv = Some a then 1 else 0) = owners h a + (if p = Some a then 1 else 0)" for a
    using owners_var_upd [OF i(1), of "Some (pv\<lparr>pv_value := p\<rparr>)" a] i(2,3) by (simp add: var_owns_def)
  moreover have "owners h a + count_list (p # w) (Some a) = refcount h a" for a
    using b by (simp add: balanced_def)
  ultimately have "owners (h\<lparr>hp_vars := (hp_vars h)[i := Some (pv\<lparr>pv_value := p\<rparr>)]\<rparr>) a
      + count_list (pv_value pv # w) (Some a) = refcount h a" for a
    by (smt (verit) add.assoc add.commute count_list.simps(2) add_0)
  then show ?thesis using b by (simp add: balanced_def)
qed

lemma forget_var_balanced:
  assumes i: "i < length (hp_vars h)" and n: "\<And>a. var_owns a (hp_vars h ! i) = 0"
    and v: "\<And>a. var_owns a v = 0" and b: "balanced h w"
  shows "balanced (h\<lparr>hp_vars := (hp_vars h)[i := v]\<rparr>) w"
  using b owners_var_upd [OF i, of v] n v by (simp add: balanced_def)

lemma new_var_balanced:
  "balanced h (p # w) \<Longrightarrow> balanced (snd (new_var p True h)) w"
  "balanced h w \<Longrightarrow> balanced (snd (new_var p False h)) w"
proof -
  have own: "owners (snd (new_var p b h)) a = owners h a + (if b \<and> p = Some a then 1 else 0)" for a b
    by (simp add: new_var_def owners_def var_owns_def)
  have same: "refcount (snd (new_var p b h)) a = refcount h a"
    "live_object (snd (new_var p b h)) a = live_object h a" for a b
    by (simp_all add: new_var_def)
  show "balanced h (p # w) \<Longrightarrow> balanced (snd (new_var p True h)) w"
  proof -
    assume b: "balanced h (p # w)"
    have "owners h a + (if p = Some a then 1 else 0) + count_list w (Some a) = refcount h a" for a
      using b by (cases "p = Some a") (auto simp: balanced_def dest!: spec [of _ a])
    with b show ?thesis unfolding balanced_def own same by simp
  qed
  show "balanced h w \<Longrightarrow> balanced (snd (new_var p False h)) w"
    unfolding balanced_def own same by simp
qed

lemma alloc_object_balanced:
  assumes b: "balanced h (fs @ w)"
  shows "balanced (snd (alloc_object fs h)) (Some (fst (alloc_object fs h)) # w)"
proof -
  let ?h = "snd (alloc_object fs h)" and ?n = "length (hp_objects h)"
  have live: "live_object ?h a = (if a = ?n then Some \<lparr>ob_count = 1, ob_fields = fs\<rparr> else live_object h a)" for a
    by (auto simp: alloc_object_def live_object_def nth_append)
  have own: "owners ?h a = owners h a + count_list fs (Some a)" for a
    by (simp add: alloc_object_def owners_def fields_own_def)
  have "refcount h ?n = 0" by (simp add: refcount_def live_object_def)
  then have ref: "refcount ?h a = refcount h a + (if a = ?n then 1 else 0)" for a
    by (simp add: refcount_def live)
  have nz: "ob_count ob \<noteq> 0" if "live_object ?h a = Some ob" for a ob
    using that b by (auto simp: live balanced_def split: if_splits)
  have "owners h a + count_list (fs @ w) (Some a) = refcount h a" for a
    using b by (simp add: balanced_def)
  then have "owners ?h a + count_list (Some ?n # w) (Some a) = refcount ?h a" for a
    by (simp add: own ref add.assoc [symmetric])
  then show ?thesis using nz by (simp add: balanced_def alloc_object_def)
qed

text \<open>Reading a location again after a cascade gives the old value, or is undefined.\<close>

lemma read_loc_after:
  assumes "read_loc h l = Inr p" and "release_all ps h = Inr h'" and "read_loc h' l = Inr p'"
  shows "p' = p"
proof (cases l)
  case (Var i)
  then show ?thesis using assms release_all_vars [OF assms(2)] by simp
next
  case (Field a k)
  then show ?thesis using assms release_all_fields [OF assms(2), of a]
    by (auto split: option.splits)
qed (use assms in simp)

lemma read_loc_retain:
  "retain p h = Inr h' \<Longrightarrow> read_loc h' l = read_loc h l"
proof (cases p)
  case (Some a)
  assume "retain p h = Inr h'"
  then obtain ob where ob: "live_object h a = Some ob"
    and h': "h' = h\<lparr>hp_objects := (hp_objects h)[a := Some (ob\<lparr>ob_count := ob_count ob + 1\<rparr>)]\<rparr>"
    using Some by (auto simp: retain_def split: option.splits)
  show ?thesis
  proof (cases l)
    case (Field b k)
    then show ?thesis by (simp add: h' live_object_upd [OF ob] ob)
  qed (simp_all add: h')
qed (simp add: retain_def)

lemma read_var:
  "read_loc h (Var i) = Inr p \<longleftrightarrow> i < length (hp_vars h) \<and> (\<exists>pv. hp_vars h ! i = Some pv \<and> pv_value pv = p)"
  by (auto simp: peek_def split: option.splits)

text \<open>\<^verbatim>\<open>AutoPointer\<close> assignment.\<close>

lemma auto_swap_balanced:
  assumes b: "balanced h []" and room: "heap_room 1 h" and i: "i < length (hp_vars h)"
    "hp_vars h ! i = Some pv" "pv_owner pv" and r: "auto_swap (Var i) src h = Inr h'"
  shows "balanced h' []"
proof -
  obtain p h1 h2 p' where p: "read_loc h src = Inr p" and h1: "retain p h = Inr h1"
    and h2: "release_all [pv_value pv] h1 = Inr h2" and p': "read_loc h2 src = Inr p'"
    and w: "write_loc h2 (Var i) p' = Inr h'" and o1: "hp_vars h1 = hp_vars h"
  proof -
    have v: "retain q h = Inr g \<Longrightarrow> hp_vars g = hp_vars h" for q g
      by (auto simp: retain_def split: option.splits)
    show thesis using r that i v
      by (auto simp: auto_swap_def bind_r_Inr_iff release_def peek_def split: if_splits option.splits)
  qed
  have pp: "p' = p" using read_loc_after [OF _ h2 p'] read_loc_retain [OF h1] p by metis
  have o2: "hp_vars h2 = hp_vars h" using release_all_vars [OF h2] o1 by simp
  have b1: "balanced h1 [p]" using retain_balanced [OF b h1 room] .
  let ?new = "(hp_vars h)[i := Some (pv\<lparr>pv_value := p\<rparr>)]"
  have "balanced (h1\<lparr>hp_vars := ?new\<rparr>) ([pv_value pv] @ [])"
    using write_var_balanced [of i h1 pv p "[]"] i b1 o1 by simp
  from release_all_balanced [OF this] obtain h3 where
    "release_all [pv_value pv] (h1\<lparr>hp_vars := ?new\<rparr>) = Inr h3" "balanced h3 []" by blast
  moreover from this(1) have "h3 = h2\<lparr>hp_vars := ?new\<rparr>"
    by (simp add: release_all_set_vars h2)
  moreover have "h' = h2\<lparr>hp_vars := ?new\<rparr>" using w pp o2 i by (simp add: peek_in)
  ultimately show ?thesis by simp
qed


lemma retain_vars: "retain p h = Inr h' \<Longrightarrow> hp_vars h' = hp_vars h"
  by (auto simp: retain_def split: option.splits)

lemma retain_room: "retain p h = Inr h' \<Longrightarrow> heap_room (Suc n) h \<Longrightarrow> heap_room n h'"
proof (cases p)
  case (Some a)
  assume r: "retain p h = Inr h'" and room: "heap_room (Suc n) h"
  obtain ob where ob: "live_object h a = Some ob"
    and h': "h' = h\<lparr>hp_objects := (hp_objects h)[a := Some (ob\<lparr>ob_count := ob_count ob + 1\<rparr>)]\<rparr>"
    using r Some by (auto simp: retain_def split: option.splits)
  have "unat (ob_count ob + 1) \<le> unat (ob_count ob) + 1"
    by (simp add: unat_word_ariths)
  then have "refcount h' b \<le> refcount h b + 1" for b
    by (cases "b = a") (simp_all add: h' refcount_def live_object_upd [OF ob] ob)
  moreover have "refcount h b + Suc n < 2 ^ 32" for b using room by (simp add: heap_room_def)
  ultimately have "refcount h' b + n < 2 ^ 32" for b
    by (metis Suc_eq_plus1 add.commute add_Suc_right add_le_mono1 le_less_trans)
  then show ?thesis by (simp add: heap_room_def)
qed (simp add: retain_def heap_room_def Suc_lessD)

lemma retain_all_balanced:
  "balanced h w \<Longrightarrow> retain_all ps h = Inr h' \<Longrightarrow> heap_room (length ps) h \<Longrightarrow> balanced h' (ps @ w)"
proof (induction ps arbitrary: h w)
  case (Cons p ps)
  obtain h1 where h1: "retain p h = Inr h1" "retain_all ps h1 = Inr h'"
    using Cons.prems(2) by (auto simp: bind_r_Inr_iff)
  have "heap_room 1 h" unfolding heap_room_def
  proof
    fix a show "refcount h a + 1 < 2 ^ 32"
      using Cons.prems(3) by (auto simp: heap_room_def dest!: spec [of _ a])
  qed
  then have "balanced h1 (p # w)" using retain_balanced Cons.prems(1) h1(1) by blast
  moreover have "heap_room (length ps) h1" using retain_room [OF h1(1)] Cons.prems(3) by simp
  ultimately have "balanced h' (ps @ p # w)" using Cons.IH h1(2) by blast
  moreover have "balanced h' ((p # ps) @ w) = balanced h' (ps @ p # w)" by (rule balanced_perm) simp
  ultimately show ?case by simp
qed simp

section \<open>Programs\<close>

text \<open>
  The steps of a program that uses the pointers.  \<^verbatim>\<open>AutoPointer\<close> members are set while they
  are \<^verbatim>\<open>NULL\<close> (as in the constructors); variables are assigned, released and destroyed at
  any time, from any source.
\<close>

definition owning_var :: "heap \<Rightarrow> nat \<Rightarrow> bool" where
  "owning_var h i \<longleftrightarrow> i < length (hp_vars h) \<and> (\<exists>pv. hp_vars h ! i = Some pv \<and> pv_owner pv)"

inductive rc_step :: "heap \<Rightarrow> heap \<Rightarrow> bool" where
  step_autonew: "rc_step h (snd (autonew n h))"
| step_auto: "auto_pointer l True h = Inr (i, h') \<Longrightarrow> heap_room 1 h \<Longrightarrow> rc_step h h'"
| step_return: "return_pointer l ret h = Inr (i, h') \<Longrightarrow> heap_room 1 h \<Longrightarrow> rc_step h h'"
| step_return_copy: "return_pointer_copy i h = Inr (j, h') \<Longrightarrow> heap_room 1 h \<Longrightarrow> rc_step h h'"
| step_copy: "copy_pointer l h = Inr (i, h') \<Longrightarrow>
    \<forall>ob. Some ob \<in> set (hp_objects h) \<longrightarrow> heap_room (length (ob_fields ob)) h \<Longrightarrow> rc_step h h'"
| step_assign: "owning_var h i \<Longrightarrow> auto_swap (Var i) l h = Inr h' \<Longrightarrow> heap_room 1 h \<Longrightarrow> rc_step h h'"
| step_set_field: "read_loc h (Field a k) = Inr None \<Longrightarrow> auto_swap (Field a k) l h = Inr h' \<Longrightarrow>
    heap_room 1 h \<Longrightarrow> rc_step h h'"
| step_release: "owning_var h i \<Longrightarrow> auto_release (Var i) h = Inr h' \<Longrightarrow> rc_step h h'"
| step_destroy: "destroy_pointer i h = Inr h' \<Longrightarrow> rc_step h h'"
| step_return_swap: "return_swap i l ret h = Inr h' \<Longrightarrow> heap_room 1 h \<Longrightarrow> rc_step h h'"

inductive rc_reachable :: "heap \<Rightarrow> bool" where
  reach_empty: "rc_reachable heap_empty"
| reach_step: "rc_reachable h \<Longrightarrow> rc_step h h' \<Longrightarrow> rc_reachable h'"

inductive_cases rc_stepE: "rc_step h h'"

lemma autonew_balanced: "balanced h [] \<Longrightarrow> balanced (snd (autonew n h)) []"
proof -
  assume b: "balanced h []"
  have "count_list (replicate n None) (Some a) = 0" for a :: nat by (induction n) auto
  then have "balanced h (replicate n None @ [])" using b by (simp add: balanced_def)
  from alloc_object_balanced [OF this] show ?thesis
    by (auto simp: autonew_def split: prod.split dest!: new_var_balanced(1) [of _ "Some _"])
qed

lemma auto_pointer_balanced:
  assumes "balanced h []" and "auto_pointer l True h = Inr (i, h')" and "heap_room 1 h"
  shows "balanced h' []"
proof -
  obtain p h1 where "retain p h = Inr h1" "h' = snd (new_var p True h1)"
    using assms(2) by (auto simp: auto_pointer_def bind_r_Inr_iff)
  then show ?thesis using retain_balanced assms(1,3) new_var_balanced(1) by blast
qed

lemma return_pointer_balanced:
  assumes "balanced h []" and "return_pointer l ret h = Inr (i, h')" and "heap_room 1 h"
  shows "balanced h' []"
proof (cases ret)
  case True
  then have "auto_pointer l True h = Inr (i, h')" using assms(2)
    by (simp add: return_pointer_def auto_pointer_def)
  then show ?thesis using auto_pointer_balanced assms(1,3) by blast
next
  case False
  then obtain p where "new_var p False h = (i, h')"
    using assms(2) by (auto simp: return_pointer_def bind_r_Inr_iff)
  then have "h' = snd (new_var p False h)" by simp
  then show ?thesis using assms(1) new_var_balanced(2) by blast
qed

lemma copy_pointer_balanced:
  assumes b: "balanced h []" and r: "copy_pointer l h = Inr (i, h')"
    and room: "\<forall>ob. Some ob \<in> set (hp_objects h) \<longrightarrow> heap_room (length (ob_fields ob)) h"
  shows "balanced h' []"
proof -
  obtain p where p: "read_loc h l = Inr p" using r by (auto simp: copy_pointer_def bind_r_Inr_iff)
  show ?thesis
  proof (cases p)
    case None
    then have "h' = snd (new_var None True h)" using r p by (auto simp: copy_pointer_def)
    then show ?thesis using b new_var_balanced(1) [of h None "[]"] by simp
  next
    case (Some a)
    obtain ob h1 where ob: "live_object h a = Some ob" "retain_all (ob_fields ob) h = Inr h1"
      and h': "h' = snd (new_var (Some (fst (alloc_object (ob_fields ob) h1))) True
                  (snd (alloc_object (ob_fields ob) h1)))"
      using r p Some by (auto simp: copy_pointer_def bind_r_Inr_iff split_beta split: option.splits)
    have "Some ob \<in> set (hp_objects h)"
      using ob(1) by (auto simp: live_object_def split: if_splits) (metis nth_mem)
    then have "balanced h1 (ob_fields ob @ [])" using retain_all_balanced b ob(2) room by blast
    from new_var_balanced(1) [OF alloc_object_balanced [OF this]] show ?thesis by (simp add: h')
  qed
qed

lemma auto_release_var:
  assumes i: "i < length (hp_vars h)" "hp_vars h ! i = Some pv" "pv_owner pv"
    and b: "balanced h []"
  shows "\<exists>h'. auto_release (Var i) h = Inr h' \<and> balanced h' [] \<and>
    hp_vars h' = (hp_vars h)[i := Some (pv\<lparr>pv_value := None\<rparr>)]"
proof -
  let ?new = "(hp_vars h)[i := Some (pv\<lparr>pv_value := None\<rparr>)]"
  have "balanced (h\<lparr>hp_vars := ?new\<rparr>) ([pv_value pv] @ [])"
    using write_var_balanced [OF i, of None "[]"] b by simp
  from release_all_balanced [OF this] obtain h3 where
    h3: "release_all [pv_value pv] (h\<lparr>hp_vars := ?new\<rparr>) = Inr h3" "balanced h3 []" by blast
  then obtain h2 where h2: "release_all [pv_value pv] h = Inr h2" "h3 = h2\<lparr>hp_vars := ?new\<rparr>"
    by (cases "release_all [pv_value pv] h") (auto simp: release_all_set_vars)
  have "hp_vars h2 = hp_vars h" using release_all_vars [OF h2(1)] .
  then show ?thesis using i h2 h3(2) by (simp add: auto_release_def peek_in release_def)
qed


definition own_ref :: "pointer_var option \<Rightarrow> nat option" where
  "own_ref v = (case v of None \<Rightarrow> None | Some pv \<Rightarrow> if pv_owner pv then pv_value pv else None)"

lemma set_var_balanced:
  assumes i: "i < length (hp_vars h)" and b: "balanced h (own_ref v # w)"
  shows "balanced (h\<lparr>hp_vars := (hp_vars h)[i := v]\<rparr>) (own_ref (hp_vars h ! i) # w)"
proof -
  have vo: "var_owns a u = count_list [own_ref u] (Some a)" for a u
    by (auto simp: var_owns_def own_ref_def split: option.splits)
  have "owners (h\<lparr>hp_vars := (hp_vars h)[i := v]\<rparr>) a + count_list [own_ref (hp_vars h ! i)] (Some a)
      = owners h a + count_list [own_ref v] (Some a)" for a
    using owners_var_upd [OF i, of v a] by (simp add: vo)
  moreover have "owners h a + (count_list [own_ref v] (Some a) + count_list w (Some a)) = refcount h a" for a
    using b by (cases "own_ref v = Some a") (auto simp: balanced_def dest!: spec [of _ a])
  ultimately have "owners (h\<lparr>hp_vars := (hp_vars h)[i := v]\<rparr>) a +
      (count_list [own_ref (hp_vars h ! i)] (Some a) + count_list w (Some a)) = refcount h a" for a
    by (metis add.assoc)
  moreover have "count_list (x # w) y = count_list [x] y + count_list w y" for x y :: "nat option"
    by simp
  ultimately have "owners (h\<lparr>hp_vars := (hp_vars h)[i := v]\<rparr>) a +
      count_list (own_ref (hp_vars h ! i) # w) (Some a) = refcount h a" for a by metis
  then show ?thesis using b by (simp add: balanced_def)
qed

text \<open>Releasing the old value of a variable and setting the new one.\<close>

lemma release_set_var_balanced:
  assumes i: "i < length (hp_vars h)" and b: "balanced h (own_ref v # w)"
    and r: "release_all [own_ref (hp_vars h ! i)] h = Inr h'"
  shows "balanced (h'\<lparr>hp_vars := (hp_vars h)[i := v]\<rparr>) w"
proof -
  have "balanced (h\<lparr>hp_vars := (hp_vars h)[i := v]\<rparr>) ([own_ref (hp_vars h ! i)] @ w)"
    using set_var_balanced [OF i b] by simp
  from release_all_balanced [OF this] show ?thesis by (auto simp: release_all_set_vars r)
qed

lemma destroy_pointer_balanced:
  assumes b: "balanced h []" and i: "i < length (hp_vars h)" "hp_vars h ! i = Some pv"
  shows "\<exists>h'. destroy_pointer i h = Inr h' \<and> balanced h' []"
proof (cases "pv_owner pv")
  case True
  obtain h1 where h1: "auto_release (Var i) h = Inr h1" "balanced h1 []"
    "hp_vars h1 = (hp_vars h)[i := Some (pv\<lparr>pv_value := None\<rparr>)]"
    using auto_release_var [OF i True b] by blast
  have "balanced (drop_var i h1) []" unfolding drop_var_def
    by (rule forget_var_balanced) (use i h1 in \<open>simp_all add: var_owns_def\<close>)
  then show ?thesis using True i h1(1) by (simp add: destroy_pointer_def peek_in)
next
  case False
  let ?h = "h\<lparr>hp_vars := (hp_vars h)[i := None]\<rparr>"
  have "balanced ?h []" by (rule forget_var_balanced) (use i b False in \<open>simp_all add: var_owns_def\<close>)
  then show ?thesis using False i
    by (simp add: destroy_pointer_def peek_in auto_release_def release_def drop_var_def)
qed

lemma return_swap_balanced:
  assumes b: "balanced h []" and room: "heap_room 1 h" and r: "return_swap i l ret h = Inr h'"
  shows "balanced h' []"
proof -
  obtain pv where i: "i < length (hp_vars h)" "hp_vars h ! i = Some pv"
    using r by (auto simp: return_swap_def bind_r_Inr_iff peek_def split: if_splits option.splits)
  define h0 where "h0 = (if pv_owner pv then h else h\<lparr>hp_vars := (hp_vars h)[i := Some (pv\<lparr>pv_value := None\<rparr>)]\<rparr>)"
  have b0: "balanced h0 []"
    using b forget_var_balanced [OF i(1) _ _ b, of "Some (pv\<lparr>pv_value := None\<rparr>)"] i(2)
    by (auto simp: h0_def var_owns_def)
  have i0: "i < length (hp_vars h0)" "own_ref (hp_vars h0 ! i) = (case hp_vars h0 ! i of Some pv \<Rightarrow> pv_value pv)"
    using i by (auto simp: h0_def own_ref_def)
  have room0: "heap_room 1 h0" using room by (simp add: h0_def heap_room_def)
  obtain p h1 h2 p' where p: "read_loc h0 l = Inr p"
    and h1: "(if ret then retain p h0 else Inr h0) = Inr h1"
    and h2: "release_all [own_ref (hp_vars h0 ! i)] h1 = Inr h2" and p': "read_loc h2 l = Inr p'"
    and h': "h' = h2\<lparr>hp_vars := (hp_vars h0)[i := Some \<lparr>pv_value = p', pv_owner = ret\<rparr>]\<rparr>"
  proof -
    have w: "(if pv_owner pv then Inr h else write_loc h (Var i) None) = Inr h0"
      using i by (simp add: h0_def peek_in)
    obtain p where p: "read_loc h0 l = Inr p" using r w i(1)
      by (auto simp: return_swap_def bind_r_Inr_iff peek_in i(2))
    obtain h1 where h1: "(if ret then retain p h0 else Inr h0) = Inr h1" using r w i(1) p
      by (auto simp: return_swap_def bind_r_Inr_iff peek_in i(2))
    have v1: "hp_vars h1 = hp_vars h0" using h1 retain_vars by (auto split: if_splits)
    have old: "read_loc h1 (Var i) = Inr (own_ref (hp_vars h0 ! i))"
      using i0 i v1 by (auto simp: peek_in h0_def own_ref_def)
    obtain h2 where h2: "release_all [own_ref (hp_vars h0 ! i)] h1 = Inr h2" using r w i(1) p h1 old
      by (auto simp: return_swap_def bind_r_Inr_iff peek_in i(2) release_def simp del: read_loc.simps)
    have v2: "hp_vars h2 = hp_vars h0" using release_all_vars [OF h2] v1 by simp
    obtain p' where p': "read_loc h2 l = Inr p'" using r w i(1) p h1 old h2
      by (auto simp: return_swap_def bind_r_Inr_iff peek_in i(2) release_def simp del: read_loc.simps)
    have "h' = h2\<lparr>hp_vars := (hp_vars h0)[i := Some \<lparr>pv_value = p', pv_owner = ret\<rparr>]\<rparr>"
      using r w i(1) p h1 old h2 p' i0(1) v2
      by (auto simp: return_swap_def bind_r_Inr_iff peek_in i(2) release_def simp del: read_loc.simps
          split: option.splits)
    with that p h1 h2 p' show thesis by blast
  qed
  have v1: "hp_vars h1 = hp_vars h0" using h1 retain_vars by (auto split: if_splits)
  have rd: "read_loc h1 l = Inr p" using p h1 read_loc_retain by (auto split: if_splits)
  have pp: "p' = p" using read_loc_after [OF rd h2 p'] .
  have "balanced h1 (own_ref (Some \<lparr>pv_value = p, pv_owner = ret\<rparr>) # [])"
    using h1 retain_balanced [OF b0 _ room0] b0 by (auto simp: own_ref_def split: if_splits)
  from release_set_var_balanced [OF _ this, of i h2] show ?thesis
    using h2 i0(1) by (simp add: v1 h' pp)
qed


lemma count_list_sum: "count_list xs x = sum_list (map (\<lambda>z. if z = x then 1 else 0) xs)"
  by (induction xs) auto

lemma set_field_balanced:
  assumes ob: "live_object h a = Some ob" and k: "k < length (ob_fields ob)" "ob_fields ob ! k = None"
    and b: "balanced h (p # w)"
  shows "balanced (h\<lparr>hp_objects := (hp_objects h)[a := Some (ob\<lparr>ob_fields := (ob_fields ob)[k := p]\<rparr>)]\<rparr>) w"
proof -
  let ?h = "h\<lparr>hp_objects := (hp_objects h)[a := Some (ob\<lparr>ob_fields := (ob_fields ob)[k := p]\<rparr>)]\<rparr>"
  have "count_list ((ob_fields ob)[k := p]) (Some c)
      = count_list (ob_fields ob) (Some c) + (if p = Some c then 1 else 0)" for c
    using sum_list_map_update [OF k(1), of "\<lambda>z. if z = Some c then 1 else 0" p] k(2)
    by (simp add: count_list_sum)
  then have own: "owners ?h c = owners h c + (if p = Some c then 1 else 0)" for c
    using owners_object_upd [OF ob, of "Some (ob\<lparr>ob_fields := (ob_fields ob)[k := p]\<rparr>)" c]
    by (simp add: fields_own_def)
  have ref: "refcount ?h c = refcount h c" for c
    by (cases "c = a") (simp_all add: refcount_def live_object_upd [OF ob] ob)
  have "owners h c + (if p = Some c then 1 else 0) + count_list w (Some c) = refcount h c" for c
    using b by (cases "p = Some c") (auto simp: balanced_def dest!: spec [of _ c])
  then have "owners ?h c + count_list w (Some c) = refcount ?h c" for c by (simp add: own ref)
  moreover have "ob_count ob' \<noteq> 0" if "live_object ?h c = Some ob'" for c ob'
    using that b ob by (auto simp: live_object_upd [OF ob] balanced_def split: if_splits)
  ultimately show ?thesis by (simp add: balanced_def)
qed

lemma auto_swap_field_balanced:
  assumes b: "balanced h []" and room: "heap_room 1 h" and n: "read_loc h (Field a k) = Inr None"
    and r: "auto_swap (Field a k) l h = Inr h'"
  shows "balanced h' []"
proof -
  obtain p h1 where p: "read_loc h l = Inr p" and h1: "retain p h = Inr h1"
    and w: "write_loc h1 (Field a k) p = Inr h'"
    using r n read_loc_retain
    by (auto simp: auto_swap_def bind_r_Inr_iff release_def simp del: read_loc.simps write_loc.simps)
  have "read_loc h1 (Field a k) = Inr None" using n read_loc_retain [OF h1] by metis
  then obtain ob where ob: "live_object h1 a = Some ob" "k < length (ob_fields ob)" "ob_fields ob ! k = None"
    by (auto simp: peek_def split: option.splits if_splits)
  have "h' = h1\<lparr>hp_objects := (hp_objects h1)[a := Some (ob\<lparr>ob_fields := (ob_fields ob)[k := p]\<rparr>)]\<rparr>"
    using w ob by (simp add: poke_in)
  then show ?thesis using set_field_balanced [OF ob retain_balanced [OF b h1 room]] by simp
qed

lemma rc_step_balanced:
  assumes b: "balanced h []" and s: "rc_step h h'"
  shows "balanced h' []"
  using s
proof cases
  case (step_return_copy i j)
  then show ?thesis using return_pointer_balanced [OF b]
    by (auto simp: return_pointer_copy_def bind_r_Inr_iff split: option.splits)
next
  case (step_release i)
  then show ?thesis using auto_release_var [OF _ _ _ b] unfolding owning_var_def by fastforce
next
  case (step_destroy i)
  then obtain pv where "i < length (hp_vars h)" "hp_vars h ! i = Some pv"
    by (auto simp: destroy_pointer_def bind_r_Inr_iff peek_def split: if_splits option.splits)
  then show ?thesis using destroy_pointer_balanced [OF b] step_destroy by fastforce
next
  case (step_assign i l)
  then obtain pv where "i < length (hp_vars h)" "hp_vars h ! i = Some pv" "pv_owner pv"
    unfolding owning_var_def by blast
  from auto_swap_balanced [OF b step_assign(3) this step_assign(2)] show ?thesis .
next
  case (step_autonew n)
  then show ?thesis using autonew_balanced [OF b] by simp
next
  case (step_auto l i)
  from auto_pointer_balanced [OF b this] show ?thesis .
next
  case (step_return l ret i)
  from return_pointer_balanced [OF b this] show ?thesis .
next
  case (step_copy l i)
  from copy_pointer_balanced [OF b this] show ?thesis .
next
  case (step_set_field a k l)
  from auto_swap_field_balanced [OF b step_set_field(3,1,2)] show ?thesis .
next
  case (step_return_swap i l ret)
  from return_swap_balanced [OF b step_return_swap(2,1)] show ?thesis .
qed

lemma rc_reachable_balanced: "rc_reachable h \<Longrightarrow> balanced h []"
proof (induction rule: rc_reachable.induct)
  case reach_empty
  show ?case by (simp add: balanced_def heap_empty_def owners_def refcount_def live_object_def)
qed (blast intro: rc_step_balanced)


section \<open>Freed memory read by an assignment\<close>

text \<open>
  \<^verbatim>\<open>head = head->next\<close>, where \<^verbatim>\<open>head\<close> is the only owner of its node: \<^verbatim>\<open>Swap\<close> releases the old
  node, which frees the memory its argument \<^verbatim>\<open>t\<close> refers to, and then reads \<^verbatim>\<open>t\<close> again.
\<close>

definition list_of_two :: heap where
  "list_of_two = \<lparr>hp_objects = [Some \<lparr>ob_count = 1, ob_fields = [Some 1]\<rparr>,
                                Some \<lparr>ob_count = 1, ob_fields = [None]\<rparr>],
                  hp_vars = [Some \<lparr>pv_value = Some 0, pv_owner = True\<rparr>]\<rparr>"

lemma auto_swap_own_member: "auto_swap (Var 0) (Field 0 0) list_of_two = Inl Undefined"
  by (simp add: auto_swap_def list_of_two_def retain_def release_def live_object_def peek_def)

text \<open>Held through a second owner, the same assignment is fine.\<close>

lemma auto_swap_member_held:
  "auto_swap (Var 0) (Field 0 0)
     (list_of_two\<lparr>hp_objects := (hp_objects list_of_two)[0 := Some \<lparr>ob_count = 2, ob_fields = [Some 1]\<rparr>],
                  hp_vars := hp_vars list_of_two @ hp_vars list_of_two\<rparr>) =
   Inr \<lparr>hp_objects = [Some \<lparr>ob_count = 1, ob_fields = [Some 1]\<rparr>,
                       Some \<lparr>ob_count = 2, ob_fields = [None]\<rparr>],
        hp_vars = [Some \<lparr>pv_value = Some 1, pv_owner = True\<rparr>, Some \<lparr>pv_value = Some 0, pv_owner = True\<rparr>]\<rparr>"
  by (simp add: auto_swap_def list_of_two_def retain_def release_def live_object_def peek_def)

section \<open>Properties\<close>


lemma one_node_reachable: "rc_reachable (snd (autonew 1 heap_empty))"
  by (rule reach_step [OF reach_empty step_autonew])


text \<open>C2: Destroying an \<^verbatim>\<open>AutoPointer\<close> or a \<^verbatim>\<open>ReturnPointer\<close>, and releasing an \<^verbatim>\<open>AutoPointer\<close>,
  never fails in a reachable heap, however long the cascade of deletions it starts: no object
  is deleted twice and none is used after it is deleted.\<close>

theorem destroy_pointer_safe:
  assumes "rc_reachable h" and "i < length (hp_vars h)" and "hp_vars h ! i = Some pv"
  shows "(\<exists>h'. destroy_pointer i h = Inr h' \<and> (\<forall>a. refcount h' a = owners h' a)) \<and>
    (pv_owner pv \<longrightarrow> (\<exists>h'. auto_release (Var i) h = Inr h' \<and> (\<forall>a. refcount h' a = owners h' a)))"
proof -
  note b = rc_reachable_balanced [OF assms(1)]
  have "\<exists>h'. destroy_pointer i h = Inr h' \<and> (\<forall>a. refcount h' a = owners h' a)"
    using destroy_pointer_balanced [OF b assms(2,3)] by (auto simp: balanced_def)
  moreover have "pv_owner pv \<longrightarrow> (\<exists>h'. auto_release (Var i) h = Inr h' \<and> (\<forall>a. refcount h' a = owners h' a))"
    using auto_release_var [OF assms(2,3) _ b] by (fastforce simp: balanced_def)
  ultimately show ?thesis by blast
qed

theorem destroy_pointer_safe_witness:
  "\<exists>h'. destroy_pointer 0 (snd (autonew 1 heap_empty)) = Inr h' \<and> (\<forall>a. refcount h' a = owners h' a)"
  using destroy_pointer_safe [OF one_node_reachable, of 0 "\<lparr>pv_value = Some 0, pv_owner = True\<rparr>"]
  by (simp add: autonew_def alloc_object_def new_var_def heap_empty_def)

end
