(* ===== verification/Auto_Array.thy ===== *)
theory Auto_Array
  imports Collections Ref_Count
begin

text \<open>
  \<^verbatim>\<open>AutoArray\<close> (\<^verbatim>\<open>include/bricks/collections/autoarray.h\<close>): an \<^verbatim>\<open>Array\<close> of pointers that
  retains what it holds.  The state is the array of addresses and the heap of counted objects; an
  item is one reference that the array has in hand.
\<close>

type_synonym auto_array = "nat option array"

section \<open>Operations\<close>

definition auto_retain_all :: "auto_array \<Rightarrow> heap \<Rightarrow> heap result" where
  "auto_retain_all a = fold_r retain (arr_vector a)"

definition auto_release_all :: "auto_array \<Rightarrow> heap \<Rightarrow> heap result" where
  "auto_release_all a = fold_r release (arr_vector a)"

definition auto_array_copy :: "auto_array \<Rightarrow> nat option comparison option \<Rightarrow> heap \<Rightarrow> (auto_array \<times> heap) result" where
  "auto_array_copy source cmp h =
     (let a = array_copy source cmp in bind_r (auto_retain_all a h) (\<lambda>h'. Inr (a, h')))"

definition auto_array_new :: "nat option comparison \<Rightarrow> auto_array" where
  "auto_array_new cmp = array_new cmp"

definition auto_array_from :: "nat option list \<Rightarrow> nat option comparison \<Rightarrow> heap \<Rightarrow> (auto_array \<times> heap) result" where
  "auto_array_from ps cmp h =
     (let a = array_from ps cmp in bind_r (auto_retain_all a h) (\<lambda>h'. Inr (a, h')))"

definition auto_array_destroy :: "auto_array \<Rightarrow> heap \<Rightarrow> heap result" where
  "auto_array_destroy a h = auto_release_all a h"

text \<open>The assignment takes over the comparison and the items of the source.\<close>

definition auto_array_assign :: "auto_array \<Rightarrow> auto_array \<Rightarrow> heap \<Rightarrow> (auto_array \<times> heap) result" where
  "auto_array_assign a source h =
     (let to_release = array_copy a None; a' = array_copy source None in
      bind_r (auto_retain_all a' h) (\<lambda>h1.
      bind_r (auto_release_all to_release h1) (\<lambda>h2. Inr (a', h2))))"

definition auto_add_item :: "auto_array \<Rightarrow> nat option \<Rightarrow> heap \<Rightarrow> (auto_array \<times> heap) result" where
  "auto_add_item a p h =
     (let a' = array_add_item a p in bind_r (retain p h) (\<lambda>h'. Inr (a', h')))"

definition auto_remove_item_at :: "auto_array \<Rightarrow> int \<Rightarrow> heap \<Rightarrow> (auto_array \<times> heap) result" where
  "auto_remove_item_at a index h =
     bind_r (array_get_item a index) (\<lambda>item.
     bind_r (array_remove_item_at a index) (\<lambda>a'.
     bind_r (release item h) (\<lambda>h'. Inr (a', h'))))"

definition auto_remove_item :: "auto_array \<Rightarrow> nat option \<Rightarrow> heap \<Rightarrow> (bool \<times> auto_array \<times> heap) result" where
  "auto_remove_item a p h =
     (let index = array_index_of_item a p in
      if 0 \<le> index then
        bind_r (array_get_item a index) (\<lambda>item.
        bind_r (array_remove_item_at a index) (\<lambda>a'.
        bind_r (release item h) (\<lambda>h'. Inr (True, a', h'))))
      else Inr (False, a, h))"

text \<open>The loop \<^verbatim>\<open>while (RemoveItem(value));\<close> ends, as each round takes an item away.\<close>

function auto_remove_loop :: "auto_array \<Rightarrow> nat option \<Rightarrow> heap \<Rightarrow> (auto_array \<times> heap) result" where
  "auto_remove_loop a p h =
     bind_r (auto_remove_item a p h) (\<lambda>(removed, a', h').
     if removed then auto_remove_loop a' p h' else Inr (a', h'))"
  by pat_completeness auto

lemma auto_remove_item_shorter:
  "auto_remove_item a p h = Inr (True, a', h') \<Longrightarrow> length (arr_vector a') < length (arr_vector a)"
  by (auto simp: auto_remove_item_def array_remove_item_at_def bind_r_Inr_iff Let_def length_erase_at split: if_splits)

termination auto_remove_loop
  by (relation "measure (\<lambda>(a, p, h). length (arr_vector a))") (auto dest: auto_remove_item_shorter)

declare auto_remove_loop.simps [simp del]

definition auto_remove_items :: "auto_array \<Rightarrow> nat option \<Rightarrow> heap \<Rightarrow> (auto_array \<times> heap) result" where
  "auto_remove_items a p h =
     bind_r (retain p h) (\<lambda>h1.
     bind_r (auto_remove_loop a p h1) (\<lambda>(a', h2).
     bind_r (release p h2) (\<lambda>h3. Inr (a', h3))))"

definition auto_clear :: "auto_array \<Rightarrow> heap \<Rightarrow> (auto_array \<times> heap) result" where
  "auto_clear a h = bind_r (auto_release_all a h) (\<lambda>h'. Inr (array_clear a, h'))"

definition auto_set_item :: "auto_array \<Rightarrow> int \<Rightarrow> nat option \<Rightarrow> heap \<Rightarrow> (auto_array \<times> heap) result" where
  "auto_set_item a index p h =
     bind_r (array_get_item a index) (\<lambda>item.
     bind_r (array_set_item a index p) (\<lambda>a'.
     bind_r (release item h) (\<lambda>h1.
     bind_r (retain p h1) (\<lambda>h2. Inr (a', h2)))))"

definition auto_insert_item :: "auto_array \<Rightarrow> int \<Rightarrow> nat option \<Rightarrow> heap \<Rightarrow> (auto_array \<times> heap) result" where
  "auto_insert_item a index p h =
     bind_r (array_insert_item a index p) (\<lambda>a'. bind_r (retain p h) (\<lambda>h'. Inr (a', h')))"

section \<open>References in hand\<close>

text \<open>An object can be retained while it has a reference; the owner of one may give it back.\<close>

lemma retain_held:
  assumes "balanced h w" "p \<in> set w" "heap_room 1 h"
  shows "\<exists>h'. retain p h = Inr h' \<and> balanced h' (p # w)"
proof -
  have "\<exists>h'. retain p h = Inr h'"
  proof (cases p)
    case (Some a)
    have "0 < refcount h a" using assms(1,2) Some count_list_0_iff [of w "Some a"]
      by (auto simp: balanced_def dest: spec [of _ a])
    then show ?thesis using Some by (auto simp: retain_def refcount_def split: option.splits)
  qed (simp add: retain_def)
  then show ?thesis using retain_balanced [OF assms(1) _ assms(3)] by blast
qed

lemma release_held: "balanced h (p # w) \<Longrightarrow> \<exists>h'. release p h = Inr h' \<and> balanced h' w"
  using release_all_balanced [of h "[p]" w] by (simp add: release_def)

lemma balanced_mset: "mset w = mset w' \<Longrightarrow> balanced h w = balanced h w'"
  by (rule balanced_perm) (simp add: count_mset [symmetric])

text \<open>Giving back references never raises a count.\<close>

lemma release_all_refcount_le:
  "release_all ps h = Inr h' \<Longrightarrow> \<forall>a ob. live_object h a = Some ob \<longrightarrow> ob_count ob \<noteq> 0 \<Longrightarrow>
   refcount h' a \<le> refcount h a"
proof (induction ps h rule: release_all.induct)
  case (3 b ps h)
  obtain ob where ob: "live_object h b = Some ob" using "3.prems"(1) by (auto split: option.splits)
  have nz: "ob_count ob \<noteq> 0" using "3.prems"(2) ob by blast
  show ?case
  proof (cases "ob_count ob - 1 \<noteq> 0")
    case True
    let ?h = "h\<lparr>hp_objects := (hp_objects h)[b := Some (ob\<lparr>ob_count := ob_count ob - 1\<rparr>)]\<rparr>"
    have "refcount h' a \<le> refcount ?h a"
      using "3.IH"(1) [OF ob True] "3.prems" ob True by (simp add: live_object_upd [OF ob])
    also have "\<dots> \<le> refcount h a"
      using nz by (simp add: refcount_def live_object_upd [OF ob] ob unat_minus_one)
    finally show ?thesis .
  next
    case False
    let ?h = "h\<lparr>hp_objects := (hp_objects h)[b := None]\<rparr>"
    have "refcount h' a \<le> refcount ?h a"
      using "3.IH"(2) [OF ob False] "3.prems" ob False by (simp add: live_object_upd [OF ob])
    also have "\<dots> \<le> refcount h a" by (simp add: refcount_def live_object_upd [OF ob])
    finally show ?thesis .
  qed
qed auto

lemma heap_room_mono: "heap_room m h \<Longrightarrow> n \<le> m \<Longrightarrow> heap_room n h"
proof -
  assume r: "heap_room m h" and n: "n \<le> m"
  have "refcount h a + n < 2 ^ 32" for a
    using r n by (auto simp: heap_room_def intro: le_less_trans [of _ "refcount h a + m"])
  then show ?thesis by (simp add: heap_room_def)
qed

lemma release_keeps:
  assumes "balanced h (p # w)" "heap_room n h"
  shows "\<exists>h'. release p h = Inr h' \<and> balanced h' w \<and> heap_room n h'"
proof -
  obtain h' where h': "release p h = Inr h'" "balanced h' w" using release_held [OF assms(1)] by blast
  have "refcount h' a \<le> refcount h a" for a
    using release_all_refcount_le [of "[p]" h h'] h'(1) assms(1) by (auto simp: release_def balanced_def)
  then have "heap_room n h'" using assms(2)
    by (auto simp: heap_room_def intro: le_less_trans [OF add_le_mono1])
  then show ?thesis using h' by blast
qed

lemma retain_keeps:
  assumes "balanced h w" "p \<in> set w" "heap_room (Suc n) h"
  shows "\<exists>h'. retain p h = Inr h' \<and> balanced h' (p # w) \<and> heap_room n h'"
  using retain_held [OF assms(1,2) heap_room_mono [OF assms(3)]] retain_room assms(3) by fastforce

lemma retain_list_keeps:
  "balanced h w \<Longrightarrow> set ps \<subseteq> set w \<Longrightarrow> heap_room (length ps + n) h \<Longrightarrow>
   \<exists>h'. fold_r retain ps h = Inr h' \<and> balanced h' (ps @ w) \<and> heap_room n h'"
proof (induction ps arbitrary: h w)
  case (Cons p ps)
  obtain h1 where h1: "retain p h = Inr h1" "balanced h1 (p # w)" "heap_room (length ps + n) h1"
    using retain_keeps [of h w p "length ps + n"] Cons.prems by auto
  obtain h2 where h2: "fold_r retain ps h1 = Inr h2" "balanced h2 (ps @ p # w)" "heap_room n h2"
    using Cons.IH [OF h1(2) _ h1(3)] Cons.prems(2) by auto
  have "balanced h2 (p # ps @ w)" using h2(2) by (subst balanced_mset [of _ "ps @ p # w"]) auto
  then show ?case using h1(1) h2 by simp
qed simp

lemma release_list_keeps:
  "balanced h (ps @ w) \<Longrightarrow> heap_room n h \<Longrightarrow>
   \<exists>h'. fold_r release ps h = Inr h' \<and> balanced h' w \<and> heap_room n h'"
proof (induction ps arbitrary: h)
  case (Cons p ps)
  obtain h1 where h1: "release p h = Inr h1" "balanced h1 (ps @ w)" "heap_room n h1"
    using release_keeps [of h p "ps @ w" n] Cons.prems by auto
  then show ?case using Cons.IH [OF h1(2,3)] by auto
qed simp

section \<open>The array as a list of references\<close>

text \<open>What each operation does to the list of items; None for an index out of range.\<close>

datatype auto_array_op =
    Append "nat option" | Remove "nat option" | Remove_All "nat option" | Empty
  | Set_At int "nat option" | Insert_At int "nat option" | Remove_At int

fun list_op :: "nat option comparison \<Rightarrow> auto_array_op \<Rightarrow> nat option list \<Rightarrow> nat option list option" where
  "list_op cmp (Append p) xs = Some (xs @ [p])"
| "list_op cmp (Remove p) xs =
     Some (if \<exists>x \<in> set xs. matches cmp x p then erase_at xs (iterator_of_item cmp xs p) else xs)"
| "list_op cmp (Remove_All p) xs = Some (filter (\<lambda>x. \<not> matches cmp x p) xs)"
| "list_op cmp Empty xs = Some []"
| "list_op cmp (Set_At i p) xs = (if 0 \<le> i \<and> i < int (length xs) then Some (xs[nat i := p]) else None)"
| "list_op cmp (Insert_At i p) xs = (if 0 \<le> i \<and> i \<le> int (length xs) then Some (insert_at xs (nat i) p) else None)"
| "list_op cmp (Remove_At i) xs = (if 0 \<le> i \<and> i < int (length xs) then Some (erase_at xs (nat i)) else None)"

fun op_arguments :: "auto_array_op \<Rightarrow> nat option set" where
  "op_arguments (Append p) = {p}"
| "op_arguments (Remove p) = {}"
| "op_arguments (Remove_All p) = {p}"
| "op_arguments Empty = {}"
| "op_arguments (Set_At i p) = {p}"
| "op_arguments (Insert_At i p) = {p}"
| "op_arguments (Remove_At i) = {}"

fun auto_op :: "auto_array_op \<Rightarrow> auto_array \<times> heap \<Rightarrow> (auto_array \<times> heap) result" where
  "auto_op (Append p) (a, h) = auto_add_item a p h"
| "auto_op (Remove p) (a, h) = bind_r (auto_remove_item a p h) (\<lambda>(_, s). Inr s)"
| "auto_op (Remove_All p) (a, h) = auto_remove_items a p h"
| "auto_op Empty (a, h) = auto_clear a h"
| "auto_op (Set_At i p) (a, h) = auto_set_item a i p h"
| "auto_op (Insert_At i p) (a, h) = auto_insert_item a i p h"
| "auto_op (Remove_At i) (a, h) = auto_remove_item_at a i h"

fun list_ops :: "nat option comparison \<Rightarrow> auto_array_op list \<Rightarrow> nat option list \<Rightarrow> nat option list option" where
  "list_ops cmp [] xs = Some xs"
| "list_ops cmp (c # cs) xs = (case list_op cmp c xs of None \<Rightarrow> None | Some ys \<Rightarrow> list_ops cmp cs ys)"

lemma mset_erased: "i < length xs \<Longrightarrow> mset (xs ! i # erase_at xs i @ w) = mset (xs @ w)"
  by (simp add: mset_erase_at)

lemma auto_remove_item_at_keeps:
  assumes "balanced h (arr_vector a @ w)" "heap_room n h" "0 \<le> i" "i < int (length (arr_vector a))"
  shows "\<exists>h'. auto_remove_item_at a i h = Inr (a\<lparr>arr_vector := erase_at (arr_vector a) (nat i)\<rparr>, h') \<and>
    balanced h' (erase_at (arr_vector a) (nat i) @ w) \<and> heap_room n h'"
proof -
  have "balanced h (arr_vector a ! nat i # erase_at (arr_vector a) (nat i) @ w)"
    using assms(1,3,4) mset_erased [of "nat i" "arr_vector a" w] balanced_mset by (metis nat_less_iff)
  from release_keeps [OF this assms(2)] show ?thesis
    using assms(3,4) by (auto simp: auto_remove_item_at_def array_get_item_def array_remove_item_at_def)
qed

lemma auto_remove_item_is:
  "auto_remove_item a p h =
    (if \<exists>x \<in> set (arr_vector a). matches (arr_comparison a) x p
     then bind_r (auto_remove_item_at a (int (array_find a p)) h) (\<lambda>s. Inr (True, s)) else Inr (False, a, h))"
proof -
  have "array_index_of_item a p = (if \<exists>x \<in> set (arr_vector a). matches (arr_comparison a) x p then int (array_find a p) else - 1)"
    using iterator_of_item_end [of "arr_comparison a" "arr_vector a" p]
    by (auto simp: array_index_of_item_def array_find_def Let_def)
  then show ?thesis by (auto simp: auto_remove_item_def auto_remove_item_at_def bind_r_assoc Let_def)
qed

lemma array_find_in:
  "\<exists>x \<in> set (arr_vector a). matches (arr_comparison a) x p \<Longrightarrow> array_find a p < length (arr_vector a) \<and>
    matches (arr_comparison a) (arr_vector a ! array_find a p) p"
  using iterator_of_item_end [of "arr_comparison a" "arr_vector a" p] iterator_of_item_le [of "arr_comparison a" "arr_vector a" p]
    iterator_of_item_hit [of "arr_comparison a" "arr_vector a" p] unfolding array_find_def by fastforce

lemma auto_remove_loop_keeps:
  "balanced h (arr_vector a @ w) \<Longrightarrow> heap_room n h \<Longrightarrow>
   \<exists>h'. auto_remove_loop a p h = Inr (a\<lparr>arr_vector := filter (\<lambda>x. \<not> matches (arr_comparison a) x p) (arr_vector a)\<rparr>, h') \<and>
     balanced h' (filter (\<lambda>x. \<not> matches (arr_comparison a) x p) (arr_vector a) @ w) \<and> heap_room n h'"
proof (induction "length (arr_vector a)" arbitrary: a h rule: less_induct)
  case less
  let ?P = "\<lambda>x. \<not> matches (arr_comparison a) x p" and ?xs = "arr_vector a"
  show ?case
  proof (cases "\<exists>x \<in> set ?xs. matches (arr_comparison a) x p")
    case True
    note f = array_find_in [OF True]
    let ?ys = "erase_at ?xs (array_find a p)"
    obtain h1 where h1: "auto_remove_item_at a (int (array_find a p)) h = Inr (a\<lparr>arr_vector := ?ys\<rparr>, h1)"
      "balanced h1 (?ys @ w)" "heap_room n h1"
      using auto_remove_item_at_keeps [OF less.prems, of "int (array_find a p)"] f by auto
    have e: "filter ?P ?ys = filter ?P ?xs" using filter_erase_at [of "array_find a p" ?xs ?P] f by simp
    have "length ?ys < length ?xs" using f length_erase_at [of "array_find a p" ?xs] by linarith
    then obtain h2 where h2: "auto_remove_loop (a\<lparr>arr_vector := ?ys\<rparr>) p h1 = Inr (a\<lparr>arr_vector := filter ?P ?xs\<rparr>, h2)"
      "balanced h2 (filter ?P ?xs @ w)" "heap_room n h2"
      using less.hyps [of "a\<lparr>arr_vector := ?ys\<rparr>" h1] h1(2,3) e by auto
    show ?thesis using h1(1) h2 True by (subst auto_remove_loop.simps) (simp add: auto_remove_item_is)
  next
    case False
    then have "filter ?P ?xs = ?xs" by (simp add: filter_id_conv)
    then show ?thesis using less.prems False by (subst auto_remove_loop.simps) (simp add: auto_remove_item_is)
  qed
qed

lemma auto_op_keeps:
  assumes b: "balanced h (arr_vector a @ w)" and room: "heap_room (Suc n) h" and args: "op_arguments c \<subseteq> set w"
    and l: "list_op (arr_comparison a) c (arr_vector a) = Some ys"
  shows "\<exists>h'. auto_op c (a, h) = Inr (a\<lparr>arr_vector := ys\<rparr>, h') \<and> balanced h' (ys @ w) \<and> heap_room n h'"
proof -
  note room' = heap_room_mono [OF room, of n]
  show ?thesis
  proof (cases c)
    case (Append p)
    obtain h' where h': "retain p h = Inr h'" "balanced h' (p # arr_vector a @ w)" "heap_room n h'"
      using retain_keeps [OF b _ room, of p] args Append by auto
    then have "balanced h' (ys @ w)" using l Append by (subst balanced_mset [of _ "p # arr_vector a @ w"]) auto
    then show ?thesis using h' l Append by (auto simp: auto_add_item_def array_add_item_def)
  next
    case (Remove p)
    show ?thesis
    proof (cases "\<exists>x \<in> set (arr_vector a). matches (arr_comparison a) x p")
      case True
      then show ?thesis using auto_remove_item_at_keeps [OF b room', of "int (array_find a p)"] array_find_in [OF True] l Remove
        by (auto simp: auto_remove_item_is array_find_def)
    next
      case False
      then show ?thesis using b room' l Remove by (auto simp: auto_remove_item_is)
    qed
  next
    case (Remove_All p)
    obtain h1 where h1: "retain p h = Inr h1" "balanced h1 (p # arr_vector a @ w)" "heap_room n h1"
      using retain_keeps [OF b _ room, of p] args Remove_All by auto
    have "balanced h1 (arr_vector a @ p # w)" using h1(2) by (subst balanced_mset [of _ "p # arr_vector a @ w"]) auto
    from auto_remove_loop_keeps [OF this h1(3), of p] obtain h2
      where h2: "auto_remove_loop a p h1 = Inr (a\<lparr>arr_vector := ys\<rparr>, h2)" "balanced h2 (ys @ p # w)" "heap_room n h2"
      using l Remove_All by auto
    have "balanced h2 (p # ys @ w)" using h2(2) by (subst balanced_mset [of _ "ys @ p # w"]) auto
    then show ?thesis using release_keeps [of h2 p "ys @ w" n] h1(1) h2 Remove_All by (auto simp: auto_remove_items_def)
  next
    case Empty
    then show ?thesis using release_list_keeps [OF b room'] l
      by (auto simp: auto_clear_def auto_release_all_def array_clear_def)
  next
    case (Set_At i p)
    then have i: "0 \<le> i" "i < int (length (arr_vector a))" "ys = (arr_vector a)[nat i := p]" using l by (auto split: if_splits)
    let ?rest = "erase_at (arr_vector a) (nat i)"
    have "balanced h (arr_vector a ! nat i # ?rest @ w)"
      using b i mset_erased [of "nat i" "arr_vector a" w] balanced_mset by (metis nat_less_iff)
    from release_keeps [OF this room] obtain h1
      where h1: "release (arr_vector a ! nat i) h = Inr h1" "balanced h1 (?rest @ w)" "heap_room (Suc n) h1" by blast
    obtain h2 where h2: "retain p h1 = Inr h2" "balanced h2 (p # ?rest @ w)" "heap_room n h2"
      using retain_keeps [OF h1(2) _ h1(3), of p] args Set_At by auto
    have "mset (p # ?rest @ w) = mset (ys @ w)"
      using mset_erased [of "nat i" ys w] i by (simp add: erase_at_def)
    then have "balanced h2 (ys @ w)" using h2(2) balanced_mset by blast
    then show ?thesis using h1(1) h2 i Set_At
      by (auto simp: auto_set_item_def array_get_item_def array_set_item_def)
  next
    case (Insert_At i p)
    then have i: "0 \<le> i" "i \<le> int (length (arr_vector a))" "ys = insert_at (arr_vector a) (nat i) p" using l by (auto split: if_splits)
    obtain h' where h': "retain p h = Inr h'" "balanced h' (p # arr_vector a @ w)" "heap_room n h'"
      using retain_keeps [OF b _ room, of p] args Insert_At by auto
    have "balanced h' (ys @ w)" using h'(2) i(3) by (subst balanced_mset [of _ "p # arr_vector a @ w"]) (auto simp: mset_insert_at)
    then show ?thesis using h' i Insert_At by (auto simp: auto_insert_item_def array_insert_item_def)
  next
    case (Remove_At i)
    then show ?thesis using auto_remove_item_at_keeps [OF b room', of i] l by (auto split: if_splits)
  qed
qed

fun auto_ops :: "auto_array_op list \<Rightarrow> auto_array \<times> heap \<Rightarrow> (auto_array \<times> heap) result" where
  "auto_ops [] s = Inr s"
| "auto_ops (c # cs) s = bind_r (auto_op c s) (auto_ops cs)"

lemma auto_ops_keep:
  "balanced h (arr_vector a @ w) \<Longrightarrow> heap_room (length cs) h \<Longrightarrow> (\<Union>c \<in> set cs. op_arguments c) \<subseteq> set w \<Longrightarrow>
   list_ops (arr_comparison a) cs (arr_vector a) = Some ys \<Longrightarrow>
   \<exists>h'. auto_ops cs (a, h) = Inr (a\<lparr>arr_vector := ys\<rparr>, h') \<and> balanced h' (ys @ w)"
proof (induction cs arbitrary: a h)
  case (Cons c cs)
  obtain xs where xs: "list_op (arr_comparison a) c (arr_vector a) = Some xs" "list_ops (arr_comparison a) cs xs = Some ys"
    using Cons.prems(4) by (auto split: option.splits)
  obtain h1 where h1: "auto_op c (a, h) = Inr (a\<lparr>arr_vector := xs\<rparr>, h1)" "balanced h1 (xs @ w)" "heap_room (length cs) h1"
    using auto_op_keeps [OF Cons.prems(1) _ _ xs(1), of "length cs"] Cons.prems(2,3) by auto
  then show ?case using Cons.IH [of h1 "a\<lparr>arr_vector := xs\<rparr>"] Cons.prems(3) xs(2) by auto
qed auto

text \<open>C27: An \<^verbatim>\<open>AutoArray\<close> is a list whose items are references it owns.  Any sequence of its operations with
  arguments that the caller holds does to the items what it would do to a plain list, as long as
  each index is in range; no object is touched after it is deleted, and at the end the
  count of each object is the number of its other owners and of its occurrences in the array; so
  destroying the array then leaves the counts of the other owners.\<close>

theorem auto_array_refines_list:
  assumes "balanced h (arr_vector a @ w)" "heap_room (length cs) h"
    and "(\<Union>c \<in> set cs. op_arguments c) \<subseteq> set w"
    and "list_ops (arr_comparison a) cs (arr_vector a) = Some ys"
  shows "\<exists>a' h' h''. auto_ops cs (a, h) = Inr (a', h') \<and> arr_vector a' = ys \<and> balanced h' (ys @ w) \<and>
    auto_array_destroy a' h' = Inr h'' \<and> balanced h'' w"
proof -
  obtain h' where h': "auto_ops cs (a, h) = Inr (a\<lparr>arr_vector := ys\<rparr>, h')" "balanced h' (ys @ w)"
    using auto_ops_keep [OF assms] by blast
  obtain h'' where "fold_r release ys h' = Inr h''" "balanced h'' w"
  proof -
    have "\<exists>h''. fold_r release ys h' = Inr h'' \<and> balanced h'' w" using h'(2)
    proof (induction ys arbitrary: h')
      case (Cons p ps)
      then show ?case using release_held [of h' p "ps @ w"] by auto
    qed simp
    then show ?thesis using that by blast
  qed
  then show ?thesis using h' by (auto simp: auto_array_destroy_def auto_release_all_def)
qed

definition one_object :: heap where
  "one_object = \<lparr>hp_objects = [Some \<lparr>ob_count = 1, ob_fields = []\<rparr>], hp_vars = []\<rparr>"

lemma one_object_balanced: "balanced one_object [Some 0]"
  by (auto simp: balanced_def one_object_def owners_def fields_own_def refcount_def live_object_def split: option.splits)

theorem auto_array_refines_list_witness:
  "\<exists>a' h'. auto_ops [Append (Some 0), Append (Some 0), Remove (Some 0)]
     (auto_array_new (compare_equality (=)), one_object) = Inr (a', h') \<and>
     arr_vector a' = [Some 0] \<and> balanced h' [Some 0, Some 0]"
proof -
  let ?a = "auto_array_new (compare_equality (=))"
  let ?cs = "[Append (Some 0), Append (Some 0), Remove (Some 0)]"
  have "heap_room (length ?cs) one_object"
    by (auto simp: heap_room_def one_object_def refcount_def live_object_def)
  moreover have "list_ops (arr_comparison ?a) ?cs (arr_vector ?a) = Some [Some 0]"
    by (simp add: auto_array_new_def array_new_def erase_at_def)
  ultimately show ?thesis
    using auto_array_refines_list [of one_object ?a "[Some 0]" ?cs "[Some 0]"] one_object_balanced
    by (auto simp del: auto_ops.simps simp: auto_array_new_def array_new_def)
qed

text \<open>\<^verbatim>\<open>SetItem\<close> releases the item before it retains the new value: with the only reference in
  the array, setting an item to itself uses a deleted object.\<close>

lemma auto_set_item_itself:
  "auto_set_item \<lparr>arr_comparison = cmp, arr_vector = [Some 0]\<rparr> 0 (Some 0) one_object = Inl Undefined"
  by (simp add: auto_set_item_def array_get_item_def array_set_item_def release_def one_object_def live_object_def retain_def)

end
