(* ===== verification/Delegates.thy ===== *)
theory Delegates
  imports List_Guard
begin

text \<open>
  Delegates (\<^verbatim>\<open>include/bricks/core/delegate_internal.h\<close>) and events
  (\<^verbatim>\<open>include/bricks/core/event_internal.h\<close>).  A delegate object is a value with its address,
  as equality falls back on the identity of objects; the types \<^verbatim>\<open>T\<close> of functors and of the classes
  of methods are numbers, and what the code behind a delegate does is a parameter.  The templates
  exist for every number of arguments; here the arguments are one value \<open>'x\<close>.  Debug builds are
  modelled, in which a fatal error is an exception.
\<close>

section \<open>Delegates\<close>

datatype 'v delegate =
    Functor nat nat 'v
  | FunctorPointer nat nat "nat option"
  | Function nat "nat option"
  | MethodFunction nat nat "nat option" "nat option"
  | Delegate nat "'v delegate option"

fun address :: "'v delegate \<Rightarrow> nat" where
  "address (Functor a _ _) = a"
| "address (FunctorPointer a _ _) = a"
| "address (Function a _) = a"
| "address (MethodFunction a _ _ _) = a"
| "address (Delegate a _) = a"

text \<open>The equality of values of each functor type, None for a type without \<^verbatim>\<open>==\<close>.\<close>

type_synonym 'v equalities = "nat \<Rightarrow> ('v \<Rightarrow> 'v \<Rightarrow> bool) option"

definition compare_values :: "'v equalities \<Rightarrow> nat \<Rightarrow> nat \<Rightarrow> 'v \<Rightarrow> nat \<Rightarrow> 'v \<Rightarrow> bool" where
  "compare_values eq t a v b w = (case eq t of Some f \<Rightarrow> f v w | None \<Rightarrow> a = b)"

fun delegate_equal :: "'v equalities \<Rightarrow> 'v delegate \<Rightarrow> 'v delegate \<Rightarrow> bool" where
  "delegate_equal eq (Functor a t v) (Functor b u w) = (if t = u then compare_values eq t a v b w else a = b)"
| "delegate_equal eq (FunctorPointer a t p) (FunctorPointer b u q) = (if t = u then p = q else a = b)"
| "delegate_equal eq (Function a f) (Function b g) = (f = g)"
| "delegate_equal eq (MethodFunction a t p m) (MethodFunction b u q n) = (if t = u then p = q \<and> m = n else a = b)"
| "delegate_equal eq (Delegate a None) (Delegate b None) = True"
| "delegate_equal eq (Delegate a (Some d)) (Delegate b (Some e)) = delegate_equal eq d e"
| "delegate_equal eq (Delegate a None) (Delegate b (Some e)) = False"
| "delegate_equal eq (Delegate a (Some d)) (Delegate b None) = False"
| "delegate_equal eq d e = (address d = address e)"

fun delegate_bool :: "'v delegate \<Rightarrow> bool" where
  "delegate_bool (Delegate a d) \<longleftrightarrow> d \<noteq> None"
| "delegate_bool d \<longleftrightarrow> True"

text \<open>The code behind the delegates: a functor value at its address, a functor behind a pointer, a
  function, a method of an object.\<close>

record ('v, 'x, 'r, 's) callables =
  cl_functor :: "nat \<Rightarrow> nat \<Rightarrow> 'v \<Rightarrow> 'x \<Rightarrow> ('s, 'r) io"
  cl_functor_pointer :: "nat \<Rightarrow> nat \<Rightarrow> 'x \<Rightarrow> ('s, 'r) io"
  cl_function :: "nat \<Rightarrow> 'x \<Rightarrow> ('s, 'r) io"
  cl_method :: "nat \<Rightarrow> nat \<Rightarrow> nat \<Rightarrow> 'x \<Rightarrow> ('s, 'r) io"

fun delegate_call :: "('v, 'x, 'r, 's) callables \<Rightarrow> 'v delegate \<Rightarrow> 'x \<Rightarrow> ('s, 'r) io" where
  "delegate_call cl (Functor a t v) x = cl_functor cl t a v x"
| "delegate_call cl (FunctorPointer a t p) x =
     (case p of None \<Rightarrow> return_w (Inl Undefined) | Some q \<Rightarrow> cl_functor_pointer cl t q x)"
| "delegate_call cl (Function a f) x =
     (case f of None \<Rightarrow> return_w (Inl Undefined) | Some g \<Rightarrow> cl_function cl g x)"
| "delegate_call cl (MethodFunction a t p m) x =
     (case (p, m) of (Some q, Some n) \<Rightarrow> cl_method cl t q n x | _ \<Rightarrow> return_w (Inl Undefined))"
| "delegate_call cl (Delegate a None) x = return_w (throw (InvalidArgumentException ''''))"
| "delegate_call cl (Delegate a (Some d)) x = delegate_call cl d x"

text \<open>The constructors of \<^verbatim>\<open>Delegate\<close>; \<open>a\<close> is the address of the new object and \<open>b\<close> that of the
  one it allocates.\<close>

definition delegate_copy :: "nat \<Rightarrow> 'v delegate option \<Rightarrow> 'v delegate" where
  "delegate_copy a function = Delegate a function"

definition delegate_of_function :: "nat \<Rightarrow> nat \<Rightarrow> nat option \<Rightarrow> 'v delegate" where
  "delegate_of_function a b f = Delegate a (Some (Function b f))"

definition delegate_of_functor :: "nat \<Rightarrow> nat \<Rightarrow> nat \<Rightarrow> 'v \<Rightarrow> 'v delegate" where
  "delegate_of_functor a b t v = Delegate a (Some (Functor b t v))"

definition delegate_of_functor_pointer :: "nat \<Rightarrow> nat \<Rightarrow> nat \<Rightarrow> nat option \<Rightarrow> 'v delegate" where
  "delegate_of_functor_pointer a b t p = Delegate a (Some (FunctorPointer b t p))"

text \<open>\<^verbatim>\<open>autonew T(function)\<close>, the copy of an object of one of the delegate classes.\<close>

fun copy_object :: "nat \<Rightarrow> 'v delegate \<Rightarrow> 'v delegate" where
  "copy_object b (Functor _ t v) = Functor b t v"
| "copy_object b (FunctorPointer _ t p) = FunctorPointer b t p"
| "copy_object b (Function _ f) = Function b f"
| "copy_object b (MethodFunction _ t p m) = MethodFunction b t p m"
| "copy_object b (Delegate _ d) = Delegate b d"

definition delegate_of_object :: "nat \<Rightarrow> nat \<Rightarrow> 'v delegate \<Rightarrow> 'v delegate" where
  "delegate_of_object a b d = Delegate a (Some (copy_object b d))"

definition delegate_of_pointer :: "nat \<Rightarrow> 'v delegate option \<Rightarrow> 'v delegate" where
  "delegate_of_pointer a d = Delegate a d"

definition delegate_of_method :: "nat \<Rightarrow> nat \<Rightarrow> nat \<Rightarrow> nat option \<Rightarrow> nat option \<Rightarrow> 'v delegate" where
  "delegate_of_method a b t p m = Delegate a (Some (MethodFunction b t p m))"

definition delegate_new :: "nat \<Rightarrow> 'v delegate" where
  "delegate_new a = Delegate a None"

text \<open>\<^verbatim>\<open>MethodDelegate\<close>, for a reference, a pointer or a \<^verbatim>\<open>Pointer\<close> to the object.\<close>

definition method_delegate :: "nat \<Rightarrow> nat \<Rightarrow> nat \<Rightarrow> nat option \<Rightarrow> nat option \<Rightarrow> 'v delegate" where
  "method_delegate a b t object function = delegate_of_method a b t object function"

section \<open>Events\<close>

text \<open>A guarded list of delegates; \<^verbatim>\<open>EventItemComparison\<close> compares the delegates by value.\<close>

type_synonym 'v delegate_event = "'v delegate guard"

definition event_compare :: "'v equalities \<Rightarrow> 'v delegate comparison" where
  "event_compare eq v1 v2 = (if address v1 = address v2 \<or> delegate_equal eq v1 v2 then Equal else Less)"

definition event_new :: "'v equalities \<Rightarrow> 'v delegate_event" where
  "event_new eq = guard_new (array_new (event_compare eq))"

definition event_copy :: "'v equalities \<Rightarrow> 'v delegate_event \<Rightarrow> 'v delegate_event" where
  "event_copy eq e = guard_new (array_copy (gs_list e) (Some (event_compare eq)))"

text \<open>\<^verbatim>\<open>operator=\<close> assigns the inner list, past the guard.\<close>

definition event_assign :: "'v equalities \<Rightarrow> 'v delegate_event \<Rightarrow> 'v delegate_event \<Rightarrow> 'v delegate_event" where
  "event_assign eq e source = e\<lparr>gs_list := array_copy (gs_list source) (Some (event_compare eq))\<rparr>"

definition event_add :: "'v delegate_event \<Rightarrow> 'v delegate \<Rightarrow> 'v delegate_event result" where
  "event_add e d = bind_r (guard_add_item e d) (\<lambda>(_, e'). Inr e')"

definition event_add_copy :: "nat \<Rightarrow> 'v delegate_event \<Rightarrow> 'v delegate option \<Rightarrow> 'v delegate_event result" where
  "event_add_copy a e function = event_add e (delegate_copy a function)"

definition event_remove :: "'v delegate_event \<Rightarrow> 'v delegate \<Rightarrow> 'v delegate_event result" where
  "event_remove e d = bind_r (guard_remove_items e d) (\<lambda>(_, e'). Inr e')"

text \<open>\<^verbatim>\<open>operator -=(const Object*)\<close> removes an item whose delegate is a method of the object and
  starts again.\<close>

fun bound_to :: "nat option \<Rightarrow> 'v delegate \<Rightarrow> bool" where
  "bound_to object (Delegate a (Some (MethodFunction b t p m))) \<longleftrightarrow> p = object"
| "bound_to object d \<longleftrightarrow> False"

partial_function (option) event_remove_object :: "'v delegate_event \<Rightarrow> nat option \<Rightarrow> 'v delegate_event result option" where
  "event_remove_object e object =
     (case List.find (bound_to object) (gs_items e) of
        None \<Rightarrow> Some (Inr e)
      | Some item \<Rightarrow>
          (case guard_remove_item e item of
             Inl er \<Rightarrow> Some (Inl er)
           | Inr (_, e') \<Rightarrow> event_remove_object e' object))"

definition event_bool :: "'v delegate_event \<Rightarrow> bool" where
  "event_bool e \<longleftrightarrow> array_get_count (gs_list e) \<noteq> 0"

text \<open>A call runs the delegates with the guarded iterator \<open>i\<close>, which is destroyed at the end of
  the loop, also by an exception.  A delegate may change the event and the rest of the world.\<close>

partial_function (option) event_loop ::
    "('v delegate \<Rightarrow> 'x \<Rightarrow> ('v delegate_event \<times> 's, unit) io) \<Rightarrow> nat \<Rightarrow> 'x \<Rightarrow> 'v delegate_event \<times> 's
       \<Rightarrow> (unit result \<times> 'v delegate_event \<times> 's) option" where
  "event_loop call i x s =
     (case guard_next i (fst s) of
        Inl er \<Rightarrow> Some (Inl er, s)
      | Inr (moved, e1) \<Rightarrow>
          if moved then
            (case guard_current i e1 of
               Inl er \<Rightarrow> Some (Inl er, e1, snd s)
             | Inr d \<Rightarrow>
                 (case call d x (e1, snd s) of
                    (Inl er, s') \<Rightarrow> Some (Inl er, s')
                  | (Inr _, s') \<Rightarrow> event_loop call i x s'))
          else Some (Inr (), e1, snd s))"

definition event_call ::
    "('v delegate \<Rightarrow> 'x \<Rightarrow> ('v delegate_event \<times> 's, unit) io) \<Rightarrow> nat \<Rightarrow> 'x \<Rightarrow> 'v delegate_event \<times> 's
       \<Rightarrow> (unit result \<times> 'v delegate_event \<times> 's) option" where
  "event_call call i x s =
     map_option (\<lambda>(r, e, w). case guard_delete_iterator i e of
         Inl er \<Rightarrow> (Inl er, e, w) | Inr e' \<Rightarrow> (r, e', w))
       (event_loop call i x (guard_get_iterator i (fst s), snd s))"

definition event_is_calling :: "'v delegate_event \<Rightarrow> bool" where
  "event_is_calling e \<longleftrightarrow> gs_iterators e \<noteq> []"

section \<open>Equality\<close>

text \<open>Objects at one address are one object.\<close>

fun delegate_objects :: "'v delegate \<Rightarrow> 'v delegate set" where
  "delegate_objects (Delegate a (Some d)) = insert (Delegate a (Some d)) (delegate_objects d)"
| "delegate_objects d = {d}"

definition addresses_ok :: "'v delegate set \<Rightarrow> bool" where
  "addresses_ok ds \<longleftrightarrow> (\<forall>x \<in> \<Union> (delegate_objects ` ds). \<forall>y \<in> \<Union> (delegate_objects ` ds). address x = address y \<longrightarrow> x = y)"

definition equalities_ok :: "'v equalities \<Rightarrow> bool" where
  "equalities_ok eq \<longleftrightarrow> (\<forall>t f. eq t = Some f \<longrightarrow> reflp f \<and> symp f \<and> transp f)"

lemma delegate_self: "d \<in> delegate_objects d"
  by (cases d rule: delegate_objects.cases) auto

lemma delegate_equal_refl: "equalities_ok eq \<Longrightarrow> delegate_equal eq d d"
proof (induction d)
  case (Delegate a d)
  then show ?case by (cases d) auto
qed (auto simp: compare_values_def equalities_ok_def reflp_def split: option.splits)

lemma delegate_equal_sym: "equalities_ok eq \<Longrightarrow> delegate_equal eq d e \<Longrightarrow> delegate_equal eq e d"
  by (induction eq d e rule: delegate_equal.induct)
     (auto simp: compare_values_def equalities_ok_def symp_def split: option.splits if_splits)

lemma addresses_okD:
  "addresses_ok D \<Longrightarrow> d \<in> D \<Longrightarrow> e \<in> D \<Longrightarrow> x \<in> delegate_objects d \<Longrightarrow> y \<in> delegate_objects e \<Longrightarrow> address x = address y \<Longrightarrow> x = y"
  unfolding addresses_ok_def by blast

lemma same_object: "addresses_ok D \<Longrightarrow> d \<in> D \<Longrightarrow> e \<in> D \<Longrightarrow> address d = address e \<Longrightarrow> d = e"
  using addresses_okD delegate_self by metis

lemma addresses_ok_inner:
  "addresses_ok {Delegate a (Some d), Delegate b (Some e), Delegate c (Some f)} \<Longrightarrow> addresses_ok {d, e, f}"
  unfolding addresses_ok_def by auto

lemma delegate_equal_shape:
  assumes "addresses_ok D" "d \<in> D" "e \<in> D" "delegate_equal eq d e"
  shows "d = e \<or> (\<exists>a t v b w. d = Functor a t v \<and> e = Functor b t w \<and> compare_values eq t a v b w) \<or>
    (\<exists>a b t p. d = FunctorPointer a t p \<and> e = FunctorPointer b t p) \<or>
    (\<exists>a b f. d = Function a f \<and> e = Function b f) \<or>
    (\<exists>a b t p m. d = MethodFunction a t p m \<and> e = MethodFunction b t p m) \<or>
    (\<exists>a b. d = Delegate a None \<and> e = Delegate b None) \<or>
    (\<exists>a b x y. d = Delegate a (Some x) \<and> e = Delegate b (Some y) \<and> delegate_equal eq x y)"
proof (cases "address d = address e")
  case True
  then show ?thesis using same_object [OF assms(1-3)] by simp
next
  case False
  then show ?thesis using assms(4) by (cases "(eq, d, e)" rule: delegate_equal.cases) (auto split: if_splits)
qed

lemma delegate_equal_trans:
  "equalities_ok eq \<Longrightarrow> addresses_ok {d, e, f} \<Longrightarrow> delegate_equal eq d e \<Longrightarrow> delegate_equal eq e f \<Longrightarrow> delegate_equal eq d f"
proof (induction d arbitrary: e f)
  case (Functor a t v)
  have "compare_values eq t a v c x" if "compare_values eq t a v b w" "compare_values eq t b w c x" for b w c x
    using that Functor.prems(1) by (auto simp: compare_values_def equalities_ok_def transp_def split: option.splits) blast
  then show ?case
    using delegate_equal_shape [OF Functor.prems(2) _ _ Functor.prems(3)] delegate_equal_shape [OF Functor.prems(2) _ _ Functor.prems(4)]
      Functor.prems(3,4) by auto
next
  case (Delegate a k)
  show ?case
  proof (cases k)
    case None
    then show ?thesis
      using delegate_equal_shape [OF Delegate.prems(2) _ _ Delegate.prems(3)] delegate_equal_shape [OF Delegate.prems(2) _ _ Delegate.prems(4)]
        Delegate.prems(3,4) by auto
  next
    case (Some d)
    consider "e = Delegate a k" | b y where "e = Delegate b (Some y)" "delegate_equal eq d y"
      using delegate_equal_shape [OF Delegate.prems(2) _ _ Delegate.prems(3)] Some by auto
    then show ?thesis
    proof cases
      case (2 b y)
      consider "f = e" | c z where "f = Delegate c (Some z)" "delegate_equal eq y z"
        using delegate_equal_shape [OF Delegate.prems(2) _ _ Delegate.prems(4)] 2 by auto
      then show ?thesis
      proof cases
        case (2 c z)
        have "delegate_equal eq d z"
          by (rule Delegate.IH [OF _ Delegate.prems(1) addresses_ok_inner])
            (use Delegate.prems(2) Some 2 \<open>e = Delegate b (Some y)\<close> \<open>delegate_equal eq d y\<close> in auto)
        then show ?thesis using Some 2 by simp
      qed (use Delegate.prems(3) in simp)
    qed (use Delegate.prems(4) in simp)
  qed
next
  case (FunctorPointer a t p)
  then show ?case using delegate_equal_shape [OF FunctorPointer.prems(2) _ _ FunctorPointer.prems(3)] delegate_equal_shape [OF FunctorPointer.prems(2) _ _ FunctorPointer.prems(4)]
    by auto
next
  case (Function a g)
  then show ?case using delegate_equal_shape [OF Function.prems(2) _ _ Function.prems(3)] delegate_equal_shape [OF Function.prems(2) _ _ Function.prems(4)]
    by auto
next
  case (MethodFunction a t p m)
  then show ?case using delegate_equal_shape [OF MethodFunction.prems(2) _ _ MethodFunction.prems(3)] delegate_equal_shape [OF MethodFunction.prems(2) _ _ MethodFunction.prems(4)]
    by auto
qed

text \<open>Equal delegates do the same, if functors of equal value do.\<close>

lemma delegate_equal_call:
  assumes "\<And>t a w b u x. (case eq t of Some f \<Rightarrow> f w u | None \<Rightarrow> a = b \<and> w = u) \<Longrightarrow> cl_functor cl t a w x = cl_functor cl t b u x"
  shows "addresses_ok {d, e} \<Longrightarrow> delegate_equal eq d e \<Longrightarrow> delegate_call cl d x = delegate_call cl e x"
proof (induction d arbitrary: e)
  case (Functor a t v)
  consider "e = Functor a t v" | b w where "e = Functor b t w" "compare_values eq t a v b w"
    using delegate_equal_shape [OF Functor.prems(1) _ _ Functor.prems(2)] by auto
  then show ?case
  proof cases
    case (2 b w)
    have "v = w" if "eq t = None"
      using 2 that same_object [OF Functor.prems(1), of "Functor a t v" e] by (auto simp: compare_values_def)
    then show ?thesis using 2 assms [where t = t and a = a and w = v and b = b and u = w and x = x] by (cases "eq t") (auto simp: compare_values_def)
  qed simp
next
  case (Delegate a k)
  consider "e = Delegate a k" | b where "k = None" "e = Delegate b None"
    | b d y where "k = Some d" "e = Delegate b (Some y)" "delegate_equal eq d y"
    using delegate_equal_shape [OF Delegate.prems(1) _ _ Delegate.prems(2)] by auto
  then show ?case
  proof cases
    case (3 b d y)
    have "addresses_ok {d, y}" using Delegate.prems(1) 3 by (auto simp: addresses_ok_def)
    then show ?thesis using Delegate.IH [of d y] 3 by simp
  qed simp_all
next
  case (FunctorPointer a t p)
  then show ?case using delegate_equal_shape [OF FunctorPointer.prems(1) _ _ FunctorPointer.prems(2)]
    by auto
next
  case (Function a g)
  then show ?case using delegate_equal_shape [OF Function.prems(1) _ _ Function.prems(2)]
    by auto
next
  case (MethodFunction a t p m)
  then show ?case using delegate_equal_shape [OF MethodFunction.prems(1) _ _ MethodFunction.prems(2)]
    by auto
qed

lemma bound_to_equal:
  assumes "addresses_ok D" "x \<in> D" "d \<in> D" "matches (event_compare eq) x d" "bound_to object d"
  shows "bound_to object x"
proof -
  obtain a b t p m where d: "d = Delegate a (Some (MethodFunction b t p m))" "p = object"
    using assms(5) by (cases "(object, d)" rule: bound_to.cases) auto
  show ?thesis
  proof (cases "address x = address d")
    case True
    then show ?thesis using addresses_okD [OF assms(1-3) delegate_self delegate_self] assms(5) by simp
  next
    case False
    then have e: "delegate_equal eq x d" using assms(4) by (auto simp: matches_def event_compare_def split: if_splits)
    then obtain a' y where x: "x = Delegate a' (Some y)" "delegate_equal eq y (MethodFunction b t p m)"
      using d False by (cases "(eq, x, d)" rule: delegate_equal.cases) auto
    show ?thesis
    proof (cases y)
      case (MethodFunction b' u q n)
      then have "b = b' \<Longrightarrow> y = MethodFunction b t p m"
        using addresses_okD [OF assms(1-3), of y "MethodFunction b t p m"] x d(1) by auto
      then show ?thesis using x d(2) MethodFunction by (auto split: if_splits)
    qed (use x d addresses_okD [OF assms(1-3), of y "MethodFunction b t p m"] delegate_self [of y] in auto)
  qed
qed

section \<open>Removing the methods of an object\<close>

text \<open>A guard whose registered iterators are all at an item can always be changed.\<close>

definition guard_ready :: "'a guard \<Rightarrow> bool" where
  "guard_ready s \<longleftrightarrow> distinct (gs_iterators s) \<and> (\<forall>i \<in> set (gs_iterators s). guard_iterating i s)"

lemma notify_runs:
  "distinct is \<Longrightarrow> \<forall>i \<in> set is. \<exists>it. gs_object s i = Some it \<and> guard_started (gs_items s) it \<Longrightarrow> \<exists>s'. notify is s = Inr s'"
proof (induction "is" arbitrary: s)
  case (Cons i "is")
  obtain it where it: "gs_object s i = Some it" "guard_started (gs_items s) it" using Cons.prems(2) by auto
  obtain it' where it': "list_changed (gs_items s) it = Inr it'" using list_changed_started [OF it(2)] by blast
  have "\<exists>s'. notify is (s\<lparr>gs_object := (gs_object s)(i \<mapsto> it')\<rparr>) = Inr s'"
    by (rule Cons.IH) (use Cons.prems in auto)
  then show ?case using it it' by simp
qed simp

lemma with_guard_runs:
  assumes "guard_ready s" "change (gs_list s) = Inr (r, l)"
  shows "\<exists>s'. with_guard s change = Inr (r, s') \<and> guard_ready s' \<and> gs_list s' = l"
proof -
  have "\<exists>s1. notify (gs_iterators s) s = Inr s1"
    by (rule notify_runs) (use assms(1) in \<open>auto simp: guard_ready_def guard_iterating_def\<close>)
  then obtain s1 where s1: "notify (gs_iterators s) s = Inr s1" by blast
  let ?s = "s1\<lparr>gs_list := l\<rparr>"
  have w: "with_guard s change = Inr (r, ?s)"
    using s1 notify_frame [OF s1] assms(2) by (simp add: with_guard_def guard_iterators_def)
  have "guard_iterating i ?s" if "i \<in> set (gs_iterators s)" for i
    using with_guard_view [OF _ w] assms(1) that by (simp add: guard_ready_def)
  then have "guard_ready ?s" using notify_frame [OF s1] assms(1) by (simp add: guard_ready_def)
  then show ?thesis using w by simp
qed

lemma event_remove_object_result:
  "guard_ready e \<Longrightarrow> arr_comparison (gs_list e) = event_compare eq \<Longrightarrow> addresses_ok (set (gs_items e)) \<Longrightarrow>
   \<exists>e'. event_remove_object e object = Some (Inr e') \<and> guard_ready e' \<and>
     gs_items e' = filter (\<lambda>d. \<not> bound_to object d) (gs_items e)"
proof (induction "length (gs_items e)" arbitrary: e rule: less_induct)
  case less
  let ?xs = "gs_items e" and ?P = "\<lambda>d. \<not> bound_to object d"
  show ?case
  proof (cases "List.find (bound_to object) ?xs")
    case None
    then have "filter ?P ?xs = ?xs" by (auto simp: find_None_iff filter_id_conv)
    then show ?thesis using None less.prems(1) by (subst event_remove_object.simps) simp
  next
    case (Some d)
    then have d: "d \<in> set ?xs" "bound_to object d" by (auto simp: find_Some_iff)
    let ?k = "array_find (gs_list e) d"
    have m: "matches (arr_comparison (gs_list e)) d d" by (simp add: less.prems(2) matches_def event_compare_def)
    then have k: "?k < length ?xs" "matches (event_compare eq) (?xs ! ?k) d"
      using iterator_of_item_end [of "arr_comparison (gs_list e)" ?xs d] iterator_of_item_le [of "arr_comparison (gs_list e)" ?xs d]
        iterator_of_item_hit [of "arr_comparison (gs_list e)" ?xs d] d(1) less.prems(2)
      unfolding array_find_def by (metis le_neq_implies_less)+
    have bound: "bound_to object (?xs ! ?k)"
      using bound_to_equal [OF less.prems(3) _ d(1) k(2) d(2)] k(1) by simp
    let ?l = "(gs_list e)\<lparr>arr_vector := erase_at ?xs ?k\<rparr>"
    obtain e1 where e1: "guard_remove_item e d = Inr (True, e1)" "guard_ready e1" "gs_list e1 = ?l"
      using with_guard_runs [OF less.prems(1), of "\<lambda>l. Inr (array_remove_item l d)" True ?l] k(1)
      by (auto simp: guard_remove_item_def array_remove_item_def)
    have sub: "set (gs_items e1) \<subseteq> set ?xs" using e1(3) set_take_subset set_drop_subset by (fastforce simp: erase_at_def)
    then have "addresses_ok (set (gs_items e1))" using less.prems(3) unfolding addresses_ok_def by blast
    moreover have "length (gs_items e1) < length ?xs" using e1(3) length_erase_at [OF k(1)] k(1) by simp
    ultimately obtain e' where e': "event_remove_object e1 object = Some (Inr e')" "guard_ready e'"
      "gs_items e' = filter ?P (gs_items e1)"
      using less.hyps [of e1] e1(2,3) less.prems(2) by auto
    have "filter ?P (gs_items e1) = filter ?P ?xs" using filter_erase_at [OF k(1), of ?P] bound e1(3) by simp
    then show ?thesis using Some e1(1) e' by (subst event_remove_object.simps) simp
  qed
qed

text \<open>\<^verbatim>\<open>event -= object\<close> ends and removes exactly the handlers that are methods of the object,
  keeping the others in order, also while calls of the event are running, whatever equalities the
  functor types have.\<close>

theorem event_remove_object_exact:
  assumes "guard_ready e" "arr_comparison (gs_list e) = event_compare eq" "addresses_ok (set (gs_items e))"
  shows "\<exists>e'. event_remove_object e object = Some (Inr e') \<and> guard_ready e' \<and>
    gs_items e' = filter (\<lambda>d. \<not> bound_to object d) (gs_items e)"
  using assms by (rule event_remove_object_result)

definition two_methods :: "nat delegate_event" where
  "two_methods = (event_new (\<lambda>_. None))\<lparr>gs_list := (gs_list (event_new (\<lambda>_. None)))\<lparr>arr_vector :=
     [delegate_of_method 1 2 0 (Some 7) (Some 0), delegate_of_method 3 4 0 (Some 8) (Some 0),
      delegate_of_method 5 6 0 (Some 7) (Some 1)]\<rparr>\<rparr>"

theorem event_remove_object_exact_witness:
  "\<exists>e'. event_remove_object two_methods (Some 7) = Some (Inr e') \<and> gs_items e' = [delegate_of_method 3 4 0 (Some 8) (Some 0)]"
  using event_remove_object_exact [of two_methods "\<lambda>_. None" "Some 7"]
  by (auto simp: guard_ready_def two_methods_def event_new_def guard_new_def array_new_def addresses_ok_def delegate_of_method_def)

section \<open>Calling an event\<close>

lemma event_loop_calls:
  assumes calls: "\<And>d e w. \<exists>cs e' w'. call d x (e, w) = (Inr (), e', w') \<and> guard_changes cs e = Inr e' \<and> log w' = log w @ [d]"
  shows "guard_iterating i e \<Longrightarrow> guard_view i e = Some (c, rest) \<Longrightarrow>
    \<exists>e' w'. event_loop call i x (e, w) = Some (Inr (), e', w') \<and> log w' = log w @ rest \<and>
      i \<notin> set (gs_iterators e') \<and> (\<exists>it. gs_object e' i = Some it \<and> \<not> gi_attached it)"
proof (induction rest arbitrary: e w c)
  case Nil
  obtain it where it: "gs_object e i = Some it" "guard_started (gs_items e) it" "distinct (gs_iterators e)"
    using Nil.prems(1) by (auto simp: guard_iterating_def)
  obtain e1 where e1: "guard_next i e = Inr (False, e1)" using guard_next_end [OF Nil.prems] by blast
  have "gi_attached it" using it(2) by (simp add: guard_started_def)
  then have "i \<notin> set (gs_iterators e1) \<and> (\<exists>it. gs_object e1 i = Some it \<and> \<not> gi_attached it)"
    using e1 it(1,3) by (auto simp: guard_next_def guard_move_next_def iterator_unregister_def Let_def split: prod.splits if_splits)
  then show ?case using e1 by (subst event_loop.simps) simp
next
  case (Cons d ds)
  obtain e1 where e1: "guard_next i e = Inr (True, e1)" "guard_iterating i e1" "guard_view i e1 = Some (Inr d, ds)"
    using guard_next_view [OF Cons.prems] by blast
  have cur: "guard_current i e1 = Inr d"
    using e1(3) by (auto simp: guard_view_def guard_current_def split: option.splits)
  obtain cs e2 w2 where e2: "call d x (e1, w) = (Inr (), e2, w2)" "guard_changes cs e1 = Inr e2" "log w2 = log w @ [d]"
    using calls by metis
  have "guard_iterating i e2 \<and> guard_view i e2 = Some (Inr d, ds)"
    using guard_changes_view [OF e1(2) e2(2)] e1(3) by simp
  then obtain e' w' where "event_loop call i x (e2, w2) = Some (Inr (), e', w')" "log w' = log w2 @ ds"
    "i \<notin> set (gs_iterators e')" "\<exists>it. gs_object e' i = Some it \<and> \<not> gi_attached it"
    using Cons.IH by blast
  then show ?case using e1(1) cur e2(1,3) by (subst event_loop.simps) simp
qed

lemma guard_first:
  assumes "i \<notin> set (gs_iterators e)" "distinct (gs_iterators e)"
  shows "case gs_items e of
      [] \<Rightarrow> \<exists>e1. guard_next i (guard_get_iterator i e) = Inr (False, e1) \<and> i \<notin> set (gs_iterators e1) \<and>
        (\<exists>it. gs_object e1 i = Some it \<and> \<not> gi_attached it)
    | d # ds \<Rightarrow> \<exists>e1. guard_next i (guard_get_iterator i e) = Inr (True, e1) \<and> guard_iterating i e1 \<and>
        guard_view i e1 = Some (Inr d, ds)"
  using assms
  by (auto simp: guard_get_iterator_def iterator_register_def guard_next_def guard_move_next_def guard_iterator_new_def
      pos_iterator_new_def pos_move_next_def iterator_unregister_def guard_iterating_def guard_view_def guard_started_def
      pos_inside_def guard_get_current_def pos_get_current_def peek_def guard_rest_def pos_rest_def split: list.splits)

text \<open>C28: A call of an event ends and runs each delegate that the event held when the call began,
  once and in order, whatever changes the delegates make to the event meanwhile by adding, removing,
  replacing or clearing; after it the iterator of the call is gone.\<close>

theorem event_calls_snapshot:
  assumes "i \<notin> set (gs_iterators e)" "distinct (gs_iterators e)"
    and calls: "\<And>d e w. \<exists>cs e' w'. call d x (e, w) = (Inr (), e', w') \<and> guard_changes cs e = Inr e' \<and> log w' = log w @ [d]"
  shows "\<exists>e' w'. event_call call i x (e, w) = Some (Inr (), e', w') \<and> log w' = log w @ gs_items e \<and>
    i \<notin> set (gs_iterators e') \<and> gs_object e' i = None"
proof -
  let ?e = "guard_get_iterator i e"
  obtain e' w' where e': "event_loop call i x (?e, w) = Some (Inr (), e', w')" "log w' = log w @ gs_items e"
    "i \<notin> set (gs_iterators e')" "\<exists>it. gs_object e' i = Some it \<and> \<not> gi_attached it"
  proof (cases "gs_items e")
    case Nil
    obtain e1 where e1: "guard_next i ?e = Inr (False, e1)" "i \<notin> set (gs_iterators e1)"
      "\<exists>it. gs_object e1 i = Some it \<and> \<not> gi_attached it"
      using guard_first [OF assms(1,2)] Nil by auto
    then have "event_loop call i x (?e, w) = Some (Inr (), e1, w)" by (subst event_loop.simps) simp
    then show ?thesis using that e1(2,3) Nil by simp
  next
    case (Cons d ds)
    obtain e1 where e1: "guard_next i ?e = Inr (True, e1)" "guard_iterating i e1" "guard_view i e1 = Some (Inr d, ds)"
      using guard_first [OF assms(1,2)] Cons by auto
    have cur: "guard_current i e1 = Inr d"
      using e1(3) by (auto simp: guard_view_def guard_current_def split: option.splits)
    obtain cs e2 w2 where e2: "call d x (e1, w) = (Inr (), e2, w2)" "guard_changes cs e1 = Inr e2" "log w2 = log w @ [d]"
      using calls by metis
    have v: "guard_iterating i e2" "guard_view i e2 = Some (Inr d, ds)"
      using guard_changes_view [OF e1(2) e2(2)] e1(3) by simp_all
    have "event_loop call i x (?e, w) = event_loop call i x (e2, w2)"
      using e1(1) cur e2(1) by (subst event_loop.simps) simp
    moreover obtain e' w' where "event_loop call i x (e2, w2) = Some (Inr (), e', w')" "log w' = log w2 @ ds"
      "i \<notin> set (gs_iterators e')" "\<exists>it. gs_object e' i = Some it \<and> \<not> gi_attached it"
      using event_loop_calls [where call = call and log = log and w = w2, OF calls v] by blast
    ultimately show ?thesis using that e2(3) Cons by simp
  qed
  then show ?thesis by (auto simp: event_call_def guard_delete_iterator_def)
qed

text \<open>A delegate that clears the event and writes itself down.\<close>

definition clear_and_log :: "nat delegate \<Rightarrow> unit \<Rightarrow> (nat delegate_event \<times> nat delegate list, unit) io" where
  "clear_and_log d x s =
     (case guard_change Clear (fst s) of
        Inl _ \<Rightarrow> (Inr (), fst s, snd s @ [d]) | Inr e \<Rightarrow> (Inr (), e, snd s @ [d]))"

theorem event_calls_snapshot_witness:
  "\<exists>e'. event_call clear_and_log 0 () (two_methods, []) = Some (Inr (), e', gs_items two_methods)"
proof -
  have "\<exists>cs e' w'. clear_and_log d () (e, w) = (Inr (), e', w') \<and> guard_changes cs e = Inr e' \<and> id w' = id w @ [d]" for d e w
  proof (cases "guard_change Clear e")
    case (Inl er)
    then show ?thesis by (intro exI [of _ "[]"]) (simp add: clear_and_log_def)
  next
    case (Inr e')
    then show ?thesis by (intro exI [of _ "[Clear]"]) (simp add: clear_and_log_def del: guard_change.simps)
  qed
  from event_calls_snapshot [where call = clear_and_log and log = id and i = 0 and x = "()" and e = two_methods and w = "[]", OF _ _ this]
  show ?thesis by (auto simp: two_methods_def event_new_def guard_new_def)
qed

text \<open>An exception of a delegate ends the call; the delegates after it do not run.\<close>

lemma event_call_stops:
  assumes "i \<notin> set (gs_iterators e)" "distinct (gs_iterators e)" "gs_items e = d # ds"
    and "\<And>e'. call d x (e', w) = (Inl er, e', w)"
  shows "\<exists>e'. event_call call i x (e, w) = Some (Inl er, e', w) \<and> i \<notin> set (gs_iterators e')"
proof -
  obtain e1 where e1: "guard_next i (guard_get_iterator i e) = Inr (True, e1)" "guard_iterating i e1"
    "guard_view i e1 = Some (Inr d, ds)"
    using guard_first [OF assms(1,2)] assms(3) by auto
  have cur: "guard_current i e1 = Inr d"
    using e1(3) by (auto simp: guard_view_def guard_current_def split: option.splits)
  obtain it where it: "gs_object e1 i = Some it" "gi_attached it" "distinct (gs_iterators e1)"
    using e1(2) by (auto simp: guard_iterating_def guard_started_def)
  have "event_loop call i x (guard_get_iterator i e, w) = Some (Inl er, e1, w)"
    using e1(1) cur assms(4) by (subst event_loop.simps) simp
  then show ?thesis using it by (auto simp: event_call_def guard_delete_iterator_def iterator_unregister_def)
qed

text \<open>An assignment during a call does not reach the iterators: after it the call reads past the
  shorter list.\<close>

definition assign_empty :: "nat delegate \<Rightarrow> unit \<Rightarrow> (nat delegate_event \<times> unit, unit) io" where
  "assign_empty d x s = (Inr (), event_assign (\<lambda>_. None) (fst s) (event_new (\<lambda>_. None)), ())"

lemma event_assign_during_call:
  "\<exists>s. event_call assign_empty 0 () (two_methods, ()) = Some (Inl Undefined, s)"
  by (simp add: event_call_def event_loop.simps two_methods_def event_new_def guard_new_def array_new_def
      guard_get_iterator_def iterator_register_def guard_next_def guard_move_next_def guard_iterator_new_def
      pos_iterator_new_def pos_move_next_def guard_current_def guard_get_current_def pos_get_current_def peek_def
      assign_empty_def event_assign_def array_copy_def guard_delete_iterator_def)

end
