(* ===== verification/Endian.thy ===== *)
theory Endian
  imports Prelude
begin

text \<open>
  Byte orders (\<^verbatim>\<open>include/bricks/io/endian.h\<close>).  The host's byte order is the argument \<open>host\<close>,
  true for little endian.  An integer in memory is the list of its bytes in the host's order;
  the conversions swap the integer where the order asked for is not the host's.  Stated on
  bytes, the stored form does not depend on the host.
\<close>

section \<open>Integers in memory\<close>

text \<open>The bytes of a word, least significant first.\<close>

definition bytes_le :: "nat \<Rightarrow> 'a::len word \<Rightarrow> bytes" where
  "bytes_le n w = map (\<lambda>i. ucast (drop_bit (8 * i) w)) [0..<n]"

fun word_le :: "bytes \<Rightarrow> 'a::len word" where
  "word_le [] = 0"
| "word_le (b # bs) = ucast b OR push_bit 8 (word_le bs)"

definition store_native :: "bool \<Rightarrow> nat \<Rightarrow> 'a::len word \<Rightarrow> bytes" where
  "store_native host n w = (if host then bytes_le n w else rev (bytes_le n w))"

definition load_native :: "bool \<Rightarrow> bytes \<Rightarrow> 'a::len word" where
  "load_native host bs = (if host then word_le bs else word_le (rev bs))"

section \<open>Swapping\<close>

definition swap16 :: "u16 \<Rightarrow> u16" where
  "swap16 num = push_bit 8 num OR drop_bit 8 num"

definition swap32 :: "u32 \<Rightarrow> u32" where
  "swap32 num = ((drop_bit 24 num OR drop_bit 8 (num AND 0x00ff0000)) OR
                 push_bit 8 (num AND 0x0000ff00)) OR push_bit 24 num"

definition swap64 :: "u64 \<Rightarrow> u64" where
  "swap64 num = push_bit 32 (ucast (swap32 (ucast (num AND 0xffffffff))) :: u64) OR
                ucast (swap32 (ucast (drop_bit 32 num)))"

section \<open>Conversions\<close>

datatype endian = Unknown | Native | BigEndian | LittleEndian

text \<open>The conversions between a value and its stored form are the same function both ways.\<close>

definition endian_convert_be :: "('w \<Rightarrow> 'w) \<Rightarrow> bool \<Rightarrow> 'w \<Rightarrow> 'w" where
  "endian_convert_be swap host w = (if \<not> host then w else swap w)"

definition endian_convert_le :: "('w \<Rightarrow> 'w) \<Rightarrow> bool \<Rightarrow> 'w \<Rightarrow> 'w" where
  "endian_convert_le swap host w = (if host then w else swap w)"

definition endian_convert :: "('w \<Rightarrow> 'w) \<Rightarrow> bool \<Rightarrow> endian \<Rightarrow> 'w \<Rightarrow> 'w result" where
  "endian_convert swap host e w =
     (if e = BigEndian \<or> (e = Native \<and> \<not> host) then Inr (endian_convert_be swap host w)
      else if e = LittleEndian \<or> (e = Native \<and> host) then Inr (endian_convert_le swap host w)
      else throw (InvalidArgumentException ''''))"

definition endian_read :: "('w::len word \<Rightarrow> 'w word) \<Rightarrow> bool \<Rightarrow> endian \<Rightarrow> bytes \<Rightarrow> 'w word result" where
  "endian_read swap host e data = endian_convert swap host e (load_native host data)"

definition endian_write ::
    "('w::len word \<Rightarrow> 'w word) \<Rightarrow> bool \<Rightarrow> endian \<Rightarrow> nat \<Rightarrow> 'w word \<Rightarrow> bytes result" where
  "endian_write swap host e n w =
     bind_r (endian_convert swap host e w) (\<lambda>v. Inr (store_native host n v))"

section \<open>Lemmas\<close>

lemma length_bytes_le [simp]: "length (bytes_le n w) = n"
  by (simp add: bytes_le_def)

lemma length_store_native [simp]: "length (store_native host n w) = n"
  by (simp add: store_native_def)

lemma bit_word_le: "bit (word_le bs :: 'a::len word) k \<longleftrightarrow>
   k < LENGTH('a) \<and> k < 8 * length bs \<and> bit (bs ! (k div 8)) (k mod 8)"
proof (induction bs arbitrary: k)
  case (Cons b bs)
  show ?case
  proof (cases "k < 8")
    case True
    then show ?thesis by (auto simp: bit_or_iff bit_push_bit_iff bit_ucast_iff)
  next
    case False
    then have "k div 8 = Suc ((k - 8) div 8)" "k mod 8 = (k - 8) mod 8"
      by (simp_all add: le_div_geq le_mod_geq)
    moreover have "\<not> bit b k" using False by (auto dest: bit_imp_le_length)
    ultimately show ?thesis using False Cons.IH [of "k - 8"]
      by (auto simp: bit_or_iff bit_push_bit_iff bit_ucast_iff)
  qed
qed simp

lemma bit_bytes_le:
  "i < n \<Longrightarrow> bit (bytes_le n w ! i) j \<longleftrightarrow> j < 8 \<and> bit w (8 * i + j)"
  by (auto simp: bytes_le_def bit_ucast_iff bit_drop_bit_eq)

lemma word_bytes_le:
  "LENGTH('a) = 8 * n \<Longrightarrow> word_le (bytes_le n (w :: 'a::len word)) = w"
proof -
  assume n: "LENGTH('a) = 8 * n"
  have "8 * (k div 8) + k mod 8 = k" for k :: nat by simp
  then show ?thesis
    by (intro bit_eqI) (auto simp: bit_word_le n bit_bytes_le less_mult_imp_div_less mult.commute)
qed

lemma bytes_word_le:
  "LENGTH('a) = 8 * length bs \<Longrightarrow> bytes_le (length bs) (word_le bs :: 'a::len word) = bs"
proof (rule nth_equalityI)
  assume n: "LENGTH('a) = 8 * length bs"
  fix i assume "i < length (bytes_le (length bs) (word_le bs :: 'a word))"
  then have i: "i < length bs" by simp
  show "bytes_le (length bs) (word_le bs :: 'a word) ! i = bs ! i"
  proof (rule bit_eqI)
    fix j assume "possible_bit TYPE(8 word) j"
    then have j: "j < 8" by (simp add: possible_bit_word)
    then have "(8 * i + j) div 8 = i" "(8 * i + j) mod 8 = j" by simp_all
    then show "bit (bytes_le (length bs) (word_le bs :: 'a word) ! i) j = bit (bs ! i) j"
      using i j by (auto simp: bit_bytes_le bit_word_le n)
  qed
qed simp

lemma load_store_native:
  "LENGTH('a) = 8 * n \<Longrightarrow> load_native host (store_native host n (w :: 'a::len word)) = w"
  by (simp add: load_native_def store_native_def word_bytes_le)

lemma store_load_native:
  "LENGTH('a) = 8 * length bs \<Longrightarrow>
   store_native host (length bs) (load_native host bs :: 'a::len word) = bs"
  using bytes_word_le [of "rev bs", where 'a = 'a] bytes_word_le [of bs, where 'a = 'a]
  by (simp add: load_native_def store_native_def)

text \<open>Swapping reverses the bytes.\<close>

lemma bytes_swap16: "bytes_le 2 (swap16 w) = rev (bytes_le 2 w)"
  by (simp add: bytes_le_def swap16_def upt_rec u8_eq_iff all_less_8 bit_simps)

lemma bytes_swap32: "bytes_le 4 (swap32 w) = rev (bytes_le 4 w)"
  by (simp add: bytes_le_def swap32_def upt_rec u8_eq_iff all_less_8 bit_simps)

lemma bit_swap32:
  "bit (swap32 w) k \<longleftrightarrow> k < 32 \<and> bit w (8 * (3 - k div 8) + k mod 8)"
proof (cases "k < 32")
  case True
  then have d: "k div 8 < 4" by (simp add: less_mult_imp_div_less)
  have "bit (bytes_le 4 (swap32 w) ! (k div 8)) (k mod 8) \<longleftrightarrow> bit (rev (bytes_le 4 w) ! (k div 8)) (k mod 8)"
    by (simp add: bytes_swap32)
  moreover have "rev (bytes_le 4 w) ! (k div 8) = bytes_le 4 w ! (3 - k div 8)"
    using d by (simp add: rev_nth)
  moreover have "3 - k div 8 < 4" by simp
  ultimately show ?thesis using d True by (simp only: bit_bytes_le) simp
next
  case False
  then show ?thesis using bit_imp_le_length [of "swap32 w" k] by auto
qed

lemma bytes_swap64: "bytes_le 8 (swap64 w) = rev (bytes_le 8 w)"
proof (rule nth_equalityI)
  fix i assume "i < length (bytes_le 8 (swap64 w))"
  then have i: "i < 8" by simp
  have mask: "(0xffffffff :: u64) = mask 32" by (simp add: mask_eq_exp_minus_1)
  have m: "((8 * i + j) div 8) = i \<and> (8 * i + j) mod 8 = j \<and>
       (i \<ge> 4 \<longrightarrow> (8 * i + j - 32) div 8 = i - 4 \<and> (8 * i + j - 32) mod 8 = j)" if "j < 8" for j
  proof -
    have "8 * i + j - 32 = 8 * (i - 4) + j" if "i \<ge> 4" using that by simp
    then show ?thesis using that \<open>j < 8\<close> by auto
  qed
  have "bit (bytes_le 8 (swap64 w) ! i) j = bit (rev (bytes_le 8 w) ! i) j" if j: "j < 8" for j
  proof (cases "4 \<le> i")
    case True
    have "bit (bytes_le 8 (swap64 w) ! i) j \<longleftrightarrow> bit w (8 * (3 - (i - 4)) + j)"
      using i j True m [OF j]
      by (auto simp: bit_bytes_le swap64_def bit_or_iff bit_push_bit_iff bit_ucast_iff bit_swap32
          bit_and_iff bit_drop_bit_eq mask bit_mask_iff)
    then show ?thesis using i j True by (simp add: rev_nth bit_bytes_le)
  next
    case False
    have "bit (bytes_le 8 (swap64 w) ! i) j \<longleftrightarrow> bit w (32 + (8 * (3 - i) + j))"
      using i j False m [OF j]
      by (auto simp: bit_bytes_le swap64_def bit_or_iff bit_push_bit_iff bit_ucast_iff bit_swap32
          bit_drop_bit_eq)
    moreover have "32 + (8 * (3 - i) + j) = 8 * (7 - i) + j" using False by simp
    ultimately show ?thesis using i j by (simp add: rev_nth bit_bytes_le)
  qed
  then show "bytes_le 8 (swap64 w) ! i = rev (bytes_le 8 w) ! i" by (simp add: u8_eq_iff)
qed simp

section \<open>The contract of a byte swap\<close>

locale byte_swap =
  fixes swap :: "'w::len word \<Rightarrow> 'w word" and n :: nat
  assumes width: "LENGTH('w) = 8 * n"
    and bytes_swap: "bytes_le n (swap w) = rev (bytes_le n w)"
begin

lemma swap_swap: "swap (swap w) = w"
  using word_bytes_le [OF width, of "swap (swap w)"] word_bytes_le [OF width, of w]
  by (simp add: bytes_swap)

lemma swap_word_le: "length bs = n \<Longrightarrow> swap (word_le bs) = word_le (rev bs)"
  using word_bytes_le [OF width, of "swap (word_le bs)"] bytes_word_le [of bs, where 'a = 'w] width
  by (simp add: bytes_swap)

text \<open>The stored bytes depend on the order asked for, not on the host.\<close>

lemma write_big: "endian_write swap host BigEndian n w = Inr (rev (bytes_le n w))"
  by (simp add: endian_write_def endian_convert_def endian_convert_be_def store_native_def bytes_swap)

lemma write_little: "endian_write swap host LittleEndian n w = Inr (bytes_le n w)"
  by (simp add: endian_write_def endian_convert_def endian_convert_le_def store_native_def bytes_swap)

lemma read_big: "length bs = n \<Longrightarrow> endian_read swap host BigEndian bs = Inr (word_le (rev bs))"
  by (simp add: endian_read_def endian_convert_def endian_convert_be_def load_native_def swap_word_le)

lemma read_little: "length bs = n \<Longrightarrow> endian_read swap host LittleEndian bs = Inr (word_le bs)"
  using swap_word_le [of "rev bs"]
  by (simp add: endian_read_def endian_convert_def endian_convert_le_def load_native_def)

lemma convert_convert:
  "e \<noteq> Unknown \<Longrightarrow> bind_r (endian_convert swap host e w) (endian_convert swap host e) = Inr w"
  by (cases e) (auto simp: endian_convert_def endian_convert_be_def endian_convert_le_def swap_swap)

lemma write_read:
  assumes "e \<noteq> Unknown"
  shows "bind_r (endian_write swap host e n w) (endian_read swap host e) = Inr w"
proof -
  obtain v where "endian_convert swap host e w = Inr v" "endian_convert swap host e v = Inr w"
    using convert_convert [OF assms, of host w] by (auto simp: bind_r_Inr_iff)
  then show ?thesis by (simp add: endian_write_def endian_read_def load_store_native [OF width])
qed

lemma write_length: "endian_write swap host e n w = Inr bs \<Longrightarrow> length bs = n"
  by (auto simp: endian_write_def bind_r_Inr_iff)

lemma write_some: "e \<noteq> Unknown \<Longrightarrow> \<exists>bs. endian_write swap host e n w = Inr bs \<and> length bs = n \<and>
    endian_read swap host e bs = Inr w"
  using write_read [of e host w] by (auto simp: bind_r_Inr_iff dest: write_length)

end

interpretation sw16: byte_swap swap16 2
  by unfold_locales (simp_all add: bytes_swap16)

interpretation sw32: byte_swap swap32 4
  by unfold_locales (simp_all add: bytes_swap32)

interpretation sw64: byte_swap swap64 8
  by unfold_locales (simp_all add: bytes_swap64)

section \<open>Property\<close>

text \<open>An integer converted for storage and converted back is unchanged, in every byte
  order the code knows and on either kind of host, at 16, 32 and 64 bits; the bytes stored for
  a named order are the same on both kinds of host; and the order \<open>Unknown\<close> throws.\<close>

theorem endian_roundtrip:
  "(e = Unknown \<or>
    bind_r (endian_write swap16 host e 2 a) (endian_read swap16 host e) = Inr a \<and>
    bind_r (endian_write swap32 host e 4 b) (endian_read swap32 host e) = Inr b \<and>
    bind_r (endian_write swap64 host e 8 c) (endian_read swap64 host e) = Inr c) \<and>
   endian_write swap16 host BigEndian 2 a = Inr (rev (bytes_le 2 a)) \<and>
   endian_write swap32 host BigEndian 4 b = Inr (rev (bytes_le 4 b)) \<and>
   endian_write swap64 host BigEndian 8 c = Inr (rev (bytes_le 8 c)) \<and>
   endian_write swap64 host LittleEndian 8 c = Inr (bytes_le 8 c) \<and>
   endian_write swap32 host Unknown 4 b = throw (InvalidArgumentException '''')"
proof -
  have "endian_write swap32 host Unknown 4 b = throw (InvalidArgumentException '''')"
    by (simp add: endian_write_def endian_convert_def)
  then show ?thesis
    using sw16.write_read [of e host a] sw32.write_read [of e host b] sw64.write_read [of e host c]
      sw16.write_big sw32.write_big sw64.write_big sw64.write_little by blast
qed

end
