(* ===== verification/Streams.thy ===== *)
theory Streams
  imports Data_Buffer
begin

text \<open>
  Streams (\<^verbatim>\<open>include/bricks/io/stream.h\<close>) and three of their classes: \<^verbatim>\<open>MemoryStream\<close>,
  \<^verbatim>\<open>Substream\<close> and \<^verbatim>\<open>NullStream\<close> (\<^verbatim>\<open>memorystream.cpp\<close>, \<^verbatim>\<open>substream.cpp\<close>,
  \<^verbatim>\<open>nullstream.h\<close>).  The virtual methods of a stream over a state \<open>'s\<close> are the record
  \<open>stream_ops\<close>, so that a class that holds a \<^verbatim>\<open>Stream*\<close> takes such a record.  The locale
  \<open>stream\<close> is the contract of a seekable file: a sequence of bytes and a position in it.  Its halves
  \<open>input_stream\<close> and \<open>output_stream\<close> are what a reader and a writer need of it.
\<close>

section \<open>The interface\<close>

record 's stream_ops =
  so_read :: "nat \<Rightarrow> 's \<Rightarrow> (bytes \<times> 's) result"
  so_write :: "bytes \<Rightarrow> 's \<Rightarrow> (nat \<times> 's) result"
  so_get_length :: "'s \<Rightarrow> nat"
  so_set_length :: "nat \<Rightarrow> 's \<Rightarrow> 's"
  so_get_position :: "'s \<Rightarrow> nat"
  so_set_position :: "nat \<Rightarrow> 's \<Rightarrow> 's"
  so_flush :: "'s \<Rightarrow> 's"
  so_read_byte :: "'s \<Rightarrow> (int \<times> 's) result"

text \<open>\<^verbatim>\<open>Stream::ReadByte\<close>, for the classes that do not override it.\<close>

definition default_read_byte :: "(nat \<Rightarrow> 's \<Rightarrow> (bytes \<times> 's) result) \<Rightarrow> 's \<Rightarrow> (int \<times> 's) result" where
  "default_read_byte read s =
     bind_r (read 1 s) (\<lambda>(bs, s'). Inr (if length bs \<noteq> 1 then - 1 else uint (hd bs), s'))"

definition stream_read_data :: "'s stream_ops \<Rightarrow> data \<Rightarrow> 's \<Rightarrow> (nat \<times> data \<times> 's) result" where
  "stream_read_data ops d s =
     bind_r (so_read ops (d_length d) s) (\<lambda>(bs, s').
     bind_r (mem_write (d_block d) 0 bs) (\<lambda>m. Inr (length bs, d\<lparr>d_block := m\<rparr>, s')))"

definition stream_write_data :: "'s stream_ops \<Rightarrow> data \<Rightarrow> 's \<Rightarrow> (nat \<times> 's) result" where
  "stream_write_data ops d s =
     bind_r (mem_read (d_block d) 0 (d_length d)) (\<lambda>bs. so_write ops bs s)"

section \<open>NullStream\<close>

definition null_stream_ops :: "unit stream_ops" where
  "null_stream_ops =
     \<lparr>so_read = (\<lambda>n s. Inr ([], s)), so_write = (\<lambda>bs s. Inr (0, s)), so_get_length = (\<lambda>s. 0),
      so_set_length = (\<lambda>n s. s), so_get_position = (\<lambda>s. 0), so_set_position = (\<lambda>n s. s),
      so_flush = (\<lambda>s. s), so_read_byte = default_read_byte (\<lambda>n s. Inr ([], s))\<rparr>"

section \<open>MemoryStream\<close>

text \<open>
  \<open>ms_data\<close> is the allocated block; \<open>g\<close> gives the bytes \<^verbatim>\<open>realloc\<close> leaves in the part it
  adds.  The constructors that copy leave \<^verbatim>\<open>position\<close> uninitialised: it is their argument \<open>p\<close>.
\<close>

record memory_stream =
  ms_data :: bytes
  ms_length :: nat
  ms_position :: nat

definition memory_block_size :: nat where
  "memory_block_size = 0x400"

definition memory_realloc :: "(nat \<Rightarrow> u8) \<Rightarrow> bytes \<Rightarrow> nat \<Rightarrow> bytes" where
  "memory_realloc g old n = take n old @ map g [length old..<n]"

definition memory_allocate :: "(nat \<Rightarrow> u8) \<Rightarrow> nat \<Rightarrow> memory_stream \<Rightarrow> memory_stream" where
  "memory_allocate g n s =
     s\<lparr>ms_data := memory_realloc g (ms_data s) (round_up n memory_block_size)\<rparr>"

definition memory_stream_new :: memory_stream where
  "memory_stream_new = \<lparr>ms_data = [], ms_length = 0, ms_position = 0\<rparr>"

definition memory_stream_sized :: "(nat \<Rightarrow> u8) \<Rightarrow> nat \<Rightarrow> memory_stream" where
  "memory_stream_sized g n = memory_allocate g n memory_stream_new"

definition memory_stream_from :: "(nat \<Rightarrow> u8) \<Rightarrow> nat \<Rightarrow> bytes \<Rightarrow> nat \<Rightarrow> memory_stream result" where
  "memory_stream_from g p src len =
     (let s = memory_allocate g len \<lparr>ms_data = [], ms_length = len, ms_position = p\<rparr> in
      bind_r (mem_read src 0 len) (\<lambda>bs.
      bind_r (mem_write (ms_data s) 0 bs) (\<lambda>m. Inr (s\<lparr>ms_data := m\<rparr>))))"

definition memory_assign :: "(nat \<Rightarrow> u8) \<Rightarrow> memory_stream \<Rightarrow> memory_stream \<Rightarrow> memory_stream result" where
  "memory_assign g s t =
     (let s' = memory_allocate g (ms_length t) (s\<lparr>ms_length := ms_length t\<rparr>) in
      bind_r (mem_read (ms_data t) 0 (ms_length t)) (\<lambda>bs.
      bind_r (mem_write (ms_data s') 0 bs) (\<lambda>m. Inr (s'\<lparr>ms_data := m\<rparr>))))"

definition memory_set_length :: "(nat \<Rightarrow> u8) \<Rightarrow> nat \<Rightarrow> memory_stream \<Rightarrow> memory_stream" where
  "memory_set_length g n s = memory_allocate g n (s\<lparr>ms_length := n\<rparr>)"

definition memory_read :: "nat \<Rightarrow> memory_stream \<Rightarrow> (bytes \<times> memory_stream) result" where
  "memory_read n s =
     (let sz = math_min n (size_sub (ms_length s) (ms_position s)) in
      bind_r (mem_read (ms_data s) (ms_position s) sz) (\<lambda>bs.
      Inr (bs, s\<lparr>ms_position := size_add (ms_position s) sz\<rparr>)))"

definition memory_write :: "(nat \<Rightarrow> u8) \<Rightarrow> bytes \<Rightarrow> memory_stream \<Rightarrow> (nat \<times> memory_stream) result" where
  "memory_write g bs s =
     (let p = size_add (ms_position s) (length bs);
          s' = (if p > ms_length s then memory_set_length g p s else s) in
      bind_r (mem_write (ms_data s') (ms_position s') bs) (\<lambda>m.
      Inr (length bs, s'\<lparr>ms_data := m, ms_position := p\<rparr>)))"

definition memory_read_byte :: "memory_stream \<Rightarrow> (int \<times> memory_stream) result" where
  "memory_read_byte s =
     bind_r (peek (ms_data s) (ms_position s)) (\<lambda>b.
     Inr (uint b, s\<lparr>ms_position := size_add (ms_position s) 1\<rparr>))"

definition memory_ops :: "(nat \<Rightarrow> u8) \<Rightarrow> memory_stream stream_ops" where
  "memory_ops g =
     \<lparr>so_read = memory_read, so_write = memory_write g, so_get_length = ms_length,
      so_set_length = memory_set_length g, so_get_position = ms_position,
      so_set_position = (\<lambda>p s. s\<lparr>ms_position := p\<rparr>), so_flush = (\<lambda>s. s),
      so_read_byte = memory_read_byte\<rparr>"

section \<open>Substream\<close>

record 's substream =
  sub_stream :: 's
  sub_offset :: nat
  sub_position :: nat
  sub_length :: nat

definition substream_new :: "'s stream_ops \<Rightarrow> 's \<Rightarrow> nat \<Rightarrow> 's substream" where
  "substream_new ops st offset =
     \<lparr>sub_stream = st, sub_offset = offset, sub_position = 0,
      sub_length = size_sub (so_get_length ops st) offset\<rparr>"

definition substream_new_length :: "'s \<Rightarrow> nat \<Rightarrow> nat \<Rightarrow> 's substream" where
  "substream_new_length st offset len =
     \<lparr>sub_stream = st, sub_offset = offset, sub_position = 0, sub_length = len\<rparr>"

definition substream_clip :: "nat \<Rightarrow> 's substream \<Rightarrow> nat" where
  "substream_clip n s =
     (if size_add (sub_position s) n > sub_length s then size_sub (sub_length s) (sub_position s) else n)"

definition substream_seek :: "'s stream_ops \<Rightarrow> 's substream \<Rightarrow> 's" where
  "substream_seek ops s =
     (if so_get_position ops (sub_stream s) \<noteq> size_add (sub_offset s) (sub_position s)
      then so_set_position ops (size_add (sub_offset s) (sub_position s)) (sub_stream s)
      else sub_stream s)"

definition substream_read :: "'s stream_ops \<Rightarrow> nat \<Rightarrow> 's substream \<Rightarrow> (bytes \<times> 's substream) result" where
  "substream_read ops n s =
     bind_r (so_read ops (substream_clip n s) (substream_seek ops s)) (\<lambda>(bs, st).
     Inr (bs, s\<lparr>sub_stream := st, sub_position := size_add (sub_position s) (length bs)\<rparr>))"

definition substream_write :: "'s stream_ops \<Rightarrow> bytes \<Rightarrow> 's substream \<Rightarrow> (nat \<times> 's substream) result" where
  "substream_write ops bs s =
     bind_r (mem_read bs 0 (substream_clip (length bs) s)) (\<lambda>bs'.
     bind_r (so_write ops bs' (substream_seek ops s)) (\<lambda>(n, st).
     Inr (n, s\<lparr>sub_stream := st, sub_position := size_add (sub_position s) n\<rparr>)))"

text \<open>\<^verbatim>\<open>GetStreamOffset\<close>: offsets of nested substreams add up, to a given parent or to the end;
  the chain is the list of offsets from this one inwards, with each stream's identity.\<close>

fun stream_offset :: "(nat \<times> nat) list \<Rightarrow> nat option \<Rightarrow> nat" where
  "stream_offset [] parent = 0"
| "stream_offset [(offset, stream)] parent = offset"
| "stream_offset ((offset, stream) # c # cs) parent =
     (if Some stream \<noteq> parent then size_add (stream_offset (c # cs) parent) offset else offset)"

definition substream_ops :: "'s stream_ops \<Rightarrow> 's substream stream_ops" where
  "substream_ops ops =
     \<lparr>so_read = substream_read ops, so_write = substream_write ops, so_get_length = sub_length,
      so_set_length = (\<lambda>n s. s\<lparr>sub_length := n\<rparr>), so_get_position = sub_position,
      so_set_position = (\<lambda>p s. s\<lparr>sub_position := p\<rparr>),
      so_flush = (\<lambda>s. s\<lparr>sub_stream := so_flush ops (sub_stream s)\<rparr>),
      so_read_byte = default_read_byte (substream_read ops)\<rparr>"

section \<open>The contract of a seekable stream\<close>

text \<open>
  \<open>contents\<close> are the bytes of the stream, \<open>ok\<close> its good states, and \<open>cap\<close> how far a write may
  reach: below it, \<^verbatim>\<open>Read\<close> delivers what is left up to the size asked for and \<^verbatim>\<open>Write\<close>
  overwrites and extends.
\<close>

definition overwrite :: "bytes \<Rightarrow> nat \<Rightarrow> bytes \<Rightarrow> bytes" where
  "overwrite c p bs = take p c @ bs @ drop (p + length bs) c"

lemma length_overwrite: "p \<le> length c \<Longrightarrow> length (overwrite c p bs) = max (length c) (p + length bs)"
  by (auto simp: overwrite_def)

lemma overwrite_read: "p \<le> length c \<Longrightarrow> take (length bs) (drop p (overwrite c p bs)) = bs"
  by (simp add: overwrite_def)

lemma overwrite_overwrite:
  "p \<le> length c \<Longrightarrow> overwrite (overwrite c p as) (p + length as) bs = overwrite c p (as @ bs)"
  by (simp add: overwrite_def min_def ac_simps)

lemma overwrite_append: "length ys = length bs \<Longrightarrow> overwrite (xs @ ys @ zs) (length xs) bs = xs @ bs @ zs"
  by (simp add: overwrite_def)

text \<open>Overwriting inside a window of a list overwrites the window.\<close>

lemma window_overwrite:
  assumes "off + l \<le> length c" and "p + length bs \<le> l"
  shows "take l (drop off (overwrite c (off + p) bs)) = overwrite (take l (drop off c)) p bs"
proof -
  have "length c = off + l + (length c - off - l)" using assms(1) by simp
  from list_split3 [OF this] obtain a w z where c: "c = a @ w @ z" "length a = off" "length w = l" by metis
  have "length w = p + length bs + (l - p - length bs)" using assms(2) c(3) by simp
  from list_split3 [OF this] obtain u v x where w: "w = u @ v @ x" "length u = p" "length v = length bs" by metis
  have "overwrite c (off + p) bs = a @ (u @ bs @ x) @ z"
    using overwrite_append [of v bs "a @ u" "x @ z"] by (simp add: c w)
  moreover have "overwrite w p bs = u @ bs @ x" using overwrite_append [of v bs u x] by (simp add: w)
  moreover have "length (u @ bs @ x) = l" using w c(3) by simp
  moreover have "take l (drop off c) = w" using c by simp
  ultimately show ?thesis using c(2) by simp
qed

lemma overwrite_Nil: "overwrite c p [] = c"
  by (simp add: overwrite_def)

locale positioned_stream =
  fixes ops :: "'s stream_ops"
    and contents :: "'s \<Rightarrow> bytes"
    and ok :: "'s \<Rightarrow> bool"
    and cap :: "'s \<Rightarrow> nat"
  assumes length_contents: "ok s \<Longrightarrow> so_get_length ops s = length (contents s)"
    and position_bound: "ok s \<Longrightarrow> so_get_position ops s \<le> length (contents s)"
    and set_position: "ok s \<Longrightarrow> p \<le> length (contents s) \<Longrightarrow>
      ok (so_set_position ops p s) \<and> contents (so_set_position ops p s) = contents s \<and>
      cap (so_set_position ops p s) = cap s \<and> so_get_position ops (so_set_position ops p s) = p"
    and contents_cap: "ok s \<Longrightarrow> length (contents s) \<le> cap s"
    and cap_bound: "ok s \<Longrightarrow> cap s \<le> 2 ^ 62"

locale input_stream = positioned_stream ops contents ok cap
    for ops :: "'s stream_ops" and contents :: "'s \<Rightarrow> bytes" and ok :: "'s \<Rightarrow> bool" and cap :: "'s \<Rightarrow> nat" +
  assumes read_contents: "ok s \<Longrightarrow> n < 2 ^ 63 \<Longrightarrow> \<exists>s'.
      so_read ops n s = Inr (take n (drop (so_get_position ops s) (contents s)), s') \<and>
      ok s' \<and> contents s' = contents s \<and> cap s' = cap s \<and>
      so_get_position ops s' = min (length (contents s)) (so_get_position ops s + n)"
    and read_byte_inside: "ok s \<Longrightarrow> so_get_position ops s < length (contents s) \<Longrightarrow> \<exists>s'.
      so_read_byte ops s = Inr (uint (contents s ! so_get_position ops s), s') \<and>
      ok s' \<and> contents s' = contents s \<and> cap s' = cap s \<and>
      so_get_position ops s' = so_get_position ops s + 1"

locale output_stream = positioned_stream ops contents ok cap
    for ops :: "'s stream_ops" and contents :: "'s \<Rightarrow> bytes" and ok :: "'s \<Rightarrow> bool" and cap :: "'s \<Rightarrow> nat" +
  assumes write_contents: "ok s \<Longrightarrow> so_get_position ops s + length bs \<le> cap s \<Longrightarrow> \<exists>s'.
      so_write ops bs s = Inr (length bs, s') \<and> ok s' \<and>
      contents s' = overwrite (contents s) (so_get_position ops s) bs \<and> cap s' = cap s \<and>
      so_get_position ops s' = so_get_position ops s + length bs"

locale stream = input_stream ops contents ok cap + output_stream ops contents ok cap
    for ops :: "'s stream_ops" and contents :: "'s \<Rightarrow> bytes" and ok :: "'s \<Rightarrow> bool" and cap :: "'s \<Rightarrow> nat"
begin

text \<open>What was written is read back after seeking to where the writing began.\<close>

lemma write_seek_read:
  assumes "ok s" and "so_get_position ops s + length bs \<le> cap s"
  shows "\<exists>s1 s2. so_write ops bs s = Inr (length bs, s1) \<and>
    so_read ops (length bs) (so_set_position ops (so_get_position ops s) s1) = Inr (bs, s2) \<and>
    contents s2 = contents s1 \<and> so_get_position ops s2 = so_get_position ops s1"
proof -
  let ?p = "so_get_position ops s"
  have p: "?p \<le> length (contents s)" using position_bound assms(1) .
  obtain s1 where s1: "so_write ops bs s = Inr (length bs, s1)" "ok s1"
    "contents s1 = overwrite (contents s) ?p bs" "so_get_position ops s1 = ?p + length bs"
    using write_contents [OF assms] by blast
  have le: "?p + length bs \<le> length (contents s1)" using p by (simp add: s1(3) length_overwrite)
  then have s2: "ok (so_set_position ops ?p s1)" "contents (so_set_position ops ?p s1) = contents s1"
    "so_get_position ops (so_set_position ops ?p s1) = ?p"
    using set_position [OF s1(2), of ?p] by simp_all
  have "length bs < 2 ^ 63" using assms(2) cap_bound [OF assms(1)] by simp
  from read_contents [OF s2(1) this] show ?thesis
    using s1 s2 le overwrite_read [OF p, of bs] by auto
qed

end

section \<open>MemoryStream is a stream\<close>

definition memory_ok :: "memory_stream \<Rightarrow> bool" where
  "memory_ok s \<longleftrightarrow> ms_length s \<le> length (ms_data s) \<and> ms_position s \<le> ms_length s \<and> ms_length s \<le> 2 ^ 62"

definition memory_contents :: "memory_stream \<Rightarrow> bytes" where
  "memory_contents s = take (ms_length s) (ms_data s)"

lemma length_memory_contents: "memory_ok s \<Longrightarrow> length (memory_contents s) = ms_length s"
  by (simp add: memory_ok_def memory_contents_def)

lemma memory_read_contents:
  assumes "memory_ok s"
  shows "\<exists>s'. memory_read n s = Inr (take n (drop (ms_position s) (memory_contents s)), s') \<and>
    memory_ok s' \<and> memory_contents s' = memory_contents s \<and>
    ms_position s' = min (ms_length s) (ms_position s + n)"
proof -
  let ?k = "min n (ms_length s - ms_position s)"
  have sub: "size_sub (ms_length s) (ms_position s) = ms_length s - ms_position s"
    using assms by (simp add: memory_ok_def size_sub_le)
  have add: "size_add (ms_position s) ?k = min (ms_length s) (ms_position s + n)"
    using assms by (auto simp: memory_ok_def size_add_def min_def)
  have rd: "mem_read (ms_data s) (ms_position s) ?k
      = Inr (take n (drop (ms_position s) (memory_contents s)))"
    using assms by (auto simp: memory_ok_def mem_read_def memory_contents_def drop_take min_def)
  show ?thesis using assms
    by (simp add: memory_read_def sub add rd) (simp add: memory_ok_def memory_contents_def)
qed

lemma realloc_take: "k \<le> length old \<Longrightarrow> k \<le> n \<Longrightarrow> take k (memory_realloc g old n) = take k old"
  by (simp add: memory_realloc_def min_def)

lemma length_realloc: "length (memory_realloc g old n) = n"
  by (simp add: memory_realloc_def)

lemma memory_write_contents:
  assumes ok: "memory_ok s" and fit: "ms_position s + length bs \<le> 2 ^ 62"
  shows "\<exists>s'. memory_write g bs s = Inr (length bs, s') \<and> memory_ok s' \<and>
    memory_contents s' = overwrite (memory_contents s) (ms_position s) bs \<and>
    ms_position s' = ms_position s + length bs"
proof -
  let ?p = "ms_position s + length bs"
  have add: "size_add (ms_position s) (length bs) = ?p" using fit by (simp add: size_add_small)
  define s1 where "s1 = (if ?p > ms_length s then memory_set_length g ?p s else s)"
  have up: "?p \<le> round_up ?p memory_block_size"
    using round_up_bounds [of memory_block_size ?p] by (simp add: memory_block_size_def)
  have s1: "ms_position s1 = ms_position s" "ms_length s1 = max (ms_length s) ?p"
    "ms_length s1 \<le> length (ms_data s1)" "ms_length s1 \<le> 2 ^ 62"
    using ok fit up by (auto simp: s1_def memory_set_length_def memory_allocate_def memory_ok_def length_realloc)
  have t1: "take (ms_position s) (ms_data s1) = take (ms_position s) (memory_contents s)"
    using ok up by (auto simp: s1_def memory_set_length_def memory_allocate_def memory_ok_def
        memory_contents_def realloc_take min_def)
  have d1: "drop ?p (take (ms_length s1) (ms_data s1)) = drop ?p (memory_contents s)"
    using ok by (auto simp: s1_def memory_contents_def memory_set_length_def memory_allocate_def memory_ok_def)
  have w: "mem_write (ms_data s1) (ms_position s1) bs =
      Inr (take (ms_position s) (ms_data s1) @ bs @ drop ?p (ms_data s1))"
    using s1 by (simp add: mem_write_in)
  let ?s' = "s1\<lparr>ms_data := take (ms_position s) (ms_data s1) @ bs @ drop ?p (ms_data s1), ms_position := ?p\<rparr>"
  have fields: "ms_length ?s' = ms_length s1"
    "ms_data ?s' = take (ms_position s) (ms_data s1) @ bs @ drop ?p (ms_data s1)" by simp_all
  have pl: "ms_position s \<le> length (ms_data s1)" "ms_position s \<le> length (memory_contents s)"
    using s1 ok by (auto simp: memory_ok_def length_memory_contents [OF ok])
  have ok': "memory_ok ?s'" using s1 pl by (simp add: memory_ok_def)
  have "take (ms_length s1) (take (ms_position s) (ms_data s1) @ bs @ drop ?p (ms_data s1))
      = take (ms_position s) (ms_data s1) @ bs @ take (ms_length s1 - ?p) (drop ?p (ms_data s1))"
    using s1(2) pl by (simp add: min_def)
  also have "take (ms_length s1 - ?p) (drop ?p (ms_data s1)) = drop ?p (take (ms_length s1) (ms_data s1))"
    by (simp add: drop_take)
  finally have "memory_contents ?s' = take (ms_position s) (ms_data s1) @ bs @ drop ?p (take (ms_length s1) (ms_data s1))"
    unfolding memory_contents_def fields .
  then have "memory_contents ?s' = overwrite (memory_contents s) (ms_position s) bs"
    by (simp only: overwrite_def d1 t1)
  then show ?thesis using ok' w
    by (simp add: memory_write_def add Let_def flip: s1_def)
qed

interpretation mem: stream "memory_ops g" memory_contents memory_ok "\<lambda>_. 2 ^ 62"
proof
  fix s :: memory_stream and n p :: nat and bs :: bytes
  assume ok: "memory_ok s"
  show "\<exists>s'. so_read (memory_ops g) n s
      = Inr (take n (drop (so_get_position (memory_ops g) s) (memory_contents s)), s') \<and>
      memory_ok s' \<and> memory_contents s' = memory_contents s \<and> (2::nat) ^ 62 = 2 ^ 62 \<and>
      so_get_position (memory_ops g) s' = min (length (memory_contents s)) (so_get_position (memory_ops g) s + n)"
    using memory_read_contents [OF ok, of n] by (simp add: memory_ops_def length_memory_contents [OF ok])
  show "so_get_length (memory_ops g) s = length (memory_contents s)"
    by (simp add: memory_ops_def length_memory_contents [OF ok])
  show "so_get_position (memory_ops g) s \<le> length (memory_contents s)"
    using ok by (simp add: memory_ops_def length_memory_contents) (simp add: memory_ok_def)
  show "memory_ok (so_set_position (memory_ops g) p s) \<and>
      memory_contents (so_set_position (memory_ops g) p s) = memory_contents s \<and> (2::nat) ^ 62 = 2 ^ 62 \<and>
      so_get_position (memory_ops g) (so_set_position (memory_ops g) p s) = p"
    if "p \<le> length (memory_contents s)"
    using that ok unfolding length_memory_contents [OF ok]
    by (simp add: memory_ops_def memory_ok_def memory_contents_def)
  show "length (memory_contents s) \<le> 2 ^ 62"
    using ok unfolding length_memory_contents [OF ok] by (simp add: memory_ok_def)
  show "\<exists>s'. so_read_byte (memory_ops g) s
      = Inr (uint (memory_contents s ! so_get_position (memory_ops g) s), s') \<and>
      memory_ok s' \<and> memory_contents s' = memory_contents s \<and> (2::nat) ^ 62 = 2 ^ 62 \<and>
      so_get_position (memory_ops g) s' = so_get_position (memory_ops g) s + 1"
    if "so_get_position (memory_ops g) s < length (memory_contents s)"
    using that ok
    by (auto simp: memory_ops_def length_memory_contents memory_read_byte_def peek_def
        memory_contents_def memory_ok_def size_add_small)
  show "\<exists>s'. so_write (memory_ops g) bs s = Inr (length bs, s') \<and> memory_ok s' \<and>
      memory_contents s' = overwrite (memory_contents s) (so_get_position (memory_ops g) s) bs \<and>
      (2::nat) ^ 62 = 2 ^ 62 \<and>
      so_get_position (memory_ops g) s' = so_get_position (memory_ops g) s + length bs"
    if "so_get_position (memory_ops g) s + length bs \<le> 2 ^ 62"
    using memory_write_contents [OF ok, of bs g] that by (simp add: memory_ops_def)
qed simp


section \<open>A Substream of a stream is a stream\<close>

definition sub_contents :: "('s \<Rightarrow> bytes) \<Rightarrow> 's substream \<Rightarrow> bytes" where
  "sub_contents contents s = take (sub_length s) (drop (sub_offset s) (contents (sub_stream s)))"

definition sub_ok :: "('s \<Rightarrow> bytes) \<Rightarrow> ('s \<Rightarrow> bool) \<Rightarrow> 's substream \<Rightarrow> bool" where
  "sub_ok contents ok s \<longleftrightarrow> ok (sub_stream s) \<and>
     sub_offset s + sub_length s \<le> length (contents (sub_stream s)) \<and> sub_position s \<le> sub_length s"

context stream begin

lemma sub_seek:
  assumes "sub_ok contents ok s"
  shows "ok (substream_seek ops s) \<and> contents (substream_seek ops s) = contents (sub_stream s) \<and>
    cap (substream_seek ops s) = cap (sub_stream s) \<and>
    so_get_position ops (substream_seek ops s) = sub_offset s + sub_position s"
proof -
  have ok: "ok (sub_stream s)" and le: "sub_offset s + sub_position s \<le> length (contents (sub_stream s))"
    using assms by (auto simp: sub_ok_def)
  have "size_add (sub_offset s) (sub_position s) = sub_offset s + sub_position s"
    using le contents_cap [OF ok] cap_bound [OF ok] by (simp add: size_add_small)
  then show ?thesis using set_position [OF ok le] ok by (auto simp: substream_seek_def)
qed

lemma sub_bounds:
  assumes "sub_ok contents ok s"
  shows "sub_length s \<le> 2 ^ 62" and "length (sub_contents contents s) = sub_length s"
  using assms contents_cap [of "sub_stream s"] cap_bound [of "sub_stream s"]
  by (auto simp: sub_ok_def sub_contents_def)

lemma sub_clip:
  assumes "sub_ok contents ok s" and "n < 2 ^ 63"
  shows "substream_clip n s = min n (sub_length s - sub_position s)"
proof -
  have "sub_position s \<le> sub_length s" using assms(1) by (simp add: sub_ok_def)
  moreover have "size_add (sub_position s) n = sub_position s + n"
    using sub_bounds(1) [OF assms(1)] assms(2) \<open>sub_position s \<le> sub_length s\<close> by (simp add: size_add_small)
  ultimately show ?thesis by (auto simp: substream_clip_def size_sub_le)
qed

lemma sub_read:
  assumes ok: "sub_ok contents ok s" and n: "n < 2 ^ 63"
  shows "\<exists>s'. substream_read ops n s
      = Inr (take n (drop (sub_position s) (sub_contents contents s)), s') \<and>
    sub_ok contents ok s' \<and> contents (sub_stream s') = contents (sub_stream s) \<and>
    sub_offset s' = sub_offset s \<and> sub_length s' = sub_length s \<and>
    sub_position s' = min (sub_length s) (sub_position s + n)"
proof -
  let ?k = "min n (sub_length s - sub_position s)"
  have le: "sub_position s \<le> sub_length s" "sub_offset s + sub_length s \<le> length (contents (sub_stream s))"
    using ok by (auto simp: sub_ok_def)
  have "?k < 2 ^ 63" using n by simp
  then obtain st where st: "so_read ops ?k (substream_seek ops s)
      = Inr (take ?k (drop (sub_offset s + sub_position s) (contents (sub_stream s))), st)"
    "ok st" "contents st = contents (sub_stream s)"
    using read_contents [of "substream_seek ops s" ?k] sub_seek [OF ok] by auto
  have bs: "take ?k (drop (sub_offset s + sub_position s) (contents (sub_stream s)))
      = take n (drop (sub_position s) (sub_contents contents s))"
    by (simp add: sub_contents_def drop_take add.commute)
  have "length (take n (drop (sub_position s) (sub_contents contents s))) = ?k"
    by (simp add: sub_bounds(2) [OF ok])
  moreover have "size_add (sub_position s) ?k = min (sub_length s) (sub_position s + n)"
    using le sub_bounds(1) [OF ok] by (auto simp: size_add_def min_def)
  ultimately show ?thesis using st le
    by (simp add: substream_read_def sub_clip [OF ok n] bs) (simp add: sub_ok_def)
qed

text \<open>A write of any length stops at the end of the substream and leaves the bytes of the
  underlying stream outside the substream alone.\<close>

lemma sub_write:
  assumes ok: "sub_ok contents ok s" and n: "length bs < 2 ^ 63"
  defines "k \<equiv> min (length bs) (sub_length s - sub_position s)"
  shows "\<exists>s'. substream_write ops bs s = Inr (k, s') \<and> sub_ok contents ok s' \<and>
    contents (sub_stream s')
      = overwrite (contents (sub_stream s)) (sub_offset s + sub_position s) (take k bs) \<and>
    sub_offset s' = sub_offset s \<and> sub_length s' = sub_length s \<and>
    sub_position s' = sub_position s + k"
proof -
  have le: "sub_position s \<le> sub_length s" "sub_offset s + sub_length s \<le> length (contents (sub_stream s))"
    "ok (sub_stream s)"
    using ok by (auto simp: sub_ok_def)
  have k: "k \<le> length bs" "sub_position s + k \<le> sub_length s" using le by (auto simp: k_def)
  have "sub_offset s + sub_position s + length (take k bs) \<le> cap (substream_seek ops s)"
    using k le sub_seek [OF ok] contents_cap [OF le(3)] by simp
  then obtain st where st: "so_write ops (take k bs) (substream_seek ops s) = Inr (k, st)" "ok st"
    "contents st = overwrite (contents (sub_stream s)) (sub_offset s + sub_position s) (take k bs)"
    using write_contents [of "substream_seek ops s" "take k bs"] sub_seek [OF ok] k(1) by (auto simp: min_absorb1)
  have "size_add (sub_position s) k = sub_position s + k"
    using k sub_bounds(1) [OF ok] by (simp add: size_add_small)
  moreover have "length (contents st) = length (contents (sub_stream s))"
    using k le by (simp add: st(3) length_overwrite)
  moreover have "mem_read bs 0 k = Inr (take k bs)" using k by (simp add: mem_read_in)
  ultimately show ?thesis using st le k
    by (simp add: substream_write_def sub_clip [OF ok n] flip: k_def) (simp add: sub_ok_def)
qed

lemma substream_stream: "stream (substream_ops ops) (sub_contents contents) (sub_ok contents ok) sub_length"
proof
  fix s :: "'s substream" and n p :: nat and bs :: bytes
  assume ok: "sub_ok contents ok s"
  note len = sub_bounds(2) [OF ok]
  have pos: "sub_position s \<le> sub_length s" using ok by (simp add: sub_ok_def)
  have same: "sub_contents contents t = sub_contents contents s"
    if "contents (sub_stream t) = contents (sub_stream s)" "sub_offset t = sub_offset s"
      "sub_length t = sub_length s" for t
    using that by (simp add: sub_contents_def)
  show "\<exists>s'. so_read (substream_ops ops) n s
      = Inr (take n (drop (so_get_position (substream_ops ops) s) (sub_contents contents s)), s') \<and>
      sub_ok contents ok s' \<and> sub_contents contents s' = sub_contents contents s \<and>
      sub_length s' = sub_length s \<and>
      so_get_position (substream_ops ops) s'
        = min (length (sub_contents contents s)) (so_get_position (substream_ops ops) s + n)"
    if n: "n < 2 ^ 63"
  proof -
    obtain s' where "substream_read ops n s = Inr (take n (drop (sub_position s) (sub_contents contents s)), s')"
      "sub_ok contents ok s'" "contents (sub_stream s') = contents (sub_stream s)"
      "sub_offset s' = sub_offset s" "sub_length s' = sub_length s"
      "sub_position s' = min (sub_length s) (sub_position s + n)"
      using sub_read [OF ok n] by blast
    then show ?thesis using same [of s'] by (simp add: substream_ops_def len)
  qed
  show "so_get_length (substream_ops ops) s = length (sub_contents contents s)"
    by (simp add: substream_ops_def len)
  show "so_get_position (substream_ops ops) s \<le> length (sub_contents contents s)"
    using pos by (simp add: substream_ops_def len)
  show "sub_ok contents ok (so_set_position (substream_ops ops) p s) \<and>
      sub_contents contents (so_set_position (substream_ops ops) p s) = sub_contents contents s \<and>
      sub_length (so_set_position (substream_ops ops) p s) = sub_length s \<and>
      so_get_position (substream_ops ops) (so_set_position (substream_ops ops) p s) = p"
    if "p \<le> length (sub_contents contents s)"
    using that ok by (simp add: substream_ops_def sub_contents_def sub_ok_def)
  show "length (sub_contents contents s) \<le> sub_length s" by (simp add: len)
  show "sub_length s \<le> 2 ^ 62" by (rule sub_bounds(1) [OF ok])
  show "\<exists>s'. so_read_byte (substream_ops ops) s
      = Inr (uint (sub_contents contents s ! so_get_position (substream_ops ops) s), s') \<and>
      sub_ok contents ok s' \<and> sub_contents contents s' = sub_contents contents s \<and>
      sub_length s' = sub_length s \<and>
      so_get_position (substream_ops ops) s' = so_get_position (substream_ops ops) s + 1"
    if lt: "so_get_position (substream_ops ops) s < length (sub_contents contents s)"
  proof -
    have p: "sub_position s < length (sub_contents contents s)" using lt by (simp add: substream_ops_def)
    then have "take 1 (drop (sub_position s) (sub_contents contents s)) = [sub_contents contents s ! sub_position s]"
      using Cons_nth_drop_Suc [OF p, symmetric] by simp
    moreover obtain s' where "substream_read ops 1 s = Inr (take 1 (drop (sub_position s) (sub_contents contents s)), s')"
      "sub_ok contents ok s'" "contents (sub_stream s') = contents (sub_stream s)"
      "sub_offset s' = sub_offset s" "sub_length s' = sub_length s"
      "sub_position s' = min (sub_length s) (sub_position s + 1)"
      using sub_read [OF ok, of 1] by auto
    ultimately show ?thesis using same [of s'] p by (simp add: substream_ops_def default_read_byte_def len)
  qed
  show "\<exists>s'. so_write (substream_ops ops) bs s = Inr (length bs, s') \<and> sub_ok contents ok s' \<and>
      sub_contents contents s'
        = overwrite (sub_contents contents s) (so_get_position (substream_ops ops) s) bs \<and>
      sub_length s' = sub_length s \<and>
      so_get_position (substream_ops ops) s' = so_get_position (substream_ops ops) s + length bs"
    if fit: "so_get_position (substream_ops ops) s + length bs \<le> sub_length s"
  proof -
    have fit': "sub_position s + length bs \<le> sub_length s" using fit by (simp add: substream_ops_def)
    then have k: "min (length bs) (sub_length s - sub_position s) = length bs" "length bs < 2 ^ 63"
      using sub_bounds(1) [OF ok] by simp_all
    have le: "sub_offset s + sub_length s \<le> length (contents (sub_stream s))"
      using ok by (simp add: sub_ok_def)
    obtain s' where s': "substream_write ops bs s = Inr (length bs, s')" "sub_ok contents ok s'"
      "contents (sub_stream s') = overwrite (contents (sub_stream s)) (sub_offset s + sub_position s) bs"
      "sub_offset s' = sub_offset s" "sub_length s' = sub_length s"
      "sub_position s' = sub_position s + length bs"
      using sub_write [OF ok k(2)] k(1) by auto
    have "sub_contents contents s' = overwrite (sub_contents contents s) (sub_position s) bs"
      using window_overwrite [OF le fit'] by (simp add: sub_contents_def s'(3-5))
    then show ?thesis using s' by (simp add: substream_ops_def)
  qed
qed

end

interpretation sub: stream "substream_ops (memory_ops g)" "sub_contents memory_contents"
    "sub_ok memory_contents memory_ok" sub_length
  by (rule mem.substream_stream)

text \<open>A substream of a substream is one too.\<close>

interpretation sub2: stream "substream_ops (substream_ops (memory_ops g))"
    "sub_contents (sub_contents memory_contents)"
    "sub_ok (sub_contents memory_contents) (sub_ok memory_contents memory_ok)" sub_length
  by (rule sub.substream_stream)

section \<open>Outside the contract\<close>

text \<open>
  A memory stream over four bytes (its block has 1024): \<^verbatim>\<open>ReadByte\<close> at the end of the stream
  returns a byte of the unused block instead of -1, and a position behind the end makes
  \<^verbatim>\<open>Read\<close> compute a size near \<open>2 ^ 64\<close>.
\<close>

definition four_bytes :: memory_stream where
  "four_bytes = \<lparr>ms_data = [1, 2, 3, 4] @ replicate 1020 0xAA, ms_length = 4, ms_position = 0\<rparr>"

lemma four_bytes_ok: "memory_ok four_bytes" "memory_contents four_bytes = [1, 2, 3, 4]"
  by (simp_all add: memory_ok_def four_bytes_def memory_contents_def)

lemma memory_read_byte_past_end:
  "map_sum id fst (memory_read_byte (four_bytes\<lparr>ms_position := 4\<rparr>)) = Inr 0xAA"
  by (simp add: memory_read_byte_def four_bytes_def peek_def nth_append)

lemma memory_read_past_end: "memory_read 2000 (four_bytes\<lparr>ms_position := 5\<rparr>) = Inl Undefined"
  by (simp add: memory_read_def four_bytes_def size_sub_def mem_read_def)

text \<open>A substream whose position is behind its end asks for nearly \<open>2 ^ 64\<close> bytes: a read of one
  byte delivers two, both outside the window.\<close>

lemma substream_read_past_end:
  "map_sum id fst (substream_read (memory_ops (\<lambda>_. 0)) 1
     ((substream_new_length four_bytes 0 1)\<lparr>sub_position := 2\<rparr>)) = Inr [3, 4]"
  by (simp add: substream_read_def substream_new_length_def substream_clip_def substream_seek_def
      four_bytes_def memory_ops_def memory_read_def size_sub_def size_add_def mem_read_def)

section \<open>Properties\<close>

text \<open>C13: A \<^verbatim>\<open>MemoryStream\<close> in a good state behaves as a file: \<^verbatim>\<open>Write\<close> at a position
  overwrites the bytes there, extends the stream when it reaches the end, and keeps all others,
  however the block is reallocated; seeking back and reading gives the bytes written; \<^verbatim>\<open>Read\<close>
  delivers exactly what is left when less is left than asked for.\<close>

theorem memory_stream_is_file:
  assumes "memory_ok s" and "ms_position s + length bs \<le> 2 ^ 62" and "n < 2 ^ 63"
  shows "\<exists>s1. memory_write g bs s = Inr (length bs, s1) \<and> memory_ok s1 \<and>
      memory_contents s1 = overwrite (memory_contents s) (ms_position s) bs \<and>
      ms_length s1 = max (ms_length s) (ms_position s + length bs) \<and>
      (\<exists>s2. memory_read (length bs) (s1\<lparr>ms_position := ms_position s\<rparr>) = Inr (bs, s2)) \<and>
      (\<exists>s3. memory_read n s = Inr (take n (drop (ms_position s) (memory_contents s)), s3) \<and>
            memory_ok s3 \<and> memory_contents s3 = memory_contents s)"
proof -
  obtain s1 where s1: "memory_write g bs s = Inr (length bs, s1)" "memory_ok s1"
    "memory_contents s1 = overwrite (memory_contents s) (ms_position s) bs"
    using mem.write_contents [OF assms(1), of g bs] assms(2) by (auto simp: memory_ops_def)
  have "ms_length s1 = max (ms_length s) (ms_position s + length bs)"
    using length_memory_contents [OF s1(2)] length_memory_contents [OF assms(1)] assms(1)
    by (simp add: s1(3) length_overwrite memory_ok_def)
  moreover have "\<exists>s2. memory_read (length bs) (s1\<lparr>ms_position := ms_position s\<rparr>) = Inr (bs, s2)"
    using mem.write_seek_read [OF assms(1), of g bs] assms(2) s1(1) by (auto simp: memory_ops_def)
  ultimately show ?thesis using s1 memory_read_contents [OF assms(1), of n] by blast
qed

theorem memory_stream_is_file_witness:
  "\<exists>s1. memory_write (\<lambda>_. 0) [9, 8] (four_bytes\<lparr>ms_position := 3\<rparr>) = Inr (length [9::u8, 8], s1) \<and>
      memory_ok s1 \<and>
      memory_contents s1 = overwrite (memory_contents (four_bytes\<lparr>ms_position := 3\<rparr>)) 3 [9, 8]"
  using memory_stream_is_file [of "four_bytes\<lparr>ms_position := 3\<rparr>" "[9, 8]" 7 "\<lambda>_. 0"]
  by (auto simp: memory_ok_def four_bytes_def)



end
