(* ===== verification/Stream_IO.thy ===== *)
theory Stream_IO
  imports Streams Endian BString
begin

text \<open>
  \<^verbatim>\<open>StreamNavigator\<close>, \<^verbatim>\<open>StreamReader\<close> and \<^verbatim>\<open>StreamWriter\<close> (\<^verbatim>\<open>source/io/streamnavigator.cpp\<close>,
  \<^verbatim>\<open>streamreader.cpp\<close>, \<^verbatim>\<open>streamwriter.cpp\<close>) over any stream, given by its operations.  A
  navigator is its byte order \<open>en\<close> and the stream it holds; \<open>host\<close> is the host's byte order.
\<close>

section \<open>Navigation\<close>

definition pick_endian :: "endian \<Rightarrow> endian \<Rightarrow> endian" where
  "pick_endian e en = (if e = Unknown then en else e)"

definition nav_pad_to ::
    "'s stream_ops \<Rightarrow> (nat \<Rightarrow> 's \<Rightarrow> 's result) \<Rightarrow> nat \<Rightarrow> 's \<Rightarrow> 's result" where
  "nav_pad_to ops pad position s =
     (if position < so_get_position ops s then throw (InvalidArgumentException ''position'')
      else pad (position - so_get_position ops s) s)"

definition nav_pad_to_multiple ::
    "'s stream_ops \<Rightarrow> (nat \<Rightarrow> 's \<Rightarrow> 's result) \<Rightarrow> nat \<Rightarrow> 's \<Rightarrow> 's result" where
  "nav_pad_to_multiple ops pad r s = nav_pad_to ops pad (round_up (so_get_position ops s) r) s"

definition nav_is_end_of_file :: "'s stream_ops \<Rightarrow> 's \<Rightarrow> bool" where
  "nav_is_end_of_file ops s \<longleftrightarrow> so_get_position ops s = so_get_length ops s"

section \<open>Reading\<close>

definition read_int ::
    "nat \<Rightarrow> ('w::len word \<Rightarrow> 'w word) \<Rightarrow> 's stream_ops \<Rightarrow> bool \<Rightarrow> endian \<Rightarrow> endian \<Rightarrow> 's \<Rightarrow>
     ('w word \<times> 's) result" where
  "read_int n swap ops host en e s =
     bind_r (so_read ops n s) (\<lambda>(data, s').
     if length data \<noteq> n then throw (EndOfStreamException '''')
     else bind_r (endian_read swap host (pick_endian e en) data) (\<lambda>w. Inr (w, s')))"

definition read_int16 :: "'s stream_ops \<Rightarrow> bool \<Rightarrow> endian \<Rightarrow> endian \<Rightarrow> 's \<Rightarrow> (u16 \<times> 's) result" where
  "read_int16 = read_int 2 swap16"

definition read_int32 :: "'s stream_ops \<Rightarrow> bool \<Rightarrow> endian \<Rightarrow> endian \<Rightarrow> 's \<Rightarrow> (u32 \<times> 's) result" where
  "read_int32 = read_int 4 swap32"

definition read_int64 :: "'s stream_ops \<Rightarrow> bool \<Rightarrow> endian \<Rightarrow> endian \<Rightarrow> 's \<Rightarrow> (u64 \<times> 's) result" where
  "read_int64 = read_int 8 swap64"

definition read_bytes :: "'s stream_ops \<Rightarrow> nat \<Rightarrow> 's \<Rightarrow> (bytes \<times> 's) result" where
  "read_bytes ops n s =
     bind_r (so_read ops n s) (\<lambda>(data, s').
     if length data \<noteq> n then throw (EndOfStreamException '''') else Inr (data, s'))"

definition read_byte :: "'s stream_ops \<Rightarrow> 's \<Rightarrow> (u8 \<times> 's) result" where
  "read_byte ops s = bind_r (read_bytes ops 1 s) (\<lambda>(data, s'). Inr (hd data, s'))"

text \<open>\<^verbatim>\<open>ReadCString\<close>: the loop ends only when the stream delivers the mark or its end.\<close>

partial_function (option) read_cstring_loop ::
    "'s stream_ops \<Rightarrow> int \<Rightarrow> bytes \<Rightarrow> 's \<Rightarrow> (bytes \<times> 's) result option" where
  "read_cstring_loop ops division ret s =
     (case so_read_byte ops s of
        Inl e \<Rightarrow> Some (Inl e)
      | Inr (r, s') \<Rightarrow>
          if r < 0 \<or> r = division then Some (Inr (ret, s'))
          else read_cstring_loop ops division (ret @ [word_of_int r]) s')"

definition read_cstring :: "'s stream_ops \<Rightarrow> int \<Rightarrow> 's \<Rightarrow> (bytes \<times> 's) result option" where
  "read_cstring ops division s = read_cstring_loop ops division [] s"

definition read_string :: "(nat \<Rightarrow> u8) \<Rightarrow> 's stream_ops \<Rightarrow> nat \<Rightarrow> 's \<Rightarrow> (bstring \<times> 's) result" where
  "read_string g ops len s =
     bind_r (read_bytes ops len s) (\<lambda>(data, s').
     bind_r (string_of_cstr g data len) (\<lambda>r. Inr (r, s')))"

section \<open>Writing\<close>

definition write_bytes :: "'s stream_ops \<Rightarrow> bytes \<Rightarrow> 's \<Rightarrow> 's result" where
  "write_bytes ops data s =
     bind_r (so_write ops data s) (\<lambda>(n, s').
     if n \<noteq> length data then throw (StreamException '''') else Inr s')"

definition write_int ::
    "nat \<Rightarrow> ('w::len word \<Rightarrow> 'w word) \<Rightarrow> 's stream_ops \<Rightarrow> bool \<Rightarrow> endian \<Rightarrow> 'w word \<Rightarrow> endian \<Rightarrow> 's \<Rightarrow>
     's result" where
  "write_int n swap ops host en value e s =
     bind_r (endian_write swap host (pick_endian e en) n value) (\<lambda>data. write_bytes ops data s)"

definition write_int16 :: "'s stream_ops \<Rightarrow> bool \<Rightarrow> endian \<Rightarrow> u16 \<Rightarrow> endian \<Rightarrow> 's \<Rightarrow> 's result" where
  "write_int16 = write_int 2 swap16"

definition write_int32 :: "'s stream_ops \<Rightarrow> bool \<Rightarrow> endian \<Rightarrow> u32 \<Rightarrow> endian \<Rightarrow> 's \<Rightarrow> 's result" where
  "write_int32 = write_int 4 swap32"

definition write_int64 :: "'s stream_ops \<Rightarrow> bool \<Rightarrow> endian \<Rightarrow> u64 \<Rightarrow> endian \<Rightarrow> 's \<Rightarrow> 's result" where
  "write_int64 = write_int 8 swap64"

definition write_byte :: "'s stream_ops \<Rightarrow> u8 \<Rightarrow> 's \<Rightarrow> 's result" where
  "write_byte ops b s = write_bytes ops [b] s"

text \<open>
  \<^verbatim>\<open>Pad\<close> moves by blocks of at most 0x100 bytes; a writer writes the uninitialised block
  \<open>junk\<close> (as long as 0x100).
\<close>

definition padding_size :: nat where
  "padding_size = 0x100"

function reader_pad :: "'s stream_ops \<Rightarrow> nat \<Rightarrow> 's \<Rightarrow> 's result" where
  "reader_pad ops n s =
     (if n > 0 then
        (let sz = math_min padding_size n in
         bind_r (read_bytes ops sz s) (\<lambda>(data, s'). reader_pad ops (n - sz) s'))
      else Inr s)"
  by pat_completeness auto
termination
  by (relation "measure (\<lambda>(ops, n, s). n)") (auto simp: padding_size_def)

function writer_pad :: "'s stream_ops \<Rightarrow> bytes \<Rightarrow> nat \<Rightarrow> 's \<Rightarrow> 's result" where
  "writer_pad ops junk n s =
     (if n > 0 then
        (let sz = math_min padding_size n in
         bind_r (mem_read junk 0 sz) (\<lambda>bs.
         bind_r (write_bytes ops bs s) (\<lambda>s'. writer_pad ops junk (n - sz) s')))
      else Inr s)"
  by pat_completeness auto
termination
  by (relation "measure (\<lambda>(ops, junk, n, s). n)") (auto simp: padding_size_def)

declare reader_pad.simps [simp del] writer_pad.simps [simp del]

definition write_string :: "'s stream_ops \<Rightarrow> bytes \<Rightarrow> bstring \<Rightarrow> nat \<Rightarrow> 's \<Rightarrow> 's result" where
  "write_string ops junk str sz s =
     (let sz' = (if sz = npos then get_size str else sz) in
      bind_r (mem_read (c_string str) 0 (math_min (get_size str) sz')) (\<lambda>bs.
      bind_r (write_bytes ops bs s) (\<lambda>s'.
      if sz' > get_size str then writer_pad ops junk (sz' - get_size str) s' else Inr s')))"

definition write_line :: "'s stream_ops \<Rightarrow> bytes \<Rightarrow> bstring \<Rightarrow> 's \<Rightarrow> 's result" where
  "write_line ops junk str s =
     bind_r (write_string ops junk str npos s) (\<lambda>s'. write_byte ops 10 s')"

section \<open>Readers over a stream that keeps the contract\<close>

context input_stream begin

lemma read_bytes_inside:
  assumes "ok s" and "so_get_position ops s + n \<le> length (contents s)"
  shows "\<exists>s'. read_bytes ops n s = Inr (take n (drop (so_get_position ops s) (contents s)), s') \<and>
    ok s' \<and> contents s' = contents s \<and> cap s' = cap s \<and>
    so_get_position ops s' = so_get_position ops s + n"
proof -
  have "n < 2 ^ 63" using assms contents_cap [OF assms(1)] cap_bound [OF assms(1)] by simp
  from read_contents [OF assms(1) this] show ?thesis
    using assms(2) by (auto simp: read_bytes_def)
qed

lemma read_bytes_end:
  assumes "ok s" and "length (contents s) < so_get_position ops s + n" and "n < 2 ^ 63"
  shows "read_bytes ops n s = throw (EndOfStreamException '''')"
  using read_contents [OF assms(1,3)] position_bound [OF assms(1)] assms(2)
  by (auto simp: read_bytes_def)

lemma read_int_bytes:
  assumes "ok s" and "so_get_position ops s + n \<le> length (contents s)"
  shows "\<exists>s'. read_int n swap ops host en e s =
      bind_r (endian_read swap host (pick_endian e en) (take n (drop (so_get_position ops s) (contents s))))
        (\<lambda>w. Inr (w, s')) \<and>
    ok s' \<and> contents s' = contents s \<and> cap s' = cap s \<and>
    so_get_position ops s' = so_get_position ops s + n"
proof -
  have "n < 2 ^ 63" using assms contents_cap [OF assms(1)] cap_bound [OF assms(1)] by simp
  from read_contents [OF assms(1) this] show ?thesis
    using assms(2) by (auto simp: read_int_def)
qed

lemma read_int_at:
  assumes "ok s" and "contents s = c1 @ bs @ c2" and "so_get_position ops s = length c1"
    and "length bs = n" and "endian_read swap host (pick_endian e en) bs = Inr w"
  shows "\<exists>s'. read_int n swap ops host en e s = Inr (w, s') \<and> ok s' \<and> contents s' = contents s \<and>
    so_get_position ops s' = length (c1 @ bs)"
  using read_int_bytes [OF assms(1), of n swap host en e] assms(2-5) by auto

text \<open>\<^verbatim>\<open>StreamReader::Pad\<close> skips exactly that many bytes, or throws at the end of the stream.\<close>

lemma reader_pad_skips:
  "ok s \<Longrightarrow> so_get_position ops s + n \<le> length (contents s) \<Longrightarrow>
   \<exists>s'. reader_pad ops n s = Inr s' \<and> ok s' \<and> contents s' = contents s \<and>
        so_get_position ops s' = so_get_position ops s + n"
proof (induction n arbitrary: s rule: less_induct)
  case (less n)
  show ?case
  proof (cases "n = 0")
    case True
    then show ?thesis using less.prems by (simp add: reader_pad.simps [of ops 0])
  next
    case False
    let ?k = "min padding_size n"
    have k: "0 < ?k" "?k \<le> n" using False by (auto simp: padding_size_def)
    obtain d s1 where s1: "read_bytes ops ?k s = Inr (d, s1)" "ok s1" "contents s1 = contents s"
      "so_get_position ops s1 = so_get_position ops s + ?k"
      using read_bytes_inside [OF less.prems(1), of ?k] less.prems(2) k by auto
    obtain s2 where "reader_pad ops (n - ?k) s1 = Inr s2" "ok s2" "contents s2 = contents s1"
      "so_get_position ops s2 = so_get_position ops s1 + (n - ?k)"
      using less.IH [of "n - ?k" s1] s1 less.prems(2) k False by auto
    then show ?thesis using s1 k False by (simp add: reader_pad.simps [of ops n])
  qed
qed

lemma reader_pad_end:
  "ok s \<Longrightarrow> length (contents s) < so_get_position ops s + n \<Longrightarrow>
   reader_pad ops n s = throw (EndOfStreamException '''')"
proof (induction n arbitrary: s rule: less_induct)
  case (less n)
  let ?k = "min padding_size n"
  have n: "0 < n" using less.prems position_bound [of s] by (cases n) auto
  then have k: "0 < ?k" "?k \<le> n" "?k < 2 ^ 63" by (auto simp: padding_size_def)
  show ?case
  proof (cases "length (contents s) < so_get_position ops s + ?k")
    case True
    then show ?thesis using read_bytes_end [OF less.prems(1) True k(3)] n
      by (simp add: reader_pad.simps [of ops n])
  next
    case False
    then obtain d s1 where s1: "read_bytes ops ?k s = Inr (d, s1)" "ok s1" "contents s1 = contents s"
      "so_get_position ops s1 = so_get_position ops s + ?k"
      using read_bytes_inside [OF less.prems(1), of ?k] by auto
    have "reader_pad ops (n - ?k) s1 = throw (EndOfStreamException '''')"
      using less.IH [of "n - ?k" s1] s1 less.prems(2) k n by auto
    then show ?thesis using s1 n by (simp add: reader_pad.simps [of ops n])
  qed
qed

text \<open>\<^verbatim>\<open>ReadCString\<close> returns the bytes before the first mark, when there is one.\<close>

lemma read_cstring_inside:
  assumes "ok s" and "contents s = c1 @ bs @ m # c2" and "so_get_position ops s = length c1"
    and "m \<notin> set bs"
  shows "\<exists>s'. read_cstring_loop ops (uint m) acc s = Some (Inr (acc @ bs, s')) \<and> ok s' \<and>
    contents s' = contents s \<and> so_get_position ops s' = so_get_position ops s + length bs + 1"
  using assms
proof (induction bs arbitrary: s c1 acc)
  case Nil
  obtain s' where "so_read_byte ops s = Inr (uint m, s')" "ok s'" "contents s' = contents s"
    "so_get_position ops s' = so_get_position ops s + 1"
    using read_byte_inside [OF Nil.prems(1)] Nil.prems by auto
  then show ?case by (subst read_cstring_loop.simps) simp
next
  case (Cons b bs)
  obtain s1 where s1: "so_read_byte ops s = Inr (uint b, s1)" "ok s1" "contents s1 = contents s"
    "so_get_position ops s1 = so_get_position ops s + 1"
    using read_byte_inside [OF Cons.prems(1)] Cons.prems by auto
  have "\<exists>s'. read_cstring_loop ops (uint m) (acc @ [b]) s1 = Some (Inr ((acc @ [b]) @ bs, s')) \<and> ok s' \<and>
    contents s' = contents s1 \<and> so_get_position ops s' = so_get_position ops s1 + length bs + 1"
    by (rule Cons.IH [of s1 "c1 @ [b]"]) (use Cons.prems s1 in auto)
  then show ?case using s1 Cons.prems(4) by (subst read_cstring_loop.simps) (auto simp: not_less word_uint_eq_iff)
qed

end

section \<open>Writers over a stream that keeps the contract\<close>

context output_stream begin

lemma write_bytes_contents:
  assumes "ok s" and "so_get_position ops s + length bs \<le> cap s"
  shows "\<exists>s'. write_bytes ops bs s = Inr s' \<and> ok s' \<and>
    contents s' = overwrite (contents s) (so_get_position ops s) bs \<and> cap s' = cap s \<and>
    so_get_position ops s' = so_get_position ops s + length bs"
  using write_contents [OF assms] by (auto simp: write_bytes_def)

text \<open>Blocks written one after the other.\<close>

lemma write_blocks_contents:
  "ok s \<Longrightarrow> so_get_position ops s + length (concat bss) \<le> cap s \<Longrightarrow>
   \<exists>s'. fold_r (write_bytes ops) bss s = Inr s' \<and> ok s' \<and>
     contents s' = overwrite (contents s) (so_get_position ops s) (concat bss) \<and> cap s' = cap s \<and>
     so_get_position ops s' = so_get_position ops s + length (concat bss)"
proof (induction bss arbitrary: s)
  case Nil
  then show ?case by (simp add: overwrite_Nil)
next
  case (Cons bs bss)
  obtain s1 where s1: "write_bytes ops bs s = Inr s1" "ok s1" "cap s1 = cap s"
    "contents s1 = overwrite (contents s) (so_get_position ops s) bs"
    "so_get_position ops s1 = so_get_position ops s + length bs"
    using write_bytes_contents [OF Cons.prems(1), of bs] Cons.prems(2) by auto
  from Cons.IH [OF s1(2)] show ?case
    using Cons.prems s1 overwrite_overwrite [OF position_bound [OF Cons.prems(1)], of bs "concat bss"] by auto
qed

lemma writer_pad_contents:
  "length junk = padding_size \<Longrightarrow> ok s \<Longrightarrow> so_get_position ops s + n \<le> cap s \<Longrightarrow>
   \<exists>s' bs. writer_pad ops junk n s = Inr s' \<and> ok s' \<and> length bs = n \<and> cap s' = cap s \<and>
        contents s' = overwrite (contents s) (so_get_position ops s) bs \<and>
        so_get_position ops s' = so_get_position ops s + n"
proof (induction n arbitrary: s rule: less_induct)
  case (less n)
  show ?case
  proof (cases "n = 0")
    case True
    then show ?thesis using less.prems by (simp add: writer_pad.simps [of ops junk 0] overwrite_Nil)
  next
    case False
    let ?k = "min padding_size n" and ?p = "so_get_position ops s"
    have k: "0 < ?k" "?k \<le> n" "?k \<le> length junk" using False less.prems(1) by (auto simp: padding_size_def)
    obtain s1 where s1: "write_bytes ops (take ?k junk) s = Inr s1" "ok s1" "cap s1 = cap s"
      "contents s1 = overwrite (contents s) ?p (take ?k junk)"
      "so_get_position ops s1 = ?p + ?k"
      using write_bytes_contents [OF less.prems(2), of "take ?k junk"] less.prems(3) k by auto
    obtain s2 bs where s2: "writer_pad ops junk (n - ?k) s1 = Inr s2" "ok s2" "length bs = n - ?k"
      "cap s2 = cap s1" "contents s2 = overwrite (contents s1) (so_get_position ops s1) bs"
      "so_get_position ops s2 = so_get_position ops s1 + (n - ?k)"
      using less.IH [of "n - ?k" s1] s1 less.prems k False by auto
    have "contents s2 = overwrite (contents s) ?p (take ?k junk @ bs)"
      using overwrite_overwrite [OF position_bound [OF less.prems(2)], of "take ?k junk" bs] s1 s2 k by simp
    moreover have "length (take ?k junk @ bs) = n" using k s2(3) by simp
    moreover have "writer_pad ops junk n s = Inr s2"
      using s1 s2 k False by (simp add: writer_pad.simps [of ops junk n] mem_read_in)
    moreover have "so_get_position ops s2 = ?p + n" "cap s2 = cap s" using s1 s2 k by simp_all
    ultimately show ?thesis using s2(2) by blast
  qed
qed

text \<open>An integer written leaves bytes that read back as the integer.\<close>

lemma write_int_contents:
  assumes sw: "byte_swap swap n" and e: "pick_endian e en \<noteq> Unknown"
    and s: "ok s" "so_get_position ops s + n \<le> cap s"
  shows "\<exists>s' bs. write_int n swap ops host en w e s = Inr s' \<and> ok s' \<and> length bs = n \<and>
    endian_read swap host (pick_endian e en) bs = Inr w \<and>
    contents s' = overwrite (contents s) (so_get_position ops s) bs \<and> cap s' = cap s \<and>
    so_get_position ops s' = so_get_position ops s + n"
proof -
  obtain bs where bs: "endian_write swap host (pick_endian e en) n w = Inr bs" "length bs = n"
    "endian_read swap host (pick_endian e en) bs = Inr w"
    using byte_swap.write_some [OF sw e] by blast
  then show ?thesis using write_bytes_contents [OF s(1), of bs] s(2)
    by (fastforce simp: write_int_def)
qed

end

context stream begin

text \<open>An integer written, and read back from where it was written.\<close>

lemma write_read_int:
  assumes sw: "byte_swap swap n" and e: "pick_endian e en \<noteq> Unknown"
    and s: "ok s" "so_get_position ops s + n \<le> cap s"
  shows "\<exists>s1 s2. write_int n swap ops host en w e s = Inr s1 \<and>
    so_get_position ops s1 = so_get_position ops s + n \<and>
    read_int n swap ops host en e (so_set_position ops (so_get_position ops s) s1) = Inr (w, s2) \<and>
    contents s2 = contents s1 \<and> so_get_position ops s2 = so_get_position ops s1"
proof -
  let ?p = "so_get_position ops s"
  obtain s1 bs where s1: "write_int n swap ops host en w e s = Inr s1" "ok s1" "length bs = n"
    "endian_read swap host (pick_endian e en) bs = Inr w" "contents s1 = overwrite (contents s) ?p bs"
    "so_get_position ops s1 = ?p + n"
    using write_int_contents [OF sw e s, of host w] by blast
  have p: "?p \<le> length (contents s)" by (rule position_bound [OF s(1)])
  then have le: "?p + n \<le> length (contents s1)" using s1(3) by (simp add: s1(5) length_overwrite)
  then have s2: "ok (so_set_position ops ?p s1)" "contents (so_set_position ops ?p s1) = contents s1"
    "so_get_position ops (so_set_position ops ?p s1) = ?p"
    using set_position [OF s1(2), of ?p] by simp_all
  obtain s3 where "read_int n swap ops host en e (so_set_position ops ?p s1) =
      bind_r (endian_read swap host (pick_endian e en) bs) (\<lambda>w. Inr (w, s3))"
    "contents s3 = contents s1" "so_get_position ops s3 = ?p + n"
    using read_int_bytes [OF s2(1), of n swap host en e] s2 le overwrite_read [OF p, of bs] s1(3,5)
    by auto
  then show ?thesis using s1 by simp
qed

end

section \<open>Properties\<close>

text \<open>On a \<^verbatim>\<open>MemoryStream\<close>, and on a \<^verbatim>\<open>Substream\<close> of one, a 64-bit integer written in any
  byte order and read back from the same place in the same order is the integer written; both
  calls move the position by eight.\<close>

theorem write_read_int64:
  assumes "e \<noteq> Unknown \<or> en \<noteq> Unknown"
    and "memory_ok s" and "ms_position s + 8 \<le> 2 ^ 62"
    and "sub_ok memory_contents memory_ok t" and "sub_position t + 8 \<le> sub_length t"
  shows "(\<exists>s1 s2. write_int64 (memory_ops g) host en w e s = Inr s1 \<and> ms_position s1 = ms_position s + 8 \<and>
      read_int64 (memory_ops g) host en e (s1\<lparr>ms_position := ms_position s\<rparr>) = Inr (w, s2) \<and>
      ms_position s2 = ms_position s1) \<and>
    (\<exists>t1 t2. write_int64 (substream_ops (memory_ops g)) host en w e t = Inr t1 \<and>
      read_int64 (substream_ops (memory_ops g)) host en e (t1\<lparr>sub_position := sub_position t\<rparr>) = Inr (w, t2) \<and>
      sub_position t2 = sub_position t + 8)"
proof -
  have e: "pick_endian e en \<noteq> Unknown" using assms(1) by (auto simp: pick_endian_def)
  show ?thesis
    using mem.write_read_int [OF sw64.byte_swap_axioms e assms(2), of g host w]
      sub.write_read_int [OF sw64.byte_swap_axioms e assms(4), of g host w] assms(3,5)
    by (fastforce simp: write_int64_def read_int64_def memory_ops_def substream_ops_def)
qed

theorem write_read_int64_witness:
  "\<exists>s1 s2. write_int64 (memory_ops (\<lambda>_. 0)) True BigEndian 0x0102030405060708 Unknown four_bytes = Inr s1 \<and>
      ms_position s1 = ms_position four_bytes + 8 \<and>
      read_int64 (memory_ops (\<lambda>_. 0)) True BigEndian Unknown (s1\<lparr>ms_position := ms_position four_bytes\<rparr>)
        = Inr (0x0102030405060708, s2) \<and> ms_position s2 = ms_position s1"
proof -
  have p: "ms_position four_bytes + 8 \<le> 2 ^ 62" by (simp add: four_bytes_def)
  have t: "sub_ok memory_contents memory_ok
      (substream_new_length (four_bytes\<lparr>ms_length := 12\<rparr>) 2 10)"
    by (simp add: sub_ok_def substream_new_length_def memory_ok_def memory_contents_def four_bytes_def)
  have l: "sub_position (substream_new_length (four_bytes\<lparr>ms_length := 12\<rparr>) 2 10) + 8
      \<le> sub_length (substream_new_length (four_bytes\<lparr>ms_length := 12\<rparr>) 2 10)"
    by (simp add: substream_new_length_def)
  show ?thesis
    using write_read_int64 [of Unknown BigEndian, OF _ four_bytes_ok(1) p t l,
        of "\<lambda>_. 0" True "0x0102030405060708"] by simp
qed

text \<open>\<^verbatim>\<open>Pad\<close> always returns.  A reader's \<^verbatim>\<open>Pad(n)\<close> skips exactly \<open>n\<close> bytes when they are
  there and throws \<^verbatim>\<open>EndOfStreamException\<close> when they are not; a writer's \<^verbatim>\<open>Pad(n)\<close> writes
  exactly \<open>n\<close> bytes; and \<^verbatim>\<open>PadTo\<close> a position behind the current one throws.\<close>

theorem pad_exact:
  assumes "memory_ok s" and "length junk = padding_size" and "ms_position s + n \<le> 2 ^ 62"
  shows "(if ms_position s + n \<le> ms_length s
      then \<exists>s'. reader_pad (memory_ops g) n s = Inr s' \<and> ms_position s' = ms_position s + n \<and>
                memory_contents s' = memory_contents s
      else reader_pad (memory_ops g) n s = throw (EndOfStreamException '''')) \<and>
    (\<exists>s' bs. writer_pad (memory_ops g) junk n s = Inr s' \<and> length bs = n \<and>
      memory_contents s' = overwrite (memory_contents s) (ms_position s) bs \<and>
      ms_position s' = ms_position s + n) \<and>
    (p < ms_position s \<longrightarrow>
      nav_pad_to (memory_ops g) pad p s = throw (InvalidArgumentException ''position''))"
proof -
  have l: "length (memory_contents s) = ms_length s" by (rule length_memory_contents [OF assms(1)])
  have n: "if ms_position s + n \<le> ms_length s
      then \<exists>s'. reader_pad (memory_ops g) n s = Inr s' \<and> ms_position s' = ms_position s + n \<and>
                memory_contents s' = memory_contents s
      else reader_pad (memory_ops g) n s = throw (EndOfStreamException '''')"
    using mem.reader_pad_skips [OF assms(1), of g n] mem.reader_pad_end [OF assms(1), of g n] l
    by (auto simp: memory_ops_def not_le)
  have w: "\<exists>s' bs. writer_pad (memory_ops g) junk n s = Inr s' \<and> length bs = n \<and>
      memory_contents s' = overwrite (memory_contents s) (ms_position s) bs \<and>
      ms_position s' = ms_position s + n"
    using mem.writer_pad_contents [OF assms(2,1), of g n] assms(3) by (auto simp: memory_ops_def)
  show ?thesis using n w by (simp add: nav_pad_to_def memory_ops_def)
qed

theorem pad_exact_witness:
  "reader_pad (memory_ops (\<lambda>_. 0)) 300 four_bytes = throw (EndOfStreamException '''') \<and>
   (\<exists>s' bs. writer_pad (memory_ops (\<lambda>_. 0)) (replicate padding_size 0) 300 four_bytes = Inr s' \<and>
      length bs = 300 \<and> memory_contents s' = overwrite (memory_contents four_bytes) 0 bs)"
  using pad_exact [OF four_bytes_ok(1), of "replicate padding_size 0" 300 "\<lambda>_. 0" 0]
  by (auto simp: four_bytes_def)

end
