(* ===== verification/Cache_Stream.thy ===== *)
theory Cache_Stream
  imports Streams
begin

text \<open>
  \<^verbatim>\<open>CacheStream\<close> (\<^verbatim>\<open>include/bricks/io/cachestream.h\<close>, \<^verbatim>\<open>source/io/cachestream.cpp\<close>): a block
  between the user and another stream, filled by reads and collected by writes.  \<^verbatim>\<open>Read\<close> and
  \<^verbatim>\<open>Write\<close> call themselves for the rest of a request; whether that ends is part of what is
  proved, so they are partial functions.
\<close>

section \<open>The cache\<close>

text \<open>Subtraction of two 32-bit counters.\<close>

definition u32_sub :: "nat \<Rightarrow> nat \<Rightarrow> nat" where
  "u32_sub a b = (if b \<le> a then a - b else a + 2 ^ 32 - b)"

record 's cache_stream =
  cs_stream :: 's
  cs_cache_size :: nat
  cs_position :: nat
  cs_length :: nat
  cs_cache :: bytes
  cs_dirty :: bool
  cs_cache_offset :: nat
  cs_cache_length :: nat
  cs_cache_position :: nat

definition cache_stream_new :: "'s stream_ops \<Rightarrow> (nat \<Rightarrow> u8) \<Rightarrow> nat \<Rightarrow> 's \<Rightarrow> 's cache_stream" where
  "cache_stream_new ops g cacheSize st =
     \<lparr>cs_stream = st, cs_cache_size = cacheSize, cs_position = so_get_position ops st,
      cs_length = so_get_length ops st, cs_cache = fresh_block g cacheSize, cs_dirty = True,
      cs_cache_offset = 0, cs_cache_length = 0, cs_cache_position = 0\<rparr>"

definition flush_cache :: "'s stream_ops \<Rightarrow> 's cache_stream \<Rightarrow> 's cache_stream result" where
  "flush_cache ops s =
     bind_r
       (if cs_dirty s \<and> cs_cache_offset s \<noteq> 0 then
          bind_r (mem_read (cs_cache s) 0 (cs_cache_offset s)) (\<lambda>bs.
          bind_r (so_write ops bs (cs_stream s)) (\<lambda>(n, st).
          if n \<noteq> cs_cache_offset s then throw (Exception '''') else Inr (s\<lparr>cs_stream := st\<rparr>)))
        else Inr s) (\<lambda>s'.
     Inr (s'\<lparr>cs_cache_position := size_add (cs_cache_position s') (cs_cache_length s'),
             cs_dirty := False, cs_cache_offset := 0, cs_cache_length := 0\<rparr>))"

definition fill_cache :: "'s stream_ops \<Rightarrow> 's cache_stream \<Rightarrow> 's cache_stream result" where
  "fill_cache ops s =
     bind_r (if cs_dirty s then flush_cache ops s else Inr s) (\<lambda>s1.
     (let st = (if cs_position s1 \<noteq> size_add (cs_cache_position s1) (cs_cache_offset s1)
                then so_set_position ops (cs_position s1) (cs_stream s1) else cs_stream s1) in
      bind_r (so_read ops (cs_cache_size s1) st) (\<lambda>(bs, st').
      bind_r (mem_write (cs_cache s1) 0 bs) (\<lambda>m.
      Inr (s1\<lparr>cs_stream := st', cs_cache := m, cs_cache_position := cs_position s1,
              cs_cache_length := length bs, cs_cache_offset := 0\<rparr>)))))"

definition dirty_cache :: "'s cache_stream \<Rightarrow> 's cache_stream" where
  "dirty_cache s =
     s\<lparr>cs_dirty := False, cs_cache_position := cs_position s, cs_cache_offset := 0, cs_cache_length := 0\<rparr>"

definition cache_flush :: "'s stream_ops \<Rightarrow> 's cache_stream \<Rightarrow> 's cache_stream result" where
  "cache_flush ops s =
     bind_r (flush_cache ops s) (\<lambda>s'. Inr (s'\<lparr>cs_stream := so_flush ops (cs_stream s')\<rparr>))"

text \<open>What \<^verbatim>\<open>Read\<close> takes from the cache before it refills it.\<close>

definition cache_take :: "nat \<Rightarrow> 's cache_stream \<Rightarrow> (bytes \<times> 's cache_stream) result" where
  "cache_take sz s =
     (let len = math_min sz (u32_sub (cs_cache_length s) (cs_cache_offset s)) in
      bind_r (mem_read (cs_cache s) (cs_cache_offset s) len) (\<lambda>bs.
      Inr (bs, s\<lparr>cs_cache_offset := cs_cache_offset s + len,
                 cs_position := size_add (cs_position s) len\<rparr>)))"

definition cache_covers :: "'s cache_stream \<Rightarrow> bool" where
  "cache_covers s \<longleftrightarrow> cs_cache_position s \<le> cs_position s \<and>
     cs_position s < size_add (cs_cache_position s) (cs_cache_length s)"

partial_function (option) cache_read ::
    "'s stream_ops \<Rightarrow> nat \<Rightarrow> 's cache_stream \<Rightarrow> (bytes \<times> 's cache_stream) result option" where
  "cache_read ops sz s =
     (case (if cs_dirty s then flush_cache ops s else Inr s) of
        Inl e \<Rightarrow> Some (Inl e)
      | Inr s1 \<Rightarrow>
          (case (if cache_covers s1 then cache_take sz s1 else Inr ([], s1)) of
             Inl e \<Rightarrow> Some (Inl e)
           | Inr (bs, s2) \<Rightarrow>
               if cache_covers s1 \<and> length bs \<ge> sz then Some (Inr (bs, s2))
               else
                 (case fill_cache ops s2 of
                    Inl e \<Rightarrow> Some (Inl e)
                  | Inr s3 \<Rightarrow>
                      Option.bind (cache_read ops (sz - length bs) s3) (\<lambda>r.
                      Some (map_sum id (map_prod (append bs) id) r)))))"

text \<open>What one call of \<^verbatim>\<open>Write\<close> puts into the cache.\<close>

definition cache_put :: "bytes \<Rightarrow> 's cache_stream \<Rightarrow> (nat \<times> 's cache_stream) result" where
  "cache_put bs s =
     (let s1 = (if \<not> cs_dirty s then dirty_cache s else s);
          len = math_min (length bs) (u32_sub (cs_cache_size s1) (cs_cache_offset s1)) in
      if len \<noteq> 0 then
        bind_r (mem_write (cs_cache s1) (cs_cache_offset s1) (take len bs)) (\<lambda>m.
        Inr (len, s1\<lparr>cs_cache := m, cs_cache_offset := cs_cache_offset s1 + len,
                     cs_position := size_add (cs_position s1) len,
                     cs_cache_length := cs_cache_offset s1 + len, cs_dirty := True\<rparr>))
      else Inr (len, s1))"

partial_function (option) cache_write ::
    "'s stream_ops \<Rightarrow> bytes \<Rightarrow> 's cache_stream \<Rightarrow> (nat \<times> 's cache_stream) result option" where
  "cache_write ops bs s =
     (case cache_put bs s of
        Inl e \<Rightarrow> Some (Inl e)
      | Inr (len, s1) \<Rightarrow>
          if len \<ge> length bs then Some (Inr (length bs, s1))
          else
            (case flush_cache ops s1 of
               Inl e \<Rightarrow> Some (Inl e)
             | Inr s2 \<Rightarrow>
                 Option.bind (cache_write ops (drop len bs) s2) (\<lambda>r.
                 Some (map_sum id (map_prod ((+) len) id) r))))"

section \<open>Reading\<close>

lemma take_drop_join:
  "k \<le> n \<Longrightarrow> take k (drop p c) @ take (n - k) (drop (p + k) c) = take n (drop p c)"
  using take_add [of k "n - k" "drop p c"] by (simp add: add.commute)

context stream begin

text \<open>A cache that has only been read through: it holds a piece of the stream, the underlying
  stream stands at the end of that piece.\<close>

definition cache_reading :: "'s cache_stream \<Rightarrow> bool" where
  "cache_reading s \<longleftrightarrow> \<not> cs_dirty s \<and> ok (cs_stream s) \<and>
     0 < cs_cache_size s \<and> cs_cache_size s < 2 ^ 32 \<and> length (cs_cache s) = cs_cache_size s \<and>
     cs_cache_offset s \<le> cs_cache_length s \<and> cs_cache_length s \<le> cs_cache_size s \<and>
     cs_position s \<le> length (contents (cs_stream s)) \<and> cs_cache_position s \<le> 2 ^ 62 \<and>
     (if cs_cache_position s + cs_cache_offset s = cs_position s
      then so_get_position ops (cs_stream s) = cs_cache_position s + cs_cache_length s \<and>
           cs_cache_position s + cs_cache_length s \<le> length (contents (cs_stream s)) \<and>
           take (cs_cache_length s) (cs_cache s)
             = take (cs_cache_length s) (drop (cs_cache_position s) (contents (cs_stream s)))
      else cs_cache_length s = 0)"

lemma cache_sizes:
  assumes "cache_reading s"
  shows "length (contents (cs_stream s)) \<le> 2 ^ 62"
    and "size_add (cs_cache_position s) (cs_cache_length s) = cs_cache_position s + cs_cache_length s"
    and "size_add (cs_cache_position s) (cs_cache_offset s) = cs_cache_position s + cs_cache_offset s"
    and "cache_covers s \<longleftrightarrow> cs_cache_position s \<le> cs_position s \<and>
           cs_position s < cs_cache_position s + cs_cache_length s"
proof -
  show "length (contents (cs_stream s)) \<le> 2 ^ 62"
    using assms contents_cap [of "cs_stream s"] cap_bound [of "cs_stream s"]
    by (simp add: cache_reading_def)
  show add: "size_add (cs_cache_position s) (cs_cache_length s) = cs_cache_position s + cs_cache_length s"
    "size_add (cs_cache_position s) (cs_cache_offset s) = cs_cache_position s + cs_cache_offset s"
    using assms by (auto simp: cache_reading_def size_add_small)
  show "cache_covers s \<longleftrightarrow> cs_cache_position s \<le> cs_position s \<and>
           cs_position s < cs_cache_position s + cs_cache_length s"
    by (simp add: cache_covers_def add)
qed

text \<open>Serving from the cache.\<close>

lemma cache_take_covers:
  fixes n :: nat
  assumes r: "cache_reading s" and c: "cache_covers s"
  defines "k \<equiv> min n (cs_cache_length s - cs_cache_offset s)"
  shows "\<exists>s'. cache_take n s = Inr (take k (drop (cs_position s) (contents (cs_stream s))), s') \<and>
    cache_reading s' \<and> cs_stream s' = cs_stream s \<and> cs_position s' = cs_position s + k \<and>
    cs_position s + k \<le> length (contents (cs_stream s)) \<and>
    (k < n \<longrightarrow> \<not> cache_covers s') \<and> 0 < cs_cache_length s - cs_cache_offset s"
proof -
  let ?c = "contents (cs_stream s)"
  have pos: "cs_cache_position s + cs_cache_offset s = cs_position s"
    and ofs: "cs_cache_offset s < cs_cache_length s"
    using r c unfolding cache_sizes(4) [OF r] cache_reading_def by (auto split: if_splits)
  have le: "cs_cache_position s + cs_cache_length s \<le> length ?c" "cs_cache_length s \<le> length (cs_cache s)"
    and tk: "take (cs_cache_length s) (cs_cache s) = take (cs_cache_length s) (drop (cs_cache_position s) ?c)"
    using r pos by (auto simp: cache_reading_def)
  have k: "cs_cache_offset s + k \<le> cs_cache_length s" using ofs by (auto simp: k_def)
  have "take k (drop (cs_cache_offset s) (cs_cache s))
      = take k (drop (cs_cache_offset s) (take (cs_cache_length s) (cs_cache s)))"
    using k by (simp add: drop_take min_def)
  also have "\<dots> = take k (drop (cs_position s) ?c)"
    using k by (simp add: tk drop_take min_def add.commute flip: pos)
  finally have rd: "mem_read (cs_cache s) (cs_cache_offset s) k = Inr (take k (drop (cs_position s) ?c))"
    using k le by (simp add: mem_read_in)
  have add: "size_add (cs_position s) k = cs_position s + k"
    using k le pos cache_sizes(1) [OF r] by (simp add: size_add_small)
  let ?s' = "s\<lparr>cs_cache_offset := cs_cache_offset s + k, cs_position := cs_position s + k\<rparr>"
  have t: "cache_take n s = Inr (take k (drop (cs_position s) ?c), ?s')"
    using rd ofs by (simp add: cache_take_def u32_sub_def add flip: k_def)
  moreover have r': "cache_reading ?s'"
    using r k pos le by (auto simp: cache_reading_def)
  moreover have "k < n \<longrightarrow> \<not> cache_covers ?s'"
    using pos ofs unfolding cache_sizes(4) [OF r'] by (auto simp: k_def)
  moreover have "cs_position s + k \<le> length ?c" using k pos le by simp
  ultimately show ?thesis using ofs by simp
qed

text \<open>Refilling at the position.\<close>

lemma fill_cache_reading:
  assumes r: "cache_reading s" and c: "\<not> cache_covers s"
  shows "\<exists>s'. fill_cache ops s = Inr s' \<and> cache_reading s' \<and>
    contents (cs_stream s') = contents (cs_stream s) \<and> cs_position s' = cs_position s \<and>
    (cache_covers s' \<longleftrightarrow> cs_position s < length (contents (cs_stream s)))"
proof -
  let ?c = "contents (cs_stream s)" and ?p = "cs_position s" and ?n = "cs_cache_size s"
  have nd: "\<not> cs_dirty s" and ok: "ok (cs_stream s)" and p: "?p \<le> length ?c"
    and n: "0 < ?n" "?n < 2 ^ 32" "length (cs_cache s) = ?n"
    using r by (auto simp: cache_reading_def)
  define st where "st = (if ?p \<noteq> size_add (cs_cache_position s) (cs_cache_offset s)
                then so_set_position ops ?p (cs_stream s) else cs_stream s)"
  have st: "ok st" "contents st = ?c" "so_get_position ops st = ?p"
    using set_position [OF ok p] r c ok unfolding cache_sizes(4) [OF r]
    by (auto simp: st_def cache_sizes(3) [OF r] cache_reading_def split: if_splits)
  obtain st' where st': "so_read ops ?n st = Inr (take ?n (drop ?p ?c), st')" "ok st'" "contents st' = ?c"
    "so_get_position ops st' = min (length ?c) (?p + ?n)"
    using read_contents [OF st(1), of ?n] n st by auto
  let ?bs = "take ?n (drop ?p ?c)"
  have l: "length ?bs = min ?n (length ?c - ?p)" by simp
  let ?s' = "s\<lparr>cs_stream := st', cs_cache := ?bs @ drop (length ?bs) (cs_cache s), cs_cache_position := ?p,
              cs_cache_length := length ?bs, cs_cache_offset := 0\<rparr>"
  have "mem_write (cs_cache s) 0 ?bs = Inr (?bs @ drop (length ?bs) (cs_cache s))"
    using n by (simp add: mem_write_in)
  then have f: "fill_cache ops s = Inr ?s'"
    using nd st' by (simp add: fill_cache_def flip: st_def)
  have "take (length ?bs) (cs_cache ?s') = take (length ?bs) (drop ?p ?c)"
    by (simp add: min_def)
  moreover have "length (cs_cache ?s') = ?n" using n by (simp add: min_def)
  ultimately have r': "cache_reading ?s'"
    using r st' p cache_sizes(1) [OF r] by (auto simp: cache_reading_def min_def)
  moreover have "cache_covers ?s' \<longleftrightarrow> ?p < length ?c"
    using n unfolding cache_sizes(4) [OF r'] by auto
  ultimately show ?thesis using f st' by auto
qed

lemma cache_read_covers:
  "cache_reading s \<Longrightarrow> cache_covers s \<Longrightarrow> cs_position s + n \<le> length (contents (cs_stream s)) \<Longrightarrow>
   \<exists>s'. cache_read ops n s = Some (Inr (take n (drop (cs_position s) (contents (cs_stream s))), s')) \<and>
     cache_reading s' \<and> contents (cs_stream s') = contents (cs_stream s) \<and>
     cs_position s' = cs_position s + n"
proof (induction n arbitrary: s rule: less_induct)
  case (less n)
  let ?c = "contents (cs_stream s)" and ?p = "cs_position s"
  let ?k = "min n (cs_cache_length s - cs_cache_offset s)"
  have nd: "\<not> cs_dirty s" using less.prems(1) by (simp add: cache_reading_def)
  obtain s1 where s1: "cache_take n s = Inr (take ?k (drop ?p ?c), s1)" "cache_reading s1"
    "cs_stream s1 = cs_stream s" "cs_position s1 = ?p + ?k" "?p + ?k \<le> length ?c"
    "?k < n \<longrightarrow> \<not> cache_covers s1" "0 < cs_cache_length s - cs_cache_offset s"
    using cache_take_covers [OF less.prems(1,2), of n] by blast
  have l: "length (take ?k (drop ?p ?c)) = ?k" using s1(5) by simp
  show ?case
  proof (cases "?k = n")
    case True
    then show ?thesis using s1 nd less.prems(2) l
      by (subst cache_read.simps) (simp add: min_def split: if_splits)
  next
    case False
    then have lt: "?k < n" "0 < ?k" using s1(7) by auto
    obtain s2 where s2: "fill_cache ops s1 = Inr s2" "cache_reading s2"
      "contents (cs_stream s2) = ?c" "cs_position s2 = ?p + ?k" "cache_covers s2"
      using fill_cache_reading [OF s1(2)] s1(3,4,6) lt less.prems(3) by auto
    have "n - ?k < n" "cs_position s2 + (n - ?k) \<le> length (contents (cs_stream s2))"
      using lt less.prems(3) s2 by auto
    from less.IH [OF this(1) s2(2,5) this(2)] obtain s3 where
      s3: "cache_read ops (n - ?k) s2 = Some (Inr (take (n - ?k) (drop (?p + ?k) ?c), s3))"
      "cache_reading s3" "contents (cs_stream s3) = ?c" "cs_position s3 = ?p + n"
      using s2 lt by auto
    have "take ?k (drop ?p ?c) @ take (n - ?k) (drop (?p + ?k) ?c) = take n (drop ?p ?c)"
      by (rule take_drop_join) simp
    moreover have "cache_read ops n s
        = Some (Inr (take ?k (drop ?p ?c) @ take (n - ?k) (drop (?p + ?k) ?c), s3))"
      using s1(1) nd less.prems(2) l lt s2(1) s3(1)
      by (subst cache_read.simps) (simp del: take_append length_take)
    ultimately show ?thesis using s3 by simp
  qed
qed

lemma cache_read_inside:
  assumes r: "cache_reading s" and n: "cs_position s + n \<le> length (contents (cs_stream s))"
    and p: "cs_position s < length (contents (cs_stream s))"
  shows "\<exists>s'. cache_read ops n s = Some (Inr (take n (drop (cs_position s) (contents (cs_stream s))), s')) \<and>
     cache_reading s' \<and> contents (cs_stream s') = contents (cs_stream s) \<and>
     cs_position s' = cs_position s + n"
proof (cases "cache_covers s")
  case True
  then show ?thesis using cache_read_covers [OF r _ n] by blast
next
  case False
  have nd: "\<not> cs_dirty s" using r by (simp add: cache_reading_def)
  obtain s1 where s1: "fill_cache ops s = Inr s1" "cache_reading s1"
    "contents (cs_stream s1) = contents (cs_stream s)" "cs_position s1 = cs_position s" "cache_covers s1"
    using fill_cache_reading [OF r False] p by auto
  obtain s2 where "cache_read ops n s1
      = Some (Inr (take n (drop (cs_position s) (contents (cs_stream s))), s2))"
    "cache_reading s2" "contents (cs_stream s2) = contents (cs_stream s)"
    "cs_position s2 = cs_position s + n"
    using cache_read_covers [OF s1(2,5), of n] n s1 by auto
  then show ?thesis using nd False s1(1)
    by (subst cache_read.simps) simp
qed

text \<open>A read that reaches past the end of the stream, or starts there, never returns.\<close>

definition cache_over :: "nat \<Rightarrow> 's cache_stream \<Rightarrow> bool" where
  "cache_over n s \<longleftrightarrow> cache_reading s \<and>
     (cs_position s + n > length (contents (cs_stream s)) \<or>
      cs_position s = length (contents (cs_stream s)))"

lemma cache_read_never:
  "cache_read ops' n s = Some r \<Longrightarrow> ops' = ops \<longrightarrow> \<not> cache_over n s"
proof (induction rule: cache_read.raw_induct [rotated 1, consumes 1, case_names step])
  case (step rec ops' n s r)
  show ?case
  proof (intro impI notI)
    assume o: "ops' = ops" and "cache_over n s"
    then have rd: "cache_reading s" and n: "cs_position s + n > length (contents (cs_stream s)) \<or>
      cs_position s = length (contents (cs_stream s))" by (auto simp: cache_over_def)
    have nd: "\<not> cs_dirty s" using rd by (simp add: cache_reading_def)
    let ?c = "contents (cs_stream s)"
    obtain k s2 where s2: "(if cache_covers s then cache_take n s else Inr ([], s))
        = Inr (take k (drop (cs_position s) ?c), s2)"
      "cache_reading s2" "cs_stream s2 = cs_stream s" "cs_position s2 = cs_position s + k"
      "\<not> cache_covers s2" "\<not> (cache_covers s \<and> n \<le> k)" "length (take k (drop (cs_position s) ?c)) = k"
      "cs_position s2 + (n - k) > length ?c \<or> cs_position s2 = length ?c"
    proof (cases "cache_covers s")
      case False
      then show thesis using that [of 0 s] rd n by auto
    next
      case True
      let ?k = "min n (cs_cache_length s - cs_cache_offset s)"
      obtain s1 where s1: "cache_take n s = Inr (take ?k (drop (cs_position s) ?c), s1)" "cache_reading s1"
        "cs_stream s1 = cs_stream s" "cs_position s1 = cs_position s + ?k"
        "cs_position s + ?k \<le> length ?c" "?k < n \<longrightarrow> \<not> cache_covers s1"
        using cache_take_covers [OF rd True, of n] by blast
      have "cs_position s < length ?c"
        using True rd unfolding cache_sizes(4) [OF rd] cache_reading_def by (auto split: if_splits)
      then have lt: "?k < n" using n s1(5) by auto
      then show thesis using that [of ?k s1] s1 n True by auto
    qed
    obtain s3 where s3: "fill_cache ops s2 = Inr s3" "cache_reading s3"
      "contents (cs_stream s3) = ?c" "cs_position s3 = cs_position s2"
      using fill_cache_reading [OF s2(2,5)] s2(3) by auto
    have "cache_over (n - k) s3" using s3 s2(8) by (simp add: cache_over_def)
    moreover obtain y where "rec ops (n - k) s3 = Some y"
      using step(2) nd o s2(1,6,7) s3(1)
      by (auto simp del: length_take split: if_splits bind_splits)
    ultimately show False using step(1) by blast
  qed
qed

lemma cache_read_past_end: "cache_over n s \<Longrightarrow> cache_read ops n s = None"
  using cache_read_never [of ops n s] by (cases "cache_read ops n s") auto

end

section \<open>Writing\<close>

context stream begin

text \<open>A cache that has only been written to: what it holds belongs at the position of the
  underlying stream.\<close>

definition cache_writing :: "'s cache_stream \<Rightarrow> bool" where
  "cache_writing s \<longleftrightarrow> ok (cs_stream s) \<and>
     0 < cs_cache_size s \<and> cs_cache_size s < 2 ^ 32 \<and> length (cs_cache s) = cs_cache_size s \<and>
     cs_cache_offset s \<le> cs_cache_size s \<and> (cs_dirty s \<or> cs_cache_offset s = 0) \<and>
     so_get_position ops (cs_stream s) + cs_cache_offset s = cs_position s"

definition cache_contents :: "'s cache_stream \<Rightarrow> bytes" where
  "cache_contents s = overwrite (contents (cs_stream s)) (so_get_position ops (cs_stream s))
     (take (cs_cache_offset s) (cs_cache s))"

lemma flush_cache_writing:
  assumes w: "cache_writing s" and fit: "cs_position s \<le> cap (cs_stream s)"
  shows "\<exists>s'. flush_cache ops s = Inr s' \<and> cache_writing s' \<and> cs_cache_offset s' = 0 \<and>
    contents (cs_stream s') = cache_contents s \<and> cache_contents s' = cache_contents s \<and>
    cap (cs_stream s') = cap (cs_stream s) \<and> cs_position s' = cs_position s \<and>
    cs_cache_size s' = cs_cache_size s \<and> \<not> cs_dirty s'"
proof (cases "cs_cache_offset s = 0")
  case True
  then show ?thesis using w
    by (auto simp: flush_cache_def cache_writing_def cache_contents_def overwrite_Nil)
next
  case False
  let ?bs = "take (cs_cache_offset s) (cs_cache s)"
  have l: "length ?bs = cs_cache_offset s" using w by (simp add: cache_writing_def)
  have d: "cs_dirty s" using w False by (simp add: cache_writing_def)
  have pos: "so_get_position ops (cs_stream s) + length ?bs = cs_position s" "ok (cs_stream s)"
    using w l by (auto simp: cache_writing_def)
  obtain st where st: "so_write ops ?bs (cs_stream s) = Inr (cs_cache_offset s, st)" "ok st"
    "contents st = cache_contents s" "cap st = cap (cs_stream s)" "so_get_position ops st = cs_position s"
    using write_contents [OF pos(2), of ?bs] fit pos(1) l by (auto simp: cache_contents_def)
  have "mem_read (cs_cache s) 0 (cs_cache_offset s) = Inr ?bs"
    using w by (simp add: mem_read_in cache_writing_def)
  then show ?thesis using st False d w
    by (auto simp: flush_cache_def cache_writing_def cache_contents_def [of "cache_stream.more_update _ _"]
        cache_contents_def overwrite_Nil)
qed

lemma cache_put_writing:
  fixes bs :: bytes
  assumes w: "cache_writing s" and fit: "cs_position s + length bs \<le> cap (cs_stream s)"
  defines "k \<equiv> min (length bs) (cs_cache_size s - cs_cache_offset s)"
  shows "\<exists>s'. cache_put bs s = Inr (k, s') \<and> cache_writing s' \<and>
    cache_contents s' = overwrite (cache_contents s) (cs_position s) (take k bs) \<and>
    cs_stream s' = cs_stream s \<and> cs_position s' = cs_position s + k \<and>
    cs_cache_size s' = cs_cache_size s"
proof -
  define s1 where "s1 = (if \<not> cs_dirty s then dirty_cache s else s)"
  have s1: "cs_stream s1 = cs_stream s" "cs_cache s1 = cs_cache s" "cs_cache_offset s1 = cs_cache_offset s"
    "cs_cache_size s1 = cs_cache_size s" "cs_position s1 = cs_position s"
    using w by (auto simp: s1_def dirty_cache_def cache_writing_def)
  have ok: "ok (cs_stream s)" using w by (simp add: cache_writing_def)
  have o: "cs_cache_offset s + k \<le> cs_cache_size s" "k \<le> length bs" "length (cs_cache s) = cs_cache_size s"
    using w by (auto simp: cache_writing_def k_def)
  have sub: "u32_sub (cs_cache_size s) (cs_cache_offset s) = cs_cache_size s - cs_cache_offset s"
    using w by (simp add: u32_sub_def cache_writing_def)
  show ?thesis
  proof (cases "k = 0")
    case True
    have "cache_writing s1" "cache_contents s1 = cache_contents s"
      using w by (auto simp: s1_def dirty_cache_def cache_writing_def cache_contents_def)
    moreover have "cache_put bs s = Inr (0, s1)"
      using True s1 by (auto simp: cache_put_def Let_def sub k_def min_def simp flip: s1_def split: if_splits)
    ultimately show ?thesis using True s1 by (simp add: overwrite_Nil)
  next
    case False
    have add: "size_add (cs_position s) k = cs_position s + k"
      using fit o(2) cap_bound [OF ok] by (simp add: size_add_small)
    let ?m = "take (cs_cache_offset s) (cs_cache s) @ take k bs @ drop (cs_cache_offset s + k) (cs_cache s)"
    let ?s' = "s1\<lparr>cs_cache := ?m, cs_cache_offset := cs_cache_offset s + k, cs_position := cs_position s + k,
                 cs_cache_length := cs_cache_offset s + k, cs_dirty := True\<rparr>"
    have mw: "mem_write (cs_cache s) (cs_cache_offset s) (take k bs) = Inr ?m"
      using o by (simp add: mem_write_in min_absorb1)
    have "bs \<noteq> []" "cs_cache_offset s < cs_cache_size s" using False by (auto simp: k_def)
    then have put: "cache_put bs s = Inr (k, ?s')"
      using False mw s1 add by (simp add: cache_put_def Let_def sub flip: s1_def k_def)
    have wr: "cache_writing ?s'" using w o s1 by (simp add: cache_writing_def min_absorb1)
    have tk: "take (cs_cache_offset s + k) ?m = take (cs_cache_offset s) (cs_cache s) @ take k bs"
      using o by (simp add: min_absorb1)
    have "cache_contents ?s' = overwrite (contents (cs_stream s)) (so_get_position ops (cs_stream s))
        (take (cs_cache_offset s) (cs_cache s) @ take k bs)"
      using s1(1) tk by (simp add: cache_contents_def del: take_append)
    also have "\<dots> = overwrite (cache_contents s)
        (so_get_position ops (cs_stream s) + length (take (cs_cache_offset s) (cs_cache s))) (take k bs)"
      unfolding cache_contents_def overwrite_overwrite [OF position_bound [OF ok]] ..
    also have "so_get_position ops (cs_stream s) + length (take (cs_cache_offset s) (cs_cache s)) = cs_position s"
      using w by (simp add: cache_writing_def)
    finally show ?thesis using put wr s1 by simp
  qed
qed

lemma cache_write_all:
  "cache_writing s \<Longrightarrow> cs_position s + length bs \<le> cap (cs_stream s) \<Longrightarrow>
   \<exists>s'. cache_write ops bs s = Some (Inr (length bs, s')) \<and> cache_writing s' \<and>
     cache_contents s' = overwrite (cache_contents s) (cs_position s) bs \<and>
     cap (cs_stream s') = cap (cs_stream s) \<and> cs_position s' = cs_position s + length bs"
proof (induction "2 * length bs + (if cs_cache_offset s < cs_cache_size s then 0 else 1)"
    arbitrary: bs s rule: less_induct)
  case less
  let ?k = "min (length bs) (cs_cache_size s - cs_cache_offset s)"
  obtain s1 where s1: "cache_put bs s = Inr (?k, s1)" "cache_writing s1"
    "cache_contents s1 = overwrite (cache_contents s) (cs_position s) (take ?k bs)"
    "cs_stream s1 = cs_stream s" "cs_position s1 = cs_position s + ?k"
    "cs_cache_size s1 = cs_cache_size s"
    using cache_put_writing [OF less.prems] by blast
  show ?case
  proof (cases "length bs \<le> ?k")
    case True
    then show ?thesis using s1 by (subst cache_write.simps) simp
  next
    case False
    have fit1: "cs_position s1 \<le> cap (cs_stream s1)" using s1 less.prems(2) by simp
    obtain s2 where s2: "flush_cache ops s1 = Inr s2" "cache_writing s2" "cs_cache_offset s2 = 0"
      "cache_contents s2 = cache_contents s1" "cap (cs_stream s2) = cap (cs_stream s1)"
      "cs_position s2 = cs_position s1" "cs_cache_size s2 = cs_cache_size s1"
      using flush_cache_writing [OF s1(2) fit1] by blast
    have z: "0 < cs_cache_size s2" using s2(2) by (simp add: cache_writing_def)
    have dec: "2 * length (drop ?k bs) + (if cs_cache_offset s2 < cs_cache_size s2 then 0 else 1)
        < 2 * length bs + (if cs_cache_offset s < cs_cache_size s then 0 else 1)"
      using False z s2(3) less.prems(1) by (auto simp: cache_writing_def)
    have "cs_position s2 + length (drop ?k bs) \<le> cap (cs_stream s2)"
      using less.prems(2) s1 s2 by simp
    from less.hyps [OF dec s2(2) this] obtain s3 where
      s3: "cache_write ops (drop ?k bs) s2 = Some (Inr (length bs - ?k, s3))" "cache_writing s3"
        "cache_contents s3 = overwrite (cache_contents s2) (cs_position s2) (drop ?k bs)"
        "cap (cs_stream s3) = cap (cs_stream s2)" "cs_position s3 = cs_position s2 + (length bs - ?k)" by auto
    have ok: "ok (cs_stream s)" using less.prems(1) by (simp add: cache_writing_def)
    have p: "cs_position s \<le> length (cache_contents s)"
      using less.prems(1) position_bound [OF ok]
      by (auto simp: cache_writing_def cache_contents_def length_overwrite)
    have kl: "length (take ?k bs) = ?k" by simp
    have "cache_contents s3 = overwrite (cache_contents s) (cs_position s) bs"
      using overwrite_overwrite [OF p, of "take ?k bs" "drop ?k bs"] unfolding kl
      by (simp add: s3(3) s2(4,6) s1(3,5))
    moreover have "cache_write ops bs s = Some (Inr (length bs, s3))"
      using s1(1) s2(1) s3(1) False by (subst cache_write.simps) simp
    ultimately show ?thesis using s1 s2 s3 False by simp
  qed
qed

end

section \<open>The cache over a memory stream\<close>

lemma memory_ops_simps:
  "so_read (memory_ops g) = memory_read" "so_write (memory_ops g) = memory_write g"
  "so_get_length (memory_ops g) = ms_length" "so_get_position (memory_ops g) = ms_position"
  "so_flush (memory_ops g) t = t"
  by (simp_all add: memory_ops_def)

lemma cache_stream_new_writing:
  assumes "memory_ok st" and "0 < n" and "n < 2 ^ 32"
  shows "mem.cache_writing g (cache_stream_new (memory_ops g) j n st)"
  using assms by (simp add: mem.cache_writing_def cache_stream_new_def memory_ops_simps)

definition cache_fresh :: "memory_stream cache_stream \<Rightarrow> memory_stream cache_stream" where
  "cache_fresh s = s\<lparr>cs_dirty := False, cs_cache_offset := 0, cs_cache_length := 0\<rparr>"

lemma cache_stream_new_reading:
  assumes "memory_ok st" and "0 < n" and "n < 2 ^ 32"
  shows "mem.cache_reading g (cache_fresh (cache_stream_new (memory_ops g) j n st))"
    and "flush_cache (memory_ops g) (cache_stream_new (memory_ops g) j n st)
         = Inr (cache_fresh (cache_stream_new (memory_ops g) j n st))"
    and "cache_read (memory_ops g) k (cache_stream_new (memory_ops g) j n st)
         = cache_read (memory_ops g) k (cache_fresh (cache_stream_new (memory_ops g) j n st))"
proof -
  show r: "mem.cache_reading g (cache_fresh (cache_stream_new (memory_ops g) j n st))"
    using assms mem.position_bound [OF assms(1), of g] unfolding memory_ops_simps
    by (auto simp: mem.cache_reading_def cache_fresh_def cache_stream_new_def memory_ops_simps)
  show f: "flush_cache (memory_ops g) (cache_stream_new (memory_ops g) j n st)
         = Inr (cache_fresh (cache_stream_new (memory_ops g) j n st))"
    by (simp add: flush_cache_def cache_fresh_def cache_stream_new_def size_add_def)
  have d: "cs_dirty (cache_stream_new (memory_ops g) j n st)"
    "\<not> cs_dirty (cache_fresh (cache_stream_new (memory_ops g) j n st))"
    by (simp_all add: cache_fresh_def cache_stream_new_def)
  show "cache_read (memory_ops g) k (cache_stream_new (memory_ops g) j n st)
         = cache_read (memory_ops g) k (cache_fresh (cache_stream_new (memory_ops g) j n st))"
    using d f by (subst (1 2) cache_read.simps) simp
qed

text \<open>
  Seeking inside the cached piece does not move the place in the cache: after reading two
  bytes and going back to the start, the next byte read is the third.
\<close>

lemma cache_seek_back_wrong:
  "(case cache_read (memory_ops (\<lambda>_. 0)) 2 (cache_stream_new (memory_ops (\<lambda>_. 0)) (\<lambda>_. 0) 4 four_bytes) of
      Some (Inr (_, s)) \<Rightarrow>
        map_option (map_sum id fst) (cache_read (memory_ops (\<lambda>_. 0)) 1 (s\<lparr>cs_position := 0\<rparr>))
    | _ \<Rightarrow> None) = Some (Inr [3])"
  by (simp add: cache_read.simps flush_cache_def fill_cache_def cache_take_def cache_covers_def
      cache_stream_new_def memory_ops_def memory_read_def four_bytes_def mem_read_def mem_write_def
      size_add_def size_sub_def u32_sub_def fresh_block_def Let_def)

text \<open>
  A write after a read goes to where the read-ahead left the underlying stream, not to the
  position: reading one byte of four and writing one puts it after the fourth byte.
\<close>

lemma cache_write_after_read_wrong:
  "(case cache_read (memory_ops (\<lambda>_. 0)) 1 (cache_stream_new (memory_ops (\<lambda>_. 0)) (\<lambda>_. 0) 4 four_bytes) of
      Some (Inr (_, s)) \<Rightarrow>
        (case cache_write (memory_ops (\<lambda>_. 0)) [9] s of
           Some (Inr (_, s')) \<Rightarrow>
             map_sum id (\<lambda>t. memory_contents (cs_stream t)) (flush_cache (memory_ops (\<lambda>_. 0)) s')
         | _ \<Rightarrow> Inl Undefined)
    | _ \<Rightarrow> Inl Undefined) = Inr [1, 2, 3, 4, 9]"
  by (simp add: cache_read.simps cache_write.simps cache_put_def dirty_cache_def flush_cache_def
      fill_cache_def cache_take_def cache_covers_def cache_stream_new_def memory_ops_def
      memory_read_def memory_write_def memory_set_length_def memory_allocate_def memory_realloc_def
      round_up_def round_down_def memory_block_size_def memory_contents_def four_bytes_def mem_read_def
      mem_write_def size_add_def size_sub_def u32_sub_def fresh_block_def Let_def)

section \<open>Properties\<close>

text \<open>C6: \<^verbatim>\<open>Read(n)\<close> on a fresh \<^verbatim>\<open>CacheStream\<close> over a memory stream returns exactly the next
  \<open>n\<close> bytes, for every cache size, when they are all there; when the stream has fewer, or
  stands at its end, it never returns.\<close>

theorem cache_read_exact_or_never:
  assumes "memory_ok st" and "0 < size_c" and "size_c < 2 ^ 32"
  shows "(ms_position st + n \<le> ms_length st \<and> ms_position st < ms_length st \<longrightarrow>
      (\<exists>s'. cache_read (memory_ops g) n (cache_stream_new (memory_ops g) j size_c st)
         = Some (Inr (take n (drop (ms_position st) (memory_contents st)), s')) \<and>
       memory_contents (cs_stream s') = memory_contents st \<and> cs_position s' = ms_position st + n)) \<and>
    (ms_length st < ms_position st + n \<or> ms_position st = ms_length st \<longrightarrow>
      cache_read (memory_ops g) n (cache_stream_new (memory_ops g) j size_c st) = None)"
proof -
  let ?s = "cache_stream_new (memory_ops g) j size_c st"
  note r = cache_stream_new_reading [OF assms(1-3), where g = g and j = j]
  have st: "cs_stream (cache_fresh ?s) = st" "cs_position (cache_fresh ?s) = ms_position st"
    by (simp_all add: cache_fresh_def cache_stream_new_def memory_ops_simps)
  have l: "length (memory_contents st) = ms_length st" by (rule length_memory_contents [OF assms(1)])
  show ?thesis
    using mem.cache_read_inside [OF r(1), of n] mem.cache_read_past_end [of g n "cache_fresh ?s"] r(1)
    unfolding r(3) st l by (auto simp: mem.cache_over_def st l)
qed

theorem cache_read_exact_or_never_witness:
  "(\<exists>s'. cache_read (memory_ops (\<lambda>_. 0)) 3
       (cache_stream_new (memory_ops (\<lambda>_. 0)) (\<lambda>_. 0) 2 four_bytes) = Some (Inr ([1, 2, 3], s'))) \<and>
   cache_read (memory_ops (\<lambda>_. 0)) 5 (cache_stream_new (memory_ops (\<lambda>_. 0)) (\<lambda>_. 0) 2 four_bytes) = None"
proof
  have p: "ms_position four_bytes = 0" "ms_length four_bytes = 4" by (simp_all add: four_bytes_def)
  show "\<exists>s'. cache_read (memory_ops (\<lambda>_. 0)) 3
       (cache_stream_new (memory_ops (\<lambda>_. 0)) (\<lambda>_. 0) 2 four_bytes) = Some (Inr ([1, 2, 3], s'))"
    using cache_read_exact_or_never [OF four_bytes_ok(1), of 2 3 "\<lambda>_. 0" "\<lambda>_. 0"]
    by (auto simp: four_bytes_ok(2) p)
  show "cache_read (memory_ops (\<lambda>_. 0)) 5 (cache_stream_new (memory_ops (\<lambda>_. 0)) (\<lambda>_. 0) 2 four_bytes) = None"
    using cache_read_exact_or_never [OF four_bytes_ok(1), of 2 5 "\<lambda>_. 0" "\<lambda>_. 0"]
    by (simp add: p)
qed

text \<open>C8: Writing through a fresh \<^verbatim>\<open>CacheStream\<close> always returns and, after \<^verbatim>\<open>Flush\<close>, the
  underlying stream holds what writing to it directly would have left, for every cache size and
  however the data is split over the cache.\<close>

theorem cache_write_flush:
  assumes "memory_ok st" and "0 < size_c" and "size_c < 2 ^ 32"
    and "ms_position st + length bs \<le> 2 ^ 62"
  shows "\<exists>s1 s2. cache_write (memory_ops g) bs (cache_stream_new (memory_ops g) j size_c st)
        = Some (Inr (length bs, s1)) \<and>
      cache_flush (memory_ops g) s1 = Inr s2 \<and>
      memory_contents (cs_stream s2) = overwrite (memory_contents st) (ms_position st) bs \<and>
      cs_position s2 = ms_position st + length bs"
proof -
  let ?s = "cache_stream_new (memory_ops g) j size_c st"
  have f: "cs_position ?s = ms_position st" "cs_stream ?s = st" "cs_cache_offset ?s = 0"
    by (simp_all add: cache_stream_new_def memory_ops_def)
  have c: "mem.cache_contents g ?s = memory_contents st"
    by (simp add: mem.cache_contents_def f overwrite_Nil)
  obtain s1 where s1: "cache_write (memory_ops g) bs ?s = Some (Inr (length bs, s1))"
    "mem.cache_writing g s1" "mem.cache_contents g s1 = overwrite (memory_contents st) (ms_position st) bs"
    "cs_position s1 = ms_position st + length bs"
    using mem.cache_write_all [OF cache_stream_new_writing [OF assms(1-3)], of g j bs] assms(4) f c by auto
  obtain s2 where "flush_cache (memory_ops g) s1 = Inr s2"
    "memory_contents (cs_stream s2) = mem.cache_contents g s1" "cs_position s2 = cs_position s1"
    using mem.flush_cache_writing [OF s1(2)] s1(4) assms(4) by auto
  then show ?thesis using s1 by (simp add: cache_flush_def memory_ops_simps)
qed

theorem cache_write_flush_witness:
  "\<exists>s1 s2. cache_write (memory_ops (\<lambda>_. 0)) [7, 8, 9]
        (cache_stream_new (memory_ops (\<lambda>_. 0)) (\<lambda>_. 0) 2 four_bytes) = Some (Inr (3, s1)) \<and>
      cache_flush (memory_ops (\<lambda>_. 0)) s1 = Inr s2 \<and>
      memory_contents (cs_stream s2) = [7, 8, 9, 4]"
proof -
  have p: "ms_position four_bytes = 0" by (simp add: four_bytes_def)
  show ?thesis
    using cache_write_flush [OF four_bytes_ok(1), of 2 "[7, 8, 9]" "\<lambda>_. 0" "\<lambda>_. 0"]
    by (auto simp: four_bytes_ok(2) overwrite_def p)
qed

end
