(* ===== verification/Time_Span.thy ===== *)
theory Time_Span
  imports Prelude
begin

text \<open>
  \<^verbatim>\<open>Timespan\<close> and \<^verbatim>\<open>Time\<close> (\<^verbatim>\<open>source/core/timespan.cpp\<close>, \<^verbatim>\<open>source/core/time.cpp\<close>).  A span is a
  count of ticks of 100 nanoseconds in an \<^verbatim>\<open>s64\<close>; a time is seconds and nanoseconds in
  \<^verbatim>\<open>long\<close>s of 64 bits.  Arithmetic is narrowed where the source narrows it: the products of
  two \<^verbatim>\<open>int\<close>s in the constructors are \<^verbatim>\<open>int\<close>s.  The arithmetic of \<^verbatim>\<open>float\<close> and
  the system's clock are parameters.
\<close>

section \<open>Timespan\<close>

definition ticks_day :: int where "ticks_day = 864000000000"
definition ticks_hour :: int where "ticks_hour = 36000000000"
definition ticks_minute :: int where "ticks_minute = 600000000"
definition ticks_second :: int where "ticks_second = 10000000"
definition ticks_millisecond :: int where "ticks_millisecond = 10000"
definition ticks_microsecond :: int where "ticks_microsecond = 10"
definition tick_nanoseconds :: int where "tick_nanoseconds = 100"

lemmas ticks_defs = ticks_day_def ticks_hour_def ticks_minute_def ticks_second_def
  ticks_millisecond_def ticks_microsecond_def tick_nanoseconds_def

type_synonym timespan = int

definition timespan_hms :: "int \<Rightarrow> int \<Rightarrow> int \<Rightarrow> timespan" where
  "timespan_hms hours minutes seconds =
     s64 (hours * ticks_hour + minutes * ticks_minute + s32 (seconds * ticks_second))"

definition timespan_hmsm :: "int \<Rightarrow> int \<Rightarrow> int \<Rightarrow> int \<Rightarrow> timespan" where
  "timespan_hmsm hours minutes seconds milliseconds =
     s64 (hours * ticks_hour + minutes * ticks_minute + s32 (seconds * ticks_second) +
          s32 (milliseconds * ticks_millisecond))"

definition timespan_dhmsm :: "int \<Rightarrow> int \<Rightarrow> int \<Rightarrow> int \<Rightarrow> int \<Rightarrow> timespan" where
  "timespan_dhmsm days hours minutes seconds milliseconds =
     s64 (days * ticks_day + hours * ticks_hour + minutes * ticks_minute +
          s32 (seconds * ticks_second) + s32 (milliseconds * ticks_millisecond))"

definition from_days :: "int \<Rightarrow> timespan" where "from_days n = s64 (n * ticks_day)"
definition from_hours :: "int \<Rightarrow> timespan" where "from_hours n = s64 (n * ticks_hour)"
definition from_minutes :: "int \<Rightarrow> timespan" where "from_minutes n = s64 (n * ticks_minute)"
definition from_seconds :: "int \<Rightarrow> timespan" where "from_seconds n = s64 (n * ticks_second)"
definition from_milliseconds :: "int \<Rightarrow> timespan" where
  "from_milliseconds n = s64 (n * ticks_millisecond)"

definition convert_days :: "int \<Rightarrow> int" where "convert_days n = s64 (n * ticks_day)"
definition convert_hours :: "int \<Rightarrow> int" where "convert_hours n = s64 (n * ticks_hour)"
definition convert_minutes :: "int \<Rightarrow> int" where "convert_minutes n = s64 (n * ticks_minute)"
definition convert_seconds :: "int \<Rightarrow> int" where "convert_seconds n = s64 (n * ticks_second)"
definition convert_milliseconds :: "int \<Rightarrow> int" where
  "convert_milliseconds n = s64 (n * ticks_millisecond)"
definition convert_microseconds :: "int \<Rightarrow> int" where
  "convert_microseconds n = s64 (n * ticks_microsecond)"
definition convert_nanoseconds :: "int \<Rightarrow> int" where
  "convert_nanoseconds n = c_div n tick_nanoseconds"

definition convert_to_days :: "int \<Rightarrow> int" where "convert_to_days t = c_div t ticks_day"
definition convert_to_hours :: "int \<Rightarrow> int" where "convert_to_hours t = c_div t ticks_hour"
definition convert_to_minutes :: "int \<Rightarrow> int" where "convert_to_minutes t = c_div t ticks_minute"
definition convert_to_seconds :: "int \<Rightarrow> int" where "convert_to_seconds t = c_div t ticks_second"
definition convert_to_milliseconds :: "int \<Rightarrow> int" where
  "convert_to_milliseconds t = c_div t ticks_millisecond"
definition convert_to_microseconds :: "int \<Rightarrow> int" where
  "convert_to_microseconds t = c_div t ticks_microsecond"
definition convert_to_nanoseconds :: "int \<Rightarrow> int" where
  "convert_to_nanoseconds t = s64 (t * tick_nanoseconds)"

definition as_hours :: "timespan \<Rightarrow> int" where "as_hours t = s32 (c_div t ticks_hour)"
definition as_minutes :: "timespan \<Rightarrow> int" where "as_minutes t = s32 (c_div t ticks_minute)"
definition as_seconds :: "timespan \<Rightarrow> int" where "as_seconds t = c_div t ticks_second"
definition as_milliseconds :: "timespan \<Rightarrow> int" where "as_milliseconds t = c_div t ticks_millisecond"

definition get_days :: "timespan \<Rightarrow> int" where "get_days t = s32 (c_div t ticks_day)"
definition as_days :: "timespan \<Rightarrow> int" where "as_days t = get_days t"
definition get_hours :: "timespan \<Rightarrow> int" where "get_hours t = c_mod (as_hours t) 24"
definition get_minutes :: "timespan \<Rightarrow> int" where "get_minutes t = c_mod (as_minutes t) 60"
definition get_seconds :: "timespan \<Rightarrow> int" where "get_seconds t = s32 (c_mod (as_seconds t) 60)"
definition get_milliseconds :: "timespan \<Rightarrow> int" where
  "get_milliseconds t = s32 (c_mod (as_milliseconds t) 60)"

record timespec =
  tv_sec :: int
  tv_nsec :: int

definition span_get_timespec :: "timespan \<Rightarrow> timespec" where
  "span_get_timespec t =
     (let sec = as_seconds t in
      \<lparr>tv_sec = sec, tv_nsec = s64 (s64 (t - s64 (sec * ticks_second)) * tick_nanoseconds)\<rparr>)"

definition span_add :: "timespan \<Rightarrow> timespan \<Rightarrow> timespan" where "span_add a b = s64 (a + b)"
definition span_sub :: "timespan \<Rightarrow> timespan \<Rightarrow> timespan" where "span_sub a b = s64 (a - b)"

text \<open>The overloads for \<^verbatim>\<open>float\<close>: the constant is converted to \<^verbatim>\<open>float\<close>, as is the count of
  ticks.\<close>

definition from_float :: "'f float_ops \<Rightarrow> int \<Rightarrow> 'f \<Rightarrow> timespan result" where
  "from_float F unit x = float_to_s64 F (fl_mul F x (fl_of_int F unit))"

definition from_days_float :: "'f float_ops \<Rightarrow> 'f \<Rightarrow> timespan result" where
  "from_days_float F = from_float F ticks_day"
definition from_hours_float :: "'f float_ops \<Rightarrow> 'f \<Rightarrow> timespan result" where
  "from_hours_float F = from_float F ticks_hour"
definition from_minutes_float :: "'f float_ops \<Rightarrow> 'f \<Rightarrow> timespan result" where
  "from_minutes_float F = from_float F ticks_minute"
definition from_seconds_float :: "'f float_ops \<Rightarrow> 'f \<Rightarrow> timespan result" where
  "from_seconds_float F = from_float F ticks_second"
definition from_milliseconds_float :: "'f float_ops \<Rightarrow> 'f \<Rightarrow> timespan result" where
  "from_milliseconds_float F = from_float F ticks_millisecond"

definition total_float :: "'f float_ops \<Rightarrow> int \<Rightarrow> timespan \<Rightarrow> 'f" where
  "total_float F unit t = fl_div F (fl_of_int F t) (fl_of_int F unit)"

definition get_total_days :: "'f float_ops \<Rightarrow> timespan \<Rightarrow> 'f" where
  "get_total_days F = total_float F ticks_day"
definition get_total_hours :: "'f float_ops \<Rightarrow> timespan \<Rightarrow> 'f" where
  "get_total_hours F = total_float F ticks_hour"
definition get_total_minutes :: "'f float_ops \<Rightarrow> timespan \<Rightarrow> 'f" where
  "get_total_minutes F = total_float F ticks_minute"
definition get_total_seconds :: "'f float_ops \<Rightarrow> timespan \<Rightarrow> 'f" where
  "get_total_seconds F = total_float F ticks_second"
definition get_total_milliseconds :: "'f float_ops \<Rightarrow> timespan \<Rightarrow> 'f" where
  "get_total_milliseconds F = total_float F ticks_millisecond"

section \<open>Time\<close>

record time =
  t_seconds :: int
  t_nanoseconds :: int

definition time_nanoseconds :: int where "time_nanoseconds = 1000000000"
definition time_microseconds_nanoseconds :: int where "time_microseconds_nanoseconds = 1000"

definition time_of_timespec :: "timespec \<Rightarrow> time" where
  "time_of_timespec ts = \<lparr>t_seconds = tv_sec ts, t_nanoseconds = tv_nsec ts\<rparr>"

text \<open>\<^verbatim>\<open>clock_gettime\<close> with the real time clock.\<close>

definition time_get_current :: "('w \<Rightarrow> timespec \<times> 'w) \<Rightarrow> 'w \<Rightarrow> time \<times> 'w" where
  "time_get_current clock w = (case clock w of (spec, w') \<Rightarrow> (time_of_timespec spec, w'))"

definition time_of_timeval :: "int \<times> int \<Rightarrow> time" where
  "time_of_timeval tv =
     \<lparr>t_seconds = fst tv, t_nanoseconds = s64 (snd tv * time_microseconds_nanoseconds)\<rparr>"

definition time_normalize :: "time \<Rightarrow> time" where
  "time_normalize t =
     (let secs = c_div (t_nanoseconds t) time_nanoseconds in
      if secs \<noteq> 0
      then \<lparr>t_seconds = s64 (t_seconds t + secs),
            t_nanoseconds = c_mod (t_nanoseconds t) time_nanoseconds\<rparr>
      else t)"

definition time_get_timespec :: "time \<Rightarrow> timespec" where
  "time_get_timespec t = \<lparr>tv_sec = t_seconds t, tv_nsec = t_nanoseconds t\<rparr>"

definition time_get_timeval :: "time \<Rightarrow> int \<times> int" where
  "time_get_timeval t = (t_seconds t, c_div (t_nanoseconds t) time_microseconds_nanoseconds)"

definition time_add_assign :: "time \<Rightarrow> timespan \<Rightarrow> time" where
  "time_add_assign t span =
     (let secs = s32 (as_seconds span) in
      time_normalize
        \<lparr>t_seconds = s64 (t_seconds t + secs),
         t_nanoseconds = s64 (t_nanoseconds t +
           convert_to_nanoseconds (s64 (span - convert_seconds secs)))\<rparr>)"

definition time_sub_assign :: "time \<Rightarrow> timespan \<Rightarrow> time" where
  "time_sub_assign t span =
     (let secs = s32 (as_seconds span) in
      time_normalize
        \<lparr>t_seconds = s64 (t_seconds t - secs),
         t_nanoseconds = s64 (t_nanoseconds t -
           convert_to_nanoseconds (s64 (span - convert_seconds secs)))\<rparr>)"

definition time_diff :: "time \<Rightarrow> time \<Rightarrow> timespan" where
  "time_diff t u =
     s64 (convert_seconds (s64 (t_seconds t - t_seconds u)) +
          convert_nanoseconds (s64 (t_nanoseconds t - t_nanoseconds u)))"

definition time_less :: "time \<Rightarrow> time \<Rightarrow> bool" where
  "time_less t u \<longleftrightarrow>
     (if t_seconds t = t_seconds u then t_nanoseconds t < t_nanoseconds u
      else t_seconds t < t_seconds u)"

section \<open>Lemmas\<close>

definition time_total :: "time \<Rightarrow> int" where
  "time_total t = t_seconds t * 1000000000 + t_nanoseconds t"

definition time_in_range :: "time \<Rightarrow> bool" where
  "time_in_range t \<longleftrightarrow> \<bar>t_seconds t\<bar> < 4294967296 \<and> \<bar>t_nanoseconds t\<bar> < 1000000000"

definition time_normal :: "time \<Rightarrow> bool" where
  "time_normal t \<longleftrightarrow> 0 \<le> t_nanoseconds t \<and> t_nanoseconds t < 1000000000"

text \<open>A span of less than \<open>2147483648\<close> seconds.\<close>

definition span_in_range :: "timespan \<Rightarrow> bool" where
  "span_in_range t \<longleftrightarrow> \<bar>t\<bar> < 21474836480000000"

lemma s64_abs: "\<bar>x\<bar> < 4611686018427387904 \<Longrightarrow> s64 x = x"
  by (rule s64_id) simp_all

lemma s32_abs: "\<bar>x\<bar> < 2147483648 \<Longrightarrow> s32 x = x"
  by (rule s32_id) simp_all

lemma c_div_mod_bounds:
  assumes "0 < b"
  shows "a = c_div a b * b + c_mod a b" and "\<bar>c_mod a b\<bar> < b"
    and "0 \<le> a \<Longrightarrow> 0 \<le> c_mod a b \<and> 0 \<le> c_div a b"
    and "a \<le> 0 \<Longrightarrow> c_mod a b \<le> 0 \<and> c_div a b \<le> 0"
proof -
  show "a = c_div a b * b + c_mod a b" by (simp add: c_div_mod)
  show "\<bar>c_mod a b\<bar> < b" by (rule c_mod_bound [OF assms])
  show "0 \<le> c_mod a b \<and> 0 \<le> c_div a b" if "0 \<le> a"
    using that assms by (simp add: c_mod_nonneg c_div_nonneg pos_imp_zdiv_nonneg_iff)
  show "c_mod a b \<le> 0 \<and> c_div a b \<le> 0" if "a \<le> 0"
  proof -
    have "c_mod a b = - ((- a) mod b)" "c_div a b = - ((- a) div b)"
      using that assms by (simp_all add: c_mod_def c_div_neg minus_div_mult_eq_mod [symmetric])
    then show ?thesis using that assms by (simp add: pos_imp_zdiv_nonneg_iff)
  qed
qed

lemma time_normalize_total:
  assumes "\<bar>t_seconds t\<bar> < 1152921504606846976" and "\<bar>t_nanoseconds t\<bar> < 1152921504606846976"
  shows "time_total (time_normalize t) = time_total t"
    and "\<bar>t_nanoseconds (time_normalize t)\<bar> < 1000000000"
    and "0 \<le> t_nanoseconds t \<Longrightarrow> 0 \<le> t_nanoseconds (time_normalize t)"
proof -
  define q r where qr: "q = c_div (t_nanoseconds t) 1000000000" "r = c_mod (t_nanoseconds t) 1000000000"
  have pos: "(0::int) < 1000000000" by simp
  note m = c_div_mod_bounds [OF pos, of "t_nanoseconds t", folded qr]
  note q = qr(1) [symmetric] qr(2) [symmetric] m(1-3)
  have "\<bar>q\<bar> < 1152921504606846976" using q(3,4) assms(2) by linarith
  then have "\<bar>t_seconds t + q\<bar> < 4611686018427387904" using assms(1) by linarith
  then have w: "s64 (t_seconds t + q) = t_seconds t + q" by (rule s64_abs)
  have n: "time_normalize t = (if q \<noteq> 0 then \<lparr>t_seconds = t_seconds t + q, t_nanoseconds = r\<rparr> else t)"
    by (simp add: time_normalize_def time_nanoseconds_def q(1,2) w)
  have z: "q = 0 \<Longrightarrow> t_nanoseconds t = r" using q(3) by simp
  show "time_total (time_normalize t) = time_total t"
    unfolding n time_total_def using q(3) by simp
  show "\<bar>t_nanoseconds (time_normalize t)\<bar> < 1000000000"
    unfolding n using q(4) z by simp
  show "0 \<le> t_nanoseconds (time_normalize t)" if "0 \<le> t_nanoseconds t"
    unfolding n using q(5) that by simp
qed

text \<open>The parts of a span that the two assignments add.\<close>

lemma span_parts:
  assumes "span_in_range span"
  obtains secs ns where "s32 (as_seconds span) = secs"
    "convert_to_nanoseconds (s64 (span - convert_seconds secs)) = ns"
    "span * 100 = secs * 1000000000 + ns" "\<bar>secs\<bar> < 2147483648" "\<bar>ns\<bar> < 1000000000"
    "0 \<le> span \<Longrightarrow> 0 \<le> ns" "\<exists>k. ns = k * 100"
proof -
  define q r where qr: "q = c_div span 10000000" "r = c_mod span 10000000"
  have pos: "(0::int) < 10000000" by simp
  note m = c_div_mod_bounds [OF pos, of span, folded qr]
  note q = qr(1) [symmetric] m(1-4)
  have "\<bar>span\<bar> < 21474836480000000" using assms by (simp add: span_in_range_def)
  then have qb: "\<bar>q\<bar> < 2147483648" using q(2,3,4,5) by (cases "0 \<le> span") linarith+
  then have "s32 q = q" by (rule s32_abs)
  moreover have "\<bar>q * 10000000\<bar> < 4611686018427387904" using qb by linarith
  then have "convert_seconds q = q * 10000000"
    unfolding convert_seconds_def ticks_second_def by (rule s64_abs)
  moreover have "\<bar>r\<bar> < 4611686018427387904" "\<bar>r * 100\<bar> < 4611686018427387904" using q(3) by - linarith+
  then have "s64 r = r" "s64 (r * 100) = r * 100" by (simp_all only: s64_abs)
  moreover have "span - q * 10000000 = r" using q(2) by simp
  ultimately have e: "s32 (as_seconds span) = q"
    "convert_to_nanoseconds (s64 (span - convert_seconds q)) = r * 100"
    by (simp_all only: as_seconds_def ticks_second_def convert_to_nanoseconds_def tick_nanoseconds_def q(1))
  show thesis
  proof (rule that [OF e])
    show "span * 100 = q * 1000000000 + r * 100" using q(2) by linarith
    show "\<bar>q\<bar> < 2147483648" by (rule qb)
    show "\<bar>r * 100\<bar> < 1000000000" using q(3) by linarith
    show "0 \<le> r * 100" if "0 \<le> span" using q(4) [OF that] by simp
    show "\<exists>k. r * 100 = k * 100" by blast
  qed
qed

lemma time_add_assign_total:
  assumes "time_in_range t" and "span_in_range span"
  shows "time_total (time_add_assign t span) = time_total t + span * 100"
    and "\<bar>t_nanoseconds (time_add_assign t span)\<bar> < 1000000000"
    and "0 \<le> t_nanoseconds t \<Longrightarrow> 0 \<le> span \<Longrightarrow> 0 \<le> t_nanoseconds (time_add_assign t span)"
proof -
  obtain secs ns where p: "s32 (as_seconds span) = secs"
    "convert_to_nanoseconds (s64 (span - convert_seconds secs)) = ns"
    "span * 100 = secs * 1000000000 + ns" "\<bar>secs\<bar> < 2147483648" "\<bar>ns\<bar> < 1000000000" "0 \<le> span \<Longrightarrow> 0 \<le> ns"
    using assms(2) by (rule span_parts) blast
  have r: "\<bar>t_seconds t\<bar> < 4294967296" "\<bar>t_nanoseconds t\<bar> < 1000000000"
    using assms(1) by (simp_all add: time_in_range_def)
  have s: "\<bar>t_seconds t + secs\<bar> < 1152921504606846976" "\<bar>t_nanoseconds t + ns\<bar> < 1152921504606846976"
    using r p(4,5) by - linarith+
  then have "\<bar>t_seconds t + secs\<bar> < 4611686018427387904" "\<bar>t_nanoseconds t + ns\<bar> < 4611686018427387904" by - linarith+
  then have w: "s64 (t_seconds t + secs) = t_seconds t + secs" "s64 (t_nanoseconds t + ns) = t_nanoseconds t + ns"
    by (simp_all only: s64_abs)
  let ?u = "\<lparr>t_seconds = t_seconds t + secs, t_nanoseconds = t_nanoseconds t + ns\<rparr>"
  have e: "time_add_assign t span = time_normalize ?u"
    by (simp add: time_add_assign_def p(1,2) w)
  have b: "\<bar>t_seconds ?u\<bar> < 1152921504606846976" "\<bar>t_nanoseconds ?u\<bar> < 1152921504606846976"
    using s by simp_all
  show "time_total (time_add_assign t span) = time_total t + span * 100"
    "\<bar>t_nanoseconds (time_add_assign t span)\<bar> < 1000000000"
    "0 \<le> t_nanoseconds t \<Longrightarrow> 0 \<le> span \<Longrightarrow> 0 \<le> t_nanoseconds (time_add_assign t span)"
    using time_normalize_total [OF b] p by (simp_all add: e time_total_def)
qed

lemma time_sub_assign_total:
  assumes "time_in_range t" and "span_in_range span"
  shows "time_total (time_sub_assign t span) = time_total t - span * 100"
    and "\<bar>t_nanoseconds (time_sub_assign t span)\<bar> < 1000000000"
proof -
  obtain secs ns where p: "s32 (as_seconds span) = secs"
    "convert_to_nanoseconds (s64 (span - convert_seconds secs)) = ns"
    "span * 100 = secs * 1000000000 + ns" "\<bar>secs\<bar> < 2147483648" "\<bar>ns\<bar> < 1000000000"
    using assms(2) by (rule span_parts) blast
  have r: "\<bar>t_seconds t\<bar> < 4294967296" "\<bar>t_nanoseconds t\<bar> < 1000000000"
    using assms(1) by (simp_all add: time_in_range_def)
  have s: "\<bar>t_seconds t - secs\<bar> < 1152921504606846976" "\<bar>t_nanoseconds t - ns\<bar> < 1152921504606846976"
    using r p(4,5) by - linarith+
  then have "\<bar>t_seconds t - secs\<bar> < 4611686018427387904" "\<bar>t_nanoseconds t - ns\<bar> < 4611686018427387904" by - linarith+
  then have w: "s64 (t_seconds t - secs) = t_seconds t - secs" "s64 (t_nanoseconds t - ns) = t_nanoseconds t - ns"
    by (simp_all only: s64_abs)
  let ?u = "\<lparr>t_seconds = t_seconds t - secs, t_nanoseconds = t_nanoseconds t - ns\<rparr>"
  have e: "time_sub_assign t span = time_normalize ?u"
    by (simp add: time_sub_assign_def p(1,2) w)
  have b: "\<bar>t_seconds ?u\<bar> < 1152921504606846976" "\<bar>t_nanoseconds ?u\<bar> < 1152921504606846976"
    using s by simp_all
  show "time_total (time_sub_assign t span) = time_total t - span * 100"
    "\<bar>t_nanoseconds (time_sub_assign t span)\<bar> < 1000000000"
    using time_normalize_total [OF b] p by (simp_all add: e time_total_def)
qed

lemma c_div_exact: "0 < b \<Longrightarrow> c_div (k * b) b = k"
proof (cases "0 \<le> k")
  case False
  assume b: "0 < b"
  have "- (k * b) = (- k) * b" by simp
  then have "- (k * b) div b = - k" using b by (simp only: nonzero_mult_div_cancel_right)
  then show ?thesis using False b by (simp add: c_div_neg mult_nonpos_nonneg)
qed (simp add: c_div_nonneg)

lemma time_diff_add:
  assumes "time_in_range t" and "span_in_range span"
  shows "time_diff (time_add_assign t span) t = span"
proof -
  let ?u = "time_add_assign t span"
  define ds dn where d: "ds = t_seconds ?u - t_seconds t" "dn = t_nanoseconds ?u - t_nanoseconds t"
  have e: "ds * 1000000000 + dn = span * 100"
    using time_add_assign_total(1) [OF assms] by (simp add: time_total_def d algebra_simps)
  have b: "\<bar>t_nanoseconds t\<bar> < 1000000000" "\<bar>t_nanoseconds ?u\<bar> < 1000000000" "\<bar>span\<bar> < 21474836480000000"
    using time_add_assign_total(2) [OF assms] assms by (simp_all add: time_in_range_def span_in_range_def)
  have dn: "\<bar>dn\<bar> < 2000000000" using b(1,2) unfolding d by linarith
  have ds: "\<bar>ds\<bar> < 4294967296" using e dn b(3) by linarith
  have k: "dn = (span - ds * 10000000) * tick_nanoseconds"
    using e by (simp add: tick_nanoseconds_def)
  have "\<bar>ds\<bar> < 4611686018427387904" "\<bar>dn\<bar> < 4611686018427387904" "\<bar>ds * 10000000\<bar> < 4611686018427387904"
    "\<bar>span\<bar> < 4611686018427387904"
    using ds dn b(3) by - linarith+
  then have w: "s64 ds = ds" "s64 dn = dn" "convert_seconds ds = ds * 10000000" "s64 span = span"
    by (simp_all only: s64_abs convert_seconds_def ticks_second_def)
  have "convert_nanoseconds dn = span - ds * 10000000"
    unfolding convert_nanoseconds_def k by (rule c_div_exact) (simp add: tick_nanoseconds_def)
  then show ?thesis using w by (simp add: time_diff_def flip: d)
qed

text \<open>
  \<^verbatim>\<open>-=\<close> keeps the total but not the normal form: one second less half a second has negative
  nanoseconds, and compares as later than 0.9 seconds.
\<close>

lemma time_sub_assign_negative:
  "time_sub_assign \<lparr>t_seconds = 1, t_nanoseconds = 0\<rparr> 5000000 =
     \<lparr>t_seconds = 1, t_nanoseconds = - 500000000\<rparr>"
  "time_less \<lparr>t_seconds = 0, t_nanoseconds = 900000000\<rparr>
     (time_sub_assign \<lparr>t_seconds = 1, t_nanoseconds = 0\<rparr> 5000000)"
proof -
  have "s64 5000000 = 5000000" "s64 500000000 = 500000000" "s64 (- 500000000) = - 500000000" "s32 0 = 0"
    "s64 0 = 0" "s64 1 = 1"
    by (simp_all add: s64_id s32_id)
  then show "time_sub_assign \<lparr>t_seconds = 1, t_nanoseconds = 0\<rparr> 5000000 =
     \<lparr>t_seconds = 1, t_nanoseconds = - 500000000\<rparr>"
    by (simp add: time_sub_assign_def as_seconds_def ticks_second_def c_div_def c_mod_def convert_seconds_def
        convert_to_nanoseconds_def tick_nanoseconds_def time_normalize_def time_nanoseconds_def Let_def)
  then show "time_less \<lparr>t_seconds = 0, t_nanoseconds = 900000000\<rparr>
     (time_sub_assign \<lparr>t_seconds = 1, t_nanoseconds = 0\<rparr> 5000000)"
    by (simp add: time_less_def)
qed

text \<open>
  \<^verbatim>\<open>GetMilliseconds\<close> reduces modulo 60: for 0.999 seconds it is 39.  The constructors multiply
  \<^verbatim>\<open>int\<close>s: five minutes given as 300 seconds overflow.
\<close>

lemma get_milliseconds_modulo_60: "get_milliseconds (from_milliseconds 999) = 39"
proof -
  have "s64 9990000 = 9990000" "s32 39 = 39" by (simp_all add: s64_id s32_id)
  then show ?thesis
    by (simp add: get_milliseconds_def from_milliseconds_def as_milliseconds_def ticks_millisecond_def
        c_div_nonneg c_mod_nonneg)
qed

lemma timespan_hms_overflow:
  "timespan_hms 0 0 300 = - 1294967296" "from_seconds 300 = 3000000000"
  by (simp_all add: timespan_hms_def from_seconds_def ticks_defs s32_def s64_def
      signed_take_bit_eq_take_bit_minus take_bit_eq_mod bit_iff_odd_drop_bit drop_bit_eq_div)

section \<open>Properties\<close>

text \<open>Adding a span of less than \<open>2 ^ 31\<close> seconds to a time is exact to the nanosecond,
  whatever the signs; it keeps the nanoseconds below a second, and not negative when they were
  not and the span is not; and the difference of the sum and the old time is the span.\<close>

theorem time_add_exact:
  assumes "time_in_range t" and "span_in_range span"
  shows "time_total (time_add_assign t span) = time_total t + span * 100 \<and>
    \<bar>t_nanoseconds (time_add_assign t span)\<bar> < 1000000000 \<and>
    (time_normal t \<and> 0 \<le> span \<longrightarrow> time_normal (time_add_assign t span)) \<and>
    time_diff (time_add_assign t span) t = span \<and>
    time_total (time_sub_assign t span) = time_total t - span * 100"
  using time_add_assign_total [OF assms] time_diff_add [OF assms] time_sub_assign_total [OF assms]
  by (auto simp: time_normal_def)

theorem time_add_exact_witness:
  "time_total (time_add_assign \<lparr>t_seconds = 10, t_nanoseconds = 999999900\<rparr> 12345678) =
     time_total \<lparr>t_seconds = 10, t_nanoseconds = 999999900\<rparr> + 12345678 * 100 \<and>
   time_diff (time_add_assign \<lparr>t_seconds = 10, t_nanoseconds = 999999900\<rparr> 12345678)
     \<lparr>t_seconds = 10, t_nanoseconds = 999999900\<rparr> = 12345678"
  using time_add_exact [of "\<lparr>t_seconds = 10, t_nanoseconds = 999999900\<rparr>" 12345678]
  by (simp add: time_in_range_def span_in_range_def)



end
