(* ===== verification/Hashing.thy ===== *)
theory Hashing
  imports Streams Endian
begin

text \<open>
  Hashes: \<^verbatim>\<open>include/bricks/cryptography/hashalgorithm.h\<close>, \<^verbatim>\<open>crc32.h\<close>, \<^verbatim>\<open>hash.h\<close> and
  \<^verbatim>\<open>source/cryptography\<close>.  A hash value is a \<^verbatim>\<open>Data\<close> that holds the state as an
  integer in the host's byte order; it is given here by its bytes.  The locale \<open>hash_contract\<close>
  is what \<^verbatim>\<open>Hash\<close> needs of an algorithm: processing in pieces is processing the whole.
\<close>

section \<open>Algorithms\<close>

record hash_algorithm =
  ha_preprocess :: bytes
  ha_process :: "bytes \<Rightarrow> bytes \<Rightarrow> bytes result"
  ha_postprocess :: "bytes \<Rightarrow> bytes result"
  ha_size :: nat

definition crc_step :: "u32 \<Rightarrow> u32" where
  "crc_step n = drop_bit 1 n XOR (if n AND 1 \<noteq> 0 then 0xedb88320 else 0)"

definition crc_table :: "u32 list" where
  "crc_table = map (\<lambda>i. (crc_step ^^ 8) (of_nat i)) [0..<0x100]"

definition crc_preprocess :: "bool \<Rightarrow> bytes" where
  "crc_preprocess host = store_native host 4 (0xffffffff :: u32)"

definition crc_update :: "u32 list \<Rightarrow> u32 \<Rightarrow> u8 \<Rightarrow> u32" where
  "crc_update table v b = drop_bit 8 v XOR table ! unat ((v XOR ucast b) AND 0xff)"

definition crc_process :: "bool \<Rightarrow> bytes \<Rightarrow> bytes \<Rightarrow> bytes result" where
  "crc_process host hash dat =
     bind_r (mem_read hash 0 4) (\<lambda>h.
     Inr (store_native host 4 (foldl (crc_update crc_table) (load_native host h) dat)))"

definition crc_postprocess :: "bool \<Rightarrow> bytes \<Rightarrow> bytes result" where
  "crc_postprocess host hash =
     bind_r (mem_read hash 0 4) (\<lambda>h.
     Inr (store_native host 4 ((load_native host h :: u32) XOR 0xffffffff)))"

definition crc32_algorithm :: "bool \<Rightarrow> hash_algorithm" where
  "crc32_algorithm host =
     \<lparr>ha_preprocess = crc_preprocess host, ha_process = crc_process host,
      ha_postprocess = crc_postprocess host, ha_size = 4\<rparr>"

text \<open>\<^verbatim>\<open>LinearCongruentialHashAlgorithm<u32, A, S>\<close>.\<close>

definition lc_preprocess :: "bool \<Rightarrow> u32 \<Rightarrow> bytes" where
  "lc_preprocess host s = store_native host 4 s"

definition lc_process :: "bool \<Rightarrow> u32 \<Rightarrow> bytes \<Rightarrow> bytes \<Rightarrow> bytes result" where
  "lc_process host a hash dat =
     bind_r (mem_read hash 0 4) (\<lambda>h.
     Inr (store_native host 4 (foldl (\<lambda>v b. a * v + ucast b) (load_native host h) dat)))"

definition lc_postprocess :: "bytes \<Rightarrow> bytes result" where
  "lc_postprocess hash = Inr hash"

definition lc_algorithm :: "bool \<Rightarrow> u32 \<Rightarrow> u32 \<Rightarrow> hash_algorithm" where
  "lc_algorithm host a s =
     \<lparr>ha_preprocess = lc_preprocess host s, ha_process = lc_process host a,
      ha_postprocess = lc_postprocess, ha_size = 4\<rparr>"

definition djb2_algorithm :: "bool \<Rightarrow> hash_algorithm" where
  "djb2_algorithm host = lc_algorithm host 33 5381"

section \<open>Hash\<close>

definition compute_hash :: "hash_algorithm \<Rightarrow> bytes \<Rightarrow> bytes result" where
  "compute_hash alg dat =
     bind_r (ha_process alg (ha_preprocess alg) dat) (\<lambda>h. ha_postprocess alg h)"

text \<open>\<^verbatim>\<open>ComputeHash(Stream*)\<close>: every round hashes the whole buffer, whatever was read.\<close>

partial_function (option) hash_loop ::
    "'s stream_ops \<Rightarrow> hash_algorithm \<Rightarrow> bytes \<Rightarrow> data \<Rightarrow> 's \<Rightarrow> (bytes \<times> 's) result option" where
  "hash_loop ops alg hash buffer s =
     (case stream_read_data ops buffer s of
        Inl e \<Rightarrow> Some (Inl e)
      | Inr (len, buffer', s') \<Rightarrow>
          (case ha_process alg hash (data_contents buffer') of
             Inl e \<Rightarrow> Some (Inl e)
           | Inr hash' \<Rightarrow>
               if len > 0 then hash_loop ops alg hash' buffer' s' else Some (Inr (hash', s'))))"

definition compute_hash_stream ::
    "(nat \<Rightarrow> u8) \<Rightarrow> 's stream_ops \<Rightarrow> hash_algorithm \<Rightarrow> 's \<Rightarrow> bytes result option" where
  "compute_hash_stream g ops alg s =
     Option.bind (hash_loop ops alg (ha_preprocess alg) (data_new g 0x1000) s)
       (\<lambda>r. Some (bind_r r (\<lambda>(h, s'). ha_postprocess alg h)))"

section \<open>Contract of an algorithm\<close>

locale hash_contract =
  fixes alg :: hash_algorithm
  assumes size_preprocess: "length (ha_preprocess alg) = ha_size alg"
    and process_size: "length h = ha_size alg \<Longrightarrow>
      \<exists>h'. ha_process alg h xs = Inr h' \<and> length h' = ha_size alg"
    and process_append: "length h = ha_size alg \<Longrightarrow>
      ha_process alg h (xs @ ys) = bind_r (ha_process alg h xs) (\<lambda>h'. ha_process alg h' ys)"
    and postprocess_size: "length h = ha_size alg \<Longrightarrow>
      \<exists>h'. ha_postprocess alg h = Inr h' \<and> length h' = ha_size alg"
begin

lemma process_pieces:
  "ha_process alg (ha_preprocess alg) xs = Inr h \<Longrightarrow>
   compute_hash alg (xs @ ys) = bind_r (ha_process alg h ys) (\<lambda>h'. ha_postprocess alg h')"
  by (simp add: compute_hash_def process_append size_preprocess)

lemma compute_hash_total: "\<exists>h. compute_hash alg xs = Inr h \<and> length h = ha_size alg"
proof -
  obtain h1 where "ha_process alg (ha_preprocess alg) xs = Inr h1" "length h1 = ha_size alg"
    using process_size [OF size_preprocess] by blast
  then show ?thesis using postprocess_size by (auto simp: compute_hash_def)
qed

end

lemma mem_read_whole: "length h = n \<Longrightarrow> mem_read h 0 n = Inr h"
  by (auto simp: mem_read_def)

interpretation crc: hash_contract "crc32_algorithm host" for host
  by unfold_locales
    (auto simp: crc32_algorithm_def crc_preprocess_def crc_process_def crc_postprocess_def
      mem_read_whole load_store_native)

interpretation lc: hash_contract "lc_algorithm host a s" for host a s
  by unfold_locales
    (auto simp: lc_algorithm_def lc_preprocess_def lc_process_def lc_postprocess_def
      mem_read_whole load_store_native)

interpretation djb2: hash_contract "djb2_algorithm host" for host
  unfolding djb2_algorithm_def by (rule lc.hash_contract_axioms)

section \<open>The table and the polynomial\<close>

text \<open>The remainder computed bit by bit, without a table.\<close>

definition crc_byte :: "u32 \<Rightarrow> u8 \<Rightarrow> u32" where
  "crc_byte v b = (crc_step ^^ 8) (v XOR ucast b)"

lemma and_1_bit: "n AND 1 \<noteq> 0 \<longleftrightarrow> bit (n :: 'a::len word) 0"
  by (simp add: and_one_eq odd_iff_mod_2_eq_one bit_0)

lemma crc_step_odd: "bit n 0 \<Longrightarrow> crc_step n = drop_bit 1 n XOR 0xedb88320"
  by (simp add: crc_step_def and_1_bit)

lemma crc_step_even: "\<not> bit n 0 \<Longrightarrow> crc_step n = drop_bit 1 n"
  by (simp add: crc_step_def and_1_bit)

lemma crc_step_xor: "crc_step (x XOR y) = crc_step x XOR crc_step y"
  by (cases "bit x 0"; cases "bit y 0"; intro bit_eqI;
      simp add: crc_step_odd crc_step_even bit_xor_iff bit_drop_bit_eq; blast)

lemma crc_steps_xor: "(crc_step ^^ n) (x XOR y) = (crc_step ^^ n) x XOR (crc_step ^^ n) y"
  by (induction n) (simp_all add: crc_step_xor)

lemma crc_steps_low_zero:
  "(\<And>i. i < n \<Longrightarrow> \<not> bit x i) \<Longrightarrow> (crc_step ^^ n) x = drop_bit n x"
proof (induction n)
  case (Suc n)
  then have "(crc_step ^^ n) x = drop_bit n x" by simp
  moreover have "\<not> bit (drop_bit n x) 0" using Suc.prems [of n] by (simp add: bit_drop_bit_eq)
  ultimately have "(crc_step ^^ Suc n) x = drop_bit 1 (drop_bit n x)"
    by (simp add: crc_step_even del: One_nat_def)
  then show ?case by (simp only: drop_bit_drop_bit plus_1_eq_Suc)
qed simp

lemma crc_update_byte: "crc_update crc_table v b = crc_byte v b"
proof -
  define x where "x = v XOR ucast b"
  define lo hi where "lo = x AND 0xff" and "hi = x AND NOT (mask 8)"
  have "(0xff :: u32) = mask 8" by (simp add: mask_eq_exp_minus_1)
  then have lo_mask: "lo = x AND mask 8" by (simp only: lo_def)
  note bits = bit_mask_iff possible_bit_word
  have x: "x = lo XOR hi"
    by (rule bit_eqI) (auto simp: lo_mask hi_def bit_and_iff bit_xor_iff bit_not_iff bits)
  have "lo \<le> 0xff" unfolding lo_def by (rule word_and_le1)
  then have lo: "unat lo < 256" by (simp add: word_le_nat_alt)
  have "drop_bit 8 hi = drop_bit 8 v"
    by (rule bit_eqI)
      (auto simp: x_def hi_def bit_drop_bit_eq bit_ucast_iff bit_and_iff bit_xor_iff bit_not_iff bits
        dest: bit_imp_le_length)
  moreover have "(crc_step ^^ 8) hi = drop_bit 8 hi"
    by (rule crc_steps_low_zero) (auto simp: hi_def bit_and_iff bit_not_iff bits)
  moreover have "crc_table ! unat lo = (crc_step ^^ 8) lo"
    using lo by (simp add: crc_table_def)
  ultimately show ?thesis
    unfolding crc_update_def crc_byte_def x_def [symmetric] lo_def [symmetric]
    by (subst x) (simp only: crc_steps_xor xor.commute)
qed

lemma crc_process_bitwise:
  "length hash = 4 \<Longrightarrow>
   crc_process host hash dat = Inr (store_native host 4 (foldl crc_byte (load_native host hash) dat))"
proof -
  have "crc_update crc_table = crc_byte" by (intro ext) (rule crc_update_byte)
  then show "length hash = 4 \<Longrightarrow> ?thesis" by (simp add: crc_process_def mem_read_whole)
qed

text \<open>A step can be undone: the polynomial's top bit says which branch was taken.\<close>

lemma xor_cancel: "a XOR c = b XOR c \<longleftrightarrow> a = (b :: 'a::len word)"
  by (auto simp: bit_eq_iff bit_xor_iff)

lemma crc_step_inj: "crc_step x = crc_step y \<Longrightarrow> x = y"
proof (rule bit_eqI)
  fix i assume e: "crc_step x = crc_step y" and "possible_bit TYPE(u32) i"
  then have i: "i < 32" by (simp add: possible_bit_word)
  have "bit (crc_step z) 31 \<longleftrightarrow> bit z 0" for z
    by (auto simp: crc_step_def and_1_bit bit_simps dest: bit_imp_le_length)
  then have z: "bit x 0 \<longleftrightarrow> bit y 0" using e by metis
  then have "drop_bit 1 x = drop_bit 1 y"
    using e by (cases "bit x 0") (simp_all add: crc_step_odd crc_step_even xor_cancel del: One_nat_def)
  then have "bit (drop_bit 1 x) k = bit (drop_bit 1 y) k" for k by simp
  then have "bit x (Suc k) = bit y (Suc k)" for k by (simp add: bit_drop_bit_eq)
  then show "bit x i = bit y i" using z by (cases i) simp_all
qed

lemma crc_steps_inj: "(crc_step ^^ n) x = (crc_step ^^ n) y \<Longrightarrow> x = y"
  by (induction n) (auto dest: crc_step_inj)

lemma crc_byte_inj: "crc_byte v b = crc_byte w b \<Longrightarrow> v = w"
proof -
  assume "crc_byte v b = crc_byte w b"
  then have "v XOR ucast b = w XOR ucast b" unfolding crc_byte_def by (rule crc_steps_inj)
  then show "v = w" by (simp only: xor_cancel)
qed

lemma unat_lt2p8: "unat (b :: u8) < 256"
  using unsigned_less [of b] by simp

lemma crc_byte_inj_byte: "crc_byte v b = crc_byte v c \<Longrightarrow> b = c"
proof -
  assume "crc_byte v b = crc_byte v c"
  then have "v XOR ucast b = v XOR ucast c" unfolding crc_byte_def by (rule crc_steps_inj)
  then have "(ucast b :: u32) = ucast c" by (simp only: xor.commute [of v] xor_cancel)
  then have "unat (ucast b :: u32) = unat (ucast c :: u32)" by simp
  then have "unat b mod 2 ^ 32 = unat c mod 2 ^ 32" by (simp add: unsigned_ucast_eq take_bit_eq_mod)
  moreover have "unat b < 2 ^ 32" "unat c < 2 ^ 32" using unat_lt2p8 [of b] unat_lt2p8 [of c] by simp_all
  ultimately show "b = c" by (simp add: word_unat_eq_iff)
qed

lemma crc_bytes_inj: "foldl crc_byte v xs = foldl crc_byte w xs \<Longrightarrow> v = w"
  by (induction xs arbitrary: v w) (auto dest: crc_byte_inj)

section \<open>Hashing a stream\<close>

text \<open>
  The bytes that \<^verbatim>\<open>ComputeHash(Stream*)\<close> really hashes: one whole buffer for every read, the
  last one, that reads nothing, included; behind a short read lies what was there before.
\<close>

function hashed_blocks :: "bytes \<Rightarrow> bytes \<Rightarrow> bytes" where
  "hashed_blocks buffer rest =
     (let buffer' = take 0x1000 rest @ drop (length (take 0x1000 rest)) buffer in
      if rest = [] then buffer' else buffer' @ hashed_blocks buffer' (drop 0x1000 rest))"
  by pat_completeness auto
termination by (relation "measure (\<lambda>(b, r). length r)") auto

declare hashed_blocks.simps [simp del]

lemma hashed_blocks_Nil: "hashed_blocks buffer [] = buffer"
  by (simp add: hashed_blocks.simps [of buffer "[]"])

context input_stream begin

lemma hash_loop_blocks:
  assumes "hash_contract alg"
  shows "ok s \<Longrightarrow> length h = ha_size alg \<Longrightarrow> d_length buffer = 0x1000 \<Longrightarrow>
    length (d_block buffer) = 0x1000 \<Longrightarrow>
    \<exists>s'. hash_loop ops alg h buffer s =
      Some (bind_r (ha_process alg h (hashed_blocks (d_block buffer) (drop (so_get_position ops s) (contents s))))
        (\<lambda>h'. Inr (h', s')))"
proof (induction "length (contents s) - so_get_position ops s" arbitrary: s h buffer rule: less_induct)
  case less
  define rest where "rest = drop (so_get_position ops s) (contents s)"
  define d where "d = take 0x1000 rest"
  define b where "b = buffer\<lparr>d_block := d @ drop (length d) (d_block buffer)\<rparr>"
  obtain s1 where s1: "so_read ops 0x1000 s = Inr (d, s1)" "ok s1" "contents s1 = contents s"
    "so_get_position ops s1 = min (length (contents s)) (so_get_position ops s + 0x1000)"
    using read_contents [OF less.prems(1), of "0x1000"] by (auto simp: d_def rest_def)
  have d: "length d \<le> 0x1000" by (simp add: d_def)
  have rd: "stream_read_data ops buffer s = Inr (length d, b, s1)"
    using less.prems(3,4) s1(1) d by (simp add: stream_read_data_def mem_write_def b_def)
  have c: "data_contents b = d_block b" "length (d_block b) = 0x1000" "d_length b = 0x1000"
    using less.prems(3,4) d by (simp_all add: data_contents_def b_def)
  obtain h1 where h1: "ha_process alg h (d_block b) = Inr h1" "length h1 = ha_size alg"
    using hash_contract.process_size [OF assms less.prems(2)] by blast
  note app = hash_contract.process_append [OF assms less.prems(2)]
  show ?case
  proof (cases "rest = []")
    case True
    then have "d = []" "hashed_blocks (d_block buffer) rest = d_block b"
      by (simp_all add: d_def b_def hashed_blocks_Nil)
    then show ?thesis using rd c h1 by (simp add: hash_loop.simps [of ops alg h buffer s] flip: rest_def)
  next
    case False
    then have "length (contents s1) - so_get_position ops s1 < length (contents s) - so_get_position ops s"
      using s1(3,4) by (auto simp: rest_def)
    from less.hyps [OF this s1(2) h1(2) c(3,2)] obtain s2 where
      "hash_loop ops alg h1 b s1 = Some (bind_r (ha_process alg h1
         (hashed_blocks (d_block b) (drop (so_get_position ops s1) (contents s1)))) (\<lambda>h'. Inr (h', s2)))"
      by auto
    moreover have "drop (so_get_position ops s1) (contents s1) = drop 0x1000 rest"
      unfolding s1(3,4) rest_def drop_drop
      by (cases "so_get_position ops s + 0x1000 \<le> length (contents s)") (simp_all add: add.commute)
    moreover have "hashed_blocks (d_block buffer) rest = d_block b @ hashed_blocks (d_block b) (drop 0x1000 rest)"
      using False by (subst hashed_blocks.simps) (simp add: Let_def b_def d_def)
    moreover have "d \<noteq> []" using False by (simp add: d_def)
    ultimately have "hash_loop ops alg h buffer s = Some (bind_r (ha_process alg h
         (hashed_blocks (d_block buffer) rest)) (\<lambda>h'. Inr (h', s2)))"
      using rd c(1) h1 by (simp add: hash_loop.simps [of ops alg h buffer s] app)
    then show ?thesis unfolding rest_def by blast
  qed
qed

lemma compute_hash_stream_blocks:
  assumes "hash_contract alg" and "ok s"
  shows "compute_hash_stream g ops alg s =
    Some (compute_hash alg
      (hashed_blocks (fresh_block g 0x1000) (drop (so_get_position ops s) (contents s))))"
proof -
  have "length (ha_preprocess alg) = ha_size alg" by (rule hash_contract.size_preprocess [OF assms(1)])
  from hash_loop_blocks [OF assms this, of "data_new g 0x1000"] show ?thesis
    by (auto simp: compute_hash_stream_def compute_hash_def data_new_def bind_r_assoc)
qed

end

text \<open>So the hash of an empty stream is that of an uninitialised buffer.\<close>

lemma hash_empty_stream:
  "compute_hash_stream g (memory_ops g) (crc32_algorithm host) memory_stream_new =
     Some (compute_hash (crc32_algorithm host) (fresh_block g 0x1000))"
  using mem.compute_hash_stream_blocks [OF crc.hash_contract_axioms, of memory_stream_new]
  by (simp add: hashed_blocks_Nil memory_ok_def memory_stream_new_def memory_contents_def)

lemma crc32_bitwise:
  "compute_hash (crc32_algorithm host) dat =
     Inr (store_native host 4 (foldl crc_byte 0xffffffff dat XOR 0xffffffff))"
  by (simp add: compute_hash_def crc32_algorithm_def crc_preprocess_def crc_process_bitwise
      crc_postprocess_def mem_read_whole load_store_native)

text \<open>The repository's own test: the CRC-32 of \<^verbatim>\<open>hello\<close> is 907060870.\<close>

lemma crc_byte_8: "crc_byte v b =
    crc_step (crc_step (crc_step (crc_step (crc_step (crc_step (crc_step (crc_step (v XOR ucast b))))))))"
  by (simp add: crc_byte_def eval_nat_numeral)

lemma crc32_hello:
  "compute_hash (crc32_algorithm host) [104, 101, 108, 108, 111] = Inr (store_native host 4 (907060870 :: u32))"
  unfolding crc32_bitwise by (simp add: crc_byte_8 crc_step_def)

section \<open>Properties\<close>

text \<open>C19: The CRC-32 computed with the table is the one computed bit by bit with the polynomial,
  for any data; it is returned as four bytes in the host's order.\<close>

theorem crc32_is_bitwise:
  "compute_hash (crc32_algorithm host) dat =
     Inr (store_native host 4 (foldl crc_byte 0xffffffff dat XOR 0xffffffff))"
  by (rule crc32_bitwise)

text \<open>Two messages that differ in one byte only have different CRC-32 values.\<close>

theorem crc32_detects_byte:
  assumes "b \<noteq> c"
  shows "compute_hash (crc32_algorithm host) (xs @ b # ys) \<noteq> compute_hash (crc32_algorithm host) (xs @ c # ys)"
proof
  assume e: "compute_hash (crc32_algorithm host) (xs @ b # ys) = compute_hash (crc32_algorithm host) (xs @ c # ys)"
  let ?f = "\<lambda>dat. foldl crc_byte 0xffffffff dat"
  have "store_native host 4 (?f (xs @ b # ys) XOR 0xffffffff) = store_native host 4 (?f (xs @ c # ys) XOR 0xffffffff)"
    using e unfolding crc32_bitwise by blast
  then have "load_native host (store_native host 4 (?f (xs @ b # ys) XOR 0xffffffff)) =
      (load_native host (store_native host 4 (?f (xs @ c # ys) XOR 0xffffffff)) :: u32)" by (rule arg_cong)
  then have "?f (xs @ b # ys) XOR 0xffffffff = ?f (xs @ c # ys) XOR 0xffffffff"
    by (simp add: load_store_native)
  then have "?f (xs @ b # ys) = ?f (xs @ c # ys)" by (simp only: xor_cancel)
  then show False using assms by (auto dest: crc_bytes_inj crc_byte_inj_byte)
qed

theorem crc32_detects_byte_witness:
  "compute_hash (crc32_algorithm True) [104, 101, 108, 108, 111] \<noteq>
   compute_hash (crc32_algorithm True) [104, 97, 108, 108, 111]"
  using crc32_detects_byte [of 101 97 True "[104]" "[108, 108, 111]"] by simp

end
