(* ===== verification/Value_Type.thy ===== *)
theory Value_Type
  imports Endian
begin

text \<open>
  \<^verbatim>\<open>Value\<close> (\<^verbatim>\<open>include/bricks/core/value.h\<close>, \<^verbatim>\<open>source/core/value.cpp\<close>): eight bytes and
  a tag that says what type of object they hold.  The tag is an integer, since
  \<^verbatim>\<open>Serializer\<close> casts whatever it reads to the enum.  Scalars of the language are \<open>cval\<close>;
  floating point numbers are their bit patterns and their conversions are the argument
  \<open>float_ops\<close>, which is the host's arithmetic; a conversion to an integer type that cannot hold
  the number is undefined.
\<close>

section \<open>Types\<close>

datatype value_type = Pointer | Boolean | Byte | Int16 | Int32 | Int64 | Float32 | Float64

definition value_types :: "value_type list" where
  "value_types = [Pointer, Boolean, Byte, Int16, Int32, Int64, Float32, Float64]"

definition type_of_enum :: "int \<Rightarrow> value_type option" where
  "type_of_enum n = (if 0 \<le> n \<and> n < 8 then Some (value_types ! nat n) else None)"

definition size_of_type :: "int \<Rightarrow> nat" where
  "size_of_type n =
     (case type_of_enum n of
        Some Pointer \<Rightarrow> 8
      | Some Boolean \<Rightarrow> 1
      | Some Byte \<Rightarrow> 8
      | Some Int16 \<Rightarrow> 2
      | Some Int32 \<Rightarrow> 4
      | Some Float32 \<Rightarrow> 4
      | Some Int64 \<Rightarrow> 8
      | Some Float64 \<Rightarrow> 8
      | None \<Rightarrow> 0)"

section \<open>Scalars\<close>

datatype cval =
    CPointer u64
  | CBool bool
  | CU8 u8
  | CU16 u16
  | CU32 u32
  | CU64 u64
  | CF32 u32
  | CF64 u64

text \<open>Conversions of floating point numbers; \<^verbatim>\<open>trunc\<close> is the integer part of a finite one.\<close>

record float_ops =
  f32_of_int :: "int \<Rightarrow> u32"
  f64_of_int :: "int \<Rightarrow> u64"
  f32_trunc :: "u32 \<Rightarrow> int option"
  f64_trunc :: "u64 \<Rightarrow> int option"
  f32_nonzero :: "u32 \<Rightarrow> bool"
  f64_nonzero :: "u64 \<Rightarrow> bool"
  f32_to_f64 :: "u32 \<Rightarrow> u64"
  f64_to_f32 :: "u64 \<Rightarrow> u32"

fun int_to :: "float_ops \<Rightarrow> value_type \<Rightarrow> int \<Rightarrow> cval" where
  "int_to fo Pointer z = CPointer (word_of_int z)"
| "int_to fo Boolean z = CBool (z \<noteq> 0)"
| "int_to fo Byte z = CU8 (word_of_int z)"
| "int_to fo Int16 z = CU16 (word_of_int z)"
| "int_to fo Int32 z = CU32 (word_of_int z)"
| "int_to fo Int64 z = CU64 (word_of_int z)"
| "int_to fo Float32 z = CF32 (f32_of_int fo z)"
| "int_to fo Float64 z = CF64 (f64_of_int fo z)"

fun type_bits :: "value_type \<Rightarrow> nat" where
  "type_bits Boolean = 1"
| "type_bits Byte = 8"
| "type_bits Int16 = 16"
| "type_bits Int32 = 32"
| "type_bits Float32 = 32"
| "type_bits _ = 64"

definition trunc_to :: "float_ops \<Rightarrow> value_type \<Rightarrow> int option \<Rightarrow> cval result" where
  "trunc_to fo t p =
     (case p of
        None \<Rightarrow> Inl Undefined
      | Some z \<Rightarrow> if 0 \<le> z \<and> z < 2 ^ type_bits t then Inr (int_to fo t z) else Inl Undefined)"

fun value_cast :: "float_ops \<Rightarrow> value_type \<Rightarrow> cval \<Rightarrow> cval result" where
  "value_cast fo t (CPointer w) = Inr (int_to fo t (uint w))"
| "value_cast fo t (CBool b) = Inr (int_to fo t (if b then 1 else 0))"
| "value_cast fo t (CU8 w) = Inr (int_to fo t (uint w))"
| "value_cast fo t (CU16 w) = Inr (int_to fo t (uint w))"
| "value_cast fo t (CU32 w) = Inr (int_to fo t (uint w))"
| "value_cast fo t (CU64 w) = Inr (int_to fo t (uint w))"
| "value_cast fo t (CF32 x) =
     (case t of Float32 \<Rightarrow> Inr (CF32 x) | Float64 \<Rightarrow> Inr (CF64 (f32_to_f64 fo x))
      | Boolean \<Rightarrow> Inr (CBool (f32_nonzero fo x)) | _ \<Rightarrow> trunc_to fo t (f32_trunc fo x))"
| "value_cast fo t (CF64 x) =
     (case t of Float64 \<Rightarrow> Inr (CF64 x) | Float32 \<Rightarrow> Inr (CF32 (f64_to_f32 fo x))
      | Boolean \<Rightarrow> Inr (CBool (f64_nonzero fo x)) | _ \<Rightarrow> trunc_to fo t (f64_trunc fo x))"

text \<open>Objects in memory.\<close>

fun store_cval :: "bool \<Rightarrow> cval \<Rightarrow> bytes" where
  "store_cval host (CPointer w) = store_native host 8 w"
| "store_cval host (CBool b) = [if b then 1 else 0]"
| "store_cval host (CU8 w) = [w]"
| "store_cval host (CU16 w) = store_native host 2 w"
| "store_cval host (CU32 w) = store_native host 4 w"
| "store_cval host (CU64 w) = store_native host 8 w"
| "store_cval host (CF32 w) = store_native host 4 w"
| "store_cval host (CF64 w) = store_native host 8 w"

fun load_cval :: "bool \<Rightarrow> value_type \<Rightarrow> bytes \<Rightarrow> cval result" where
  "load_cval host Pointer m = bind_r (mem_read m 0 8) (\<lambda>bs. Inr (CPointer (load_native host bs)))"
| "load_cval host Boolean m =
     bind_r (peek m 0) (\<lambda>b. if b = 0 then Inr (CBool False) else if b = 1 then Inr (CBool True) else Inl Undefined)"
| "load_cval host Byte m = bind_r (peek m 0) (\<lambda>b. Inr (CU8 b))"
| "load_cval host Int16 m = bind_r (mem_read m 0 2) (\<lambda>bs. Inr (CU16 (load_native host bs)))"
| "load_cval host Int32 m = bind_r (mem_read m 0 4) (\<lambda>bs. Inr (CU32 (load_native host bs)))"
| "load_cval host Int64 m = bind_r (mem_read m 0 8) (\<lambda>bs. Inr (CU64 (load_native host bs)))"
| "load_cval host Float32 m = bind_r (mem_read m 0 4) (\<lambda>bs. Inr (CF32 (load_native host bs)))"
| "load_cval host Float64 m = bind_r (mem_read m 0 8) (\<lambda>bs. Inr (CF64 (load_native host bs)))"

section \<open>Values\<close>

record val =
  v_data :: bytes
  v_type :: int

definition val_get_size :: "val \<Rightarrow> nat" where
  "val_get_size v = size_of_type (v_type v)"

definition val_set_data :: "bytes \<Rightarrow> val \<Rightarrow> val result" where
  "val_set_data src v =
     bind_r (mem_read src 0 (val_get_size v)) (\<lambda>bs.
     bind_r (mem_write (v_data v) 0 bs) (\<lambda>m. Inr (v\<lparr>v_data := m\<rparr>)))"

definition val_set_type :: "int \<Rightarrow> val \<Rightarrow> val" where
  "val_set_type t v = v\<lparr>v_type := t\<rparr>"

definition val_new :: "(nat \<Rightarrow> u8) \<Rightarrow> bytes \<Rightarrow> int \<Rightarrow> val result" where
  "val_new g src t = val_set_data src \<lparr>v_data = fresh_block g 8, v_type = t\<rparr>"

fun cval_enum :: "cval \<Rightarrow> int" where
  "cval_enum (CPointer _) = 0"
| "cval_enum (CBool _) = 1"
| "cval_enum (CU8 _) = 2"
| "cval_enum (CU16 _) = 3"
| "cval_enum (CU32 _) = 4"
| "cval_enum (CU64 _) = 5"
| "cval_enum (CF32 _) = 6"
| "cval_enum (CF64 _) = 7"

text \<open>The constructor for a scalar copies from the argument's own storage.\<close>

definition val_of_cval :: "(nat \<Rightarrow> u8) \<Rightarrow> bool \<Rightarrow> cval \<Rightarrow> val result" where
  "val_of_cval g host c = val_new g (store_cval host c) (cval_enum c)"

definition get_value :: "float_ops \<Rightarrow> bool \<Rightarrow> value_type \<Rightarrow> int \<Rightarrow> bytes \<Rightarrow> cval result" where
  "get_value fo host t ty m =
     (case type_of_enum ty of
        None \<Rightarrow> throw (InvalidArgumentException '''')
      | Some s \<Rightarrow> bind_r (load_cval host s m) (value_cast fo t))"

definition set_data_value :: "float_ops \<Rightarrow> bool \<Rightarrow> int \<Rightarrow> bytes \<Rightarrow> cval \<Rightarrow> bytes result" where
  "set_data_value fo host ty m c =
     (case type_of_enum ty of
        None \<Rightarrow> throw (InvalidArgumentException '''')
      | Some t \<Rightarrow> bind_r (value_cast fo t c) (\<lambda>d. mem_write m 0 (store_cval host d)))"

definition get_pointer_value :: "float_ops \<Rightarrow> bool \<Rightarrow> val \<Rightarrow> cval result" where
  "get_pointer_value fo host v = get_value fo host Pointer (v_type v) (v_data v)"

definition get_boolean_value :: "float_ops \<Rightarrow> bool \<Rightarrow> val \<Rightarrow> cval result" where
  "get_boolean_value fo host v = get_value fo host Boolean (v_type v) (v_data v)"

definition get_byte_value :: "float_ops \<Rightarrow> bool \<Rightarrow> val \<Rightarrow> cval result" where
  "get_byte_value fo host v = get_value fo host Byte (v_type v) (v_data v)"

definition get_int16_value :: "float_ops \<Rightarrow> bool \<Rightarrow> val \<Rightarrow> cval result" where
  "get_int16_value fo host v = get_value fo host Int16 (v_type v) (v_data v)"

definition get_int32_value :: "float_ops \<Rightarrow> bool \<Rightarrow> val \<Rightarrow> cval result" where
  "get_int32_value fo host v = get_value fo host Int32 (v_type v) (v_data v)"

definition get_int64_value :: "float_ops \<Rightarrow> bool \<Rightarrow> val \<Rightarrow> cval result" where
  "get_int64_value fo host v = get_value fo host Int64 (v_type v) (v_data v)"

definition get_float32_value :: "float_ops \<Rightarrow> bool \<Rightarrow> val \<Rightarrow> cval result" where
  "get_float32_value fo host v = get_value fo host Float32 (v_type v) (v_data v)"

definition get_float64_value :: "float_ops \<Rightarrow> bool \<Rightarrow> val \<Rightarrow> cval result" where
  "get_float64_value fo host v = get_value fo host Float64 (v_type v) (v_data v)"

text \<open>The overloads of \<^verbatim>\<open>SetValue\<close> differ in the type of their argument.\<close>

definition val_set_value :: "float_ops \<Rightarrow> bool \<Rightarrow> cval \<Rightarrow> val \<Rightarrow> val result" where
  "val_set_value fo host c v =
     bind_r (set_data_value fo host (v_type v) (v_data v) c) (\<lambda>m. Inr (v\<lparr>v_data := m\<rparr>))"

section \<open>Lemmas\<close>

fun cval_type :: "cval \<Rightarrow> value_type" where
  "cval_type (CPointer _) = Pointer"
| "cval_type (CBool _) = Boolean"
| "cval_type (CU8 _) = Byte"
| "cval_type (CU16 _) = Int16"
| "cval_type (CU32 _) = Int32"
| "cval_type (CU64 _) = Int64"
| "cval_type (CF32 _) = Float32"
| "cval_type (CF64 _) = Float64"

fun cval_int :: "cval \<Rightarrow> int" where
  "cval_int (CPointer w) = uint w"
| "cval_int (CBool b) = (if b then 1 else 0)"
| "cval_int (CU8 w) = uint w"
| "cval_int (CU16 w) = uint w"
| "cval_int (CU32 w) = uint w"
| "cval_int (CU64 w) = uint w"
| "cval_int (CF32 w) = uint w"
| "cval_int (CF64 w) = uint w"

lemma int_to_type: "cval_type (int_to fo t z) = t"
  by (cases t) simp_all

lemma value_cast_type: "value_cast fo t c = Inr d \<Longrightarrow> cval_type d = t"
  by (cases c) (auto simp: int_to_type trunc_to_def split: value_type.splits option.splits if_splits)

lemma load_store_cval:
  "load_cval host (cval_type c) (store_cval host c @ m) = Inr c"
  by (cases c) (auto simp: mem_read_def peek_def load_store_native)

definition cval_width :: "cval \<Rightarrow> nat" where
  "cval_width c = (type_bits (cval_type c) + 7) div 8"

lemma store_cval_width: "length (store_cval host c) = cval_width c"
  by (cases c) (simp_all add: cval_width_def)

lemma cval_width_bound: "cval_width c \<le> 8"
  by (cases c) (simp_all add: cval_width_def)

lemma cval_enum_type: "type_of_enum (cval_enum c) = Some (cval_type c)"
  by (cases c) (simp_all add: type_of_enum_def value_types_def)

lemma size_of_cval: "size_of_type (cval_enum c) = (if cval_type c = Byte then 8 else cval_width c)"
  by (cases c) (simp_all add: size_of_type_def type_of_enum_def value_types_def cval_width_def)

text \<open>Among the types without a fraction a conversion keeps the value modulo the width.\<close>

lemma int_to_int:
  "t \<notin> {Boolean, Float32, Float64} \<Longrightarrow> cval_int (int_to fo t z) = z mod 2 ^ type_bits t"
  by (cases t) (simp_all add: uint_word_of_int)

lemma value_cast_int:
  assumes "cval_type c \<notin> {Float32, Float64}" and "t \<notin> {Boolean, Float32, Float64}"
  shows "\<exists>d. value_cast fo t c = Inr d \<and> cval_int d = cval_int c mod 2 ^ type_bits t"
proof -
  have "value_cast fo t c = Inr (int_to fo t (cval_int c))" using assms(1) by (cases c) simp_all
  then show ?thesis using int_to_int [OF assms(2)] by blast
qed

lemma set_then_get:
  assumes "length (v_data v) = 8" and "type_of_enum (v_type v) = Some t" and "value_cast fo t c = Inr d"
  shows "val_set_value fo host c v = Inr (v\<lparr>v_data := store_cval host d @ drop (cval_width d) (v_data v)\<rparr>)"
    and "get_value fo host u (v_type v) (store_cval host d @ m) = value_cast fo u d"
proof -
  show "val_set_value fo host c v = Inr (v\<lparr>v_data := store_cval host d @ drop (cval_width d) (v_data v)\<rparr>)"
    using assms cval_width_bound [of d]
    by (simp add: val_set_value_def set_data_value_def mem_write_def store_cval_width)
  show "get_value fo host u (v_type v) (store_cval host d @ m) = value_cast fo u d"
    using assms load_store_cval [of host d m] value_cast_type [OF assms(3)] by (simp add: get_value_def)
qed

text \<open>
  The size of the type \<^verbatim>\<open>Byte\<close> is 8, so the constructor for a byte reads seven bytes behind
  its argument; every other constructor holds its argument.
\<close>

lemma val_of_byte_undefined: "val_of_cval g host (CU8 b) = Inl Undefined"
  by (simp add: val_of_cval_def val_new_def val_set_data_def val_get_size_def size_of_type_def
      type_of_enum_def value_types_def mem_read_def)

lemma val_of_cval_holds:
  assumes "cval_type c \<noteq> Byte"
  shows "\<exists>v. val_of_cval g host c = Inr v \<and> length (v_data v) = 8 \<and> v_type v = cval_enum c \<and>
    (\<exists>m. v_data v = store_cval host c @ m)"
proof -
  have "size_of_type (cval_enum c) = length (store_cval host c)"
    using assms by (simp add: size_of_cval store_cval_width)
  then show ?thesis using cval_width_bound [of c]
    by (simp add: val_of_cval_def val_new_def val_set_data_def val_get_size_def mem_read_def mem_write_def
        store_cval_width)
qed

section \<open>Properties\<close>

text \<open>What \<^verbatim>\<open>SetValue\<close> stores, converted to the value's own type, is what every getter
  then converts from; the bytes behind it and the type stay.\<close>

theorem value_set_get:
  assumes "length (v_data v) = 8" and "type_of_enum (v_type v) = Some t" and "value_cast fo t c = Inr d"
  shows "\<exists>v'. val_set_value fo host c v = Inr v' \<and> v_type v' = v_type v \<and> length (v_data v') = 8 \<and>
    (\<forall>u. get_value fo host u (v_type v') (v_data v') = value_cast fo u d) \<and>
    drop (cval_width d) (v_data v') = drop (cval_width d) (v_data v)"
  using set_then_get [OF assms] assms(1) cval_width_bound [of d] by (simp add: store_cval_width)

definition no_floats :: float_ops where
  "no_floats = \<lparr>f32_of_int = (\<lambda>_. 0), f64_of_int = (\<lambda>_. 0), f32_trunc = (\<lambda>_. None), f64_trunc = (\<lambda>_. None),
     f32_nonzero = (\<lambda>_. False), f64_nonzero = (\<lambda>_. False), f32_to_f64 = (\<lambda>_. 0), f64_to_f32 = (\<lambda>_. 0)\<rparr>"

theorem value_set_get_witness:
  "\<exists>v'. val_set_value no_floats True (CU32 0x1337) \<lparr>v_data = replicate 8 7, v_type = 3\<rparr> = Inr v' \<and>
    (\<forall>u. get_value no_floats True u 3 (v_data v') = value_cast no_floats u (CU16 0x1337))"
  using value_set_get [of "\<lparr>v_data = replicate 8 7, v_type = 3\<rparr>" Int16 no_floats "CU32 0x1337" "CU16 0x1337" True]
  by (auto simp: type_of_enum_def value_types_def)

text \<open>The constructor of every scalar type but the byte makes a value whose getters convert
  from that scalar; for a byte it reads outside its argument.\<close>

theorem value_of_scalar:
  "if cval_type c = Byte then val_of_cval g host c = Inl Undefined
   else \<exists>v. val_of_cval g host c = Inr v \<and> length (v_data v) = 8 \<and>
     (\<forall>u. get_value fo host u (v_type v) (v_data v) = value_cast fo u c)"
proof (cases "cval_type c = Byte")
  case True
  then show ?thesis by (cases c) (simp_all add: val_of_byte_undefined)
next
  case False
  then obtain v m where "val_of_cval g host c = Inr v" "length (v_data v) = 8" "v_type v = cval_enum c"
    "v_data v = store_cval host c @ m"
    using val_of_cval_holds [OF False, of g host] by blast
  then show ?thesis using False load_store_cval [of host c m]
    by (simp add: get_value_def cval_enum_type)
qed

end
