(* ===== verification/Random_Gen.thy ===== *)
theory Random_Gen
  imports Time_Span
begin

text \<open>
  \<^verbatim>\<open>Random\<close> (\<^verbatim>\<open>source/core/random.cpp\<close>, \<^verbatim>\<open>random.h\<close>) and \<^verbatim>\<open>ThrowErrno\<close>
  (\<^verbatim>\<open>source/core/exception.cpp\<close>).  The seed is a 64-bit integer; its overflow, undefined in
  C++, is taken to wrap.  The C library's table of messages is the argument \<open>strerror\<close>.
\<close>

section \<open>Random numbers\<close>

definition random_max :: int where
  "random_max = 0x7FFFFFFF"

definition random_new :: "int \<Rightarrow> int" where
  "random_new seed = seed"

definition random_update :: "int \<Rightarrow> int" where
  "random_update seed = s64 (seed * 1103515245 + 12345)"

definition random_generate :: "int \<Rightarrow> int \<Rightarrow> int \<Rightarrow> int \<times> int" where
  "random_generate low high seed =
     (let seed' = random_update seed in
      (s32 (s64 (c_div (s64 ((seed' AND random_max) * s32 (high - low))) random_max + low)), seed'))"

text \<open>\<^verbatim>\<open>Random()\<close> takes the seconds of the clock.\<close>

definition random_new_time :: "('w \<Rightarrow> timespec \<times> 'w) \<Rightarrow> 'w \<Rightarrow> int \<times> 'w" where
  "random_new_time clock w = (case time_get_current clock w of (t, w') \<Rightarrow> (t_seconds t, w'))"

definition random_generate_float_range :: "'f float_ops \<Rightarrow> 'f \<Rightarrow> 'f \<Rightarrow> int \<Rightarrow> 'f \<times> int" where
  "random_generate_float_range F low high seed =
     (let seed' = random_update seed in
      (fl_add F (fl_div F (fl_mul F (fl_of_int F (seed' AND random_max)) (fl_sub F high low)) (fl_of_int F random_max)) low,
       seed'))"

definition random_generate_float :: "'f float_ops \<Rightarrow> int \<Rightarrow> 'f \<times> int" where
  "random_generate_float F = random_generate_float_range F (fl_of_int F 0) (fl_of_int F 1)"

text \<open>\<^verbatim>\<open>Generate<int>\<close>.\<close>

definition random_generate_int :: "int \<Rightarrow> int \<times> int" where
  "random_generate_int seed = random_generate 0 0x7FFFFFFF seed"

lemma random_generate_snd: "snd (random_generate low high seed) = random_update seed"
  by (simp add: random_generate_def Let_def)

lemma random_mask: "0 \<le> x AND random_max \<and> x AND random_max < 2 ^ 31"
proof -
  have "x AND mask 31 = take_bit 31 x" by (rule take_bit_eq_mask [symmetric])
  then have "x AND random_max = x mod 2 ^ 31"
    by (simp add: random_max_def mask_eq_exp_minus_1 take_bit_eq_mod)
  then show ?thesis by simp
qed

lemma random_update_mod: "random_update seed mod 2 ^ 31 = (seed * 1103515245 + 12345) mod 2 ^ 31"
proof -
  have "take_bit 31 (signed_take_bit 63 x) = take_bit 31 x" for x :: int
    by (rule bit_eqI) (auto simp: bit_take_bit_iff bit_signed_take_bit_iff min_def)
  then show ?thesis unfolding random_update_def s64_def take_bit_eq_mod .
qed

lemma random_scaled:
  fixes m d :: int
  assumes "0 \<le> m" "m < 2147483648" "0 \<le> d" "d < 2147483648"
  shows "0 \<le> m * d div 2147483647 \<and> m * d div 2147483647 \<le> d"
proof -
  have "m * d \<le> 2147483647 * d" using assms by (intro mult_right_mono) auto
  then have "m * d div 2147483647 \<le> 2147483647 * d div 2147483647" by (rule zdiv_mono1) simp
  then show ?thesis using assms by (simp add: pos_imp_zdiv_nonneg_iff)
qed

lemma random_generate_range:
  assumes "low \<le> high" and "high - low < 2147483648" and "- 2147483648 \<le> low" and "high < 2147483648"
  shows "low \<le> fst (random_generate low high seed) \<and> fst (random_generate low high seed) \<le> high"
proof -
  define m where "m = random_update seed AND random_max"
  have m: "0 \<le> m" "m < 2147483648" using random_mask [of "random_update seed"] by (simp_all add: m_def)
  let ?d = "high - low"
  have d: "0 \<le> ?d" "s32 ?d = ?d" using assms by (simp_all add: s32_id)
  have "m * ?d \<le> 2147483647 * ?d" using m d(1) by (intro mult_right_mono) auto
  then have b: "0 \<le> m * ?d" "m * ?d < 9223372036854775808" using m(1) d(1) assms(2) by simp_all
  have q: "0 \<le> m * ?d div 2147483647" "m * ?d div 2147483647 \<le> ?d"
    using random_scaled [OF m d(1) assms(2)] by simp_all
  have s: "s64 (m * ?d) = m * ?d" using b by (intro s64_id) simp_all
  have e: "s64 (m * ?d div 2147483647 + low) = m * ?d div 2147483647 + low"
    "s32 (m * ?d div 2147483647 + low) = m * ?d div 2147483647 + low"
    using q assms by (intro s64_id s32_id; simp)+
  have "fst (random_generate low high seed) = m * ?d div 2147483647 + low"
    unfolding random_generate_def Let_def fst_conv m_def [symmetric] d(2) s
    using b(1) e by (simp add: random_max_def c_div_nonneg)
  then show ?thesis using q by simp
qed

section \<open>Error numbers\<close>

text \<open>\<^verbatim>\<open>ThrowErrno\<close> returns when there is no error: callers that expect a throw go on.\<close>

definition throw_errno :: "(int \<Rightarrow> string) \<Rightarrow> (int \<Rightarrow> string) \<Rightarrow> int \<Rightarrow> unit result" where
  "throw_errno show_int strerror err =
     (if err = 0 then Inr ()
      else throw (ErrnoException (''errno '' @ show_int err @ '': '' @ strerror err) err))"

definition throw_errno_message ::
    "(int \<Rightarrow> string) \<Rightarrow> (int \<Rightarrow> string) \<Rightarrow> string \<Rightarrow> int \<Rightarrow> unit result" where
  "throw_errno_message show_int strerror message err =
     (if err = 0 then Inr ()
      else throw (ErrnoException (''errno '' @ show_int err @ '': '' @ strerror err @ '' ('' @ message @ '')'') err))"

section \<open>Properties\<close>

text \<open>For bounds less than \<open>2 ^ 31\<close> apart, \<^verbatim>\<open>Generate(low, high)\<close> is between \<open>low\<close> and
  \<open>high\<close>, both included, and the seed's low 31 bits follow the linear congruence.\<close>

theorem random_in_range:
  assumes "low \<le> high" and "high - low < 2147483648" and "- 2147483648 \<le> low" and "high < 2147483648"
  shows "low \<le> fst (random_generate low high seed) \<and> fst (random_generate low high seed) \<le> high \<and>
    snd (random_generate low high seed) mod 2 ^ 31 = (seed * 1103515245 + 12345) mod 2 ^ 31"
  using random_generate_range [OF assms] random_update_mod [of seed]
  by (simp only: random_generate_snd simp_thms)

theorem random_in_range_witness:
  "- 5 \<le> fst (random_generate (- 5) 10 42) \<and> fst (random_generate (- 5) 10 42) \<le> 10"
  using random_in_range [of "- 5" 10 42] by simp

end
