(* ===== verification/Midi.thy ===== *)
theory Midi
  imports Stream_IO
begin

text \<open>
  The MIDI file reader: \<^verbatim>\<open>include/bricks/audio/miditypes.h\<close>, \<^verbatim>\<open>midireader.h\<close> and
  \<^verbatim>\<open>source/audio/midireader.cpp\<close>.  The reader's \<^verbatim>\<open>StreamReader\<close> is big endian; its stream
  is part of the reader's state.  \<open>None\<close> is a loop that never ends.
\<close>

section \<open>Events\<close>

datatype midi_division = TicksPerBeat u16 | FramesPerSecond u8 u8

record midi_meta =
  me_delta :: u32
  me_type :: u8
  me_data :: bytes

record midi_channel =
  ce_delta :: u32
  ce_type :: u8
  ce_channel :: u8
  ce_parameter1 :: u8
  ce_parameter2 :: u8

text \<open>The classes of events.\<close>

datatype midi_event =
    MetaEvent midi_meta
  | TextEvent midi_meta
  | TempoEvent midi_meta
  | TimeSignatureEvent midi_meta
  | ChannelEvent midi_channel
  | NoteEvent midi_channel

text \<open>\<^verbatim>\<open>MidiEventType\<close>: meta events and channel events share one enumeration.\<close>

definition midi_comment :: u8 where "midi_comment = 0x01"
definition midi_copyright :: u8 where "midi_copyright = 0x02"
definition midi_track_name :: u8 where "midi_track_name = 0x03"
definition midi_instrument_name :: u8 where "midi_instrument_name = 0x04"
definition midi_lyric :: u8 where "midi_lyric = 0x05"
definition midi_marker :: u8 where "midi_marker = 0x06"
definition midi_cue_point :: u8 where "midi_cue_point = 0x07"
definition midi_note_off :: u8 where "midi_note_off = 0x08"
definition midi_note_on :: u8 where "midi_note_on = 0x09"
definition midi_note_aftertouch :: u8 where "midi_note_aftertouch = 0x0a"
definition midi_pitch_bend :: u8 where "midi_pitch_bend = 0x0f"
definition midi_tempo :: u8 where "midi_tempo = 0x51"
definition midi_time_signature :: u8 where "midi_time_signature = 0x58"

definition create_meta_event :: "u32 \<Rightarrow> u8 \<Rightarrow> bytes \<Rightarrow> midi_event" where
  "create_meta_event delta type data =
     (let ev = \<lparr>me_delta = delta, me_type = type, me_data = data\<rparr> in
      if type \<in> {midi_comment, midi_copyright, midi_track_name, midi_instrument_name, midi_lyric,
                 midi_marker, midi_cue_point} then TextEvent ev
      else if type = midi_tempo then TempoEvent ev
      else if type = midi_time_signature then TimeSignatureEvent ev
      else MetaEvent ev)"

definition create_channel_event :: "u32 \<Rightarrow> u8 \<Rightarrow> u8 \<Rightarrow> u8 \<Rightarrow> u8 \<Rightarrow> midi_event" where
  "create_channel_event delta type channel p1 p2 =
     (let ev = \<lparr>ce_delta = delta, ce_type = type, ce_channel = channel, ce_parameter1 = p1, ce_parameter2 = p2\<rparr> in
      if type \<in> {midi_note_on, midi_note_off, midi_note_aftertouch} then NoteEvent ev
      else ChannelEvent ev)"

text \<open>Accessors that compute.\<close>

definition midi_meta_assign :: "midi_meta \<Rightarrow> midi_meta \<Rightarrow> midi_meta" where
  "midi_meta_assign this event =
     this\<lparr>me_delta := me_delta event, me_type := me_type event, me_data := me_data event\<rparr>"

definition midi_text :: "(nat \<Rightarrow> u8) \<Rightarrow> midi_meta \<Rightarrow> bstring result" where
  "midi_text g ev = string_of_cstr g (me_data ev) (length (me_data ev))"

definition midi_tempo_new :: "bool \<Rightarrow> u32 \<Rightarrow> u32 \<Rightarrow> midi_meta result" where
  "midi_tempo_new host delta mpqn =
     bind_r (endian_write swap32 host BigEndian 4 mpqn) (\<lambda>subdata.
     Inr \<lparr>me_delta = delta, me_type = midi_tempo, me_data = take 3 (drop 1 subdata)\<rparr>)"

definition midi_tempo_mpqn :: "bool \<Rightarrow> midi_meta \<Rightarrow> u32 result" where
  "midi_tempo_mpqn host ev =
     bind_r (mem_read (me_data ev) 0 3) (\<lambda>bs. endian_read swap32 host BigEndian (0 # bs))"

definition midi_numerator :: "midi_meta \<Rightarrow> u8 result" where "midi_numerator ev = peek (me_data ev) 0"
definition midi_denominator :: "midi_meta \<Rightarrow> u8 result" where "midi_denominator ev = peek (me_data ev) 1"
definition midi_metronome :: "midi_meta \<Rightarrow> u8 result" where "midi_metronome ev = peek (me_data ev) 2"
definition midi_32nd_notes :: "midi_meta \<Rightarrow> u8 result" where "midi_32nd_notes ev = peek (me_data ev) 3"

section \<open>The reader\<close>

record 's midi_reader =
  mr_stream :: 's
  mr_type :: u16
  mr_division :: midi_division
  mr_track_count :: u16
  mr_track_index :: u16
  mr_track_size :: u32
  mr_track_position :: nat
  mr_previous :: u8

definition magic_header1 :: u32 where "magic_header1 = 0x4D546864"
definition magic_header2 :: u32 where "magic_header2 = 0x00000006"
definition magic_track_header :: u32 where "magic_track_header = 0x4D54726B"

definition bind_o :: "'a result option \<Rightarrow> ('a \<Rightarrow> 'b result option) \<Rightarrow> 'b result option" where
  "bind_o m f = (case m of None \<Rightarrow> None | Some (Inl e) \<Rightarrow> Some (Inl e) | Some (Inr x) \<Rightarrow> f x)"

partial_function (option) midi_integer_loop ::
    "'s stream_ops \<Rightarrow> u32 \<Rightarrow> 's \<Rightarrow> (u32 \<times> 's) result option" where
  "midi_integer_loop ops ret s =
     (case so_read_byte ops s of
        Inl e \<Rightarrow> Some (Inl e)
      | Inr (r, s') \<Rightarrow>
          (let num = word_of_int r :: u8;
               ret' = push_bit 7 ret OR ucast (num AND 0x7F) in
           if num AND 0x80 \<noteq> 0 then midi_integer_loop ops ret' s' else Some (Inr (ret', s'))))"

definition midi_read_integer :: "'s stream_ops \<Rightarrow> 's \<Rightarrow> (u32 \<times> 's) result option" where
  "midi_read_integer ops s = midi_integer_loop ops 0 s"

definition midi_read16 :: "'s stream_ops \<Rightarrow> bool \<Rightarrow> 's \<Rightarrow> (u16 \<times> 's) result" where
  "midi_read16 ops host s = read_int16 ops host BigEndian Unknown s"

definition midi_read32 :: "'s stream_ops \<Rightarrow> bool \<Rightarrow> 's \<Rightarrow> (u32 \<times> 's) result" where
  "midi_read32 ops host s = read_int32 ops host BigEndian Unknown s"

definition midi_read_division :: "'s stream_ops \<Rightarrow> bool \<Rightarrow> 's \<Rightarrow> (midi_division \<times> 's) result" where
  "midi_read_division ops host s =
     bind_r (midi_read16 ops host s) (\<lambda>(d, s').
     Inr (if d AND 0x8000 \<noteq> 0 then FramesPerSecond (ucast (drop_bit 8 (d AND 0x7F00))) (ucast (d AND 0xFF))
          else TicksPerBeat (d AND 0x7FFF), s'))"

definition midi_end_of_file :: "'s midi_reader \<Rightarrow> bool" where
  "midi_end_of_file m \<longleftrightarrow> mr_track_index m \<ge> mr_track_count m"

definition midi_track_end :: "'s midi_reader \<Rightarrow> nat" where
  "midi_track_end m = size_add (mr_track_position m) (unat (mr_track_size m))"

definition midi_end_of_track :: "'s stream_ops \<Rightarrow> 's midi_reader \<Rightarrow> bool" where
  "midi_end_of_track ops m \<longleftrightarrow> so_get_position ops (mr_stream m) \<ge> midi_track_end m"

definition midi_read_track :: "'s stream_ops \<Rightarrow> bool \<Rightarrow> 's midi_reader \<Rightarrow> 's midi_reader result" where
  "midi_read_track ops host m =
     bind_r (midi_read32 ops host (mr_stream m)) (\<lambda>(h, s1).
     if h \<noteq> magic_track_header then throw (FormatException '''')
     else bind_r (midi_read32 ops host s1) (\<lambda>(n, s2).
       Inr (m\<lparr>mr_stream := s2, mr_track_size := n, mr_track_position := so_get_position ops s2,
              mr_previous := 0\<rparr>)))"

definition midi_new :: "'s stream_ops \<Rightarrow> bool \<Rightarrow> 's \<Rightarrow> 's midi_reader result" where
  "midi_new ops host s =
     bind_r (midi_read32 ops host s) (\<lambda>(h1, s1).
     if h1 \<noteq> magic_header1 then throw (FormatException '''')
     else bind_r (midi_read32 ops host s1) (\<lambda>(h2, s2).
     if h2 \<noteq> magic_header2 then throw (FormatException '''')
     else bind_r (midi_read16 ops host s2) (\<lambda>(t, s3).
     bind_r (midi_read16 ops host s3) (\<lambda>(n, s4).
     bind_r (midi_read_division ops host s4) (\<lambda>(d, s5).
     midi_read_track ops host
       \<lparr>mr_stream = s5, mr_type = t, mr_division = d, mr_track_count = n, mr_track_index = 0,
        mr_track_size = 0, mr_track_position = 0, mr_previous = 0\<rparr>)))))"

definition midi_next_track :: "'s stream_ops \<Rightarrow> bool \<Rightarrow> 's midi_reader \<Rightarrow> 's midi_reader result" where
  "midi_next_track ops host m =
     (let m' = m\<lparr>mr_track_index := mr_track_index m + 1\<rparr> in
      if midi_end_of_file m' then
        Inr (m'\<lparr>mr_track_size := 0, mr_track_position := so_get_position ops (mr_stream m')\<rparr>)
      else midi_read_track ops host (m'\<lparr>mr_stream := so_set_position ops (midi_track_end m') (mr_stream m')\<rparr>))"

text \<open>The loop of \<^verbatim>\<open>SeekTrack\<close> ends because the index rises to one that is below the count.\<close>

function midi_skip_tracks ::
    "'s stream_ops \<Rightarrow> bool \<Rightarrow> u32 \<Rightarrow> nat \<Rightarrow> 's midi_reader \<Rightarrow> 's midi_reader result option" where
  "midi_skip_tracks ops host index 0 m = None"
| "midi_skip_tracks ops host index (Suc fuel) m =
     (if ucast (mr_track_index m) < index
      then bind_o (Some (midi_next_track ops host m)) (midi_skip_tracks ops host index fuel)
      else Some (Inr m))"
  by pat_completeness auto
termination by (relation "measure (\<lambda>(ops, host, index, fuel, m). fuel)") auto

definition midi_seek_track ::
    "'s stream_ops \<Rightarrow> bool \<Rightarrow> u32 \<Rightarrow> 's midi_reader \<Rightarrow> 's midi_reader result option" where
  "midi_seek_track ops host index m =
     (if index \<ge> ucast (mr_track_count m) then Some (throw (InvalidArgumentException ''''))
      else bind_o (Some (if index \<le> ucast (mr_track_index m)
          then midi_read_track ops host
                 (m\<lparr>mr_stream := so_set_position ops (4 + 4 + 2 * 3) (mr_stream m), mr_track_index := 0\<rparr>)
          else Inr m))
        (midi_skip_tracks ops host index 0x10000))"

definition midi_track_stream :: "'s midi_reader \<Rightarrow> 's substream result" where
  "midi_track_stream m =
     (if midi_end_of_file m then throw (InvalidOperationException '''')
      else Inr (substream_new_length (mr_stream m) (mr_track_position m) (unat (mr_track_size m))))"

definition midi_read_event ::
    "'s stream_ops \<Rightarrow> 's midi_reader \<Rightarrow> (midi_event \<times> 's midi_reader) result option" where
  "midi_read_event ops m =
     (if midi_end_of_track ops m then Some (throw (InvalidOperationException ''''))
      else bind_o (midi_read_integer ops (mr_stream m)) (\<lambda>(delta, s1).
      bind_o (Some (read_byte ops s1)) (\<lambda>(identifier, s2).
      if identifier = 0xFF then
        bind_o (Some (read_byte ops s2)) (\<lambda>(type, s3).
        bind_o (midi_read_integer ops s3) (\<lambda>(len, s4).
        bind_o (Some (read_bytes ops (unat len) s4)) (\<lambda>(data, s5).
        Some (Inr (create_meta_event delta type data, m\<lparr>mr_stream := s5\<rparr>)))))
      else if identifier = 0xF0 \<or> identifier = 0xF7 then Some (throw (NotImplementedException ''''))
      else
        bind_o (if identifier AND 0x80 = 0 then Some (Inr (mr_previous m, identifier, mr_previous m, s2))
                else bind_o (Some (read_byte ops s2)) (\<lambda>(p, s3). Some (Inr (identifier, p, identifier, s3))))
          (\<lambda>(status, p1, previous, s3).
        let type = drop_bit 4 status in
        bind_o (if type \<noteq> 0x0C \<and> type \<noteq> 0x0D then Some (read_byte ops s3) else Some (Inr (0, s3)))
          (\<lambda>(p2, s4).
        Some (Inr (create_channel_event delta type (status AND 0x0F) p1 p2,
                   m\<lparr>mr_stream := s4, mr_previous := previous\<rparr>)))))))"

section \<open>Variable length quantities\<close>

text \<open>The standard's encoding: groups of seven bits, all but the last marked.\<close>

fun vlq_high :: "nat \<Rightarrow> bytes" where
  "vlq_high n = (if n = 0 then [] else vlq_high (n div 128) @ [word_of_nat (128 + n mod 128)])"

declare vlq_high.simps [simp del]

definition vlq :: "nat \<Rightarrow> bytes" where
  "vlq n = vlq_high (n div 128) @ [word_of_nat (n mod 128)]"

definition vlq_step :: "u32 \<Rightarrow> u8 \<Rightarrow> u32" where
  "vlq_step ret num = push_bit 7 ret OR ucast (num AND 0x7F)"

lemma and_80: "(b :: u8) AND 0x80 \<noteq> 0 \<longleftrightarrow> bit b 7"
  by (simp add: u8_eq_iff all_less_8 bit_and_iff)

lemma vlq_step_value: "vlq_step ret b = ret * 128 + word_of_nat (unat b mod 128)"
proof -
  have "(0x7F :: u8) = mask 7" by (simp add: mask_eq_exp_minus_1)
  then have "b AND 0x7F = take_bit 7 b" by (simp only: take_bit_eq_mask)
  moreover have "unat (take_bit 7 b) = unat b mod 128"
    by (simp add: take_bit_eq_mod unat_mod_distrib)
  then have "(ucast (take_bit 7 b) :: u32) = word_of_nat (unat b mod 128)" by (metis of_nat_unat)
  moreover have "push_bit 7 ret OR ucast (take_bit 7 b) = push_bit 7 ret + (ucast (take_bit 7 b) :: u32)"
    by (rule disjunctive_add [symmetric]) (auto simp: bit_push_bit_iff bit_ucast_iff bit_take_bit_iff)
  ultimately show ?thesis by (simp add: vlq_step_def push_bit_eq_mult mult.commute)
qed

lemma vlq_sum: "(word_of_nat (n div 128) * 128 + word_of_nat (n mod 128) :: u32) = word_of_nat n"
proof -
  have "(word_of_nat n :: u32) = word_of_nat (n div 128 * 128 + n mod 128)" by simp
  then show ?thesis by (simp only: of_nat_add of_nat_mult of_nat_numeral)
qed

lemma vlq_step_unat:
  "n < 128 \<Longrightarrow> vlq_step ret (word_of_nat (128 + n)) = ret * 128 + word_of_nat n"
  "n < 128 \<Longrightarrow> vlq_step ret (word_of_nat n) = ret * 128 + word_of_nat n"
  by (simp_all add: vlq_step_value unat_of_nat flip: of_nat_add)

lemma vlq_high_value: "foldl vlq_step 0 (vlq_high n) = word_of_nat n"
proof (induction n rule: vlq_high.induct)
  case (1 n)
  then show ?case by (cases "n = 0") (simp_all add: vlq_high.simps [of n] vlq_high.simps [of 0] vlq_step_unat vlq_sum del: of_nat_add)
qed

lemma vlq_value: "foldl vlq_step 0 (vlq n) = word_of_nat n"
  by (simp add: vlq_def vlq_high_value vlq_step_unat vlq_sum)

lemma bit_7_of_nat: "k < 256 \<Longrightarrow> bit (word_of_nat k :: u8) 7 \<longleftrightarrow> 128 \<le> k"
proof -
  assume k: "k < 256"
  then have "bit (word_of_nat k :: u8) 7 \<longleftrightarrow> bit k 7"
    using bit_imp_le_length [of "word_of_nat k :: u8" 7]
      bit_unsigned_iff [of "word_of_nat k :: u8" 7, where ?'a = nat] by (simp add: unat_of_nat)
  also have "\<dots> \<longleftrightarrow> odd (k div 128)" by (simp add: bit_iff_odd)
  also have "\<dots> \<longleftrightarrow> 128 \<le> k"
  proof (cases "128 \<le> k")
    case True
    then have "k div 128 = 1" using k by (intro div_nat_eqI) simp_all
    then show ?thesis using True by simp
  qed simp
  finally show ?thesis .
qed

lemma vlq_high_marked: "b \<in> set (vlq_high n) \<Longrightarrow> bit b 7"
proof (induction n rule: vlq_high.induct)
  case (1 n)
  have "bit (word_of_nat (128 + k) :: u8) 7" if "k < 128" for k
    using that by (subst bit_7_of_nat) simp_all
  then show ?case using 1 by (subst (asm) (2) vlq_high.simps) (auto split: if_splits)
qed

lemma vlq_last_unmarked: "\<not> bit (word_of_nat (n mod 128) :: u8) 7"
  by (subst bit_7_of_nat) (simp_all add: not_le less_trans [OF mod_less_divisor])


section \<open>Reading\<close>

lemma integer_loop_byte:
  "so_read_byte ops s = Inr (uint b, s') \<Longrightarrow> midi_integer_loop ops ret s =
     (if bit b 7 then midi_integer_loop ops (vlq_step ret b) s' else Some (Inr (vlq_step ret b, s')))"
  by (subst midi_integer_loop.simps) (simp add: vlq_step_def Let_def and_80 [symmetric])

text \<open>The data bytes of a channel event.\<close>

definition channel_bytes :: "u8 \<Rightarrow> u8 \<Rightarrow> u8 \<Rightarrow> bytes" where
  "channel_bytes status p1 p2 = (if drop_bit 4 status \<in> {0x0C, 0x0D} then [p1] else [p1, p2])"

text \<open>\<open>at s bs\<close>: the bytes \<open>bs\<close> lie ahead of the position.\<close>

context input_stream begin

definition at :: "'s \<Rightarrow> bytes \<Rightarrow> bool" where
  "at s bs \<longleftrightarrow> ok s \<and> drop (so_get_position ops s) (contents s) = bs"

lemma at_length: "at s bs \<Longrightarrow> so_get_position ops s + length bs = length (contents s)"
  using position_bound [of s] by (auto simp: at_def)

lemma at_drop: "drop p (contents s) = xs @ ys \<Longrightarrow> drop (p + length xs) (contents s) = ys"
  by (metis drop_drop append_eq_conv_conj add.commute)

lemma at_read_bytes:
  assumes "at s (bs @ rest)" and "length bs = n"
  shows "\<exists>s'. read_bytes ops n s = Inr (bs, s') \<and> at s' rest \<and> contents s' = contents s \<and>
    so_get_position ops s' = so_get_position ops s + n"
proof -
  have "so_get_position ops s + n \<le> length (contents s)" using at_length [OF assms(1)] assms(2) by simp
  from read_bytes_inside [OF _ this] assms show ?thesis
    using at_drop [of "so_get_position ops s" s bs rest] by (auto simp: at_def)
qed

lemma at_read_byte:
  assumes "at s (b # rest)"
  shows "\<exists>s'. read_byte ops s = Inr (b, s') \<and> at s' rest \<and> contents s' = contents s \<and>
    so_get_position ops s' = so_get_position ops s + 1"
  using at_read_bytes [of s "[b]" rest 1] assms by (auto simp: read_byte_def)

lemma at_raw_byte:
  assumes "at s (b # rest)"
  shows "\<exists>s'. so_read_byte ops s = Inr (uint b, s') \<and> at s' rest \<and> contents s' = contents s \<and>
    so_get_position ops s' = so_get_position ops s + 1"
proof -
  let ?p = "so_get_position ops s"
  have p: "?p < length (contents s)" using at_length [OF assms] by simp
  have d: "drop ?p (contents s) = b # rest" using assms by (simp add: at_def)
  then have "contents s ! ?p = b" using p by (metis nth_via_drop)
  moreover have "drop (?p + 1) (contents s) = rest" using at_drop [of ?p s "[b]" rest] d by simp
  ultimately show ?thesis using read_byte_inside [of s] p assms by (auto simp: at_def)
qed

lemma at_read_int:
  assumes "byte_swap swap n" and "at s (rev (bytes_le n w) @ rest)"
  shows "\<exists>s'. read_int n swap ops host BigEndian Unknown s = Inr (w, s') \<and> at s' rest \<and>
    contents s' = contents s \<and> so_get_position ops s' = so_get_position ops s + n"
proof -
  let ?p = "so_get_position ops s"
  have le: "?p + n \<le> length (contents s)" using at_length [OF assms(2)] by simp
  have "take n (drop ?p (contents s)) = rev (bytes_le n w)" using assms(2) by (simp add: at_def)
  moreover have "endian_read swap host BigEndian (rev (bytes_le n w)) = Inr w"
    using byte_swap.write_some [OF assms(1), of BigEndian host w] byte_swap.write_big [OF assms(1), of host w]
    by auto
  ultimately show ?thesis
    using read_int_bytes [OF _ le, of swap host BigEndian Unknown] assms(2)
      at_drop [of ?p s "rev (bytes_le n w)" rest]
    by (auto simp: at_def pick_endian_def)
qed

lemma at_integer_loop:
  "at s (bs @ l # rest) \<Longrightarrow> \<forall>b \<in> set bs. bit b 7 \<Longrightarrow> \<not> bit l 7 \<Longrightarrow>
   \<exists>s'. midi_integer_loop ops ret s = Some (Inr (foldl vlq_step ret (bs @ [l]), s')) \<and> at s' rest \<and>
     contents s' = contents s"
proof (induction bs arbitrary: s ret)
  case Nil
  then show ?case using at_raw_byte [of s l rest] by (auto simp: integer_loop_byte)
next
  case (Cons b bs)
  obtain s1 where s1: "so_read_byte ops s = Inr (uint b, s1)" "at s1 (bs @ l # rest)" "contents s1 = contents s"
    using at_raw_byte [of s b "bs @ l # rest"] Cons.prems(1) by auto
  show ?case
    using Cons.IH [OF s1(2), of "vlq_step ret b"] Cons.prems s1 by (auto simp: integer_loop_byte)
qed

lemma at_read_integer:
  assumes "at s (vlq n @ rest)"
  shows "\<exists>s'. midi_read_integer ops s = Some (Inr (word_of_nat n, s')) \<and> at s' rest \<and> contents s' = contents s"
proof -
  have "at s (vlq_high (n div 128) @ word_of_nat (n mod 128) # rest)" using assms by (simp add: vlq_def)
  from at_integer_loop [OF this _ vlq_last_unmarked, of 0] show ?thesis
    using vlq_value [of n] by (auto simp: midi_read_integer_def vlq_def dest: vlq_high_marked)
qed


text \<open>An event on the wire; a status byte is written unless the last one is repeated.\<close>

lemma at_read_meta:
  assumes "at s (vlq delta @ [0xFF, type] @ vlq (length data) @ data @ rest)" and "length data < 2 ^ 32"
    and "mr_stream m = s" and "\<not> midi_end_of_track ops m"
  shows "\<exists>s'. midi_read_event ops m =
      Some (Inr (create_meta_event (word_of_nat delta) type data, m\<lparr>mr_stream := s'\<rparr>)) \<and> at s' rest \<and>
      contents s' = contents s"
proof -
  obtain s1 where s1: "midi_read_integer ops s = Some (Inr (word_of_nat delta, s1))"
    "at s1 ([0xFF, type] @ vlq (length data) @ data @ rest)" "contents s1 = contents s"
    using at_read_integer [OF assms(1)] by blast
  obtain s2 where s2: "read_byte ops s1 = Inr (0xFF, s2)" "at s2 (type # vlq (length data) @ data @ rest)"
    "contents s2 = contents s1"
    using at_read_byte [of s1 "0xFF" "type # vlq (length data) @ data @ rest"] s1(2) by auto
  obtain s3 where s3: "read_byte ops s2 = Inr (type, s3)" "at s3 (vlq (length data) @ data @ rest)"
    "contents s3 = contents s2"
    using at_read_byte [OF s2(2)] by auto
  obtain s4 where s4: "midi_read_integer ops s3 = Some (Inr (word_of_nat (length data), s4))"
    "at s4 (data @ rest)" "contents s4 = contents s3"
    using at_read_integer [OF s3(2)] by blast
  have "unat (word_of_nat (length data) :: u32) = length data"
    using assms(2) by (simp add: unat_of_nat)
  moreover obtain s5 where "read_bytes ops (length data) s4 = Inr (data, s5)" "at s5 rest" "contents s5 = contents s4"
    using at_read_bytes [OF s4(2)] by blast
  ultimately show ?thesis using s1 s2 s3 s4 assms(3,4) by (simp add: midi_read_event_def bind_o_def) blast
qed

lemma at_channel_bytes:
  assumes "at s (channel_bytes status p1 p2 @ rest)"
  shows "\<exists>s1 s2. read_byte ops s = Inr (p1, s1) \<and> contents s2 = contents s \<and> at s2 rest \<and>
    (if drop_bit 4 status \<noteq> 0x0C \<and> drop_bit 4 status \<noteq> 0x0D then read_byte ops s1 = Inr (p2, s2) else s2 = s1)"
proof (cases "drop_bit 4 status \<in> {0x0C, 0x0D}")
  case True
  then show ?thesis using at_read_byte [of s p1 rest] assms by (auto simp: channel_bytes_def)
next
  case False
  then obtain s1 where s1: "read_byte ops s = Inr (p1, s1)" "at s1 (p2 # rest)" "contents s1 = contents s"
    using at_read_byte [of s p1 "p2 # rest"] assms by (auto simp: channel_bytes_def)
  then show ?thesis using at_read_byte [OF s1(2)] False by auto
qed

lemma at_read_channel:
  assumes "at s (vlq delta @ status # channel_bytes status p1 p2 @ rest)"
    and "status AND 0x80 \<noteq> 0" and "status \<notin> {0xF0, 0xF7, 0xFF}"
    and "mr_stream m = s" and "\<not> midi_end_of_track ops m"
  shows "\<exists>s' p2'. midi_read_event ops m =
      Some (Inr (create_channel_event (word_of_nat delta) (drop_bit 4 status) (status AND 0x0F) p1
              (if drop_bit 4 status \<in> {0x0C, 0x0D} then 0 else p2),
            m\<lparr>mr_stream := s', mr_previous := status\<rparr>)) \<and> at s' rest \<and> contents s' = contents s"
proof -
  obtain s1 where s1: "midi_read_integer ops s = Some (Inr (word_of_nat delta, s1))"
    "at s1 (status # channel_bytes status p1 p2 @ rest)" "contents s1 = contents s"
    using at_read_integer [OF assms(1)] by blast
  obtain s2 where s2: "read_byte ops s1 = Inr (status, s2)" "at s2 (channel_bytes status p1 p2 @ rest)"
    "contents s2 = contents s1"
    using at_read_byte [OF s1(2)] by auto
  show ?thesis using at_channel_bytes [OF s2(2)] s1 s2 assms(2-5)
    by (auto simp: midi_read_event_def bind_o_def Let_def split: if_splits)
qed

text \<open>Running status: a first data byte stands for a repeated status.\<close>

lemma at_read_running:
  assumes "at s (vlq delta @ channel_bytes (mr_previous m) p1 p2 @ rest)"
    and "p1 AND 0x80 = 0" and "mr_stream m = s" and "\<not> midi_end_of_track ops m"
  shows "\<exists>s'. midi_read_event ops m =
      Some (Inr (create_channel_event (word_of_nat delta) (drop_bit 4 (mr_previous m)) (mr_previous m AND 0x0F) p1
              (if drop_bit 4 (mr_previous m) \<in> {0x0C, 0x0D} then 0 else p2),
            m\<lparr>mr_stream := s'\<rparr>)) \<and> at s' rest \<and> contents s' = contents s"
proof -
  obtain s1 where s1: "midi_read_integer ops s = Some (Inr (word_of_nat delta, s1))"
    "at s1 (channel_bytes (mr_previous m) p1 p2 @ rest)" "contents s1 = contents s"
    using at_read_integer [OF assms(1)] by blast
  have "p1 \<notin> {0xF0, 0xF7, 0xFF}" using assms(2) by auto
  then show ?thesis using at_channel_bytes [OF s1(2)] s1 assms(2-4)
    by (auto simp: midi_read_event_def bind_o_def Let_def split: if_splits)
qed

end

section \<open>Tracks\<close>

definition be16 :: "u16 \<Rightarrow> bytes" where "be16 w = rev (bytes_le 2 w)"
definition be32 :: "u32 \<Rightarrow> bytes" where "be32 w = rev (bytes_le 4 w)"

definition midi_chunk :: "bytes \<Rightarrow> bytes" where
  "midi_chunk body = be32 magic_track_header @ be32 (word_of_nat (length body)) @ body"

definition midi_chunks :: "bytes list \<Rightarrow> bytes" where
  "midi_chunks ts = concat (map midi_chunk ts)"

definition midi_header :: "u16 \<Rightarrow> u16 \<Rightarrow> u16 \<Rightarrow> bytes" where
  "midi_header type count division =
     be32 magic_header1 @ be32 magic_header2 @ be16 type @ be16 count @ be16 division"

lemma unat_less16: "unat (w :: u16) < 65536"
  using unsigned_less [of w] by simp

lemma length_midi_header [simp]: "length (midi_header t c d) = 14"
  by (simp add: midi_header_def be16_def be32_def)

lemma length_midi_chunk [simp]: "length (midi_chunk b) = 8 + length b"
  by (simp add: midi_chunk_def be32_def)

lemma midi_chunks_split:
  "i < length ts \<Longrightarrow> midi_chunks ts = midi_chunks (take i ts) @ midi_chunk (ts ! i) @ midi_chunks (drop (Suc i) ts)"
  by (simp add: midi_chunks_def flip: concat_append map_append)
     (metis (no_types, lifting) concat.simps(2) concat_append id_take_nth_drop list.simps(9) map_append)

context input_stream begin

text \<open>\<open>track_at m hdr ts rest i\<close>: the reader of the file \<open>hdr\<close>, tracks \<open>ts\<close>, is at track \<open>i\<close>.\<close>

definition track_at :: "'s midi_reader \<Rightarrow> bytes \<Rightarrow> bytes list \<Rightarrow> bytes \<Rightarrow> nat \<Rightarrow> bool" where
  "track_at m hdr ts rest i \<longleftrightarrow>
     ok (mr_stream m) \<and> contents (mr_stream m) = hdr @ midi_chunks ts @ rest \<and> length hdr = 14 \<and>
     i < length ts \<and> unat (mr_track_index m) = i \<and> unat (mr_track_count m) = length ts \<and>
     mr_track_position m = 14 + length (midi_chunks (take i ts)) + 8 \<and>
     unat (mr_track_size m) = length (ts ! i)"

lemma read_track_at:
  assumes s: "ok (mr_stream m)" "contents (mr_stream m) = hdr @ midi_chunks ts @ rest" "length hdr = 14"
    and i: "i < length ts" "length (ts ! i) < 2 ^ 32"
    and p: "so_get_position ops (mr_stream m) = 14 + length (midi_chunks (take i ts))"
    and n: "unat (mr_track_index m) = i" "unat (mr_track_count m) = length ts"
  shows "\<exists>m'. midi_read_track ops host m = Inr m' \<and> track_at m' hdr ts rest i \<and>
    so_get_position ops (mr_stream m') = mr_track_position m' \<and>
    at (mr_stream m') (ts ! i @ midi_chunks (drop (Suc i) ts) @ rest)"
proof -
  have a: "at (mr_stream m) (be32 magic_track_header @ be32 (word_of_nat (length (ts ! i))) @ ts ! i @
      midi_chunks (drop (Suc i) ts) @ rest)"
    using s p by (simp add: at_def midi_chunks_split [OF i(1)] midi_chunk_def)
  obtain s1 where s1: "midi_read32 ops host (mr_stream m) = Inr (magic_track_header, s1)"
    "at s1 (be32 (word_of_nat (length (ts ! i))) @ ts ! i @ midi_chunks (drop (Suc i) ts) @ rest)"
    "contents s1 = contents (mr_stream m)" "so_get_position ops s1 = so_get_position ops (mr_stream m) + 4"
    using at_read_int [OF sw32.byte_swap_axioms a [unfolded be32_def [of magic_track_header]], of host]
    by (auto simp: midi_read32_def read_int32_def)
  obtain s2 where s2: "midi_read32 ops host s1 = Inr (word_of_nat (length (ts ! i)), s2)"
    "at s2 (ts ! i @ midi_chunks (drop (Suc i) ts) @ rest)"
    "contents s2 = contents s1" "so_get_position ops s2 = so_get_position ops s1 + 4"
    using at_read_int [OF sw32.byte_swap_axioms s1(2) [unfolded be32_def], of host]
    by (auto simp: midi_read32_def read_int32_def)
  have "unat (word_of_nat (length (ts ! i)) :: u32) = length (ts ! i)" using i(2) by (simp add: unat_of_nat)
  then show ?thesis using s i n p s1 s2 by (simp add: midi_read_track_def track_at_def at_def)
qed

lemma track_end_at:
  assumes "track_at m hdr ts rest i"
  shows "midi_track_end m = 14 + length (midi_chunks (take (Suc i) ts))"
    and "midi_track_end m \<le> length (contents (mr_stream m))"
proof -
  have i: "i < length ts" and ok: "ok (mr_stream m)"
    and c: "contents (mr_stream m) = hdr @ midi_chunks ts @ rest" "length hdr = 14"
    using assms by (simp_all add: track_at_def)
  have t: "length (midi_chunks (take (Suc i) ts)) = length (midi_chunks (take i ts)) + 8 + length (ts ! i)"
    using i by (simp add: midi_chunks_def take_Suc_conv_app_nth)
  have e: "mr_track_position m + unat (mr_track_size m) = 14 + length (midi_chunks (take (Suc i) ts))"
    using assms t by (simp add: track_at_def)
  have le: "14 + length (midi_chunks (take (Suc i) ts)) \<le> length (contents (mr_stream m))"
    using t midi_chunks_split [OF i] c by simp
  have "length (contents (mr_stream m)) \<le> 2 ^ 62"
    using contents_cap [OF ok] cap_bound [OF ok] by simp
  then show "midi_track_end m = 14 + length (midi_chunks (take (Suc i) ts))"
    unfolding midi_track_end_def using e le by (subst size_add_small) simp_all
  then show "midi_track_end m \<le> length (contents (mr_stream m))" using le by simp
qed

lemma next_track_at:
  assumes t: "track_at m hdr ts rest i" and i: "Suc i < length ts" and b: "\<forall>b \<in> set ts. length b < 2 ^ 32"
  shows "\<exists>m'. midi_next_track ops host m = Inr m' \<and> track_at m' hdr ts rest (Suc i) \<and>
    so_get_position ops (mr_stream m') = mr_track_position m'"
proof -
  have n: "length ts < 2 ^ 16" using t unat_less16 [of "mr_track_count m"] by (simp add: track_at_def)
  have u: "unat (mr_track_index m + 1) = Suc i"
    using t i n by (simp add: track_at_def unat_word_ariths) 
  let ?s = "so_set_position ops (midi_track_end m) (mr_stream m)"
  have s: "ok ?s \<and> contents ?s = contents (mr_stream m) \<and> so_get_position ops ?s = midi_track_end m"
    using set_position [OF _ track_end_at(2) [OF t]] t by (simp add: track_at_def)
  have m: "midi_track_end (m\<lparr>mr_track_index := x\<rparr>) = midi_track_end m" for x by (simp add: midi_track_end_def)
  have "\<not> midi_end_of_file (m\<lparr>mr_track_index := mr_track_index m + 1\<rparr>)"
    using t u i by (simp add: midi_end_of_file_def track_at_def word_le_nat_alt)
  then show ?thesis
    using read_track_at [of "m\<lparr>mr_track_index := mr_track_index m + 1, mr_stream := ?s\<rparr>" hdr ts rest "Suc i" host]
      s t u i b track_end_at(1) [OF t] m
    by (auto simp: midi_next_track_def Let_def track_at_def)
qed

end

lemma unat_ucast16: "unat (ucast (w :: u16) :: u32) = unat w"
  using unat_less16 [of w] by (simp add: unsigned_ucast_eq take_bit_eq_mod)

lemma midi_chunks_Nil [simp]: "midi_chunks [] = []"
  by (simp add: midi_chunks_def)

context input_stream begin

lemma skip_tracks_at:
  "track_at m hdr ts rest i \<Longrightarrow> i \<le> j \<Longrightarrow> j < length ts \<Longrightarrow> \<forall>b \<in> set ts. length b < 2 ^ 32 \<Longrightarrow>
   j - i < fuel \<Longrightarrow> (i = j \<longrightarrow> so_get_position ops (mr_stream m) = mr_track_position m) \<Longrightarrow>
   \<exists>m'. midi_skip_tracks ops host (word_of_nat j) fuel m = Some (Inr m') \<and> track_at m' hdr ts rest j \<and>
     so_get_position ops (mr_stream m') = mr_track_position m'"
proof (induction fuel arbitrary: m i)
  case (Suc fuel)
  have n: "length ts < 65536" using Suc.prems(1) unat_less16 [of "mr_track_count m"] by (simp add: track_at_def)
  have lt: "ucast (mr_track_index m) < (word_of_nat j :: u32) \<longleftrightarrow> i < j"
    using Suc.prems(1,3) n by (simp add: word_less_nat_alt track_at_def unat_of_nat unat_ucast16)
  show ?case
  proof (cases "i < j")
    case True
    obtain m1 where "midi_next_track ops host m = Inr m1" "track_at m1 hdr ts rest (Suc i)"
      "so_get_position ops (mr_stream m1) = mr_track_position m1"
      using next_track_at [OF Suc.prems(1) _ Suc.prems(4), of host] True Suc.prems(3) by auto
    then show ?thesis using Suc.IH [of m1 "Suc i"] Suc.prems True lt by (simp add: bind_o_def)
  next
    case False
    then show ?thesis using Suc.prems lt by simp
  qed
qed simp

lemma seek_track_at:
  assumes t: "track_at m hdr ts rest i" and j: "j < length ts" and b: "\<forall>b \<in> set ts. length b < 2 ^ 32"
  shows "\<exists>m'. midi_seek_track ops host (word_of_nat j) m = Some (Inr m') \<and> track_at m' hdr ts rest j \<and>
     so_get_position ops (mr_stream m') = mr_track_position m'"
proof -
  have n: "length ts < 65536" using t unat_less16 [of "mr_track_count m"] by (simp add: track_at_def)
  have c: "\<not> (word_of_nat j :: u32) \<ge> ucast (mr_track_count m)"
    "(word_of_nat j :: u32) \<le> ucast (mr_track_index m) \<longleftrightarrow> j \<le> i"
    using t j n by (simp_all add: word_le_nat_alt track_at_def unat_of_nat unat_ucast16)
  show ?thesis
  proof (cases "j \<le> i")
    case True
    let ?s = "so_set_position ops (4 + 4 + 2 * 3) (mr_stream m)"
    let ?m = "m\<lparr>mr_stream := ?s, mr_track_index := 0\<rparr>"
    have s: "ok ?s" "contents ?s = contents (mr_stream m)" "so_get_position ops ?s = 14"
      using set_position [of "mr_stream m" 14] t by (simp_all add: track_at_def)
    have z: "0 < length ts" "length (ts ! 0) < 2 ^ 32" using j b by (auto intro!: bspec [OF b] nth_mem)
    obtain m1 where "midi_read_track ops host ?m = Inr m1"
      "track_at m1 hdr ts rest 0" "so_get_position ops (mr_stream m1) = mr_track_position m1"
      using read_track_at [of ?m hdr ts rest 0 host] t s z unfolding track_at_def by auto
    then show ?thesis using skip_tracks_at [of m1 hdr ts rest 0 j "0x10000" host] c True j b n
      by (simp add: midi_seek_track_def bind_o_def)
  next
    case False
    then show ?thesis using skip_tracks_at [OF t, of j "0x10000" host] c j b n
      by (simp add: midi_seek_track_def bind_o_def)
  qed
qed

lemma midi_new_at:
  assumes s: "ok s" "contents s = midi_header type count division @ midi_chunks ts @ rest"
    and p: "so_get_position ops s = 0"
    and ts: "ts \<noteq> []" "\<forall>b \<in> set ts. length b < 2 ^ 32" "unat count = length ts"
  shows "\<exists>m. midi_new ops host s = Inr m \<and> track_at m (midi_header type count division) ts rest 0 \<and>
    mr_type m = type \<and> so_get_position ops (mr_stream m) = mr_track_position m"
proof -
  let ?t = "midi_chunks ts @ rest"
  have a: "at s (be32 magic_header1 @ be32 magic_header2 @ be16 type @ be16 count @ be16 division @ ?t)"
    using s p by (simp add: at_def midi_header_def)
  note i32 = at_read_int [OF sw32.byte_swap_axioms] and i16 = at_read_int [OF sw16.byte_swap_axioms]
  obtain s1 where s1: "midi_read32 ops host s = Inr (magic_header1, s1)"
    "at s1 (be32 magic_header2 @ be16 type @ be16 count @ be16 division @ ?t)"
    "contents s1 = contents s" "so_get_position ops s1 = 4"
    using i32 [OF a [unfolded be32_def [of magic_header1]], of host] p
    by (auto simp: midi_read32_def read_int32_def)
  obtain s2 where s2: "midi_read32 ops host s1 = Inr (magic_header2, s2)"
    "at s2 (be16 type @ be16 count @ be16 division @ ?t)" "contents s2 = contents s" "so_get_position ops s2 = 8"
    using i32 [OF s1(2) [unfolded be32_def], of host] s1 by (auto simp: midi_read32_def read_int32_def)
  obtain s3 where s3: "midi_read16 ops host s2 = Inr (type, s3)"
    "at s3 (be16 count @ be16 division @ ?t)" "contents s3 = contents s" "so_get_position ops s3 = 10"
    using i16 [OF s2(2) [unfolded be16_def [of type]], of host] s2 by (auto simp: midi_read16_def read_int16_def)
  obtain s4 where s4: "midi_read16 ops host s3 = Inr (count, s4)"
    "at s4 (be16 division @ ?t)" "contents s4 = contents s" "so_get_position ops s4 = 12"
    using i16 [OF s3(2) [unfolded be16_def [of count]], of host] s3 by (auto simp: midi_read16_def read_int16_def)
  obtain s5 d where s5: "midi_read_division ops host s4 = Inr (d, s5)"
    "at s5 ?t" "contents s5 = contents s" "so_get_position ops s5 = 14"
    using i16 [OF s4(2) [unfolded be16_def], of host] s4
    by (auto simp: midi_read_division_def midi_read16_def read_int16_def)
  let ?m = "\<lparr>mr_stream = s5, mr_type = type, mr_division = d, mr_track_count = count, mr_track_index = 0,
        mr_track_size = 0, mr_track_position = 0, mr_previous = 0\<rparr>"
  have "\<exists>m'. midi_read_track ops host ?m = Inr m' \<and> track_at m' (midi_header type count division) ts rest 0 \<and>
    so_get_position ops (mr_stream m') = mr_track_position m'"
    using read_track_at [of ?m "midi_header type count division" ts rest 0 host] s s5 ts
    by (auto simp: at_def midi_chunks_def)
  moreover have "mr_type m' = type" if "midi_read_track ops host ?m = Inr m'" for m'
    using that by (auto simp: midi_read_track_def bind_r_Inr_iff split: if_splits)
  ultimately show ?thesis using s1(1) s2(1) s3(1) s4(1) s5(1) by (auto simp: midi_new_def)
qed

end

text \<open>\<^verbatim>\<open>SeekTrack\<close> always returns.\<close>

lemma next_track_index:
  "midi_next_track ops host m = Inr m' \<Longrightarrow>
   mr_track_index m' = mr_track_index m + 1 \<and> mr_track_count m' = mr_track_count m"
  by (auto simp: midi_next_track_def midi_read_track_def Let_def bind_r_Inr_iff split: if_splits)

lemma skip_tracks_returns:
  "unat index \<le> 0xFFFF \<Longrightarrow> 0 < fuel \<Longrightarrow> unat index < unat (mr_track_index m) + fuel \<Longrightarrow>
   midi_skip_tracks ops host index fuel m \<noteq> None"
proof (induction fuel arbitrary: m)
  case (Suc fuel)
  show ?case
  proof (cases "ucast (mr_track_index m) < index")
    case True
    then have lt: "unat (mr_track_index m) < unat index" by (simp add: word_less_nat_alt unat_ucast16)
    then have "unat (mr_track_index m + 1) = Suc (unat (mr_track_index m))"
      using Suc.prems(1) by (simp add: unat_word_ariths)
    then have "midi_skip_tracks ops host index fuel m' \<noteq> None" if "midi_next_track ops host m = Inr m'" for m'
      using Suc.IH [of m'] Suc.prems lt next_track_index [OF that] by simp
    then show ?thesis using True by (auto simp: bind_o_def split: sum.splits)
  qed simp
qed simp

lemma seek_track_returns: "midi_seek_track ops host index m \<noteq> None"
proof (cases "index \<ge> ucast (mr_track_count m)")
  case False
  then have "unat index \<le> 0xFFFF"
    using unat_less16 [of "mr_track_count m"] by (simp add: word_less_nat_alt not_le unat_ucast16)
  then have "midi_skip_tracks ops host index 0x10000 m' \<noteq> None" for m' using skip_tracks_returns [of index "0x10000" m'] by simp
  then show ?thesis by (auto simp: midi_seek_track_def bind_o_def split: sum.splits)
qed (simp add: midi_seek_track_def)

text \<open>A stream that is at its end delivers -1, whose top bit says that more is to come.\<close>

lemma midi_integer_loop_at_end:
  "midi_integer_loop ops ret s = Some x \<Longrightarrow> ops = null_stream_ops \<Longrightarrow> False"
proof (induction rule: midi_integer_loop.raw_induct [rotated 1, consumes 1, case_names step])
  case (step loop ops ret s x)
  then show ?case by (auto simp: null_stream_ops_def default_read_byte_def Let_def)
qed

lemma midi_read_integer_at_end: "midi_read_integer null_stream_ops () = None"
  using midi_integer_loop_at_end [of null_stream_ops 0 "()"] by (cases "midi_read_integer null_stream_ops ()") (auto simp: midi_read_integer_def)

lemma pitch_bend_type:
  "create_channel_event delta (drop_bit 4 0xE0) channel p1 p2 =
     ChannelEvent \<lparr>ce_delta = delta, ce_type = 0x0e, ce_channel = channel, ce_parameter1 = p1, ce_parameter2 = p2\<rparr>"
  "(0x0e :: u8) \<noteq> midi_pitch_bend"
  by (simp_all add: create_channel_event_def midi_note_on_def midi_note_off_def midi_note_aftertouch_def
      midi_pitch_bend_def)


section \<open>Properties\<close>

text \<open>C12: For a well-formed file the reader finds its tracks: after the constructor, seeking to any
  track and then, forward or backward, to any other, puts the reader at the latter's data, and
  its track stream is that data.\<close>

theorem midi_tracks_found:
  assumes "memory_ok s" and "ms_position s = 0"
    and "memory_contents s = midi_header type count division @ midi_chunks ts @ rest"
    and "ts \<noteq> []" and "\<forall>b \<in> set ts. length b < 2 ^ 32" and "unat count = length ts"
    and "j < length ts" and "k < length ts"
  shows "\<exists>m m1 m2 t. midi_new (memory_ops g) host s = Inr m \<and> mr_type m = type \<and>
    midi_seek_track (memory_ops g) host (word_of_nat j) m = Some (Inr m1) \<and>
    midi_seek_track (memory_ops g) host (word_of_nat k) m1 = Some (Inr m2) \<and>
    unat (mr_track_index m2) = k \<and> midi_track_stream m2 = Inr t \<and>
    sub_contents memory_contents t = ts ! k \<and> \<not> midi_end_of_file m2 \<and>
    ms_position (mr_stream m2) = mr_track_position m2"
proof -
  let ?at = "mem.track_at"
  let ?h = "midi_header type count division"
  obtain m where m: "midi_new (memory_ops g) host s = Inr m" "?at m ?h ts rest 0" "mr_type m = type"
    using mem.midi_new_at [OF assms(1,3) _ assms(4-6), of g host] assms(2) by (auto simp: memory_ops_def)
  obtain m1 where m1: "midi_seek_track (memory_ops g) host (word_of_nat j) m = Some (Inr m1)" "?at m1 ?h ts rest j"
    using mem.seek_track_at [OF m(2) assms(7,5)] by blast
  obtain m2 where m2: "midi_seek_track (memory_ops g) host (word_of_nat k) m1 = Some (Inr m2)" "?at m2 ?h ts rest k"
    "so_get_position (memory_ops g) (mr_stream m2) = mr_track_position m2"
    using mem.seek_track_at [OF m1(2) assms(8,5)] by blast
  have e: "\<not> midi_end_of_file m2" using m2(2) assms(8)
    by (simp add: midi_end_of_file_def mem.track_at_def word_le_nat_alt)
  let ?t = "substream_new_length (mr_stream m2) (mr_track_position m2) (unat (mr_track_size m2))"
  have "sub_contents memory_contents ?t = ts ! k"
    using m2(2) midi_chunks_split [OF assms(8)]
    by (simp add: sub_contents_def substream_new_length_def mem.track_at_def midi_chunk_def be32_def)
  then show ?thesis using m m1 m2 e by (auto simp: midi_track_stream_def mem.track_at_def memory_ops_def)
qed

definition one_track_file :: memory_stream where
  "one_track_file = (let c = midi_header 1 1 96 @ midi_chunks [[0, 0xFF, 0x2F, 0]] in
     \<lparr>ms_data = c, ms_length = length c, ms_position = 0\<rparr>)"

theorem midi_tracks_found_witness:
  "\<exists>m m1 m2 t. midi_new (memory_ops (\<lambda>_. 0)) True one_track_file = Inr m \<and>
    midi_seek_track (memory_ops (\<lambda>_. 0)) True (word_of_nat 0) m = Some (Inr m1) \<and>
    midi_seek_track (memory_ops (\<lambda>_. 0)) True (word_of_nat 0) m1 = Some (Inr m2) \<and>
    midi_track_stream m2 = Inr t \<and> sub_contents memory_contents t = [0, 0xFF, 0x2F, 0]"
proof -
  have "memory_ok one_track_file" "ms_position one_track_file = 0"
    "memory_contents one_track_file = midi_header 1 1 96 @ midi_chunks [[0, 0xFF, 0x2F, 0]] @ []"
    by (simp_all add: one_track_file_def memory_ok_def memory_contents_def Let_def midi_chunks_def)
  from midi_tracks_found [OF this, of 0 0 "\<lambda>_. 0" True] show ?thesis by auto
qed


definition note_reader :: "memory_stream midi_reader" where
  "note_reader = \<lparr>mr_stream = \<lparr>ms_data = [0x81, 0x00, 0x90, 60, 64], ms_length = 5, ms_position = 0\<rparr>,
     mr_type = 0, mr_division = TicksPerBeat 96, mr_track_count = 1, mr_track_index = 0, mr_track_size = 5,
     mr_track_position = 0, mr_previous = 0\<rparr>"


end
