(* ===== verification/Imaging.thy ===== *)
theory Imaging
  imports Data_Buffer Endian
begin

text \<open>
  Colours, pixel descriptions, bitmaps, the operations common to all images and sub-images
  (\<^verbatim>\<open>include/bricks/imaging/colour.h\<close>, \<^verbatim>\<open>bitmap.h\<close>, \<^verbatim>\<open>image.h\<close>, \<^verbatim>\<open>subimage.h\<close> and
  \<^verbatim>\<open>source/imaging\<close>).  An image is given by its operations, the record \<open>image_ops\<close>; the locale
  \<open>image_store\<close> is what \<^verbatim>\<open>Image::CopyTo\<close> relies on.  A palette is the list of its colours,
  \<open>None\<close> while the bitmap has none; \<open>host\<close> is the host's byte order.
\<close>

section \<open>Colours\<close>

record colour =
  co_R :: u8
  co_G :: u8
  co_B :: u8
  co_A :: u8

definition colour_new :: "u8 \<Rightarrow> u8 \<Rightarrow> u8 \<Rightarrow> u8 \<Rightarrow> colour" where
  "colour_new r g b a = \<lparr>co_R = r, co_G = g, co_B = b, co_A = a\<rparr>"

definition colour_equal :: "colour \<Rightarrow> colour \<Rightarrow> bool" where
  "colour_equal c d \<longleftrightarrow> co_R c = co_R d \<and> co_G c = co_G d \<and> co_B c = co_B d \<and> co_A c = co_A d"

definition colour_add :: "colour \<Rightarrow> colour \<Rightarrow> colour" where
  "colour_add c d = colour_new (co_R c + co_R d) (co_G c + co_G d) (co_B c + co_B d) (co_A c + co_A d)"

definition colour_sub :: "colour \<Rightarrow> colour \<Rightarrow> colour" where
  "colour_sub c d = colour_new (co_R c - co_R d) (co_G c - co_G d) (co_B c - co_B d) (co_A c - co_A d)"

definition component_mul :: "u8 \<Rightarrow> u8 \<Rightarrow> u8" where
  "component_mul a b = word_of_int (c_div (uint a * uint b) 0xFF)"

definition colour_mul :: "colour \<Rightarrow> colour \<Rightarrow> colour" where
  "colour_mul c d = colour_new (component_mul (co_R c) (co_R d)) (component_mul (co_G c) (co_G d))
     (component_mul (co_B c) (co_B d)) (component_mul (co_A c) (co_A d))"

definition component_div :: "u8 \<Rightarrow> u8 \<Rightarrow> u8 result" where
  "component_div a b =
     (if b = 0 then Inl Undefined else Inr (word_of_int (c_div (uint a * 0xFF) (uint b))))"

definition colour_div :: "colour \<Rightarrow> colour \<Rightarrow> colour result" where
  "colour_div c d =
     bind_r (component_div (co_R c) (co_R d)) (\<lambda>r.
     bind_r (component_div (co_G c) (co_G d)) (\<lambda>g.
     bind_r (component_div (co_B c) (co_B d)) (\<lambda>b.
     bind_r (component_div (co_A c) (co_A d)) (\<lambda>a. Inr (colour_new r g b a)))))"

definition colour_add_assign :: "colour \<Rightarrow> colour \<Rightarrow> colour" where
  "colour_add_assign c d = colour_add c d"

text \<open>\<^verbatim>\<open>operator-=\<close> divides.\<close>

definition colour_sub_assign :: "colour \<Rightarrow> colour \<Rightarrow> colour result" where
  "colour_sub_assign c d = colour_div c d"

definition colour_mul_assign :: "colour \<Rightarrow> colour \<Rightarrow> colour" where
  "colour_mul_assign c d = colour_mul c d"

definition colour_div_assign :: "colour \<Rightarrow> colour \<Rightarrow> colour result" where
  "colour_div_assign c d = colour_div c d"

section \<open>Pixel descriptions\<close>

datatype colour_type = Unknown | Intensity | Palette | Red | Green | Blue | Alpha

definition colour_types :: "colour_type list" where
  "colour_types = [Unknown, Intensity, Palette, Red, Green, Blue, Alpha]"

text \<open>\<^verbatim>\<open>bitDepthMap\<close>.\<close>

fun colour_mask :: "colour_type \<Rightarrow> nat" where
  "colour_mask Unknown = 0x00"
| "colour_mask Intensity = 0x01"
| "colour_mask Palette = 0x02"
| "colour_mask Red = 0x04"
| "colour_mask Green = 0x08"
| "colour_mask Blue = 0x10"
| "colour_mask Alpha = 0x20"

text \<open>A description gives each component's depth in bits.\<close>

type_synonym pixel_description = "colour_type \<Rightarrow> u8"

definition pixel_empty :: pixel_description where
  "pixel_empty = (\<lambda>_. 0)"

definition pixel_new :: "u8 \<Rightarrow> nat \<Rightarrow> pixel_description" where
  "pixel_new depth bits = (\<lambda>t. if bits AND colour_mask t \<noteq> 0 then depth else 0)"

definition pixel_bit_mask :: "pixel_description \<Rightarrow> nat" where
  "pixel_bit_mask d = fold (\<lambda>t m. if d t \<noteq> 0 then m OR colour_mask t else m) colour_types 0"

definition pixel_colour_count :: "pixel_description \<Rightarrow> u8" where
  "pixel_colour_count d = fold (\<lambda>t n. if d t \<noteq> 0 then n + 1 else n) colour_types 0"

definition pixel_depth :: "pixel_description \<Rightarrow> nat" where
  "pixel_depth d = unat (fold (\<lambda>t n. n + d t) colour_types (0 :: u8))"

definition pixel_size :: "pixel_description \<Rightarrow> nat" where
  "pixel_size d = round_up (pixel_depth d) 8 div 8"

definition pixel_equal :: "pixel_description \<Rightarrow> pixel_description \<Rightarrow> bool" where
  "pixel_equal d e \<longleftrightarrow> pixel_bit_mask d = pixel_bit_mask e"

definition pixel_I8 :: pixel_description where "pixel_I8 = pixel_new 8 0x01"
definition pixel_IA8 :: pixel_description where "pixel_IA8 = pixel_new 8 0x21"
definition pixel_RGB8 :: pixel_description where "pixel_RGB8 = pixel_new 8 0x1C"
definition pixel_RGBA8 :: pixel_description where "pixel_RGBA8 = pixel_new 8 0x3C"

section \<open>Bitmaps\<close>

datatype interlace_type = NoInterlace | Adam7

record bitmap =
  bm_palette :: "colour list option"
  bm_description :: pixel_description
  bm_interlacing :: interlace_type
  bm_width :: nat
  bm_height :: nat
  bm_data :: bytes

definition image_data_size :: "nat \<Rightarrow> nat \<Rightarrow> pixel_description \<Rightarrow> nat" where
  "image_data_size w h d = round_up ((pixel_depth d * w * h) mod 2 ^ 64) 8 div 8"

definition image_data_stride :: "nat \<Rightarrow> pixel_description \<Rightarrow> nat" where
  "image_data_stride w d = round_up (pixel_depth d * w) 8 div 8"

text \<open>The size goes through a 32-bit result into an \<^verbatim>\<open>int\<close>.\<close>

definition bitmap_allocate :: "bitmap \<Rightarrow> bitmap result" where
  "bitmap_allocate b =
     (let n = s32 (int (image_data_size (bm_width b) (bm_height b) (bm_description b) mod 2 ^ 32)) in
      if n < 0 then Inl Undefined else Inr (b\<lparr>bm_data := replicate (nat n) 0\<rparr>))"

definition bitmap_new :: "nat \<Rightarrow> nat \<Rightarrow> pixel_description \<Rightarrow> interlace_type \<Rightarrow> bitmap result" where
  "bitmap_new w h d il =
     bitmap_allocate \<lparr>bm_palette = None, bm_description = d, bm_interlacing = il, bm_width = w, bm_height = h, bm_data = []\<rparr>"

definition bitmap_set_size :: "nat \<Rightarrow> nat \<Rightarrow> bitmap \<Rightarrow> bitmap result" where
  "bitmap_set_size w h b = bitmap_allocate (b\<lparr>bm_width := w, bm_height := h\<rparr>)"

text \<open>The \<^verbatim>\<open>32\<close> bit shifts of components of depth 0 yield a value that is not used (reading) or
  shift a 0 (writing).  Reading a pixel's bits: the whole pixel, then its components from the low end.\<close>

fun pixel_bytes_down :: "bytes \<Rightarrow> nat \<Rightarrow> nat \<Rightarrow> u32 \<Rightarrow> u32 result" where
  "pixel_bytes_down m off 0 pixel = Inr pixel"
| "pixel_bytes_down m off (Suc i) pixel =
     bind_r (peek m (off + i)) (\<lambda>b. pixel_bytes_down m off i (push_bit 8 pixel OR ucast b))"

definition pixel_load :: "bool \<Rightarrow> bitmap \<Rightarrow> nat \<Rightarrow> u32 result" where
  "pixel_load host b offset =
     (let depth = pixel_depth (bm_description b) in
      if depth = 8 then bind_r (peek (bm_data b) offset) (\<lambda>v. Inr (ucast v))
      else if depth = 16 then
        bind_r (mem_read (bm_data b) (2 * offset) 2) (\<lambda>bs.
        Inr (ucast (endian_convert_le swap16 host (load_native host bs :: u16))))
      else if depth = 32 then
        bind_r (mem_read (bm_data b) (4 * offset) 4) (\<lambda>bs.
        Inr (endian_convert_le swap32 host (load_native host bs)))
      else
        bind_r (pixel_bytes_down (bm_data b) (offset * depth div 8) (round_up depth 8 div 8) 0) (\<lambda>pixel.
        Inr (drop_bit (offset * depth mod 8) pixel)))"

definition component_bits :: "u8 \<Rightarrow> u32 \<Rightarrow> u32" where
  "component_bits depth pixel = drop_bit (0x20 - unat depth) (push_bit (0x20 - unat depth) pixel)"

fun put_component :: "colour list option \<Rightarrow> colour_type \<Rightarrow> u32 \<Rightarrow> colour \<Rightarrow> colour result" where
  "put_component pal Unknown c col = Inr col"
| "put_component pal Intensity c col = Inr (colour_new (ucast c) (ucast c) (ucast c) (ucast c))"
| "put_component pal Palette c col =
     (case pal of None \<Rightarrow> Inl Undefined | Some p \<Rightarrow> peek p (unat c))"
| "put_component pal Red c col = Inr (col\<lparr>co_R := ucast c\<rparr>)"
| "put_component pal Green c col = Inr (col\<lparr>co_G := ucast c\<rparr>)"
| "put_component pal Blue c col = Inr (col\<lparr>co_B := ucast c\<rparr>)"
| "put_component pal Alpha c col = Inr (col\<lparr>co_A := ucast c\<rparr>)"

fun take_components ::
    "colour list option \<Rightarrow> pixel_description \<Rightarrow> colour_type list \<Rightarrow> u32 \<Rightarrow> colour \<Rightarrow> colour result" where
  "take_components pal d [] pixel col = Inr col"
| "take_components pal d (t # ts) pixel col =
     bind_r (if d t \<noteq> 0 then put_component pal t (component_bits (d t) pixel) col else Inr col) (\<lambda>col'.
     take_components pal d ts (drop_bit (unat (d t)) pixel) col')"

definition bitmap_get_pixel :: "bool \<Rightarrow> bitmap \<Rightarrow> nat \<Rightarrow> nat \<Rightarrow> colour result" where
  "bitmap_get_pixel host b x y =
     (if x \<ge> bm_width b \<or> y \<ge> bm_height b then throw (InvalidArgumentException '''')
      else bind_r (pixel_load host b (y * bm_width b + x)) (\<lambda>pixel.
        take_components (bm_palette b) (bm_description b) colour_types pixel (colour_new 0 0 0 0xFF)))"

text \<open>Writing: the components from the first one down to the low end, then the pixel, high byte
  first.\<close>

fun component_of :: "colour list option \<Rightarrow> colour_type \<Rightarrow> colour \<Rightarrow> u32 result" where
  "component_of pal Unknown col = Inr 0"
| "component_of pal Intensity col =
     Inr (word_of_int (c_div (uint (co_R col) + uint (co_G col) + uint (co_B col)) 3))"
| "component_of pal Palette col =
     (case pal of None \<Rightarrow> Inl Undefined
      | Some p \<Rightarrow> (case List.find (\<lambda>i. colour_equal (p ! i) col) [0..<length p] of
            None \<Rightarrow> Inr (word_of_int (- 1)) | Some i \<Rightarrow> Inr (word_of_nat i)))"
| "component_of pal Red col = Inr (ucast (co_R col))"
| "component_of pal Green col = Inr (ucast (co_G col))"
| "component_of pal Blue col = Inr (ucast (co_B col))"
| "component_of pal Alpha col = Inr (ucast (co_A col))"

fun join_components ::
    "colour list option \<Rightarrow> pixel_description \<Rightarrow> colour_type list \<Rightarrow> colour \<Rightarrow> u32 \<Rightarrow> u32 result" where
  "join_components pal d [] col pixel = Inr pixel"
| "join_components pal d (t # ts) col pixel =
     bind_r (if d t \<noteq> 0 then component_of pal t col else Inr 0) (\<lambda>c.
     join_components pal d ts col (push_bit (unat (d t)) pixel OR component_bits (d t) c))"

fun pixel_bytes_up :: "bytes \<Rightarrow> nat \<Rightarrow> nat \<Rightarrow> u32 \<Rightarrow> bytes result" where
  "pixel_bytes_up m off 0 pixel = Inr m"
| "pixel_bytes_up m off (Suc i) pixel =
     bind_r (poke m (off + i) (ucast pixel)) (\<lambda>m'. pixel_bytes_up m' off i (drop_bit 8 pixel))"

definition pixel_store :: "bool \<Rightarrow> bitmap \<Rightarrow> nat \<Rightarrow> u32 \<Rightarrow> bytes result" where
  "pixel_store host b offset pixel =
     (let depth = pixel_depth (bm_description b) in
      if depth = 8 then poke (bm_data b) offset (ucast pixel)
      else if depth = 16 then
        mem_write (bm_data b) (2 * offset) (store_native host 2 (endian_convert_be swap16 host (ucast pixel)))
      else if depth = 32 then
        mem_write (bm_data b) (4 * offset) (store_native host 4 (endian_convert_be swap32 host pixel))
      else if depth < 8 then throw (NotSupportedException '''')
      else pixel_bytes_up (bm_data b) (offset * depth div 8) (depth div 8) pixel)"

definition bitmap_set_pixel :: "bool \<Rightarrow> nat \<Rightarrow> nat \<Rightarrow> colour \<Rightarrow> bitmap \<Rightarrow> bitmap result" where
  "bitmap_set_pixel host x y col b =
     (if x \<ge> bm_width b \<or> y \<ge> bm_height b then throw (InvalidArgumentException '''')
      else bind_r (join_components (bm_palette b) (bm_description b) colour_types col 0) (\<lambda>pixel.
        bind_r (pixel_store host b (y * bm_width b + x) pixel) (\<lambda>m. Inr (b\<lparr>bm_data := m\<rparr>))))"

section \<open>Images\<close>

record 'i image_ops =
  io_width :: "'i \<Rightarrow> nat"
  io_height :: "'i \<Rightarrow> nat"
  io_get_pixel :: "'i \<Rightarrow> nat \<Rightarrow> nat \<Rightarrow> colour result"
  io_set_pixel :: "nat \<Rightarrow> nat \<Rightarrow> colour \<Rightarrow> 'i \<Rightarrow> 'i result"

definition bitmap_ops :: "bool \<Rightarrow> bitmap image_ops" where
  "bitmap_ops host = \<lparr>io_width = bm_width, io_height = bm_height,
     io_get_pixel = bitmap_get_pixel host, io_set_pixel = bitmap_set_pixel host\<rparr>"

definition image_copy_to ::
    "'a image_ops \<Rightarrow> 'a \<Rightarrow> 'b image_ops \<Rightarrow> nat \<Rightarrow> nat \<Rightarrow> nat \<Rightarrow> nat \<Rightarrow> 'b \<Rightarrow> 'b result" where
  "image_copy_to src this dst x y w h img =
     (if x > io_width dst img \<or> y > io_height dst img then Inr img
      else
        (let w' = math_min (math_min w (io_width dst img - x)) (io_width src this);
             h' = math_min (math_min h (io_height dst img - y)) (io_height src this) in
         fold_r (\<lambda>i. fold_r (\<lambda>j img.
             bind_r (io_get_pixel src this (i - x) (j - y)) (\<lambda>c. io_set_pixel dst i j c img))
           [y..<y + h']) [x..<x + w'] img))"

definition image_copy_all ::
    "'a image_ops \<Rightarrow> 'a \<Rightarrow> 'b image_ops \<Rightarrow> nat \<Rightarrow> nat \<Rightarrow> 'b \<Rightarrow> 'b result" where
  "image_copy_all src this dst x y img =
     image_copy_to src this dst x y (io_width src this) (io_height src this) img"

definition image_colourise_to ::
    "'a image_ops \<Rightarrow> 'a \<Rightarrow> 'b image_ops \<Rightarrow> colour \<Rightarrow> 'b \<Rightarrow> 'b result" where
  "image_colourise_to src this dst col img =
     (if io_width dst img \<noteq> io_width src this \<or> io_height dst img \<noteq> io_height src this
      then throw (InvalidArgumentException '''')
      else fold_r (\<lambda>x. fold_r (\<lambda>y img.
             bind_r (io_get_pixel src this x y) (\<lambda>c. io_set_pixel dst x y (colour_mul col c) img))
           [0..<io_height dst img]) [0..<io_width dst img] img)"

text \<open>\<^verbatim>\<open>Colourise\<close> has one image as source and target.\<close>

definition image_colourise :: "'a image_ops \<Rightarrow> colour \<Rightarrow> 'a \<Rightarrow> 'a result" where
  "image_colourise ops col img =
     fold_r (\<lambda>x. fold_r (\<lambda>y img.
         bind_r (io_get_pixel ops img x y) (\<lambda>c. io_set_pixel ops x y (colour_mul col c) img))
       [0..<io_height ops img]) [0..<io_width ops img] img"

text \<open>\<^verbatim>\<open>Bitmap::CopyTo\<close> copies rows when the descriptions agree; \<^verbatim>\<open>memcpy\<close> checks nothing.
  The number is that of the rows the loop has left.\<close>

fun copy_rows :: "bytes \<Rightarrow> nat \<Rightarrow> nat \<Rightarrow> nat \<Rightarrow> nat \<Rightarrow> nat \<Rightarrow> nat \<Rightarrow> bytes \<Rightarrow> bytes result" where
  "copy_rows idata stride istride ostride index oindex 0 odata = Inr odata"
| "copy_rows idata stride istride ostride index oindex (Suc n) odata =
     bind_r (mem_read idata index stride) (\<lambda>bs.
     bind_r (mem_write odata oindex bs) (\<lambda>odata'.
     copy_rows idata stride istride ostride ((index + istride) mod 2 ^ 32) ((oindex + ostride) mod 2 ^ 32) n odata'))"

definition bitmap_copy_to ::
    "bool \<Rightarrow> bitmap \<Rightarrow> nat \<Rightarrow> nat \<Rightarrow> nat \<Rightarrow> nat \<Rightarrow> bitmap \<Rightarrow> bitmap result" where
  "bitmap_copy_to host this x y w h img =
     (if \<not> pixel_equal (bm_description img) (bm_description this)
      then image_copy_to (bitmap_ops host) this (bitmap_ops host) x y w h img
      else
        (let pixel = pixel_size (bm_description this);
             stride = w * pixel mod 2 ^ 32;
             istride = bm_width this * pixel mod 2 ^ 32;
             ostride = bm_width img * pixel mod 2 ^ 32;
             oindex = (ostride * y + x * pixel) mod 2 ^ 32 in
         bind_r (copy_rows (bm_data this) stride istride ostride 0 oindex (h - y) (bm_data img))
           (\<lambda>m. Inr (img\<lparr>bm_data := m\<rparr>))))"

section \<open>Sub-images\<close>

record 'i subimage =
  su_image :: 'i
  su_x :: nat
  su_y :: nat
  su_width :: nat
  su_height :: nat

text \<open>The first argument is the interlace type of the image when it is a \<^verbatim>\<open>BitmapImage\<close>.\<close>

definition subimage_new ::
    "interlace_type option \<Rightarrow> 'i \<Rightarrow> nat \<Rightarrow> nat \<Rightarrow> nat \<Rightarrow> nat \<Rightarrow> 'i subimage result" where
  "subimage_new il img x y w h =
     (if il \<noteq> None \<and> il \<noteq> Some NoInterlace then throw (NotSupportedException '''')
      else Inr \<lparr>su_image = img, su_x = x, su_y = y, su_width = w, su_height = h\<rparr>)"

definition subimage_set_offset :: "nat \<Rightarrow> nat \<Rightarrow> 'i subimage \<Rightarrow> 'i subimage" where
  "subimage_set_offset x y s = s\<lparr>su_x := x, su_y := y\<rparr>"

definition subimage_set_size :: "nat \<Rightarrow> nat \<Rightarrow> 'i subimage \<Rightarrow> 'i subimage" where
  "subimage_set_size w h s = s\<lparr>su_width := w, su_height := h\<rparr>"

definition u32_add :: "nat \<Rightarrow> nat \<Rightarrow> nat" where
  "u32_add a b = (a + b) mod 2 ^ 32"

definition subimage_get_pixel :: "'i image_ops \<Rightarrow> 'i subimage \<Rightarrow> nat \<Rightarrow> nat \<Rightarrow> colour result" where
  "subimage_get_pixel ops s x y =
     (if x \<ge> su_width s \<or> y \<ge> su_height s then throw (InvalidArgumentException '''')
      else io_get_pixel ops (su_image s) (u32_add (su_x s) x) (u32_add (su_y s) y))"

definition subimage_set_pixel :: "'i image_ops \<Rightarrow> nat \<Rightarrow> nat \<Rightarrow> colour \<Rightarrow> 'i subimage \<Rightarrow> 'i subimage result" where
  "subimage_set_pixel ops x y c s =
     (if x \<ge> su_width s \<or> y \<ge> su_height s then throw (InvalidArgumentException '''')
      else bind_r (io_set_pixel ops (u32_add (su_x s) x) (u32_add (su_y s) y) c (su_image s))
        (\<lambda>i. Inr (s\<lparr>su_image := i\<rparr>)))"

definition subimage_ops :: "'i image_ops \<Rightarrow> 'i subimage image_ops" where
  "subimage_ops ops = \<lparr>io_width = su_width, io_height = su_height,
     io_get_pixel = subimage_get_pixel ops, io_set_pixel = subimage_set_pixel ops\<rparr>"

definition subimage_data_size :: "bitmap subimage \<Rightarrow> nat" where
  "subimage_data_size s = image_data_size (bm_width (su_image s)) (su_height s) (bm_description (su_image s))"

section \<open>Pixels of whole bytes\<close>

locale byte_pixels =
  fixes host :: bool and desc :: pixel_description and n :: nat
    and enc :: "colour \<Rightarrow> bytes" and dec :: "bytes \<Rightarrow> colour"
  assumes n_pos: "0 < n"
    and enc_length: "length (enc c) = n"
    and store_enc: "bm_description b = desc \<Longrightarrow> n * off + n \<le> length (bm_data b) \<Longrightarrow>
      bind_r (join_components (bm_palette b) desc colour_types c 0) (pixel_store host b off) =
        mem_write (bm_data b) (n * off) (enc c)"
    and load_dec: "bm_description b = desc \<Longrightarrow> n * off + n \<le> length (bm_data b) \<Longrightarrow>
      bind_r (pixel_load host b off) (\<lambda>pixel.
        take_components (bm_palette b) desc colour_types pixel (colour_new 0 0 0 0xFF)) =
        Inr (dec (take n (drop (n * off) (bm_data b))))"

definition bitmap_ok :: "pixel_description \<Rightarrow> nat \<Rightarrow> bitmap \<Rightarrow> bool" where
  "bitmap_ok desc n b \<longleftrightarrow> bm_description b = desc \<and> length (bm_data b) = n * (bm_width b * bm_height b)"

lemma pixel_inside:
  assumes "x < w" "y < (h :: nat)"
  shows "n * (y * w + x) + n \<le> n * (w * h)"
proof -
  have "y * w + x + 1 \<le> (y + 1) * w" using assms(1) by simp
  also have "\<dots> \<le> h * w" using assms(2) by (intro mult_right_mono) simp_all
  finally have "n * (y * w + x + 1) \<le> n * (h * w)" by (rule mult_le_mono2)
  then show ?thesis by (simp add: algebra_simps)
qed

lemma pixel_offset_inj:
  assumes "x < w" "p < (w :: nat)" "y * w + x = q * w + p"
  shows "x = p \<and> y = q"
proof -
  have "(y * w + x) mod w = x" "(q * w + p) mod w = p" "(y * w + x) div w = y" "(q * w + p) div w = q"
    using assms(1,2) by simp_all
  then show ?thesis using assms(3) by metis
qed

text \<open>Slots of \<open>n\<close> bytes: writing one leaves the others.\<close>

lemma slot_other:
  assumes "mem_write m (n * i) bs = Inr m'" "length bs = n" "i \<noteq> j"
  shows "take n (drop (n * j) m') = take n (drop (n * j) m)"
proof -
  have w: "n * i + n \<le> length m" "m' = take (n * i) m @ bs @ drop (n * i + n) m"
    using mem_write_InrD [OF assms(1)] assms(2) by auto
  show ?thesis
  proof (cases "j < i")
    case True
    then have "n * j + n \<le> n * i" by (metis Suc_leI mult_Suc_right mult_le_mono2 add.commute)
    then obtain k where "n * i = n * j + n + k" using le_Suc_ex by blast
    then show ?thesis using w by (simp add: take_drop add.commute)
  next
    case False
    then have "n * i + n \<le> n * j" using assms(3) by (metis Suc_leI antisym_conv3 mult_Suc_right mult_le_mono2 add.commute)
    then obtain k where "n * j = n * i + n + k" using le_Suc_ex by blast
    then show ?thesis using w assms(2) by (simp add: add.commute)
  qed
qed

text \<open>An image that keeps what is set, up to a conversion of colours.\<close>

locale image_store =
  fixes ops :: "'i image_ops" and ok :: "'i \<Rightarrow> bool" and conv :: "colour \<Rightarrow> colour"
  assumes get_inside: "ok s \<Longrightarrow> x < io_width ops s \<Longrightarrow> y < io_height ops s \<Longrightarrow> \<exists>c. io_get_pixel ops s x y = Inr c"
    and get_outside: "ok s \<Longrightarrow> \<not> (x < io_width ops s \<and> y < io_height ops s) \<Longrightarrow>
      io_get_pixel ops s x y = throw (InvalidArgumentException '''')"
    and set_inside: "ok s \<Longrightarrow> x < io_width ops s \<Longrightarrow> y < io_height ops s \<Longrightarrow> \<exists>s'. io_set_pixel ops x y c s = Inr s' \<and>
      ok s' \<and> io_width ops s' = io_width ops s \<and> io_height ops s' = io_height ops s \<and>
      io_get_pixel ops s' x y = Inr (conv c) \<and>
      (\<forall>p q. (p, q) \<noteq> (x, y) \<longrightarrow> io_get_pixel ops s' p q = io_get_pixel ops s p q)"
    and set_outside: "ok s \<Longrightarrow> \<not> (x < io_width ops s \<and> y < io_height ops s) \<Longrightarrow>
      io_set_pixel ops x y c s = throw (InvalidArgumentException '''')"

context byte_pixels begin

lemma get_pixel_dec:
  assumes "bitmap_ok desc n b" "x < bm_width b" "y < bm_height b"
  shows "bitmap_get_pixel host b x y = Inr (dec (take n (drop (n * (y * bm_width b + x)) (bm_data b))))"
  using load_dec [of b "y * bm_width b + x"] pixel_inside [of x "bm_width b" y "bm_height b" n] assms
  by (simp add: bitmap_get_pixel_def bitmap_ok_def)

lemma set_pixel_enc:
  assumes "bitmap_ok desc n b" "x < bm_width b" "y < bm_height b"
  obtains m where "bitmap_set_pixel host x y c b = Inr (b\<lparr>bm_data := m\<rparr>)"
    "mem_write (bm_data b) (n * (y * bm_width b + x)) (enc c) = Inr m"
proof -
  let ?o = "y * bm_width b + x"
  have le: "n * ?o + n \<le> length (bm_data b)"
    using pixel_inside [of x "bm_width b" y "bm_height b" n] assms by (simp add: bitmap_ok_def)
  then obtain m where m: "mem_write (bm_data b) (n * ?o) (enc c) = Inr m"
    by (simp add: mem_write_def enc_length)
  then have "bind_r (join_components (bm_palette b) desc colour_types c 0) (pixel_store host b ?o) = Inr m"
    using store_enc [of b ?o c] le assms(1) by (simp add: bitmap_ok_def)
  then have "bitmap_set_pixel host x y c b = Inr (b\<lparr>bm_data := m\<rparr>)"
    using assms by (auto simp: bitmap_set_pixel_def bitmap_ok_def bind_r_Inr_iff)
  then show thesis using m by (rule that)
qed

end

sublocale byte_pixels \<subseteq> store: image_store "bitmap_ops host" "bitmap_ok desc n" "\<lambda>c. dec (enc c)"
proof
  fix b x y c
  assume ok: "bitmap_ok desc n b"
  show "\<exists>c. io_get_pixel (bitmap_ops host) b x y = Inr c"
    if "x < io_width (bitmap_ops host) b" "y < io_height (bitmap_ops host) b"
    using get_pixel_dec [OF ok] that by (simp add: bitmap_ops_def)
  show "io_get_pixel (bitmap_ops host) b x y = throw (InvalidArgumentException '''')"
    if "\<not> (x < io_width (bitmap_ops host) b \<and> y < io_height (bitmap_ops host) b)"
    using that by (auto simp: bitmap_ops_def bitmap_get_pixel_def)
  show "io_set_pixel (bitmap_ops host) x y c b = throw (InvalidArgumentException '''')"
    if "\<not> (x < io_width (bitmap_ops host) b \<and> y < io_height (bitmap_ops host) b)"
    using that by (auto simp: bitmap_ops_def bitmap_set_pixel_def)
  assume xy: "x < io_width (bitmap_ops host) b" "y < io_height (bitmap_ops host) b"
  then have xy': "x < bm_width b" "y < bm_height b" by (simp_all add: bitmap_ops_def)
  obtain m where m: "bitmap_set_pixel host x y c b = Inr (b\<lparr>bm_data := m\<rparr>)"
    "mem_write (bm_data b) (n * (y * bm_width b + x)) (enc c) = Inr m"
    using set_pixel_enc [OF ok xy'] by blast
  have ok': "bitmap_ok desc n (b\<lparr>bm_data := m\<rparr>)"
    using ok mem_write_length [OF m(2)] by (simp add: bitmap_ok_def)
  have "take n (drop (n * (y * bm_width b + x)) m) = enc c"
    using mem_write_InrD [OF m(2)] by (auto simp: enc_length)
  then have same: "bitmap_get_pixel host (b\<lparr>bm_data := m\<rparr>) x y = Inr (dec (enc c))"
    using get_pixel_dec [OF ok', of x y] xy' by simp
  have other: "bitmap_get_pixel host (b\<lparr>bm_data := m\<rparr>) p q = bitmap_get_pixel host b p q"
    if ne: "(p, q) \<noteq> (x, y)" for p q
  proof (cases "p < bm_width b \<and> q < bm_height b")
    case True
    then have "y * bm_width b + x \<noteq> q * bm_width b + p"
      using pixel_offset_inj [of x "bm_width b" p y q] xy' ne by auto
    then have "take n (drop (n * (q * bm_width b + p)) m) = take n (drop (n * (q * bm_width b + p)) (bm_data b))"
      using slot_other [OF m(2) enc_length] by blast
    then show ?thesis using get_pixel_dec [OF ok', of p q] get_pixel_dec [OF ok, of p q] True by simp
  next
    case False
    then show ?thesis by (auto simp: bitmap_get_pixel_def)
  qed
  show "\<exists>s'. io_set_pixel (bitmap_ops host) x y c b = Inr s' \<and> bitmap_ok desc n s' \<and>
      io_width (bitmap_ops host) s' = io_width (bitmap_ops host) b \<and>
      io_height (bitmap_ops host) s' = io_height (bitmap_ops host) b \<and>
      io_get_pixel (bitmap_ops host) s' x y = Inr (dec (enc c)) \<and>
      (\<forall>p q. (p, q) \<noteq> (x, y) \<longrightarrow> io_get_pixel (bitmap_ops host) s' p q = io_get_pixel (bitmap_ops host) b p q)"
    using m(1) ok' same other by (intro exI [of _ "b\<lparr>bm_data := m\<rparr>"]) (simp add: bitmap_ops_def)
qed

section \<open>The formats with 8 bits per component\<close>

fun rgba_bytes :: "colour \<Rightarrow> bytes" where
  "rgba_bytes c = [co_R c, co_G c, co_B c, co_A c]"

fun rgba_colour :: "bytes \<Rightarrow> colour" where
  "rgba_colour bs = \<lparr>co_R = bs ! 0, co_G = bs ! 1, co_B = bs ! 2, co_A = bs ! 3\<rparr>"

fun rgb_bytes :: "colour \<Rightarrow> bytes" where
  "rgb_bytes c = [co_R c, co_G c, co_B c]"

fun rgb_colour :: "bytes \<Rightarrow> colour" where
  "rgb_colour bs = \<lparr>co_R = bs ! 0, co_G = bs ! 1, co_B = bs ! 2, co_A = 0xFF\<rparr>"

lemma component_bits_8: "component_bits 8 w = take_bit 8 w"
  by (rule bit_eqI) (auto simp: component_bits_def bit_drop_bit_eq bit_push_bit_iff bit_take_bit_iff
      dest: bit_imp_le_length)

lemma component_bits_8_ucast: "component_bits 8 (ucast (b :: u8)) = ucast b"
  by (rule bit_eqI) (auto simp: component_bits_8 bit_take_bit_iff bit_ucast_iff dest: bit_imp_le_length)

lemma ucast_component_bits_8: "(ucast (component_bits 8 w) :: u8) = ucast w"
  by (rule bit_eqI) (auto simp: component_bits_8 bit_take_bit_iff bit_ucast_iff)

lemma component_bits_0: "component_bits d 0 = 0"
  by (simp add: component_bits_def)

lemmas pixel_formats = pixel_RGBA8_def pixel_RGB8_def pixel_new_def

lemma pixel_depth_formats: "pixel_depth pixel_RGBA8 = 32" "pixel_depth pixel_RGB8 = 24"
  by (simp_all add: pixel_depth_def colour_types_def pixel_formats)

lemma push_or_eq_word_le:
  "((push_bit 24 (ucast r) OR push_bit 16 (ucast g)) OR push_bit 8 (ucast b)) OR ucast a =
    (word_le [a, b, g, r] :: u32)"
  "(push_bit 16 (ucast r) OR push_bit 8 (ucast g)) OR ucast b = (word_le [b, g, r] :: u32)"
  by (simp_all add: push_bit_or or.commute or.left_commute)

lemma bytes_word_le_4: "bytes_le 4 (word_le [a, b, c, d] :: u32) = [a, b, c, d]"
  using bytes_word_le [of "[a, b, c, d]", where 'a = 32] by (simp add: numeral_eq_Suc del: word_le.simps)

lemma join_rgba: "join_components pal pixel_RGBA8 colour_types c 0 =
    Inr (word_le [co_A c, co_B c, co_G c, co_R c])"
  by (simp add: colour_types_def pixel_formats component_bits_8_ucast component_bits_0 push_or_eq_word_le
      del: word_le.simps)

lemma join_rgb: "join_components pal pixel_RGB8 colour_types c 0 = Inr (word_le [co_B c, co_G c, co_R c])"
  by (simp add: colour_types_def pixel_formats component_bits_8_ucast component_bits_0 push_or_eq_word_le
      del: word_le.simps)

lemma word_le_low: "(ucast (word_le (b # bs) :: u32) :: u8) = b"
  by (rule bit_eqI) (auto simp: bit_ucast_iff bit_or_iff bit_push_bit_iff)

lemma word_le_high: "length bs \<le> 3 \<Longrightarrow> drop_bit 8 (word_le (b # bs) :: u32) = word_le bs"
  by (rule bit_eqI) (auto simp: bit_ucast_iff bit_or_iff bit_push_bit_iff bit_drop_bit_eq bit_word_le
      dest: bit_imp_le_length)

lemma take_rgba: "take_components pal pixel_RGBA8 colour_types (word_le [r, g, b, a]) c0 =
    Inr \<lparr>co_R = r, co_G = g, co_B = b, co_A = a\<rparr>"
  by (simp add: colour_types_def pixel_formats ucast_component_bits_8 word_le_low word_le_high del: word_le.simps)

lemma take_rgb: "take_components pal pixel_RGB8 colour_types (word_le [r, g, b]) c0 =
    Inr \<lparr>co_R = r, co_G = g, co_B = b, co_A = co_A c0\<rparr>"
  by (simp add: colour_types_def pixel_formats ucast_component_bits_8 word_le_low word_le_high del: word_le.simps)

lemma list_of_4: "length xs = 4 \<Longrightarrow> xs = [xs ! 0, xs ! 1, xs ! 2, xs ! 3]"
  by (rule nth_equalityI) (auto simp: nth_Cons' less_Suc_eq numeral_eq_Suc)

lemma list_of_3: "length xs = 3 \<Longrightarrow> xs = [xs ! 0, xs ! 1, xs ! 2]"
  by (rule nth_equalityI) (auto simp: nth_Cons' less_Suc_eq numeral_eq_Suc)

interpretation rgba: byte_pixels host pixel_RGBA8 4 rgba_bytes rgba_colour for host
proof
  fix b :: bitmap and off :: nat and c :: colour
  assume d: "bm_description b = pixel_RGBA8" and le: "4 * off + 4 \<le> length (bm_data b)"
  have "store_native host 4 (endian_convert_be swap32 host w) = rev (bytes_le 4 w)" for w
    using sw32.write_big [of host w] by (auto simp: endian_write_def endian_convert_def)
  then show "bind_r (join_components (bm_palette b) pixel_RGBA8 colour_types c 0) (pixel_store host b off) =
      mem_write (bm_data b) (4 * off) (rgba_bytes c)"
    by (simp add: bytes_word_le_4 join_rgba pixel_store_def d pixel_depth_formats Let_def del: word_le.simps)
  let ?xs = "take 4 (drop (4 * off) (bm_data b))"
  have "endian_convert_le swap32 host (load_native host ?xs) = word_le ?xs"
    using sw32.read_little [of ?xs host] le by (auto simp: endian_read_def endian_convert_def)
  moreover have "?xs = [?xs ! 0, ?xs ! 1, ?xs ! 2, ?xs ! 3]" using le by (intro list_of_4) simp
  ultimately show "bind_r (pixel_load host b off) (\<lambda>pixel.
      take_components (bm_palette b) pixel_RGBA8 colour_types pixel (colour_new 0 0 0 0xFF)) = Inr (rgba_colour ?xs)"
    using le take_rgba [of "bm_palette b" "?xs ! 0" "?xs ! 1" "?xs ! 2" "?xs ! 3"]
    by (simp add: pixel_load_def d pixel_depth_formats Let_def mem_read_def del: word_le.simps)
qed simp_all


lemma Suc3_diff: "Suc (Suc 0) < i \<Longrightarrow> Suc (Suc (Suc (i - Suc (Suc (Suc 0))))) = i"
  by simp

lemma pixel_bytes_up_3:
  "off + 3 \<le> length m \<Longrightarrow> pixel_bytes_up m off 3 (word_le [b, g, r]) = mem_write m off [r, g, b]"
  by (simp add: numeral_3_eq_3 poke_def word_le_low word_le_high mem_write_def list_eq_iff_nth_eq
      nth_list_update nth_append nth_Cons' min_def Suc3_diff del: word_le.simps)

lemma pixel_bytes_down_3:
  "off + 3 \<le> length m \<Longrightarrow>
   pixel_bytes_down m off 3 0 = Inr (word_le [m ! off, m ! (off + 1), m ! (off + 2)])"
  by (simp add: numeral_3_eq_3 peek_def push_or_eq_word_le del: word_le.simps)

lemma rgb_offset: "off * 24 div 8 = 3 * off" "off * 24 mod 8 = (0::nat)"
proof -
  have "off * 24 = (3 * off) * 8" by simp
  then show "off * 24 div 8 = 3 * off" "off * 24 mod 8 = 0" by presburger+
qed

interpretation rgb: byte_pixels host pixel_RGB8 3 rgb_bytes rgb_colour for host
proof
  fix b :: bitmap and off :: nat and c :: colour
  assume d: "bm_description b = pixel_RGB8" and le: "3 * off + 3 \<le> length (bm_data b)"
  show "bind_r (join_components (bm_palette b) pixel_RGB8 colour_types c 0) (pixel_store host b off) =
      mem_write (bm_data b) (3 * off) (rgb_bytes c)"
    using le pixel_bytes_up_3 [of "3 * off" "bm_data b"]
    by (simp add: join_rgb pixel_store_def d pixel_depth_formats Let_def rgb_offset del: word_le.simps)
  let ?xs = "take 3 (drop (3 * off) (bm_data b))"
  have "pixel_load host b off = Inr (word_le [?xs ! 0, ?xs ! 1, ?xs ! 2])"
    using le pixel_bytes_down_3 [of "3 * off" "bm_data b"]
    by (simp add: pixel_load_def d pixel_depth_formats Let_def rgb_offset round_up_def round_down_def del: word_le.simps)
  then show "bind_r (pixel_load host b off) (\<lambda>pixel.
      take_components (bm_palette b) pixel_RGB8 colour_types pixel (colour_new 0 0 0 0xFF)) = Inr (rgb_colour ?xs)"
    by (simp add: take_rgb colour_new_def del: word_le.simps)
qed simp_all


section \<open>Copying\<close>

text \<open>Writing a column, then a rectangle, of pixels.\<close>

context image_store begin

lemma fold_column:
  assumes "ok s" and "i < io_width ops s" and "\<forall>j \<in> set js. j < io_height ops s" and "distinct js"
    and "\<forall>j \<in> set js. \<exists>c. src j = Inr c"
  shows "\<exists>s'. fold_r (\<lambda>j s. bind_r (src j) (\<lambda>c. io_set_pixel ops i j c s)) js s = Inr s' \<and> ok s' \<and>
    io_width ops s' = io_width ops s \<and> io_height ops s' = io_height ops s \<and>
    (\<forall>p q. io_get_pixel ops s' p q =
      (if p = i \<and> q \<in> set js then bind_r (src q) (\<lambda>c. Inr (conv c)) else io_get_pixel ops s p q))"
  using assms
proof (induction js arbitrary: s)
  case (Cons j js)
  obtain c where c: "src j = Inr c" using Cons.prems(5) by auto
  obtain s1 where s1: "io_set_pixel ops i j c s = Inr s1" "ok s1" "io_width ops s1 = io_width ops s"
    "io_height ops s1 = io_height ops s" "io_get_pixel ops s1 i j = Inr (conv c)"
    "\<And>p q. (p, q) \<noteq> (i, j) \<Longrightarrow> io_get_pixel ops s1 p q = io_get_pixel ops s p q"
    using set_inside [OF Cons.prems(1,2), of j c] Cons.prems(3) by auto
  obtain s2 where "fold_r (\<lambda>j s. bind_r (src j) (\<lambda>c. io_set_pixel ops i j c s)) js s1 = Inr s2" "ok s2"
    "io_width ops s2 = io_width ops s1" "io_height ops s2 = io_height ops s1"
    "\<And>p q. io_get_pixel ops s2 p q =
      (if p = i \<and> q \<in> set js then bind_r (src q) (\<lambda>c. Inr (conv c)) else io_get_pixel ops s1 p q)"
    using Cons.IH [OF s1(2)] Cons.prems s1(3,4) by auto
  then show ?case using s1 c Cons.prems(4) by (intro exI [of _ s2]) auto
qed simp

lemma fold_rectangle:
  assumes "ok s" and "\<forall>i \<in> set is. i < io_width ops s" and "\<forall>j \<in> set js. j < io_height ops s"
    and "distinct is" and "distinct js"
    and "\<forall>i \<in> set is. \<forall>j \<in> set js. \<exists>c. src i j = Inr c"
  shows "\<exists>s'. fold_r (\<lambda>i. fold_r (\<lambda>j s. bind_r (src i j) (\<lambda>c. io_set_pixel ops i j c s)) js) is s = Inr s' \<and>
    ok s' \<and> io_width ops s' = io_width ops s \<and> io_height ops s' = io_height ops s \<and>
    (\<forall>p q. io_get_pixel ops s' p q =
      (if p \<in> set is \<and> q \<in> set js then bind_r (src p q) (\<lambda>c. Inr (conv c)) else io_get_pixel ops s p q))"
  using assms
proof (induction "is" arbitrary: s)
  case (Cons i "is")
  obtain s1 where s1: "fold_r (\<lambda>j s. bind_r (src i j) (\<lambda>c. io_set_pixel ops i j c s)) js s = Inr s1" "ok s1"
    "io_width ops s1 = io_width ops s" "io_height ops s1 = io_height ops s"
    "\<And>p q. io_get_pixel ops s1 p q =
      (if p = i \<and> q \<in> set js then bind_r (src i q) (\<lambda>c. Inr (conv c)) else io_get_pixel ops s p q)"
    using fold_column [OF Cons.prems(1), of i js "src i"] Cons.prems by auto
  obtain s2 where "fold_r (\<lambda>i. fold_r (\<lambda>j s. bind_r (src i j) (\<lambda>c. io_set_pixel ops i j c s)) js) is s1 = Inr s2"
    "ok s2" "io_width ops s2 = io_width ops s1" "io_height ops s2 = io_height ops s1"
    "\<And>p q. io_get_pixel ops s2 p q =
      (if p \<in> set is \<and> q \<in> set js then bind_r (src p q) (\<lambda>c. Inr (conv c)) else io_get_pixel ops s1 p q)"
    using Cons.IH [OF s1(2)] Cons.prems s1(3,4) by auto
  then show ?case using s1 Cons.prems(4) by (intro exI [of _ s2]) auto
qed simp

text \<open>\<^verbatim>\<open>Image::CopyTo\<close>: the part of the rectangle that both images have.\<close>

lemma copy_to_pixels:
  assumes "ok s" and src: "\<And>p q. p < io_width sops this \<Longrightarrow> q < io_height sops this \<Longrightarrow>
      \<exists>c. io_get_pixel sops this p q = Inr c"
  shows "\<exists>s'. image_copy_to sops this ops x y w h s = Inr s' \<and> ok s' \<and>
    io_width ops s' = io_width ops s \<and> io_height ops s' = io_height ops s \<and>
    (\<forall>p q. io_get_pixel ops s' p q =
      (if x \<le> p \<and> p < io_width ops s \<and> p - x < min w (io_width sops this) \<and>
          y \<le> q \<and> q < io_height ops s \<and> q - y < min h (io_height sops this)
       then bind_r (io_get_pixel sops this (p - x) (q - y)) (\<lambda>c. Inr (conv c)) else io_get_pixel ops s p q))"
proof (cases "x > io_width ops s \<or> y > io_height ops s")
  case True
  then have "\<not> (x \<le> p \<and> p < io_width ops s \<and> y \<le> q \<and> q < io_height ops s)" for p q by auto
  then show ?thesis using True assms(1) by (intro exI [of _ s]) (auto simp: image_copy_to_def)
next
  case False
  define w' where "w' = min (min w (io_width ops s - x)) (io_width sops this)"
  define h' where "h' = min (min h (io_height ops s - y)) (io_height sops this)"
  have "\<exists>s'. fold_r (\<lambda>i. fold_r (\<lambda>j s. bind_r (io_get_pixel sops this (i - x) (j - y))
        (\<lambda>c. io_set_pixel ops i j c s)) [y..<y + h']) [x..<x + w'] s = Inr s' \<and>
    ok s' \<and> io_width ops s' = io_width ops s \<and> io_height ops s' = io_height ops s \<and>
    (\<forall>p q. io_get_pixel ops s' p q = (if p \<in> set [x..<x + w'] \<and> q \<in> set [y..<y + h']
       then bind_r (io_get_pixel sops this (p - x) (q - y)) (\<lambda>c. Inr (conv c)) else io_get_pixel ops s p q))"
    by (rule fold_rectangle [where src = "\<lambda>i j. io_get_pixel sops this (i - x) (j - y)"])
      (use assms(1) in \<open>auto simp: w'_def h'_def intro!: src\<close>)
  moreover have "p \<in> set [x..<x + w'] \<and> q \<in> set [y..<y + h'] \<longleftrightarrow>
      x \<le> p \<and> p < io_width ops s \<and> p - x < min w (io_width sops this) \<and>
      y \<le> q \<and> q < io_height ops s \<and> q - y < min h (io_height sops this)" for p q
    using False by (auto simp: w'_def h'_def)
  ultimately show ?thesis using False by (simp add: image_copy_to_def flip: w'_def h'_def)
qed

end

section \<open>Sub-images keep the contract\<close>

definition subimage_ok :: "'i image_ops \<Rightarrow> ('i \<Rightarrow> bool) \<Rightarrow> 'i subimage \<Rightarrow> bool" where
  "subimage_ok ops ok s \<longleftrightarrow> ok (su_image s) \<and> su_x s + su_width s \<le> io_width ops (su_image s) \<and>
     su_y s + su_height s \<le> io_height ops (su_image s) \<and>
     io_width ops (su_image s) < 2 ^ 32 \<and> io_height ops (su_image s) < 2 ^ 32"

lemma u32_add_small: "a + b < 2 ^ 32 \<Longrightarrow> u32_add a b = a + b"
  by (simp add: u32_add_def)

context image_store begin

lemma subimage_get:
  assumes "subimage_ok ops ok s" "x < su_width s" "y < su_height s"
  shows "io_get_pixel (subimage_ops ops) s x y = io_get_pixel ops (su_image s) (su_x s + x) (su_y s + y)"
  using assms by (simp add: subimage_ops_def subimage_get_pixel_def subimage_ok_def u32_add_small)

lemma subimage_set:
  assumes "subimage_ok ops ok s" "x < su_width s" "y < su_height s"
  shows "\<exists>i. io_set_pixel (subimage_ops ops) x y c s = Inr (s\<lparr>su_image := i\<rparr>) \<and>
    subimage_ok ops ok (s\<lparr>su_image := i\<rparr>) \<and>
    io_get_pixel ops i (su_x s + x) (su_y s + y) = Inr (conv c) \<and>
    (\<forall>p q. (p, q) \<noteq> (su_x s + x, su_y s + y) \<longrightarrow> io_get_pixel ops i p q = io_get_pixel ops (su_image s) p q)"
proof -
  have "su_x s + x < io_width ops (su_image s)" "su_y s + y < io_height ops (su_image s)"
    using assms by (simp_all add: subimage_ok_def)
  from set_inside [OF _ this, of c] show ?thesis using assms
    by (fastforce simp: subimage_ops_def subimage_set_pixel_def subimage_ok_def u32_add_small)
qed

lemma subimage_store: "image_store (subimage_ops ops) (subimage_ok ops ok) conv"
proof
  fix s x y c
  assume ok: "subimage_ok ops ok s"
  show "io_get_pixel (subimage_ops ops) s x y = throw (InvalidArgumentException '''')"
    if "\<not> (x < io_width (subimage_ops ops) s \<and> y < io_height (subimage_ops ops) s)"
    using that by (auto simp: subimage_ops_def subimage_get_pixel_def)
  show "io_set_pixel (subimage_ops ops) x y c s = throw (InvalidArgumentException '''')"
    if "\<not> (x < io_width (subimage_ops ops) s \<and> y < io_height (subimage_ops ops) s)"
    using that by (auto simp: subimage_ops_def subimage_set_pixel_def)
  assume xy: "x < io_width (subimage_ops ops) s" "y < io_height (subimage_ops ops) s"
  then have xy': "x < su_width s" "y < su_height s" by (simp_all add: subimage_ops_def)
  have "su_x s + x < io_width ops (su_image s)" "su_y s + y < io_height ops (su_image s)" "ok (su_image s)"
    using ok xy' by (simp_all add: subimage_ok_def)
  then show "\<exists>c. io_get_pixel (subimage_ops ops) s x y = Inr c"
    using get_inside subimage_get [OF ok xy'] by auto
  obtain i where i: "io_set_pixel (subimage_ops ops) x y c s = Inr (s\<lparr>su_image := i\<rparr>)"
    "subimage_ok ops ok (s\<lparr>su_image := i\<rparr>)" "io_get_pixel ops i (su_x s + x) (su_y s + y) = Inr (conv c)"
    "\<And>p q. (p, q) \<noteq> (su_x s + x, su_y s + y) \<Longrightarrow> io_get_pixel ops i p q = io_get_pixel ops (su_image s) p q"
    using subimage_set [OF ok xy'] by blast
  have "io_get_pixel (subimage_ops ops) (s\<lparr>su_image := i\<rparr>) p q = io_get_pixel (subimage_ops ops) s p q"
    if "(p, q) \<noteq> (x, y)" for p q
  proof (cases "p < su_width s \<and> q < su_height s")
    case True
    then show ?thesis
      using subimage_get [OF ok, of p q] subimage_get [OF i(2), of p q] i(4) [of "su_x s + p" "su_y s + q"] that by simp
  next
    case False
    then show ?thesis by (auto simp: subimage_ops_def subimage_get_pixel_def)
  qed
  then show "\<exists>s'. io_set_pixel (subimage_ops ops) x y c s = Inr s' \<and> subimage_ok ops ok s' \<and>
      io_width (subimage_ops ops) s' = io_width (subimage_ops ops) s \<and>
      io_height (subimage_ops ops) s' = io_height (subimage_ops ops) s \<and>
      io_get_pixel (subimage_ops ops) s' x y = Inr (conv c) \<and>
      (\<forall>p q. (p, q) \<noteq> (x, y) \<longrightarrow> io_get_pixel (subimage_ops ops) s' p q = io_get_pixel (subimage_ops ops) s p q)"
    using i subimage_get [OF i(2), of x y] xy'
    by (intro exI [of _ "s\<lparr>su_image := i\<rparr>"]) (simp add: subimage_ops_def)
qed

lemma colourise_column:
  assumes "ok s" and "i < io_width ops s" and "\<forall>j \<in> set js. j < io_height ops s" and "distinct js"
  shows "\<exists>s'. fold_r (\<lambda>j s. bind_r (io_get_pixel ops s i j) (\<lambda>c. io_set_pixel ops i j (f c) s)) js s = Inr s' \<and>
    ok s' \<and> io_width ops s' = io_width ops s \<and> io_height ops s' = io_height ops s \<and>
    (\<forall>p q. io_get_pixel ops s' p q = (if p = i \<and> q \<in> set js
       then bind_r (io_get_pixel ops s p q) (\<lambda>c. Inr (conv (f c))) else io_get_pixel ops s p q))"
  using assms
proof (induction js arbitrary: s)
  case (Cons j js)
  obtain c where c: "io_get_pixel ops s i j = Inr c" using get_inside [OF Cons.prems(1,2), of j] Cons.prems(3) by auto
  obtain s1 where s1: "io_set_pixel ops i j (f c) s = Inr s1" "ok s1" "io_width ops s1 = io_width ops s"
    "io_height ops s1 = io_height ops s" "io_get_pixel ops s1 i j = Inr (conv (f c))"
    "\<And>p q. (p, q) \<noteq> (i, j) \<Longrightarrow> io_get_pixel ops s1 p q = io_get_pixel ops s p q"
    using set_inside [OF Cons.prems(1,2), of j "f c"] Cons.prems(3) by auto
  obtain s2 where "fold_r (\<lambda>j s. bind_r (io_get_pixel ops s i j) (\<lambda>c. io_set_pixel ops i j (f c) s)) js s1 = Inr s2"
    "ok s2" "io_width ops s2 = io_width ops s1" "io_height ops s2 = io_height ops s1"
    "\<And>p q. io_get_pixel ops s2 p q = (if p = i \<and> q \<in> set js
       then bind_r (io_get_pixel ops s1 p q) (\<lambda>c. Inr (conv (f c))) else io_get_pixel ops s1 p q)"
    using Cons.IH [OF s1(2)] Cons.prems s1(3,4) by auto
  moreover have "io_get_pixel ops s1 i q = io_get_pixel ops s i q" if "q \<in> set js" for q
    using that Cons.prems(4) by (intro s1(6)) auto
  ultimately show ?case using s1 c Cons.prems(4) by (intro exI [of _ s2]) auto
qed simp

lemma colourise_columns:
  assumes "ok s" and "\<forall>i \<in> set is. i < io_width ops s" and "\<forall>j \<in> set js. j < io_height ops s"
    and "distinct is" and "distinct js"
  shows "\<exists>s'. fold_r (\<lambda>i. fold_r (\<lambda>j s. bind_r (io_get_pixel ops s i j) (\<lambda>c. io_set_pixel ops i j (f c) s)) js) is s = Inr s' \<and>
    ok s' \<and> io_width ops s' = io_width ops s \<and> io_height ops s' = io_height ops s \<and>
    (\<forall>p q. io_get_pixel ops s' p q = (if p \<in> set is \<and> q \<in> set js
       then bind_r (io_get_pixel ops s p q) (\<lambda>c. Inr (conv (f c))) else io_get_pixel ops s p q))"
  using assms
proof (induction "is" arbitrary: s)
  case (Cons i "is")
  let ?col = "\<lambda>i. fold_r (\<lambda>j s. bind_r (io_get_pixel ops s i j) (\<lambda>c. io_set_pixel ops i j (f c) s)) js"
  obtain s1 where s1: "?col i s = Inr s1" "ok s1" "io_width ops s1 = io_width ops s"
    "io_height ops s1 = io_height ops s"
    "\<And>p q. io_get_pixel ops s1 p q = (if p = i \<and> q \<in> set js
       then bind_r (io_get_pixel ops s p q) (\<lambda>c. Inr (conv (f c))) else io_get_pixel ops s p q)"
    using colourise_column [OF Cons.prems(1), of i js f] Cons.prems by auto
  obtain s2 where "fold_r ?col is s1 = Inr s2" "ok s2" "io_width ops s2 = io_width ops s1"
    "io_height ops s2 = io_height ops s1"
    "\<And>p q. io_get_pixel ops s2 p q = (if p \<in> set is \<and> q \<in> set js
       then bind_r (io_get_pixel ops s1 p q) (\<lambda>c. Inr (conv (f c))) else io_get_pixel ops s1 p q)"
    using Cons.IH [OF s1(2)] Cons.prems s1(3,4) by auto
  then show ?case using s1 Cons.prems(4) by (intro exI [of _ s2]) auto
qed simp

lemma colourise_pixels:
  assumes "ok s"
  shows "\<exists>s'. image_colourise ops col s = Inr s' \<and> ok s' \<and>
    (\<forall>p q. io_get_pixel ops s' p q = bind_r (io_get_pixel ops s p q) (\<lambda>c. Inr (conv (colour_mul col c))))"
proof -
  obtain s' where s': "image_colourise ops col s = Inr s'" "ok s'"
    "\<And>p q. io_get_pixel ops s' p q = (if p < io_width ops s \<and> q < io_height ops s
       then bind_r (io_get_pixel ops s p q) (\<lambda>c. Inr (conv (colour_mul col c))) else io_get_pixel ops s p q)"
    using colourise_columns [OF assms, of "[0..<io_width ops s]" "[0..<io_height ops s]" "colour_mul col"]
    by (auto simp: image_colourise_def)
  moreover have "io_get_pixel ops s p q = bind_r (io_get_pixel ops s p q) (\<lambda>c. Inr (conv (colour_mul col c)))"
    if "\<not> (p < io_width ops s \<and> q < io_height ops s)" for p q
    using get_outside [OF assms that] by simp
  ultimately show ?thesis by (intro exI [of _ s']) auto
qed

end

interpretation subrgba: image_store "subimage_ops (bitmap_ops host)"
    "subimage_ok (bitmap_ops host) (bitmap_ok pixel_RGBA8 4)" "\<lambda>c. rgba_colour (rgba_bytes c)" for host
  by (rule rgba.store.subimage_store)

lemma rgba_colour_bytes: "rgba_colour (rgba_bytes c) = c"
  by simp

lemma rgb_colour_bytes: "rgb_colour (rgb_bytes c) = c\<lparr>co_A := 0xFF\<rparr>"
  by simp

lemma s32_int_small: "k < 2 ^ 31 \<Longrightarrow> s32 (int k) = int k"
  by (rule s32_id) simp_all

lemma bitmap_new_ok:
  assumes "pixel_depth d = 8 * n" and "n * (w * h) < 2 ^ 31"
  shows "\<exists>b. bitmap_new w h d il = Inr b \<and> bitmap_ok d n b \<and> bm_width b = w \<and> bm_height b = h"
proof -
  have 8: "pixel_depth d * w * h = 8 * (n * (w * h))" using assms(1) by (simp add: mult.assoc)
  have "8 * (n * (w * h)) mod 2 ^ 64 = 8 * (n * (w * h))" 
    by (rule mod_less, rule less_trans [OF mult_less_mono2 [OF assms(2)]]) simp_all
  then have "image_data_size w h d = n * (w * h)"
    unfolding image_data_size_def 8 by (simp add: round_up_multiple del: mult_eq_0_iff)
  then have "s32 (int (image_data_size w h d mod 2 ^ 32)) = int (n * (w * h))"
    using s32_int_small [OF assms(2)] assms(2) by simp
  then show ?thesis by (simp add: bitmap_new_def bitmap_allocate_def bitmap_ok_def Let_def del: of_nat_mult)
qed

text \<open>
  \<^verbatim>\<open>operator-=\<close> divides, and so divides by zero; two descriptions are equal when they have the
  same components, whatever their depths; and the row copy of \<^verbatim>\<open>Bitmap::CopyTo\<close>, unlike
  \<^verbatim>\<open>Image::CopyTo\<close>, runs over the end of the target when the source does not fit.
\<close>

lemma colour_sub_assign_divides:
  "colour_sub_assign (colour_new 5 5 5 5) (colour_new 1 1 1 1) = Inr (colour_new 251 251 251 251)"
  "colour_sub_assign (colour_new 5 5 5 5) (colour_new 0 0 0 0) = Inl Undefined"
  by (simp_all add: colour_sub_assign_def colour_div_def component_div_def colour_new_def c_div_def)

lemma pixel_equal_ignores_depth: "pixel_equal (pixel_new 8 0x01) (pixel_new 16 0x01)"
  by (simp add: pixel_equal_def pixel_bit_mask_def colour_types_def pixel_new_def)

definition grey_pixel :: bitmap where
  "grey_pixel = \<lparr>bm_palette = None, bm_description = pixel_new 8 0x01, bm_interlacing = NoInterlace,
     bm_width = 2, bm_height = 1, bm_data = [7, 8]\<rparr>"

lemma bitmap_copy_to_overruns: "bitmap_copy_to host grey_pixel 1 0 2 1 grey_pixel = Inl Undefined"
  by (simp add: bitmap_copy_to_def pixel_equal_def grey_pixel_def pixel_size_def pixel_depth_def colour_types_def
      pixel_new_def round_up_def round_down_def mem_read_def mem_write_def Let_def)

section \<open>Properties\<close>

text \<open>A sequence of writes inside the image.\<close>

context image_store begin

lemma set_pixels:
  assumes "ok s" and "\<forall>(x, y, c) \<in> set ps. x < io_width ops s \<and> y < io_height ops s"
  shows "\<exists>s'. fold_r (\<lambda>(x, y, c). io_set_pixel ops x y c) ps s = Inr s' \<and> ok s' \<and>
    io_width ops s' = io_width ops s \<and> io_height ops s' = io_height ops s \<and>
    (\<forall>p q. io_get_pixel ops s' p q = (case map_of (rev (map (\<lambda>(x, y, c). ((x, y), c)) ps)) (p, q) of
       Some c \<Rightarrow> Inr (conv c) | None \<Rightarrow> io_get_pixel ops s p q))"
  using assms
proof (induction ps arbitrary: s)
  case (Cons a ps)
  obtain x y c where a: "a = (x, y, c)" by (cases a)
  obtain s1 where s1: "io_set_pixel ops x y c s = Inr s1" "ok s1" "io_width ops s1 = io_width ops s"
    "io_height ops s1 = io_height ops s" "io_get_pixel ops s1 x y = Inr (conv c)"
    "\<And>p q. (p, q) \<noteq> (x, y) \<Longrightarrow> io_get_pixel ops s1 p q = io_get_pixel ops s p q"
    using set_inside [OF Cons.prems(1), of x y c] Cons.prems(2) by (auto simp: a)
  obtain s2 where "fold_r (\<lambda>(x, y, c). io_set_pixel ops x y c) ps s1 = Inr s2" "ok s2"
    "io_width ops s2 = io_width ops s1" "io_height ops s2 = io_height ops s1"
    "\<And>p q. io_get_pixel ops s2 p q = (case map_of (rev (map (\<lambda>(x, y, c). ((x, y), c)) ps)) (p, q) of
       Some c \<Rightarrow> Inr (conv c) | None \<Rightarrow> io_get_pixel ops s1 p q)"
    using Cons.IH [OF s1(2)] Cons.prems s1(3,4) by auto
  then show ?case using s1
    by (intro exI [of _ s2]) (auto simp: a map_add_def split: option.splits)
qed simp

end

lemma bitmap_ops_sel:
  "io_width (bitmap_ops host) = bm_width" "io_height (bitmap_ops host) = bm_height"
  "io_get_pixel (bitmap_ops host) = bitmap_get_pixel host" "io_set_pixel (bitmap_ops host) = bitmap_set_pixel host"
  by (simp_all add: bitmap_ops_def)

lemma bitmap_new_zero: "bitmap_new w h d il = Inr b \<Longrightarrow> bm_data b = replicate (length (bm_data b)) 0"
  by (auto simp: bitmap_new_def bitmap_allocate_def Let_def split: if_splits)



text \<open>Copying an image of another format onto a bitmap converts exactly: for a bitmap with
  8 bits for red, green and blue and one that also has alpha, Bitmap::CopyTo succeeds wherever the
  rectangle lies; the pixels of the target that the clipped rectangle covers get the source's
  colours with alpha 255, all others keep theirs.\<close>

theorem bitmap_copy_converts:
  assumes "bitmap_ok pixel_RGB8 3 this" and "bitmap_ok pixel_RGBA8 4 img"
  shows "\<exists>img'. bitmap_copy_to host this x y w h img = Inr img' \<and> bitmap_ok pixel_RGBA8 4 img' \<and>
    bm_width img' = bm_width img \<and> bm_height img' = bm_height img \<and>
    (\<forall>p q. bitmap_get_pixel host img' p q =
      (if x \<le> p \<and> p < bm_width img \<and> p - x < min w (bm_width this) \<and>
          y \<le> q \<and> q < bm_height img \<and> q - y < min h (bm_height this)
       then bitmap_get_pixel host this (p - x) (q - y) else bitmap_get_pixel host img p q))"
proof -
  have src: "\<exists>c. bitmap_get_pixel host this p q = Inr c" if "p < bm_width this" "q < bm_height this" for p q
    using rgb.get_pixel_dec [OF assms(1) that] by blast
  have ne: "\<not> pixel_equal (bm_description img) (bm_description this)"
    using assms by (simp add: bitmap_ok_def pixel_equal_def pixel_bit_mask_def colour_types_def pixel_formats)
  have id: "bind_r r (\<lambda>c. Inr (rgba_colour (rgba_bytes c))) = r" for r
    by (cases r) (simp_all only: bind_r.simps rgba_colour_bytes)
  show ?thesis
    using rgba.store.copy_to_pixels [of img "bitmap_ops host" this host x y w h, OF assms(2), unfolded bitmap_ops_sel id] src ne
    by (simp add: bitmap_copy_to_def)
qed

definition rgb_dot :: bitmap where
  "rgb_dot = \<lparr>bm_palette = None, bm_description = pixel_RGB8, bm_interlacing = NoInterlace,
     bm_width = 1, bm_height = 1, bm_data = [9, 8, 7]\<rparr>"

definition rgba_row :: bitmap where
  "rgba_row = \<lparr>bm_palette = None, bm_description = pixel_RGBA8, bm_interlacing = NoInterlace,
     bm_width = 2, bm_height = 1,
     bm_data = [1, 2, 3, 4, 5, 6, 7, 8]\<rparr>"

theorem bitmap_copy_converts_witness:
  "\<exists>img'. bitmap_copy_to True rgb_dot 1 0 5 5 rgba_row = Inr img' \<and>
    bitmap_get_pixel True img' 1 0 = bitmap_get_pixel True rgb_dot 0 0 \<and>
    bitmap_get_pixel True img' 0 0 = bitmap_get_pixel True rgba_row 0 0"
  using bitmap_copy_converts [of rgb_dot rgba_row True 1 0 5 5] by (fastforce simp: bitmap_ok_def rgb_dot_def rgba_row_def)

text \<open>A sub-image confines what is drawn on it.  SetPixel on a sub-image of a bitmap throws
  outside the sub-image's size and otherwise changes exactly the pixel at the sub-image's offset,
  inside its window of the bitmap; what is set is read back through the sub-image, and every other
  pixel of the bitmap is as before.\<close>

theorem subimage_confines:
  assumes "subimage_ok (bitmap_ops host) (bitmap_ok pixel_RGBA8 4) s"
  shows "if x < su_width s \<and> y < su_height s then
      (\<exists>s'. subimage_set_pixel (bitmap_ops host) x y c s = Inr s' \<and>
        subimage_ok (bitmap_ops host) (bitmap_ok pixel_RGBA8 4) s' \<and>
        subimage_get_pixel (bitmap_ops host) s' x y = Inr c \<and>
        bitmap_get_pixel host (su_image s') (su_x s + x) (su_y s + y) = Inr c \<and>
        (\<forall>p q. (p, q) \<noteq> (su_x s + x, su_y s + y) \<longrightarrow>
          bitmap_get_pixel host (su_image s') p q = bitmap_get_pixel host (su_image s) p q))
    else subimage_set_pixel (bitmap_ops host) x y c s = throw (InvalidArgumentException '''') \<and>
      subimage_get_pixel (bitmap_ops host) s x y = throw (InvalidArgumentException '''')"
proof (cases "x < su_width s \<and> y < su_height s")
  case True
  then obtain i where i: "subimage_set_pixel (bitmap_ops host) x y c s = Inr (s\<lparr>su_image := i\<rparr>)"
    "subimage_ok (bitmap_ops host) (bitmap_ok pixel_RGBA8 4) (s\<lparr>su_image := i\<rparr>)"
    "bitmap_get_pixel host i (su_x s + x) (su_y s + y) = Inr c"
    "\<forall>p q. (p, q) \<noteq> (su_x s + x, su_y s + y) \<longrightarrow> bitmap_get_pixel host i p q = bitmap_get_pixel host (su_image s) p q"
    using rgba.store.subimage_set [OF assms, of x y c]
    by (auto simp: subimage_ops_def rgba_colour_bytes bitmap_ops_def simp del: rgba_colour.simps rgba_bytes.simps)
  have "subimage_get_pixel (bitmap_ops host) (s\<lparr>su_image := i\<rparr>) x y = Inr c"
    using rgba.store.subimage_get [OF i(2), of x y] True i(3) by (simp add: subimage_ops_def bitmap_ops_def)
  then show ?thesis using True i by auto
qed (auto simp: subimage_set_pixel_def subimage_get_pixel_def)

definition row_window :: "bitmap subimage" where
  "row_window = \<lparr>su_image = rgba_row, su_x = 1, su_y = 0, su_width = 1, su_height = 1\<rparr>"

theorem subimage_confines_witness:
  "\<exists>s'. subimage_set_pixel (bitmap_ops True) 0 0 (colour_new 1 2 3 4) row_window = Inr s' \<and>
    bitmap_get_pixel True (su_image s') 1 0 = Inr (colour_new 1 2 3 4) \<and>
    bitmap_get_pixel True (su_image s') 0 0 = bitmap_get_pixel True rgba_row 0 0"
  using subimage_confines [of True row_window 0 0 "colour_new 1 2 3 4"]
  by (fastforce simp: subimage_ok_def bitmap_ok_def row_window_def rgba_row_def bitmap_ops_def)

section \<open>Bitmaps of whole bytes\<close>

text \<open>A bitmap whose pixels are whole bytes holds them one after another.\<close>

definition whole_bytes :: "pixel_description \<Rightarrow> bool" where
  "whole_bytes d \<longleftrightarrow> pixel_depth d = 8 * pixel_size d"

lemma image_data_size_bytes:
  assumes "whole_bytes d" "w * h * pixel_size d < 2 ^ 31"
  shows "image_data_size w h d = w * h * pixel_size d"
proof -
  have e: "pixel_depth d * w * h = 8 * (w * h * pixel_size d)" using assms(1) by (simp add: whole_bytes_def)
  have "8 * n mod 2 ^ 64 = 8 * n" if "n < 2 ^ 31" for n :: nat using that by simp
  note m = this [OF assms(2)]
  show ?thesis unfolding image_data_size_def e m by (simp add: round_up_multiple)
qed

lemma bitmap_new_size:
  assumes "whole_bytes d" "w * h * pixel_size d < 2 ^ 31"
  shows "bitmap_new w h d il = Inr \<lparr>bm_palette = None, bm_description = d, bm_interlacing = il, bm_width = w,
    bm_height = h, bm_data = replicate (w * h * pixel_size d) 0\<rparr>"
proof -
  have "nat (s32 (int (n mod 2 ^ 32))) = n \<and> 0 \<le> s32 (int (n mod 2 ^ 32))" if "n < 2 ^ 31" for n using that by (simp add: s32_id)
  note this [OF assms(2)]
  then show ?thesis by (simp add: bitmap_new_def bitmap_allocate_def Let_def image_data_size_bytes [OF assms] del: of_nat_mult)
qed

lemma below_31: "n < 2 ^ 31 \<Longrightarrow> n mod 2 ^ 32 = n" for n :: nat
  by simp

end
