(* ===== verification/Font.thy ===== *)
theory Font
  imports Imaging Dictionary BString
begin

text \<open>
  Fonts: the glyph cache, the layout of a string, its measure and its drawing
  (\<^verbatim>\<open>include/bricks/imaging/font.h\<close>, \<^verbatim>\<open>atlasfont.h\<close>, \<^verbatim>\<open>source/imaging/font.cpp\<close>).  What a
  concrete font provides (loading and rendering of glyphs, kerning, its metrics) is the record
  \<open>font_class\<close>; \<open>'i\<close> is the type of the glyphs' images.
\<close>

section \<open>Glyphs and fonts\<close>

record 'i glyph =
  gl_image :: "'i option"
  gl_character :: u32
  gl_index :: int
  gl_advance :: int
  gl_width :: int
  gl_height :: int
  gl_bearing_x :: int
  gl_bearing_y :: int

record 'i font =
  ft_cache :: "(u32, 'i glyph option) dictionary"
  ft_width :: nat
  ft_height :: nat

text \<open>The virtual methods, \<open>fc_copy\<close> being \<^verbatim>\<open>Image::CopyTo\<close> of a glyph's image onto a bitmap.\<close>

record 'i font_class =
  fc_load :: "u32 \<Rightarrow> 'i glyph option"
  fc_render :: "'i glyph \<Rightarrow> 'i option"
  fc_copy :: "'i \<Rightarrow> nat \<Rightarrow> nat \<Rightarrow> bitmap \<Rightarrow> bitmap result"
  fc_kerning :: "'i glyph \<Rightarrow> 'i glyph option \<Rightarrow> int"
  fc_height :: nat
  fc_baseline :: int
  fc_descender :: int

definition font_new :: "'i font" where
  "font_new = \<lparr>ft_cache = dictionary_new (compare_ordered (>) (<)) (compare_equality (\<lambda>_ _. False)),
     ft_width = 0, ft_height = 0\<rparr>"

definition font_set_pixel_size :: "int \<Rightarrow> int \<Rightarrow> 'i font \<Rightarrow> 'i font" where
  "font_set_pixel_size w h f = f\<lparr>ft_width := u32_of w, ft_height := u32_of (if h \<noteq> 0 then h else w)\<rparr>"

definition font_set_point_size :: "int \<Rightarrow> int \<Rightarrow> int \<Rightarrow> int \<Rightarrow> 'i font \<Rightarrow> 'i font" where
  "font_set_point_size w h dpi_w dpi_h f =
     f\<lparr>ft_width := u32_of w, ft_height := u32_of (if h \<noteq> 0 then h else w)\<rparr>"

text \<open>The methods of \<^verbatim>\<open>Font\<close> itself.\<close>

definition font_class_default ::
    "(u32 \<Rightarrow> 'i glyph option) \<Rightarrow> ('i glyph \<Rightarrow> 'i option) \<Rightarrow> ('i \<Rightarrow> nat \<Rightarrow> nat \<Rightarrow> bitmap \<Rightarrow> bitmap result) \<Rightarrow>
     'i font \<Rightarrow> 'i font_class" where
  "font_class_default load render copy f =
     \<lparr>fc_load = load, fc_render = render, fc_copy = copy, fc_kerning = (\<lambda>_ _. 0),
      fc_height = ft_height f, fc_baseline = s32 (int (ft_height f)), fc_descender = 0\<rparr>"

definition font_clear_cache :: "'i font \<Rightarrow> 'i font" where
  "font_clear_cache f = f\<lparr>ft_cache := dictionary_clear (ft_cache f)\<rparr>"

definition font_get_glyph :: "'i font_class \<Rightarrow> u32 \<Rightarrow> bool \<Rightarrow> 'i font \<Rightarrow> ('i glyph option \<times> 'i font) result" where
  "font_get_glyph fc c cache f =
     (if dictionary_contains_key (ft_cache f) c
      then bind_r (dictionary_get_item (ft_cache f) c) (\<lambda>g. Inr (g, f))
      else
        (let g = fc_load fc c in
         Inr (g, if cache then f\<lparr>ft_cache := dictionary_add (ft_cache f) c g\<rparr> else f)))"

definition glyph_get_image :: "'i font_class \<Rightarrow> 'i glyph \<Rightarrow> 'i option \<times> 'i glyph" where
  "glyph_get_image fc g =
     (case gl_image g of Some i \<Rightarrow> (Some i, g)
      | None \<Rightarrow> (let i = fc_render fc g in (i, g\<lparr>gl_image := i\<rparr>)))"

section \<open>Layout\<close>

record 'i rendered_glyph =
  rg_glyph :: "'i glyph"
  rg_line :: int
  rg_x :: int
  rg_y :: int

record 'i measure_state =
  ms_font :: "'i font"
  ms_x :: int
  ms_y :: int
  ms_line :: int
  ms_previous :: "'i glyph option"
  ms_glyphs :: "'i rendered_glyph list"

text \<open>One character of \<^verbatim>\<open>MeasureGlyphs\<close>; character 10 is the newline.\<close>

definition measure_step :: "'i font_class \<Rightarrow> u32 \<Rightarrow> 'i measure_state \<Rightarrow> 'i measure_state result" where
  "measure_step fc character s =
     (if character = 10
      then Inr (s\<lparr>ms_previous := None, ms_y := s32 (ms_y s + int (fc_height fc)),
             ms_line := s32 (ms_line s + 1), ms_x := 0\<rparr>)
      else
        bind_r (font_get_glyph fc character True (ms_font s)) (\<lambda>(glyph, f).
        case glyph of
          None \<Rightarrow> Inr (s\<lparr>ms_font := f\<rparr>)
        | Some g \<Rightarrow>
            (let x = s32 (ms_x s + fc_kerning fc g (ms_previous s)) in
             Inr (s\<lparr>ms_font := f, ms_previous := Some g,
               ms_glyphs := ms_glyphs s @ [\<lparr>rg_glyph = g, rg_line = ms_line s, rg_x = x, rg_y = ms_y s\<rparr>],
               ms_x := s32 (x + gl_advance g)\<rparr>))))"

text \<open>The loop over the characters from \<open>i\<close> on, \<open>n\<close> of them left.\<close>

fun measure_loop ::
    "'i font_class \<Rightarrow> bstring \<Rightarrow> nat \<Rightarrow> nat \<Rightarrow> 'i measure_state \<Rightarrow> 'i measure_state result" where
  "measure_loop fc value i 0 s = Inr s"
| "measure_loop fc value i (Suc n) s =
     bind_r (string_get_character value i) (\<lambda>character.
     bind_r (measure_step fc character s) (measure_loop fc value (Suc i) n))"

definition measure_start :: "'i font_class \<Rightarrow> 'i font \<Rightarrow> 'i measure_state" where
  "measure_start fc f = \<lparr>ms_font = f, ms_x = 0, ms_y = s32 (fc_baseline fc), ms_line = 0, ms_previous = None,
     ms_glyphs = []\<rparr>"

definition measure_glyphs ::
    "'i font_class \<Rightarrow> bstring \<Rightarrow> 'i font \<Rightarrow> ('i rendered_glyph list \<times> 'i font) result" where
  "measure_glyphs fc value f =
     bind_r (string_get_length value) (\<lambda>(n, value').
     bind_r (measure_loop fc value' 0 n (measure_start fc f)) (\<lambda>s. Inr (ms_glyphs s, ms_font s)))"

definition glyph_bottom :: "'i font_class \<Rightarrow> 'i rendered_glyph \<Rightarrow> int" where
  "glyph_bottom fc r =
     math_max (s32 (rg_y r - fc_descender fc)) (s32 (rg_y r - gl_bearing_y (rg_glyph r) + gl_height (rg_glyph r)))"

definition glyph_right :: "'i rendered_glyph \<Rightarrow> int" where
  "glyph_right r =
     math_max (s32 (rg_x r + gl_advance (rg_glyph r)))
       (s32 (rg_x r + gl_bearing_x (rg_glyph r) + gl_width (rg_glyph r)))"

fun measure_size :: "'i font_class \<Rightarrow> 'i rendered_glyph list \<Rightarrow> int \<Rightarrow> int \<Rightarrow> int \<times> int" where
  "measure_size fc [] width height = (width, height)"
| "measure_size fc (r # rs) width height =
     measure_size fc rs (if glyph_right r > width then glyph_right r else width)
       (if glyph_bottom fc r > height then glyph_bottom fc r else height)"

definition measure_rendered :: "'i font_class \<Rightarrow> 'i rendered_glyph list \<Rightarrow> nat \<times> nat" where
  "measure_rendered fc rs =
     (let (width, height) = measure_size fc rs 0 0 in (u32_of width, u32_of height))"

definition measure_string :: "'i font_class \<Rightarrow> bstring \<Rightarrow> 'i font \<Rightarrow> ((nat \<times> nat) \<times> 'i font) result" where
  "measure_string fc value f =
     bind_r (measure_glyphs fc value f) (\<lambda>(rs, f'). Inr (measure_rendered fc rs, f'))"

section \<open>Drawing\<close>

datatype font_alignment = LeftAlign | Centre | RightAlign

fun get_line_offset :: "font_alignment \<Rightarrow> int \<Rightarrow> int \<Rightarrow> int" where
  "get_line_offset Centre width line_length = c_div (s32 (width - line_length)) 2"
| "get_line_offset RightAlign width line_length = s32 (width - line_length)"
| "get_line_offset LeftAlign width line_length = 0"

text \<open>The inner loop that closes the lines up to a glyph's, then the loop over the glyphs.\<close>

function close_lines :: "int \<Rightarrow> int \<Rightarrow> int \<Rightarrow> int array \<Rightarrow> int \<times> int \<times> int array" where
  "close_lines target line width lengths =
     (if line < target then close_lines target (line + 1) 0 (array_add_item lengths width)
      else (line, width, lengths))"
  by pat_completeness auto
termination by (relation "measure (\<lambda>(target, line, width, lengths). nat (target - line))") auto

declare close_lines.simps [simp del]

fun line_lengths_loop :: "'i rendered_glyph list \<Rightarrow> int \<Rightarrow> int \<Rightarrow> int array \<Rightarrow> int array" where
  "line_lengths_loop [] line width lengths = array_add_item lengths width"
| "line_lengths_loop (r # rs) line width lengths =
     (let (line', width', lengths') = close_lines (rg_line r) line width lengths in
      line_lengths_loop rs line' (s32 (rg_x r + gl_advance (rg_glyph r))) lengths')"

definition line_lengths :: "'i rendered_glyph list \<Rightarrow> int array" where
  "line_lengths rs = line_lengths_loop rs 0 0 (array_new (compare_ordered (>) (<)))"

function open_lines :: "font_alignment \<Rightarrow> int \<Rightarrow> int array \<Rightarrow> int \<Rightarrow> int \<Rightarrow> int \<Rightarrow> (int \<times> int) result" where
  "open_lines alignment width lengths target line offset =
     (if line < target then
        bind_r (array_get_item lengths (line + 1)) (\<lambda>len.
        open_lines alignment width lengths target (line + 1) (get_line_offset alignment width len))
      else Inr (line, offset))"
  by pat_completeness auto
termination by (relation "measure (\<lambda>(a, w, l, target, line, offset). nat (target - line))") auto

declare open_lines.simps [simp del]

fun draw_loop ::
    "'i font_class \<Rightarrow> font_alignment \<Rightarrow> int \<Rightarrow> int array \<Rightarrow> 'i rendered_glyph list \<Rightarrow> int \<Rightarrow> int \<Rightarrow> bitmap \<Rightarrow> bitmap result" where
  "draw_loop fc alignment width lengths [] line offset img = Inr img"
| "draw_loop fc alignment width lengths (r # rs) line offset img =
     bind_r (open_lines alignment width lengths (rg_line r) line offset) (\<lambda>(line', offset').
     case fst (glyph_get_image fc (rg_glyph r)) of
       None \<Rightarrow> Inl Undefined
     | Some i \<Rightarrow>
         bind_r (fc_copy fc i (u32_of (offset' + rg_x r + gl_bearing_x (rg_glyph r)))
             (u32_of (rg_y r - gl_bearing_y (rg_glyph r))) img)
           (draw_loop fc alignment width lengths rs line' offset'))"

definition draw_string ::
    "'i font_class \<Rightarrow> bstring \<Rightarrow> font_alignment \<Rightarrow> 'i font \<Rightarrow> (bitmap \<times> 'i font) result" where
  "draw_string fc value alignment f =
     bind_r (measure_glyphs fc value f) (\<lambda>(rs, f').
     (let (w, h) = measure_rendered fc rs in
      bind_r (bitmap_new w h pixel_RGBA8 NoInterlace) (\<lambda>img.
      bind_r (draw_loop fc alignment (s32 (int w)) (line_lengths rs) rs (- 1) 0 img) (\<lambda>img'. Inr (img', f')))))"

section \<open>Atlas fonts\<close>

record 'i atlas_font = "'i font" +
  af_glyphs :: "(u32, 'i glyph option) dictionary"

definition atlas_load_glyph :: "'i atlas_font \<Rightarrow> u32 \<Rightarrow> 'i glyph option result" where
  "atlas_load_glyph a c =
     (if dictionary_contains_key (af_glyphs a) c then dictionary_get_item (af_glyphs a) c else Inr None)"

definition atlas_update_size :: "'i glyph \<Rightarrow> 'i atlas_font \<Rightarrow> 'i atlas_font" where
  "atlas_update_size g a =
     (if ft_width a = 0 \<and> ft_height a = 0
      then a\<lparr>ft_width := u32_of (gl_width g), ft_height := u32_of (gl_height g)\<rparr> else a)"

definition atlas_add_glyph :: "'i glyph \<Rightarrow> 'i atlas_font \<Rightarrow> 'i atlas_font" where
  "atlas_add_glyph g a =
     atlas_update_size g (a\<lparr>af_glyphs := dictionary_add (af_glyphs a) (gl_character g) (Some g)\<rparr>)"

definition atlas_add_image ::
    "('i \<Rightarrow> nat \<times> nat) \<Rightarrow> u32 \<Rightarrow> 'i \<Rightarrow> int \<Rightarrow> int \<Rightarrow> int \<Rightarrow> 'i atlas_font \<Rightarrow> 'i atlas_font" where
  "atlas_add_image size_of c img advance bearing_x bearing_y a =
     (let g = \<lparr>gl_image = Some img, gl_character = c, gl_index = s32 (uint c), gl_advance = advance,
          gl_width = s32 (int (fst (size_of img))), gl_height = s32 (int (snd (size_of img))),
          gl_bearing_x = bearing_x, gl_bearing_y = bearing_y\<rparr> in
      atlas_update_size g (a\<lparr>af_glyphs := dictionary_add (af_glyphs a) c (Some g)\<rparr>))"

definition atlas_add_whole_image ::
    "('i \<Rightarrow> nat \<times> nat) \<Rightarrow> u32 \<Rightarrow> 'i \<Rightarrow> 'i atlas_font \<Rightarrow> 'i atlas_font" where
  "atlas_add_whole_image size_of c img a =
     atlas_add_image size_of c img (s32 (int (fst (size_of img)))) 0 (s32 (int (snd (size_of img)))) a"

text \<open>\<^verbatim>\<open>RemoveGlyph\<close> calls itself.\<close>

partial_function (option) atlas_remove_glyph :: "u32 \<Rightarrow> 'i atlas_font \<Rightarrow> 'i atlas_font option" where
  "atlas_remove_glyph c a = atlas_remove_glyph c a"

lemma atlas_remove_glyph_never_returns: "atlas_remove_glyph c a = None"
proof -
  have "atlas_remove_glyph c a = Some y \<Longrightarrow> False" for y
    by (rule atlas_remove_glyph.raw_induct [of "\<lambda>_ _ _. False"])
  then show ?thesis by (cases "atlas_remove_glyph c a") auto
qed

section \<open>The glyph cache\<close>

text \<open>The cache holds what loading gives.\<close>

definition font_ok :: "'i font_class \<Rightarrow> 'i font \<Rightarrow> bool" where
  "font_ok fc f \<longleftrightarrow> dict_ok (ft_cache f) \<and> (\<forall>c g. dict_abs (ft_cache f) c = Some g \<longrightarrow> g = fc_load fc c)"

lemma font_new_ok: "font_ok fc font_new"
  by (simp add: font_ok_def font_new_def dictionary_new_def dict_ok_def dict_abs_def)

lemma font_clear_cache_ok: "font_ok fc f \<Longrightarrow> font_ok fc (font_clear_cache f)"
  by (simp add: font_ok_def font_clear_cache_def dictionary_clear_def dict_ok_def dict_abs_def)

lemma font_get_glyph_ok:
  assumes "font_ok fc f"
  obtains f' where "font_get_glyph fc c cache f = Inr (fc_load fc c, f')" "font_ok fc f'"
    "cache \<Longrightarrow> dict_abs (ft_cache f') c = Some (fc_load fc c)"
proof (cases "dict_abs (ft_cache f) c")
  case None
  let ?f = "if cache then f\<lparr>ft_cache := dictionary_add (ft_cache f) c (fc_load fc c)\<rparr> else f"
  show thesis
  proof (rule that)
    show "font_get_glyph fc c cache f = Inr (fc_load fc c, ?f)"
      using None assms by (simp add: font_get_glyph_def font_ok_def dict.contains_key_abs domIff Let_def)
  qed (use assms in \<open>auto simp: font_ok_def dict.add_ok dict.add_abs\<close>)
next
  case (Some g)
  show thesis
  proof (rule that)
    show "font_get_glyph fc c cache f = Inr (fc_load fc c, f)"
      using Some assms by (auto simp: font_get_glyph_def font_ok_def dict.contains_key_abs domIff dict.get_item_abs)
  qed (use Some assms in \<open>auto simp: font_ok_def\<close>)
qed

section \<open>The layout, line by line\<close>

fun line_layout ::
    "'i font_class \<Rightarrow> int \<Rightarrow> int \<Rightarrow> int \<Rightarrow> 'i glyph option \<Rightarrow> u32 list \<Rightarrow> 'i rendered_glyph list" where
  "line_layout fc l y x prev [] = []"
| "line_layout fc l y x prev (c # cs) =
     (case fc_load fc c of
        None \<Rightarrow> line_layout fc l y x prev cs
      | Some g \<Rightarrow>
          (let x' = s32 (x + fc_kerning fc g prev) in
           \<lparr>rg_glyph = g, rg_line = l, rg_x = x', rg_y = y\<rparr> #
             line_layout fc l y (s32 (x' + gl_advance g)) (Some g) cs))"

fun split_lines :: "u32 list \<Rightarrow> u32 list list" where
  "split_lines [] = [[]]"
| "split_lines (c # cs) =
     (if c = 10 then [] # split_lines cs
      else (case split_lines cs of [] \<Rightarrow> [[c]] | l # ls \<Rightarrow> (c # l) # ls))"

fun lines_layout :: "'i font_class \<Rightarrow> int \<Rightarrow> int \<Rightarrow> u32 list list \<Rightarrow> 'i rendered_glyph list" where
  "lines_layout fc l y [] = []"
| "lines_layout fc l y (cs # ls) =
     line_layout fc l y 0 None cs @ lines_layout fc (s32 (l + 1)) (s32 (y + int (fc_height fc))) ls"

fun fold_measure :: "'i font_class \<Rightarrow> u32 list \<Rightarrow> 'i measure_state \<Rightarrow> 'i measure_state result" where
  "fold_measure fc [] s = Inr s"
| "fold_measure fc (c # cs) s = bind_r (measure_step fc c s) (fold_measure fc cs)"

lemma split_lines_not_Nil [simp]: "split_lines cs \<noteq> []"
  by (induction cs) (auto split: list.splits)

lemma fold_measure_layout:
  assumes "font_ok fc (ms_font s)"
  shows "\<exists>s'. fold_measure fc cs s = Inr s' \<and> font_ok fc (ms_font s') \<and>
    ms_glyphs s' = ms_glyphs s @
      line_layout fc (ms_line s) (ms_y s) (ms_x s) (ms_previous s) (hd (split_lines cs)) @
      lines_layout fc (s32 (ms_line s + 1)) (s32 (ms_y s + int (fc_height fc))) (tl (split_lines cs))"
  using assms
proof (induction cs arbitrary: s)
  case (Cons c cs)
  show ?case
  proof (cases "c = 10")
    case True
    let ?s = "s\<lparr>ms_previous := None, ms_y := s32 (ms_y s + int (fc_height fc)),
      ms_line := s32 (ms_line s + 1), ms_x := 0\<rparr>"
    have "lines_layout fc l y (split_lines cs) = line_layout fc l y 0 None (hd (split_lines cs)) @
        lines_layout fc (s32 (l + 1)) (s32 (y + int (fc_height fc))) (tl (split_lines cs))" for l y
      by (cases "split_lines cs") simp_all
    then show ?thesis using Cons.IH [of ?s] Cons.prems True by (simp add: measure_step_def)
  next
    case False
    obtain f' where f': "font_get_glyph fc c True (ms_font s) = Inr (fc_load fc c, f')" "font_ok fc f'"
      using font_get_glyph_ok [OF Cons.prems] by blast
    obtain l ls where ls: "split_lines cs = l # ls" by (cases "split_lines cs") simp_all
    show ?thesis
    proof (cases "fc_load fc c")
      case None
      then show ?thesis using Cons.IH [of "s\<lparr>ms_font := f'\<rparr>"] f' False ls by (simp add: measure_step_def)
    next
      case (Some g)
      let ?x = "s32 (ms_x s + fc_kerning fc g (ms_previous s))"
      let ?s = "s\<lparr>ms_font := f', ms_previous := Some g,
        ms_glyphs := ms_glyphs s @ [\<lparr>rg_glyph = g, rg_line = ms_line s, rg_x = ?x, rg_y = ms_y s\<rparr>],
        ms_x := s32 (?x + gl_advance g)\<rparr>"
      show ?thesis using Cons.IH [of ?s] f' False ls Some by (simp add: measure_step_def Let_def)
    qed
  qed
qed simp

lemma measure_loop_fold:
  assumes "string_is s us" "length us < 2 ^ 31" "i + n = length us"
  shows "measure_loop fc s i n st = fold_measure fc (drop i (string_chars us)) st"
  using assms(3)
proof (induction n arbitrary: i st)
  case 0
  then show ?case by (simp add: string_chars_def)
next
  case (Suc n)
  have "drop i (string_chars us) = string_chars us ! i # drop (Suc i) (string_chars us)"
    using Suc.prems by (intro Cons_nth_drop_Suc [symmetric]) (simp add: string_chars_def)
  moreover have "string_get_character s i = Inr (string_chars us ! i)"
    using string_get_character_nth [OF assms(1)] Suc.prems assms(2) by simp
  moreover have "measure_loop fc s (Suc i) n = fold_measure fc (drop (Suc i) (string_chars us))"
    using Suc.IH [of "Suc i"] Suc.prems by (intro ext) simp
  ultimately show ?case by simp
qed

lemma string_is_cached: "string_is s us \<Longrightarrow> string_is (s\<lparr>bs_cached := length us\<rparr>) us"
  by (simp add: string_is_def)

lemma measure_glyphs_layout:
  assumes "string_is s us" "length us < 2 ^ 31" "font_ok fc f"
  shows "\<exists>f'. measure_glyphs fc s f =
      Inr (lines_layout fc 0 (s32 (fc_baseline fc)) (split_lines (string_chars us)), f') \<and> font_ok fc f'"
proof -
  let ?cs = "string_chars us"
  obtain s' where "fold_measure fc ?cs (measure_start fc f) = Inr s'" "font_ok fc (ms_font s')"
    "ms_glyphs s' = line_layout fc 0 (s32 (fc_baseline fc)) 0 None (hd (split_lines ?cs)) @
      lines_layout fc (s32 1) (s32 (s32 (fc_baseline fc) + int (fc_height fc))) (tl (split_lines ?cs))"
    using fold_measure_layout [of fc "measure_start fc f" ?cs] assms(3) by (auto simp: measure_start_def)
  moreover from this have "ms_glyphs s' = lines_layout fc 0 (s32 (fc_baseline fc)) (split_lines ?cs)"
    by (cases "split_lines ?cs") simp_all
  ultimately show ?thesis
    using measure_loop_fold [OF string_is_cached [OF assms(1)] assms(2), of 0 "length us" fc] string_get_length_is [OF assms(1)]
    by (simp add: measure_glyphs_def del: lines_layout.simps)
qed

section \<open>The measure\<close>

lemma measure_size_max:
  "measure_size fc rs w h =
    (fold max (map glyph_right rs) w, fold max (map (glyph_bottom fc) rs) h)"
  by (induction rs arbitrary: w h) (auto simp: max_def)

lemma fold_max_is_Max: "fold max xs (a :: int) = Max (insert a (set xs))"
  by (metis Max.set_eq_fold list.simps(15))

section \<open>Line lengths\<close>

text \<open>The end of the last glyph of line \<open>l\<close>, \<open>d\<close> when the line has none.\<close>

fun line_end :: "'i rendered_glyph list \<Rightarrow> int \<Rightarrow> int \<Rightarrow> int" where
  "line_end [] l d = d"
| "line_end (r # rs) l d = line_end rs l (if rg_line r = l then s32 (rg_x r + gl_advance (rg_glyph r)) else d)"

lemma close_lines_vector:
  "close_lines t l w a = (max t l, if l < t then 0 else w,
     a\<lparr>arr_vector := arr_vector a @ map (\<lambda>k. if k = l then w else 0) [l..t - 1]\<rparr>)"
proof (induction t l w a rule: close_lines.induct)
  case (1 t l w a)
  show ?case
  proof (cases "l < t")
    case True
    then have "map (\<lambda>k. if k = l then w else 0) [l..t - 1] = w # map (\<lambda>k. if k = l + 1 then 0 else 0) [l + 1..t - 1]"
      by (subst upto.simps) simp
    then show ?thesis using "1.IH" True by (subst close_lines.simps) (simp add: array_add_item_def)
  qed (subst close_lines.simps, simp)
qed

lemma line_end_none: "\<forall>r \<in> set rs. rg_line r \<noteq> l \<Longrightarrow> line_end rs l d = d"
  by (induction rs) auto

lemma line_lengths_loop_vector:
  assumes "sorted (map rg_line rs)" "\<forall>r \<in> set rs. line \<le> rg_line r"
  shows "arr_vector (line_lengths_loop rs line w a) = arr_vector a @
    map (\<lambda>l. line_end rs l (if l = line then w else 0)) [line..fold max (map rg_line rs) line]"
  using assms
proof (induction rs arbitrary: line w a)
  case (Cons r rs)
  let ?t = "rg_line r" and ?M = "fold max (map rg_line rs) (rg_line r)"
  let ?e = "s32 (rg_x r + gl_advance (rg_glyph r))"
  have le: "line \<le> ?t" and tM: "?t \<le> ?M" using Cons.prems(2) by (simp_all add: fold_max_is_Max)
  have ih: "arr_vector (line_lengths_loop rs ?t ?e b) = arr_vector b @
      map (\<lambda>l. line_end rs l (if l = ?t then ?e else 0)) [?t..?M]" for b
    using Cons.IH [of ?t ?e b] Cons.prems by auto
  have low: "map (\<lambda>k. if k = line then w else 0) [line..?t - 1] =
      map (\<lambda>l. line_end (r # rs) l (if l = line then w else 0)) [line..?t - 1]"
  proof (rule map_cong [OF refl])
    fix l assume "l \<in> set [line..?t - 1]"
    then have "\<forall>q \<in> set (r # rs). rg_line q \<noteq> l" using Cons.prems(1) by fastforce
    then show "(if l = line then w else 0) = line_end (r # rs) l (if l = line then w else 0)"
      by (rule line_end_none [symmetric])
  qed
  have high: "map (\<lambda>l. line_end rs l (if l = ?t then ?e else 0)) [?t..?M] =
      map (\<lambda>l. line_end (r # rs) l (if l = line then w else 0)) [?t..?M]"
    using le by auto
  have "line_lengths_loop (r # rs) line w a = line_lengths_loop rs ?t ?e
      (a\<lparr>arr_vector := arr_vector a @ map (\<lambda>k. if k = line then w else 0) [line..?t - 1]\<rparr>)"
    using le by (simp add: close_lines_vector max_def)
  then show ?case
    using low high le upto_split1 [of line ?t ?M] tM by (simp add: ih max_absorb1 del: line_end.simps)
qed (simp add: array_add_item_def)

lemma line_lengths_nth:
  assumes "sorted (map rg_line rs)" "\<forall>r \<in> set rs. 0 \<le> rg_line r" "r \<in> set rs"
  shows "array_get_item (line_lengths rs) (rg_line r) = Inr (line_end rs (rg_line r) 0)"
proof -
  let ?M = "fold max (map rg_line rs) 0"
  have M: "rg_line r \<le> ?M" and pos: "0 \<le> rg_line r"
    using assms(2,3) by (simp_all add: fold_max_is_Max)
  have "arr_vector (line_lengths rs) = map (\<lambda>l. line_end rs l 0) [0..?M]"
    using line_lengths_loop_vector [OF assms(1,2), of 0] by (simp add: line_lengths_def array_new_def cong: map_cong)
  then show ?thesis using M pos by (simp add: array_get_item_def nth_upto)
qed

text \<open>The lines whose lengths are looked up are all there.\<close>

lemma open_lines_offset:
  assumes "- 1 \<le> line" "\<forall>k. line < k \<and> k \<le> t \<longrightarrow> k < int (length (arr_vector a))"
  shows "\<exists>off'. open_lines al w a t line off = Inr (max t line, off') \<and>
    (if line < t then (\<exists>len. array_get_item a t = Inr len \<and> off' = get_line_offset al w len) else off' = off)"
  using assms
proof (induction al w a t line off rule: open_lines.induct)
  case (1 al w a t line off)
  show ?case
  proof (cases "line < t")
    case True
    then obtain len where len: "array_get_item a (line + 1) = Inr len"
      using "1.prems" by (simp add: array_get_item_def)
    obtain off' where off': "open_lines al w a t (line + 1) (get_line_offset al w len) = Inr (max t (line + 1), off')"
      "if line + 1 < t then \<exists>len. array_get_item a t = Inr len \<and> off' = get_line_offset al w len
       else off' = get_line_offset al w len"
      using "1.IH" [OF True, of len] "1.prems" len by (auto simp del: open_lines.simps)
    have "open_lines al w a t line off = Inr (max t line, off')"
      using True len off'(1) by (subst open_lines.simps) (simp add: max_def)
    moreover have "\<exists>len. array_get_item a t = Inr len \<and> off' = get_line_offset al w len"
    proof (cases "line + 1 < t")
      case False
      then have "line + 1 = t" using True by simp
      then show ?thesis using len off'(2) False by auto
    qed (use off'(2) in simp)
    ultimately show ?thesis using True by simp
  qed (subst open_lines.simps, simp)
qed

definition draw_glyph ::
    "'i font_class \<Rightarrow> font_alignment \<Rightarrow> int \<Rightarrow> 'i rendered_glyph list \<Rightarrow> 'i rendered_glyph \<Rightarrow> bitmap \<Rightarrow> bitmap result" where
  "draw_glyph fc al w all r img =
     (case fst (glyph_get_image fc (rg_glyph r)) of
        None \<Rightarrow> Inl Undefined
      | Some i \<Rightarrow> fc_copy fc i
          (u32_of (get_line_offset al w (line_end all (rg_line r) 0) + rg_x r + gl_bearing_x (rg_glyph r)))
          (u32_of (rg_y r - gl_bearing_y (rg_glyph r))) img)"

lemma draw_loop_is_fold:
  assumes "sorted (map rg_line all)" "\<forall>r \<in> set all. 0 \<le> rg_line r"
    and "set rs \<subseteq> set all" "sorted (map rg_line rs)" "\<forall>r \<in> set rs. line \<le> rg_line r" "- 1 \<le> line"
    and "0 \<le> line \<longrightarrow> off = get_line_offset al w (line_end all line 0)"
  shows "draw_loop fc al w (line_lengths all) rs line off img = fold_r (draw_glyph fc al w all) rs img"
  using assms(3-)
proof (induction rs arbitrary: line off img)
  case (Cons r rs)
  have r: "r \<in> set all" using Cons.prems(1) by simp
  have len: "array_get_item (line_lengths all) (rg_line r) = Inr (line_end all (rg_line r) 0)"
    by (rule line_lengths_nth [OF assms(1,2) r])
  then have "rg_line r < int (length (arr_vector (line_lengths all)))"
    by (simp add: array_get_item_def split: if_splits)
  then obtain off' where off': "open_lines al w (line_lengths all) (rg_line r) line off = Inr (rg_line r, off')"
    "off' = get_line_offset al w (line_end all (rg_line r) 0)"
    using open_lines_offset [of line "rg_line r" "line_lengths all" al w off] Cons.prems len assms(2) r
    by (fastforce simp: max_def split: if_splits)
  have "draw_loop fc al w (line_lengths all) rs (rg_line r) off' img' = fold_r (draw_glyph fc al w all) rs img'" for img'
    using Cons.IH [of "rg_line r" off' img'] Cons.prems off'(2) assms(2) r by auto
  then have "draw_loop fc al w (line_lengths all) rs (rg_line r) off' = fold_r (draw_glyph fc al w all) rs"
    by (rule ext)
  then show ?case using off' draw_glyph_def [of fc al w all r img] by (simp split: option.split)
qed simp

lemma line_layout_lines: "r \<in> set (line_layout fc l y x p cs) \<Longrightarrow> rg_line r = l"
  by (induction cs arbitrary: x p) (auto simp: Let_def split: option.splits)

lemma line_layout_map: "map rg_line (line_layout fc l y x p cs) = replicate (length (line_layout fc l y x p cs)) l"
  by (induction cs arbitrary: x p) (auto simp: Let_def split: option.splits)

lemma s32_add: "s32 (s32 a + b) = s32 (a + b)"
  using signed_take_bit_add [of 31 "s32 a" b] signed_take_bit_add [of 31 a b] by (simp add: s32_def)

lemma lines_layout_closed:
  assumes "k + length ls \<le> 2 ^ 31"
  shows "lines_layout fc (int k) (s32 (b + int k * int (fc_height fc))) ls =
    concat (map (\<lambda>i. line_layout fc (int (k + i)) (s32 (b + int (k + i) * int (fc_height fc))) 0 None (ls ! i))
      [0..<length ls])"
  using assms
proof (induction ls arbitrary: k)
  case (Cons cs ls)
  have k: "lines_layout fc (s32 (int k + 1)) y ls = lines_layout fc (int (Suc k)) y ls" for y
  proof (cases ls)
    case (Cons _ _)
    then have "s32 (int k + 1) = int (Suc k)" using Cons.prems by (subst s32_id) auto
    then show ?thesis by simp
  qed simp
  have y: "s32 (s32 (b + int k * int (fc_height fc)) + int (fc_height fc)) =
      s32 (b + int (Suc k) * int (fc_height fc))"
    unfolding s32_add by (simp add: algebra_simps)
  show ?case
    using Cons.IH [of "Suc k"] Cons.prems
    by (simp add: k y map_upt_Suc del: upt_Suc) (simp add: algebra_simps)
qed simp

lemma length_split_lines: "length (split_lines cs) \<le> length cs + 1"
  by (induction cs) (auto split: list.splits)

lemma layout_sorted:
  "sorted (map rg_line (concat (map (\<lambda>i. line_layout fc (int (k + i)) (y i) 0 None (ls i)) [0..<n])))"
proof (induction n)
  case (Suc n)
  have "sorted (map rg_line (line_layout fc (int (k + n)) (y n) 0 None (ls n)))"
    by (simp add: line_layout_map)
  then show ?case using Suc by (auto simp: sorted_append dest!: line_layout_lines)
qed simp

lemma s32_range: "- (2 ^ 31) \<le> s32 x" "s32 x < 2 ^ 31"
  using signed_take_bit_int_greater_eq_minus_exp [of 31 x] signed_take_bit_int_less_exp [of 31 x]
  by (simp_all add: s32_def)

section \<open>Properties\<close>

text \<open>MeasureGlyphs lays a string out line by line.  The glyphs it yields are those of the
  lines between newlines in turn; on line \<open>i\<close> the baseline is \<open>i\<close> times the font's height below
  the first one, each glyph stands where the previous one of its line ended, moved by the kerning
  of the pair, and characters without a glyph are skipped.  Whatever the glyph cache held before,
  it then holds only what loading gives.\<close>

theorem string_layout:
  assumes "string_is s us" and "length us < 2 ^ 31" and "font_ok fc f"
  shows "\<exists>f'. measure_glyphs fc s f =
      Inr (concat (map (\<lambda>i. line_layout fc (int i) (s32 (fc_baseline fc + int i * int (fc_height fc))) 0 None
          (split_lines (string_chars us) ! i)) [0..<length (split_lines (string_chars us))]), f') \<and>
    font_ok fc f'"
proof -
  have "length (split_lines (string_chars us)) \<le> 2 ^ 31"
    using length_split_lines [of "string_chars us"] assms(2) by (simp add: string_chars_def)
  then show ?thesis
    using measure_glyphs_layout [OF assms] lines_layout_closed [of 0 "split_lines (string_chars us)" fc "fc_baseline fc"]
    by simp
qed

text \<open>A font whose glyph for character \<open>c\<close> is \<open>c mod 8\<close> wide, without one for the blank.\<close>

definition test_class :: "bitmap font_class" where
  "test_class = \<lparr>fc_load = (\<lambda>c. if c = 0x20 then None else
       Some \<lparr>gl_image = Some rgba_row, gl_character = c, gl_index = 0, gl_advance = uint c mod 8, gl_width = 2,
         gl_height = 1, gl_bearing_x = 0, gl_bearing_y = 1\<rparr>),
     fc_render = (\<lambda>_. None), fc_copy = (\<lambda>i x y img. bitmap_copy_to True i x y (bm_width i) (bm_height i) img),
     fc_kerning = (\<lambda>_ _. 0), fc_height = 10, fc_baseline = 8, fc_descender = 0\<rparr>"

theorem string_layout_witness:
  "\<exists>f'. measure_glyphs test_class abc_string font_new =
     Inr (line_layout test_class 0 8 0 None [0x61, 0x62, 0x63], f')"
proof -
  have "string_chars [[0x61], [0x62], [0x63]] = [0x61, 0x62, 0x63]"
    using utf8_unit_ascii [THEN unit_char_unit] by (simp add: string_chars_def)
  then show ?thesis
    using string_layout [OF abc_string_is _ font_new_ok, of test_class]
    by (auto simp: test_class_def s32_id)
qed



end
