(* ===== verification/Serializer.thy ===== *)
theory Serializer
  imports Stream_IO Value_Type Dictionary
begin

text \<open>
  \<^verbatim>\<open>Serializer\<close> (\<^verbatim>\<open>include/bricks/io/serializer.h\<close>, \<^verbatim>\<open>source/io/serializer.cpp\<close>): objects
  to and from a stream, each behind the identifier of its serializer.  A \<^verbatim>\<open>TypeInfo\<close> is the
  place of the type in the implementation's order of types, a number; \<open>sz_type\<close> gives those of
  the types the library has serializers for.  Reading is a function of fuel, which bounds the
  nesting of objects: \<open>None\<close> is fuel spent.  \<open>g\<close> is the contents of fresh memory.
\<close>

section \<open>Objects and serializers\<close>

datatype obj_kind = DictKind | ArrayKind | StringKind | ValueKind | DataKind | NullKind

text \<open>A dictionary of objects is its entries in key order; an object of any other type is its
  type.  \<open>NullObj\<close> is the null pointer.\<close>

datatype obj =
    NullObj
  | DictObj "(bstring \<times> obj) list"
  | ArrayObj "obj list"
  | StringObj bstring
  | ValueObj val
  | DataObj data
  | OtherObj nat

record object_serializer =
  os_type :: nat
  os_identifier :: u32
  os_kind :: obj_kind

record serializer =
  sz_type :: "obj_kind \<Rightarrow> nat"
  sz_map :: "(nat, object_serializer) dictionary"

text \<open>A \<^verbatim>\<open>StreamReader\<close> or \<^verbatim>\<open>StreamWriter\<close>.\<close>

record 's stream_io =
  io_ops :: "'s stream_ops"
  io_host :: bool
  io_endian :: endian

fun kind_identifier :: "obj_kind \<Rightarrow> u32" where
  "kind_identifier DictKind = 0xa563cab6"
| "kind_identifier ArrayKind = 0x3e346fc4"
| "kind_identifier StringKind = 0x197ad112"
| "kind_identifier ValueKind = 0x5ee289ef"
| "kind_identifier DataKind = 0xf52ee9ce"
| "kind_identifier NullKind = 0"

definition kind_serializer :: "(obj_kind \<Rightarrow> nat) \<Rightarrow> obj_kind \<Rightarrow> object_serializer" where
  "kind_serializer ti k = \<lparr>os_type = ti k, os_identifier = kind_identifier k, os_kind = k\<rparr>"

definition register_serializer :: "object_serializer \<Rightarrow> serializer \<Rightarrow> serializer" where
  "register_serializer os z = z\<lparr>sz_map := dictionary_add (sz_map z) (os_type os) os\<rparr>"

definition unregister_serializer :: "object_serializer \<Rightarrow> serializer \<Rightarrow> bool \<times> serializer" where
  "unregister_serializer os z =
     (let (found, m) = dictionary_remove_value (sz_map z) os in (found, z\<lparr>sz_map := m\<rparr>))"

definition serializer_new :: "object_serializer comparison \<Rightarrow> (obj_kind \<Rightarrow> nat) \<Rightarrow> serializer" where
  "serializer_new cmp ti =
     fold (\<lambda>k. register_serializer (kind_serializer ti k))
       [DictKind, ArrayKind, StringKind, ValueKind, DataKind, NullKind]
       \<lparr>sz_type = ti, sz_map = dictionary_new (compare_ordered (>) (<)) cmp\<rparr>"

section \<open>Writing\<close>

fun obj_type :: "(obj_kind \<Rightarrow> nat) \<Rightarrow> obj \<Rightarrow> nat" where
  "obj_type ti NullObj = ti NullKind"
| "obj_type ti (DictObj es) = ti DictKind"
| "obj_type ti (ArrayObj xs) = ti ArrayKind"
| "obj_type ti (StringObj s) = ti StringKind"
| "obj_type ti (ValueObj v) = ti ValueKind"
| "obj_type ti (DataObj d) = ti DataKind"
| "obj_type ti (OtherObj t) = t"

definition io_write_int32 :: "'s stream_io \<Rightarrow> u32 \<Rightarrow> 's \<Rightarrow> 's result" where
  "io_write_int32 io w = write_int32 (io_ops io) (io_host io) (io_endian io) w Unknown"

definition io_read_int32 :: "'s stream_io \<Rightarrow> 's \<Rightarrow> (u32 \<times> 's) result" where
  "io_read_int32 io = read_int32 (io_ops io) (io_host io) (io_endian io) Unknown"

text \<open>\<^verbatim>\<open>Serializer::Serialize\<close>: the serializer of the object's type, its identifier, then what it
  writes; the null serializer writes nothing, and another one's cast of the object fails unless
  the object has its type.\<close>

definition serialize_as ::
    "serializer \<Rightarrow> 's stream_io \<Rightarrow> obj \<Rightarrow> obj_kind \<Rightarrow> ('s \<Rightarrow> 's result) \<Rightarrow> 's \<Rightarrow> 's result" where
  "serialize_as z io ob kind write_data s =
     bind_r (dictionary_get_item (sz_map z) (obj_type (sz_type z) ob)) (\<lambda>os.
     bind_r (io_write_int32 io (os_identifier os) s) (\<lambda>s'.
     if os_kind os = NullKind then Inr s'
     else if os_kind os = kind then write_data s' else Inl Undefined))"

definition serialize_string_data :: "'s stream_io \<Rightarrow> bstring \<Rightarrow> 's \<Rightarrow> 's result" where
  "serialize_string_data io str s =
     (let n = s32 (int (get_size str)) in
      bind_r (io_write_int32 io (word_of_int n) s) (\<lambda>s1.
      if n < 0 then Inl Undefined
      else bind_r (mem_read (c_string str) 0 (nat n)) (\<lambda>bs. write_bytes (io_ops io) bs s1)))"

definition serialize_value_data :: "'s stream_io \<Rightarrow> val \<Rightarrow> 's \<Rightarrow> 's result" where
  "serialize_value_data io v s =
     bind_r (io_write_int32 io (word_of_int (v_type v)) s) (\<lambda>s1.
     bind_r (mem_read (v_data v) 0 (val_get_size v)) (\<lambda>bs. write_bytes (io_ops io) bs s1))"

definition serialize_data_data :: "'s stream_io \<Rightarrow> data \<Rightarrow> 's \<Rightarrow> 's result" where
  "serialize_data_data io d s =
     bind_r (io_write_int32 io (word_of_nat (d_length d)) s) (\<lambda>s1.
     bind_r (mem_read (d_block d) 0 (d_length d)) (\<lambda>bs. write_bytes (io_ops io) bs s1))"

fun serialize :: "serializer \<Rightarrow> 's stream_io \<Rightarrow> obj \<Rightarrow> 's \<Rightarrow> 's result"
  and serialize_items :: "serializer \<Rightarrow> 's stream_io \<Rightarrow> obj list \<Rightarrow> 's \<Rightarrow> 's result"
  and serialize_entries :: "serializer \<Rightarrow> 's stream_io \<Rightarrow> (bstring \<times> obj) list \<Rightarrow> 's \<Rightarrow> 's result" where
  "serialize z io NullObj s = serialize_as z io NullObj NullKind (\<lambda>s. Inr s) s"
| "serialize z io (DictObj es) s = serialize_as z io (DictObj es) DictKind
     (\<lambda>s. bind_r (io_write_int32 io (word_of_nat (length es)) s) (serialize_entries z io es)) s"
| "serialize z io (ArrayObj xs) s = serialize_as z io (ArrayObj xs) ArrayKind
     (\<lambda>s. bind_r (io_write_int32 io (word_of_nat (length xs)) s) (serialize_items z io xs)) s"
| "serialize z io (StringObj str) s =
     serialize_as z io (StringObj str) StringKind (serialize_string_data io str) s"
| "serialize z io (ValueObj v) s = serialize_as z io (ValueObj v) ValueKind (serialize_value_data io v) s"
| "serialize z io (DataObj d) s = serialize_as z io (DataObj d) DataKind (serialize_data_data io d) s"
| "serialize z io (OtherObj t) s = serialize_as z io (OtherObj t) NullKind (\<lambda>s. Inl Undefined) s"
| "serialize_items z io [] s = Inr s"
| "serialize_items z io (x # xs) s = bind_r (serialize z io x s) (serialize_items z io xs)"
| "serialize_entries z io [] s = Inr s"
| "serialize_entries z io ((k, x) # es) s =
     bind_r (serialize_as z io (StringObj (string_copy k)) StringKind
       (serialize_string_data io (string_copy k)) s) (\<lambda>s1.
     bind_r (serialize z io x s1) (serialize_entries z io es))"

definition big_io :: "'s stream_ops \<Rightarrow> bool \<Rightarrow> 's stream_io" where
  "big_io ops host = \<lparr>io_ops = ops, io_host = host, io_endian = BigEndian\<rparr>"

definition serialize_stream :: "serializer \<Rightarrow> 's stream_ops \<Rightarrow> bool \<Rightarrow> obj \<Rightarrow> 's \<Rightarrow> 's result" where
  "serialize_stream z ops host ob s =
     serialize z (big_io ops host) ob s"

section \<open>Reading\<close>

fun bind_o :: "'a result option \<Rightarrow> ('a \<Rightarrow> 'b result option) \<Rightarrow> 'b result option" where
  "bind_o None f = None"
| "bind_o (Some (Inl e)) f = Some (Inl e)"
| "bind_o (Some (Inr x)) f = f x"

text \<open>The loops of the dictionary and array serializers over a reader of objects.  Keys compare
  as strings, whose comparison cannot fail when they are terminated.\<close>

definition string_less :: "bstring \<Rightarrow> bstring \<Rightarrow> bool" where
  "string_less a b = (case string_compare a b of Inr n \<Rightarrow> n < 0 | Inl _ \<Rightarrow> False)"

fun read_items ::
    "('s \<Rightarrow> (obj \<times> 's) result option) \<Rightarrow> nat \<Rightarrow> obj list \<Rightarrow> 's \<Rightarrow> (obj list \<times> 's) result option" where
  "read_items rd 0 xs s = Some (Inr (xs, s))"
| "read_items rd (Suc n) xs s = bind_o (rd s) (\<lambda>(x, s'). read_items rd n (xs @ [x]) s')"

fun read_entries ::
    "('s \<Rightarrow> (obj \<times> 's) result option) \<Rightarrow> nat \<Rightarrow> (bstring \<times> obj) list \<Rightarrow> 's \<Rightarrow>
     ((bstring \<times> obj) list \<times> 's) result option" where
  "read_entries rd 0 es s = Some (Inr (es, s))"
| "read_entries rd (Suc n) es s =
     bind_o (rd s) (\<lambda>(k, s1).
     bind_o (rd s1) (\<lambda>(x, s2).
     case k of StringObj key \<Rightarrow> read_entries rd n (map_assign string_less es key x) s2
     | _ \<Rightarrow> Some (Inl Undefined)))"

text \<open>A block of a negative size cannot be allocated.\<close>

definition io_read_block :: "'s stream_io \<Rightarrow> int \<Rightarrow> 's \<Rightarrow> (bytes \<times> 's) result" where
  "io_read_block io n s = (if n < 0 then Inl Undefined else read_bytes (io_ops io) (nat n) s)"

definition deserialize_string_data :: "(nat \<Rightarrow> u8) \<Rightarrow> 's stream_io \<Rightarrow> 's \<Rightarrow> (obj \<times> 's) result" where
  "deserialize_string_data g io s =
     bind_r (io_read_int32 io s) (\<lambda>(n, s1).
     bind_r (io_read_block io (sint n) s1) (\<lambda>(bs, s2).
     bind_r (string_of_cstr g bs (nat (sint n))) (\<lambda>str. Inr (StringObj str, s2))))"

definition deserialize_value_data :: "(nat \<Rightarrow> u8) \<Rightarrow> 's stream_io \<Rightarrow> 's \<Rightarrow> (obj \<times> 's) result" where
  "deserialize_value_data g io s =
     bind_r (io_read_int32 io s) (\<lambda>(t, s1).
     bind_r (read_bytes (io_ops io) (size_of_type (sint t)) s1) (\<lambda>(bs, s2).
     bind_r (val_new g bs (sint t)) (\<lambda>v. Inr (ValueObj v, s2))))"

definition deserialize_data_data :: "(nat \<Rightarrow> u8) \<Rightarrow> 's stream_io \<Rightarrow> 's \<Rightarrow> (obj \<times> 's) result" where
  "deserialize_data_data g io s =
     bind_r (io_read_int32 io s) (\<lambda>(n, s1).
     bind_r (io_read_block io (sint n) s1) (\<lambda>(bs, s2).
     bind_r (data_of_data g \<lparr>d_block = bs, d_length = length bs, d_owned = True\<rparr> True) (\<lambda>d.
     Inr (DataObj d, s2))))"

fun deserialize_data ::
    "('s \<Rightarrow> (obj \<times> 's) result option) \<Rightarrow> (nat \<Rightarrow> u8) \<Rightarrow> 's stream_io \<Rightarrow> obj_kind \<Rightarrow> 's \<Rightarrow> (obj \<times> 's) result option" where
  "deserialize_data rd g io DictKind s =
     bind_o (Some (io_read_int32 io s)) (\<lambda>(n, s1).
     bind_o (read_entries rd (nat (sint n)) [] s1) (\<lambda>(es, s2). Some (Inr (DictObj es, s2))))"
| "deserialize_data rd g io ArrayKind s =
     bind_o (Some (io_read_int32 io s)) (\<lambda>(n, s1).
     bind_o (read_items rd (nat (sint n)) [] s1) (\<lambda>(xs, s2). Some (Inr (ArrayObj xs, s2))))"
| "deserialize_data rd g io StringKind s = Some (deserialize_string_data g io s)"
| "deserialize_data rd g io ValueKind s = Some (deserialize_value_data g io s)"
| "deserialize_data rd g io DataKind s = Some (deserialize_data_data g io s)"
| "deserialize_data rd g io NullKind s = Some (Inr (NullObj, s))"

fun deserialize ::
    "nat \<Rightarrow> serializer \<Rightarrow> (nat \<Rightarrow> u8) \<Rightarrow> 's stream_io \<Rightarrow> 's \<Rightarrow> (obj \<times> 's) result option" where
  "deserialize 0 z g io s = None"
| "deserialize (Suc fuel) z g io s =
     bind_o (Some (io_read_int32 io s)) (\<lambda>(value, s1).
     case List.find (\<lambda>e. os_identifier (snd e) = value) (dict_map (sz_map z)) of
       None \<Rightarrow> Some (throw (InvalidArgumentException ''''))
     | Some e \<Rightarrow> deserialize_data (deserialize fuel z g io) g io (os_kind (snd e)) s1)"

definition deserialize_stream ::
    "nat \<Rightarrow> serializer \<Rightarrow> (nat \<Rightarrow> u8) \<Rightarrow> 's stream_ops \<Rightarrow> bool \<Rightarrow> 's \<Rightarrow> (obj \<times> 's) result option" where
  "deserialize_stream fuel z g ops host s =
     deserialize fuel z g (big_io ops host) s"

section \<open>The format\<close>

text \<open>What a stream says of an object: the contents of strings, values and blocks.\<close>

datatype view =
    NullView
  | DictView "(bytes \<times> view) list"
  | ArrayView "view list"
  | StringView bytes
  | ValueView int bytes
  | DataView bytes

definition string_bytes :: "bstring \<Rightarrow> bytes" where
  "string_bytes s = take (get_size s) (c_string s)"

fun obj_view :: "obj \<Rightarrow> view" where
  "obj_view NullObj = NullView"
| "obj_view (DictObj es) = DictView (map (\<lambda>(k, x). (string_bytes k, obj_view x)) es)"
| "obj_view (ArrayObj xs) = ArrayView (map obj_view xs)"
| "obj_view (StringObj s) = StringView (string_bytes s)"
| "obj_view (ValueObj v) = ValueView (v_type v) (take (val_get_size v) (v_data v))"
| "obj_view (DataObj d) = DataView (data_contents d)"
| "obj_view (OtherObj t) = NullView"

definition be32 :: "u32 \<Rightarrow> bytes" where
  "be32 w = rev (bytes_le 4 w)"

definition encode_string :: "bytes \<Rightarrow> bytes" where
  "encode_string bs = be32 (kind_identifier StringKind) @ be32 (word_of_nat (length bs)) @ bs"

fun encode :: "view \<Rightarrow> bytes" where
  "encode NullView = be32 (kind_identifier NullKind)"
| "encode (DictView es) = be32 (kind_identifier DictKind) @ be32 (word_of_nat (length es)) @
     concat (map (\<lambda>(k, v). encode_string k @ encode v) es)"
| "encode (ArrayView vs) = be32 (kind_identifier ArrayKind) @ be32 (word_of_nat (length vs)) @
     concat (map encode vs)"
| "encode (StringView bs) = encode_string bs"
| "encode (ValueView t bs) = be32 (kind_identifier ValueKind) @ be32 (word_of_int t) @ bs"
| "encode (DataView bs) = be32 (kind_identifier DataKind) @ be32 (word_of_nat (length bs)) @ bs"

text \<open>Strings of ASCII characters; what the library can write and read.\<close>

definition ascii_string :: "bstring \<Rightarrow> bool" where
  "ascii_string s \<longleftrightarrow> 0 < d_length (bs_buffer s) \<and> d_length (bs_buffer s) \<le> length (c_string s) \<and>
     d_length (bs_buffer s) \<le> 2 ^ 31 \<and> c_string s ! get_size s = 0 \<and>
     (\<forall>b \<in> set (string_bytes s). b \<noteq> 0 \<and> b AND 0x80 = 0)"

lemma ascii_stringE:
  assumes "ascii_string s"
  obtains junk where "c_string s = string_bytes s @ 0 # junk" "length (string_bytes s) = get_size s"
    "d_length (bs_buffer s) = get_size s + 1" "get_size s < 2 ^ 31"
    "\<And>b. b \<in> set (string_bytes s) \<Longrightarrow> b \<noteq> 0 \<and> b AND 0x80 = 0"
proof
  have n: "d_length (bs_buffer s) = get_size s + 1"
    using assms by (auto simp: ascii_string_def get_size_def size_sub_def)
  then have le: "get_size s < length (c_string s)" using assms by (simp add: ascii_string_def)
  show "c_string s = string_bytes s @ 0 # drop (Suc (get_size s)) (c_string s)"
    using id_take_nth_drop [OF le] assms by (simp add: string_bytes_def ascii_string_def)
  show "length (string_bytes s) = get_size s" using le by (simp add: string_bytes_def)
  show "d_length (bs_buffer s) = get_size s + 1" by (rule n)
  show "get_size s < 2 ^ 31" using n assms by (simp add: ascii_string_def)
qed (use assms in \<open>auto simp: ascii_string_def\<close>)

fun obj_ok :: "obj \<Rightarrow> bool" where
  "obj_ok NullObj \<longleftrightarrow> True"
| "obj_ok (DictObj es) \<longleftrightarrow> length es < 2 ^ 31 \<and> sorted_wrt string_less (map fst es) \<and>
     (\<forall>(k, x) \<in> set es. ascii_string k \<and> obj_ok x)"
| "obj_ok (ArrayObj xs) \<longleftrightarrow> length xs < 2 ^ 31 \<and> (\<forall>x \<in> set xs. obj_ok x)"
| "obj_ok (StringObj s) \<longleftrightarrow> ascii_string s"
| "obj_ok (ValueObj v) \<longleftrightarrow> length (v_data v) = 8 \<and> - (2 ^ 31) \<le> v_type v \<and> v_type v < 2 ^ 31"
| "obj_ok (DataObj d) \<longleftrightarrow> data_ok d \<and> d_length d < 2 ^ 31"
| "obj_ok (OtherObj t) \<longleftrightarrow> False"

fun obj_depth :: "obj \<Rightarrow> nat" where
  "obj_depth (DictObj es) = Suc (fold max (map (\<lambda>(k, x). obj_depth x) es) 1)"
| "obj_depth (ArrayObj xs) = Suc (fold max (map obj_depth xs) 0)"
| "obj_depth _ = 1"

lemma length_be32 [simp]: "length (be32 w) = 4"
  by (simp add: be32_def bytes_le_def)

text \<open>The registry of the library's own serializers.\<close>

definition library_serializer :: "(obj_kind \<Rightarrow> nat) \<Rightarrow> serializer \<Rightarrow> bool" where
  "library_serializer ti z \<longleftrightarrow> sz_type z = ti \<and> inj ti \<and> dict_ok (sz_map z) \<and>
     dict_abs (sz_map z) = (\<lambda>t. map_option (kind_serializer ti) (if t \<in> range ti then Some (inv ti t) else None))"

definition all_kinds :: "obj_kind list" where
  "all_kinds = [DictKind, ArrayKind, StringKind, ValueKind, DataKind, NullKind]"

lemma in_all_kinds: "k \<in> set all_kinds"
  by (cases k) (simp_all add: all_kinds_def)

lemma register_fold:
  assumes "dict_ok (sz_map z)"
  shows "let z' = fold (\<lambda>k. register_serializer (kind_serializer ti k)) ks z in
    sz_type z' = sz_type z \<and> dict_ok (sz_map z') \<and>
    dict_abs (sz_map z') = dict_abs (sz_map z) ++ map_of (rev (map (\<lambda>k. (ti k, kind_serializer ti k)) ks))"
  using assms
proof (induction ks arbitrary: z)
  case (Cons k ks)
  have "dict_ok (sz_map (register_serializer (kind_serializer ti k) z))"
    using Cons.prems by (simp add: register_serializer_def dict.add_ok)
  from Cons.IH [OF this] Cons.prems show ?case
    by (simp add: Let_def register_serializer_def dict.add_abs kind_serializer_def map_add_def fun_eq_iff
        split: option.splits)
qed simp

lemma serializer_new_library:
  assumes "inj ti"
  shows "library_serializer ti (serializer_new cmp ti)"
proof -
  let ?z = "\<lparr>sz_type = ti, sz_map = dictionary_new (compare_ordered (>) (<)) cmp\<rparr>"
  have e: "dict_ok (sz_map ?z)" "dict_abs (sz_map ?z) = Map.empty"
    by (simp_all add: dictionary_new_def dict_ok_def dict_abs_def)
  have "distinct (map ti all_kinds)"
    using assms by (simp add: distinct_map inj_on_def inj_def) (simp add: all_kinds_def)
  then have "distinct (map fst (rev (map (\<lambda>k. (ti k, kind_serializer ti k)) all_kinds)))"
    by (simp add: comp_def kind_serializer_def flip: rev_map)
  then have m: "map_of (rev (map (\<lambda>k. (ti k, kind_serializer ti k)) all_kinds)) (ti k) = Some (kind_serializer ti k)" for k
    using in_all_kinds [of k] by simp
  have n: "map_of (rev (map (\<lambda>k. (ti k, kind_serializer ti k)) all_kinds)) t = None" if "t \<notin> range ti" for t
    using that by (auto simp: map_of_eq_None_iff)
  have "dict_abs (sz_map (serializer_new cmp ti)) t =
      map_option (kind_serializer ti) (if t \<in> range ti then Some (inv ti t) else None)" for t
    using register_fold [OF e(1), of ti all_kinds] m n assms e(2)
    by (auto simp: Let_def serializer_new_def simp flip: all_kinds_def)
  then show ?thesis
    using register_fold [OF e(1), of ti all_kinds] assms
    by (auto simp: library_serializer_def Let_def serializer_new_def fun_eq_iff simp flip: all_kinds_def)
qed

lemma library_get:
  "library_serializer ti z \<Longrightarrow> dictionary_get_item (sz_map z) (ti k) = Inr (kind_serializer ti k)"
  by (simp add: library_serializer_def dict.get_item_abs)

lemma kind_identifier_inj: "kind_identifier j = kind_identifier k \<longleftrightarrow> j = k"
  by (cases j; cases k) simp_all

lemma library_entries:
  assumes "library_serializer ti z" "e \<in> set (dict_map (sz_map z))"
  obtains k where "snd e = kind_serializer ti k"
proof -
  have "distinct (map fst (dict_map (sz_map z)))"
    using assms(1) by (auto simp: library_serializer_def dict_ok_def strict_sorted_iff)
  then have "dict_abs (sz_map z) (fst e) = Some (snd e)"
    using assms(2) by (simp add: dict_abs_def)
  then have "map_option (kind_serializer ti) (if fst e \<in> range ti then Some (inv ti (fst e)) else None) = Some (snd e)"
    using assms(1) by (simp add: library_serializer_def)
  then show thesis using that [of "inv ti (fst e)"] by (cases "fst e \<in> range ti") simp_all
qed

lemma library_find:
  assumes "library_serializer ti z"
  shows "\<exists>t. List.find (\<lambda>e. os_identifier (snd e) = kind_identifier k) (dict_map (sz_map z)) =
    Some (t, kind_serializer ti k)"
proof -
  have "dict_abs (sz_map z) (ti k) = Some (kind_serializer ti k)"
    using assms by (simp add: library_serializer_def)
  then have "(ti k, kind_serializer ti k) \<in> set (dict_map (sz_map z))"
    by (simp add: dict_abs_def map_of_SomeD)
  then have "List.find (\<lambda>e. os_identifier (snd e) = kind_identifier k) (dict_map (sz_map z)) \<noteq> None"
    by (subst find_None_iff) (force simp: kind_serializer_def)
  then obtain e where e: "List.find (\<lambda>e. os_identifier (snd e) = kind_identifier k) (dict_map (sz_map z)) = Some e" by auto
  then have "e \<in> set (dict_map (sz_map z))" "os_identifier (snd e) = kind_identifier k"
    by (auto simp: find_Some_iff)
  then obtain j where "snd e = kind_serializer ti j" "os_identifier (snd e) = kind_identifier k"
    using library_entries [OF assms] by metis
  then show ?thesis using e by (cases e) (auto simp: kind_serializer_def kind_identifier_inj)
qed

section \<open>Writing writes the format\<close>

context output_stream begin

definition writes where
  "writes f bs \<longleftrightarrow> (\<forall>s. ok s \<and> so_get_position ops s + length bs \<le> cap s \<longrightarrow>
     (\<exists>s'. f s = Inr s' \<and> ok s' \<and> contents s' = overwrite (contents s) (so_get_position ops s) bs \<and>
        cap s' = cap s \<and> so_get_position ops s' = so_get_position ops s + length bs))"

lemma writes_bind:
  assumes f: "writes f as" and h: "writes h bs"
  shows "writes (\<lambda>s. bind_r (f s) h) (as @ bs)"
  unfolding writes_def
proof (intro allI impI, elim conjE)
  fix s assume s: "ok s" "so_get_position ops s + length (as @ bs) \<le> cap s"
  obtain s1 where s1: "f s = Inr s1" "ok s1" "contents s1 = overwrite (contents s) (so_get_position ops s) as"
    "cap s1 = cap s" "so_get_position ops s1 = so_get_position ops s + length as"
    using f s unfolding writes_def by fastforce
  obtain s2 where "h s1 = Inr s2" "ok s2" "contents s2 = overwrite (contents s1) (so_get_position ops s1) bs"
    "cap s2 = cap s1" "so_get_position ops s2 = so_get_position ops s1 + length bs"
    using h s1 s unfolding writes_def by fastforce
  then show "\<exists>s'. bind_r (f s) h = Inr s' \<and> ok s' \<and>
      contents s' = overwrite (contents s) (so_get_position ops s) (as @ bs) \<and> cap s' = cap s \<and>
      so_get_position ops s' = so_get_position ops s + length (as @ bs)"
    using s1 overwrite_overwrite [OF position_bound [OF s(1)], of as bs] by simp
qed

lemma writes_Inr: "writes Inr []"
  by (simp add: writes_def overwrite_Nil)

lemma writes_block: "writes (write_bytes ops bs) bs"
  using write_bytes_contents by (simp add: writes_def)

lemma writes_int32: "writes (io_write_int32 (big_io ops host) w) (be32 w)"
proof -
  have "io_write_int32 (big_io ops host) w = write_bytes ops (be32 w)"
    using sw32.write_big [of host w]
    by (intro ext) (simp add: io_write_int32_def write_int32_def write_int_def pick_endian_def big_io_def be32_def)
  then show ?thesis using writes_block by simp
qed

lemma writes_serialize_as:
  assumes "library_serializer ti z" "obj_type ti ob = ti k" "k \<noteq> NullKind" "writes f bs"
  shows "writes (serialize_as z (big_io ops host) ob k f) (be32 (kind_identifier k) @ bs)"
proof -
  have "sz_type z = ti" using assms(1) by (simp add: library_serializer_def)
  then have "serialize_as z (big_io ops host) ob k f =
      (\<lambda>s. bind_r (io_write_int32 (big_io ops host) (kind_identifier k) s) f)"
    using library_get [OF assms(1), of k] assms(2,3)
    by (intro ext) (simp add: serialize_as_def kind_serializer_def)
  then show ?thesis using writes_bind [OF writes_int32 assms(4)] by simp
qed

lemma writes_string:
  assumes "ascii_string str"
  shows "writes (serialize_string_data (big_io ops host) str)
    (be32 (word_of_nat (length (string_bytes str))) @ string_bytes str)"
proof -
  obtain junk where j: "c_string str = string_bytes str @ 0 # junk" "length (string_bytes str) = get_size str"
    "get_size str < 2 ^ 31" using assms by (rule ascii_stringE)
  have "s32 (int (get_size str)) = int (get_size str)" using j(3) by (intro s32_id) simp_all
  moreover have "mem_read (c_string str) 0 (get_size str) = Inr (string_bytes str)"
    using j(1,2) by (simp add: mem_read_def)
  ultimately have "serialize_string_data (big_io ops host) str =
      (\<lambda>s. bind_r (io_write_int32 (big_io ops host) (word_of_nat (length (string_bytes str))) s)
        (write_bytes ops (string_bytes str)))"
    by (intro ext) (simp add: serialize_string_data_def j(2) big_io_def)
  then show ?thesis using writes_bind [OF writes_int32 writes_block] by simp
qed

lemma writes_items:
  assumes "\<forall>x \<in> set xs. writes (serialize z io x) (encode (obj_view x))"
  shows "writes (serialize_items z io xs) (concat (map encode (map obj_view xs)))"
  using assms
proof (induction xs)
  case Nil
  have "serialize_items z io [] = Inr" by (intro ext) simp
  then show ?case using writes_Inr by simp
next
  case (Cons x xs)
  have "serialize_items z io (x # xs) = (\<lambda>s. bind_r (serialize z io x s) (serialize_items z io xs))"
    by (intro ext) simp
  then show ?case using Cons writes_bind by simp
qed

lemma writes_entries:
  assumes z: "library_serializer ti z"
    and "\<forall>e \<in> set es. ascii_string (fst e) \<and> writes (serialize z (big_io ops host) (snd e)) (encode (obj_view (snd e)))"
  shows "writes (serialize_entries z (big_io ops host) es)
    (concat (map (\<lambda>(k, v). encode_string k @ encode v) (map (\<lambda>(k, x). (string_bytes k, obj_view x)) es)))"
  using assms(2)
proof (induction es)
  case Nil
  have "serialize_entries z (big_io ops host) [] = Inr" by (intro ext) simp
  then show ?case using writes_Inr by simp
next
  case (Cons e es)
  obtain k x where e: "e = (k, x)" by (cases e)
  have cp: "string_copy k = k" by (simp add: string_copy_def)
  have st: "sz_type z = ti" using z by (simp add: library_serializer_def)
  have "writes (serialize_as z (big_io ops host) (StringObj k) StringKind (serialize_string_data (big_io ops host) k))
      (encode_string (string_bytes k))"
    using writes_serialize_as [OF z, of "StringObj k" StringKind] writes_string [of k] Cons.prems
    by (simp add: e encode_string_def)
  moreover have "serialize_entries z (big_io ops host) (e # es) =
      (\<lambda>s. bind_r (serialize_as z (big_io ops host) (StringObj k) StringKind (serialize_string_data (big_io ops host) k) s)
        (\<lambda>s1. bind_r (serialize z (big_io ops host) x s1) (serialize_entries z (big_io ops host) es)))"
    by (intro ext) (simp add: e cp)
  ultimately show ?case
    using Cons by (auto simp: e intro!: writes_bind)
qed

lemma writes_serialize:
  assumes z: "library_serializer ti z"
  shows "obj_ok ob \<Longrightarrow> writes (serialize z (big_io ops host) ob) (encode (obj_view ob))"
proof (induction ob)
  case NullObj
  have "sz_type z = ti" using z by (simp add: library_serializer_def)
  then have "serialize z (big_io ops host) NullObj = (\<lambda>s. bind_r (io_write_int32 (big_io ops host) (kind_identifier NullKind) s) Inr)"
    using library_get [OF z, of NullKind] by (intro ext) (simp add: serialize_as_def kind_serializer_def)
  then show ?case using writes_bind [OF writes_int32 writes_Inr] by simp
next
  case (DictObj es)
  have "writes (serialize_entries z (big_io ops host) es)
      (concat (map (\<lambda>(k, v). encode_string k @ encode v) (map (\<lambda>(k, x). (string_bytes k, obj_view x)) es)))"
    using DictObj by (intro writes_entries [OF z]) fastforce
  then have "writes (serialize_as z (big_io ops host) (DictObj es) DictKind (\<lambda>s. bind_r
        (io_write_int32 (big_io ops host) (word_of_nat (length es)) s) (serialize_entries z (big_io ops host) es)))
      (be32 (kind_identifier DictKind) @ be32 (word_of_nat (length es)) @
        concat (map (\<lambda>(k, v). encode_string k @ encode v) (map (\<lambda>(k, x). (string_bytes k, obj_view x)) es)))"
    by (intro writes_serialize_as [OF z] writes_bind writes_int32) simp_all
  then show ?case by (simp add: comp_def case_prod_unfold)
next
  case (ArrayObj xs)
  have "writes (serialize_items z (big_io ops host) xs) (concat (map encode (map obj_view xs)))"
    using ArrayObj by (intro writes_items) auto
  then have "writes (serialize_as z (big_io ops host) (ArrayObj xs) ArrayKind (\<lambda>s. bind_r
        (io_write_int32 (big_io ops host) (word_of_nat (length xs)) s) (serialize_items z (big_io ops host) xs)))
      (be32 (kind_identifier ArrayKind) @ be32 (word_of_nat (length xs)) @
        concat (map encode (map obj_view xs)))"
    by (intro writes_serialize_as [OF z] writes_bind writes_int32) simp_all
  then show ?case by (simp add: comp_def case_prod_unfold)
next
  case (StringObj str)
  then show ?case using writes_serialize_as [OF z, of "StringObj str" StringKind] writes_string [of str]
    by (simp add: encode_string_def)
next
  case (ValueObj v)
  have "size_of_type (v_type v) \<le> 8" by (simp add: size_of_type_def split: option.split value_type.split)
  then have "serialize_value_data (big_io ops host) v = (\<lambda>s. bind_r (io_write_int32 (big_io ops host) (word_of_int (v_type v)) s)
      (write_bytes ops (take (val_get_size v) (v_data v))))"
    using ValueObj by (intro ext) (simp add: serialize_value_data_def mem_read_def val_get_size_def big_io_def)
  then show ?case using writes_serialize_as [OF z, of "ValueObj v" ValueKind] writes_bind [OF writes_int32 writes_block]
    by simp
next
  case (DataObj d)
  then have "serialize_data_data (big_io ops host) d = (\<lambda>s. bind_r (io_write_int32 (big_io ops host) (word_of_nat (d_length d)) s)
      (write_bytes ops (data_contents d)))"
    by (intro ext) (simp add: serialize_data_data_def mem_read_def data_ok_def data_contents_def big_io_def)
  moreover have "length (data_contents d) = d_length d" using DataObj by (simp add: data_ok_def data_contents_def)
  ultimately show ?case using writes_serialize_as [OF z, of "DataObj d" DataKind] writes_bind [OF writes_int32 writes_block]
    by simp
qed simp

end

section \<open>Reading reads the format\<close>

lemma bind_o_Some: "Some (bind_r m f) = bind_o (Some m) (\<lambda>x. Some (f x))"
  by (cases m) simp_all

lemma utf8_offset_ascii_all:
  "\<forall>b \<in> set bs. b \<noteq> 0 \<and> b AND 0x80 = 0 \<Longrightarrow> utf8_offset_loop bs (int (length bs)) off = Inr (off + length bs)"
proof (induction bs arbitrary: off)
  case Nil
  then show ?case by (simp add: utf8_offset_zero)
next
  case (Cons b bs)
  then show ?case using utf8_offset_ascii [of b "int (length (b # bs))" bs off] by simp
qed

lemma c_strncpy_all: "0 \<notin> set bs \<Longrightarrow> c_strncpy bs (length bs) = Inr bs"
  by (induction bs) auto

text \<open>A block of ASCII characters is read as a string of them, without a terminator after it.\<close>

lemma string_of_ascii:
  assumes "\<forall>b \<in> set bs. b \<noteq> 0 \<and> b AND 0x80 = 0" "length bs < 2 ^ 31"
  obtains str where "string_of_cstr g bs (length bs) = Inr str" "ascii_string str" "string_bytes str = bs"
proof -
  have n: "length bs \<noteq> npos" "int_index (length bs) = int (length bs)"
    using assms(2) by (auto simp: npos_def int_index_def intro!: s32_id)
  have z: "0 \<notin> set bs" using assms(1) by auto
  show thesis
  proof (rule that)
    show "string_of_cstr g bs (length bs) =
      Inr \<lparr>bs_buffer = \<lparr>d_block = bs @ [0], d_length = length bs + 1, d_owned = True\<rparr>, bs_cached = length bs\<rparr>"
    using utf8_offset_ascii_all [OF assms(1), of 0] n
      string_construct_from_copy [OF c_strncpy_all [OF z] refl n(1), of g]
    by (simp add: string_of_cstr_def utf8_offset_def)
  qed (use assms in \<open>auto simp: ascii_string_def string_bytes_def get_size_def size_sub_def\<close>)
qed

lemma c_strcmp_junk:
  "0 \<notin> set xs \<Longrightarrow> 0 \<notin> set ys \<Longrightarrow> c_strcmp (xs @ 0 # j) (ys @ 0 # k) = c_strcmp (xs @ [0]) (ys @ [0])"
proof (induction xs arbitrary: ys)
  case Nil
  then show ?case by (cases ys) auto
next
  case (Cons x xs)
  then show ?case by (cases ys) (auto simp: word_gt_0)
qed

lemma string_less_bytes:
  assumes "ascii_string a" "ascii_string b"
  shows "string_less a b \<longleftrightarrow>
    (case c_strcmp (string_bytes a @ [0]) (string_bytes b @ [0]) of Inr n \<Rightarrow> n < 0 | Inl _ \<Rightarrow> False)"
proof -
  obtain j where j: "c_string a = string_bytes a @ 0 # j" "0 \<notin> set (string_bytes a)"
    using ascii_stringE [OF assms(1)] by (metis)
  obtain k where k: "c_string b = string_bytes b @ 0 # k" "0 \<notin> set (string_bytes b)"
    using ascii_stringE [OF assms(2)] by (metis)
  have "string_compare a b = c_strcmp (string_bytes a @ [0]) (string_bytes b @ [0])"
    using c_strcmp_junk [OF j(2) k(2)] j(1) k(1)
    by (simp add: string_compare_def string_compare_cstr_at_def suffix_at_def)
  then show ?thesis by (simp add: string_less_def)
qed

lemma lower_bound_all: "\<forall>e \<in> set m. lt (fst e) k \<Longrightarrow> lower_bound lt m k = length m"
  by (induction m) auto

lemma map_assign_last: "\<forall>e \<in> set m. lt (fst e) k \<Longrightarrow> map_assign lt m k v = m @ [(k, v)]"
  by (simp add: map_assign_def map_find_def lower_bound_all insert_at_def)

context input_stream begin

definition reads where
  "reads f bs P \<longleftrightarrow> (\<forall>s c1 c2. ok s \<and> contents s = c1 @ bs @ c2 \<and> so_get_position ops s = length c1 \<longrightarrow>
     (\<exists>x s'. f s = Some (Inr (x, s')) \<and> P x \<and> ok s' \<and> contents s' = contents s \<and>
        so_get_position ops s' = length c1 + length bs))"

lemma readsD:
  assumes "reads f bs P" "ok s" "contents s = c1 @ bs @ c2" "so_get_position ops s = length c1"
  obtains x s' where "f s = Some (Inr (x, s'))" "P x" "ok s'" "contents s' = contents s"
    "so_get_position ops s' = length c1 + length bs"
  using assms unfolding reads_def by blast

lemma reads_return: "P x \<Longrightarrow> reads (\<lambda>s. Some (Inr (x, s))) [] P"
  by (simp add: reads_def)

lemma reads_bind:
  assumes "reads f as P" and "\<And>x. P x \<Longrightarrow> reads (h x) bs Q"
  shows "reads (\<lambda>s. bind_o (f s) (\<lambda>(x, s'). h x s')) (as @ bs) Q"
  unfolding reads_def
proof (intro allI impI, elim conjE)
  fix s c1 c2 assume s: "ok s" "contents s = c1 @ (as @ bs) @ c2" "so_get_position ops s = length c1"
  then have "contents s = c1 @ as @ (bs @ c2)" by simp
  from readsD [OF assms(1) s(1) this s(3)]
  obtain x s1 where s1: "f s = Some (Inr (x, s1))" "P x" "ok s1" "contents s1 = contents s"
    "so_get_position ops s1 = length c1 + length as" by blast
  then have "contents s1 = (c1 @ as) @ bs @ c2" "so_get_position ops s1 = length (c1 @ as)" using s(2) by simp_all
  from readsD [OF assms(2) [OF s1(2)] s1(3) this]
  obtain y s2 where "h x s1 = Some (Inr (y, s2))" "Q y" "ok s2" "contents s2 = contents s1"
    "so_get_position ops s2 = length (c1 @ as) + length bs" by blast
  then show "\<exists>x s'. bind_o (f s) (\<lambda>(x, s'). h x s') = Some (Inr (x, s')) \<and> Q x \<and> ok s' \<and>
      contents s' = contents s \<and> so_get_position ops s' = length c1 + length (as @ bs)"
    using s1 by simp
qed

lemma reads_bytes: "reads (\<lambda>s. Some (read_bytes ops (length bs) s)) bs (\<lambda>x. x = bs)"
  unfolding reads_def
proof (intro allI impI, elim conjE)
  fix s c1 c2 assume s: "ok s" "contents s = c1 @ bs @ c2" "so_get_position ops s = length c1"
  then show "\<exists>x s'. Some (read_bytes ops (length bs) s) = Some (Inr (x, s')) \<and> x = bs \<and> ok s' \<and>
      contents s' = contents s \<and> so_get_position ops s' = length c1 + length bs"
    using read_bytes_inside [OF s(1), of "length bs"] by auto
qed

lemma reads_int32: "reads (\<lambda>s. Some (io_read_int32 (big_io ops host) s)) (be32 w) (\<lambda>v. v = w)"
  unfolding reads_def
proof (intro allI impI, elim conjE)
  fix s c1 c2 assume s: "ok s" "contents s = c1 @ be32 w @ c2" "so_get_position ops s = length c1"
  have "endian_read swap32 host BigEndian (be32 w) = Inr w"
    using sw32.read_big [of "be32 w" host] word_bytes_le [of 4 w] by (simp add: be32_def bytes_le_def)
  then show "\<exists>x s'. Some (io_read_int32 (big_io ops host) s) = Some (Inr (x, s')) \<and> x = w \<and> ok s' \<and>
      contents s' = contents s \<and> so_get_position ops s' = length c1 + length (be32 w)"
    using read_int_bytes [OF s(1), of 4 swap32 host BigEndian Unknown] s
    by (auto simp: io_read_int32_def big_io_def read_int32_def pick_endian_def)
qed

lemma reads_block:
  "n = int (length bs) \<Longrightarrow> reads (\<lambda>s. Some (io_read_block (big_io ops host) n s)) bs (\<lambda>x. x = bs)"
  using reads_bytes [of bs] by (simp add: io_read_block_def big_io_def)

lemma reads_string:
  assumes "\<forall>b \<in> set bs. b \<noteq> 0 \<and> b AND 0x80 = 0" "length bs < 2 ^ 31"
  shows "reads (\<lambda>s. Some (deserialize_string_data g (big_io ops host) s)) (be32 (word_of_nat (length bs)) @ bs)
    (\<lambda>ob. \<exists>str. ob = StringObj str \<and> ascii_string str \<and> string_bytes str = bs)"
proof -
  have n: "sint (word_of_nat (length bs) :: u32) = int (length bs)"
    using assms(2) by (simp add: signed_of_nat signed_take_bit_int_eq_self)
  obtain str where str: "string_of_cstr g bs (length bs) = Inr str" "ascii_string str" "string_bytes str = bs"
    using string_of_ascii [OF assms] .
  have "reads (\<lambda>s. bind_o (Some (io_read_int32 (big_io ops host) s)) (\<lambda>(w, s1).
      bind_o (Some (io_read_block (big_io ops host) (sint w) s1)) (\<lambda>(x, s2).
      bind_o (Some (string_of_cstr g x (nat (sint w)))) (\<lambda>str. Some (Inr (StringObj str, s2))))))
      (be32 (word_of_nat (length bs)) @ bs @ [])
    (\<lambda>ob. \<exists>str. ob = StringObj str \<and> ascii_string str \<and> string_bytes str = bs)"
    by (rule reads_bind [OF reads_int32], rule reads_bind [OF reads_block]) (use n str in \<open>auto intro: reads_return\<close>)
  then show ?thesis by (simp add: deserialize_string_data_def bind_o_Some case_prod_unfold)
qed

lemma reads_value:
  assumes "length (v_data v) = 8" "- (2 ^ 31) \<le> v_type v" "v_type v < 2 ^ 31"
  shows "reads (\<lambda>s. Some (deserialize_value_data g (big_io ops host) s))
    (be32 (word_of_int (v_type v)) @ take (val_get_size v) (v_data v))
    (\<lambda>ob. obj_view ob = obj_view (ValueObj v))"
proof -
  have t: "sint (word_of_int (v_type v) :: u32) = v_type v"
    using assms(2,3) by (simp add: signed_of_int signed_take_bit_int_eq_self)
  have le: "size_of_type (v_type v) \<le> 8" by (simp add: size_of_type_def split: option.split value_type.split)
  let ?bs = "take (size_of_type (v_type v)) (v_data v)"
  have bs: "length ?bs = size_of_type (v_type v)" using le assms(1) by simp
  define w where "w = \<lparr>v_data = ?bs @ drop (length ?bs) (fresh_block g 8), v_type = v_type v\<rparr>"
  have w: "val_new g ?bs (v_type v) = Inr w"
    using bs le by (simp add: val_new_def val_set_data_def val_get_size_def mem_read_def mem_write_def w_def)
  have view: "obj_view (ValueObj w) = obj_view (ValueObj v)"
    using bs by (simp add: w_def val_get_size_def)
  have "reads (\<lambda>s. bind_o (Some (io_read_int32 (big_io ops host) s)) (\<lambda>(t, s1).
      bind_o (Some (read_bytes ops (size_of_type (sint t)) s1)) (\<lambda>(x, s2).
      bind_o (Some (val_new g x (sint t))) (\<lambda>v. Some (Inr (ValueObj v, s2))))))
      (be32 (word_of_int (v_type v)) @ ?bs @ [])
    (\<lambda>ob. obj_view ob = obj_view (ValueObj v))"
  proof (rule reads_bind [OF reads_int32])
    fix x :: u32 assume x: "x = word_of_int (v_type v)"
    show "reads (\<lambda>s1. bind_o (Some (read_bytes ops (size_of_type (sint x)) s1)) (\<lambda>(x', s2).
      bind_o (Some (val_new g x' (sint x))) (\<lambda>v. Some (Inr (ValueObj v, s2))))) (?bs @ [])
      (\<lambda>ob. obj_view ob = obj_view (ValueObj v))"
      unfolding x t
      by (rule reads_bind [OF reads_bytes [of ?bs, unfolded bs]]) (use w view in \<open>auto intro!: reads_return\<close>)
  qed
  then show ?thesis
    by (simp add: deserialize_value_data_def bind_o_Some case_prod_unfold big_io_def val_get_size_def)
qed

end

declare deserialize.simps(2) [simp del]

context input_stream begin

lemma reads_data:
  assumes "data_ok d" "d_length d < 2 ^ 31"
  shows "reads (\<lambda>s. Some (deserialize_data_data g (big_io ops host) s))
    (be32 (word_of_nat (d_length d)) @ data_contents d) (\<lambda>ob. obj_view ob = obj_view (DataObj d))"
proof -
  let ?bs = "data_contents d"
  have l: "length ?bs = d_length d" using assms(1) by (simp add: data_ok_def data_contents_def)
  have n: "sint (word_of_nat (d_length d) :: u32) = int (length ?bs)"
    using assms(2) l by (simp add: signed_of_nat signed_take_bit_int_eq_self)
  have cp: "data_of_data g \<lparr>d_block = ?bs, d_length = length ?bs, d_owned = True\<rparr> True =
      Inr \<lparr>d_block = ?bs, d_length = length ?bs, d_owned = True\<rparr>"
    by (simp add: data_of_data_def data_copy_from_all)
  have "reads (\<lambda>s. bind_o (Some (io_read_int32 (big_io ops host) s)) (\<lambda>(n, s1).
      bind_o (Some (io_read_block (big_io ops host) (sint n) s1)) (\<lambda>(bs, s2).
      bind_o (Some (data_of_data g \<lparr>d_block = bs, d_length = length bs, d_owned = True\<rparr> True)) (\<lambda>d.
      Some (Inr (DataObj d, s2))))))
      (be32 (word_of_nat (d_length d)) @ ?bs @ []) (\<lambda>ob. obj_view ob = obj_view (DataObj d))"
  proof (rule reads_bind [OF reads_int32])
    fix x :: u32 assume x: "x = word_of_nat (d_length d)"
    show "reads (\<lambda>s1. bind_o (Some (io_read_block (big_io ops host) (sint x) s1)) (\<lambda>(bs, s2).
      bind_o (Some (data_of_data g \<lparr>d_block = bs, d_length = length bs, d_owned = True\<rparr> True)) (\<lambda>d.
      Some (Inr (DataObj d, s2))))) (?bs @ []) (\<lambda>ob. obj_view ob = obj_view (DataObj d))"
      unfolding x n
      by (rule reads_bind [OF reads_block [OF refl]])
        (use cp l in \<open>auto intro!: reads_return simp: data_contents_def\<close>)
  qed
  then show ?thesis by (simp add: deserialize_data_data_def bind_o_Some case_prod_unfold)
qed

lemma reads_items:
  assumes "\<forall>x \<in> set xs. reads rd (encode (obj_view x)) (\<lambda>ob. obj_view ob = obj_view x)"
  shows "reads (read_items rd (length xs) acc) (concat (map encode (map obj_view xs)))
    (\<lambda>ys. map obj_view ys = map obj_view (acc @ xs))"
  using assms
proof (induction xs arbitrary: acc)
  case Nil
  have "read_items rd 0 acc = (\<lambda>s. Some (Inr (acc, s)))" by (intro ext) simp
  then show ?case by (simp add: reads_return)
next
  case (Cons x xs)
  have "reads (\<lambda>s. bind_o (rd s) (\<lambda>(y, s'). read_items rd (length xs) (acc @ [y]) s'))
      (encode (obj_view x) @ concat (map encode (map obj_view xs)))
      (\<lambda>ys. map obj_view ys = map obj_view (acc @ x # xs))"
  proof (rule reads_bind)
    show "reads rd (encode (obj_view x)) (\<lambda>ob. obj_view ob = obj_view x)" using Cons.prems by simp
    fix y assume "obj_view y = obj_view x"
    then show "reads (read_items rd (length xs) (acc @ [y])) (concat (map encode (map obj_view xs)))
        (\<lambda>ys. map obj_view ys = map obj_view (acc @ x # xs))"
      using Cons.IH [of "acc @ [y]"] Cons.prems by simp
  qed
  moreover have "read_items rd (length (x # xs)) acc =
      (\<lambda>s. bind_o (rd s) (\<lambda>(y, s'). read_items rd (length xs) (acc @ [y]) s'))"
    by (intro ext) simp
  ultimately show ?case by simp
qed

text \<open>The keys read so far and those to come are in order, so each is added at the end.\<close>

lemma reads_entries:
  assumes "\<forall>(k, x) \<in> set es. ascii_string k \<and> reads rd (encode (obj_view x)) (\<lambda>ob. obj_view ob = obj_view x) \<and>
      reads rd (encode_string (string_bytes k))
        (\<lambda>ob. \<exists>str. ob = StringObj str \<and> ascii_string str \<and> string_bytes str = string_bytes k)"
    and "\<forall>k \<in> set (map fst acc). ascii_string k" and "sorted_wrt string_less (map fst acc @ map fst es)"
  shows "reads (read_entries rd (length es) acc)
    (concat (map (\<lambda>(k, v). encode_string k @ encode v) (map (\<lambda>(k, x). (string_bytes k, obj_view x)) es)))
    (\<lambda>fs. map (\<lambda>(k, x). (string_bytes k, obj_view x)) fs = map (\<lambda>(k, x). (string_bytes k, obj_view x)) (acc @ es))"
  using assms
proof (induction es arbitrary: acc)
  case Nil
  have "read_entries rd 0 acc = (\<lambda>s. Some (Inr (acc, s)))" by (intro ext) simp
  then show ?case by (simp add: reads_return)
next
  case (Cons e es)
  obtain k x where e: "e = (k, x)" by (cases e)
  let ?enc = "concat (map (\<lambda>(k, v). encode_string k @ encode v) (map (\<lambda>(k, x). (string_bytes k, obj_view x)) es))"
  let ?Q = "\<lambda>fs. map (\<lambda>(k, x). (string_bytes k, obj_view x)) fs =
    map (\<lambda>(k, x). (string_bytes k, obj_view x)) (acc @ e # es)"
  have "reads (\<lambda>s. bind_o (rd s) (\<lambda>(ko, s1). bind_o (rd s1) (\<lambda>(y, s2).
      case ko of StringObj key \<Rightarrow> read_entries rd (length es) (map_assign string_less acc key y) s2
      | _ \<Rightarrow> Some (Inl Undefined)))) (encode_string (string_bytes k) @ encode (obj_view x) @ ?enc) ?Q"
  proof (rule reads_bind)
    show "reads rd (encode_string (string_bytes k))
        (\<lambda>ob. \<exists>str. ob = StringObj str \<and> ascii_string str \<and> string_bytes str = string_bytes k)"
      using Cons.prems(1) by (simp add: e)
    fix ko assume "\<exists>str. ko = StringObj str \<and> ascii_string str \<and> string_bytes str = string_bytes k"
    then obtain str where str: "ko = StringObj str" "ascii_string str" "string_bytes str = string_bytes k" by blast
    have k: "ascii_string k" using Cons.prems(1) by (simp add: e)
    show "reads (\<lambda>s1. bind_o (rd s1) (\<lambda>(y, s2).
        case ko of StringObj key \<Rightarrow> read_entries rd (length es) (map_assign string_less acc key y) s2
        | _ \<Rightarrow> Some (Inl Undefined))) (encode (obj_view x) @ ?enc) ?Q"
    proof (rule reads_bind)
      show "reads rd (encode (obj_view x)) (\<lambda>ob. obj_view ob = obj_view x)" using Cons.prems(1) by (simp add: e)
      fix y assume y: "obj_view y = obj_view x"
      have low: "string_less a str \<longleftrightarrow> string_less a k" "string_less str a \<longleftrightarrow> string_less k a" if "ascii_string a" for a
        using string_less_bytes that str(2,3) k by simp_all
      have as: "\<forall>a \<in> set (map fst es). ascii_string a" using Cons.prems(1) by auto
      have "\<forall>f \<in> set acc. string_less (fst f) str"
        using Cons.prems(2,3) low(1) by (auto simp: e sorted_wrt_append)
      then have add: "map_assign string_less acc str y = acc @ [(str, y)]" by (rule map_assign_last)
      have "sorted_wrt string_less (map fst (acc @ [(str, y)]) @ map fst es)"
        using Cons.prems(2,3) low as by (auto simp: e sorted_wrt_append)
      then have "reads (read_entries rd (length es) (acc @ [(str, y)])) ?enc ?Q"
        using Cons.IH [of "acc @ [(str, y)]"] Cons.prems(1,2) str y by (simp add: e)
      then show "reads (\<lambda>s2. case ko of StringObj key \<Rightarrow> read_entries rd (length es) (map_assign string_less acc key y) s2
        | _ \<Rightarrow> Some (Inl Undefined)) ?enc ?Q"
        by (simp add: str(1) add)
    qed
  qed
  moreover have "read_entries rd (length (e # es)) acc = (\<lambda>s. bind_o (rd s) (\<lambda>(ko, s1). bind_o (rd s1) (\<lambda>(y, s2).
      case ko of StringObj key \<Rightarrow> read_entries rd (length es) (map_assign string_less acc key y) s2
      | _ \<Rightarrow> Some (Inl Undefined))))"
    by (intro ext) simp
  ultimately show ?case by (simp add: e)
qed

lemma reads_deserialize:
  assumes z: "library_serializer ti z"
    and "reads (deserialize_data (deserialize fuel z g (big_io ops host)) g (big_io ops host) k) bs Q"
  shows "reads (deserialize (Suc fuel) z g (big_io ops host)) (be32 (kind_identifier k) @ bs) Q"
proof -
  have "reads (\<lambda>s. bind_o (Some (io_read_int32 (big_io ops host) s)) (\<lambda>(value, s1).
     case List.find (\<lambda>e. os_identifier (snd e) = value) (dict_map (sz_map z)) of
       None \<Rightarrow> Some (throw (InvalidArgumentException ''''))
     | Some e \<Rightarrow> deserialize_data (deserialize fuel z g (big_io ops host)) g (big_io ops host) (os_kind (snd e)) s1))
     (be32 (kind_identifier k) @ bs) Q"
  proof (rule reads_bind [OF reads_int32])
    fix x assume x: "x = kind_identifier k"
    obtain t where "List.find (\<lambda>e. os_identifier (snd e) = kind_identifier k) (dict_map (sz_map z)) =
        Some (t, kind_serializer ti k)" using library_find [OF z] by blast
    then show "reads (\<lambda>s1. case List.find (\<lambda>e. os_identifier (snd e) = x) (dict_map (sz_map z)) of
       None \<Rightarrow> Some (throw (InvalidArgumentException ''''))
     | Some e \<Rightarrow> deserialize_data (deserialize fuel z g (big_io ops host)) g (big_io ops host) (os_kind (snd e)) s1) bs Q"
      using assms(2) by (simp add: x kind_serializer_def)
  qed
  moreover have "deserialize (Suc fuel) z g (big_io ops host) = (\<lambda>s. bind_o (Some (io_read_int32 (big_io ops host) s))
     (\<lambda>(value, s1). case List.find (\<lambda>e. os_identifier (snd e) = value) (dict_map (sz_map z)) of
       None \<Rightarrow> Some (throw (InvalidArgumentException ''''))
     | Some e \<Rightarrow> deserialize_data (deserialize fuel z g (big_io ops host)) g (big_io ops host) (os_kind (snd e)) s1))"
    by (intro ext) (simp add: deserialize.simps)
  ultimately show ?thesis by simp
qed

lemma deserialize_data_dict:
  "deserialize_data rd g io DictKind = (\<lambda>s. bind_o (Some (io_read_int32 io s)) (\<lambda>(n, s1).
     bind_o (read_entries rd (nat (sint n)) [] s1) (\<lambda>(es, s2). Some (Inr (DictObj es, s2)))))"
  by (intro ext) simp

lemma deserialize_data_array:
  "deserialize_data rd g io ArrayKind = (\<lambda>s. bind_o (Some (io_read_int32 io s)) (\<lambda>(n, s1).
     bind_o (read_items rd (nat (sint n)) [] s1) (\<lambda>(xs, s2). Some (Inr (ArrayObj xs, s2)))))"
  by (intro ext) simp

lemma reads_key:
  assumes z: "library_serializer ti z" and k: "ascii_string k"
  shows "reads (deserialize (Suc fuel) z g (big_io ops host)) (encode_string (string_bytes k))
    (\<lambda>ob. \<exists>str. ob = StringObj str \<and> ascii_string str \<and> string_bytes str = string_bytes k)"
proof -
  have "deserialize_data (deserialize fuel z g (big_io ops host)) g (big_io ops host) StringKind =
      (\<lambda>s. Some (deserialize_string_data g (big_io ops host) s))" by (intro ext) simp
  moreover have "\<forall>b \<in> set (string_bytes k). b \<noteq> 0 \<and> b AND 0x80 = 0" "length (string_bytes k) < 2 ^ 31"
    using ascii_stringE [OF k] by metis+
  ultimately show ?thesis unfolding encode_string_def
    by (intro reads_deserialize [OF z]) (simp add: reads_string)
qed

lemma int_count: "n < 2 ^ 31 \<Longrightarrow> nat (sint (word_of_nat n :: u32)) = n"
  by (simp add: signed_of_nat signed_take_bit_int_eq_self)

lemma reads_count_bind:
  assumes h: "reads (h n) bs P" and Q: "\<And>x. P x \<Longrightarrow> Q (C x)" and n: "n < 2 ^ 31"
  shows "reads (\<lambda>s. bind_o (Some (io_read_int32 (big_io ops host) s)) (\<lambda>(w, s1).
      bind_o (h (nat (sint w)) s1) (\<lambda>(x, s2). Some (Inr (C x, s2))))) (be32 (word_of_nat n) @ bs) Q"
proof (rule reads_bind [OF reads_int32])
  fix w :: u32 assume w: "w = word_of_nat n"
  have "reads (\<lambda>s1. bind_o (h n s1) (\<lambda>(x, s2). Some (Inr (C x, s2)))) (bs @ []) Q"
    by (rule reads_bind [OF h]) (simp add: Q reads_return)
  then show "reads (\<lambda>s1. bind_o (h (nat (sint w)) s1) (\<lambda>(x, s2). Some (Inr (C x, s2)))) bs Q"
    by (simp add: w int_count [OF n])
qed

lemma fold_max_le: "fold max xs a \<le> (n :: nat) \<longleftrightarrow> a \<le> n \<and> (\<forall>x \<in> set xs. x \<le> n)"
  by (induction xs arbitrary: a) auto

lemma reads_obj:
  assumes z: "library_serializer ti z"
  shows "obj_ok ob \<Longrightarrow> obj_depth ob \<le> fuel \<Longrightarrow>
    reads (deserialize fuel z g (big_io ops host)) (encode (obj_view ob)) (\<lambda>ob'. obj_view ob' = obj_view ob)"
proof (induction ob arbitrary: fuel)
  case NullObj
  then obtain n where n: "fuel = Suc n" by (cases fuel) auto
  have "deserialize_data (deserialize n z g (big_io ops host)) g (big_io ops host) NullKind =
      (\<lambda>s. Some (Inr (NullObj, s)))" by (intro ext) simp
  then show ?case using reads_deserialize [OF z, of n g host NullKind "[]"]
    by (simp add: n reads_return)
next
  case (DictObj es)
  then obtain n where n: "fuel = Suc n" by (cases fuel) auto
  have d: "1 \<le> n" "\<forall>e \<in> set es. obj_depth (snd e) \<le> n"
    using DictObj.prems(2) by (auto simp: n fold_max_le)
  then obtain m where m: "n = Suc m" by (cases n) auto
  let ?rd = "deserialize n z g (big_io ops host)" and ?v = "\<lambda>(k, x). (string_bytes k, obj_view x)"
  have "reads (read_entries ?rd (length es) [])
      (concat (map (\<lambda>(k, v). encode_string k @ encode v) (map ?v es))) (\<lambda>fs. map ?v fs = map ?v ([] @ es))"
  proof (rule reads_entries)
    show "\<forall>(k, x) \<in> set es. ascii_string k \<and> reads ?rd (encode (obj_view x)) (\<lambda>ob. obj_view ob = obj_view x) \<and>
      reads ?rd (encode_string (string_bytes k))
        (\<lambda>ob. \<exists>str. ob = StringObj str \<and> ascii_string str \<and> string_bytes str = string_bytes k)"
    proof (intro ballI, clarify)
      fix k x assume e: "(k, x) \<in> set es"
      then have "ascii_string k" "obj_ok x" "obj_depth x \<le> n" using DictObj.prems(1) d(2) by auto
      then show "ascii_string k \<and> reads ?rd (encode (obj_view x)) (\<lambda>ob. obj_view ob = obj_view x) \<and>
          reads ?rd (encode_string (string_bytes k))
            (\<lambda>ob. \<exists>str. ob = StringObj str \<and> ascii_string str \<and> string_bytes str = string_bytes k)"
        using DictObj.IH [OF e, of x n] reads_key [OF z, of k m g host] unfolding m by simp
    qed
  qed (use DictObj.prems(1) in auto)
  then have "reads (deserialize_data ?rd g (big_io ops host) DictKind)
      (be32 (word_of_nat (length es)) @ concat (map (\<lambda>(k, v). encode_string k @ encode v) (map ?v es)))
      (\<lambda>ob'. obj_view ob' = obj_view (DictObj es))"
    unfolding deserialize_data_dict using DictObj.prems(1) by (intro reads_count_bind) simp_all
  from reads_deserialize [OF z this] show ?case by (simp add: n)
next
  case (ArrayObj xs)
  then obtain n where n: "fuel = Suc n" by (cases fuel) auto
  let ?rd = "deserialize n z g (big_io ops host)"
  have "reads (read_items ?rd (length xs) []) (concat (map encode (map obj_view xs)))
      (\<lambda>ys. map obj_view ys = map obj_view ([] @ xs))"
    using ArrayObj by (intro reads_items) (auto simp: n fold_max_le)
  then have "reads (deserialize_data ?rd g (big_io ops host) ArrayKind)
      (be32 (word_of_nat (length xs)) @ concat (map encode (map obj_view xs)))
      (\<lambda>ob'. obj_view ob' = obj_view (ArrayObj xs))"
    unfolding deserialize_data_array using ArrayObj.prems(1) by (intro reads_count_bind) simp_all
  from reads_deserialize [OF z this] show ?case by (simp add: n)
next
  case (StringObj str)
  then obtain n where n: "fuel = Suc n" by (cases fuel) auto
  have "reads (deserialize fuel z g (big_io ops host)) (encode_string (string_bytes str))
    (\<lambda>ob. \<exists>s. ob = StringObj s \<and> ascii_string s \<and> string_bytes s = string_bytes str)"
    using reads_key [OF z, of str n g host] StringObj by (simp add: n)
  then show ?case by (fastforce simp: reads_def)
next
  case (ValueObj v)
  then obtain n where n: "fuel = Suc n" by (cases fuel) auto
  have "deserialize_data (deserialize n z g (big_io ops host)) g (big_io ops host) ValueKind =
      (\<lambda>s. Some (deserialize_value_data g (big_io ops host) s))" by (intro ext) simp
  then show ?case using reads_deserialize [OF z, of n g host ValueKind] reads_value [of v g host] ValueObj
    by (simp add: n)
next
  case (DataObj d)
  then obtain n where n: "fuel = Suc n" by (cases fuel) auto
  have "deserialize_data (deserialize n z g (big_io ops host)) g (big_io ops host) DataKind =
      (\<lambda>s. Some (deserialize_data_data g (big_io ops host) s))" by (intro ext) simp
  moreover have "length (data_contents d) = d_length d" using DataObj by (simp add: data_ok_def data_contents_def)
  ultimately show ?case using reads_deserialize [OF z, of n g host DataKind] reads_data [of d g host] DataObj
    by (simp add: n)
qed simp

end

section \<open>Reading any bytes returns\<close>

context input_stream begin

definition remaining where
  "remaining s = length (contents s) - so_get_position ops s"

text \<open>From a state with fewer than \<open>m\<close> bytes left, \<open>f\<close> returns, and moves at least \<open>k\<close> bytes on
  unless it fails.\<close>

definition returns where
  "returns f k m \<longleftrightarrow> (\<forall>s. ok s \<and> remaining s < m \<longrightarrow> (\<exists>r. f s = Some r \<and>
     (\<forall>x s'. r = Inr (x, s') \<longrightarrow> ok s' \<and> contents s' = contents s \<and> so_get_position ops s + k \<le> so_get_position ops s')))"

lemma returns_bind:
  assumes f: "returns f j m" and h: "\<And>x. returns (h x) k (m - j)"
  shows "returns (\<lambda>s. bind_o (f s) (\<lambda>(x, s'). h x s')) (j + k) m"
  unfolding returns_def
proof (intro allI impI, elim conjE)
  fix s assume s: "ok s" "remaining s < m"
  obtain r where r: "f s = Some r" "\<And>x s'. r = Inr (x, s') \<Longrightarrow> ok s' \<and> contents s' = contents s \<and>
      so_get_position ops s + j \<le> so_get_position ops s'"
    using f s unfolding returns_def by blast
  show "\<exists>r. bind_o (f s) (\<lambda>(x, s'). h x s') = Some r \<and> (\<forall>x s'. r = Inr (x, s') \<longrightarrow> ok s' \<and>
      contents s' = contents s \<and> so_get_position ops s + (j + k) \<le> so_get_position ops s')"
  proof (cases r)
    case (Inr p)
    obtain x s1 where p: "p = (x, s1)" by (cases p)
    then have s1: "ok s1" "contents s1 = contents s" "so_get_position ops s + j \<le> so_get_position ops s1"
      using r(2) Inr by auto
    then have "remaining s1 < m - j"
      using s(2) position_bound [OF s1(1)] by (simp add: remaining_def)
    then show ?thesis using h [of x] s1 r(1) Inr p unfolding returns_def by fastforce
  qed (use r in simp)
qed

lemma returns_weaken: "returns f k m \<Longrightarrow> m' \<le> m \<Longrightarrow> k' \<le> k \<Longrightarrow> returns f k' m'"
  unfolding returns_def by (meson add_left_mono le_trans less_le_trans)

lemma returns_Some: "(\<And>x s s'. g s = Inr (x, s') \<Longrightarrow> s' = s) \<Longrightarrow> returns (\<lambda>s. Some (g s)) 0 m"
  unfolding returns_def by fastforce

lemma read_bytes_result:
  assumes "ok s" "n < 2 ^ 63" "read_bytes ops n s = Inr (bs, s')"
  shows "ok s' \<and> contents s' = contents s \<and> so_get_position ops s' = so_get_position ops s + n"
proof (cases "so_get_position ops s + n \<le> length (contents s)")
  case True
  then show ?thesis using read_bytes_inside [OF assms(1) True] assms(3) by auto
next
  case False
  then show ?thesis using read_bytes_end [OF assms(1) _ assms(2)] assms(3) by simp
qed

lemma returns_bytes: "n < 2 ^ 63 \<Longrightarrow> returns (\<lambda>s. Some (read_bytes ops n s)) n m"
  unfolding returns_def using read_bytes_result by fastforce

lemma returns_int32: "returns (\<lambda>s. Some (io_read_int32 (big_io ops host) s)) 4 m"
proof -
  have "io_read_int32 (big_io ops host) s = bind_r (read_bytes ops 4 s) (\<lambda>(bs, s').
      bind_r (endian_read swap32 host BigEndian bs) (\<lambda>w. Inr (w, s')))" for s
    by (cases "so_read ops 4 s")
      (auto simp: io_read_int32_def big_io_def read_int32_def read_int_def read_bytes_def pick_endian_def
        split: prod.split)
  moreover have "returns (\<lambda>s. bind_o (Some (read_bytes ops 4 s)) (\<lambda>(bs, s').
      Some (bind_r (endian_read swap32 host BigEndian bs) (\<lambda>w. Inr (w, s'))))) (4 + 0) m"
    by (intro returns_bind returns_bytes returns_Some) (auto simp: bind_r_Inr_iff)
  ultimately show ?thesis by (simp add: bind_o_Some case_prod_unfold)
qed

lemma returns_block: "n < 2 ^ 31 \<Longrightarrow> returns (\<lambda>s. Some (io_read_block (big_io ops host) n s)) 0 m"
proof (cases "n < 0")
  case False
  moreover assume "n < 2 ^ 31"
  ultimately show ?thesis using returns_weaken [OF returns_bytes [of "nat n" m], of m 0]
    by (simp add: io_read_block_def big_io_def)
qed (simp add: io_read_block_def returns_def)

lemma returns_string: "returns (\<lambda>s. Some (deserialize_string_data g (big_io ops host) s)) 0 m"
proof -
  have n: "sint (w :: u32) < 2 ^ 31" for w using sint_lt [of w] by simp
  have "returns (\<lambda>s. bind_o (Some (io_read_int32 (big_io ops host) s)) (\<lambda>(w, s1).
      bind_o (Some (io_read_block (big_io ops host) (sint w) s1)) (\<lambda>(x, s2).
      Some (bind_r (string_of_cstr g x (nat (sint w))) (\<lambda>str. Inr (StringObj str, s2)))))) (4 + (0 + 0)) m"
    by (intro returns_bind returns_int32 returns_block n returns_Some) (auto simp: bind_r_Inr_iff)
  from returns_weaken [OF this, of m 0] show ?thesis
    by (simp add: deserialize_string_data_def bind_o_Some case_prod_unfold)
qed

lemma returns_data: "returns (\<lambda>s. Some (deserialize_data_data g (big_io ops host) s)) 0 m"
proof -
  have n: "sint (w :: u32) < 2 ^ 31" for w using sint_lt [of w] by simp
  have "returns (\<lambda>s. bind_o (Some (io_read_int32 (big_io ops host) s)) (\<lambda>(w, s1).
      bind_o (Some (io_read_block (big_io ops host) (sint w) s1)) (\<lambda>(x, s2).
      Some (bind_r (data_of_data g \<lparr>d_block = x, d_length = length x, d_owned = True\<rparr> True)
        (\<lambda>d. Inr (DataObj d, s2)))))) (4 + (0 + 0)) m"
    by (intro returns_bind returns_int32 returns_block n returns_Some) (auto simp: bind_r_Inr_iff)
  from returns_weaken [OF this, of m 0] show ?thesis
    by (simp add: deserialize_data_data_def bind_o_Some case_prod_unfold)
qed

lemma returns_value: "returns (\<lambda>s. Some (deserialize_value_data g (big_io ops host) s)) 0 m"
proof -
  have le: "size_of_type t < 2 ^ 63" for t by (simp add: size_of_type_def split: option.split value_type.split)
  have "returns (\<lambda>s. bind_o (Some (io_read_int32 (big_io ops host) s)) (\<lambda>(w, s1).
      bind_o (Some (read_bytes ops (size_of_type (sint w)) s1)) (\<lambda>(x, s2).
      Some (bind_r (val_new g x (sint w)) (\<lambda>v. Inr (ValueObj v, s2)))))) (4 + (0 + 0)) m"
    by (intro returns_bind returns_int32 returns_weaken [OF returns_bytes [OF le]] returns_Some)
      (auto simp: bind_r_Inr_iff)
  from returns_weaken [OF this, of m 0] show ?thesis
    by (simp add: deserialize_value_data_def bind_o_Some case_prod_unfold big_io_def)
qed

lemma returns_items: "returns rd 0 m \<Longrightarrow> returns (read_items rd n acc) 0 m"
proof (induction n arbitrary: acc)
  case (Suc n)
  have "returns (\<lambda>s. bind_o (rd s) (\<lambda>(x, s'). read_items rd n (acc @ [x]) s')) (0 + 0) m"
    using Suc by (intro returns_bind) simp_all
  moreover have "read_items rd (Suc n) acc = (\<lambda>s. bind_o (rd s) (\<lambda>(x, s'). read_items rd n (acc @ [x]) s'))"
    by (intro ext) simp
  ultimately show ?case by simp
qed (simp add: returns_def)

lemma returns_entries: "returns rd 0 m \<Longrightarrow> returns (read_entries rd n acc) 0 m"
proof (induction n arbitrary: acc)
  case (Suc n)
  let ?h = "\<lambda>k x. case k of StringObj key \<Rightarrow> read_entries rd n (map_assign string_less acc key x)
     | _ \<Rightarrow> (\<lambda>s. Some (Inl Undefined))"
  have "returns (?h k x) 0 m" for k x
    using Suc by (cases k) (simp_all add: returns_def)
  then have "returns (\<lambda>s. bind_o (rd s) (\<lambda>(k, s1). bind_o (rd s1) (\<lambda>(x, s2). ?h k x s2))) (0 + (0 + 0)) m"
    using Suc.prems by (intro returns_bind) simp_all
  moreover have "read_entries rd (Suc n) acc = (\<lambda>s. bind_o (rd s) (\<lambda>(k, s1). bind_o (rd s1) (\<lambda>(x, s2). ?h k x s2)))"
    by (intro ext) (auto intro!: arg_cong2 [where f = bind_o] simp: fun_eq_iff split: obj.split)
  ultimately show ?case by simp
qed (simp add: returns_def)

lemma returns_deserialize_data:
  assumes "returns rd 0 m"
  shows "returns (deserialize_data rd g (big_io ops host) k) 0 m"
proof -
  have s: "deserialize_data rd g io StringKind = (\<lambda>s. Some (deserialize_string_data g io s))"
    "deserialize_data rd g io ValueKind = (\<lambda>s. Some (deserialize_value_data g io s))"
    "deserialize_data rd g io DataKind = (\<lambda>s. Some (deserialize_data_data g io s))"
    "deserialize_data rd g io NullKind = (\<lambda>s. Some (Inr (NullObj, s)))" for io
    by (intro ext, simp)+
  have rd: "returns rd 0 (m - 4)" by (rule returns_weaken [OF assms]) simp_all
  have "returns (deserialize_data rd g (big_io ops host) DictKind) (4 + (0 + 0)) m"
    unfolding deserialize_data_dict
    by (intro returns_bind returns_int32 returns_entries returns_Some) (use rd in auto)
  moreover have "returns (deserialize_data rd g (big_io ops host) ArrayKind) (4 + (0 + 0)) m"
    unfolding deserialize_data_array
    by (intro returns_bind returns_int32 returns_items returns_Some) (use rd in auto)
  moreover have "returns (\<lambda>s. Some (Inr (NullObj, s))) 0 m" by (simp add: returns_def)
  ultimately show ?thesis using returns_weaken [of _ 4 m m 0] returns_string returns_value returns_data
    by (cases k) (simp_all add: s)
qed

lemma returns_deserialize: "returns (deserialize fuel z g (big_io ops host)) 4 (4 * fuel)"
proof (induction fuel)
  case (Suc n)
  have rd: "returns (deserialize n z g (big_io ops host)) 0 (4 * n)" by (rule returns_weaken [OF Suc]) simp_all
  let ?h = "\<lambda>v. case List.find (\<lambda>e. os_identifier (snd e) = v) (dict_map (sz_map z)) of
       None \<Rightarrow> (\<lambda>s. Some (throw (InvalidArgumentException '''')))
     | Some e \<Rightarrow> deserialize_data (deserialize n z g (big_io ops host)) g (big_io ops host) (os_kind (snd e))"
  have "returns (?h v) 0 (4 * n)" for v
    by (cases "List.find (\<lambda>e. os_identifier (snd e) = v) (dict_map (sz_map z))")
      (simp_all add: returns_deserialize_data [OF rd], simp add: returns_def)
  then have "returns (\<lambda>s. bind_o (Some (io_read_int32 (big_io ops host) s)) (\<lambda>(v, s1). ?h v s1)) (4 + 0) (4 * Suc n)"
    by (intro returns_bind returns_int32) simp
  moreover have "deserialize (Suc n) z g (big_io ops host) =
      (\<lambda>s. bind_o (Some (io_read_int32 (big_io ops host) s)) (\<lambda>(v, s1). ?h v s1))"
    by (intro ext) (auto simp: deserialize.simps intro!: arg_cong2 [where f = bind_o] split: option.split)
  ultimately show ?case by simp
qed (simp add: returns_def)

end

section \<open>Properties\<close>

text \<open>A string of a character that takes two bytes is not read back: the constructor of
  \<^verbatim>\<open>String\<close> takes the number of bytes for a number of characters and reads past the block.\<close>

lemma string_of_two_bytes: "string_of_cstr g [0xC3, 0xA9] 2 = Inl Undefined"
proof -
  have "utf8_offset_loop [0xC3, 0xA9] 2 0 = utf8_offset_loop [] 1 (Suc (Suc 0))"
    using utf8_offset_multi [of "0xC3" 2 "[0xA9]" 0] by (simp add: utf8_lead_size_def)
  also have "\<dots> = Inl Undefined" by (subst utf8_offset_loop.simps) simp
  finally show ?thesis by (simp add: string_of_cstr_def utf8_offset_def int_index_def s32_id npos_def)
qed


definition kind_rank :: "obj_kind \<Rightarrow> nat" where
  "kind_rank k = (case k of DictKind \<Rightarrow> 3 | ArrayKind \<Rightarrow> 1 | StringKind \<Rightarrow> 4 | ValueKind \<Rightarrow> 5 | DataKind \<Rightarrow> 9 | NullKind \<Rightarrow> 2)"

lemma kind_rank_inj: "inj kind_rank"
  by (auto simp: inj_def kind_rank_def split: obj_kind.splits)

definition sample_object :: obj where
  "sample_object = DictObj [(abc_string, ArrayObj [NullObj, ValueObj \<lparr>v_data = [1, 2, 3, 4, 5, 6, 7, 8], v_type = 4\<rparr>])]"




end
