(* ===== verification/File_Path.thy ===== *)
theory File_Path
  imports BString
begin

text \<open>
  \<^verbatim>\<open>FilePath\<close> (\<^verbatim>\<open>include/bricks/io/filepath.h\<close>, with the separators of
  \<^verbatim>\<open>source/io/filesystem.cpp\<close>) on a host whose separator is the slash.  A path is a
  \<^verbatim>\<open>String\<close> without a separator at its end; \<open>g\<close> is the contents of fresh memory.
\<close>

section \<open>Paths\<close>

text \<open>\<^verbatim>\<open>GetDirectorySeparators\<close>: slash and backslash.\<close>

definition directory_separators :: bstring where
  "directory_separators = \<lparr>bs_buffer = \<lparr>d_block = [0x2F, 0x5C, 0], d_length = 3, d_owned = True\<rparr>, bs_cached = 0\<rparr>"

definition directory_separator :: u8 where
  "directory_separator = 0x2F"

definition extension_separator :: u32 where
  "extension_separator = 0x2E"

definition last_separator :: "bstring \<Rightarrow> nat result" where
  "last_separator s = string_last_index_of_any s directory_separators 0"

definition remove_leaf_separator :: "bstring \<Rightarrow> bstring result" where
  "remove_leaf_separator s =
     bind_r (string_get_length s) (\<lambda>(size, s1).
     if size = 0 then Inr s1
     else bind_r (last_separator s1) (\<lambda>i.
       if i = size - 1 then string_truncate s1 (size - 1) else Inr s1))"

definition npos_or_add :: "nat \<Rightarrow> nat \<Rightarrow> nat" where
  "npos_or_add num add = size_add num (if num = npos then 0 else add)"

definition file_path :: "bstring \<Rightarrow> bstring result" where
  "file_path s = remove_leaf_separator (string_copy s)"

definition path_get_directory :: "(nat \<Rightarrow> u8) \<Rightarrow> bstring \<Rightarrow> bstring result" where
  "path_get_directory g p = bind_r (last_separator p) (\<lambda>i. string_substring g p 0 i)"

definition path_get_file_name :: "(nat \<Rightarrow> u8) \<Rightarrow> bstring \<Rightarrow> bstring result" where
  "path_get_file_name g p = bind_r (last_separator p) (\<lambda>i. string_substring g p (npos_or_add i 1) npos)"

definition path_get_extension :: "(nat \<Rightarrow> u8) \<Rightarrow> bstring \<Rightarrow> bstring result" where
  "path_get_extension g p =
     bind_r (path_get_file_name g p) (\<lambda>name.
     bind_r (string_first_index_of name extension_separator 0) (\<lambda>i.
     string_substring g name (npos_or_add i 1) npos))"

definition path_get_file_name_without_extension :: "(nat \<Rightarrow> u8) \<Rightarrow> bstring \<Rightarrow> bstring result" where
  "path_get_file_name_without_extension g p =
     bind_r (path_get_file_name g p) (\<lambda>name.
     bind_r (string_first_index_of name extension_separator 0) (\<lambda>i.
     string_substring g name 0 i))"

definition path_is_rooted :: "bstring \<Rightarrow> bool result" where
  "path_is_rooted p = bind_r (string_first_index_of_any p directory_separators 0) (\<lambda>(i, p'). Inr (i = 0))"

definition path_combine :: "(nat \<Rightarrow> u8) \<Rightarrow> bstring \<Rightarrow> bstring \<Rightarrow> bstring result" where
  "path_combine g p leaf =
     bind_r (string_get_length leaf) (\<lambda>(n, leaf).
     if n = 0 then Inr (string_copy p)
     else
       bind_r (string_get_length p) (\<lambda>(m, p).
       bind_r (if m = 0 then Inr True else bind_r (file_path leaf) path_is_rooted) (\<lambda>whole.
       if whole then Inr (string_copy leaf)
       else
         bind_r (string_of_char g directory_separator 1) (\<lambda>sep.
         bind_r (string_append g p sep) (\<lambda>q. string_append g q leaf)))))"

definition path_root_path :: "(nat \<Rightarrow> u8) \<Rightarrow> bstring \<Rightarrow> bstring \<Rightarrow> bstring result" where
  "path_root_path g p root =
     bind_r (path_is_rooted p) (\<lambda>rooted.
     if rooted then Inr (string_copy p)
     else bind_r (file_path root) (\<lambda>r. path_combine g r p))"

text \<open>The dot is looked for in the whole path, the length is the name's.\<close>

definition path_has_extension :: "(nat \<Rightarrow> u8) \<Rightarrow> bstring \<Rightarrow> bool result" where
  "path_has_extension g p =
     bind_r (path_get_file_name g p) (\<lambda>name.
     bind_r (string_first_index_of p extension_separator 0) (\<lambda>index.
     if index = npos then Inr False
     else bind_r (string_get_length name) (\<lambda>(n, name). Inr (index < size_sub n 1))))"

section \<open>The separators of a path\<close>

lemma utf8_unit_separators: "utf8_unit [0x2F] 0x2F" "utf8_unit [0x5C] 0x5C"
  by (simp_all add: utf8_unit_def utf8_lead_size_def utf8_decode.simps decode_head_def)

lemma directory_separators_is: "string_is directory_separators [[0x2F], [0x5C]]"
  using utf8_unit_separators by (auto simp: string_is_def directory_separators_def utf8_units_def)

lemmas separator_chars = utf8_unit_separators [THEN unit_char_unit]

abbreviation cached_separators :: bstring where
  "cached_separators \<equiv> directory_separators\<lparr>bs_cached := length [[0x2F], [0x5C :: u8]]\<rparr>"

lemma separators_length: "string_get_length directory_separators = Inr (2, cached_separators)"
  using string_get_length_is [OF directory_separators_is] by simp

lemma separators_characters:
  "string_get_character cached_separators 0 = Inr 0x2F" "string_get_character cached_separators 1 = Inr 0x5C"
  using string_get_character_nth [OF string_is_cache [OF directory_separators_is], of 0]
    string_get_character_nth [OF string_is_cache [OF directory_separators_is], of 1]
  by (simp_all add: string_chars_def separator_chars)

definition index_or_npos :: "nat option \<Rightarrow> nat" where
  "index_or_npos p = (case p of None \<Rightarrow> npos | Some i \<Rightarrow> i)"

lemma last_index_is:
  "string_is s us \<Longrightarrow> string_last_index_of s c 0 = Inr (index_or_npos (list_last_index (string_chars us) c))"
  by (simp add: last_index_of_is index_or_npos_def split: option.split)

lemma first_index_is:
  "string_is s us \<Longrightarrow> string_first_index_of s c 0 = Inr (index_or_npos (list_first_index (string_chars us) c))"
  by (simp add: first_index_of_is index_or_npos_def split: option.split)

text \<open>The last separator that is not the first character.\<close>

lemma last_separator_is:
  assumes "string_is s us"
  shows "last_separator s =
    (let i = index_or_npos (list_last_index (string_chars us) 0x2F);
         j = index_or_npos (list_last_index (string_chars us) 0x5C);
         (m, f) = (if i \<noteq> npos \<and> i > 0 then (i, True) else (0, False));
         (m', f') = (if j \<noteq> npos \<and> j > m then (j, True) else (m, f)) in
     Inr (if f' then m' else npos))"
  using separators_characters
  by (simp add: last_separator_def string_last_index_of_any_def separators_length last_index_is [OF assms]
      upt_rec [of 0] upt_rec [of "Suc 0"] Let_def)

lemma last_separator_none:
  assumes "string_is s us" "0x2F \<notin> set (string_chars us)" "0x5C \<notin> set (string_chars us)"
  shows "last_separator s = Inr npos"
  using assms(2,3) by (simp add: last_separator_is [OF assms(1)] list_last_index_None [THEN iffD2] index_or_npos_def)

lemma list_last_index_append:
  "list_last_index (xs @ ys) x =
    (case list_last_index ys x of Some i \<Rightarrow> Some (length xs + i) | None \<Rightarrow> list_last_index xs x)"
  by (induction xs) (auto split: option.splits)

lemma last_separator_combined:
  assumes s: "string_is s us" and us: "string_chars us = xs @ 0x2F # ys" "xs \<noteq> []"
    and ys: "0x2F \<notin> set ys" "0x5C \<notin> set ys" and n: "length xs < npos"
  shows "last_separator s = Inr (length xs)"
proof -
  have "list_last_index (string_chars us) 0x2F = Some (length xs)"
    using ys by (simp add: us list_last_index_append list_last_index_None [THEN iffD2])
  moreover have "\<not> (index_or_npos (list_last_index (string_chars us) 0x5C) \<noteq> npos \<and>
      index_or_npos (list_last_index (string_chars us) 0x5C) > length xs)"
    using ys by (auto simp: us list_last_index_append list_last_index_None [THEN iffD2] index_or_npos_def
        dest!: list_last_index_Some split: option.split)
  ultimately show ?thesis using us(2) n by (simp add: last_separator_is [OF s] index_or_npos_def Let_def)
qed

lemma path_rooted_none:
  assumes s: "string_is s us" "us \<noteq> []" and n: "0x2F \<notin> set (string_chars us)" "0x5C \<notin> set (string_chars us)"
  shows "path_is_rooted s = Inr False"
proof -
  have s': "string_is (s\<lparr>bs_cached := length us\<rparr>) us" by (rule string_is_cache [OF s(1)])
  have "string_first_index_of_any s directory_separators 0 = Inr (npos, s\<lparr>bs_cached := length us\<rparr>)"
    using n separators_characters
    by (simp add: string_first_index_of_any_def separators_length string_get_length_is [OF s(1)]
        first_index_is [OF s'] upt_rec [of 0] upt_rec [of "Suc 0"] list_first_index_None [THEN iffD2] index_or_npos_def)
  then show ?thesis by (simp add: path_is_rooted_def npos_def)
qed

lemma string_copy_same [simp]: "string_copy s = s"
  by (simp add: string_copy_def)

lemma file_path_leaf:
  assumes s: "string_is s us" and n: "0x2F \<notin> set (string_chars us)" "0x5C \<notin> set (string_chars us)"
    and l: "length us < npos"
  shows "file_path s = Inr (s\<lparr>bs_cached := length us\<rparr>)"
proof -
  have "npos \<noteq> length us - 1" using l by simp
  then show ?thesis using last_separator_none [OF string_is_cache [OF s] n]
  by (simp add: file_path_def remove_leaf_separator_def string_get_length_is [OF s])
qed

lemma slash_string: "\<exists>r. string_of_char g directory_separator 1 = Inr r \<and> string_is r [[0x2F]]"
  using utf8_unit_separators(1)
  by (auto simp: string_of_char_def string_construct_fresh directory_separator_def mem_write_def string_is_def
      utf8_units_def fresh_block_def)

section \<open>Properties\<close>

text \<open>A path made with a separator at its end keeps the length it had before the separator was
  cut off, and a path below the root is not split.\<close>

lemma file_path_stale_length:
  assumes "s = \<lparr>bs_buffer = \<lparr>d_block = [0x61, 0x2F, 0], d_length = 3, d_owned = True\<rparr>, bs_cached = 0\<rparr>"
  shows "\<exists>p. file_path s = Inr p \<and> get_size p = 1 \<and> bs_cached p = 2"
proof -
  have s: "string_is s [[0x61], [0x2F]]"
    using utf8_unit_ascii utf8_unit_separators by (auto simp: string_is_def assms utf8_units_def)
  have "last_separator (s\<lparr>bs_cached := length [[0x61], [0x2F :: u8]]\<rparr>) = Inr 1"
    using last_separator_combined [OF string_is_cache [OF s], of "[0x61]" "[]"]
    by (simp add: string_chars_def separator_chars utf8_unit_ascii [THEN unit_char_unit] npos_def)
  moreover have "utf8_offset [0x61, 0x2F, 0] 1 = Inr 1"
    using utf8_offset_ascii [of "0x61" 1 "[0x2F, 0]" 0] by (simp add: utf8_offset_def utf8_offset_zero)
  ultimately show ?thesis
    using string_get_length_is [OF s]
    by (simp add: file_path_def remove_leaf_separator_def string_truncate_def string_truncate_size_def assms
        int_index_small data_set_value_def data_set_size_def poke_def get_size_def size_sub_def)
qed

lemma path_below_root_not_split:
  assumes "s = \<lparr>bs_buffer = \<lparr>d_block = [0x2F, 0x61, 0], d_length = 3, d_owned = True\<rparr>, bs_cached = 0\<rparr>"
  shows "last_separator s = Inr npos"
proof -
  have s: "string_is s [[0x2F], [0x61]]"
    using utf8_unit_ascii utf8_unit_separators by (auto simp: string_is_def assms utf8_units_def)
  show ?thesis
    by (simp add: last_separator_is [OF s] string_chars_def separator_chars utf8_unit_ascii [THEN unit_char_unit]
        index_or_npos_def)
qed

text \<open>C35: Combine and GetDirectory/GetFileName are inverse.  Combining a path that is not empty with a
  name that is not empty and holds no separator succeeds; the directory of the result is the path and
  its file name the name, byte for byte, whatever separators the path has inside.\<close>

theorem path_combine_splits:
  assumes p: "string_is p ds" "ds \<noteq> []" "0 \<notin> set (concat ds)"
    and leaf: "string_is leaf ls" "ls \<noteq> []" "0 \<notin> set (concat ls)"
    and sep: "0x2F \<notin> set (string_chars ls)" "0x5C \<notin> set (string_chars ls)"
    and size: "length (concat ds) < 2 ^ 30" "length (concat ls) < 2 ^ 30"
  shows "\<exists>r d n. path_combine g p leaf = Inr r \<and>
    path_get_directory g r = Inr d \<and> string_equal d p = Inr True \<and>
    path_get_file_name g r = Inr n \<and> string_equal n leaf = Inr True"
proof -
  have us: "utf8_units ds" "utf8_units ls" using p(1) leaf(1) by (auto simp: string_is_def)
  have len: "length ds < 2 ^ 30" "length ls < 2 ^ 30"
    using units_length_le [OF us(1)] units_length_le [OF us(2)] size by simp_all
  obtain sl where sl: "string_of_char g directory_separator 1 = Inr sl" "string_is sl [[0x2F]]"
    using slash_string by blast
  let ?p = "p\<lparr>bs_cached := length ds\<rparr>" and ?l = "leaf\<lparr>bs_cached := length ls\<rparr>"
  have p': "string_is ?p ds" and l': "string_is ?l ls" using string_is_cache p(1) leaf(1) by simp_all
  obtain q where q: "string_append g ?p sl = Inr q" "string_is q (ds @ [[0x2F]])"
    using append_is [OF p' sl(2) p(3), of g] size by (auto simp: npos_def)
  obtain r where r: "string_append g q ?l = Inr r" "string_is r ((ds @ [[0x2F]]) @ ls)"
    using append_is [OF q(2) l', of g] size p(3) by (auto simp: npos_def)
  have "file_path ?l = Inr ?l" using file_path_leaf [OF l' sep] len by (simp add: npos_def)
  moreover have "path_is_rooted ?l = Inr False" using path_rooted_none [OF l' leaf(2) sep] by simp
  ultimately have comb: "path_combine g p leaf = Inr r"
    using p(2) leaf(2) sl(1) q(1) r(1)
    by (simp add: path_combine_def string_get_length_is [OF p(1)] string_get_length_is [OF leaf(1)])
  have z: "0 \<notin> set (concat ((ds @ [[0x2F]]) @ ls))" using p(3) leaf(3) by auto
  have sz: "length (concat ((ds @ [[0x2F]]) @ ls)) < npos" using size by (simp add: npos_def)
  have "string_chars ((ds @ [[0x2F]]) @ ls) = string_chars ds @ 0x2F # string_chars ls"
    by (simp add: string_chars_def separator_chars)
  from last_separator_combined [OF r(2) this _ sep] p(2) len
  have last: "last_separator r = Inr (length ds)" by (simp add: string_chars_def npos_def)
  obtain d where d: "string_substring g r 0 (length ds) = Inr d" "string_is d ds"
    using substring_is [OF r(2) z sz, of 0 "length ds" g] len by auto
  obtain n where n: "string_substring g r (length ds + 1) npos = Inr n" "string_is n ls"
    using substring_is [OF r(2) z sz, of "length ds + 1" npos g] len sz units_length_le [OF us(2)]
    by (auto simp: npos_def)
  have "npos_or_add (length ds) 1 = length ds + 1" using len by (simp add: npos_or_add_def npos_def size_add_small)
  then show ?thesis
    using comb last d n string_equal_is [OF d(2) p(1)] string_equal_is [OF n(2) leaf(1)]
    by (simp add: path_get_directory_def path_get_file_name_def)
qed

theorem path_combine_splits_witness:
  "\<exists>r d n. path_combine (\<lambda>_. 0) abc_string abc_string = Inr r \<and>
    path_get_directory (\<lambda>_. 0) r = Inr d \<and> string_equal d abc_string = Inr True \<and>
    path_get_file_name (\<lambda>_. 0) r = Inr n \<and> string_equal n abc_string = Inr True"
  by (rule path_combine_splits [OF abc_string_is _ _ abc_string_is])
    (simp_all add: string_chars_def utf8_unit_ascii [THEN unit_char_unit])

end
