(* ===== verification/File_System.thy ===== *)
theory File_System
  imports File_Path Random_Gen
begin

text \<open>
  The filesystems of the C library and of POSIX, directory iteration and file streams
  (\<^verbatim>\<open>include/bricks/io/filesystem.h\<close>, \<^verbatim>\<open>filenode.h\<close>, \<^verbatim>\<open>filestream.h\<close>, \<^verbatim>\<open>types.h\<close>,
  \<^verbatim>\<open>source/io/filesystem.cpp\<close>).  The operating system is a parameter: the record \<open>os_calls\<close>
  gives the calls the code makes over a state \<open>'w\<close> of the world.  An operation takes the world
  and returns its result and the world after it, also when it throws.
\<close>

section \<open>Calls of the operating system\<close>

record stat_info =
  st_dev :: nat
  st_ino :: nat
  st_mode :: nat
  st_nlink :: nat
  st_uid :: nat
  st_gid :: nat
  st_rdev :: nat
  st_size :: int
  st_blksize :: int
  st_blocks :: int
  st_atime :: int
  st_mtime :: int
  st_ctime :: int

text \<open>\<^verbatim>\<open>memset\<close> of a \<^verbatim>\<open>struct stat\<close>.\<close>

definition stat_zero :: stat_info where
  "stat_zero = \<lparr>st_dev = 0, st_ino = 0, st_mode = 0, st_nlink = 0, st_uid = 0, st_gid = 0, st_rdev = 0, st_size = 0,
     st_blksize = 0, st_blocks = 0, st_atime = 0, st_mtime = 0, st_ctime = 0\<rparr>"

record dirent =
  d_type :: nat
  d_name :: bytes

type_synonym file_handle = nat

text \<open>Paths are blocks of memory with a terminator; a handle or pointer of 0 is the null pointer.\<close>

record 'w os_calls =
  os_show :: "int \<Rightarrow> string"
  os_strerror :: "int \<Rightarrow> string"
  os_errno :: "'w \<Rightarrow> int"
  os_set_errno :: "int \<Rightarrow> 'w \<Rightarrow> 'w"
  os_fopen :: "bytes \<Rightarrow> string \<Rightarrow> 'w \<Rightarrow> nat \<times> 'w"
  os_fread :: "nat \<Rightarrow> nat \<Rightarrow> 'w \<Rightarrow> bytes \<times> 'w"
  os_fwrite :: "nat \<Rightarrow> bytes \<Rightarrow> 'w \<Rightarrow> nat \<times> 'w"
  os_fseek :: "nat \<Rightarrow> int \<Rightarrow> int \<Rightarrow> 'w \<Rightarrow> int \<times> 'w"
  os_ftell :: "nat \<Rightarrow> 'w \<Rightarrow> int \<times> 'w"
  os_fclose :: "nat \<Rightarrow> 'w \<Rightarrow> int \<times> 'w"
  os_open :: "bytes \<Rightarrow> int \<Rightarrow> int \<Rightarrow> 'w \<Rightarrow> int \<times> 'w"
  os_read :: "int \<Rightarrow> nat \<Rightarrow> 'w \<Rightarrow> (int \<times> bytes) \<times> 'w"
  os_write :: "int \<Rightarrow> bytes \<Rightarrow> 'w \<Rightarrow> int \<times> 'w"
  os_lseek :: "int \<Rightarrow> int \<Rightarrow> int \<Rightarrow> 'w \<Rightarrow> int \<times> 'w"
  os_fsync :: "int \<Rightarrow> 'w \<Rightarrow> int \<times> 'w"
  os_close :: "int \<Rightarrow> 'w \<Rightarrow> int \<times> 'w"
  os_dup :: "int \<Rightarrow> 'w \<Rightarrow> int \<times> 'w"
  os_ftruncate :: "int \<Rightarrow> nat \<Rightarrow> 'w \<Rightarrow> int \<times> 'w"
  os_opendir :: "bytes \<Rightarrow> 'w \<Rightarrow> nat \<times> 'w"
  os_readdir :: "nat \<Rightarrow> 'w \<Rightarrow> dirent option \<times> 'w"
  os_telldir :: "nat \<Rightarrow> 'w \<Rightarrow> int \<times> 'w"
  os_seekdir :: "nat \<Rightarrow> nat \<Rightarrow> 'w \<Rightarrow> 'w"
  os_closedir :: "nat \<Rightarrow> 'w \<Rightarrow> int \<times> 'w"
  os_stat :: "bytes \<Rightarrow> 'w \<Rightarrow> stat_info option \<times> 'w"
  os_fstat :: "int \<Rightarrow> 'w \<Rightarrow> stat_info option \<times> 'w"
  os_getcwd :: "'w \<Rightarrow> bytes option \<times> 'w"
  os_chdir :: "bytes \<Rightarrow> 'w \<Rightarrow> int \<times> 'w"
  os_unlink :: "bytes \<Rightarrow> 'w \<Rightarrow> int \<times> 'w"
  os_rmdir :: "bytes \<Rightarrow> 'w \<Rightarrow> int \<times> 'w"
  os_mkdir :: "bytes \<Rightarrow> int \<Rightarrow> 'w \<Rightarrow> int \<times> 'w"

text \<open>Constants of the system's headers.\<close>

definition o_rdonly :: int where "o_rdonly = 0"
definition o_wronly :: int where "o_wronly = 1"
definition o_rdwr :: int where "o_rdwr = 2"
definition o_creat :: int where "o_creat = 0x40"
definition o_excl :: int where "o_excl = 0x80"
definition o_trunc :: int where "o_trunc = 0x200"
definition o_append :: int where "o_append = 0x400"
definition seek_set :: int where "seek_set = 0"
definition seek_cur :: int where "seek_cur = 1"

section \<open>Modes and types\<close>

datatype file_mode = ReadOnly | WriteOnly | ReadWrite

fun file_mode_flag :: "file_mode \<Rightarrow> int" where
  "file_mode_flag ReadOnly = o_rdonly"
| "file_mode_flag WriteOnly = o_wronly"
| "file_mode_flag ReadWrite = o_rdwr"

datatype open_mode = Open | Create | CreateNew | Append | Truncate

fun open_mode_flag :: "open_mode \<Rightarrow> int" where
  "open_mode_flag Open = 0"
| "open_mode_flag Create = o_creat OR o_trunc"
| "open_mode_flag CreateNew = o_creat OR o_excl"
| "open_mode_flag Append = o_append"
| "open_mode_flag Truncate = o_trunc"

datatype file_type = UnknownFile | RegularFile | Directory | BlockDevice | CharacterDevice | FIFO | SymbolicLink | Socket

text \<open>The masks of \<^verbatim>\<open>S_ISREG\<close> and the others, and the values of \<^verbatim>\<open>DT_REG\<close> and the others.\<close>

definition file_stat_type :: "nat \<Rightarrow> file_type" where
  "file_stat_type mode =
     (let t = mode AND 0xF000 in
      if t = 0x8000 then RegularFile else if t = 0x4000 then Directory
      else if t = 0x2000 then CharacterDevice else if t = 0x6000 then BlockDevice
      else if t = 0x1000 then FIFO else if t = 0xA000 then SymbolicLink
      else if t = 0xC000 then Socket else UnknownFile)"

definition get_dir_type :: "nat \<Rightarrow> file_type" where
  "get_dir_type t =
     (if t = 8 then RegularFile else if t = 4 then Directory else if t = 2 then CharacterDevice
      else if t = 6 then BlockDevice else if t = 1 then FIFO else if t = 10 then SymbolicLink
      else if t = 12 then Socket else UnknownFile)"

section \<open>Operations on the world\<close>

text \<open>\<^verbatim>\<open>ThrowErrno\<close>, which returns when \<^verbatim>\<open>errno\<close> is 0, and a call that is checked with it.\<close>

definition os_throw :: "'w os_calls \<Rightarrow> 'w \<Rightarrow> unit result" where
  "os_throw os w = throw_errno (os_show os) (os_strerror os) (os_errno os w)"

definition char_of_u8 :: "u8 \<Rightarrow> char" where
  "char_of_u8 b = char_of (unat b)"

definition path_text :: "bstring \<Rightarrow> string" where
  "path_text path = map char_of_u8 (take (get_size path) (c_string path))"

definition os_throw_path :: "'w os_calls \<Rightarrow> bstring \<Rightarrow> 'w \<Rightarrow> unit result" where
  "os_throw_path os path w = throw_errno_message (os_show os) (os_strerror os)
     (path_text path) (os_errno os w)"

definition os_check :: "('w \<Rightarrow> unit result) \<Rightarrow> ('r \<Rightarrow> bool) \<Rightarrow> ('r \<Rightarrow> 'a) \<Rightarrow> 'r \<times> 'w \<Rightarrow> 'a result \<times> 'w" where
  "os_check raise bad val rw =
     (case rw of (r, w) \<Rightarrow> (if bad r then bind_r (raise w) (\<lambda>_. Inr (val r)) else Inr (val r), w))"

definition handle_fd :: "file_handle \<Rightarrow> int" where
  "handle_fd h = s32 (int h)"

section \<open>The filesystem of the C library\<close>

definition c89_mode :: "open_mode \<Rightarrow> file_mode \<Rightarrow> string result" where
  "c89_mode createmode mode =
     (case createmode of
        Open \<Rightarrow> Inr (if mode = ReadOnly then ''rb'' else ''r+b'')
      | Create \<Rightarrow> (if mode = ReadOnly then throw (InvalidArgumentException ''mode'') else Inr ''w+b'')
      | CreateNew \<Rightarrow> (if mode = ReadOnly then throw (InvalidArgumentException ''mode'') else Inr ''w+b'')
      | Append \<Rightarrow> (if mode = ReadOnly then throw (InvalidArgumentException ''mode'') else Inr ''a+b'')
      | Truncate \<Rightarrow> (if mode = ReadOnly then throw (InvalidArgumentException ''mode'') else Inr ''w+b''))"

definition c89_open :: "'w os_calls \<Rightarrow> bstring \<Rightarrow> open_mode \<Rightarrow> file_mode \<Rightarrow> ('w, file_handle) io" where
  "c89_open os path createmode mode =
     bind_w (return_w (c89_mode createmode mode)) (\<lambda>cmode w.
     os_check (os_throw os) (\<lambda>r. r = 0) id (os_fopen os (c_string path) cmode w))"

definition c89_read :: "'w os_calls \<Rightarrow> file_handle \<Rightarrow> nat \<Rightarrow> ('w, bytes) io" where
  "c89_read os fd n w = os_check (os_throw os) (\<lambda>data. length data < n) id (os_fread os fd n w)"

definition c89_write :: "'w os_calls \<Rightarrow> file_handle \<Rightarrow> bytes \<Rightarrow> ('w, nat) io" where
  "c89_write os fd buffer w = os_check (os_throw os) (\<lambda>n. n < length buffer) id (os_fwrite os fd buffer w)"

definition c89_flush :: "file_handle \<Rightarrow> ('w, unit) io" where
  "c89_flush fd = return_w (throw (NotImplementedException ''''))"

definition c89_seek :: "'w os_calls \<Rightarrow> file_handle \<Rightarrow> int \<Rightarrow> int \<Rightarrow> ('w, unit) io" where
  "c89_seek os fd offset whence w = os_check (os_throw os) (\<lambda>r. r \<noteq> 0) (\<lambda>_. ()) (os_fseek os fd offset whence w)"

definition c89_tell :: "'w os_calls \<Rightarrow> file_handle \<Rightarrow> ('w, nat) io" where
  "c89_tell os fd w = os_check (os_throw os) (\<lambda>r. r < 0) u64_of (os_ftell os fd w)"

definition c89_close :: "'w os_calls \<Rightarrow> file_handle \<Rightarrow> ('w, unit) io" where
  "c89_close os fd w = os_check (os_throw os) (\<lambda>r. r \<noteq> 0) (\<lambda>_. ()) (os_fclose os fd w)"

definition c89_truncate :: "file_handle \<Rightarrow> nat \<Rightarrow> ('w, unit) io" where
  "c89_truncate fd len = return_w (throw (NotImplementedException ''''))"

section \<open>The POSIX filesystem\<close>

definition posix_open :: "'w os_calls \<Rightarrow> bstring \<Rightarrow> open_mode \<Rightarrow> file_mode \<Rightarrow> int \<Rightarrow> ('w, file_handle) io" where
  "posix_open os path createmode mode permissions w =
     os_check (os_throw_path os path) (\<lambda>r. r < 0) u64_of
       (os_open os (c_string path) (open_mode_flag createmode OR file_mode_flag mode) permissions w)"

definition posix_read :: "'w os_calls \<Rightarrow> file_handle \<Rightarrow> nat \<Rightarrow> ('w, nat \<times> bytes) io" where
  "posix_read os fd n w =
     os_check (os_throw os) (\<lambda>(r, data). r < 0) (\<lambda>(r, data). (u64_of r, data)) (os_read os (handle_fd fd) n w)"

definition posix_write :: "'w os_calls \<Rightarrow> file_handle \<Rightarrow> bytes \<Rightarrow> ('w, nat) io" where
  "posix_write os fd buffer w = os_check (os_throw os) (\<lambda>r. r < 0) u64_of (os_write os (handle_fd fd) buffer w)"

definition posix_seek :: "'w os_calls \<Rightarrow> file_handle \<Rightarrow> int \<Rightarrow> int \<Rightarrow> ('w, unit) io" where
  "posix_seek os fd offset whence w =
     os_check (os_throw os) (\<lambda>r. r = - 1) (\<lambda>_. ()) (os_lseek os (handle_fd fd) offset whence w)"

definition posix_tell :: "'w os_calls \<Rightarrow> file_handle \<Rightarrow> ('w, nat) io" where
  "posix_tell os fd w = os_check (os_throw os) (\<lambda>r. r = - 1) u64_of (os_lseek os (handle_fd fd) 0 seek_cur w)"

definition posix_flush :: "'w os_calls \<Rightarrow> file_handle \<Rightarrow> ('w, unit) io" where
  "posix_flush os fd w = os_check (os_throw os) (\<lambda>r. r \<noteq> 0) (\<lambda>_. ()) (os_fsync os (handle_fd fd) w)"

definition posix_close :: "'w os_calls \<Rightarrow> file_handle \<Rightarrow> ('w, unit) io" where
  "posix_close os fd w = os_check (os_throw os) (\<lambda>r. r \<noteq> 0) (\<lambda>_. ()) (os_close os (handle_fd fd) w)"

definition posix_duplicate :: "'w os_calls \<Rightarrow> file_handle \<Rightarrow> ('w, file_handle) io" where
  "posix_duplicate os fd w = os_check (os_throw os) (\<lambda>r. r < 0) u64_of (os_dup os (handle_fd fd) w)"

definition posix_truncate :: "'w os_calls \<Rightarrow> file_handle \<Rightarrow> nat \<Rightarrow> ('w, unit) io" where
  "posix_truncate os fd len w = os_check (os_throw os) (\<lambda>r. r \<noteq> 0) (\<lambda>_. ()) (os_ftruncate os (handle_fd fd) len w)"

definition posix_open_directory :: "'w os_calls \<Rightarrow> bstring \<Rightarrow> ('w, file_handle) io" where
  "posix_open_directory os path w =
     os_check (os_throw_path os path) (\<lambda>r. r = 0) id (os_opendir os (c_string path) w)"

definition posix_tell_directory :: "'w os_calls \<Rightarrow> file_handle \<Rightarrow> ('w, nat) io" where
  "posix_tell_directory os fd w = os_check (os_throw os) (\<lambda>r. r < 0) u64_of (os_telldir os fd w)"

definition posix_seek_directory :: "'w os_calls \<Rightarrow> file_handle \<Rightarrow> nat \<Rightarrow> ('w, unit) io" where
  "posix_seek_directory os fd offset w = (Inr (), os_seekdir os fd offset w)"

definition posix_close_directory :: "'w os_calls \<Rightarrow> file_handle \<Rightarrow> ('w, unit) io" where
  "posix_close_directory os fd w = os_check (os_throw os) (\<lambda>r. r \<noteq> 0) (\<lambda>_. ()) (os_closedir os fd w)"

text \<open>\<^verbatim>\<open>getcwd\<close> fails by a null pointer; the buffer is not initialised, so a failure with an
  \<^verbatim>\<open>errno\<close> of 0 is undefined.\<close>

definition posix_get_current_directory :: "(nat \<Rightarrow> u8) \<Rightarrow> 'w os_calls \<Rightarrow> ('w, bstring) io" where
  "posix_get_current_directory g os w =
     (case os_getcwd os w of (r, w') \<Rightarrow>
        (case r of None \<Rightarrow> (bind_r (os_throw os w') (\<lambda>_. Inl Undefined), w')
         | Some buffer \<Rightarrow> (string_of_cstr g buffer npos, w')))"

definition posix_change_current_directory :: "'w os_calls \<Rightarrow> bstring \<Rightarrow> ('w, unit) io" where
  "posix_change_current_directory os path w =
     os_check (os_throw_path os path) (\<lambda>r. r \<noteq> 0) (\<lambda>_. ()) (os_chdir os (c_string path) w)"

record file_info =
  fi_stat :: stat_info
  fi_path :: bstring

definition posix_stat :: "(nat \<Rightarrow> u8) \<Rightarrow> 'w os_calls \<Rightarrow> bstring \<Rightarrow> ('w, file_info) io" where
  "posix_stat g os path w =
     (case os_stat os (c_string path) w of (r, w') \<Rightarrow>
        (case r of None \<Rightarrow> (bind_r (os_throw_path os path w') (\<lambda>_. Inl Undefined), w')
         | Some st \<Rightarrow>
             bind_w (posix_get_current_directory g os) (\<lambda>cwd.
             return_w (bind_r (file_path path) (\<lambda>p.
               bind_r (path_root_path g p cwd) (\<lambda>p'.
               bind_r (file_path p') (\<lambda>p''. Inr \<lparr>fi_stat = st, fi_path = p''\<rparr>))))) w'))"

definition empty_path :: bstring where
  "empty_path = \<lparr>bs_buffer = \<lparr>d_block = [0], d_length = 1, d_owned = True\<rparr>, bs_cached = 0\<rparr>"

definition posix_file_stat :: "'w os_calls \<Rightarrow> file_handle \<Rightarrow> ('w, file_info) io" where
  "posix_file_stat os fd w =
     (case os_fstat os (handle_fd fd) w of (r, w') \<Rightarrow>
        (case r of None \<Rightarrow> (bind_r (os_throw os w') (\<lambda>_. Inl Undefined), w')
         | Some st \<Rightarrow> (Inr \<lparr>fi_stat = st, fi_path = empty_path\<rparr>, w')))"

definition posix_is_file :: "'w os_calls \<Rightarrow> bstring \<Rightarrow> ('w, bool) io" where
  "posix_is_file os path w =
     (case os_stat os (c_string path) w of (r, w') \<Rightarrow>
        (Inr (case r of None \<Rightarrow> False | Some st \<Rightarrow> file_stat_type (st_mode st) = RegularFile), w'))"

definition posix_is_directory :: "'w os_calls \<Rightarrow> bstring \<Rightarrow> ('w, bool) io" where
  "posix_is_directory os path w =
     (case os_stat os (c_string path) w of (r, w') \<Rightarrow>
        (Inr (case r of None \<Rightarrow> False | Some st \<Rightarrow> file_stat_type (st_mode st) = Directory), w'))"

definition posix_exists :: "'w os_calls \<Rightarrow> bstring \<Rightarrow> ('w, bool) io" where
  "posix_exists os path w = (case os_stat os (c_string path) w of (r, w') \<Rightarrow> (Inr (r \<noteq> None), w'))"

definition posix_delete_file :: "'w os_calls \<Rightarrow> bstring \<Rightarrow> ('w, unit) io" where
  "posix_delete_file os path w =
     os_check (os_throw_path os path) (\<lambda>r. r \<noteq> 0) (\<lambda>_. ()) (os_unlink os (c_string path) w)"

definition posix_create_file :: "'w os_calls \<Rightarrow> bstring \<Rightarrow> int \<Rightarrow> ('w, unit) io" where
  "posix_create_file os path permissions w =
     (case os_open os (c_string path) o_creat permissions w of (fd, w') \<Rightarrow>
        if fd < 0 then (os_throw_path os path w', w')
        else (Inr (), snd (os_close os fd w')))"

definition posix_create_directory :: "'w os_calls \<Rightarrow> bstring \<Rightarrow> int \<Rightarrow> ('w, unit) io" where
  "posix_create_directory os path permissions w =
     os_check (os_throw_path os path) (\<lambda>r. r \<noteq> 0) (\<lambda>_. ()) (os_mkdir os (c_string path) permissions w)"

text \<open>The accessors of \<^verbatim>\<open>FileInfo\<close>, on a system with all of the fields.\<close>

definition info_get_device_id :: "file_info \<Rightarrow> nat" where "info_get_device_id i = st_dev (fi_stat i)"
definition info_get_inode :: "file_info \<Rightarrow> nat" where "info_get_inode i = st_ino (fi_stat i)"
definition info_get_link_count :: "file_info \<Rightarrow> nat" where "info_get_link_count i = st_nlink (fi_stat i)"
definition info_get_user_id :: "file_info \<Rightarrow> nat" where "info_get_user_id i = st_uid (fi_stat i)"
definition info_get_group_id :: "file_info \<Rightarrow> nat" where "info_get_group_id i = st_gid (fi_stat i)"
definition info_get_special_device_id :: "file_info \<Rightarrow> nat" where "info_get_special_device_id i = st_rdev (fi_stat i)"
definition info_get_size :: "file_info \<Rightarrow> int" where "info_get_size i = st_size (fi_stat i)"
definition info_get_access_time :: "file_info \<Rightarrow> int" where "info_get_access_time i = st_atime (fi_stat i)"
definition info_get_modified_time :: "file_info \<Rightarrow> int" where "info_get_modified_time i = st_mtime (fi_stat i)"
definition info_get_change_time :: "file_info \<Rightarrow> int" where "info_get_change_time i = st_ctime (fi_stat i)"
definition info_get_block_size :: "file_info \<Rightarrow> int" where "info_get_block_size i = st_blksize (fi_stat i)"
definition info_get_block_count :: "file_info \<Rightarrow> int" where "info_get_block_count i = st_blocks (fi_stat i)"

definition info_get_file_type :: "file_info \<Rightarrow> file_type" where
  "info_get_file_type i = file_stat_type (st_mode (fi_stat i))"

definition info_get_parent :: "(nat \<Rightarrow> u8) \<Rightarrow> 'w os_calls \<Rightarrow> file_info \<Rightarrow> ('w, file_info) io" where
  "info_get_parent g os i =
     bind_w (return_w (path_get_directory g (fi_path i))) (\<lambda>d. posix_stat g os d)"

text \<open>\<^verbatim>\<open>Filesystem::GetDefault\<close> makes a filesystem of the POSIX calls when none was set; the
  argument is the static pointer, \<open>posix\<close> the new object.\<close>

definition filesystem_set_default :: "'fs option \<Rightarrow> 'fs option \<Rightarrow> 'fs option" where
  "filesystem_set_default filesystem current = filesystem"

definition filesystem_get_default :: "'fs \<Rightarrow> 'fs option \<Rightarrow> 'fs \<times> 'fs option" where
  "filesystem_get_default posix current =
     (case current of None \<Rightarrow> (posix, Some posix) | Some fs \<Rightarrow> (fs, current))"

lemma filesystem_default_kept:
  "filesystem_get_default posix current = (fs, c') \<Longrightarrow> filesystem_get_default posix' c' = (fs, c')"
  by (auto simp: filesystem_get_default_def split: option.splits)

section \<open>Nodes and directories\<close>

record fs_node =
  fn_type :: file_type
  fn_path :: bstring
  fn_size :: nat

definition node_of_info :: "file_info \<Rightarrow> fs_node" where
  "node_of_info i = \<lparr>fn_type = file_stat_type (st_mode (fi_stat i)), fn_path = fi_path i,
     fn_size = u64_of (st_size (fi_stat i))\<rparr>"

definition node_of_dirent :: "(nat \<Rightarrow> u8) \<Rightarrow> dirent \<Rightarrow> fs_node result" where
  "node_of_dirent g d =
     bind_r (string_of_cstr g (d_name d) npos) (\<lambda>s.
     bind_r (file_path s) (\<lambda>p. Inr \<lparr>fn_type = get_dir_type (d_type d), fn_path = p, fn_size = npos\<rparr>))"

definition node_of_path :: "(nat \<Rightarrow> u8) \<Rightarrow> 'w os_calls \<Rightarrow> bstring \<Rightarrow> ('w, fs_node) io" where
  "node_of_path g os path =
     bind_w (posix_exists os path) (\<lambda>found.
     if found then bind_w (posix_stat g os path) (\<lambda>i. return_w (Inr (node_of_info i)))
     else return_w (bind_r (file_path path) (\<lambda>p. Inr \<lparr>fn_type = UnknownFile, fn_path = p, fn_size = npos\<rparr>)))"

definition node_get_size :: "fs_node \<Rightarrow> nat result" where
  "node_get_size n =
     (if fn_type n = RegularFile \<and> fn_size n \<noteq> npos then Inr (fn_size n) else throw (NotSupportedException ''''))"

definition node_get_full_path :: "(nat \<Rightarrow> u8) \<Rightarrow> 'w os_calls \<Rightarrow> fs_node \<Rightarrow> ('w, bstring) io" where
  "node_get_full_path g os n =
     bind_w (return_w (path_is_rooted (fn_path n))) (\<lambda>rooted.
     if rooted then return_w (Inr (fn_path n))
     else bind_w (posix_get_current_directory g os) (\<lambda>cwd. return_w (path_root_path g (fn_path n) cwd)))"

definition node_get_parent :: "(nat \<Rightarrow> u8) \<Rightarrow> 'w os_calls \<Rightarrow> fs_node \<Rightarrow> ('w, fs_node) io" where
  "node_get_parent g os n =
     bind_w (node_get_full_path g os n) (\<lambda>full.
     bind_w (return_w (bind_r (file_path full) (path_get_directory g))) (node_of_path g os))"

definition node_get_leaf :: "(nat \<Rightarrow> u8) \<Rightarrow> 'w os_calls \<Rightarrow> fs_node \<Rightarrow> bstring \<Rightarrow> ('w, fs_node) io" where
  "node_get_leaf g os n path =
     bind_w (return_w (bind_r (file_path (fn_path n)) (\<lambda>p. path_combine g p path))) (node_of_path g os)"

definition node_create_file :: "'w os_calls \<Rightarrow> fs_node \<Rightarrow> int \<Rightarrow> ('w, unit) io" where
  "node_create_file os n permissions = posix_create_file os (fn_path n) permissions"

definition node_create_directory :: "'w os_calls \<Rightarrow> fs_node \<Rightarrow> int \<Rightarrow> ('w, unit) io" where
  "node_create_directory os n permissions = posix_create_directory os (fn_path n) permissions"

definition node_exists :: "'w os_calls \<Rightarrow> fs_node \<Rightarrow> ('w, bool) io" where
  "node_exists os n = posix_exists os (fn_path n)"

definition node_get_name :: "(nat \<Rightarrow> u8) \<Rightarrow> fs_node \<Rightarrow> bstring result" where
  "node_get_name g n = path_get_file_name g (fn_path n)"

text \<open>\<^verbatim>\<open>ReadDirectory\<close> skips the entries for the directory itself and its parent.\<close>

definition cstr_name :: "bytes \<Rightarrow> bytes" where
  "cstr_name m = takeWhile (\<lambda>b. b \<noteq> 0) m"

definition dot_entry :: "dirent \<Rightarrow> bool" where
  "dot_entry d \<longleftrightarrow> cstr_name (d_name d) = [0x2E] \<or> cstr_name (d_name d) = [0x2E, 0x2E]"

partial_function (option) read_directory ::
    "(nat \<Rightarrow> u8) \<Rightarrow> 'w os_calls \<Rightarrow> file_handle \<Rightarrow> 'w \<Rightarrow> (fs_node option result \<times> 'w) option" where
  "read_directory g os fd w =
     (case os_readdir os fd (os_set_errno os 0 w) of (d, w1) \<Rightarrow>
        (case d of
           None \<Rightarrow> Some (bind_r (os_throw os w1) (\<lambda>_. Inr None), w1)
         | Some e \<Rightarrow>
             if dot_entry e then read_directory g os fd w1
             else Some (bind_r (node_of_dirent g e) (\<lambda>n. Inr (Some n)), w1)))"

text \<open>\<^verbatim>\<open>DeleteDirectory\<close> and its loop over the entries, with fuel for the entries and the nesting.
  The iterator's destructor closes the directory, also when the loop is left by an exception.\<close>

fun delete_directory ::
    "nat \<Rightarrow> (nat \<Rightarrow> u8) \<Rightarrow> 'w os_calls \<Rightarrow> bstring \<Rightarrow> bool \<Rightarrow> 'w \<Rightarrow> (unit result \<times> 'w) option"
  and delete_entries ::
    "nat \<Rightarrow> (nat \<Rightarrow> u8) \<Rightarrow> 'w os_calls \<Rightarrow> bstring \<Rightarrow> file_handle \<Rightarrow> 'w \<Rightarrow> (unit result \<times> 'w) option" where
  "delete_directory 0 g os path recursive w = None"
| "delete_directory (Suc fuel) g os path recursive w =
     (case (if recursive then
              (case bind_w (node_of_path g os path) (\<lambda>n. posix_open_directory os (fn_path n)) w of
                 (Inl e, w1) \<Rightarrow> Some (Inl e, w1)
               | (Inr dir, w1) \<Rightarrow>
                   (case delete_entries fuel g os path dir w1 of
                      None \<Rightarrow> None
                    | Some (Inl e, w2) \<Rightarrow> Some (Inl e, snd (os_closedir os dir w2))
                    | Some (Inr u, w2) \<Rightarrow> Some (posix_close_directory os dir w2)))
            else Some (Inr (), w)) of
        None \<Rightarrow> None
      | Some (Inl e, w3) \<Rightarrow> Some (Inl e, w3)
      | Some (Inr u, w3) \<Rightarrow>
          Some (os_check (os_throw_path os path) (\<lambda>r. r \<noteq> 0) (\<lambda>_. ()) (os_rmdir os (c_string path) w3)))"
| "delete_entries 0 g os path dir w = None"
| "delete_entries (Suc fuel) g os path dir w =
     (case read_directory g os dir w of
        None \<Rightarrow> None
      | Some (Inl e, w1) \<Rightarrow> Some (Inl e, w1)
      | Some (Inr None, w1) \<Rightarrow> Some (Inr (), w1)
      | Some (Inr (Some n), w1) \<Rightarrow>
          (case (if fn_type n = Directory then
                   (case node_get_full_path g os n w1 of
                      (Inl e, w2) \<Rightarrow> Some (Inl e, w2)
                    | (Inr full, w2) \<Rightarrow> delete_directory fuel g os full True w2)
                 else Some (posix_delete_file os path w1)) of
             None \<Rightarrow> None
           | Some (Inl e, w2) \<Rightarrow> Some (Inl e, w2)
           | Some (Inr u, w2) \<Rightarrow> delete_entries fuel g os path dir w2))"

section \<open>The iterator of a directory\<close>

record node_iterator =
  ni_dir :: file_handle
  ni_current :: "fs_node option"

definition node_iterator_new :: "'w os_calls \<Rightarrow> fs_node \<Rightarrow> ('w, node_iterator) io" where
  "node_iterator_new os n =
     bind_w (posix_open_directory os (fn_path n)) (\<lambda>dir. return_w (Inr \<lparr>ni_dir = dir, ni_current = None\<rparr>))"

definition node_get_current :: "node_iterator \<Rightarrow> fs_node result" where
  "node_get_current it =
     (case ni_current it of None \<Rightarrow> throw (InvalidIteratorException '''') | Some n \<Rightarrow> Inr n)"

definition node_move_next ::
    "(nat \<Rightarrow> u8) \<Rightarrow> 'w os_calls \<Rightarrow> node_iterator \<Rightarrow> 'w \<Rightarrow> ((bool \<times> node_iterator) result \<times> 'w) option" where
  "node_move_next g os it w =
     map_option (\<lambda>(r, w'). (bind_r r (\<lambda>c. Inr (c \<noteq> None, it\<lparr>ni_current := c\<rparr>)), w'))
       (read_directory g os (ni_dir it) w)"

section \<open>File streams\<close>

record file_stream =
  fs_handle :: file_handle
  fs_path :: bstring

text \<open>The permissions are not passed on; \<^verbatim>\<open>Open\<close> is called with its default.\<close>

definition owner_read_write :: int where
  "owner_read_write = 0x180"

definition file_stream_open ::
    "'w os_calls \<Rightarrow> bstring \<Rightarrow> open_mode \<Rightarrow> file_mode \<Rightarrow> int \<Rightarrow> ('w, file_stream) io" where
  "file_stream_open os path createmode mode permissions =
     bind_w (posix_open os path createmode mode owner_read_write) (\<lambda>h.
     return_w (Inr \<lparr>fs_handle = h, fs_path = string_copy path\<rparr>))"

definition file_stream_of_handle :: "'w os_calls \<Rightarrow> file_handle \<Rightarrow> ('w, file_stream) io" where
  "file_stream_of_handle os h =
     bind_w (posix_duplicate os h) (\<lambda>h'. return_w (Inr \<lparr>fs_handle = h', fs_path = empty_path\<rparr>))"

definition file_stream_destroy :: "'w os_calls \<Rightarrow> file_stream \<Rightarrow> ('w, unit) io" where
  "file_stream_destroy os f = posix_close os (fs_handle f)"

definition file_stream_read :: "'w os_calls \<Rightarrow> file_stream \<Rightarrow> nat \<Rightarrow> ('w, nat \<times> bytes) io" where
  "file_stream_read os f = posix_read os (fs_handle f)"

definition file_stream_write :: "'w os_calls \<Rightarrow> file_stream \<Rightarrow> bytes \<Rightarrow> ('w, nat) io" where
  "file_stream_write os f = posix_write os (fs_handle f)"

definition file_stream_get_length :: "'w os_calls \<Rightarrow> file_stream \<Rightarrow> ('w, nat) io" where
  "file_stream_get_length os f =
     bind_w (posix_file_stat os (fs_handle f)) (\<lambda>i. return_w (Inr (u64_of (st_size (fi_stat i)))))"

definition file_stream_set_length :: "'w os_calls \<Rightarrow> file_stream \<Rightarrow> nat \<Rightarrow> ('w, unit) io" where
  "file_stream_set_length os f = posix_truncate os (fs_handle f)"

definition file_stream_get_position :: "'w os_calls \<Rightarrow> file_stream \<Rightarrow> ('w, nat) io" where
  "file_stream_get_position os f = posix_tell os (fs_handle f)"

definition file_stream_set_position :: "'w os_calls \<Rightarrow> file_stream \<Rightarrow> nat \<Rightarrow> ('w, unit) io" where
  "file_stream_set_position os f p = posix_seek os (fs_handle f) (s64 (int p)) seek_set"

definition file_stream_flush :: "'w os_calls \<Rightarrow> file_stream \<Rightarrow> ('w, unit) io" where
  "file_stream_flush os f = posix_flush os (fs_handle f)"

definition node_open_stream ::
    "'w os_calls \<Rightarrow> fs_node \<Rightarrow> open_mode \<Rightarrow> file_mode \<Rightarrow> int \<Rightarrow> ('w, file_stream) io" where
  "node_open_stream os n = file_stream_open os (fn_path n)"

section \<open>Reading a directory\<close>

text \<open>A directory handle of the system delivers its entries one by one, then the end with
  \<^verbatim>\<open>errno\<close> as it was.\<close>

definition delivers :: "'w os_calls \<Rightarrow> file_handle \<Rightarrow> ('w \<Rightarrow> dirent list) \<Rightarrow> bool" where
  "delivers os fd entries \<longleftrightarrow> (\<forall>w. \<exists>w'. os_readdir os fd (os_set_errno os 0 w) =
       ((case entries w of [] \<Rightarrow> None | e # es \<Rightarrow> Some e), w') \<and>
     entries w' = tl (entries w) \<and> os_errno os w' = 0)"

lemma read_directory_next:
  assumes d: "delivers os fd entries"
  shows "\<exists>w'. read_directory g os fd w =
      Some (case dropWhile dot_entry (entries w) of [] \<Rightarrow> Inr None
        | e # es \<Rightarrow> bind_r (node_of_dirent g e) (\<lambda>n. Inr (Some n)), w') \<and>
    entries w' = tl (dropWhile dot_entry (entries w))"
proof (induction "entries w" arbitrary: w)
  case Nil
  obtain w' where "os_readdir os fd (os_set_errno os 0 w) = (None, w')" "entries w' = []" "os_errno os w' = 0"
    using d [unfolded delivers_def, rule_format, of w] Nil by auto
  then show ?case using Nil by (subst read_directory.simps) (simp add: os_throw_def throw_errno_def)
next
  case (Cons e es)
  obtain w1 where w1: "os_readdir os fd (os_set_errno os 0 w) = (Some e, w1)" "entries w1 = es"
    using d [unfolded delivers_def, rule_format, of w] Cons.hyps(2) [symmetric] by auto
  show ?case
  proof (cases "dot_entry e")
    case True
    then have "read_directory g os fd w = read_directory g os fd w1"
      using w1 by (subst read_directory.simps) simp
    then show ?thesis using Cons.hyps(1) [of w1] w1(2) Cons.hyps(2) [symmetric] True by simp
  next
    case False
    then show ?thesis using w1 Cons.hyps(2) [symmetric] by (subst read_directory.simps) simp
  qed
qed

text \<open>The iterator until its end.\<close>

fun iterate_nodes ::
    "nat \<Rightarrow> (nat \<Rightarrow> u8) \<Rightarrow> 'w os_calls \<Rightarrow> node_iterator \<Rightarrow> fs_node list \<Rightarrow> 'w \<Rightarrow> (fs_node list result \<times> 'w) option" where
  "iterate_nodes 0 g os it ns w = None"
| "iterate_nodes (Suc fuel) g os it ns w =
     (case node_move_next g os it w of
        None \<Rightarrow> None
      | Some (Inl e, w') \<Rightarrow> Some (Inl e, w')
      | Some (Inr (found, it'), w') \<Rightarrow>
          (if found then
             (case node_get_current it' of Inl e \<Rightarrow> Some (Inl e, w')
              | Inr n \<Rightarrow> iterate_nodes fuel g os it' (ns @ [n]) w')
           else Some (Inr ns, w')))"

fun nodes_of :: "(nat \<Rightarrow> u8) \<Rightarrow> dirent list \<Rightarrow> fs_node list result" where
  "nodes_of g [] = Inr []"
| "nodes_of g (e # es) = bind_r (node_of_dirent g e) (\<lambda>n. bind_r (nodes_of g es) (\<lambda>ns. Inr (n # ns)))"

lemma filter_dropWhile_dots: "filter (\<lambda>e. \<not> P e) (dropWhile P xs) = filter (\<lambda>e. \<not> P e) xs"
  by (induction xs) auto

lemma iterate_nodes_all:
  assumes d: "delivers os (ni_dir it) entries"
    and "nodes_of g (filter (\<lambda>e. \<not> dot_entry e) (entries w)) = Inr ns"
    and "length (entries w) < fuel"
  shows "\<exists>w'. iterate_nodes fuel g os it acc w = Some (Inr (acc @ ns), w') \<and> entries w' = []"
  using assms
proof (induction fuel arbitrary: it acc w ns)
  case (Suc fuel)
  obtain w1 where w1: "read_directory g os (ni_dir it) w =
      Some (case dropWhile dot_entry (entries w) of [] \<Rightarrow> Inr None
        | e # es \<Rightarrow> bind_r (node_of_dirent g e) (\<lambda>n. Inr (Some n)), w1)"
    "entries w1 = tl (dropWhile dot_entry (entries w))"
    using read_directory_next [OF Suc.prems(1), of g w] by blast
  have f: "filter (\<lambda>e. \<not> dot_entry e) (dropWhile dot_entry (entries w)) = filter (\<lambda>e. \<not> dot_entry e) (entries w)"
    by (rule filter_dropWhile_dots)
  show ?case
  proof (cases "dropWhile dot_entry (entries w)")
    case Nil
    then have "ns = []" using f Suc.prems(2) by simp
    then show ?thesis using w1 Nil by (simp add: node_move_next_def)
  next
    case (Cons e es)
    then have e: "\<not> dot_entry e" by (metis hd_dropWhile list.distinct(1) list.sel(1))
    have "filter (\<lambda>e. \<not> dot_entry e) (entries w) = e # filter (\<lambda>e. \<not> dot_entry e) es"
      using f Cons e by simp
    then obtain n ms where n: "node_of_dirent g e = Inr n"
      "nodes_of g (filter (\<lambda>e. \<not> dot_entry e) es) = Inr ms" "ns = n # ms"
      using Suc.prems(2) by (auto simp: bind_r_Inr_iff)
    have "length es < fuel"
      using Suc.prems(3) length_dropWhile_le [of dot_entry "entries w"] by (simp add: Cons)
    then obtain w2 where "iterate_nodes fuel g os (it\<lparr>ni_current := Some n\<rparr>) (acc @ [n]) w1 = Some (Inr ((acc @ [n]) @ ms), w2)"
      "entries w2 = []"
      using Suc.IH [of "it\<lparr>ni_current := Some n\<rparr>" w1 ms "acc @ [n]"] Suc.prems(1) w1(2) n(2) by (auto simp: Cons)
    then show ?thesis using w1(1) n by (simp add: Cons node_move_next_def node_get_current_def)
  qed
qed simp

section \<open>Properties\<close>

text \<open>C36: Iterating over a directory ends and visits exactly its entries.  For a directory handle that
  delivers a finite list of entries, the iterator of the node moves through the nodes of all
  entries but those for the directory itself and its parent, in order and each once, and then
  reports the end; getting the current node never throws on the way.\<close>

theorem directory_iteration_complete:
  assumes "delivers os dir entries" and "os_opendir os (c_string (fn_path n)) w = (dir, w1)" and "dir \<noteq> 0"
    and "nodes_of g (filter (\<lambda>e. \<not> dot_entry e) (entries w1)) = Inr ns"
    and "length (entries w1) < fuel"
  shows "\<exists>it w2. node_iterator_new os n w = (Inr it, w1) \<and>
    iterate_nodes fuel g os it [] w1 = Some (Inr ns, w2) \<and> entries w2 = []"
proof -
  have "node_iterator_new os n w = (Inr \<lparr>ni_dir = dir, ni_current = None\<rparr>, w1)"
    using assms(2,3) by (simp add: node_iterator_new_def bind_w_def posix_open_directory_def os_check_def return_w_def)
  then show ?thesis
    using iterate_nodes_all [of os "\<lparr>ni_dir = dir, ni_current = None\<rparr>" entries g w1 ns fuel "[]"] assms by auto
qed

text \<open>A system with one directory: the world is \<^verbatim>\<open>errno\<close> and the entries not yet read.\<close>

definition one_directory :: "(int \<times> dirent list) os_calls" where
  "one_directory = \<lparr>os_show = (\<lambda>_. ''''), os_strerror = (\<lambda>_. ''''), os_errno = fst, os_set_errno = (\<lambda>e (_, ds). (e, ds)),
     os_fopen = (\<lambda>_ _ w. (0, w)), os_fread = (\<lambda>_ _ w. ([], w)), os_fwrite = (\<lambda>_ _ w. (0, w)),
     os_fseek = (\<lambda>_ _ _ w. (- 1, w)), os_ftell = (\<lambda>_ w. (- 1, w)), os_fclose = (\<lambda>_ w. (0, w)),
     os_open = (\<lambda>_ _ _ w. (- 1, w)), os_read = (\<lambda>_ _ w. ((- 1, []), w)), os_write = (\<lambda>_ _ w. (- 1, w)),
     os_lseek = (\<lambda>_ _ _ w. (- 1, w)), os_fsync = (\<lambda>_ w. (0, w)), os_close = (\<lambda>_ w. (0, w)), os_dup = (\<lambda>_ w. (- 1, w)),
     os_ftruncate = (\<lambda>_ _ w. (- 1, w)), os_opendir = (\<lambda>_ w. (7, w)),
     os_readdir = (\<lambda>_ (e, ds). case ds of [] \<Rightarrow> (None, (e, [])) | d # ds \<Rightarrow> (Some d, (e, ds))),
     os_telldir = (\<lambda>_ w. (- 1, w)), os_seekdir = (\<lambda>_ _ w. w), os_closedir = (\<lambda>_ w. (0, w)),
     os_stat = (\<lambda>_ w. (None, w)), os_fstat = (\<lambda>_ w. (None, w)), os_getcwd = (\<lambda>w. (None, w)),
     os_chdir = (\<lambda>_ w. (- 1, w)), os_unlink = (\<lambda>_ (e, ds). (- 1, (21, ds))), os_rmdir = (\<lambda>_ w. (0, w)), os_mkdir = (\<lambda>_ _ w. (- 1, w))\<rparr>"

definition file_c :: dirent where
  "file_c = \<lparr>d_type = 8, d_name = [0x63, 0]\<rparr>"

definition node_c :: fs_node where
  "node_c = \<lparr>fn_type = RegularFile,
     fn_path = \<lparr>bs_buffer = \<lparr>d_block = [0x63, 0], d_length = 2, d_owned = True\<rparr>, bs_cached = 1\<rparr>, fn_size = npos\<rparr>"

lemma node_of_c: "node_of_dirent g file_c = Inr node_c"
proof -
  have s: "string_is \<lparr>bs_buffer = \<lparr>d_block = [0x63, 0], d_length = 2, d_owned = True\<rparr>, bs_cached = 0\<rparr> [[0x63]]"
    using utf8_unit_ascii by (auto simp: string_is_def utf8_units_def)
  have "string_of_cstr g (concat [[0x63]] @ 0 # []) npos =
      Inr \<lparr>bs_buffer = \<lparr>d_block = [0x63, 0], d_length = 2, d_owned = True\<rparr>, bs_cached = 0\<rparr>"
    using utf8_unit_ascii by (subst string_of_cstr_buffer) (auto simp: utf8_units_def npos_def)
  then show ?thesis
    using file_path_leaf [OF s]
    by (simp add: node_of_dirent_def file_c_def node_c_def get_dir_type_def string_chars_def
        utf8_unit_ascii [THEN unit_char_unit] npos_def)
qed

lemma one_directory_delivers: "delivers one_directory dir snd"
  by (auto simp: delivers_def one_directory_def split: list.split)

theorem directory_iteration_complete_witness:
  "\<exists>it w2. node_iterator_new one_directory node_c (0, [\<lparr>d_type = 4, d_name = [0x2E, 0]\<rparr>, file_c]) =
      (Inr it, (0, [\<lparr>d_type = 4, d_name = [0x2E, 0]\<rparr>, file_c])) \<and>
    iterate_nodes 3 (\<lambda>_. 0) one_directory it [] (0, [\<lparr>d_type = 4, d_name = [0x2E, 0]\<rparr>, file_c]) = Some (Inr [node_c], w2)"
proof -
  have "nodes_of (\<lambda>_. 0) (filter (\<lambda>e. \<not> dot_entry e) [\<lparr>d_type = 4, d_name = [0x2E, 0]\<rparr>, file_c]) = Inr [node_c]"
    by (simp add: node_of_c) (simp add: dot_entry_def cstr_name_def file_c_def node_of_c [unfolded file_c_def])
  then show ?thesis
    using directory_iteration_complete [OF one_directory_delivers, of node_c "(0, [\<lparr>d_type = 4, d_name = [0x2E, 0]\<rparr>, file_c])"
        7 "(0, [\<lparr>d_type = 4, d_name = [0x2E, 0]\<rparr>, file_c])" "\<lambda>_. 0" "[node_c]" 3]
    by (auto simp: one_directory_def)
qed

text \<open>C37: DeleteDirectory with recursive set does not delete a directory that holds a file.  When
  the first entry read is not a directory, the code unlinks the directory's own path instead of
  the entry's; the system refuses that, so the call throws its error, closes the directory and
  removes nothing.\<close>

theorem recursive_delete_throws:
  assumes "bind_w (node_of_path g os path) (\<lambda>n. posix_open_directory os (fn_path n)) w = (Inr dir, w1)"
    and "read_directory g os dir w1 = Some (Inr (Some n), w2)" and "fn_type n \<noteq> Directory"
    and "os_unlink os (c_string path) w2 = (r, w3)" and "r \<noteq> 0" and "os_errno os w3 \<noteq> 0"
  shows "\<exists>msg. delete_directory (Suc (Suc fuel)) g os path True w =
    Some (throw (ErrnoException msg (os_errno os w3)), snd (os_closedir os dir w3))"
  using assms
  by (simp add: posix_delete_file_def os_check_def os_throw_path_def throw_errno_message_def)

theorem recursive_delete_throws_witness:
  "\<exists>msg. delete_directory 2 (\<lambda>_. 0) one_directory (fn_path node_c) True (0, [file_c]) =
    Some (throw (ErrnoException msg 21), (21, []))"
proof -
  have s: "string_is (fn_path node_c) [[0x63]]"
    using utf8_unit_ascii by (auto simp: string_is_def utf8_units_def node_c_def)
  have p: "file_path (fn_path node_c) = Inr (fn_path node_c)"
    using file_path_leaf [OF s] by (simp add: node_c_def string_chars_def utf8_unit_ascii [THEN unit_char_unit] npos_def)
  have d: "bind_w (node_of_path (\<lambda>_. 0) one_directory (fn_path node_c))
      (\<lambda>n. posix_open_directory one_directory (fn_path n)) (0, [file_c]) = (Inr 7, (0, [file_c]))"
    by (simp add: bind_w_def node_of_path_def posix_exists_def return_w_def p posix_open_directory_def
        os_check_def one_directory_def)
  have "read_directory (\<lambda>_. 0) one_directory 7 (0, [file_c]) = Some (Inr (Some node_c), (0, []))"
    by (subst read_directory.simps) (simp add: one_directory_def node_of_c, simp add: dot_entry_def cstr_name_def file_c_def)
  then show ?thesis
    using recursive_delete_throws [of "\<lambda>_. 0" one_directory "fn_path node_c" "(0, [file_c])" 7 "(0, [file_c])"
        node_c "(0, [])" "- 1" "(21, [])" 0] d
    by (simp add: one_directory_def node_c_def numeral_2_eq_2)
qed

end
