(* ===== verification/File_Stream.thy ===== *)
theory File_Stream
  imports File_System Stream_IO
begin

text \<open>
  \<^verbatim>\<open>FileStream\<close> as a \<^verbatim>\<open>Stream\<close> (\<^verbatim>\<open>include/bricks/io/filestream.h\<close>): its virtual methods as
  the record of stream operations that the readers and writers take, over the calls of the
  operating system.  What POSIX documents of these calls for regular files is the locale
  \<open>posix_files\<close>: names lead to files, descriptors to open file descriptions with an offset, which
  a duplicate shares.  Under these laws a file stream keeps the contract of \<open>Streams\<close>, so what is
  proved of readers and writers holds for files.
\<close>

section \<open>The methods of a FileStream\<close>

text \<open>The operations of a stream say nothing of the world after an exception.\<close>

definition io_result :: "'a result \<times> 'w \<Rightarrow> ('a \<times> 'w) result" where
  "io_result rw = (case rw of (r, w) \<Rightarrow> bind_r r (\<lambda>x. Inr (x, w)))"

definition io_value :: "'a \<Rightarrow> 'a result \<times> 'w \<Rightarrow> 'a" where
  "io_value z rw = (case fst rw of Inl e \<Rightarrow> z | Inr x \<Rightarrow> x)"

definition file_read_bytes :: "'w os_calls \<Rightarrow> file_stream \<Rightarrow> nat \<Rightarrow> 'w \<Rightarrow> (bytes \<times> 'w) result" where
  "file_read_bytes os f n w =
     bind_r (io_result (file_stream_read os f n w)) (\<lambda>((k, bs), w'). Inr (take k bs, w'))"

definition file_stream_ops :: "'w os_calls \<Rightarrow> file_stream \<Rightarrow> 'w stream_ops" where
  "file_stream_ops os f =
     \<lparr>so_read = file_read_bytes os f,
      so_write = (\<lambda>bs w. io_result (file_stream_write os f bs w)),
      so_get_length = (\<lambda>w. io_value 0 (file_stream_get_length os f w)),
      so_set_length = (\<lambda>n w. snd (file_stream_set_length os f n w)),
      so_get_position = (\<lambda>w. io_value 0 (file_stream_get_position os f w)),
      so_set_position = (\<lambda>p w. snd (file_stream_set_position os f p w)),
      so_flush = (\<lambda>w. snd (file_stream_flush os f w)),
      so_read_byte = default_read_byte (file_read_bytes os f)\<rparr>"

section \<open>Regular files in POSIX\<close>

record open_file =
  of_inode :: nat
  of_offset :: nat
  of_readable :: bool
  of_writable :: bool

record posix_state =
  ps_names :: "bytes \<Rightarrow> nat option"
  ps_data :: "nat \<Rightarrow> bytes"
  ps_desc :: "int \<Rightarrow> nat option"
  ps_open :: "nat \<Rightarrow> open_file"

definition file_data :: "nat \<Rightarrow> posix_state \<Rightarrow> bytes" where
  "file_data k s = ps_data s (of_inode (ps_open s k))"

definition file_offset :: "nat \<Rightarrow> posix_state \<Rightarrow> nat" where
  "file_offset k s = of_offset (ps_open s k)"

definition move_to :: "nat \<Rightarrow> nat \<Rightarrow> posix_state \<Rightarrow> posix_state" where
  "move_to p k s = s\<lparr>ps_open := (ps_open s)(k := (ps_open s k)\<lparr>of_offset := p\<rparr>)\<rparr>"

definition put_data :: "bytes \<Rightarrow> nat \<Rightarrow> posix_state \<Rightarrow> posix_state" where
  "put_data c k s = s\<lparr>ps_data := (ps_data s)(of_inode (ps_open s k) := c)\<rparr>"

definition opens_for_reading :: "int \<Rightarrow> bool" where
  "opens_for_reading flags \<longleftrightarrow> flags AND 3 \<noteq> o_wronly"

definition opens_for_writing :: "int \<Rightarrow> bool" where
  "opens_for_writing flags \<longleftrightarrow> flags AND 3 \<noteq> o_rdonly"

text \<open>What a successful \<^verbatim>\<open>open\<close> does: a new descriptor at the start of the named file, which is
  emptied with \<^verbatim>\<open>O_TRUNC\<close> and made, empty, with \<^verbatim>\<open>O_CREAT\<close>.\<close>

definition opened :: "bytes \<Rightarrow> int \<Rightarrow> int \<Rightarrow> nat \<Rightarrow> nat \<Rightarrow> posix_state \<Rightarrow> posix_state \<Rightarrow> bool" where
  "opened name flags fd k i s s' \<longleftrightarrow>
     ps_desc s fd = None \<and> ps_desc s' = (ps_desc s)(fd \<mapsto> k) \<and> ps_names s' name = Some i \<and>
     ps_open s' = (ps_open s)(k := \<lparr>of_inode = i, of_offset = 0,
       of_readable = opens_for_reading flags, of_writable = opens_for_writing flags\<rparr>) \<and>
     (case ps_names s name of
        Some j \<Rightarrow> i = j \<and> ps_names s' = ps_names s \<and>
          ps_data s' = (if flags AND o_trunc \<noteq> 0 then (ps_data s)(i := []) else ps_data s)
      | None \<Rightarrow> flags AND o_creat \<noteq> 0 \<and> ps_data s' = (ps_data s)(i := []))"

text \<open>
  The calls on descriptors, with \<open>view\<close> the files of the world and \<open>room\<close> the size up to which
  files can grow: within it a transfer is complete.  \<^verbatim>\<open>open\<close> and \<^verbatim>\<open>dup\<close> may fail.
\<close>

locale posix_files =
  fixes os :: "'w os_calls"
    and view :: "'w \<Rightarrow> posix_state"
    and room :: nat
  assumes open_file: "os_open os path flags perm w = (fd, w') \<Longrightarrow> 0 \<le> fd \<Longrightarrow> flags AND o_append = 0 \<Longrightarrow>
      (flags AND o_trunc \<noteq> 0 \<longrightarrow> opens_for_writing flags) \<Longrightarrow>
      fd < 2 ^ 31 \<and> (\<exists>k i. opened (cstr_name path) flags fd k i (view w) (view w'))"
    and dup_file: "os_dup os fd w = (fd', w') \<Longrightarrow> 0 \<le> fd' \<Longrightarrow> ps_desc (view w) fd = Some k \<Longrightarrow>
      fd' < 2 ^ 31 \<and> ps_desc (view w) fd' = None \<and>
      view w' = (view w)\<lparr>ps_desc := (ps_desc (view w))(fd' \<mapsto> k)\<rparr>"
    and close_file: "ps_desc (view w) fd = Some k \<Longrightarrow> \<exists>w'. os_close os fd w = (0, w') \<and>
      view w' = (view w)\<lparr>ps_desc := (ps_desc (view w))(fd := None)\<rparr>"
    and read_file: "ps_desc (view w) fd = Some k \<Longrightarrow> of_readable (ps_open (view w) k) \<Longrightarrow> n < 2 ^ 63 \<Longrightarrow>
      d = take n (drop (file_offset k (view w)) (file_data k (view w))) \<Longrightarrow>
      \<exists>w'. os_read os fd n w = ((int (length d), d), w') \<and>
        view w' = move_to (file_offset k (view w) + length d) k (view w)"
    and write_file: "ps_desc (view w) fd = Some k \<Longrightarrow> of_writable (ps_open (view w) k) \<Longrightarrow>
      file_offset k (view w) \<le> length (file_data k (view w)) \<Longrightarrow>
      file_offset k (view w) + length bs \<le> room \<Longrightarrow>
      \<exists>w'. os_write os fd bs w = (int (length bs), w') \<and>
        view w' = move_to (file_offset k (view w) + length bs) k
          (put_data (overwrite (file_data k (view w)) (file_offset k (view w)) bs) k (view w))"
    and seek_file: "ps_desc (view w) fd = Some k \<Longrightarrow> p < 2 ^ 63 \<Longrightarrow>
      \<exists>w'. os_lseek os fd (int p) seek_set w = (int p, w') \<and> view w' = move_to p k (view w)"
    and tell_file: "ps_desc (view w) fd = Some k \<Longrightarrow>
      os_lseek os fd 0 seek_cur w = (int (file_offset k (view w)), w)"
    and stat_file: "ps_desc (view w) fd = Some k \<Longrightarrow>
      \<exists>st. os_fstat os fd w = (Some st, w) \<and> st_size st = int (length (file_data k (view w)))"
    and truncate_file: "ps_desc (view w) fd = Some k \<Longrightarrow> of_writable (ps_open (view w) k) \<Longrightarrow> n \<le> room \<Longrightarrow>
      \<exists>w'. os_ftruncate os fd n w = (0, w') \<and>
        view w' = put_data (take n (file_data k (view w)) @ replicate (n - length (file_data k (view w))) 0) k (view w)"
    and room_bound: "room \<le> 2 ^ 62"

text \<open>The state of a stream: an open descriptor with the access it needs, inside its file, which is
  the second part of \<open>z\<close>; the first part are the names of files.\<close>

definition file_ok :: "('w \<Rightarrow> posix_state) \<Rightarrow> nat \<Rightarrow> (bytes \<Rightarrow> nat option) \<times> nat \<Rightarrow> bool \<Rightarrow> bool \<Rightarrow>
    file_stream \<Rightarrow> 'w \<Rightarrow> bool" where
  "file_ok view room z readable writable f w \<longleftrightarrow>
     (case ps_desc (view w) (handle_fd (fs_handle f)) of None \<Rightarrow> False | Some k \<Rightarrow>
        (readable \<longrightarrow> of_readable (ps_open (view w) k)) \<and> (writable \<longrightarrow> of_writable (ps_open (view w) k)) \<and>
        file_offset k (view w) \<le> length (file_data k (view w)) \<and> length (file_data k (view w)) \<le> room \<and>
        ps_names (view w) = fst z \<and> of_inode (ps_open (view w) k) = snd z)"

definition file_contents :: "('w \<Rightarrow> posix_state) \<Rightarrow> file_stream \<Rightarrow> 'w \<Rightarrow> bytes" where
  "file_contents view f w = file_data (the (ps_desc (view w) (handle_fd (fs_handle f)))) (view w)"

definition file_position :: "('w \<Rightarrow> posix_state) \<Rightarrow> file_stream \<Rightarrow> 'w \<Rightarrow> nat" where
  "file_position view f w = file_offset (the (ps_desc (view w) (handle_fd (fs_handle f)))) (view w)"

named_theorems file_simps \<open>the views of a file\<close>

lemmas [file_simps] = file_data_def file_offset_def move_to_def put_data_def

lemma file_okE:
  assumes "file_ok view room z r wr f w"
  obtains k where "ps_desc (view w) (handle_fd (fs_handle f)) = Some k"
    "r \<longrightarrow> of_readable (ps_open (view w) k)" "wr \<longrightarrow> of_writable (ps_open (view w) k)"
    "file_contents view f w = file_data k (view w)" "file_position view f w = file_offset k (view w)"
    "file_position view f w \<le> length (file_contents view f w)" "length (file_contents view f w) \<le> room"
    "ps_names (view w) = fst z" "file_contents view f w = ps_data (view w) (snd z)"
  using assms by (auto simp: file_data_def file_ok_def file_contents_def file_position_def split: option.splits)

section \<open>A FileStream is a stream\<close>

text \<open>A call that leaves the descriptor alone and moves or rewrites the file behind it.\<close>

lemma file_moved:
  assumes "ps_desc (view w) (handle_fd (fs_handle f)) = Some k" and "view w' = move_to p k (view w)"
  shows "file_contents view f w' = file_contents view f w" and "file_position view f w' = p"
    and "file_ok view room z r wr f w \<Longrightarrow> p \<le> length (file_contents view f w) \<Longrightarrow> file_ok view room z r wr f w'"
  using assms by (auto simp: file_contents_def file_position_def file_ok_def file_simps)

lemma file_put:
  assumes "ps_desc (view w) (handle_fd (fs_handle f)) = Some k"
    and "view w' = move_to p k (put_data c k (view w))"
  shows "file_contents view f w' = c" and "file_position view f w' = p"
    and "file_ok view room z r wr f w \<Longrightarrow> p \<le> length c \<Longrightarrow> length c \<le> room \<Longrightarrow> file_ok view room z r wr f w'"
  using assms by (auto simp: file_contents_def file_position_def file_ok_def file_simps)

lemma u64_of_int: "n < 2 ^ 64 \<Longrightarrow> u64_of (int n) = n"
  by (simp add: u64_of_def nat_mod_distrib)

lemma s64_of_int: "p < 2 ^ 63 \<Longrightarrow> s64 (int p) = int p"
  using of_nat_less_iff [of p "2 ^ 63", where 'a = int] by (intro s64_id) simp_all

context posix_files begin

lemma file_stream_get_position_exact:
  assumes "file_ok view room z r wr f w"
  shows "file_stream_get_position os f w = (Inr (file_position view f w), w)"
proof -
  obtain k where k: "ps_desc (view w) (handle_fd (fs_handle f)) = Some k"
    "file_position view f w = file_offset k (view w)"
    "file_position view f w \<le> length (file_contents view f w)" "length (file_contents view f w) \<le> room"
    using file_okE [OF assms] by metis
  have "u64_of (int (file_offset k (view w))) = file_offset k (view w)"
    by (rule u64_of_int) (use k room_bound in simp)
  then show ?thesis using tell_file [OF k(1)] k(2)
    by (simp add: file_stream_get_position_def posix_tell_def os_check_def)
qed

lemma file_stream_get_length_exact:
  assumes "file_ok view room z r wr f w"
  shows "file_stream_get_length os f w = (Inr (length (file_contents view f w)), w)"
proof -
  obtain k where k: "ps_desc (view w) (handle_fd (fs_handle f)) = Some k"
    "file_contents view f w = file_data k (view w)" "length (file_contents view f w) \<le> room"
    using file_okE [OF assms] by metis
  obtain st where "os_fstat os (handle_fd (fs_handle f)) w = (Some st, w)"
    "st_size st = int (length (file_data k (view w)))"
    using stat_file [OF k(1)] by blast
  moreover have "u64_of (int (length (file_data k (view w)))) = length (file_data k (view w))"
    by (rule u64_of_int) (use k room_bound in simp)
  ultimately show ?thesis
    by (simp add: file_stream_get_length_def posix_file_stat_def bind_w_def return_w_def k(2))
qed

lemma file_stream_set_position_exact:
  assumes "file_ok view room z r wr f w" and "p \<le> length (file_contents view f w)"
  shows "\<exists>w'. file_stream_set_position os f p w = (Inr (), w') \<and> file_ok view room z r wr f w' \<and>
    file_contents view f w' = file_contents view f w \<and> file_position view f w' = p"
proof -
  obtain k where k: "ps_desc (view w) (handle_fd (fs_handle f)) = Some k"
    "length (file_contents view f w) \<le> room"
    using file_okE [OF assms(1)] by metis
  have p: "p < 2 ^ 63" using assms(2) k(2) room_bound by simp
  then have "s64 (int p) = int p" by (rule s64_of_int)
  moreover obtain w' where "os_lseek os (handle_fd (fs_handle f)) (int p) seek_set w = (int p, w')"
    "view w' = move_to p k (view w)"
    using seek_file [OF k(1) p] by blast
  ultimately show ?thesis using file_moved [where view = view and f = f, OF k(1)] assms
    by (auto simp: file_stream_set_position_def posix_seek_def os_check_def)
qed

lemma file_stream_read_exact:
  assumes "file_ok view room z True wr f w" and "n < 2 ^ 63"
  defines "d \<equiv> take n (drop (file_position view f w) (file_contents view f w))"
  shows "\<exists>w'. file_stream_read os f n w = (Inr (length d, d), w') \<and> file_ok view room z True wr f w' \<and>
    file_contents view f w' = file_contents view f w \<and>
    file_position view f w' = min (length (file_contents view f w)) (file_position view f w + n)"
proof -
  obtain k where k: "ps_desc (view w) (handle_fd (fs_handle f)) = Some k" "of_readable (ps_open (view w) k)"
    "file_contents view f w = file_data k (view w)" "file_position view f w = file_offset k (view w)"
    "file_position view f w \<le> length (file_contents view f w)" "length (file_contents view f w) \<le> room"
    using file_okE [OF assms(1)] by metis
  have "d = take n (drop (file_offset k (view w)) (file_data k (view w)))" by (simp add: d_def k(3,4))
  from read_file [OF k(1,2) assms(2) this]
  obtain w' where w': "os_read os (handle_fd (fs_handle f)) n w = ((int (length d), d), w')"
    "view w' = move_to (file_position view f w + length d) k (view w)"
    unfolding k(4) by blast
  have l: "file_position view f w + length d = min (length (file_contents view f w)) (file_position view f w + n)"
    using k(5) by (auto simp: d_def)
  have "u64_of (int (length d)) = length d"
    by (rule u64_of_int) (use k(6) room_bound in \<open>auto simp: d_def\<close>)
  then show ?thesis using w' file_moved [where view = view and f = f, OF k(1) w'(2)] assms(1) l
    by (simp add: file_stream_read_def posix_read_def os_check_def)
qed

lemma file_stream_write_exact:
  assumes "file_ok view room z r True f w" and "file_position view f w + length bs \<le> room"
  shows "\<exists>w'. file_stream_write os f bs w = (Inr (length bs), w') \<and> file_ok view room z r True f w' \<and>
    file_contents view f w' = overwrite (file_contents view f w) (file_position view f w) bs \<and>
    file_position view f w' = file_position view f w + length bs"
proof -
  obtain k where k: "ps_desc (view w) (handle_fd (fs_handle f)) = Some k" "of_writable (ps_open (view w) k)"
    "file_contents view f w = file_data k (view w)" "file_position view f w = file_offset k (view w)"
    "file_position view f w \<le> length (file_contents view f w)" "length (file_contents view f w) \<le> room"
    using file_okE [OF assms(1)] by metis
  let ?c = "overwrite (file_contents view f w) (file_position view f w) bs"
  obtain w' where w': "os_write os (handle_fd (fs_handle f)) bs w = (int (length bs), w')"
    "view w' = move_to (file_position view f w + length bs) k (put_data ?c k (view w))"
    using write_file [OF k(1,2), of bs] k(3-5) assms(2) by auto
  have c: "file_position view f w + length bs \<le> length ?c" "length ?c \<le> room"
    using k(5,6) assms(2) by (simp_all add: length_overwrite)
  have "u64_of (int (length bs)) = length bs"
    by (rule u64_of_int) (use assms(2) room_bound in simp)
  then show ?thesis using w' file_put [where view = view and f = f, OF k(1) w'(2)] assms(1) c
    by (simp add: file_stream_write_def posix_write_def os_check_def)
qed

lemma file_stream_set_length_exact:
  assumes "file_ok view room z r True f w" and "n \<le> room"
  shows "\<exists>w'. file_stream_set_length os f n w = (Inr (), w') \<and>
    file_contents view f w' = take n (file_contents view f w) @ replicate (n - length (file_contents view f w)) 0 \<and>
    file_position view f w' = file_position view f w"
proof -
  obtain k where k: "ps_desc (view w) (handle_fd (fs_handle f)) = Some k" "of_writable (ps_open (view w) k)"
    using file_okE [OF assms(1)] by metis
  from truncate_file [OF k assms(2)] show ?thesis using k
    by (auto simp: file_stream_set_length_def posix_truncate_def os_check_def file_contents_def file_position_def file_simps)
qed

lemma file_ops_simps:
  assumes "file_ok view room z r wr f w"
  shows "so_get_position (file_stream_ops os f) w = file_position view f w"
    and "so_get_length (file_stream_ops os f) w = length (file_contents view f w)"
  using file_stream_get_position_exact [OF assms] file_stream_get_length_exact [OF assms]
  by (simp_all add: file_stream_ops_def io_value_def)

lemma file_positioned:
  "positioned_stream (file_stream_ops os f) (file_contents view f) (file_ok view room z r wr f) (\<lambda>_. room)"
proof
  fix w p assume ok: "file_ok view room z r wr f w"
  note ops = file_ops_simps [OF ok]
  show "so_get_length (file_stream_ops os f) w = length (file_contents view f w)" by (rule ops)
  show "so_get_position (file_stream_ops os f) w \<le> length (file_contents view f w)"
    using file_okE [OF ok] unfolding ops by metis
  show "length (file_contents view f w) \<le> room" using file_okE [OF ok] by metis
  show "file_ok view room z r wr f (so_set_position (file_stream_ops os f) p w) \<and>
      file_contents view f (so_set_position (file_stream_ops os f) p w) = file_contents view f w \<and>
      room = room \<and> so_get_position (file_stream_ops os f) (so_set_position (file_stream_ops os f) p w) = p"
    if "p \<le> length (file_contents view f w)"
  proof -
    obtain w' where w': "file_stream_set_position os f p w = (Inr (), w')" "file_ok view room z r wr f w'"
      "file_contents view f w' = file_contents view f w" "file_position view f w' = p"
      using file_stream_set_position_exact [OF ok \<open>p \<le> _\<close>] by blast
    moreover have "so_set_position (file_stream_ops os f) p w = w'" using w'(1) by (simp add: file_stream_ops_def)
    ultimately show ?thesis by (simp add: file_ops_simps)
  qed
qed (rule room_bound)

lemma file_read_bytes_exact:
  assumes "file_ok view room z True wr f w" and "n < 2 ^ 63"
  shows "\<exists>w'. file_read_bytes os f n w =
      Inr (take n (drop (file_position view f w) (file_contents view f w)), w') \<and>
    file_ok view room z True wr f w' \<and> file_contents view f w' = file_contents view f w \<and>
    file_position view f w' = min (length (file_contents view f w)) (file_position view f w + n)"
proof -
  let ?d = "take n (drop (file_position view f w) (file_contents view f w))"
  have "take (length ?d) ?d = ?d" by (rule take_all) simp
  then show ?thesis using file_stream_read_exact [OF assms]
    by (auto simp: file_read_bytes_def io_result_def simp del: length_take length_drop)
qed

lemma file_input:
  "input_stream (file_stream_ops os f) (file_contents view f) (file_ok view room z True wr f) (\<lambda>_. room)"
proof (rule input_stream.intro [OF file_positioned], unfold_locales)
  fix w n assume ok: "file_ok view room z True wr f w"
  note ops = file_ops_simps [OF ok]
  let ?c = "file_contents view f w"
  show "\<exists>w'. so_read (file_stream_ops os f) n w
      = Inr (take n (drop (so_get_position (file_stream_ops os f) w) ?c), w') \<and>
      file_ok view room z True wr f w' \<and> file_contents view f w' = ?c \<and> room = room \<and>
      so_get_position (file_stream_ops os f) w' = min (length ?c) (so_get_position (file_stream_ops os f) w + n)"
    if n: "n < 2 ^ 63"
  proof -
    obtain w' where w': "file_read_bytes os f n w = Inr (take n (drop (file_position view f w) ?c), w')"
      "file_ok view room z True wr f w'" "file_contents view f w' = ?c"
      "file_position view f w' = min (length ?c) (file_position view f w + n)"
      using file_read_bytes_exact [OF ok n] by blast
    then show ?thesis unfolding ops using file_ops_simps(1) [OF w'(2)] by (simp add: file_stream_ops_def)
  qed
  show "\<exists>w'. so_read_byte (file_stream_ops os f) w
      = Inr (uint (?c ! so_get_position (file_stream_ops os f) w), w') \<and>
      file_ok view room z True wr f w' \<and> file_contents view f w' = ?c \<and> room = room \<and>
      so_get_position (file_stream_ops os f) w' = so_get_position (file_stream_ops os f) w + 1"
    if "so_get_position (file_stream_ops os f) w < length ?c"
  proof -
    let ?p = "file_position view f w"
    have p: "?p < length ?c" using that unfolding ops .
    then have "take 1 (drop ?p ?c) = [?c ! ?p]" using Cons_nth_drop_Suc [OF p, symmetric] by simp
    moreover obtain w' where w': "file_read_bytes os f 1 w = Inr (take 1 (drop ?p ?c), w')"
      "file_ok view room z True wr f w'" "file_contents view f w' = ?c"
      "file_position view f w' = min (length ?c) (?p + 1)"
      using file_read_bytes_exact [OF ok, of 1] by auto
    ultimately have "default_read_byte (file_read_bytes os f) w = Inr (uint (?c ! ?p), w')"
      by (simp add: default_read_byte_def)
    then show ?thesis unfolding ops using w' p file_ops_simps(1) [OF w'(2)]
      by (simp add: file_stream_ops_def)
  qed
qed

lemma file_output:
  "output_stream (file_stream_ops os f) (file_contents view f) (file_ok view room z r True f) (\<lambda>_. room)"
proof (rule output_stream.intro [OF file_positioned], unfold_locales)
  fix w and bs :: bytes assume ok: "file_ok view room z r True f w"
    and le: "so_get_position (file_stream_ops os f) w + length bs \<le> room"
  note ops = file_ops_simps [OF ok]
  obtain w' where w': "file_stream_write os f bs w = (Inr (length bs), w')" "file_ok view room z r True f w'"
    "file_contents view f w' = overwrite (file_contents view f w) (file_position view f w) bs"
    "file_position view f w' = file_position view f w + length bs"
    using file_stream_write_exact [OF ok] le unfolding ops by blast
  then show "\<exists>w'. so_write (file_stream_ops os f) bs w = Inr (length bs, w') \<and> file_ok view room z r True f w' \<and>
      file_contents view f w' = overwrite (file_contents view f w) (so_get_position (file_stream_ops os f) w) bs \<and>
      room = room \<and>
      so_get_position (file_stream_ops os f) w' = so_get_position (file_stream_ops os f) w + length bs"
    unfolding ops using file_ops_simps(1) [OF w'(2)] by (simp add: file_stream_ops_def io_result_def)
qed

end

text \<open>A file opened for both is a stream, one opened for reading or writing half of it.\<close>

sublocale posix_files \<subseteq> rw: stream "file_stream_ops os f" "file_contents view f"
    "file_ok view room z True True f" "\<lambda>_. room" for f
  by (rule stream.intro [OF file_input file_output])

section \<open>Opening and closing\<close>

context posix_files begin

lemma file_stream_open_exact:
  assumes "os_open os (c_string path) (open_mode_flag c OR file_mode_flag m) owner_read_write w = (fd, w1)"
    and "0 \<le> fd" and "c \<noteq> Append" and "c = Create \<or> c = Truncate \<Longrightarrow> m \<noteq> ReadOnly"
  shows "\<exists>f k i. file_stream_open os path c m perms w = (Inr f, w1) \<and> handle_fd (fs_handle f) = fd \<and>
    ps_desc (view w1) fd = Some k \<and> ps_names (view w1) (cstr_name (c_string path)) = Some i \<and>
    ps_open (view w1) k = \<lparr>of_inode = i, of_offset = 0, of_readable = (m \<noteq> WriteOnly), of_writable = (m \<noteq> ReadOnly)\<rparr> \<and>
    (\<forall>j. ps_names (view w) (cstr_name (c_string path)) = Some j \<longrightarrow> i = j) \<and>
    ps_data (view w1) i = (if ps_names (view w) (cstr_name (c_string path)) = None \<or> c = Create \<or> c = Truncate
      then [] else ps_data (view w) i)"
proof -
  let ?flags = "open_mode_flag c OR file_mode_flag m"
  note flag_defs = o_append_def o_trunc_def o_creat_def o_excl_def o_rdonly_def o_wronly_def o_rdwr_def
    opens_for_reading_def opens_for_writing_def
  have flags: "?flags AND o_append = 0" "opens_for_reading ?flags = (m \<noteq> WriteOnly)"
    "opens_for_writing ?flags = (m \<noteq> ReadOnly)" "(?flags AND o_trunc \<noteq> 0) = (c = Create \<or> c = Truncate)"
    using assms(3) by (cases c; cases m; simp add: flag_defs)+
  obtain k i where o: "fd < 2 ^ 31" "opened (cstr_name (c_string path)) ?flags fd k i (view w) (view w1)"
    using open_file [OF assms(1,2) flags(1)] assms(4) flags(3,4) by auto
  have "u64_of fd = nat fd" using o(1) assms(2) by (simp add: u64_of_def)
  moreover have "handle_fd (nat fd) = fd" using o(1) assms(2) by (simp add: handle_fd_def s32_id)
  ultimately have "file_stream_open os path c m perms w = (Inr \<lparr>fs_handle = nat fd, fs_path = string_copy path\<rparr>, w1)"
    "handle_fd (fs_handle \<lparr>fs_handle = nat fd, fs_path = string_copy path\<rparr>) = fd"
    using assms(1,2) by (simp_all add: file_stream_open_def posix_open_def os_check_def bind_w_def return_w_def)
  then show ?thesis using o(2) flags(2-4)
    by (intro exI [of _ "\<lparr>fs_handle = nat fd, fs_path = string_copy path\<rparr>"] exI [of _ k] exI [of _ i])
      (auto simp: opened_def split: option.splits)
qed

lemma file_stream_destroy_exact:
  assumes "file_ok view room z r wr f w"
  shows "\<exists>w'. file_stream_destroy os f w = (Inr (), w') \<and>
    view w' = (view w)\<lparr>ps_desc := (ps_desc (view w))(handle_fd (fs_handle f) := None)\<rparr>"
proof -
  obtain k where "ps_desc (view w) (handle_fd (fs_handle f)) = Some k" using file_okE [OF assms] by metis
  from close_file [OF this] show ?thesis
    by (auto simp: file_stream_destroy_def posix_close_def os_check_def)
qed

text \<open>The stream made from a handle is a second descriptor of the same open file: it has the
  position of the first and moves it.\<close>

lemma file_stream_of_handle_shares:
  assumes "file_ok view room z r wr f w" and "os_dup os (handle_fd (fs_handle f)) w = (fd', w1)" and "0 \<le> fd'"
  shows "\<exists>f'. file_stream_of_handle os (fs_handle f) w = (Inr f', w1) \<and> file_ok view room z r wr f' w1 \<and>
    file_contents view f' w1 = file_contents view f w1 \<and> file_position view f' w1 = file_position view f w1"
proof -
  obtain k where k: "ps_desc (view w) (handle_fd (fs_handle f)) = Some k" using file_okE [OF assms(1)] by metis
  have d: "fd' < 2 ^ 31" "ps_desc (view w) fd' = None"
    "view w1 = (view w)\<lparr>ps_desc := (ps_desc (view w))(fd' \<mapsto> k)\<rparr>"
    using dup_file [OF assms(2,3) k] by simp_all
  then have "u64_of fd' = nat fd'" "handle_fd (nat fd') = fd'"
    using assms(3) by (simp_all add: u64_of_def handle_fd_def s32_id)
  moreover have "handle_fd (fs_handle f) \<noteq> fd'" using d(2) k by auto
  ultimately show ?thesis using assms d k
    by (auto simp: file_stream_of_handle_def posix_duplicate_def os_check_def bind_w_def return_w_def
        file_ok_def file_contents_def file_position_def file_simps)
qed

end

section \<open>A system of files\<close>

text \<open>A machine that satisfies the laws: descriptors, open files and files are numbered by a
  counter.\<close>

record plain_world =
  pw_state :: posix_state
  pw_next :: nat

definition plain_open :: "bytes \<Rightarrow> int \<Rightarrow> int \<Rightarrow> plain_world \<Rightarrow> int \<times> plain_world" where
  "plain_open path flags perm w =
     (let s = pw_state w; k = pw_next w; name = cstr_name path;
          fresh = \<lparr>of_inode = k, of_offset = 0, of_readable = opens_for_reading flags, of_writable = opens_for_writing flags\<rparr>;
          w' = w\<lparr>pw_next := k + 1\<rparr> in
      if ps_desc s (int k) \<noteq> None \<or> 2 ^ 31 \<le> k then (- 1, w)
      else (case ps_names s name of
          Some i \<Rightarrow>
            if flags AND o_creat \<noteq> 0 \<and> flags AND o_excl \<noteq> 0 then (- 1, w)
            else (int k, w'\<lparr>pw_state := s\<lparr>ps_desc := (ps_desc s)(int k \<mapsto> k), ps_open := (ps_open s)(k := fresh\<lparr>of_inode := i\<rparr>),
                ps_data := (if flags AND o_trunc \<noteq> 0 then (ps_data s)(i := []) else ps_data s)\<rparr>\<rparr>)
        | None \<Rightarrow>
            if flags AND o_creat = 0 then (- 1, w)
            else (int k, w'\<lparr>pw_state := s\<lparr>ps_desc := (ps_desc s)(int k \<mapsto> k), ps_open := (ps_open s)(k := fresh),
                ps_names := (ps_names s)(name \<mapsto> k), ps_data := (ps_data s)(k := [])\<rparr>\<rparr>)))"

definition plain_dup :: "int \<Rightarrow> plain_world \<Rightarrow> int \<times> plain_world" where
  "plain_dup fd w =
     (let s = pw_state w; k = pw_next w in
      if ps_desc s (int k) \<noteq> None \<or> 2 ^ 31 \<le> k then (- 1, w)
      else (case ps_desc s fd of None \<Rightarrow> (- 1, w)
        | Some j \<Rightarrow> (int k, w\<lparr>pw_state := s\<lparr>ps_desc := (ps_desc s)(int k \<mapsto> j)\<rparr>, pw_next := k + 1\<rparr>)))"

text \<open>A call on an open descriptor; on another it fails.\<close>

definition plain_call :: "int \<Rightarrow> 'r \<Rightarrow> (nat \<Rightarrow> posix_state \<Rightarrow> 'r \<times> posix_state) \<Rightarrow> plain_world \<Rightarrow> 'r \<times> plain_world" where
  "plain_call fd bad f w =
     (case ps_desc (pw_state w) fd of None \<Rightarrow> (bad, w)
      | Some k \<Rightarrow> (case f k (pw_state w) of (r, s) \<Rightarrow> (r, w\<lparr>pw_state := s\<rparr>)))"

definition plain_read :: "nat \<Rightarrow> nat \<Rightarrow> posix_state \<Rightarrow> (int \<times> bytes) \<times> posix_state" where
  "plain_read n k s =
     (let d = take n (drop (file_offset k s) (file_data k s)) in
      ((int (length d), d), move_to (file_offset k s + length d) k s))"

definition plain_write :: "bytes \<Rightarrow> nat \<Rightarrow> posix_state \<Rightarrow> int \<times> posix_state" where
  "plain_write bs k s =
     (int (length bs), move_to (file_offset k s + length bs) k
        (put_data (overwrite (file_data k s) (file_offset k s) bs) k s))"

definition plain_seek :: "int \<Rightarrow> int \<Rightarrow> nat \<Rightarrow> posix_state \<Rightarrow> int \<times> posix_state" where
  "plain_seek p whence k s =
     (if whence = seek_set then (p, move_to (nat p) k s) else (int (file_offset k s), s))"

definition plain_os :: "plain_world os_calls" where
  "plain_os = \<lparr>os_show = (\<lambda>_. []), os_strerror = (\<lambda>_. []), os_errno = (\<lambda>_. 9), os_set_errno = (\<lambda>_ w. w),
     os_fopen = (\<lambda>_ _ w. (0, w)), os_fread = (\<lambda>_ _ w. ([], w)), os_fwrite = (\<lambda>_ _ w. (0, w)),
     os_fseek = (\<lambda>_ _ _ w. (- 1, w)), os_ftell = (\<lambda>_ w. (- 1, w)), os_fclose = (\<lambda>_ w. (0, w)),
     os_open = plain_open, os_read = (\<lambda>fd n. plain_call fd (- 1, []) (plain_read n)),
     os_write = (\<lambda>fd bs. plain_call fd (- 1) (plain_write bs)),
     os_lseek = (\<lambda>fd p whence. plain_call fd (- 1) (plain_seek p whence)), os_fsync = (\<lambda>_ w. (0, w)),
     os_close = (\<lambda>fd. plain_call fd (- 1) (\<lambda>k s. (0, s\<lparr>ps_desc := (ps_desc s)(fd := None)\<rparr>))), os_dup = plain_dup,
     os_ftruncate = (\<lambda>fd n. plain_call fd (- 1) (\<lambda>k s.
       (0, put_data (take n (file_data k s) @ replicate (n - length (file_data k s)) 0) k s))),
     os_opendir = (\<lambda>_ w. (0, w)), os_readdir = (\<lambda>_ w. (None, w)),
     os_telldir = (\<lambda>_ w. (- 1, w)), os_seekdir = (\<lambda>_ _ w. w), os_closedir = (\<lambda>_ w. (0, w)),
     os_stat = (\<lambda>_ w. (None, w)),
     os_fstat = (\<lambda>fd. plain_call fd None (\<lambda>k s. (Some (stat_zero\<lparr>st_mode := 0x8000, st_size := int (length (file_data k s))\<rparr>), s))),
     os_getcwd = (\<lambda>w. (None, w)), os_chdir = (\<lambda>_ w. (- 1, w)), os_unlink = (\<lambda>_ w. (- 1, w)),
     os_rmdir = (\<lambda>_ w. (0, w)), os_mkdir = (\<lambda>_ _ w. (- 1, w))\<rparr>"

lemma plain_open_opened:
  assumes "plain_open path flags perm w = (fd, w')" and "0 \<le> fd"
  shows "fd < 2 ^ 31 \<and> opened (cstr_name path) flags fd (pw_next w)
    (the (ps_names (pw_state w') (cstr_name path))) (pw_state w) (pw_state w')"
  using assms by (auto simp: plain_open_def Let_def opened_def not_le split: if_splits option.splits)

interpretation plain: posix_files plain_os pw_state "2 ^ 62"
proof
  fix path flags perm fd and w w' :: plain_world
  assume "os_open plain_os path flags perm w = (fd, w')" "0 \<le> fd"
  then show "fd < 2 ^ 31 \<and> (\<exists>k i. opened (cstr_name path) flags fd k i (pw_state w) (pw_state w'))"
    using plain_open_opened [of path flags perm w fd w'] by (auto simp: plain_os_def)
next
  fix fd fd' k and w w' :: plain_world
  assume "os_dup plain_os fd w = (fd', w')" "0 \<le> fd'" "ps_desc (pw_state w) fd = Some k"
  then show "fd' < 2 ^ 31 \<and> ps_desc (pw_state w) fd' = None \<and>
      pw_state w' = (pw_state w)\<lparr>ps_desc := (ps_desc (pw_state w))(fd' \<mapsto> k)\<rparr>"
    by (auto simp: plain_os_def plain_dup_def Let_def not_le split: if_splits)
qed (auto simp: plain_os_def plain_call_def plain_read_def plain_write_def plain_seek_def Let_def seek_set_def seek_cur_def)

section \<open>Properties\<close>

text \<open>C15: On a system whose calls do what POSIX says of regular files, a \<^verbatim>\<open>FileStream\<close> open for
  reading and writing is its file and a position in it: \<^verbatim>\<open>Write\<close> overwrites the bytes at the
  position, extends the file when it reaches the end and keeps all others; \<^verbatim>\<open>GetLength\<close> and
  \<^verbatim>\<open>GetPosition\<close> report that; seeking back and reading delivers what was written; and \<^verbatim>\<open>Read\<close>
  of any size delivers what is left up to that size.\<close>

theorem file_stream_refines_file:
  assumes "posix_files os view room" and "file_ok view room z True True f w"
    and "file_position view f w + length bs \<le> room" and "n < 2 ^ 63"
  shows "(\<exists>w1 w2 w3. file_stream_write os f bs w = (Inr (length bs), w1) \<and>
      file_contents view f w1 = overwrite (file_contents view f w) (file_position view f w) bs \<and>
      file_stream_get_length os f w1
        = (Inr (max (length (file_contents view f w)) (file_position view f w + length bs)), w1) \<and>
      file_stream_get_position os f w1 = (Inr (file_position view f w + length bs), w1) \<and>
      file_stream_set_position os f (file_position view f w) w1 = (Inr (), w2) \<and>
      file_stream_read os f (length bs) w2 = (Inr (length bs, bs), w3) \<and>
      file_contents view f w3 = file_contents view f w1) \<and>
    (\<exists>w1. file_stream_read os f n w = (Inr (min n (length (file_contents view f w) - file_position view f w),
        take n (drop (file_position view f w) (file_contents view f w))), w1) \<and>
      file_contents view f w1 = file_contents view f w)"
proof -
  let ?c = "file_contents view f w" and ?p = "file_position view f w"
  have p: "?p \<le> length ?c" using file_okE [OF assms(2)] by metis
  obtain w1 where w1: "file_stream_write os f bs w = (Inr (length bs), w1)" "file_ok view room z True True f w1"
    "file_contents view f w1 = overwrite ?c ?p bs" "file_position view f w1 = ?p + length bs"
    using posix_files.file_stream_write_exact [OF assms(1-3)] by blast
  have l: "length (file_contents view f w1) = max (length ?c) (?p + length bs)"
    using p by (simp add: w1(3) length_overwrite)
  obtain w2 where w2: "file_stream_set_position os f ?p w1 = (Inr (), w2)" "file_ok view room z True True f w2"
    "file_contents view f w2 = file_contents view f w1" "file_position view f w2 = ?p"
    using posix_files.file_stream_set_position_exact [OF assms(1) w1(2), of ?p] p l by (auto simp: le_max_iff_disj)
  have n: "length bs < 2 ^ 63" using assms(3) posix_files.room_bound [OF assms(1)] by simp
  obtain w3 where "file_stream_read os f (length bs) w2 = (Inr (length bs, bs), w3)"
    "file_contents view f w3 = file_contents view f w1"
    using posix_files.file_stream_read_exact [OF assms(1) w2(2) n] w2(3,4) w1(3) overwrite_read [OF p, of bs]
    by auto
  moreover have "file_stream_get_length os f w1 = (Inr (max (length ?c) (?p + length bs)), w1)"
    "file_stream_get_position os f w1 = (Inr (?p + length bs), w1)"
    using posix_files.file_stream_get_length_exact [OF assms(1) w1(2)]
      posix_files.file_stream_get_position_exact [OF assms(1) w1(2)] by (simp_all add: l w1(4))
  moreover have "\<exists>w1. file_stream_read os f n w = (Inr (min n (length ?c - ?p), take n (drop ?p ?c)), w1) \<and>
      file_contents view f w1 = ?c"
    using posix_files.file_stream_read_exact [OF assms(1,2,4)] by (auto simp: min.commute)
  ultimately show ?thesis using w1(1,3) w2(1) by blast
qed

definition one_open_file :: plain_world where
  "one_open_file = \<lparr>pw_state = \<lparr>ps_names = (\<lambda>_. None), ps_data = (\<lambda>_. [1, 2, 3]), ps_desc = (\<lambda>_. None)(3 \<mapsto> 0),
     ps_open = (\<lambda>_. \<lparr>of_inode = 0, of_offset = 1, of_readable = True, of_writable = True\<rparr>)\<rparr>, pw_next = 4\<rparr>"

theorem file_stream_refines_file_witness:
  "\<exists>w1 w2 w3. file_stream_write plain_os \<lparr>fs_handle = 3, fs_path = empty_path\<rparr> [7, 8, 9] one_open_file = (Inr 3, w1) \<and>
     file_contents pw_state \<lparr>fs_handle = 3, fs_path = empty_path\<rparr> w1 = [1, 7, 8, 9] \<and>
     file_stream_set_position plain_os \<lparr>fs_handle = 3, fs_path = empty_path\<rparr> 1 w1 = (Inr (), w2) \<and>
     file_stream_read plain_os \<lparr>fs_handle = 3, fs_path = empty_path\<rparr> 3 w2 = (Inr (3, [7, 8, 9]), w3)"
proof -
  let ?f = "\<lparr>fs_handle = 3, fs_path = empty_path\<rparr>"
  have h: "handle_fd 3 = 3" by (simp add: handle_fd_def s32_id)
  have ok: "file_ok pw_state (2 ^ 62) (\<lambda>_. None, 0) True True ?f one_open_file"
    by (simp add: file_ok_def h one_open_file_def file_simps)
  have v: "file_contents pw_state ?f one_open_file = [1, 2, 3]" "file_position pw_state ?f one_open_file = 1"
    by (simp_all add: file_contents_def file_position_def h one_open_file_def file_simps)
  have o: "overwrite [1, 2, 3] 1 [7, 8, 9] = [1, 7, 8, 9 :: u8]" by (simp add: overwrite_def)
  from file_stream_refines_file [OF plain.posix_files_axioms ok, of "[7, 8, 9]" 0] show ?thesis
    unfolding v o by (simp add: numeral_3_eq_3) blast
qed

end
