(* ===== verification/Zip_System.thy ===== *)
theory Zip_System
  imports File_System
begin

text \<open>
  The filesystem of a ZIP archive (\<^verbatim>\<open>include/bricks/compression/zipfilesystem.h\<close>,
  \<^verbatim>\<open>source/compression/zipfilesystem.cpp\<close>).  The calls of libzip are a parameter, the record
  \<open>zip_calls\<close>, over a state \<open>'w\<close> of the world; the state of the filesystem keeps its file
  and directory objects, which the handles name, and the libzip files that are open.  A use of a
  libzip file that is closed, or of an object that is deleted, is undefined.
\<close>

section \<open>Calls of libzip\<close>

record zip_stat =
  zs_name :: bytes
  zs_index :: "nat option"
  zs_size :: "nat option"
  zs_comp_size :: "nat option"
  zs_mtime :: "int option"

text \<open>A pointer of 0 is the null pointer; \<open>zc_error\<close> is the error code of the archive and
  \<open>zc_file_error\<close> that of a file.\<close>

record 'w zip_calls =
  zc_open :: "bytes \<Rightarrow> 'w \<Rightarrow> (nat \<times> int) \<times> 'w"
  zc_fdopen :: "int \<Rightarrow> 'w \<Rightarrow> (nat \<times> int) \<times> 'w"
  zc_close :: "nat \<Rightarrow> 'w \<Rightarrow> 'w"
  zc_error :: "nat \<Rightarrow> 'w \<Rightarrow> int"
  zc_file_error :: "nat \<Rightarrow> 'w \<Rightarrow> int"
  zc_name_locate :: "nat \<Rightarrow> bytes \<Rightarrow> int"
  zc_get_name :: "nat \<Rightarrow> int \<Rightarrow> bytes option"
  zc_stat :: "nat \<Rightarrow> bytes \<Rightarrow> zip_stat option"
  zc_stat_index :: "nat \<Rightarrow> int \<Rightarrow> zip_stat option"
  zc_fopen_index :: "nat \<Rightarrow> int \<Rightarrow> 'w \<Rightarrow> nat \<times> 'w"
  zc_fread :: "nat \<Rightarrow> nat \<Rightarrow> 'w \<Rightarrow> (int \<times> bytes) \<times> 'w"
  zc_fclose :: "nat \<Rightarrow> 'w \<Rightarrow> 'w"

section \<open>State\<close>

record zip_file =
  zf_file :: nat
  zf_index :: int
  zf_position :: int

record zip_dir =
  zd_index :: int
  zd_position :: int

text \<open>Handle \<open>n + 1\<close> names entry \<open>n\<close>; a deleted object leaves None.\<close>

record 'w zip_fs =
  zfs_archive :: nat
  zfs_current :: bstring
  zfs_files :: "zip_file option list"
  zfs_dirs :: "zip_dir option list"
  zfs_open :: "nat list"
  zfs_world :: 'w

definition handle_object :: "'a option list \<Rightarrow> nat \<Rightarrow> 'a result" where
  "handle_object os fd =
     (if fd = 0 then Inl Undefined
      else bind_r (peek os (fd - 1)) (\<lambda>x. case x of None \<Rightarrow> Inl Undefined | Some y \<Rightarrow> Inr y))"

definition get_zip_file :: "nat \<Rightarrow> ('w zip_fs, zip_file) io" where
  "get_zip_file fd z = (handle_object (zfs_files z) fd, z)"

definition set_zip_file :: "nat \<Rightarrow> zip_file \<Rightarrow> ('w zip_fs, unit) io" where
  "set_zip_file fd f z = (Inr (), z\<lparr>zfs_files := (zfs_files z)[fd - 1 := Some f]\<rparr>)"

definition new_zip_file :: "nat \<Rightarrow> int \<Rightarrow> ('w zip_fs, nat) io" where
  "new_zip_file file index z =
     (Inr (Suc (length (zfs_files z))),
      z\<lparr>zfs_files := zfs_files z @ [Some \<lparr>zf_file = file, zf_index = index, zf_position = 0\<rparr>]\<rparr>)"

definition zip_fopen :: "'w zip_calls \<Rightarrow> int \<Rightarrow> ('w zip_fs, nat) io" where
  "zip_fopen zc index z =
     (case zc_fopen_index zc (zfs_archive z) index (zfs_world z) of (file, w) \<Rightarrow>
        (Inr file, z\<lparr>zfs_world := w, zfs_open := (if file = 0 then zfs_open z else file # zfs_open z)\<rparr>))"

definition zip_fread :: "'w zip_calls \<Rightarrow> nat \<Rightarrow> nat \<Rightarrow> ('w zip_fs, int \<times> bytes) io" where
  "zip_fread zc file n z =
     (if file \<notin> set (zfs_open z) then (Inl Undefined, z)
      else case zc_fread zc file n (zfs_world z) of (r, w) \<Rightarrow> (Inr r, z\<lparr>zfs_world := w\<rparr>))"

definition zip_fclose :: "'w zip_calls \<Rightarrow> nat \<Rightarrow> ('w zip_fs, unit) io" where
  "zip_fclose zc file z =
     (if file \<notin> set (zfs_open z) then (Inl Undefined, z)
      else (Inr (), z\<lparr>zfs_world := zc_fclose zc file (zfs_world z), zfs_open := remove1 file (zfs_open z)\<rparr>))"

definition throw_archive :: "'w zip_calls \<Rightarrow> ('w zip_fs, 'a) io" where
  "throw_archive zc z = (throw (LibZipException (zc_error zc (zfs_archive z) (zfs_world z))), z)"

definition throw_zip_file :: "'w zip_calls \<Rightarrow> nat \<Rightarrow> ('w zip_fs, 'a) io" where
  "throw_zip_file zc file z = (throw (LibZipException (zc_file_error zc file (zfs_world z))), z)"

section \<open>Opening an archive\<close>

definition zip_fs_of :: "nat \<Rightarrow> 'w \<Rightarrow> 'w zip_fs" where
  "zip_fs_of archive w =
     \<lparr>zfs_archive = archive, zfs_current = empty_path, zfs_files = [], zfs_dirs = [], zfs_open = [], zfs_world = w\<rparr>"

definition zip_fs_open :: "'w zip_calls \<Rightarrow> bstring \<Rightarrow> 'w \<Rightarrow> 'w zip_fs result \<times> 'w" where
  "zip_fs_open zc filepath w =
     (case zc_open zc (c_string filepath) w of ((archive, e), w') \<Rightarrow>
        (if archive = 0 then throw (LibZipException e) else Inr (zip_fs_of archive w'), w'))"

text \<open>From a stream: only a file stream of the POSIX filesystem has a descriptor to duplicate.\<close>

definition zip_fs_of_stream ::
    "'w zip_calls \<Rightarrow> 'w os_calls \<Rightarrow> file_stream option \<Rightarrow> 'w \<Rightarrow> 'w zip_fs result \<times> 'w" where
  "zip_fs_of_stream zc os stream =
     (case stream of
        None \<Rightarrow> return_w (throw (NotSupportedException ''''))
      | Some f \<Rightarrow>
          bind_w (posix_duplicate os (fs_handle f)) (\<lambda>fd w.
          (case zc_fdopen zc (handle_fd fd) w of ((archive, e), w') \<Rightarrow>
             if archive = 0
             then bind_w (posix_close os fd) (\<lambda>_. return_w (throw (LibZipException e))) w'
             else (Inr (zip_fs_of archive w'), w'))))"

definition zip_fs_destroy :: "'w zip_calls \<Rightarrow> 'w zip_fs \<Rightarrow> 'w" where
  "zip_fs_destroy zc z = zc_close zc (zfs_archive z) (zfs_world z)"

section \<open>Paths\<close>

definition slash :: bstring where
  "slash = \<lparr>bs_buffer = \<lparr>d_block = [0x2F, 0], d_length = 2, d_owned = True\<rparr>, bs_cached = 0\<rparr>"

definition last_character :: "bstring \<Rightarrow> u32 result" where
  "last_character s = bind_r (string_get_length s) (\<lambda>(n, s'). string_get_character s' (size_sub n 1))"

definition transform_path :: "(nat \<Rightarrow> u8) \<Rightarrow> bstring \<Rightarrow> bstring \<Rightarrow> bstring result" where
  "transform_path g current path =
     bind_r (string_get_length current) (\<lambda>(n, cur).
     if n \<noteq> 0 then bind_r (file_path cur) (\<lambda>p. path_combine g p path) else Inr (string_copy path))"

definition transform_path_reverse :: "(nat \<Rightarrow> u8) \<Rightarrow> bstring \<Rightarrow> bstring \<Rightarrow> bstring result" where
  "transform_path_reverse g current path =
     bind_r (string_get_length current) (\<lambda>(n, cur).
     bind_r (if n \<noteq> 0 then bind_r (string_append g cur slash) (\<lambda>c. string_compare_len path c n) else Inr 1) (\<lambda>c.
     if n \<noteq> 0 \<and> c = 0 then string_substring g path (size_add n 1) npos else Inr (string_copy path)))"

section \<open>Files\<close>

definition zip_open ::
    "(nat \<Rightarrow> u8) \<Rightarrow> 'w zip_calls \<Rightarrow> bstring \<Rightarrow> open_mode \<Rightarrow> ('w zip_fs, nat) io" where
  "zip_open g zc path createmode z =
     (if open_mode_flag createmode \<noteq> open_mode_flag Open then (throw (NotImplementedException ''''), z)
      else
        bind_w (return_w (transform_path g (zfs_current z) path)) (\<lambda>p.
        let index = zc_name_locate zc (zfs_archive z) (c_string p) in
        if index < 0 then return_w (throw (FileNotFoundException (path_text path)))
        else bind_w (zip_fopen zc index) (\<lambda>file.
             if file = 0 then throw_archive zc else new_zip_file file index)) z)"

definition zip_read :: "'w zip_calls \<Rightarrow> nat \<Rightarrow> nat \<Rightarrow> ('w zip_fs, nat \<times> bytes) io" where
  "zip_read zc fd n =
     bind_w (get_zip_file fd) (\<lambda>f.
     bind_w (zip_fread zc (zf_file f) n) (\<lambda>(r, data).
     if r < 0 then throw_zip_file zc (zf_file f)
     else bind_w (set_zip_file fd (f\<lparr>zf_position := zf_position f + r\<rparr>)) (\<lambda>_. return_w (Inr (u64_of r, data)))))"

definition zip_not_implemented :: "('w zip_fs, 'a) io" where
  "zip_not_implemented = return_w (throw (NotImplementedException ''''))"

definition zip_truncate :: "nat \<Rightarrow> nat \<Rightarrow> ('w zip_fs, unit) io" where
  "zip_truncate fd len = zip_not_implemented"
definition zip_is_file :: "bstring \<Rightarrow> ('w zip_fs, bool) io" where
  "zip_is_file path = zip_not_implemented"
definition zip_is_directory :: "bstring \<Rightarrow> ('w zip_fs, bool) io" where
  "zip_is_directory path = zip_not_implemented"
definition zip_delete_file :: "bstring \<Rightarrow> ('w zip_fs, unit) io" where
  "zip_delete_file path = zip_not_implemented"
definition zip_delete_directory :: "bstring \<Rightarrow> bool \<Rightarrow> ('w zip_fs, unit) io" where
  "zip_delete_directory path recursive = zip_not_implemented"
definition zip_create_file :: "bstring \<Rightarrow> int \<Rightarrow> ('w zip_fs, unit) io" where
  "zip_create_file path permissions = zip_not_implemented"
definition zip_create_directory :: "bstring \<Rightarrow> int \<Rightarrow> ('w zip_fs, unit) io" where
  "zip_create_directory path permissions = zip_not_implemented"

definition zip_tell :: "nat \<Rightarrow> ('w zip_fs, nat) io" where
  "zip_tell fd = bind_w (get_zip_file fd) (\<lambda>f. return_w (Inr (u64_of (zf_position f))))"

definition zip_duplicate :: "nat \<Rightarrow> ('w zip_fs, nat) io" where
  "zip_duplicate fd =
     (if fd = 0 then return_w (throw (InvalidArgumentException ''''))
      else bind_w (get_zip_file fd) (\<lambda>f. new_zip_file (zf_file f) (zf_index f)))"

definition zip_close :: "'w zip_calls \<Rightarrow> nat \<Rightarrow> ('w zip_fs, unit) io" where
  "zip_close zc fd =
     (if fd = 0 then return_w (throw (InvalidArgumentException ''''))
      else
        bind_w (get_zip_file fd) (\<lambda>f.
        bind_w (if zf_file f \<noteq> 0 then zip_fclose zc (zf_file f) else return_w (Inr ())) (\<lambda>_ z.
        (Inr (), z\<lparr>zfs_files := (zfs_files z)[fd - 1 := None]\<rparr>))))"

definition zip_flush :: "nat \<Rightarrow> ('w zip_fs, unit) io" where
  "zip_flush fd = return_w (Inr ())"

text \<open>The loop of \<^verbatim>\<open>Seek\<close> reads on until the offset, in blocks of 256 bytes.\<close>

function zip_skip :: "'w zip_calls \<Rightarrow> nat \<Rightarrow> int \<Rightarrow> ('w zip_fs, unit) io" where
  "zip_skip zc fd offset z =
     (if offset \<le> 0 then (Inr (), z)
      else
        let toread = min 0x100 offset in
        (case get_zip_file fd z of
           (Inl e, z1) \<Rightarrow> (Inl e, z1)
         | (Inr f, z1) \<Rightarrow>
             (case zip_fread zc (zf_file f) (nat toread) z1 of
                (Inl e, z2) \<Rightarrow> (Inl e, z2)
              | (Inr (ret, data), z2) \<Rightarrow>
                  if ret < 0 then throw_zip_file zc (zf_file f) z2
                  else
                    let z3 = snd (set_zip_file fd (f\<lparr>zf_position := zf_position f + ret\<rparr>) z2) in
                    if ret < toread then (Inr (), z3) else zip_skip zc fd (offset - ret) z3)))"
  by pat_completeness auto
termination by (relation "measure (\<lambda>(zc, fd, offset, z). nat offset)") auto

declare zip_skip.simps [simp del]

definition seek_end :: int where
  "seek_end = 2"

definition zip_seek :: "'w zip_calls \<Rightarrow> nat \<Rightarrow> int \<Rightarrow> int \<Rightarrow> ('w zip_fs, unit) io" where
  "zip_seek zc fd offset whence =
     bind_w (get_zip_file fd) (\<lambda>f z.
     bind_w
       (if whence = seek_cur then return_w (Inr (s64 (offset + zf_position f)))
        else if whence = seek_end then
          (case zc_stat_index zc (zfs_archive z) (zf_index f) of
             None \<Rightarrow> throw_archive zc
           | Some st \<Rightarrow> return_w (case zs_size st of None \<Rightarrow> Inl Undefined | Some n \<Rightarrow> Inr (s64 (offset + int n))))
        else return_w (Inr offset)) (\<lambda>target.
     if target < zf_position f then
       bind_w (zip_fclose zc (zf_file f)) (\<lambda>_.
       bind_w (zip_fopen zc (zf_index f)) (\<lambda>file.
       bind_w (set_zip_file fd (f\<lparr>zf_position := 0, zf_file := file\<rparr>)) (\<lambda>_.
       if file = 0 then throw_archive zc else zip_skip zc fd target)))
     else zip_skip zc fd (target - zf_position f)) z)"

section \<open>Entries\<close>

definition stat_from_zip_stat :: "nat \<Rightarrow> zip_stat \<Rightarrow> stat_info result" where
  "stat_from_zip_stat archive st =
     (let name = cstr_name (zs_name st) in
      if name = [] then Inl Undefined
      else Inr (stat_zero\<lparr>
        st_mode := (if last name = 0x2F \<or> last name = 0x5C then 0x4000 else 0x8000),
        st_dev := archive,
        st_ino := (case zs_index st of None \<Rightarrow> 0 | Some n \<Rightarrow> n),
        st_size := (case zs_size st of None \<Rightarrow> 0 | Some n \<Rightarrow> int n),
        st_blocks := (case zs_comp_size st of None \<Rightarrow> 0 | Some n \<Rightarrow> 1),
        st_blksize := (case zs_comp_size st of None \<Rightarrow> 0 | Some n \<Rightarrow> int n),
        st_mtime := (case zs_mtime st of None \<Rightarrow> 0 | Some n \<Rightarrow> n)\<rparr>))"

definition info_of_zip_stat :: "(nat \<Rightarrow> u8) \<Rightarrow> nat \<Rightarrow> bstring \<Rightarrow> zip_stat \<Rightarrow> file_info result" where
  "info_of_zip_stat g archive current st =
     bind_r (stat_from_zip_stat archive st) (\<lambda>s.
     bind_r (string_of_cstr g (zs_name st) npos) (\<lambda>name.
     bind_r (transform_path_reverse g current name) (\<lambda>p.
     bind_r (file_path p) (\<lambda>p'. Inr \<lparr>fi_stat = s, fi_path = p'\<rparr>))))"

partial_function (option) zip_stat_path ::
    "(nat \<Rightarrow> u8) \<Rightarrow> 'w zip_calls \<Rightarrow> 'w zip_fs \<Rightarrow> bstring \<Rightarrow> file_info result option" where
  "zip_stat_path g zc z path =
     (case transform_path g (zfs_current z) path of
        Inl e \<Rightarrow> Some (Inl e)
      | Inr p \<Rightarrow>
          (case zc_stat zc (zfs_archive z) (c_string p) of
             Some st \<Rightarrow> Some (info_of_zip_stat g (zfs_archive z) (zfs_current z) st)
           | None \<Rightarrow>
               (case last_character path of
                  Inl e \<Rightarrow> Some (Inl e)
                | Inr c \<Rightarrow>
                    if c \<noteq> 0x2F then
                      (case string_append g path slash of
                         Inl e \<Rightarrow> Some (Inl e)
                       | Inr path' \<Rightarrow> zip_stat_path g zc z path')
                    else Some (throw (FileNotFoundException (path_text path))))))"

definition zip_file_stat :: "(nat \<Rightarrow> u8) \<Rightarrow> 'w zip_calls \<Rightarrow> nat \<Rightarrow> ('w zip_fs, file_info) io" where
  "zip_file_stat g zc fd =
     bind_w (get_zip_file fd) (\<lambda>f z.
     (case zc_stat_index zc (zfs_archive z) (zf_index f) of
        None \<Rightarrow> throw (FileNotFoundException ''Zip file index'')
      | Some st \<Rightarrow> info_of_zip_stat g (zfs_archive z) (zfs_current z) st, z))"

partial_function (option) zip_exists ::
    "(nat \<Rightarrow> u8) \<Rightarrow> 'w zip_calls \<Rightarrow> 'w zip_fs \<Rightarrow> bstring \<Rightarrow> bool result option" where
  "zip_exists g zc z path =
     (case transform_path g (zfs_current z) path of
        Inl e \<Rightarrow> Some (Inl e)
      | Inr p \<Rightarrow>
          if zc_stat zc (zfs_archive z) (c_string p) \<noteq> None then Some (Inr True)
          else
            (case string_get_length path of
               Inl e \<Rightarrow> Some (Inl e)
             | Inr (n, path1) \<Rightarrow>
                 if n = 0 then Some (Inr False)
                 else
                   (case string_get_character path1 (size_sub n 1) of
                      Inl e \<Rightarrow> Some (Inl e)
                    | Inr c \<Rightarrow>
                        if c \<noteq> 0x2F then
                          (case string_append g path1 slash of
                             Inl e \<Rightarrow> Some (Inl e)
                           | Inr path' \<Rightarrow> zip_exists g zc z path')
                        else Some (Inr False))))"

section \<open>Directories\<close>

definition ends_with_separator :: "bytes \<Rightarrow> bool result" where
  "ends_with_separator m =
     (let name = cstr_name m in
      if name = [] then Inl Undefined else Inr (last name = 0x2F \<or> last name = 0x5C))"

definition zip_open_directory :: "(nat \<Rightarrow> u8) \<Rightarrow> 'w zip_calls \<Rightarrow> bstring \<Rightarrow> ('w zip_fs, nat) io" where
  "zip_open_directory g zc path z =
     bind_w (return_w (
       bind_r (transform_path g (zfs_current z) path) (\<lambda>zippath.
       bind_r (last_character zippath) (\<lambda>c.
       bind_r (if c \<noteq> 0x2F then string_append_assign g zippath slash else Inr zippath) (\<lambda>zippath'.
       (let index = zc_name_locate zc (zfs_archive z) (c_string zippath') in
        if index < 0 then throw (FileNotFoundException (path_text path))
        else (case zc_get_name zc (zfs_archive z) index of
                None \<Rightarrow> Inl Undefined
              | Some name \<Rightarrow> bind_r (ends_with_separator name) (\<lambda>ok.
                  if ok then Inr index else throw (FileNotFoundException (path_text path))))))))))
       (\<lambda>index z. (Inr (Suc (length (zfs_dirs z))),
          z\<lparr>zfs_dirs := zfs_dirs z @ [Some \<lparr>zd_index = index, zd_position = index + 1\<rparr>]\<rparr>)) z"

definition get_zip_dir :: "nat \<Rightarrow> ('w zip_fs, zip_dir) io" where
  "get_zip_dir fd z = (handle_object (zfs_dirs z) fd, z)"

definition set_zip_dir :: "nat \<Rightarrow> zip_dir \<Rightarrow> 'w zip_fs \<Rightarrow> 'w zip_fs" where
  "set_zip_dir fd d z = z\<lparr>zfs_dirs := (zfs_dirs z)[fd - 1 := Some d]\<rparr>"

text \<open>The loop over the entries after the directory; it ends at the first index without an entry.\<close>

partial_function (option) zip_read_entries ::
    "'w zip_calls \<Rightarrow> nat \<Rightarrow> bytes \<Rightarrow> int \<Rightarrow> (zip_stat option result \<times> int) option" where
  "zip_read_entries zc archive dirname position =
     (case zc_stat_index zc archive position of
        None \<Rightarrow> Some (Inr None, position)
      | Some st \<Rightarrow>
          (case zc_get_name zc archive position of
             None \<Rightarrow> Some (Inl Undefined, position + 1)
           | Some filename \<Rightarrow>
               (case c_strncmp dirname filename (length (cstr_name dirname)) of
                  Inl e \<Rightarrow> Some (Inl e, position + 1)
                | Inr c \<Rightarrow>
                    if c \<noteq> 0 then zip_read_entries zc archive dirname (position + 1)
                    else Some (Inr (Some st), position + 1))))"

definition node_of_zip_stat :: "(nat \<Rightarrow> u8) \<Rightarrow> nat \<Rightarrow> zip_stat \<Rightarrow> fs_node result" where
  "node_of_zip_stat g archive st =
     bind_r (stat_from_zip_stat archive st) (\<lambda>s.
     bind_r (string_of_cstr g (zs_name st) npos) (\<lambda>name.
     bind_r (file_path name) (\<lambda>p. Inr (node_of_info \<lparr>fi_stat = s, fi_path = p\<rparr>))))"

definition zip_read_directory ::
    "(nat \<Rightarrow> u8) \<Rightarrow> 'w zip_calls \<Rightarrow> nat \<Rightarrow> 'w zip_fs \<Rightarrow> (fs_node option result \<times> 'w zip_fs) option" where
  "zip_read_directory g zc fd z =
     (case handle_object (zfs_dirs z) fd of
        Inl e \<Rightarrow> Some (Inl e, z)
      | Inr d \<Rightarrow>
          (case zc_get_name zc (zfs_archive z) (zd_index d) of
             None \<Rightarrow> Some (Inl Undefined, z)
           | Some dirname \<Rightarrow>
               map_option (\<lambda>(r, position).
                 (bind_r r (\<lambda>st. case st of None \<Rightarrow> Inr None | Some st \<Rightarrow> bind_r (node_of_zip_stat g (zfs_archive z) st) (\<lambda>n. Inr (Some n))),
                  set_zip_dir fd (d\<lparr>zd_position := position\<rparr>) z))
                 (zip_read_entries zc (zfs_archive z) dirname (zd_position d))))"

definition zip_tell_directory :: "nat \<Rightarrow> ('w zip_fs, nat) io" where
  "zip_tell_directory fd = bind_w (get_zip_dir fd) (\<lambda>d. return_w (Inr (u64_of (zd_position d))))"

definition zip_seek_directory :: "nat \<Rightarrow> nat \<Rightarrow> ('w zip_fs, unit) io" where
  "zip_seek_directory fd offset =
     bind_w (get_zip_dir fd) (\<lambda>d z. (Inr (), set_zip_dir fd (d\<lparr>zd_position := s32 (int offset)\<rparr>) z))"

definition zip_close_directory :: "nat \<Rightarrow> ('w zip_fs, unit) io" where
  "zip_close_directory fd =
     (if fd = 0 then return_w (throw (InvalidArgumentException ''''))
      else bind_w (get_zip_dir fd) (\<lambda>d z. (Inr (), z\<lparr>zfs_dirs := (zfs_dirs z)[fd - 1 := None]\<rparr>)))"

definition zip_get_current_directory :: "'w zip_fs \<Rightarrow> bstring" where
  "zip_get_current_directory z = string_copy (zfs_current z)"

definition zip_change_current_directory :: "bstring \<Rightarrow> ('w zip_fs, unit) io" where
  "zip_change_current_directory path z = (Inr (), z\<lparr>zfs_current := string_assign (zfs_current z) path\<rparr>)"

section \<open>Seeking\<close>

text \<open>What libzip documents of the files of one entry: \<open>at file w\<close> is the position of the open file
  \<open>file\<close> in its uncompressed data of \<open>len\<close> bytes; a read returns what is asked for or what
  is left.\<close>

definition zip_reads :: "'w zip_calls \<Rightarrow> nat set \<Rightarrow> (nat \<Rightarrow> 'w \<Rightarrow> nat) \<Rightarrow> nat \<Rightarrow> bool" where
  "zip_reads zc F at len \<longleftrightarrow> (\<forall>file \<in> F. \<forall>n w. \<exists>data w'.
     zc_fread zc file n w = ((int (min n (len - at file w)), data), w') \<and>
     at file w' = at file w + min n (len - at file w))"

definition zip_reopens :: "'w zip_calls \<Rightarrow> nat \<Rightarrow> int \<Rightarrow> nat set \<Rightarrow> (nat \<Rightarrow> 'w \<Rightarrow> nat) \<Rightarrow> bool" where
  "zip_reopens zc archive index F at \<longleftrightarrow> (\<forall>w. \<exists>file w'.
     zc_fopen_index zc archive index w = (file, w') \<and> file \<noteq> 0 \<and> file \<in> F \<and> at file w' = 0)"

definition file_at :: "nat set \<Rightarrow> (nat \<Rightarrow> 'w \<Rightarrow> nat) \<Rightarrow> nat \<Rightarrow> nat \<Rightarrow> zip_file \<Rightarrow> 'w zip_fs \<Rightarrow> bool" where
  "file_at F at len fd f z \<longleftrightarrow> handle_object (zfs_files z) fd = Inr f \<and> zf_file f \<in> F \<and> zf_file f \<in> set (zfs_open z) \<and>
     zf_position f = int (at (zf_file f) (zfs_world z)) \<and> at (zf_file f) (zfs_world z) \<le> len"

lemma handle_object_update:
  "handle_object os fd = Inr x \<Longrightarrow> handle_object (os[fd - 1 := Some y]) fd = Inr y"
  by (auto simp: handle_object_def peek_def split: if_splits)

lemma min_second: "int (min a b) < int a \<Longrightarrow> min a b = b"
  by auto

lemma zip_skip_exact:
  assumes c: "zip_reads zc F at len" and "file_at F at len fd f z" and "0 \<le> offset"
  shows "\<exists>z'. zip_skip zc fd offset z = (Inr (), z') \<and>
    file_at F at len fd (f\<lparr>zf_position := min (zf_position f + offset) (int len)\<rparr>) z'"
  using assms(2,3)
proof (induction "nat offset" arbitrary: offset f z rule: less_induct)
  case less
  show ?case
  proof (cases "offset = 0")
    case True
    then show ?thesis using less.prems by (subst zip_skip.simps) (auto simp: file_at_def)
  next
    case False
    let ?n = "min 0x100 offset"
    let ?file = "zf_file f"
    have n: "0 < ?n" "nat ?n \<le> nat offset" "int (nat ?n) = ?n" using False less.prems(2) by auto
    obtain data w' where r: "zc_fread zc ?file (nat ?n) (zfs_world z) =
        ((int (min (nat ?n) (len - at ?file (zfs_world z))), data), w')"
      "at ?file w' = at ?file (zfs_world z) + min (nat ?n) (len - at ?file (zfs_world z))"
      using c less.prems(1) unfolding zip_reads_def file_at_def by blast
    define ret where "ret = min (nat ?n) (len - at ?file (zfs_world z))"
    define f' where "f' = f\<lparr>zf_position := zf_position f + int ret\<rparr>"
    define z' where "z' = z\<lparr>zfs_world := w', zfs_files := (zfs_files z)[fd - 1 := Some f']\<rparr>"
    have g: "get_zip_file fd z = (Inr f, z)" "?file \<in> set (zfs_open z)"
      using less.prems(1) by (simp_all add: get_zip_file_def file_at_def)
    have step: "zip_skip zc fd offset z = (if int ret < ?n then (Inr (), z') else zip_skip zc fd (offset - int ret) z')"
      using g False less.prems(2) r(1)
      by (subst zip_skip.simps) (simp add: zip_fread_def set_zip_file_def Let_def z'_def f'_def flip: ret_def)
    have at': "file_at F at len fd f' z'"
      using less.prems(1) r(2) handle_object_update [of "zfs_files z" fd f f']
      by (auto simp: file_at_def f'_def z'_def ret_def)
    show ?thesis
    proof (cases "int ret < ?n")
      case True
      then have "int ret < int (nat ?n)" using n(3) by linarith
      then have "ret = len - at ?file (zfs_world z)" unfolding ret_def by (rule min_second)
      then have "min (zf_position f + offset) (int len) = zf_position f + int ret"
        using True less.prems(1) by (auto simp: file_at_def)
      then show ?thesis using step True at' by (simp add: f'_def)
    next
      case False
      then have ret: "int ret = ?n" using n(3) unfolding ret_def by linarith
      then have "nat (offset - int ret) < nat offset" "0 \<le> offset - int ret" using n(1) less.prems(2) by auto
      from less.hyps [OF this(1) at' this(2)] obtain z'' where
        "zip_skip zc fd (offset - int ret) z' = (Inr (), z'')"
        "file_at F at len fd (f'\<lparr>zf_position := min (zf_position f' + (offset - int ret)) (int len)\<rparr>) z''"
        by blast
      then show ?thesis using step unfolding if_not_P [OF False] by (simp add: f'_def)
    qed
  qed
qed


text \<open>An archive with one file of ten bytes; the world is the position in it.\<close>

definition ten_bytes :: "nat zip_calls" where
  "ten_bytes = \<lparr>zc_open = (\<lambda>_ w. ((1, 0), w)), zc_fdopen = (\<lambda>_ w. ((1, 0), w)), zc_close = (\<lambda>_ w. w),
     zc_error = (\<lambda>_ _. 0), zc_file_error = (\<lambda>_ _. 0), zc_name_locate = (\<lambda>_ _. 0), zc_get_name = (\<lambda>_ _. Some [0x61, 0]),
     zc_stat = (\<lambda>_ _. None), zc_stat_index = (\<lambda>_ _. Some \<lparr>zs_name = [0x61, 0], zs_index = None, zs_size = Some 10, zs_comp_size = None, zs_mtime = None\<rparr>),
     zc_fopen_index = (\<lambda>_ _ w. (1, 0)),
     zc_fread = (\<lambda>_ n w. ((int (min n (10 - w)), replicate (min n (10 - w)) 7), w + min n (10 - w))), zc_fclose = (\<lambda>_ w. w)\<rparr>"

definition ten_bytes_open :: "nat zip_fs" where
  "ten_bytes_open = \<lparr>zfs_archive = 1, zfs_current = empty_path, zfs_files = [Some \<lparr>zf_file = 1, zf_index = 0, zf_position = 4\<rparr>],
     zfs_dirs = [], zfs_open = [1], zfs_world = 4\<rparr>"


section \<open>What the code does not do\<close>

text \<open>The default of \<^verbatim>\<open>Open\<close> asks for a new file and always throws.\<close>

lemma zip_open_default_throws: "zip_open g zc path Create z = (throw (NotImplementedException ''''), z)"
  by (simp add: zip_open_def o_creat_def o_trunc_def)

text \<open>A duplicate shares the libzip file: closing both closes it twice.\<close>

lemma zip_duplicate_closed_twice:
  assumes "handle_object (zfs_files z) fd = Inr f" and "fd \<noteq> 0" and "zf_file f \<noteq> 0"
    and "zf_file f \<in> set (zfs_open z)" and "distinct (zfs_open z)"
  shows "\<exists>fd' z1 z2. zip_duplicate fd z = (Inr fd', z1) \<and> zip_close zc fd z1 = (Inr (), z2) \<and>
    fst (zip_close zc fd' z2) = Inl Undefined"
proof -
  let ?f' = "\<lparr>zf_file = zf_file f, zf_index = zf_index f, zf_position = 0\<rparr>"
  let ?z1 = "z\<lparr>zfs_files := zfs_files z @ [Some ?f']\<rparr>"
  have fd: "fd - 1 < length (zfs_files z)" "zfs_files z ! (fd - 1) = Some f"
    using assms(1,2) by (auto simp: handle_object_def peek_def bind_r_Inr_iff split: if_splits option.splits)
  have dup: "zip_duplicate fd z = (Inr (Suc (length (zfs_files z))), ?z1)"
    using assms(1,2) by (simp add: zip_duplicate_def bind_w_def get_zip_file_def new_zip_file_def)
  have close: "zip_close zc fd ?z1 = (Inr (), ?z1\<lparr>zfs_world := zc_fclose zc (zf_file f) (zfs_world z),
      zfs_open := remove1 (zf_file f) (zfs_open z), zfs_files := (zfs_files ?z1)[fd - 1 := None]\<rparr>)" (is "_ = (_, ?z2)")
    using assms(2-4) fd
    by (simp add: zip_close_def bind_w_def get_zip_file_def handle_object_def peek_def nth_append zip_fclose_def)
  have "handle_object (zfs_files ?z2) (Suc (length (zfs_files z))) = Inr ?f'"
    using fd by (simp add: handle_object_def peek_def nth_append list_update_append)
  then have "fst (zip_close zc (Suc (length (zfs_files z))) ?z2) = Inl Undefined"
    using assms(3,5) by (simp add: zip_close_def bind_w_def get_zip_file_def zip_fclose_def)
  with dup close show ?thesis by blast
qed

text \<open>Reading a directory ends in every archive with finitely many entries.\<close>

lemma zip_read_entries_returns:
  assumes "\<And>i. n \<le> i \<Longrightarrow> zc_stat_index zc archive i = None"
  shows "\<exists>r. zip_read_entries zc archive dirname position = Some r"
proof (induction "nat (n - position)" arbitrary: position)
  case 0
  then show ?case using assms [of position] by (subst zip_read_entries.simps) simp
next
  case (Suc k)
  then have "\<exists>r. zip_read_entries zc archive dirname (position + 1) = Some r" by simp
  then show ?case by (subst zip_read_entries.simps) (auto split: option.split sum.split)
qed

end
