(* ===== verification/Audio.thy ===== *)
theory Audio
  imports Prelude
begin

text \<open>
  Audio buffers and codecs (\<^verbatim>\<open>include/bricks/audio/audiobuffer.h\<close>,
  \<^verbatim>\<open>include/bricks/audio/audiocodec.h\<close>): blocks of samples by channel, the codec base class and
  the codecs that silence, amplify and convert.  The fields are 32 bit words and their arithmetic
  wraps; a sample is of any type.  A codec is a record of its virtual methods over its state.
  Source and target of a copy are different buffers.
\<close>

section \<open>Buffers\<close>

record 'a audio_buffer =
  ab_buffer :: "'a list list"
  ab_allocated :: u32
  ab_channels :: u32
  ab_size :: u32

text \<open>\<^verbatim>\<open>buffer[i]\<close> for a channel \<open>i\<close>, changed by an operation on its samples.\<close>

definition row_apply :: "('a list \<Rightarrow> 'a list result) \<Rightarrow> u32 \<Rightarrow> 'a list list \<Rightarrow> 'a list list result" where
  "row_apply h i b = bind_r (peek b (unat i)) (\<lambda>m. bind_r (h m) (\<lambda>m'. Inr (b[unat i := m'])))"

definition get_sample :: "'a list list \<Rightarrow> u32 \<Rightarrow> u32 \<Rightarrow> 'a result" where
  "get_sample b i k = bind_r (peek b (unat i)) (\<lambda>m. peek m (unat k))"

definition set_sample :: "'a list list \<Rightarrow> u32 \<Rightarrow> u32 \<Rightarrow> 'a \<Rightarrow> 'a list list result" where
  "set_sample b i k x = row_apply (\<lambda>m. poke m (unat k) x) i b"

text \<open>New samples have arbitrary values, given by channel and index.\<close>

definition audio_new :: "(nat \<Rightarrow> nat \<Rightarrow> 'a) \<Rightarrow> u32 \<Rightarrow> u32 \<Rightarrow> 'a audio_buffer" where
  "audio_new g channels count =
     \<lparr>ab_buffer = map (\<lambda>i. fresh_block (g i) (unat count)) [0..<unat channels],
      ab_allocated = count, ab_channels = channels, ab_size = count\<rparr>"

text \<open>The count of a copy: \<^verbatim>\<open>count\<close> is a signed argument, -1 for all samples.\<close>

definition copy_count :: "'a audio_buffer \<Rightarrow> 'b audio_buffer \<Rightarrow> u32 \<Rightarrow> u32 \<Rightarrow> int \<Rightarrow> u32" where
  "copy_count this dest sourceindex destindex count =
     (let c = (if count < 0 then ab_size this else word_of_int count) in
      min (min c (ab_size this - sourceindex)) (ab_size dest - destindex))"

definition audio_copy_to ::
    "'a audio_buffer \<Rightarrow> 'a audio_buffer \<Rightarrow> u32 \<Rightarrow> u32 \<Rightarrow> u32 \<Rightarrow> u32 \<Rightarrow> int \<Rightarrow> (int \<times> 'a audio_buffer) result" where
  "audio_copy_to this dest sourcechannel sourceindex destchannel destindex count =
     (let n = copy_count this dest sourceindex destindex count in
      bind_r
        (fold_r (\<lambda>i d.
           if sint n < 0 then Inl Undefined
           else bind_r (peek (ab_buffer this) (unat i)) (\<lambda>m.
                bind_r (mem_read m (unat sourceindex) (unat n)) (\<lambda>xs.
                row_apply (\<lambda>m. mem_write m (unat destindex) xs) (destchannel + i - sourcechannel) d)))
           (u32_range sourcechannel (ab_channels this)) (ab_buffer dest)) (\<lambda>d.
      Inr (sint n, dest\<lparr>ab_buffer := d\<rparr>)))"

text \<open>The overload for another sample type; \<open>conv\<close> converts one sample.\<close>

definition audio_convert_to ::
    "('a \<Rightarrow> 'b result) \<Rightarrow> 'a audio_buffer \<Rightarrow> 'b audio_buffer \<Rightarrow> u32 \<Rightarrow> u32 \<Rightarrow> u32 \<Rightarrow> u32 \<Rightarrow> int
       \<Rightarrow> (int \<times> 'b audio_buffer) result" where
  "audio_convert_to conv this dest sourcechannel sourceindex destchannel destindex count =
     (let n = copy_count this dest sourceindex destindex count in
      bind_r
        (fold_r (\<lambda>i. fold_r (\<lambda>k d.
           bind_r (get_sample (ab_buffer this) i (sourceindex + k)) (\<lambda>x.
           bind_r (conv x) (\<lambda>y.
           set_sample d (destchannel + i - sourcechannel) (destindex + k) y))) (u32_range 0 n))
           (u32_range sourcechannel (ab_channels this)) (ab_buffer dest)) (\<lambda>d.
      Inr (sint n, dest\<lparr>ab_buffer := d\<rparr>)))"

definition audio_copy :: "(nat \<Rightarrow> nat \<Rightarrow> 'a) \<Rightarrow> 'a audio_buffer \<Rightarrow> 'a audio_buffer result" where
  "audio_copy g source =
     bind_r (audio_copy_to source (audio_new g (ab_channels source) (ab_size source)) 0 0 0 0
              (sint (ab_size source))) (\<lambda>(_, b). Inr b)"

definition audio_convert ::
    "(nat \<Rightarrow> nat \<Rightarrow> 'b) \<Rightarrow> ('a \<Rightarrow> 'b result) \<Rightarrow> 'a audio_buffer \<Rightarrow> 'b audio_buffer result" where
  "audio_convert g conv source =
     bind_r (audio_convert_to conv source (audio_new g (ab_channels source) (ab_size source)) 0 0 0 0
              (sint (ab_size source))) (\<lambda>(_, b). Inr b)"

text \<open>\<^verbatim>\<open>operator=\<close>, from another buffer, reaches the end of its body with the copy and has no
  \<^verbatim>\<open>return\<close> there, which is undefined.\<close>

definition audio_assign_body :: "(nat \<Rightarrow> nat \<Rightarrow> 'a) \<Rightarrow> 'a audio_buffer \<Rightarrow> 'a audio_buffer \<Rightarrow> 'a audio_buffer result" where
  "audio_assign_body g b source =
     bind_r (audio_copy_to source
              (b\<lparr>ab_buffer := ab_buffer (audio_new g (ab_channels source) (ab_size source)),
                 ab_allocated := ab_size source, ab_channels := ab_channels source, ab_size := ab_size source\<rparr>)
              0 0 0 0 (sint (ab_size source))) (\<lambda>(_, b'). Inr b')"

definition audio_assign :: "(nat \<Rightarrow> nat \<Rightarrow> 'a) \<Rightarrow> 'a audio_buffer \<Rightarrow> 'a audio_buffer \<Rightarrow> 'a audio_buffer result" where
  "audio_assign g b source = bind_r (audio_assign_body g b source) (\<lambda>_. Inl Undefined)"

definition audio_set_size :: "(nat \<Rightarrow> nat \<Rightarrow> 'a) \<Rightarrow> u32 \<Rightarrow> 'a audio_buffer \<Rightarrow> 'a audio_buffer result" where
  "audio_set_size g v b =
     (if ab_allocated b < v then
        bind_r
          (fold_r (\<lambda>i. row_apply (\<lambda>m.
             bind_r (mem_read m 0 (unat (ab_allocated b))) (\<lambda>xs.
             mem_write (fresh_block (g (unat i)) (unat v)) 0 xs)) i)
             (u32_range 0 (ab_channels b)) (ab_buffer b)) (\<lambda>d.
        Inr (b\<lparr>ab_size := v, ab_buffer := d, ab_allocated := v\<rparr>))
      else Inr (b\<lparr>ab_size := v\<rparr>))"

definition deinterlace_from :: "'a audio_buffer \<Rightarrow> 'a list \<Rightarrow> u32 \<Rightarrow> u32 \<Rightarrow> 'a audio_buffer result" where
  "deinterlace_from b source count offset =
     bind_r
       (fold_r (\<lambda>i. fold_r (\<lambda>k d.
          bind_r (peek source (unat (k * ab_channels b + i))) (\<lambda>x. set_sample d i (k + offset) x))
          (u32_range 0 count)) (u32_range 0 (ab_channels b)) (ab_buffer b)) (\<lambda>d.
     Inr (b\<lparr>ab_buffer := d\<rparr>))"

definition interlace_to :: "'a audio_buffer \<Rightarrow> 'a list \<Rightarrow> u32 \<Rightarrow> u32 \<Rightarrow> 'a list result" where
  "interlace_to b dest count offset =
     fold_r (\<lambda>k. fold_r (\<lambda>i d.
       bind_r (get_sample (ab_buffer b) i (k + offset)) (\<lambda>x. poke d (unat (k * ab_channels b + i)) x))
       (u32_range 0 (ab_channels b))) (u32_range 0 count) dest"

definition zero_rows :: "u32 \<Rightarrow> u32 \<Rightarrow> 'a::zero list list \<Rightarrow> 'a list list result" where
  "zero_rows channels n =
     fold_r (row_apply (\<lambda>m. mem_write m 0 (replicate (unat n) 0))) (u32_range 0 channels)"

definition audio_zero :: "'a::zero audio_buffer \<Rightarrow> 'a audio_buffer result" where
  "audio_zero b = bind_r (zero_rows (ab_channels b) (ab_size b) (ab_buffer b)) (\<lambda>d. Inr (b\<lparr>ab_buffer := d\<rparr>))"

text \<open>\<^verbatim>\<open>ConvertSample\<close> between the integer types that are promoted to \<^verbatim>\<open>int\<close>, with the maxima of
  \<^verbatim>\<open>NumericTraits\<close> as they are stored in their types.\<close>

datatype sample_type = S8 | U8 | S16 | U16

fun sample_max :: "sample_type \<Rightarrow> int" where
  "sample_max S8 = signed_take_bit 7 0x80"
| "sample_max U8 = 0xFF"
| "sample_max S16 = signed_take_bit 15 0x8000"
| "sample_max U16 = 0xFFFF"

fun sample_cast :: "sample_type \<Rightarrow> int \<Rightarrow> int" where
  "sample_cast S8 x = signed_take_bit 7 x"
| "sample_cast U8 x = take_bit 8 x"
| "sample_cast S16 x = signed_take_bit 15 x"
| "sample_cast U16 x = take_bit 16 x"

definition convert_sample :: "sample_type \<Rightarrow> sample_type \<Rightarrow> int \<Rightarrow> int result" where
  "convert_sample t tsrc x =
     (let p = x * sample_max t in
      if s32 p \<noteq> p then Inl Undefined else Inr (sample_cast t (c_div p (sample_max tsrc))))"

section \<open>Codecs\<close>

record ('c, 'a) codec_ops =
  co_channels :: "'c \<Rightarrow> u32"
  co_sample_rate :: "'c \<Rightarrow> u32"
  co_bit_rate :: "'c \<Rightarrow> u32"
  co_samples :: "'c \<Rightarrow> int"
  co_position :: "'c \<Rightarrow> int"
  co_read :: "'a audio_buffer \<Rightarrow> u32 \<Rightarrow> u32 \<Rightarrow> 'c \<Rightarrow> ((u32 \<times> 'a audio_buffer) \<times> 'c) result"
  co_seek :: "int \<Rightarrow> 'c \<Rightarrow> 'c result"
  co_write :: "'a audio_buffer \<Rightarrow> u32 \<Rightarrow> u32 \<Rightarrow> 'c \<Rightarrow> 'c result"

record audio_codec =
  ac_channels :: u32
  ac_sample_rate :: u32
  ac_samples :: int
  ac_bit_rate :: u32
  ac_position :: int

definition codec_read :: "'a audio_buffer \<Rightarrow> u32 \<Rightarrow> u32 \<Rightarrow> audio_codec \<Rightarrow> ((u32 \<times> 'a audio_buffer) \<times> audio_codec) result" where
  "codec_read b count offset c = Inr ((count, b), c\<lparr>ac_position := s64 (ac_position c + uint count)\<rparr>)"

definition codec_seek :: "int \<Rightarrow> audio_codec \<Rightarrow> audio_codec result" where
  "codec_seek sample c = Inr (c\<lparr>ac_position := sample\<rparr>)"

definition codec_write :: "'a audio_buffer \<Rightarrow> u32 \<Rightarrow> u32 \<Rightarrow> audio_codec \<Rightarrow> audio_codec result" where
  "codec_write b count offset c = Inr (c\<lparr>ac_position := s64 (ac_position c + uint count)\<rparr>)"

definition audio_codec_ops :: "(audio_codec, 'a) codec_ops" where
  "audio_codec_ops =
     \<lparr>co_channels = ac_channels, co_sample_rate = ac_sample_rate, co_bit_rate = ac_bit_rate,
      co_samples = ac_samples, co_position = ac_position,
      co_read = codec_read, co_seek = codec_seek, co_write = codec_write\<rparr>"

text \<open>\<^verbatim>\<open>NullCodec\<close>; \<open>fmin\<close> is the macro \<^verbatim>\<open>BRICKS_FEATURE_MIN\<close>, which no file defines.\<close>

definition null_read ::
    "(int \<Rightarrow> int \<Rightarrow> int) \<Rightarrow> 'a::zero audio_buffer \<Rightarrow> u32 \<Rightarrow> u32 \<Rightarrow> audio_codec
       \<Rightarrow> ((u32 \<times> 'a audio_buffer) \<times> audio_codec) result" where
  "null_read fmin b count offset c =
     (let n = word_of_int (fmin (uint count) (s64 (ac_samples c - ac_position c))) in
      bind_r (zero_rows (ac_channels c) n (ab_buffer b)) (\<lambda>d.
      bind_r (codec_read (b\<lparr>ab_buffer := d\<rparr>) n offset c) (\<lambda>((_, b'), c').
      Inr ((n, b'), c'))))"

definition null_codec_ops :: "(int \<Rightarrow> int \<Rightarrow> int) \<Rightarrow> (audio_codec, 'a::zero) codec_ops" where
  "null_codec_ops fmin = audio_codec_ops\<lparr>co_read := null_read fmin\<rparr>"

text \<open>\<^verbatim>\<open>Subcodec\<close> passes every call to the codec it holds.\<close>

definition subcodec_ops :: "('c, 'a) codec_ops \<Rightarrow> ('c, 'a) codec_ops" where
  "subcodec_ops ops =
     \<lparr>co_channels = (\<lambda>c. co_channels ops c), co_sample_rate = (\<lambda>c. co_sample_rate ops c),
      co_bit_rate = (\<lambda>c. co_bit_rate ops c), co_samples = (\<lambda>c. co_samples ops c),
      co_position = (\<lambda>c. co_position ops c),
      co_read = (\<lambda>b count offset c. co_read ops b count offset c),
      co_seek = (\<lambda>sample c. co_seek ops sample c),
      co_write = (\<lambda>b count offset c. co_write ops b count offset c)\<rparr>"

text \<open>\<^verbatim>\<open>AmplifyCodec\<close>; \<open>amp\<close> multiplies a sample by the amplification of type \<^verbatim>\<open>float\<close>.\<close>

record ('c, 'f) amplify_codec =
  am_codec :: 'c
  am_amplification :: 'f

definition amplify_buffer :: "('a \<Rightarrow> 'a) \<Rightarrow> u32 \<Rightarrow> 'a audio_buffer \<Rightarrow> u32 \<Rightarrow> u32 \<Rightarrow> 'a audio_buffer result" where
  "amplify_buffer amp channels b count offset =
     bind_r
       (fold_r (\<lambda>i. fold_r (\<lambda>k. row_apply (\<lambda>m.
          bind_r (peek m (unat (k + offset))) (\<lambda>x. poke m (unat (k + offset)) (amp x))) i)
          (u32_range 0 count)) (u32_range 0 channels) (ab_buffer b)) (\<lambda>d.
     Inr (b\<lparr>ab_buffer := d\<rparr>))"

definition amplify_read ::
    "('f \<Rightarrow> 'a \<Rightarrow> 'a) \<Rightarrow> ('c, 'a) codec_ops \<Rightarrow> 'a audio_buffer \<Rightarrow> u32 \<Rightarrow> u32 \<Rightarrow> ('c, 'f) amplify_codec
       \<Rightarrow> ((u32 \<times> 'a audio_buffer) \<times> ('c, 'f) amplify_codec) result" where
  "amplify_read amp ops b count offset c =
     bind_r (co_read (subcodec_ops ops) b count offset (am_codec c)) (\<lambda>((n, b'), inner).
     bind_r (amplify_buffer (amp (am_amplification c)) (co_channels ops inner) b' n offset) (\<lambda>b''.
     Inr ((n, b''), c\<lparr>am_codec := inner\<rparr>)))"

definition amplify_write ::
    "(nat \<Rightarrow> nat \<Rightarrow> 'a) \<Rightarrow> ('f \<Rightarrow> 'a \<Rightarrow> 'a) \<Rightarrow> ('c, 'a) codec_ops \<Rightarrow> 'a audio_buffer \<Rightarrow> u32 \<Rightarrow> u32
       \<Rightarrow> ('c, 'f) amplify_codec \<Rightarrow> ('c, 'f) amplify_codec result" where
  "amplify_write g amp ops b count offset c =
     (let channels = co_channels ops (am_codec c) in
      bind_r (audio_copy_to b (audio_new g channels count) 0 offset 0 0 (sint count)) (\<lambda>(_, newbuffer).
      bind_r (amplify_buffer (amp (am_amplification c)) channels newbuffer count offset) (\<lambda>newbuffer'.
      bind_r (co_write (subcodec_ops ops) newbuffer' count offset (am_codec c)) (\<lambda>inner.
      Inr (c\<lparr>am_codec := inner\<rparr>)))))"

definition amplify_set_amplification :: "'f \<Rightarrow> ('c, 'f) amplify_codec \<Rightarrow> ('c, 'f) amplify_codec" where
  "amplify_set_amplification v c = c\<lparr>am_amplification := v\<rparr>"

text \<open>\<^verbatim>\<open>ConversionCodec\<close>: the assignment \<^verbatim>\<open>buffer = source\<close> converts the source into a temporary
  buffer first.\<close>

definition conversion_write ::
    "(nat \<Rightarrow> nat \<Rightarrow> 'a) \<Rightarrow> ('b \<Rightarrow> 'a result) \<Rightarrow> ('c, 'a) codec_ops \<Rightarrow> 'b audio_buffer \<Rightarrow> u32 \<Rightarrow> u32 \<Rightarrow> 'c \<Rightarrow> 'c result" where
  "conversion_write g conv ops b count offset c =
     bind_r (audio_convert g conv b) (\<lambda>source. co_write ops source count offset c)"

definition conversion_read ::
    "(nat \<Rightarrow> nat \<Rightarrow> 'a) \<Rightarrow> (nat \<Rightarrow> nat \<Rightarrow> 'b) \<Rightarrow> ('a \<Rightarrow> 'b result) \<Rightarrow> ('c, 'a) codec_ops
       \<Rightarrow> 'b audio_buffer \<Rightarrow> u32 \<Rightarrow> u32 \<Rightarrow> 'c \<Rightarrow> ((u32 \<times> 'b audio_buffer) \<times> 'c) result" where
  "conversion_read g g' conv ops b count offset c =
     bind_r (co_read ops (audio_new g (ab_channels b) (ab_size b)) count offset c) (\<lambda>((n, source), c').
     bind_r (audio_convert g' conv source) (\<lambda>temporary.
     bind_r (audio_assign g' b temporary) (\<lambda>b'. Inr ((n, b'), c'))))"

section \<open>Stores of independent cells\<close>

text \<open>
  A loop that visits different cells of a store and changes each by an operation of its own: every
  cell it visits is changed once, the others are kept.
\<close>

locale cell_store =
  fixes ok :: "'s \<Rightarrow> bool" and inside :: "'i \<Rightarrow> bool" and cell :: "'s \<Rightarrow> 'i \<Rightarrow> 'c"
    and apply_cell :: "('c \<Rightarrow> 'c result) \<Rightarrow> 'i \<Rightarrow> 's \<Rightarrow> 's result"
  assumes apply_ok: "ok s \<Longrightarrow> inside i \<Longrightarrow> h (cell s i) = Inr c \<Longrightarrow>
    \<exists>s'. apply_cell h i s = Inr s' \<and> ok s' \<and> cell s' i = c \<and> (\<forall>j. j \<noteq> i \<longrightarrow> cell s' j = cell s j)"
begin

lemma fold_apply:
  assumes "ok s" "distinct (map at ps)"
    and "\<And>p. p \<in> set ps \<Longrightarrow> inside (at p) \<and> h p (cell s (at p)) = Inr (x p)"
    and "\<And>p s. p \<in> set ps \<Longrightarrow> ok s \<Longrightarrow> f p s = apply_cell (h p) (at p) s"
  shows "\<exists>s'. fold_r f ps s = Inr s' \<and> ok s' \<and> (\<forall>p \<in> set ps. cell s' (at p) = x p) \<and>
    (\<forall>j. j \<notin> at ` set ps \<longrightarrow> cell s' j = cell s j)"
  using assms
proof (induction ps arbitrary: s)
  case (Cons p ps)
  obtain s1 where s1: "apply_cell (h p) (at p) s = Inr s1" "ok s1" "cell s1 (at p) = x p"
    "\<And>j. j \<noteq> at p \<Longrightarrow> cell s1 j = cell s j"
    using apply_ok [of s "at p" "h p" "x p"] Cons.prems(1,3) by auto
  have other: "at q \<noteq> at p" if "q \<in> set ps" for q using Cons.prems(2) imageI [OF that, of at] by auto
  obtain s2 where s2: "fold_r f ps s1 = Inr s2" "ok s2" "\<And>q. q \<in> set ps \<Longrightarrow> cell s2 (at q) = x q"
    "\<And>j. j \<notin> at ` set ps \<Longrightarrow> cell s2 j = cell s1 j"
  proof -
    have "\<exists>s'. fold_r f ps s1 = Inr s' \<and> ok s' \<and> (\<forall>p \<in> set ps. cell s' (at p) = x p) \<and>
      (\<forall>j. j \<notin> at ` set ps \<longrightarrow> cell s' j = cell s1 j)"
      using Cons.prems(2,3,4) other s1(4) by (intro Cons.IH [OF s1(2)]) auto
    then show ?thesis using that by blast
  qed
  have "at p \<notin> at ` set ps" using Cons.prems(2) by simp
  then have "cell s2 (at p) = x p" using s2(4) s1(3) by simp
  moreover have "fold_r f (p # ps) s = Inr s2" using Cons.prems(1,4) s1(1) s2(1) by simp
  ultimately show ?case using s2(2,3,4) s1(4) by auto
qed simp

end

text \<open>The channels of a buffer, and the samples of a block, are such stores.\<close>

definition block_apply :: "('a \<Rightarrow> 'a result) \<Rightarrow> u32 \<Rightarrow> 'a list \<Rightarrow> 'a list result" where
  "block_apply h k m = bind_r (peek m (unat k)) (\<lambda>x. bind_r (h x) (poke m (unat k)))"

lemma unat_neq: "(i::u32) \<noteq> j \<Longrightarrow> unat i \<noteq> unat j"
  by (simp add: word_unat_eq_iff)

interpretation rows: cell_store "\<lambda>b. length b = n" "\<lambda>i. unat i < n" "\<lambda>b i. b ! unat i" row_apply for n
  by unfold_locales (auto simp: row_apply_def mem_simps dest: unat_neq)

interpretation blocks: cell_store "\<lambda>m. length m = n" "\<lambda>k. unat k < n" "\<lambda>m k. m ! unat k" block_apply for n
  by unfold_locales (auto simp: block_apply_def mem_simps dest: unat_neq)

lemma poke_is_apply: "unat k < length m \<Longrightarrow> poke m (unat k) x = block_apply (\<lambda>_. Inr x) k m"
  by (simp add: block_apply_def mem_simps)

lemma row_apply_in:
  "unat i < length b \<Longrightarrow> row_apply h i b = bind_r (h (b ! unat i)) (\<lambda>m. Inr (b[unat i := m]))"
  by (simp add: row_apply_def mem_simps)

lemma row_apply_fold:
  assumes "unat i < length b"
  shows "fold_r (\<lambda>k. row_apply (h k) i) ks b = row_apply (fold_r h ks) i b"
  using assms
proof (induction ks arbitrary: b)
  case (Cons k ks)
  show ?case
  proof (cases "h k (b ! unat i)")
    case (Inr m)
    have "fold_r (\<lambda>k. row_apply (h k) i) (k # ks) b = fold_r (\<lambda>k. row_apply (h k) i) ks (b[unat i := m])"
      using Cons.prems Inr by (simp add: row_apply_in)
    also have "\<dots> = row_apply (fold_r h ks) i (b[unat i := m])" using Cons.prems by (intro Cons.IH) simp
    also have "\<dots> = row_apply (fold_r h (k # ks)) i b" using Cons.prems Inr by (simp add: row_apply_in)
    finally show ?thesis .
  qed (use Cons.prems in \<open>simp add: row_apply_in\<close>)
qed (simp add: row_apply_in)

section \<open>The shape of a buffer\<close>

text \<open>Every channel has a block of the allocated size, and the size is within it.\<close>

definition audio_ok :: "'a audio_buffer \<Rightarrow> bool" where
  "audio_ok b \<longleftrightarrow> length (ab_buffer b) = unat (ab_channels b) \<and>
     (\<forall>m \<in> set (ab_buffer b). length m = unat (ab_allocated b)) \<and> ab_size b \<le> ab_allocated b"

definition samples_ok :: "nat \<Rightarrow> 'a list list \<Rightarrow> bool" where
  "samples_ok n b \<longleftrightarrow> (\<forall>m \<in> set b. length m = n)"

lemma audio_new_ok: "audio_ok (audio_new g channels n)"
  by (auto simp: audio_ok_def audio_new_def)

lemma row_apply_InrD:
  "row_apply h i b = Inr b' \<Longrightarrow> \<exists>m. unat i < length b \<and> h (b ! unat i) = Inr m \<and> b' = b[unat i := m]"
  by (auto simp: row_apply_def peek_def bind_r_Inr_iff split: if_splits)

text \<open>A loop over rows keeps what each of its steps keeps.\<close>

lemma fold_r_keeps:
  assumes "fold_r f ps s = Inr s'" "Q s" "\<And>p s s'. Q s \<Longrightarrow> f p s = Inr s' \<Longrightarrow> Q s'"
  shows "Q s'"
  using assms(1,2) by (induction ps arbitrary: s) (auto simp: bind_r_Inr_iff dest: assms(3))

lemma row_apply_keeps:
  assumes "row_apply h i b = Inr b'" "length b = c \<and> samples_ok n b" "\<And>m m'. h m = Inr m' \<Longrightarrow> length m' = length m"
  shows "length b' = c \<and> samples_ok n b'"
proof -
  obtain m where m: "unat i < length b" "h (b ! unat i) = Inr m" "b' = b[unat i := m]"
    using row_apply_InrD [OF assms(1)] by auto
  have "length m = n" using assms(2) m(1) assms(3) [OF m(2)] by (simp add: samples_ok_def)
  then show ?thesis using assms(2) m(3) set_update_subset_insert [of b "unat i" m] by (auto simp: samples_ok_def)
qed

lemma poke_length: "poke m k x = Inr m' \<Longrightarrow> length m' = length m"
  by (auto simp: poke_def split: if_splits)

lemma set_sample_keeps:
  "set_sample b i k x = Inr b' \<Longrightarrow> length b = c \<and> samples_ok n b \<Longrightarrow> length b' = c \<and> samples_ok n b'"
  unfolding set_sample_def by (erule row_apply_keeps) (auto dest: poke_length)

lemma audio_ok_alt:
  "audio_ok b \<longleftrightarrow> (length (ab_buffer b) = unat (ab_channels b) \<and> samples_ok (unat (ab_allocated b)) (ab_buffer b)) \<and>
     ab_size b \<le> ab_allocated b"
  by (auto simp: audio_ok_def samples_ok_def)

lemma audio_ok_buffer:
  assumes "audio_ok b" "length d = length (ab_buffer b)" "samples_ok (unat (ab_allocated b)) d"
  shows "audio_ok (b\<lparr>ab_buffer := d\<rparr>)"
  using assms by (simp add: audio_ok_alt)

lemma audio_copy_to_ok:
  assumes "audio_ok dest" "audio_copy_to this dest sc si dc di n = Inr (r, dest')"
  shows "audio_ok dest'"
proof -
  obtain d where d: "dest' = dest\<lparr>ab_buffer := d\<rparr>"
    "fold_r (\<lambda>i d. if sint (copy_count this dest si di n) < 0 then Inl Undefined
           else bind_r (peek (ab_buffer this) (unat i)) (\<lambda>m.
                bind_r (mem_read m (unat si) (unat (copy_count this dest si di n))) (\<lambda>xs.
                row_apply (\<lambda>m. mem_write m (unat di) xs) (dc + i - sc) d)))
           (u32_range sc (ab_channels this)) (ab_buffer dest) = Inr d"
    using assms(2) by (auto simp: audio_copy_to_def Let_def bind_r_Inr_iff)
  have "length d = length (ab_buffer dest) \<and> samples_ok (unat (ab_allocated dest)) d"
    by (rule fold_r_keeps [OF d(2)])
       (use assms(1) in \<open>auto simp: audio_ok_alt bind_r_Inr_iff split: if_splits dest: row_apply_keeps mem_write_length\<close>)
  then show ?thesis using assms(1) d(1) audio_ok_buffer by blast
qed

lemma audio_convert_to_ok:
  assumes "audio_ok dest" "audio_convert_to conv this dest sc si dc di n = Inr (r, dest')"
  shows "audio_ok dest'"
proof -
  let ?n = "copy_count this dest si di n"
  obtain d where d: "dest' = dest\<lparr>ab_buffer := d\<rparr>"
    "fold_r (\<lambda>i. fold_r (\<lambda>k d.
           bind_r (get_sample (ab_buffer this) i (si + k)) (\<lambda>x.
           bind_r (conv x) (\<lambda>y. set_sample d (dc + i - sc) (di + k) y))) (u32_range 0 ?n))
           (u32_range sc (ab_channels this)) (ab_buffer dest) = Inr d"
    using assms(2) by (auto simp: audio_convert_to_def Let_def bind_r_Inr_iff)
  have "length d = length (ab_buffer dest) \<and> samples_ok (unat (ab_allocated dest)) d"
    by (rule fold_r_keeps [OF d(2)], use assms(1) in \<open>simp add: audio_ok_alt\<close>, erule fold_r_keeps)
       (auto simp: bind_r_Inr_iff dest: set_sample_keeps)
  then show ?thesis using assms(1) d(1) audio_ok_buffer by blast
qed

lemma deinterlace_from_ok:
  assumes "audio_ok b" "deinterlace_from b source count offset = Inr b'"
  shows "audio_ok b'"
proof -
  obtain d where d: "b' = b\<lparr>ab_buffer := d\<rparr>"
    "fold_r (\<lambda>i. fold_r (\<lambda>k d.
          bind_r (peek source (unat (k * ab_channels b + i))) (\<lambda>x. set_sample d i (k + offset) x))
          (u32_range 0 count)) (u32_range 0 (ab_channels b)) (ab_buffer b) = Inr d"
    using assms(2) by (auto simp: deinterlace_from_def bind_r_Inr_iff)
  have "length d = length (ab_buffer b) \<and> samples_ok (unat (ab_allocated b)) d"
    by (rule fold_r_keeps [OF d(2)], use assms(1) in \<open>simp add: audio_ok_alt\<close>, erule fold_r_keeps)
       (auto simp: bind_r_Inr_iff dest: set_sample_keeps)
  then show ?thesis using assms(1) d(1) audio_ok_buffer by blast
qed

lemma zero_rows_keeps:
  "zero_rows channels n b = Inr b' \<Longrightarrow> length b = c \<and> samples_ok a b \<Longrightarrow> length b' = c \<and> samples_ok a b'"
  unfolding zero_rows_def by (erule fold_r_keeps) (auto dest: row_apply_keeps mem_write_length)

lemma audio_zero_ok: "audio_ok b \<Longrightarrow> audio_zero b = Inr b' \<Longrightarrow> audio_ok b'"
  by (auto simp: audio_zero_def bind_r_Inr_iff audio_ok_alt dest: zero_rows_keeps)

lemma amplify_buffer_ok:
  assumes "audio_ok b" "amplify_buffer amp channels b count offset = Inr b'"
  shows "audio_ok b'"
proof -
  obtain d where d: "b' = b\<lparr>ab_buffer := d\<rparr>"
    "fold_r (\<lambda>i. fold_r (\<lambda>k. row_apply (\<lambda>m.
          bind_r (peek m (unat (k + offset))) (\<lambda>x. poke m (unat (k + offset)) (amp x))) i)
          (u32_range 0 count)) (u32_range 0 channels) (ab_buffer b) = Inr d"
    using assms(2) by (auto simp: amplify_buffer_def bind_r_Inr_iff)
  have "length d = length (ab_buffer b) \<and> samples_ok (unat (ab_allocated b)) d"
    by (rule fold_r_keeps [OF d(2)], use assms(1) in \<open>simp add: audio_ok_alt\<close>, erule fold_r_keeps)
       (auto simp: bind_r_Inr_iff dest!: row_apply_keeps poke_length)
  then show ?thesis using assms(1) d(1) audio_ok_buffer by blast
qed

section \<open>Resizing\<close>

lemma samples_nth: "samples_ok n b \<Longrightarrow> i < length b \<Longrightarrow> length (b ! i) = n"
  by (simp add: samples_ok_def)

lemma audio_set_size_exact:
  assumes "audio_ok b"
  shows "\<exists>b'. audio_set_size g v b = Inr b' \<and> audio_ok b' \<and> ab_size b' = v \<and> ab_channels b' = ab_channels b \<and>
    (\<forall>i < unat (ab_channels b). \<forall>k < min (unat (ab_allocated b)) (unat v). ab_buffer b' ! i ! k = ab_buffer b ! i ! k)"
proof (cases "ab_allocated b < v")
  case True
  let ?a = "unat (ab_allocated b)"
  let ?h = "\<lambda>i m. bind_r (mem_read m 0 ?a) (\<lambda>xs. mem_write (fresh_block (g (unat i)) (unat v)) 0 xs)"
  let ?x = "\<lambda>i::u32. ab_buffer b ! unat i @ drop ?a (fresh_block (g (unat i)) (unat v))"
  have len: "length (ab_buffer b) = unat (ab_channels b)" "samples_ok ?a (ab_buffer b)"
    using assms by (auto simp: audio_ok_alt)
  have av: "?a < unat v" using True by (simp add: word_less_nat_alt)
  have row: "?h i (ab_buffer b ! unat i) = Inr (?x i)" if "unat i < unat (ab_channels b)" for i :: u32
    using samples_nth [OF len(2), of "unat i"] that len(1) av by (simp add: mem_read_def mem_write_def)
  have "\<exists>d. fold_r (\<lambda>i. row_apply (?h i) i) (u32_range 0 (ab_channels b)) (ab_buffer b) = Inr d \<and>
    length d = unat (ab_channels b) \<and> (\<forall>p \<in> set (u32_range 0 (ab_channels b)). d ! unat p = ?x p) \<and>
    (\<forall>j. j \<notin> (\<lambda>i. i) ` set (u32_range 0 (ab_channels b)) \<longrightarrow> d ! unat j = ab_buffer b ! unat j)"
    by (rule rows.fold_apply [where h = ?h]) (use len row in \<open>auto simp: distinct_u32_range dest: u32_range_unat\<close>)
  then obtain d where d: "fold_r (\<lambda>i. row_apply (?h i) i) (u32_range 0 (ab_channels b)) (ab_buffer b) = Inr d"
    "length d = unat (ab_channels b)" "\<And>p. p < ab_channels b \<Longrightarrow> d ! unat p = ?x p"
    by (auto simp: u32_range_mem)
  have x: "d ! i = ab_buffer b ! i @ drop ?a (fresh_block (g i) (unat v))" if "i < unat (ab_channels b)" for i
  proof -
    have "i < 2 ^ 32" using that unsigned_less [of "ab_channels b", where ?'a = nat] by simp
    then have "unat (word_of_nat i :: u32) = i" by (simp add: unat_of_nat take_bit_nat_eq_self)
    then show ?thesis using d(3) [of "word_of_nat i"] that by (simp add: word_less_nat_alt)
  qed
  have "length (d ! i) = unat v" if "i < unat (ab_channels b)" for i
    using x [OF that] samples_nth [OF len(2), of i] that len(1) av by simp
  then have "samples_ok (unat v) d" using d(2) by (auto simp: samples_ok_def in_set_conv_nth)
  then have "audio_ok (b\<lparr>ab_size := v, ab_buffer := d, ab_allocated := v\<rparr>)" using d(2) by (simp add: audio_ok_alt)
  moreover have "d ! i ! k = ab_buffer b ! i ! k" if "i < unat (ab_channels b)" "k < ?a" for i k
    using x [OF that(1)] that samples_nth [OF len(2), of i] len(1) by (simp add: nth_append)
  ultimately show ?thesis using True d(1) by (auto simp: audio_set_size_def)
qed (use assms in \<open>auto simp: audio_set_size_def audio_ok_alt\<close>)

section \<open>Copies\<close>

lemma unat_copy_count:
  assumes "si \<le> ab_size this" "di \<le> ab_size dest" "- (2 ^ 31) \<le> count" "count < 2 ^ 31"
  shows "unat (copy_count this dest si di count) =
    min (min (if count < 0 then unat (ab_size this) else nat count) (unat (ab_size this) - unat si))
      (unat (ab_size dest) - unat di)"
proof -
  have "unat (word_of_int count :: u32) = nat count" if "0 \<le> count"
    using that assms(4) by (simp add: unsigned_of_int take_bit_int_eq_self flip: nat_eq_iff2)
  then have "unat (if count < 0 then ab_size this else word_of_int count) = (if count < 0 then unat (ab_size this) else nat count)"
    by simp
  then show ?thesis using assms(1,2)
    by (simp add: copy_count_def unat_sub min_def word_le_nat_alt)
qed

lemma unat_word_of_nat32: "n < 2 ^ 32 \<Longrightarrow> unat (word_of_nat n :: u32) = n"
  by (simp add: unat_of_nat take_bit_nat_eq_self)

lemma unat_add32: "unat a + unat b < 2 ^ 32 \<Longrightarrow> unat (a + b :: u32) = unat a + unat b"
  by (simp add: unat_word_ariths)

lemma unat_mult32: "unat a * unat b < 2 ^ 32 \<Longrightarrow> unat (a * b :: u32) = unat a * unat b"
  by (simp add: unat_word_ariths)

text \<open>The channel of the target that receives channel \<open>i\<close>.\<close>

lemma unat_target:
  assumes "sc \<le> i" "i < c" "unat dc + (unat c - unat sc) \<le> n" "n < 2 ^ 32"
  shows "unat (dc + i - sc :: u32) = unat dc + (unat i - unat sc)"
proof -
  have s: "unat (i - sc) = unat i - unat sc" using assms(1) by (rule unat_sub)
  have "unat i < unat c" using assms(2) by (simp only: word_less_nat_alt)
  then have "unat i - unat sc \<le> unat c - unat sc" by (intro diff_le_mono less_imp_le)
  from order_trans [OF add_left_mono [OF this] assms(3)]
  have "unat dc + unat (i - sc) < 2 ^ 32" unfolding s using assms(4) by (rule le_less_trans)
  then have "unat (dc + (i - sc)) = unat dc + (unat i - unat sc)" unfolding s [symmetric] by (rule unat_add32)
  moreover have "dc + i - sc = dc + (i - sc)" by (rule add_diff_eq [symmetric])
  ultimately show ?thesis by (simp only:)
qed

lemma signed_take_bit_nat: "n < 2 ^ 31 \<Longrightarrow> signed_take_bit 31 (int n) = int n"
  by (simp add: signed_take_bit_int_eq_self)

lemma sint_small: "unat (w::u32) < 2 ^ 31 \<Longrightarrow> sint w = int (unat w)"
  using signed_take_bit_nat [of "unat w"] by (simp add: sint_uint)

lemma nth_spliced:
  assumes "o' + length xs \<le> length m" "k < length m"
  shows "(take o' m @ xs @ drop (o' + length xs) m) ! k =
    (if o' \<le> k \<and> k < o' + length xs then xs ! (k - o') else m ! k)"
proof -
  consider "k < o'" | "o' \<le> k" "k < o' + length xs" | "o' + length xs \<le> k" by linarith
  then show ?thesis
  proof cases
    case 2
    then have "k - o' < length xs" by linarith
    with 2 assms show ?thesis by (simp add: nth_append)
  next
    case 3
    then have "\<not> k < o'" "\<not> k - o' < length xs" "o' + length xs + (k - o' - length xs) = k" by simp_all
    with 3 assms show ?thesis by (simp add: nth_append)
  qed (use assms in \<open>simp_all add: nth_append\<close>)
qed

lemma audio_rows_copied:
  fixes this dest :: "'a audio_buffer"
  assumes "audio_ok this" "audio_ok dest" "unat si + n \<le> unat (ab_allocated this)" "unat di + n \<le> unat (ab_allocated dest)"
    and "unat dc + (unat (ab_channels this) - unat sc) \<le> unat (ab_channels dest)"
    and f: "\<And>i d. sc \<le> i \<Longrightarrow> i < ab_channels this \<Longrightarrow> length d = unat (ab_channels dest) \<Longrightarrow>
      f i d = row_apply (\<lambda>m. mem_write m (unat di) (take n (drop (unat si) (ab_buffer this ! unat i)))) (dc + i - sc) d"
  shows "\<exists>d. fold_r f (u32_range sc (ab_channels this)) (ab_buffer dest) = Inr d \<and>
    length d = unat (ab_channels dest) \<and> samples_ok (unat (ab_allocated dest)) d \<and>
    (\<forall>i < unat (ab_channels dest). \<forall>k < unat (ab_allocated dest). d ! i ! k =
       (if unat dc \<le> i \<and> i - unat dc + unat sc < unat (ab_channels this) \<and> unat di \<le> k \<and> k < unat di + n
        then ab_buffer this ! (i - unat dc + unat sc) ! (k - unat di + unat si) else ab_buffer dest ! i ! k))"
proof -
  define q where "q i = i - unat dc + unat sc" for i
  let ?c = "unat (ab_channels this)" and ?a = "unat (ab_allocated dest)" and ?b = "ab_buffer dest"
  let ?xs = "\<lambda>i::nat. take n (drop (unat si) (ab_buffer this ! i))"
  let ?at = "\<lambda>i. dc + i - sc" and ?ps = "u32_range sc (ab_channels this)"
  let ?h = "\<lambda>i::u32. \<lambda>m. mem_write m (unat di) (?xs (unat i))"
  let ?m = "\<lambda>i::u32. ?b ! unat (?at i)"
  let ?x = "\<lambda>i::u32. take (unat di) (?m i) @ ?xs (unat i) @ drop (unat di + n) (?m i)"
  have bt: "length ?b = unat (ab_channels dest)" "samples_ok ?a ?b" "length (ab_buffer this) = ?c"
    "samples_ok (unat (ab_allocated this)) (ab_buffer this)" using assms(1,2) by (auto simp: audio_ok_alt)
  have lx: "length (?xs i) = n" if "i < ?c" for i using samples_nth [OF bt(4), of i] bt(3) that assms(3) by simp
  have tgt: "unat (?at i) = unat dc + (unat i - unat sc)" if "i \<in> set ?ps" for i
    using that assms(5) unsigned_less [of "ab_channels dest", where ?'a = nat]
    by (intro unat_target [of _ _ "ab_channels this" _ "unat (ab_channels dest)"]) (auto simp: u32_range_mem)
  have ins: "unat (?at i) < unat (ab_channels dest)" if "i \<in> set ?ps" for i
    using tgt [OF that] u32_range_unat [OF that] assms(5) by simp
  have row: "?h i (?m i) = Inr (?x i)" if "i \<in> set ?ps" for i
    using samples_nth [OF bt(2), of "unat (?at i)"] ins [OF that] bt(1) lx [of "unat i"] u32_range_unat [OF that] assms(4)
    by (simp add: mem_write_def)
  have inj: "inj_on ?at (set ?ps)" by (rule inj_onI) simp
  have "\<exists>d. fold_r f ?ps ?b = Inr d \<and> length d = unat (ab_channels dest) \<and> (\<forall>p \<in> set ?ps. d ! unat (?at p) = ?x p) \<and>
    (\<forall>j. j \<notin> ?at ` set ?ps \<longrightarrow> d ! unat j = ?b ! unat j)"
    by (rule rows.fold_apply [where h = ?h])
       (use bt ins row f inj in \<open>auto simp: distinct_map distinct_u32_range u32_range_mem\<close>)
  then obtain d where d: "fold_r f ?ps ?b = Inr d" "length d = unat (ab_channels dest)"
    "\<And>p. p \<in> set ?ps \<Longrightarrow> d ! unat (?at p) = ?x p" "\<And>j. j \<notin> ?at ` set ?ps \<Longrightarrow> d ! unat j = ?b ! unat j" by blast
  have x: "d ! i = (if unat dc \<le> i \<and> q i < ?c
      then take (unat di) (?b ! i) @ ?xs (q i) @ drop (unat di + n) (?b ! i) else ?b ! i)"
    if "i < unat (ab_channels dest)" for i
  proof (cases "unat dc \<le> i \<and> q i < ?c")
    case True
    define p :: u32 where "p = word_of_nat (q i)"
    have "unat (ab_channels this) < 2 ^ 32" using unsigned_less [of "ab_channels this", where ?'a = nat] by simp
    with conjunct2 [OF True] have "q i < 2 ^ 32" by (rule less_trans)
    then have p: "unat p = q i" unfolding p_def by (rule unat_word_of_nat32)
    have "p \<in> set ?ps" unfolding u32_range_mem word_le_nat_alt word_less_nat_alt p
      by (rule conjI [OF _ conjunct2 [OF True]]) (simp add: q_def)
    note p_in = this
    have "unat (?at p) = i" using tgt [OF p_in] p conjunct1 [OF True] by (simp add: q_def)
    then show ?thesis unfolding if_P [OF True] using d(3) [OF p_in] by (simp only: p)
  next
    case False
    have i: "unat (word_of_nat i :: u32) = i" using that unsigned_less [of "ab_channels dest", where ?'a = nat]
      by (simp add: unat_word_of_nat32)
    have "(word_of_nat i :: u32) \<notin> ?at ` set ?ps"
    proof
      assume "(word_of_nat i :: u32) \<in> ?at ` set ?ps"
      then obtain p where "p \<in> set ?ps" "i = unat dc + (unat p - unat sc)" using tgt i by auto
      then show False using False u32_range_unat [of p sc "ab_channels this"] by (auto simp: q_def)
    qed
    then show ?thesis using d(4) [of "word_of_nat i"] i False by auto
  qed
  have len: "length (?b ! i) = ?a" if "i < unat (ab_channels dest)" for i using samples_nth [OF bt(2)] bt(1) that by simp
  have "length (d ! i) = ?a" if "i < unat (ab_channels dest)" for i
    using x [OF that] len [OF that] lx [of "q i"] assms(4) by (auto split: if_splits)
  then have "samples_ok ?a d" using d(2) by (auto simp: samples_ok_def in_set_conv_nth)
  moreover have "d ! i ! k = (if unat dc \<le> i \<and> q i < ?c \<and> unat di \<le> k \<and> k < unat di + n
      then ab_buffer this ! (q i) ! (k - unat di + unat si) else ?b ! i ! k)"
    if "i < unat (ab_channels dest)" "k < ?a" for i k
    using x [OF that(1)] nth_spliced [of "unat di" "?xs (q i)" "?b ! i" k] lx [of "q i"]
      len [OF that(1)] assms(3,4) that(2) samples_nth [OF bt(4), of "q i"] bt(3)
    by (auto simp: add.commute)
  ultimately show ?thesis using d(1,2) unfolding q_def by blast
qed

text \<open>\<^verbatim>\<open>CopyTo\<close> between well-formed buffers copies the smallest of the requested count, what the
  source has from its index on and what the target has from its index on; each sample of each
  channel of the source from the given one on arrives at its place, every other sample of the
  target is kept, and no access leaves a block.\<close>

theorem audio_copy_exact:
  assumes "audio_ok this" "audio_ok dest" "si \<le> ab_size this" "di \<le> ab_size dest"
    and "unat dc + (unat (ab_channels this) - unat sc) \<le> unat (ab_channels dest)"
    and "- (2 ^ 31) \<le> count" "count < 2 ^ 31" "unat (ab_size this) < 2 ^ 31"
  shows "\<exists>n d. n = min (min (if count < 0 then unat (ab_size this) else nat count) (unat (ab_size this) - unat si))
      (unat (ab_size dest) - unat di) \<and>
    audio_copy_to this dest sc si dc di count = Inr (int n, dest\<lparr>ab_buffer := d\<rparr>) \<and> audio_ok (dest\<lparr>ab_buffer := d\<rparr>) \<and>
    (\<forall>i < unat (ab_channels dest). \<forall>k < unat (ab_allocated dest). d ! i ! k =
       (if unat dc \<le> i \<and> i - unat dc + unat sc < unat (ab_channels this) \<and> unat di \<le> k \<and> k < unat di + n
        then ab_buffer this ! (i - unat dc + unat sc) ! (k - unat di + unat si) else ab_buffer dest ! i ! k))"
proof -
  let ?w = "copy_count this dest si di count"
  define n where "n = min (min (if count < 0 then unat (ab_size this) else nat count) (unat (ab_size this) - unat si))
      (unat (ab_size dest) - unat di)"
  have w: "unat ?w = n" unfolding n_def using unat_copy_count [OF assms(3,4,6,7)] .
  have n: "n \<le> unat (ab_size this) - unat si" "n \<le> unat (ab_size dest) - unat di" by (simp_all add: n_def)
  have sw: "sint ?w = int n" using sint_small [of ?w] w n(1) assms(8) by simp
  have sizes: "unat si \<le> unat (ab_size this)" "unat di \<le> unat (ab_size dest)"
    "unat (ab_size this) \<le> unat (ab_allocated this)" "unat (ab_size dest) \<le> unat (ab_allocated dest)"
    using assms(1-4) by (simp_all add: audio_ok_def word_le_nat_alt)
  have bounds: "unat si + n \<le> unat (ab_allocated this)" "unat di + n \<le> unat (ab_allocated dest)"
    using n sizes by linarith+
  have src: "length (ab_buffer this) = unat (ab_channels this)" "samples_ok (unat (ab_allocated this)) (ab_buffer this)"
    using assms(1) by (auto simp: audio_ok_alt)
  let ?f = "\<lambda>i d. if sint ?w < 0 then Inl Undefined
           else bind_r (peek (ab_buffer this) (unat i)) (\<lambda>m.
                bind_r (mem_read m (unat si) (unat ?w)) (\<lambda>xs.
                row_apply (\<lambda>m. mem_write m (unat di) xs) (dc + i - sc) d))"
  have f: "?f i d = row_apply (\<lambda>m. mem_write m (unat di) (take n (drop (unat si) (ab_buffer this ! unat i)))) (dc + i - sc) d"
    if "i < ab_channels this" for i d
  proof -
    have i: "unat i < length (ab_buffer this)" using that src(1) by (simp add: word_less_nat_alt)
    have "peek (ab_buffer this) (unat i) = Inr (ab_buffer this ! unat i)" using i by (rule peek_in)
    moreover have "mem_read (ab_buffer this ! unat i) (unat si) n = Inr (take n (drop (unat si) (ab_buffer this ! unat i)))"
      by (rule mem_read_in) (use samples_nth [OF src(2) i] bounds(1) in simp)
    moreover have "\<not> int n < 0" by linarith
    ultimately show ?thesis unfolding sw w by (simp only: if_False bind_r.simps)
  qed
  obtain d where d: "fold_r ?f (u32_range sc (ab_channels this)) (ab_buffer dest) = Inr d"
    "length d = unat (ab_channels dest)" "samples_ok (unat (ab_allocated dest)) d"
    "\<forall>i < unat (ab_channels dest). \<forall>k < unat (ab_allocated dest). d ! i ! k =
       (if unat dc \<le> i \<and> i - unat dc + unat sc < unat (ab_channels this) \<and> unat di \<le> k \<and> k < unat di + n
        then ab_buffer this ! (i - unat dc + unat sc) ! (k - unat di + unat si) else ab_buffer dest ! i ! k)"
    using audio_rows_copied [where f = ?f, OF assms(1,2) bounds assms(5) f] by blast
  have r: "audio_copy_to this dest sc si dc di count = Inr (int n, dest\<lparr>ab_buffer := d\<rparr>)"
    unfolding audio_copy_to_def Let_def by (simp only: d(1) bind_r.simps) (simp only: sw)
  have "audio_ok (dest\<lparr>ab_buffer := d\<rparr>)" using d(2,3) assms(2) by (simp add: audio_ok_alt)
  with r d(4) show ?thesis unfolding n_def by blast
qed

theorem audio_copy_exact_witness:
  "\<exists>d. audio_copy_to (audio_new (\<lambda>i k. i + k) 2 3) (audio_new (\<lambda>_ _. 9) 2 3) 0 1 0 0 (- 1) =
     Inr (2, (audio_new (\<lambda>_ _. 9) 2 3)\<lparr>ab_buffer := d\<rparr>) \<and> d ! 1 ! 1 = 3 \<and> d ! 1 ! 2 = (9::nat)"
  using audio_copy_exact [of "audio_new (\<lambda>i k. i + k) 2 3" "audio_new (\<lambda>_ _. 9) 2 3" 1 0 0 0 "- 1"]
  by (auto simp: audio_new_ok) (auto simp: audio_new_def)

section \<open>Interlacing\<close>

text \<open>The loops over \<^verbatim>\<open>buffer[i][k + offset]\<close>.\<close>

lemma shifted_cells:
  assumes "length m = a" "unat offset + unat count \<le> a" "a < 2 ^ 32"
    and h: "\<And>k. k < count \<Longrightarrow> h k (m ! (unat k + unat offset)) = Inr (x (unat k))"
    and f: "\<And>k m. k < count \<Longrightarrow> unat (k + offset) < length m \<Longrightarrow> length m = a \<Longrightarrow> f k m = block_apply (h k) (k + offset) m"
  shows "fold_r f (u32_range 0 count) m =
    Inr (take (unat offset) m @ map x [0..<unat count] @ drop (unat offset + unat count) m)"
proof -
  let ?ps = "u32_range 0 count" and ?at = "\<lambda>k. k + offset"
  have at: "unat (?at k) = unat k + unat offset" if "k \<in> set ?ps" for k
  proof (rule unat_add32)
    show "unat k + unat offset < 2 ^ 32" using u32_range_unat(2) [OF that] assms(2,3) by linarith
  qed
  have ins: "unat (?at k) < a" if "k \<in> set ?ps" for k
    using at [OF that] u32_range_unat(2) [OF that] assms(2) by simp
  have inj: "distinct (map ?at ?ps)" by (simp add: distinct_map distinct_u32_range inj_on_def)
  have "\<exists>m'. fold_r f ?ps m = Inr m' \<and> length m' = a \<and>
    (\<forall>p \<in> set ?ps. m' ! unat (?at p) = x (unat p)) \<and> (\<forall>j. j \<notin> ?at ` set ?ps \<longrightarrow> m' ! unat j = m ! unat j)"
    by (rule blocks.fold_apply [where h = h, OF assms(1) inj])
       (use ins at h f in \<open>auto simp: u32_range_mem\<close>)
  then obtain m' where m': "fold_r f ?ps m = Inr m'" "length m' = a"
    "\<And>p. p \<in> set ?ps \<Longrightarrow> m' ! unat (?at p) = x (unat p)" "\<And>j. j \<notin> ?at ` set ?ps \<Longrightarrow> m' ! unat j = m ! unat j" by blast
  have "m' = take (unat offset) m @ map x [0..<unat count] @ drop (unat offset + unat count) m" (is "_ = ?r")
  proof (rule nth_equalityI)
    show "length m' = length ?r" using m'(2) assms(1,2) by simp
    fix k assume "k < length m'"
    then have k: "k < length m" using m'(2) assms(1) by simp
    have r: "?r ! k = (if unat offset \<le> k \<and> k < unat offset + unat count then x (k - unat offset) else m ! k)"
      using nth_spliced [of "unat offset" "map x [0..<unat count]" m k] k assms(1,2) by auto
    show "m' ! k = ?r ! k"
    proof (cases "unat offset \<le> k \<and> k < unat offset + unat count")
      case True
      have p: "unat (word_of_nat (k - unat offset) :: u32) = k - unat offset"
        by (rule unat_word_of_nat32) (use k assms(1,3) in linarith)
      have "word_of_nat (k - unat offset) \<in> set ?ps" unfolding u32_range_mem word_less_nat_alt p using True by auto
      from m'(3) [OF this] at [OF this] show ?thesis unfolding r p using True by simp
    next
      case False
      have p: "unat (word_of_nat k :: u32) = k" by (rule unat_word_of_nat32) (use k assms(1,3) in linarith)
      have "word_of_nat k \<notin> ?at ` set ?ps"
      proof
        assume "word_of_nat k \<in> ?at ` set ?ps"
        then obtain q where q: "q \<in> set ?ps" "word_of_nat k = ?at q" by blast
        then have "k = unat q + unat offset" using p at [OF q(1)] by metis
        then show False using False u32_range_unat(2) [OF q(1)] by simp
      qed
      from m'(4) [OF this] show ?thesis unfolding r p using False by auto
    qed
  qed
  then show ?thesis using m'(1) by simp
qed

lemma deinterlaced_row:
  assumes "length m = a" "unat offset + unat count \<le> a" "a < 2 ^ 32"
    and src: "\<And>k. k < count \<Longrightarrow> src k = Inr (x (unat k))"
  shows "fold_r (\<lambda>k m. bind_r (src k) (\<lambda>x. poke m (unat (k + offset)) x)) (u32_range 0 count) m =
    Inr (take (unat offset) m @ map x [0..<unat count] @ drop (unat offset + unat count) m)"
  by (rule shifted_cells [where h = "\<lambda>k _. Inr (x (unat k))", OF assms(1-3)]) (simp_all add: src poke_is_apply)

lemma amplified_row:
  assumes "length m = a" "unat offset + unat count \<le> a" "a < 2 ^ 32"
  shows "fold_r (\<lambda>k m. bind_r (peek m (unat (k + offset))) (\<lambda>x. poke m (unat (k + offset)) (amp x))) (u32_range 0 count) m =
    Inr (take (unat offset) m @ map (\<lambda>k. amp (m ! (k + unat offset))) [0..<unat count] @ drop (unat offset + unat count) m)"
  by (rule shifted_cells [where h = "\<lambda>k x. Inr (amp x)", OF assms]) (simp_all add: block_apply_def)

lemma unat_frame:
  assumes "unat k < n" "unat i < unat c" "n * unat c \<le> l" "l < 2 ^ 32"
  shows "unat (k * c + i :: u32) = unat k * unat c + unat i" "unat k * unat c + unat i < l"
proof -
  have "Suc (unat k) * unat c \<le> n * unat c" using assms(1) by (intro mult_le_mono1) simp
  then show b: "unat k * unat c + unat i < l" using assms(2,3) by simp
  then have lt: "unat k * unat c + unat i < 2 ^ 32" using assms(4) by (rule less_trans)
  then have "unat k * unat c < 2 ^ 32" by (rule le_less_trans [OF le_add1])
  then have m: "unat (k * c) = unat k * unat c" by (rule unat_mult32)
  then show "unat (k * c + i) = unat k * unat c + unat i" using lt unat_add32 [of "k * c" i] by simp
qed

lemma deinterlace_from_exact:
  assumes "audio_ok b" "unat offset + unat count \<le> unat (ab_allocated b)"
    and "unat count * unat (ab_channels b) \<le> length source" "length source < 2 ^ 32"
  shows "\<exists>d. deinterlace_from b source count offset = Inr (b\<lparr>ab_buffer := d\<rparr>) \<and> length d = unat (ab_channels b) \<and>
    (\<forall>i < unat (ab_channels b). d ! i = take (unat offset) (ab_buffer b ! i) @
       map (\<lambda>k. source ! (k * unat (ab_channels b) + i)) [0..<unat count] @ drop (unat offset + unat count) (ab_buffer b ! i))"
proof -
  let ?c = "unat (ab_channels b)" and ?b = "ab_buffer b" and ?ps = "u32_range 0 (ab_channels b)"
  let ?h = "\<lambda>i. fold_r (\<lambda>k m. bind_r (peek source (unat (k * ab_channels b + i))) (\<lambda>x. poke m (unat (k + offset)) x))
      (u32_range 0 count)"
  let ?x = "\<lambda>i. take (unat offset) (?b ! i) @ map (\<lambda>k. source ! (k * ?c + i)) [0..<unat count] @
      drop (unat offset + unat count) (?b ! i)"
  let ?f = "\<lambda>i. fold_r (\<lambda>k d. bind_r (peek source (unat (k * ab_channels b + i))) (\<lambda>x. set_sample d i (k + offset) x))
      (u32_range 0 count)"
  have bt: "length ?b = ?c" "samples_ok (unat (ab_allocated b)) ?b" using assms(1) by (auto simp: audio_ok_alt)
  have src: "peek source (unat (k * ab_channels b + i)) = Inr (source ! (unat k * ?c + unat i))"
    if "k < count" "unat i < ?c" for i k
    using unat_frame [of k "unat count" i "ab_channels b", OF _ that(2) assms(3,4)] that(1)
    by (simp add: peek_def word_less_nat_alt)
  have row: "?h i (?b ! unat i) = Inr (?x (unat i))" if "unat i < ?c" for i
    by (rule deinterlaced_row [OF samples_nth [OF bt(2)] assms(2)])
       (use that bt(1) src unsigned_less [of "ab_allocated b", where ?'a = nat] in auto)
  have f: "?f i d = row_apply (?h i) i d" if "unat i < ?c" "length d = ?c" for i d
  proof -
    have "?f i d = fold_r (\<lambda>k. row_apply (\<lambda>m. bind_r (peek source (unat (k * ab_channels b + i))) (\<lambda>x. poke m (unat (k + offset)) x)) i)
        (u32_range 0 count) d"
      by (rule fold_r_cong) (use src that(1) in \<open>simp_all add: set_sample_def u32_range_mem\<close>)
    then show ?thesis using row_apply_fold [of i d] that by simp
  qed
  have "\<exists>d. fold_r ?f ?ps ?b = Inr d \<and> length d = ?c \<and> (\<forall>p \<in> set ?ps. d ! unat p = ?x (unat p)) \<and>
    (\<forall>j. j \<notin> (\<lambda>i. i) ` set ?ps \<longrightarrow> d ! unat j = ?b ! unat j)"
    by (rule rows.fold_apply [where h = ?h])
       (use bt row f in \<open>auto simp: distinct_u32_range u32_range_mem word_less_nat_alt\<close>)
  then obtain d where d: "fold_r ?f ?ps ?b = Inr d" "length d = ?c" "\<And>p. p < ab_channels b \<Longrightarrow> d ! unat p = ?x (unat p)"
    by (auto simp: u32_range_mem)
  have "d ! i = ?x i" if "i < ?c" for i
  proof -
    have "unat (word_of_nat i :: u32) = i"
      by (rule unat_word_of_nat32) (use that unsigned_less [of "ab_channels b", where ?'a = nat] in simp)
    then show ?thesis using d(3) [of "word_of_nat i"] that by (simp add: word_less_nat_alt)
  qed
  moreover have "deinterlace_from b source count offset = Inr (b\<lparr>ab_buffer := d\<rparr>)"
    unfolding deinterlace_from_def by (simp only: d(1) bind_r.simps)
  ultimately show ?thesis using d(2) by blast
qed

lemma interlace_to_exact:
  assumes "audio_ok b" "unat offset + unat count \<le> unat (ab_allocated b)"
    and "unat count * unat (ab_channels b) \<le> length dest" "length dest < 2 ^ 32"
  shows "\<exists>d. interlace_to b dest count offset = Inr d \<and> length d = length dest \<and>
    (\<forall>k < unat count. \<forall>i < unat (ab_channels b).
       d ! (k * unat (ab_channels b) + i) = ab_buffer b ! i ! (k + unat offset)) \<and>
    (\<forall>j. unat count * unat (ab_channels b) \<le> j \<longrightarrow> j < length dest \<longrightarrow> d ! j = dest ! j)"
proof -
  let ?w = "ab_channels b" and ?n = "length dest"
  let ?c = "unat ?w" and ?ps = "List.product (u32_range 0 count) (u32_range 0 ?w)"
  let ?at = "\<lambda>(k, i). k * ?w + i" and ?x = "\<lambda>(k, i). ab_buffer b ! unat i ! (unat k + unat offset)"
  let ?f = "\<lambda>(k, i) d. bind_r (get_sample (ab_buffer b) i (k + offset)) (\<lambda>x. poke d (unat (k * ?w + i)) x)"
  have bt: "length (ab_buffer b) = ?c" "samples_ok (unat (ab_allocated b)) (ab_buffer b)" using assms(1) by (auto simp: audio_ok_alt)
  have ps: "(k, i) \<in> set ?ps \<longleftrightarrow> k < count \<and> i < ?w" for k i by (simp add: u32_range_mem)
  have at: "unat (k * ?w + i) = unat k * ?c + unat i" "unat k * ?c + unat i < ?n" if "k < count" "i < ?w" for k i
    using unat_frame [of k "unat count" i ?w, OF _ _ assms(3,4)] that by (auto simp: word_less_nat_alt)
  have inj: "inj_on ?at (set ?ps)"
  proof (rule inj_onI)
    fix p q assume pq: "p \<in> set ?ps" "q \<in> set ?ps" "?at p = ?at q"
    obtain k i k' i' where p: "p = (k, i)" "q = (k', i')" by fastforce
    have lt: "k < count" "i < ?w" "k' < count" "i' < ?w" using pq(1,2) ps p by auto
    have e: "unat k * ?c + unat i = unat k' * ?c + unat i'" using pq(3) at(1) lt p by (metis case_prod_conv)
    have "unat i < ?c" "unat i' < ?c" using lt by (simp_all add: word_less_nat_alt)
    then have "unat k = unat k'" "unat i = unat i'"
      using arg_cong [OF e, of "\<lambda>x. x div ?c"] arg_cong [OF e, of "\<lambda>x. x mod ?c"] by simp_all
    then show "p = q" using p by (simp add: word_unat_eq_iff)
  qed
  have smp: "get_sample (ab_buffer b) i (k + offset) = Inr (?x (k, i))" if "k < count" "i < ?w" for k i
  proof -
    have i: "unat i < length (ab_buffer b)" using that bt(1) by (simp add: word_less_nat_alt)
    have "unat k + unat offset < unat (ab_allocated b)" using that(1) assms(2) by (simp add: word_less_nat_alt)
    moreover from this have "unat (k + offset) = unat k + unat offset"
      by (intro unat_add32) (use unsigned_less [of "ab_allocated b", where ?'a = nat] in simp)
    ultimately show ?thesis using samples_nth [OF bt(2) i] i by (simp add: get_sample_def mem_simps)
  qed
  have "\<exists>d. fold_r ?f ?ps dest = Inr d \<and> length d = ?n \<and> (\<forall>p \<in> set ?ps. d ! unat (?at p) = ?x p) \<and>
    (\<forall>j. j \<notin> ?at ` set ?ps \<longrightarrow> d ! unat j = dest ! unat j)"
  proof (rule blocks.fold_apply [where h = "\<lambda>p _. Inr (?x p)"])
    show "distinct (map ?at ?ps)" using inj by (simp add: distinct_map distinct_product distinct_u32_range)
    fix p assume p: "p \<in> set ?ps"
    obtain k i where ki: "p = (k, i)" by fastforce
    then have lt: "k < count" "i < ?w" using p ps by auto
    show "unat (?at p) < ?n \<and> Inr (?x p) = Inr (?x p)" using at [OF lt] ki by simp
    fix d :: "'a list" assume "length d = ?n"
    then show "?f p d = block_apply (\<lambda>_. Inr (?x p)) (?at p) d"
      using smp [OF lt] at [OF lt] ki poke_is_apply [of "k * ?w + i" d] by simp
  qed simp
  then obtain d where d: "fold_r ?f ?ps dest = Inr d" "length d = ?n" "\<And>p. p \<in> set ?ps \<Longrightarrow> d ! unat (?at p) = ?x p"
    "\<And>j. j \<notin> ?at ` set ?ps \<Longrightarrow> d ! unat j = dest ! unat j" by blast
  have r: "interlace_to b dest count offset = Inr d" unfolding interlace_to_def fold_r_product using d(1) by simp
  have hit: "d ! (k * ?c + i) = ab_buffer b ! i ! (k + unat offset)" if "k < unat count" "i < ?c" for k i
  proof -
    have u: "unat (word_of_nat k :: u32) = k" "unat (word_of_nat i :: u32) = i"
      using that unsigned_less [of count, where ?'a = nat] unsigned_less [of ?w, where ?'a = nat]
      by (auto intro!: unat_word_of_nat32)
    have lt: "(word_of_nat k :: u32) < count" "word_of_nat i < ?w" using that u by (simp_all add: word_less_nat_alt)
    then show ?thesis using d(3) [of "(word_of_nat k, word_of_nat i)"] ps at(1) [OF lt] u by simp
  qed
  have miss: "d ! j = dest ! j" if "unat count * ?c \<le> j" "j < ?n" for j
  proof -
    have u: "unat (word_of_nat j :: u32) = j" by (rule unat_word_of_nat32) (use that(2) assms(4) in linarith)
    have "word_of_nat j \<notin> ?at ` set ?ps"
    proof
      assume "word_of_nat j \<in> ?at ` set ?ps"
      then obtain k i where "k < count" "i < ?w" "word_of_nat j = k * ?w + i" using ps by auto
      then have j: "j = unat k * ?c + unat i" "unat k < unat count" "unat i < ?c"
        using u at(1) by (metis, simp_all add: word_less_nat_alt)
      have "Suc (unat k) * ?c \<le> unat count * ?c" using j(2) by (intro mult_le_mono1) simp
      then show False using j(1,3) that(1) by simp
    qed
    from d(4) [OF this] u show ?thesis by simp
  qed
  show ?thesis using r d(2) hit miss by blast
qed

text \<open>C22: Interlacing undoes deinterlacing: the samples that \<^verbatim>\<open>DeinterlaceFrom\<close> takes from a block,
  \<^verbatim>\<open>InterlaceTo\<close> writes back in the same order, for every number of channels, count and offset
  that fit the buffer, and what lies behind them in the target block is kept.\<close>

theorem deinterlace_interlace:
  assumes "audio_ok b" "unat offset + unat count \<le> unat (ab_allocated b)"
    and "unat count * unat (ab_channels b) \<le> length source" "length source < 2 ^ 32"
    and "unat count * unat (ab_channels b) \<le> length dest" "length dest < 2 ^ 32"
  shows "\<exists>b'. deinterlace_from b source count offset = Inr b' \<and> audio_ok b' \<and>
    interlace_to b' dest count offset =
      Inr (take (unat count * unat (ab_channels b)) source @ drop (unat count * unat (ab_channels b)) dest)"
proof -
  let ?c = "unat (ab_channels b)" and ?n = "unat count"
  obtain d where d: "deinterlace_from b source count offset = Inr (b\<lparr>ab_buffer := d\<rparr>)"
    "\<And>i. i < ?c \<Longrightarrow> d ! i = take (unat offset) (ab_buffer b ! i) @
       map (\<lambda>k. source ! (k * ?c + i)) [0..<?n] @ drop (unat offset + ?n) (ab_buffer b ! i)"
    using deinterlace_from_exact [OF assms(1-4)] by blast
  let ?b = "b\<lparr>ab_buffer := d\<rparr>"
  have ok: "audio_ok ?b" using deinterlace_from_ok [OF assms(1) d(1)] .
  have len: "length (ab_buffer b ! i) = unat (ab_allocated b)" if "i < ?c" for i
    using assms(1) that by (simp add: audio_ok_def)
  have smp: "ab_buffer ?b ! i ! (k + unat offset) = source ! (k * ?c + i)" if "i < ?c" "k < ?n" for i k
  proof -
    have "k + unat offset - unat offset = k" by simp
    then show ?thesis using d(2) [OF that(1)] that(2) len [OF that(1)] assms(2)
        nth_spliced [of "unat offset" "map (\<lambda>k. source ! (k * ?c + i)) [0..<?n]" "ab_buffer b ! i" "k + unat offset"] by simp
  qed
  obtain r where r: "interlace_to ?b dest count offset = Inr r" "length r = length dest"
    "\<And>k i. k < ?n \<Longrightarrow> i < ?c \<Longrightarrow> r ! (k * ?c + i) = ab_buffer ?b ! i ! (k + unat offset)"
    "\<And>j. ?n * ?c \<le> j \<Longrightarrow> j < length dest \<Longrightarrow> r ! j = dest ! j"
    using interlace_to_exact [OF ok, of offset count dest] assms(2,5,6) by auto
  have "r = take (?n * ?c) source @ drop (?n * ?c) dest"
  proof (rule nth_equalityI)
    fix j assume j: "j < length r"
    show "r ! j = (take (?n * ?c) source @ drop (?n * ?c) dest) ! j"
    proof (cases "j < ?n * ?c")
      case True
      then have c: "0 < ?c" by (cases "?c = 0") simp_all
      have k: "j div ?c < ?n" using True c by (simp add: less_mult_imp_div_less)
      have "r ! (j div ?c * ?c + j mod ?c) = source ! (j div ?c * ?c + j mod ?c)"
        using r(3) [OF k, of "j mod ?c"] smp [OF _ k, of "j mod ?c"] c by simp
      then show ?thesis using True assms(3) by (simp add: nth_append)
    next
      case False
      then have "?n * ?c + (j - ?n * ?c) = j" by simp
      then show ?thesis using False r(2,4) j assms(3,5) by (simp add: nth_append)
    qed
  qed (use r(2) assms(3,5) in simp)
  then show ?thesis using d(1) ok r(1) by blast
qed

theorem deinterlace_interlace_witness:
  "\<exists>b'. deinterlace_from (audio_new (\<lambda>_ _. 0) 2 4) [1, 2, 3, 4, 5, 6] 3 1 = Inr b' \<and> audio_ok b' \<and>
     interlace_to b' [9, 9, 9, 9, 9, 9, 9] 3 1 = Inr [1, 2, 3, 4, 5, 6, 9 :: int]"
  using deinterlace_interlace [of "audio_new (\<lambda>_ _. 0) 2 4" 1 3 "[1, 2, 3, 4, 5, 6 :: int]" "[9, 9, 9, 9, 9, 9, 9]"]
  by (simp add: audio_new_ok) (simp add: audio_new_def)

section \<open>Buffers that programs build\<close>

inductive audio_built :: "'a::zero audio_buffer \<Rightarrow> bool" where
  built_new: "audio_built (audio_new g channels n)"
| built_set_size: "audio_built b \<Longrightarrow> audio_set_size g v b = Inr b' \<Longrightarrow> audio_built b'"
| built_copy: "audio_built source \<Longrightarrow> audio_copy g source = Inr b' \<Longrightarrow> audio_built b'"
| built_copy_to: "audio_built this \<Longrightarrow> audio_built b \<Longrightarrow>
    audio_copy_to this b sc si dc di n = Inr (r, b') \<Longrightarrow> audio_built b'"
| built_convert_to: "audio_built b \<Longrightarrow> audio_convert_to conv (this :: 'a audio_buffer) b sc si dc di n = Inr (r, b') \<Longrightarrow> audio_built b'"
| built_assign: "audio_built b \<Longrightarrow> audio_built source \<Longrightarrow> audio_assign_body g b source = Inr b' \<Longrightarrow> audio_built b'"
| built_deinterlace: "audio_built b \<Longrightarrow> deinterlace_from b source count offset = Inr b' \<Longrightarrow> audio_built b'"
| built_zero: "audio_built b \<Longrightarrow> audio_zero b = Inr b' \<Longrightarrow> audio_built b'"
| built_amplify: "audio_built b \<Longrightarrow> amplify_buffer amp channels b count offset = Inr b' \<Longrightarrow> audio_built b'"

lemma audio_copy_ok: "audio_copy g source = Inr b' \<Longrightarrow> audio_ok b'"
  by (auto simp: audio_copy_def bind_r_Inr_iff split: prod.splits dest!: audio_copy_to_ok [rotated] intro: audio_new_ok)

lemma audio_assign_body_ok:
  assumes "audio_assign_body g b source = Inr b'" shows "audio_ok b'"
proof -
  have "audio_ok (b\<lparr>ab_buffer := ab_buffer (audio_new g (ab_channels source) (ab_size source)),
      ab_allocated := ab_size source, ab_channels := ab_channels source, ab_size := ab_size source\<rparr>)"
    using audio_new_ok [of g "ab_channels source" "ab_size source"] by (simp add: audio_ok_def audio_new_def)
  then show ?thesis using assms by (auto simp: audio_assign_body_def bind_r_Inr_iff split: prod.splits dest: audio_copy_to_ok)
qed

lemma audio_set_size_ok: "audio_ok b \<Longrightarrow> audio_set_size g v b = Inr b' \<Longrightarrow> audio_ok b'"
  using audio_set_size_exact [of b g v] by auto

text \<open>Every buffer that a program builds with the constructors, the copies, \<^verbatim>\<open>SetSize\<close>, the
  converting copy, the assignment up to its end, \<^verbatim>\<open>DeinterlaceFrom\<close>, \<^verbatim>\<open>Zero\<close> and the
  amplification has one block for each channel, all of the allocated size, and a size within it: so each
  sample of each channel below the size can be read and written.\<close>

theorem audio_buffer_shape:
  assumes "audio_built b"
  shows "audio_ok b \<and> (unat i < unat (ab_channels b) \<and> unat k < unat (ab_size b) \<longrightarrow>
    get_sample (ab_buffer b) i k = Inr (ab_buffer b ! unat i ! unat k) \<and>
    (\<exists>d. set_sample (ab_buffer b) i k x = Inr d \<and> audio_ok (b\<lparr>ab_buffer := d\<rparr>)))"
proof -
  have ok: "audio_ok b" using assms
  proof induction
    case built_copy_to then show ?case using audio_copy_to_ok by blast
  next
    case built_convert_to then show ?case using audio_convert_to_ok by blast
  qed (auto intro: audio_new_ok audio_set_size_ok audio_copy_ok audio_assign_body_ok deinterlace_from_ok
         audio_zero_ok amplify_buffer_ok)
  moreover have "get_sample (ab_buffer b) i k = Inr (ab_buffer b ! unat i ! unat k) \<and>
    (\<exists>d. set_sample (ab_buffer b) i k x = Inr d \<and> audio_ok (b\<lparr>ab_buffer := d\<rparr>))"
    if "unat i < unat (ab_channels b)" "unat k < unat (ab_size b)"
  proof -
    have i: "unat i < length (ab_buffer b)" using ok that(1) by (simp add: audio_ok_def)
    then have "length (ab_buffer b ! unat i) = unat (ab_allocated b)" using ok by (simp add: audio_ok_def)
    then have k: "unat k < length (ab_buffer b ! unat i)" using ok that(2) by (simp add: audio_ok_def word_le_nat_alt)
    let ?d = "(ab_buffer b)[unat i := (ab_buffer b ! unat i)[unat k := x]]"
    have s: "set_sample (ab_buffer b) i k x = Inr ?d" using i k by (simp add: set_sample_def row_apply_in mem_simps)
    have "length ?d = length (ab_buffer b) \<and> samples_ok (unat (ab_allocated b)) ?d"
      by (rule set_sample_keeps [OF s]) (use ok in \<open>simp add: audio_ok_alt\<close>)
    then have "audio_ok (b\<lparr>ab_buffer := ?d\<rparr>)" using ok audio_ok_buffer by blast
    then show ?thesis using s i k by (auto simp: get_sample_def mem_simps)
  qed
  ultimately show ?thesis by blast
qed

theorem audio_buffer_shape_witness:
  "get_sample (ab_buffer (audio_new (\<lambda>i k. i + k) 2 3)) 1 2 = Inr (3 :: nat)"
  using audio_buffer_shape [OF built_new [of "\<lambda>i k. i + k" 2 3], of 1 2 0] by (simp add: audio_new_def)

section \<open>Codecs\<close>

lemma subcodec_transparent: "subcodec_ops ops = ops"
  by (simp add: subcodec_ops_def)

lemma amplify_buffer_exact:
  assumes "audio_ok b" "unat offset + unat count \<le> unat (ab_allocated b)" "channels \<le> ab_channels b"
  shows "\<exists>d. amplify_buffer amp channels b count offset = Inr (b\<lparr>ab_buffer := d\<rparr>) \<and> length d = unat (ab_channels b) \<and>
    (\<forall>i < unat channels. d ! i = take (unat offset) (ab_buffer b ! i) @
       map (\<lambda>k. amp (ab_buffer b ! i ! (k + unat offset))) [0..<unat count] @ drop (unat offset + unat count) (ab_buffer b ! i)) \<and>
    (\<forall>i. unat channels \<le> i \<longrightarrow> i < unat (ab_channels b) \<longrightarrow> d ! i = ab_buffer b ! i)"
proof -
  let ?b = "ab_buffer b" and ?ps = "u32_range 0 channels"
  let ?g = "\<lambda>k m. bind_r (peek m (unat (k + offset))) (\<lambda>x. poke m (unat (k + offset)) (amp x))"
  let ?h = "\<lambda>i::u32. fold_r ?g (u32_range 0 count)"
  let ?x = "\<lambda>i. take (unat offset) (?b ! i) @ map (\<lambda>k. amp (?b ! i ! (k + unat offset))) [0..<unat count] @
      drop (unat offset + unat count) (?b ! i)"
  have bt: "length ?b = unat (ab_channels b)" "samples_ok (unat (ab_allocated b)) ?b" using assms(1) by (auto simp: audio_ok_alt)
  have c: "unat channels \<le> unat (ab_channels b)" using assms(3) by (simp add: word_le_nat_alt)
  have row: "?h i (?b ! unat i) = Inr (?x (unat i))" if "unat i < unat channels" for i
    by (rule amplified_row [OF samples_nth [OF bt(2)] assms(2)])
       (use that bt(1) c unsigned_less [of "ab_allocated b", where ?'a = nat] in auto)
  have "\<exists>d. fold_r (\<lambda>i. fold_r (\<lambda>k. row_apply (?g k) i) (u32_range 0 count)) ?ps ?b = Inr d \<and> length d = unat (ab_channels b) \<and>
    (\<forall>p \<in> set ?ps. d ! unat p = ?x (unat p)) \<and> (\<forall>j. j \<notin> (\<lambda>i. i) ` set ?ps \<longrightarrow> d ! unat j = ?b ! unat j)"
    by (rule rows.fold_apply [where h = ?h])
       (use bt row c in \<open>auto simp: distinct_u32_range u32_range_mem word_less_nat_alt row_apply_fold\<close>)
  then obtain d where d: "fold_r (\<lambda>i. fold_r (\<lambda>k. row_apply (?g k) i) (u32_range 0 count)) ?ps ?b = Inr d"
    "length d = unat (ab_channels b)" "\<And>p. p < channels \<Longrightarrow> d ! unat p = ?x (unat p)"
    "\<And>p. \<not> p < channels \<Longrightarrow> d ! unat p = ?b ! unat p" by (auto simp: u32_range_mem)
  have u: "unat (word_of_nat i :: u32) = i" if "i < unat (ab_channels b)" for i
    by (rule unat_word_of_nat32) (use that unsigned_less [of "ab_channels b", where ?'a = nat] in simp)
  have "d ! i = ?x i" if "i < unat channels" for i
    using d(3) [of "word_of_nat i"] u [of i] that c by (simp add: word_less_nat_alt)
  moreover have "d ! i = ?b ! i" if "unat channels \<le> i" "i < unat (ab_channels b)" for i
    using d(4) [of "word_of_nat i"] u [OF that(2)] that(1) by (simp add: word_less_nat_alt)
  moreover have "amplify_buffer amp channels b count offset = Inr (b\<lparr>ab_buffer := d\<rparr>)"
    unfolding amplify_buffer_def by (simp only: d(1) bind_r.simps)
  ultimately show ?thesis using d(2) by blast
qed

text \<open>\<^verbatim>\<open>AmplifyCodec::Write\<close> hands the offset of the caller's buffer on to a buffer of \<open>count\<close>
  samples: with an offset above 0 it never comes to the codec.\<close>

lemma fold_r_reaches:
  assumes "p \<in> set ps" "Q s" "\<And>q s s'. Q s \<Longrightarrow> f q s = Inr s' \<Longrightarrow> Q s'" "\<And>s. Q s \<Longrightarrow> \<exists>e. f p s = Inl e"
  shows "\<exists>e. fold_r f ps s = Inl e"
  using assms(1,2)
proof (induction ps arbitrary: s)
  case (Cons q qs)
  show ?case
  proof (cases "f q s")
    case (Inr s1)
    then have "q \<noteq> p" using assms(4) [OF Cons.prems(2)] by auto
    then show ?thesis using Cons.IH [of s1] Cons.prems assms(3) Inr by auto
  qed simp
qed simp

lemma amplify_write_offset_fails:
  assumes "0 < co_channels ops (am_codec c)" "0 < count" "0 < offset" "unat count + unat offset < 2 ^ 32"
  shows "\<exists>e. amplify_write g amp ops b count offset c = Inl e"
proof -
  let ?ch = "co_channels ops (am_codec c)" and ?k = "count - 1"
  have k: "unat ?k = unat count - 1" using unat_sub [of 1 count] assms(2) by (simp add: word_le_nat_alt word_less_nat_alt)
  have at: "unat (?k + offset) = unat count - 1 + unat offset" unfolding k [symmetric]
    by (rule unat_add32) (use k assms(4) in linarith)
  have big: "unat count \<le> unat (?k + offset)" using at assms(2,3) by (simp add: word_less_nat_alt)
  let ?Q = "\<lambda>d. \<exists>n. length d = n \<and> samples_ok (unat count) d"
  have fails: "\<exists>e. amplify_buffer a ?ch nb count offset = Inl e" if Q: "?Q (ab_buffer nb)" for a nb
  proof -
    let ?f = "\<lambda>i::u32. \<lambda>k. row_apply (\<lambda>m. bind_r (peek m (unat (k + offset))) (\<lambda>x. poke m (unat (k + offset)) (a x))) i"
    have keep: "?Q d'" if "?Q d" "?f i k d = Inr d'" for i k d d'
      using that by (auto simp: bind_r_Inr_iff dest!: row_apply_keeps poke_length)
    have last: "\<exists>e. ?f i ?k d = Inl e" if "?Q d" for i d
    proof (cases "unat i < length d")
      case True
      then show ?thesis using samples_nth [of "unat count" d "unat i"] that big by (simp add: row_apply_in peek_def)
    qed (simp add: row_apply_def peek_def)
    have "\<exists>e. fold_r (\<lambda>i. fold_r (?f i) (u32_range 0 count)) (u32_range 0 ?ch) (ab_buffer nb) = Inl e"
    proof (rule fold_r_reaches [where p = 0 and Q = ?Q])
      show "0 \<in> set (u32_range 0 ?ch)" using assms(1) by (simp add: u32_range_mem)
      show "?Q d'" if "?Q d" "fold_r (?f i) (u32_range 0 count) d = Inr d'" for i d d'
        by (rule fold_r_keeps [where Q = ?Q, OF that(2,1)]) (rule keep)
      show "\<exists>e. fold_r (?f 0) (u32_range 0 count) d = Inl e" if "?Q d" for d
      proof (rule fold_r_reaches [where p = ?k and Q = ?Q])
        show "?k \<in> set (u32_range 0 count)" using assms(2) k by (simp add: u32_range_mem word_less_nat_alt)
      qed (use that keep last in blast)+
    qed (rule Q)
    then show ?thesis by (auto simp: amplify_buffer_def)
  qed
  show ?thesis
  proof (cases "audio_copy_to b (audio_new g ?ch count) 0 offset 0 0 (sint count)")
    case (Inr r)
    obtain n nb where r: "r = (n, nb)" by fastforce
    have "ab_allocated nb = count" using Inr r by (auto simp: audio_copy_to_def Let_def bind_r_Inr_iff audio_new_def)
    moreover have "audio_ok nb" using audio_copy_to_ok [OF audio_new_ok] Inr r by blast
    ultimately have "?Q (ab_buffer nb)" by (auto simp: audio_ok_alt)
    from fails [OF this, of "amp (am_amplification c)"] show ?thesis
      using Inr r by (auto simp: amplify_write_def Let_def)
  qed (simp add: amplify_write_def Let_def)
qed

text \<open>\<^verbatim>\<open>ConversionCodec::Read\<close> ends in the assignment that does not return.\<close>

lemma conversion_read_never_returns_defined: "\<exists>e. conversion_read g g' conv ops b count offset c = Inl e"
proof -
  have "conversion_read g g' conv ops b count offset c \<noteq> Inr r" for r
    by (auto simp: conversion_read_def audio_assign_def bind_r_Inr_iff)
  then show ?thesis by (cases "conversion_read g g' conv ops b count offset c") auto
qed

text \<open>The maxima of the signed types are stored as their minima.\<close>

lemma sample_maxima_wrap: "sample_max S8 = - 128" "sample_max S16 = - 32768"
  by (simp_all add: signed_take_bit_def mask_eq_exp_minus_1 not_int_def)

lemma convert_sample_inverts: "convert_sample S16 U8 255 = Inr (- 32768)" "convert_sample S16 U8 128 = Inr (- 16448)"
  by (simp_all add: convert_sample_def s32_def c_div_def)

end
