(* ===== verification/Ffmpeg.thy ===== *)
theory Ffmpeg
  imports Audio Imaging Streams
begin

text \<open>
  The decoders over FFmpeg (\<^verbatim>\<open>source/audio/ffmpegdecoder.cpp\<close>,
  \<^verbatim>\<open>source/audio/ffmpegaudiodecoder.cpp\<close>, \<^verbatim>\<open>source/imaging/ffmpegvideodecoder.cpp\<close>) and the
  base class \<^verbatim>\<open>VideoCodec\<close> (\<^verbatim>\<open>imaging/videocodec.h\<close>).  The calls of the library are a
  parameter, the record \<open>av_calls\<close>, over a state \<open>'w\<close> that the decoder keeps.  A loop whose end
  depends on what the library returns is a partial function.
\<close>

section \<open>Calls of the library\<close>

text \<open>A packet: the stream it belongs to, its time, and what is left of its data.\<close>

record packet =
  pk_stream :: int
  pk_dts :: int
  pk_size :: int
  pk_data :: int

datatype media_type = Audio_Media | Video_Media | Other_Media

datatype av_pixel_format =
    GRAY8 | GRAY8A | MONOWHITE | MONOBLACK | AV_RGBA | GRAY16BE | GRAY16LE | AV_0RGB | RGB24 | Other_Format nat

text \<open>A rational number of the library is a pair of numerator and denominator.\<close>

record av_stream =
  as_type :: media_type
  as_channels :: u32
  as_sample_rate :: u32
  as_duration :: int
  as_time_base :: "int \<times> int"
  as_codec_time_base :: "int \<times> int"
  as_ticks_per_frame :: int
  as_frame_rate :: "int \<times> int"
  as_coded_width :: int
  as_coded_height :: int
  as_format :: av_pixel_format

text \<open>\<open>av_decode_audio\<close> gives the bytes of the packet that were used, negative for an error, and the
  decoded bytes; \<open>av_decode_video\<close> a frame when one is complete, with its flag \<^verbatim>\<open>repeat_pict\<close>;
  \<open>av_scale\<close> the pixels of a frame as RGB24 at a width and height.\<close>

record ('w, 'f) av_calls =
  av_register_all :: "'w \<Rightarrow> 'w"
  av_open_input :: "bool \<Rightarrow> 'w \<Rightarrow> int \<times> 'w"
  av_find_stream_info :: "'w \<Rightarrow> int \<times> 'w"
  av_close_input :: "'w \<Rightarrow> 'w"
  av_nb_streams :: "'w \<Rightarrow> nat"
  av_stream_at :: "'w \<Rightarrow> nat \<Rightarrow> av_stream option"
  av_duration :: "'w \<Rightarrow> int"
  av_open_codec :: "nat \<Rightarrow> 'w \<Rightarrow> int \<times> 'w"
  av_close_codec :: "nat \<Rightarrow> 'w \<Rightarrow> 'w"
  av_flush_buffers :: "nat \<Rightarrow> 'w \<Rightarrow> 'w"
  av_read_frame :: "'w \<Rightarrow> packet option \<times> 'w"
  av_free_packet :: "packet \<Rightarrow> 'w \<Rightarrow> 'w"
  av_dup_packet :: "packet \<Rightarrow> 'w \<Rightarrow> packet \<times> 'w"
  av_seek_frame :: "int \<Rightarrow> bool \<Rightarrow> 'w \<Rightarrow> 'w"
  av_rescale :: "int \<Rightarrow> int \<Rightarrow> int \<Rightarrow> int"
  av_decode_audio :: "nat \<Rightarrow> packet \<Rightarrow> 'w \<Rightarrow> (int \<times> bytes) \<times> 'w"
  av_decode_video :: "nat \<Rightarrow> packet \<Rightarrow> 'w \<Rightarrow> (int \<times> ('f \<times> bool) option) \<times> 'w"
  av_scale :: "'f \<Rightarrow> nat \<Rightarrow> nat \<Rightarrow> bytes"

section \<open>The stream behind the library\<close>

definition ffmpeg_read :: "'s stream_ops \<Rightarrow> int \<Rightarrow> 's \<Rightarrow> ((int \<times> bytes) \<times> 's) result" where
  "ffmpeg_read ops n s =
     bind_r (so_read ops (u64_of n) s) (\<lambda>(bs, s'). Inr ((s32 (int (length bs)), bs), s'))"

definition ffmpeg_write :: "'s stream_ops \<Rightarrow> bytes \<Rightarrow> 's \<Rightarrow> (int \<times> 's) result" where
  "ffmpeg_write ops bs s = bind_r (so_write ops bs s) (\<lambda>(n, s'). Inr (s32 (int n), s'))"

text \<open>The flag \<^verbatim>\<open>AVSEEK_FORCE\<close> is bit 17, \<^verbatim>\<open>AVSEEK_SIZE\<close> is bit 16.\<close>

definition ffmpeg_seek :: "'s stream_ops \<Rightarrow> int \<Rightarrow> int \<Rightarrow> 's \<Rightarrow> (int \<times> 's) result" where
  "ffmpeg_seek ops offset whence s =
     (let whence' = whence AND NOT 0x20000;
          seek = (\<lambda>position.
            let s' = so_set_position ops (u64_of (s64 position)) s in Inr (s64 (int (so_get_position ops s')), s')) in
      if whence' = 0 then seek offset
      else if whence' = 1 then seek (int (so_get_position ops s) + offset)
      else if whence' = 2 then seek (int (so_get_length ops s) + offset)
      else if whence' = 0x10000 then Inr (s64 (int (so_get_length ops s)), s)
      else throw (InvalidArgumentException ''''))"

section \<open>FFmpegDecoder\<close>

text \<open>\<^verbatim>\<open>currentTime\<close> has an arbitrary value, \<open>t0\<close>, until it is known.\<close>

record 'w ffmpeg =
  ff_current_known :: bool
  ff_current_time :: int
  ff_queue :: "packet list"
  ff_open :: "int list"
  ff_world :: 'w

definition ff_apply :: "('w \<Rightarrow> 'w) \<Rightarrow> 'w ffmpeg \<Rightarrow> 'w ffmpeg" where
  "ff_apply f s = s\<lparr>ff_world := f (ff_world s)\<rparr>"

text \<open>The result comes with the flag \<^verbatim>\<open>ffmpegInitialized\<close> and the state of the world.\<close>

definition ff_new :: "('w, 'f) av_calls \<Rightarrow> int \<Rightarrow> bool \<Rightarrow> bool \<Rightarrow> 'w \<Rightarrow> 'w ffmpeg result \<times> bool \<times> 'w" where
  "ff_new av t0 can_seek initialized w =
     (let w0 = (if initialized then w else av_register_all av w) in
      case av_open_input av can_seek w0 of (bad, w1) \<Rightarrow>
        if bad \<noteq> 0 then (throw (Exception ''''), True, w1)
        else (case av_find_stream_info av w1 of (r, w2) \<Rightarrow>
          if r < 0 then (throw (FormatException ''''), True, w2)
          else (Inr \<lparr>ff_current_known = False, ff_current_time = t0, ff_queue = [], ff_open = [], ff_world = w2\<rparr>,
                True, w2)))"

definition ff_is_stream_open :: "int \<Rightarrow> 'w ffmpeg \<Rightarrow> bool" where
  "ff_is_stream_open i s \<longleftrightarrow> i \<in> set (ff_open s)"

definition ff_open_stream :: "('w, 'f) av_calls \<Rightarrow> int \<Rightarrow> ('w ffmpeg, unit) io" where
  "ff_open_stream av i s =
     (if i < 0 \<or> i \<ge> s32 (int (av_nb_streams av (ff_world s))) \<or> av_stream_at av (ff_world s) (nat i) = None
      then (throw (InvalidArgumentException ''''), s)
      else (case av_open_codec av (nat i) (ff_world s) of (bad, w) \<Rightarrow>
        if bad \<noteq> 0 then (throw (FormatException ''''), s\<lparr>ff_world := w\<rparr>)
        else (Inr (), s\<lparr>ff_world := w, ff_open := ff_open s @ [i]\<rparr>)))"

definition ff_close_stream :: "('w, 'f) av_calls \<Rightarrow> int \<Rightarrow> ('w ffmpeg, unit) io" where
  "ff_close_stream av i s =
     (Inr (),
      if ff_is_stream_open i s
      then s\<lparr>ff_world := av_close_codec av (nat i) (ff_world s), ff_open := remove1 i (ff_open s)\<rparr> else s)"

text \<open>The destructor walks \<^verbatim>\<open>openStreams\<close> with an iterator made before the loop, while
  \<^verbatim>\<open>CloseStream\<close> takes the streams out.\<close>

definition ff_close_all :: "('w, 'f) av_calls \<Rightarrow> ('w ffmpeg, unit) io" where
  "ff_close_all av s =
     fold_w (\<lambda>k s. case peek (ff_open s) k of Inl e \<Rightarrow> (Inl e, s) | Inr i \<Rightarrow> ff_close_stream av i s)
       [0..<length (ff_open s)] s"

definition ff_destroy :: "('w, 'f) av_calls \<Rightarrow> ('w ffmpeg, unit) io" where
  "ff_destroy av = bind_w (ff_close_all av) (\<lambda>_ s. (Inr (), ff_apply (av_close_input av) s))"

definition ff_free_packet :: "('w, 'f) av_calls \<Rightarrow> packet \<Rightarrow> 'w ffmpeg \<Rightarrow> 'w ffmpeg" where
  "ff_free_packet av p = ff_apply (av_free_packet av p)"

definition ff_queue_packet :: "('w, 'f) av_calls \<Rightarrow> packet \<Rightarrow> 'w ffmpeg \<Rightarrow> 'w ffmpeg" where
  "ff_queue_packet av p s =
     (case av_dup_packet av p (ff_world s) of (p', w) \<Rightarrow> s\<lparr>ff_queue := ff_queue s @ [p'], ff_world := w\<rparr>)"

text \<open>A packet has no comparison: the queue finds the one at the address it is given, the first
  that matches.\<close>

definition packet_wanted :: "int \<Rightarrow> packet \<Rightarrow> bool" where
  "packet_wanted i p \<longleftrightarrow> i < 0 \<or> pk_stream p = i"

definition ff_dequeue_packet :: "int \<Rightarrow> 'w ffmpeg \<Rightarrow> packet option \<times> 'w ffmpeg" where
  "ff_dequeue_packet i s =
     (let k = length (takeWhile (\<lambda>p. \<not> packet_wanted i p) (ff_queue s)) in
      if k < length (ff_queue s)
      then (Some (ff_queue s ! k), s\<lparr>ff_queue := take k (ff_queue s) @ drop (Suc k) (ff_queue s)\<rparr>)
      else (None, s))"

partial_function (option) ff_read_loop ::
    "('w, 'f) av_calls \<Rightarrow> int \<Rightarrow> 'w ffmpeg \<Rightarrow> (packet option \<times> 'w ffmpeg) option" where
  "ff_read_loop av i s =
     (case av_read_frame av (ff_world s) of
        (None, w) \<Rightarrow> Some (None, s\<lparr>ff_world := w\<rparr>)
      | (Some p, w) \<Rightarrow>
          (let s1 = s\<lparr>ff_world := w, ff_current_known := True, ff_current_time := pk_dts p\<rparr> in
           if packet_wanted i p then Some (Some p, s1)
           else ff_read_loop av i (if ff_is_stream_open (pk_stream p) s1 then ff_queue_packet av p s1 else s1)))"

definition ff_read_packet ::
    "('w, 'f) av_calls \<Rightarrow> int \<Rightarrow> 'w ffmpeg \<Rightarrow> (packet option \<times> 'w ffmpeg) option" where
  "ff_read_packet av i s =
     (case ff_dequeue_packet i s of
        (Some p, s1) \<Rightarrow> Some (Some p, s1)
      | (None, s1) \<Rightarrow> ff_read_loop av i s1)"

definition ff_flush_queue :: "('w, 'f) av_calls \<Rightarrow> 'w ffmpeg \<Rightarrow> 'w ffmpeg" where
  "ff_flush_queue av s = (fold (ff_free_packet av) (ff_queue s) s)\<lparr>ff_queue := []\<rparr>"

definition ff_reset_frame_time :: "'w ffmpeg \<Rightarrow> 'w ffmpeg" where
  "ff_reset_frame_time s = s\<lparr>ff_current_known := False\<rparr>"

definition ff_get_frame_time :: "('w, 'f) av_calls \<Rightarrow> 'w ffmpeg \<Rightarrow> (int \<times> 'w ffmpeg) option" where
  "ff_get_frame_time av s =
     (if ff_current_known s then Some (ff_current_time s, s)
      else (case ff_queue s of
          p # ps \<Rightarrow> Some (pk_dts p, s\<lparr>ff_current_known := True, ff_current_time := pk_dts p\<rparr>)
        | [] \<Rightarrow>
            (case ff_read_packet av (- 1) s of
               None \<Rightarrow> None
             | Some (None, s1) \<Rightarrow> Some (av_duration av (ff_world s1), s1)
             | Some (Some p, s1) \<Rightarrow> (let s2 = ff_queue_packet av p s1 in Some (ff_current_time s2, s2)))))"

definition ff_seek_frame :: "('w, 'f) av_calls \<Rightarrow> int \<Rightarrow> 'w ffmpeg \<Rightarrow> 'w ffmpeg option" where
  "ff_seek_frame av time s =
     map_option (\<lambda>(t, s1).
       let s2 = ff_apply (av_seek_frame av time (time < t)) s1;
           s3 = fold (\<lambda>i. ff_apply (av_flush_buffers av (nat i))) (ff_open s2) s2
       in ff_reset_frame_time (ff_flush_queue av s3))
       (ff_get_frame_time av s)"

text \<open>The first stream of a kind, which both decoders look for.\<close>

definition find_stream :: "('w, 'f) av_calls \<Rightarrow> media_type \<Rightarrow> 'w \<Rightarrow> (nat \<times> av_stream) option" where
  "find_stream av kind w =
     (case List.find (\<lambda>k. case av_stream_at av w k of None \<Rightarrow> False | Some st \<Rightarrow> as_type st = kind) [0..<av_nb_streams av w] of
        None \<Rightarrow> None
      | Some k \<Rightarrow> map_option (Pair k) (av_stream_at av w k))"

section \<open>Packets in order\<close>

text \<open>The packets of a file, as the library promises to deliver them: one by one until there are
  no more; a duplicate of a packet is the same packet with data of its own.\<close>

definition packet_key :: "packet \<Rightarrow> int \<times> int \<times> int" where
  "packet_key p = (pk_stream p, pk_dts p, pk_size p)"

definition demuxes :: "('w, 'f) av_calls \<Rightarrow> ('w \<Rightarrow> packet list) \<Rightarrow> bool" where
  "demuxes av frames \<longleftrightarrow>
     (\<forall>w. case frames w of
        [] \<Rightarrow> fst (av_read_frame av w) = None \<and> frames (snd (av_read_frame av w)) = []
      | p # ps \<Rightarrow> fst (av_read_frame av w) = Some p \<and> frames (snd (av_read_frame av w)) = ps) \<and>
     (\<forall>p w. packet_key (fst (av_dup_packet av p w)) = packet_key p \<and> frames (snd (av_dup_packet av p w)) = frames w)"

text \<open>The packets of a stream that are still to come: those in the queue, then those of the file.\<close>

definition pending :: "('w \<Rightarrow> packet list) \<Rightarrow> int \<Rightarrow> 'w ffmpeg \<Rightarrow> packet list" where
  "pending frames i s = filter (packet_wanted i) (ff_queue s @ frames (ff_world s))"

lemma wanted_key: "packet_key p = packet_key q \<Longrightarrow> packet_wanted i p = packet_wanted i q"
  by (simp add: packet_key_def packet_wanted_def)

lemma demuxes_Nil: "demuxes av frames \<Longrightarrow> frames w = [] \<Longrightarrow> \<exists>w'. av_read_frame av w = (None, w') \<and> frames w' = []"
  by (cases "av_read_frame av w") (auto simp: demuxes_def dest: spec [of _ w])

lemma demuxes_Cons:
  "demuxes av frames \<Longrightarrow> frames w = p # ps \<Longrightarrow> \<exists>w'. av_read_frame av w = (Some p, w') \<and> frames w' = ps"
  by (cases "av_read_frame av w") (auto simp: demuxes_def dest: spec [of _ w])

lemma queue_packet_pending:
  assumes "demuxes av frames"
  shows "\<exists>p'. packet_key p' = packet_key p \<and> ff_queue (ff_queue_packet av p s) = ff_queue s @ [p'] \<and>
    frames (ff_world (ff_queue_packet av p s)) = frames (ff_world s) \<and> ff_open (ff_queue_packet av p s) = ff_open s"
  using assms by (cases "av_dup_packet av p (ff_world s)") (auto simp: demuxes_def ff_queue_packet_def dest!: spec [of _ p] spec [of _ "ff_world s"])

lemma read_loop_pending:
  assumes d: "demuxes av frames"
  shows "\<exists>r s'. ff_read_loop av i s = Some (r, s') \<and> ff_open s' = ff_open s \<and>
    filter (packet_wanted i) (ff_queue s') = filter (packet_wanted i) (ff_queue s) \<and>
    (case filter (packet_wanted i) (frames (ff_world s)) of
       [] \<Rightarrow> r = None \<and> frames (ff_world s') = [] | p # ps \<Rightarrow> r = Some p \<and> filter (packet_wanted i) (frames (ff_world s')) = ps) \<and>
    (\<forall>j. 0 \<le> i \<longrightarrow> j \<in> set (ff_open s) \<longrightarrow> 0 \<le> j \<longrightarrow> j \<noteq> i \<longrightarrow>
       map packet_key (pending frames j s') = map packet_key (pending frames j s))"
proof (induction "frames (ff_world s)" arbitrary: s)
  case Nil
  then obtain w' where w': "av_read_frame av (ff_world s) = (None, w')" "frames w' = []"
    using demuxes_Nil [OF d, of "ff_world s"] by auto
  then show ?case using Nil by (subst ff_read_loop.simps) (simp add: pending_def)
next
  case (Cons p ps)
  obtain w' where w': "av_read_frame av (ff_world s) = (Some p, w')" "frames w' = ps"
    using demuxes_Cons [OF d, of "ff_world s"] Cons.hyps(2) by metis
  let ?s1 = "s\<lparr>ff_world := w', ff_current_known := True, ff_current_time := pk_dts p\<rparr>"
  show ?case
  proof (cases "packet_wanted i p")
    case True
    have "\<not> packet_wanted j p" if "0 \<le> i" "0 \<le> j" "j \<noteq> i" for j using True that by (auto simp: packet_wanted_def)
    then show ?thesis using True w' Cons.hyps(2) [symmetric]
      by (subst ff_read_loop.simps) (auto simp: pending_def)
  next
    case False
    let ?s2 = "if ff_is_stream_open (pk_stream p) ?s1 then ff_queue_packet av p ?s1 else ?s1"
    obtain p' where p': "packet_key p' = packet_key p" "ff_queue (ff_queue_packet av p ?s1) = ff_queue s @ [p']"
      "frames (ff_world (ff_queue_packet av p ?s1)) = ps" "ff_open (ff_queue_packet av p ?s1) = ff_open s"
      using queue_packet_pending [OF d, of p ?s1] w'(2) by auto
    have unwanted: "\<not> packet_wanted i p'" using False wanted_key [OF p'(1)] by simp
    have f: "frames (ff_world ?s2) = ps" "ff_open ?s2 = ff_open s"
      "filter (packet_wanted i) (ff_queue ?s2) = filter (packet_wanted i) (ff_queue s)"
      using p' w'(2) unwanted by auto
    have other: "map packet_key (pending frames j ?s2) = map packet_key (pending frames j s)" if "j \<in> set (ff_open s)" "0 \<le> j" for j
    proof (cases "pk_stream p = j")
      case True
      then have "ff_is_stream_open (pk_stream p) ?s1" using that(1) by (simp add: ff_is_stream_open_def)
      then show ?thesis using p' Cons.hyps(2) [symmetric] wanted_key [OF p'(1), of j] by (simp add: pending_def)
    next
      case False
      then have "\<not> packet_wanted j p" "\<not> packet_wanted j p'" using that(2) wanted_key [OF p'(1), of j] by (auto simp: packet_wanted_def)
      then show ?thesis using p' w'(2) Cons.hyps(2) [symmetric] by (simp add: pending_def)
    qed
    have step: "ff_read_loop av i s = ff_read_loop av i ?s2"
      using False w'(1) by (subst ff_read_loop.simps) (simp add: Let_def)
    obtain r s' where s': "ff_read_loop av i ?s2 = Some (r, s')" "ff_open s' = ff_open s"
      "filter (packet_wanted i) (ff_queue s') = filter (packet_wanted i) (ff_queue s)"
      "case filter (packet_wanted i) ps of
         [] \<Rightarrow> r = None \<and> frames (ff_world s') = [] | p # ps \<Rightarrow> r = Some p \<and> filter (packet_wanted i) (frames (ff_world s')) = ps"
      "\<And>j. 0 \<le> i \<Longrightarrow> j \<in> set (ff_open s) \<Longrightarrow> 0 \<le> j \<Longrightarrow> j \<noteq> i \<Longrightarrow> map packet_key (pending frames j s') = map packet_key (pending frames j ?s2)"
      using Cons.hyps(1) [of ?s2] unfolding f by blast
    have "filter (packet_wanted i) (frames (ff_world s)) = filter (packet_wanted i) ps"
      using False Cons.hyps(2) [symmetric] by simp
    then show ?thesis using step s' other by (intro exI [of _ r] exI [of _ s']) simp
  qed
qed

lemma dequeue_cases:
  shows "filter (packet_wanted i) (ff_queue s) = [] \<Longrightarrow> ff_dequeue_packet i s = (None, s)"
    and "filter (packet_wanted i) (ff_queue s) = p # ps \<Longrightarrow>
      \<exists>xs ys. ff_queue s = xs @ p # ys \<and> filter (packet_wanted i) xs = [] \<and> filter (packet_wanted i) ys = ps \<and> packet_wanted i p \<and>
        ff_dequeue_packet i s = (Some p, s\<lparr>ff_queue := xs @ ys\<rparr>)"
proof -
  let ?P = "packet_wanted i" and ?q = "ff_queue s"
  show "ff_dequeue_packet i s = (None, s)" if "filter ?P ?q = []"
  proof -
    have "takeWhile (\<lambda>p. \<not> ?P p) ?q = ?q" using that by (simp add: filter_empty_conv takeWhile_eq_all_conv)
    then show ?thesis unfolding ff_dequeue_packet_def Let_def by (simp only: less_irrefl if_False)
  qed
  assume "filter ?P ?q = p # ps"
  then obtain xs ys where xs: "?q = xs @ p # ys" "\<forall>x \<in> set xs. \<not> ?P x" "?P p" "ps = filter ?P ys"
    by (auto simp: filter_eq_Cons_iff)
  then have "takeWhile (\<lambda>p. \<not> ?P p) ?q = xs" by (simp add: takeWhile_append)
  then have "ff_dequeue_packet i s = (Some p, s\<lparr>ff_queue := xs @ ys\<rparr>)" by (simp add: ff_dequeue_packet_def xs(1))
  then show "\<exists>xs ys. ?q = xs @ p # ys \<and> filter ?P xs = [] \<and> filter ?P ys = ps \<and> ?P p \<and>
      ff_dequeue_packet i s = (Some p, s\<lparr>ff_queue := xs @ ys\<rparr>)"
    using xs by (auto simp: filter_empty_conv)
qed

text \<open>When a file delivers its packets one by one, \<^verbatim>\<open>ReadPacket\<close> returns for every stream: it
  delivers the next packet of the stream, in the order of the file, or nothing when the stream has none left, and
  the packets still to come of every other open stream stay the same, although the decoder may have
  read some of them from the file into its queue.\<close>

theorem packets_in_order:
  assumes "demuxes av frames"
  shows "\<exists>r s'. ff_read_packet av i s = Some (r, s') \<and> ff_open s' = ff_open s \<and>
    (case pending frames i s of [] \<Rightarrow> r = None | p # ps \<Rightarrow> r = Some p \<and> pending frames i s' = ps) \<and>
    (\<forall>j. 0 \<le> i \<longrightarrow> j \<in> set (ff_open s) \<longrightarrow> 0 \<le> j \<longrightarrow> j \<noteq> i \<longrightarrow>
       map packet_key (pending frames j s') = map packet_key (pending frames j s))"
proof (cases "filter (packet_wanted i) (ff_queue s)")
  case Nil
  then have "ff_read_packet av i s = ff_read_loop av i s" by (simp add: ff_read_packet_def dequeue_cases(1))
  then show ?thesis using read_loop_pending [OF assms, of i s] Nil
    by (fastforce simp: pending_def [of _ i] split: list.splits)
next
  case (Cons p ps)
  obtain xs ys where x: "ff_queue s = xs @ p # ys" "filter (packet_wanted i) xs = []" "filter (packet_wanted i) ys = ps"
    "packet_wanted i p" "ff_dequeue_packet i s = (Some p, s\<lparr>ff_queue := xs @ ys\<rparr>)"
    using dequeue_cases(2) [OF Cons] by blast
  then have "ff_read_packet av i s = Some (Some p, s\<lparr>ff_queue := xs @ ys\<rparr>)" by (simp add: ff_read_packet_def)
  moreover have "\<not> packet_wanted j p" if "0 \<le> i" "0 \<le> j" "j \<noteq> i" for j using x(4) that by (auto simp: packet_wanted_def)
  ultimately show ?thesis using x by (auto simp: pending_def)
qed

text \<open>A world that is the list of packets to come, for a concrete file.\<close>

definition list_demuxer :: "(packet list, unit) av_calls" where
  "list_demuxer = \<lparr>av_register_all = id, av_open_input = (\<lambda>_ w. (0, w)), av_find_stream_info = (\<lambda>w. (0, w)),
     av_close_input = id, av_nb_streams = (\<lambda>_. 2), av_stream_at = (\<lambda>_ _. None), av_duration = (\<lambda>_. 0),
     av_open_codec = (\<lambda>_ w. (0, w)), av_close_codec = (\<lambda>_. id), av_flush_buffers = (\<lambda>_. id),
     av_read_frame = (\<lambda>w. case w of [] \<Rightarrow> (None, []) | p # ps \<Rightarrow> (Some p, ps)),
     av_free_packet = (\<lambda>_. id), av_dup_packet = Pair, av_seek_frame = (\<lambda>_ _. id), av_rescale = (\<lambda>a b c. c_div (a * b) c),
     av_decode_audio = (\<lambda>_ _ w. ((- 1, []), w)), av_decode_video = (\<lambda>_ _ w. ((- 1, None), w)), av_scale = (\<lambda>_ _ _. [])\<rparr>"

definition two_stream_file :: "packet list ffmpeg" where
  "two_stream_file = \<lparr>ff_current_known = False, ff_current_time = 0, ff_queue = [], ff_open = [0, 1],
     ff_world = [\<lparr>pk_stream = 0, pk_dts = 1, pk_size = 9, pk_data = 0\<rparr>, \<lparr>pk_stream = 1, pk_dts = 2, pk_size = 9, pk_data = 0\<rparr>]\<rparr>"

theorem packets_in_order_witness:
  "\<exists>s'. ff_read_packet list_demuxer 1 two_stream_file =
      Some (Some \<lparr>pk_stream = 1, pk_dts = 2, pk_size = 9, pk_data = 0\<rparr>, s') \<and> map packet_key (pending id 0 s') = [(0, 1, 9)]"
proof -
  have "demuxes list_demuxer id" by (auto simp: demuxes_def list_demuxer_def split: list.splits)
  from packets_in_order [OF this, of 1 two_stream_file] show ?thesis
    by (auto simp: two_stream_file_def pending_def packet_wanted_def packet_key_def dest!: spec [of _ 0])
qed

text \<open>Destroying a decoder with two open streams reads past the list that the loop shortens.\<close>

lemma destroy_two_streams:
  assumes "length (ff_open s) = 2" shows "\<exists>s'. ff_destroy av s = (Inl Undefined, s')"
proof -
  obtain i j where "ff_open s = [i, j]" using assms by (auto simp: length_Suc_conv eval_nat_numeral)
  then show ?thesis
    by (auto simp: ff_destroy_def ff_close_all_def bind_w_def return_w_def peek_def ff_close_stream_def ff_is_stream_open_def upt_rec)
qed

section \<open>FFmpegAudioDecoder\<close>

text \<open>The decoder keeps what a packet gave beyond the samples asked for in a cache of 129000 bytes.
  \<open>sample\<close> is how the machine reads two bytes as a sample.\<close>

record 'w ff_audio =
  fa_codec :: audio_codec
  fa_decoder :: "'w ffmpeg"
  fa_stream :: nat
  fa_time_base :: "int \<times> int"
  fa_cache :: bytes
  fa_cache_length :: nat

fun samples_of :: "(u8 \<Rightarrow> u8 \<Rightarrow> 'a) \<Rightarrow> bytes \<Rightarrow> 'a list" where
  "samples_of sample (a # b # bs) = sample a b # samples_of sample bs"
| "samples_of sample bs = []"

definition fa_buffer_size :: nat where
  "fa_buffer_size = 129000"

text \<open>\<^verbatim>\<open>Initialize\<close>: the first audio stream; \<open>g\<close> is the memory of the new cache.\<close>

definition fa_samples :: "av_stream \<Rightarrow> int result" where
  "fa_samples st =
     (if as_duration st < 0 then Inr (2 ^ 63 - 1)
      else if snd (as_time_base st) = 0 then Inl Undefined
      else Inr (c_div (s64 (fst (as_time_base st) * as_duration st * uint (as_sample_rate st))) (snd (as_time_base st))))"

definition fa_new :: "('w, 'f) av_calls \<Rightarrow> (nat \<Rightarrow> u8) \<Rightarrow> 'w ffmpeg \<Rightarrow> 'w ff_audio result \<times> 'w ffmpeg" where
  "fa_new av g s =
     (case find_stream av Audio_Media (ff_world s) of
        None \<Rightarrow> (throw (FormatException ''''), s)
      | Some (k, st) \<Rightarrow>
          bind_w (ff_open_stream av (s32 (int k))) (\<lambda>_ s1.
          (bind_r (fa_samples st) (\<lambda>n.
           Inr \<lparr>fa_codec = \<lparr>ac_channels = as_channels st, ac_sample_rate = as_sample_rate st, ac_samples = n,
                  ac_bit_rate = 0, ac_position = 0\<rparr>,
                fa_decoder = s1, fa_stream = k, fa_time_base = as_time_base st,
                fa_cache = fresh_block g fa_buffer_size, fa_cache_length = 0\<rparr>), s1)) s)"

definition fa_seek :: "('w, 'f) av_calls \<Rightarrow> int \<Rightarrow> 'w ff_audio \<Rightarrow> 'w ff_audio result option" where
  "fa_seek av sample c =
     (if ac_sample_rate (fa_codec c) = 0 then Some (Inl Undefined)
      else map_option (\<lambda>d. bind_r (codec_seek sample (fa_codec c)) (\<lambda>codec.
             Inr (c\<lparr>fa_decoder := d, fa_cache_length := 0, fa_codec := codec\<rparr>)))
        (ff_seek_frame av
          (c_div (av_rescale av sample (snd (fa_time_base c)) (fst (fa_time_base c))) (uint (ac_sample_rate (fa_codec c))))
          (fa_decoder c)))"

definition fa_read_cache ::
    "(u8 \<Rightarrow> u8 \<Rightarrow> 'a) \<Rightarrow> 'a audio_buffer \<Rightarrow> int \<Rightarrow> int \<Rightarrow> 'w ff_audio \<Rightarrow> ((int \<times> 'a audio_buffer) \<times> 'w ff_audio) result" where
  "fa_read_cache sample b count offset c =
     (let channels = unat (ac_channels (fa_codec c)) in
      if channels = 0 then Inl Undefined
      else
        (let n = s32 (int (min (u64_of count) (fa_cache_length c div 2 div channels)));
             used = 2 * channels * u64_of n;
             left = size_sub (fa_cache_length c) used in
         bind_r (deinterlace_from b (samples_of sample (fa_cache c)) (word_of_int n) (word_of_int offset)) (\<lambda>b'.
         bind_r (mem_read (fa_cache c) used left) (\<lambda>rest.
         bind_r (mem_write (fa_cache c) 0 rest) (\<lambda>cache.
         Inr ((n, b'), c\<lparr>fa_cache := cache, fa_cache_length := left\<rparr>))))))"

text \<open>The loop over the frames of a packet; the state is the buffer, the count still wanted, the
  offset reached and the decoder.\<close>

type_synonym ('w, 'a) fa_state = "'a audio_buffer \<times> u32 \<times> int \<times> 'w ff_audio"

definition fa_take ::
    "(u8 \<Rightarrow> u8 \<Rightarrow> 'a) \<Rightarrow> u32 \<Rightarrow> bytes \<Rightarrow> ('w, 'a) fa_state \<Rightarrow> ('w, 'a) fa_state result" where
  "fa_take sample boffset out st =
     (case st of (b, count, offset, c) \<Rightarrow>
        let channels = ac_channels (fa_codec c);
            read = sint (min (word_of_nat (length out)) (count * 2 * channels) :: u32);
            left = int (length out) - read in
        bind_r
          (if read > 0 then
             (if channels = 0 then Inl Undefined
              else
                (let samples = s32 (read div 2 div uint channels) in
                 bind_r (deinterlace_from b (samples_of sample out) (word_of_int samples) (boffset + word_of_int offset)) (\<lambda>b'.
                 Inr (b', count - word_of_int samples, s32 (offset + samples)))))
           else Inr (b, count, offset)) (\<lambda>(b', count', offset').
        bind_r
          (if left > 0 then
             bind_r (if read < 0 then Inl Undefined else mem_write (fa_cache c) (fa_cache_length c) (drop (nat read) out)) (\<lambda>cache.
             Inr (c\<lparr>fa_cache := cache, fa_cache_length := fa_cache_length c + nat left\<rparr>))
           else Inr c) (\<lambda>c'.
        Inr (b', count', offset', c'))))"

partial_function (option) fa_decode ::
    "('w, 'f) av_calls \<Rightarrow> (u8 \<Rightarrow> u8 \<Rightarrow> 'a) \<Rightarrow> u32 \<Rightarrow> packet \<Rightarrow> ('w, 'a) fa_state \<Rightarrow> ('w, 'a) fa_state result option" where
  "fa_decode av sample boffset p st =
     (if pk_size p \<le> 0 then Some (Inr st)
      else
        (case st of (b, count, offset, c) \<Rightarrow>
         (case av_decode_audio av (fa_stream c) p (ff_world (fa_decoder c)) of ((used, out), w) \<Rightarrow>
            let c1 = c\<lparr>fa_decoder := (fa_decoder c)\<lparr>ff_world := w\<rparr>\<rparr> in
            if used < 0 \<or> out = [] then Some (Inr (b, count, offset, c1))
            else
              (case fa_take sample boffset out (b, count, offset, c1) of
                 Inl e \<Rightarrow> Some (Inl e)
               | Inr st' \<Rightarrow>
                   fa_decode av sample boffset (p\<lparr>pk_size := pk_size p - used, pk_data := pk_data p + used\<rparr>) st'))))"

partial_function (option) fa_read_loop ::
    "('w, 'f) av_calls \<Rightarrow> (u8 \<Rightarrow> u8 \<Rightarrow> 'a) \<Rightarrow> u32 \<Rightarrow> ('w, 'a) fa_state \<Rightarrow> ('w, 'a) fa_state result option" where
  "fa_read_loop av sample boffset st =
     (case st of (b, count, offset, c) \<Rightarrow>
        if count = 0 then Some (Inr st)
        else
          (case ff_read_packet av (s32 (int (fa_stream c))) (fa_decoder c) of
             None \<Rightarrow> None
           | Some (None, d) \<Rightarrow> Some (Inr (b, count, offset, c\<lparr>fa_decoder := d\<rparr>))
           | Some (Some p, d) \<Rightarrow>
               (case fa_decode av sample boffset p (b, count, offset, c\<lparr>fa_decoder := d, fa_cache_length := 0\<rparr>) of
                  None \<Rightarrow> None
                | Some (Inl e) \<Rightarrow> Some (Inl e)
                | Some (Inr (b', count', offset', c')) \<Rightarrow>
                    fa_read_loop av sample boffset
                      (b', count', offset', c'\<lparr>fa_decoder := ff_free_packet av p (fa_decoder c')\<rparr>))))"

definition fa_read ::
    "('w, 'f) av_calls \<Rightarrow> (u8 \<Rightarrow> u8 \<Rightarrow> 'a) \<Rightarrow> 'a audio_buffer \<Rightarrow> u32 \<Rightarrow> u32 \<Rightarrow> 'w ff_audio
       \<Rightarrow> ((u32 \<times> 'a audio_buffer) \<times> 'w ff_audio) result option" where
  "fa_read av sample b count boffset c =
     (case fa_read_cache sample b (sint count) (sint boffset) c of
        Inl e \<Rightarrow> Some (Inl e)
      | Inr ((n, b1), c1) \<Rightarrow>
          map_option (\<lambda>r. bind_r r (\<lambda>(b', count', offset, c').
            bind_r (codec_read b' (word_of_int offset) 0 (fa_codec c')) (\<lambda>(_, codec).
            Inr ((word_of_int offset, b'), c'\<lparr>fa_codec := codec\<rparr>))))
          (fa_read_loop av sample boffset (b1, count - word_of_int n, n, c1)))"

section \<open>VideoCodec\<close>

text \<open>The frame rate, a \<^verbatim>\<open>float\<close>, has a type of its own, \<open>'r\<close>.\<close>

record 'r video_codec =
  vc_frame_rate :: 'r
  vc_frame_count :: int
  vc_frame_width :: int
  vc_frame_height :: int
  vc_description :: pixel_description
  vc_position :: int

definition video_codec_new :: "'r \<Rightarrow> 'r video_codec" where
  "video_codec_new zero =
     \<lparr>vc_frame_rate = zero, vc_frame_count = 0, vc_frame_width = 0, vc_frame_height = 0,
      vc_description = pixel_empty, vc_position = 0\<rparr>"

definition video_set_pixel_description :: "pixel_description \<Rightarrow> 'r video_codec \<Rightarrow> 'r video_codec" where
  "video_set_pixel_description d c = c\<lparr>vc_description := d\<rparr>"

definition video_seek :: "int \<Rightarrow> 'r video_codec \<Rightarrow> 'r video_codec" where
  "video_seek frame c = c\<lparr>vc_position := frame\<rparr>"

text \<open>\<^verbatim>\<open>Read(frame)\<close> over the virtual method that reads into an image; \<open>base\<close> gives the fields of
  the base class.\<close>

definition video_read_frame ::
    "('c \<Rightarrow> 'r video_codec) \<Rightarrow> (bitmap \<Rightarrow> int \<Rightarrow> 'c \<Rightarrow> ((bool \<times> bitmap) \<times> 'c) result option) \<Rightarrow> int \<Rightarrow> 'c
       \<Rightarrow> (bitmap option \<times> 'c) result option" where
  "video_read_frame base read frame c =
     (case bitmap_new (u32_of (vc_frame_width (base c))) (u32_of (vc_frame_height (base c))) (vc_description (base c)) NoInterlace of
        Inl e \<Rightarrow> Some (Inl e)
      | Inr img \<Rightarrow>
          map_option (\<lambda>r. bind_r r (\<lambda>((success, img'), c'). Inr (if success then Some img' else None, c')))
            (read img frame c))"

definition video_read_next ::
    "('c \<Rightarrow> 'r video_codec) \<Rightarrow> (bitmap \<Rightarrow> int \<Rightarrow> 'c \<Rightarrow> ((bool \<times> bitmap) \<times> 'c) result option) \<Rightarrow> 'c
       \<Rightarrow> (bitmap option \<times> 'c) result option" where
  "video_read_next base read c = video_read_frame base read (s64 (vc_position (base c) + 1)) c"

definition video_read_next_into ::
    "('c \<Rightarrow> 'r video_codec) \<Rightarrow> (bitmap \<Rightarrow> int \<Rightarrow> 'c \<Rightarrow> ((bool \<times> bitmap) \<times> 'c) result option) \<Rightarrow> bitmap \<Rightarrow> 'c
       \<Rightarrow> ((bool \<times> bitmap) \<times> 'c) result option" where
  "video_read_next_into base read img c = read img (s64 (vc_position (base c) + 1)) c"

section \<open>FFmpegVideoDecoder\<close>

definition ffmpeg_pixel_format :: "av_pixel_format \<Rightarrow> pixel_description" where
  "ffmpeg_pixel_format f =
     (case f of
        GRAY8 \<Rightarrow> pixel_I8
      | GRAY8A \<Rightarrow> pixel_IA8
      | MONOWHITE \<Rightarrow> pixel_new 1 0x01
      | MONOBLACK \<Rightarrow> pixel_new 1 0x01
      | AV_RGBA \<Rightarrow> pixel_RGBA8
      | GRAY16BE \<Rightarrow> pixel_new 16 0x01
      | GRAY16LE \<Rightarrow> pixel_new 16 0x01
      | AV_0RGB \<Rightarrow> pixel_new 8 (0x00 OR 0x1C)
      | RGB24 \<Rightarrow> pixel_RGB8
      | Other_Format n \<Rightarrow> pixel_RGB8)"

text \<open>The way back gives one format for every description.\<close>

definition ffmpeg_format_of :: "pixel_description \<Rightarrow> av_pixel_format" where
  "ffmpeg_format_of d = RGB24"

record ('w, 'r) ff_video =
  fv_codec :: "'r video_codec"
  fv_decoder :: "'w ffmpeg"
  fv_stream :: nat
  fv_time_base :: "int \<times> int"
  fv_packet :: packet
  fv_original :: packet

definition empty_packet :: packet where
  "empty_packet = \<lparr>pk_stream = 0, pk_dts = - 1, pk_size = 0, pk_data = 0\<rparr>"

text \<open>\<open>rate a b c\<close> is the \<^verbatim>\<open>float\<close> quotient of \<open>a\<close> by \<open>b\<close> and \<open>c\<close>.\<close>

definition fv_frame_rate :: "(int \<Rightarrow> int \<Rightarrow> int \<Rightarrow> 'r) \<Rightarrow> 'r \<Rightarrow> av_stream \<Rightarrow> 'r" where
  "fv_frame_rate rate zero st =
     (let (num, den) = as_codec_time_base st; (rnum, rden) = as_frame_rate st in
      if num \<noteq> 0 \<and> den \<noteq> 0 \<and> as_ticks_per_frame st \<noteq> 0 then rate den num (as_ticks_per_frame st)
      else if rnum \<noteq> 0 \<and> rden \<noteq> 0 then rate rnum rden 1
      else zero)"

definition fv_new ::
    "('w, 'f) av_calls \<Rightarrow> (int \<Rightarrow> int \<Rightarrow> int \<Rightarrow> 'r) \<Rightarrow> 'r \<Rightarrow> 'w ffmpeg \<Rightarrow> ('w, 'r) ff_video result \<times> 'w ffmpeg" where
  "fv_new av rate zero s =
     (case find_stream av Video_Media (ff_world s) of
        None \<Rightarrow> (throw (FormatException ''''), s)
      | Some (k, st) \<Rightarrow>
          bind_w (ff_open_stream av (s32 (int k))) (\<lambda>_ s1.
          (Inr \<lparr>fv_codec = \<lparr>vc_frame_rate = fv_frame_rate rate zero st, vc_frame_count = as_duration st,
                  vc_frame_width = as_coded_width st, vc_frame_height = as_coded_height st,
                  vc_description = ffmpeg_pixel_format (as_format st), vc_position = 0\<rparr>,
                fv_decoder = s1, fv_stream = k, fv_time_base = as_time_base st,
                fv_packet = empty_packet, fv_original = empty_packet\<rparr>, s1)) s)"

definition fv_destroy :: "('w, 'f) av_calls \<Rightarrow> ('w, 'r) ff_video \<Rightarrow> 'w ffmpeg" where
  "fv_destroy av c = ff_free_packet av (fv_original c) (fv_decoder c)"

definition fv_seek :: "('w, 'f) av_calls \<Rightarrow> int \<Rightarrow> ('w, 'r) ff_video \<Rightarrow> ('w, 'r) ff_video option" where
  "fv_seek av frame c =
     map_option (\<lambda>d. c\<lparr>fv_decoder := d, fv_codec := video_seek frame (fv_codec c)\<rparr>)
       (ff_seek_frame av (av_rescale av frame (snd (fv_time_base c)) (fst (fv_time_base c))) (fv_decoder c))"

text \<open>The inner loop reads packets until one has data; false is the end of the stream.\<close>

partial_function (option) fv_next_packet ::
    "('w, 'f) av_calls \<Rightarrow> ('w, 'r) ff_video \<Rightarrow> (bool \<times> ('w, 'r) ff_video) option" where
  "fv_next_packet av c =
     (if pk_size (fv_packet c) > 0 then Some (True, c)
      else
        (case ff_read_packet av (s32 (int (fv_stream c))) (ff_free_packet av (fv_original c) (fv_decoder c)) of
           None \<Rightarrow> None
         | Some (None, d) \<Rightarrow> Some (False, c\<lparr>fv_decoder := d\<rparr>)
         | Some (Some p, d) \<Rightarrow> fv_next_packet av (c\<lparr>fv_decoder := d, fv_original := p, fv_packet := p\<rparr>)))"

text \<open>Scaling a frame into an image, of which the library writes three bytes for each pixel.\<close>

definition fv_fill :: "('w, 'f) av_calls \<Rightarrow> 'f \<Rightarrow> bitmap \<Rightarrow> bitmap result" where
  "fv_fill av frame img =
     bind_r (mem_write (bm_data img) 0 (av_scale av frame (bm_width img) (bm_height img))) (\<lambda>m.
     Inr (img\<lparr>bm_data := m\<rparr>))"

text \<open>One round of \<^verbatim>\<open>Read\<close>: None when it goes on with the next.\<close>

definition fv_round ::
    "('w, 'f) av_calls \<Rightarrow> bitmap \<Rightarrow> int \<Rightarrow> ('w, 'r) ff_video \<Rightarrow> ((bool \<times> bitmap) option \<times> ('w, 'r) ff_video) result" where
  "fv_round av img target c =
     (case av_decode_video av (fv_stream c) (fv_packet c) (ff_world (fv_decoder c)) of ((used, frame), w) \<Rightarrow>
        let c1 = c\<lparr>fv_decoder := (fv_decoder c)\<lparr>ff_world := w\<rparr>\<rparr> in
        if used < 0 then Inr (Some (False, img), c1)
        else
          (let p = (fv_packet c1)\<lparr>pk_size := pk_size (fv_packet c1) - used, pk_data := pk_data (fv_packet c1) + used\<rparr>;
               c2 = c1\<lparr>fv_packet := p\<rparr> in
           case frame of
             None \<Rightarrow> Inr (None, c2)
           | Some (f, repeat) \<Rightarrow>
               if pk_dts p \<ge> target then
                 (if repeat then throw (NotSupportedException '''')
                  else bind_r (fv_fill av f img) (\<lambda>img'.
                    Inr (Some (True, img'), c2\<lparr>fv_codec := (fv_codec c2)\<lparr>vc_position := pk_dts p\<rparr>\<rparr>)))
               else Inr (None, c2)))"

partial_function (option) fv_read ::
    "('w, 'f) av_calls \<Rightarrow> bitmap \<Rightarrow> int \<Rightarrow> ('w, 'r) ff_video \<Rightarrow> ((bool \<times> bitmap) \<times> ('w, 'r) ff_video) result option" where
  "fv_read av img target c =
     (case fv_next_packet av c of
        None \<Rightarrow> None
      | Some (available, c1) \<Rightarrow>
          if \<not> available then Some (Inr ((False, img), c1))
          else
            (case fv_round av img target c1 of
               Inl e \<Rightarrow> Some (Inl e)
             | Inr (r, c2) \<Rightarrow>
                 (case r of Some x \<Rightarrow> Some (Inr (x, c2)) | None \<Rightarrow> fv_read av img target c2)))"

text \<open>An image in a format of fewer than three bytes is overrun: \<^verbatim>\<open>Read\<close> of a gray film fails for
  every frame.\<close>

lemma fill_small_image:
  assumes "\<And>f w h. length (av_scale av f w h) = 3 * w * h" "length (bm_data img) < 3 * bm_width img * bm_height img"
  shows "fv_fill av f img = Inl Undefined"
  using assms by (simp add: fv_fill_def mem_write_def)

lemma gray_film_overruns:
  assumes "\<And>f w h. length (av_scale av f w h) = 3 * w * h" and "0 < w" "0 < h" "w * h < 2 ^ 24"
    and "bitmap_new w h (ffmpeg_pixel_format GRAY8) NoInterlace = Inr img"
  shows "fv_fill av f img = Inl Undefined"
proof (rule fill_small_image [OF assms(1)])
  have d: "pixel_depth pixel_I8 = 8" by (simp add: pixel_depth_def pixel_I8_def pixel_new_def colour_types_def)
  have img: "bm_width img = w" "bm_height img = h"
    "length (bm_data img) = nat (s32 (int (image_data_size w h pixel_I8 mod 2 ^ 32)))"
    using assms(5) by (auto simp: bitmap_new_def bitmap_allocate_def ffmpeg_pixel_format_def Let_def split: if_splits)
  have "8 * w * h = 8 * (w * h)" by simp
  moreover have "8 * n < 2 ^ 64" if "n < 2 ^ 24" for n :: nat using that by simp
  note this [OF assms(4)]
  ultimately have s: "image_data_size w h pixel_I8 = w * h"
    by (simp add: image_data_size_def d round_up_multiple)
  show "length (bm_data img) < 3 * bm_width img * bm_height img"
  proof -
    have "nat (s32 (int (n mod 2 ^ 32))) = n" if "n < 2 ^ 24" for n using that by (simp add: s32_id)
    note this [OF assms(4)]
    moreover have "0 < w * h" using assms(2,3) by simp
    ultimately show ?thesis unfolding img s by (simp add: mult.assoc del: of_nat_mult)
  qed
qed

section \<open>The cache of the audio decoder\<close>

lemma length_samples_of: "length (samples_of sample bs) = length bs div 2"
  by (induction sample bs rule: samples_of.induct) auto

lemma nth_samples_of: "2 * j + 1 < length bs \<Longrightarrow> samples_of sample bs ! j = sample (bs ! (2 * j)) (bs ! (2 * j + 1))"
proof (induction sample bs arbitrary: j rule: samples_of.induct)
  case (1 sample a b bs)
  then show ?case by (cases j) auto
qed auto

text \<open>C24: Reading from the cache of the audio decoder takes as many whole frames as are wanted and
  there, puts their samples into the buffer by channel, and leaves the rest of the cached bytes at the
  front of the cache; no access leaves the cache or the buffer.\<close>

theorem audio_cache_read:
  assumes "audio_ok b" "ab_channels b = ac_channels (fa_codec c)" "0 < ac_channels (fa_codec c)"
    and "length (fa_cache c) = fa_buffer_size" "fa_cache_length c \<le> fa_buffer_size"
    and "0 \<le> count" "count < 2 ^ 31" "0 \<le> offset" "offset < 2 ^ 31" "nat offset + nat count \<le> unat (ab_allocated b)"
  shows "\<exists>n d c'. n = min (nat count) (fa_cache_length c div 2 div unat (ab_channels b)) \<and>
    fa_read_cache sample b count offset c = Inr ((int n, b\<lparr>ab_buffer := d\<rparr>), c') \<and> audio_ok (b\<lparr>ab_buffer := d\<rparr>) \<and>
    (\<forall>i < unat (ab_channels b). \<forall>k < n. d ! i ! (nat offset + k) =
       sample (fa_cache c ! (2 * (k * unat (ab_channels b) + i))) (fa_cache c ! (2 * (k * unat (ab_channels b) + i) + 1))) \<and>
    fa_cache_length c' = fa_cache_length c - 2 * unat (ab_channels b) * n \<and> length (fa_cache c') = fa_buffer_size \<and>
    take (fa_cache_length c') (fa_cache c') = drop (2 * unat (ab_channels b) * n) (take (fa_cache_length c) (fa_cache c))"
proof -
  define ch where "ch = unat (ab_channels b)"
  define len where "len = fa_cache_length c"
  define n where "n = min (nat count) (len div 2 div ch)"
  have ch: "0 < ch" "unat (ac_channels (fa_codec c)) = ch" using assms(2,3) by (simp_all add: ch_def word_less_nat_alt)
  have small: "n \<le> nat count" "n < 2 ^ 31" using assms(7) by (simp_all add: n_def)
  have n: "min (u64_of count) (len div 2 div ch) = n" using assms(6,7) by (simp add: n_def u64_of_def)
  have s: "s32 (int n) = int n" using small(2) by (simp add: s32_id)
  have u: "u64_of (int n) = n" using small(2) by (simp add: u64_of_def)
  have "n * ch \<le> len div 2 div ch * ch" by (intro mult_le_mono1) (simp add: n_def)
  also have "\<dots> \<le> len div 2" by (rule div_times_less_eq_dividend)
  finally have half: "n * ch \<le> len div 2" .
  then have used: "2 * ch * n \<le> len" by (simp add: mult.commute mult.left_commute)
  have w: "unat (word_of_int (int n) :: u32) = n" using unat_word_of_nat32 [of n] small(2) by simp
  have "unat (word_of_nat (nat offset) :: u32) = nat offset" by (rule unat_word_of_nat32) (use assms(8,9) in simp)
  then have o: "unat (word_of_int offset :: u32) = nat offset" using assms(8) by simp
  have size: "length (samples_of sample (fa_cache c)) = 64500" using assms(4) by (simp add: length_samples_of fa_buffer_size_def)
  have fit: "n * ch \<le> 64500" using half assms(5) by (simp add: len_def fa_buffer_size_def)
  obtain d where d: "deinterlace_from b (samples_of sample (fa_cache c)) (word_of_int (int n)) (word_of_int offset) = Inr (b\<lparr>ab_buffer := d\<rparr>)"
    "\<And>i. i < ch \<Longrightarrow> d ! i = take (nat offset) (ab_buffer b ! i) @
       map (\<lambda>k. samples_of sample (fa_cache c) ! (k * ch + i)) [0..<n] @ drop (nat offset + n) (ab_buffer b ! i)"
    using deinterlace_from_exact [OF assms(1), of "word_of_int offset" "word_of_int (int n)" "samples_of sample (fa_cache c)"]
      small(1) assms(10) fit size unfolding w o ch_def [symmetric] by auto
  have d1: "deinterlace_from b (samples_of sample (fa_cache c)) (word_of_nat n) (word_of_int offset) = Inr (b\<lparr>ab_buffer := d\<rparr>)"
    using d(1) by simp
  have sub: "size_sub len (2 * ch * n) = len - 2 * ch * n" using used by (simp add: size_sub_le)
  have cl: "length (fa_cache c) = 129000" "len \<le> 129000" using assms(4,5) by (simp_all add: fa_buffer_size_def len_def)
  let ?rest = "take (len - 2 * ch * n) (drop (2 * ch * n) (fa_cache c))"
  have rd: "mem_read (fa_cache c) (2 * ch * n) (len - 2 * ch * n) = Inr ?rest"
    using used cl by (simp add: mem_read_def)
  have lr: "length ?rest = len - 2 * ch * n" using used cl by simp
  have wr: "mem_write (fa_cache c) 0 ?rest = Inr (?rest @ drop (len - 2 * ch * n) (fa_cache c))"
    using lr cl by (simp add: mem_write_def)
  let ?c = "c\<lparr>fa_cache := ?rest @ drop (len - 2 * ch * n) (fa_cache c), fa_cache_length := len - 2 * ch * n\<rparr>"
  have r: "fa_read_cache sample b count offset c = Inr ((int n, b\<lparr>ab_buffer := d\<rparr>), ?c)"
    using ch(1) by (simp add: fa_read_cache_def Let_def ch(2) len_def [symmetric] n s u d1 sub rd wr)
  have smp: "d ! i ! (nat offset + k) = sample (fa_cache c ! (2 * (k * ch + i))) (fa_cache c ! (2 * (k * ch + i) + 1))"
    if "i < ch" "k < n" for i k
  proof -
    have "length (ab_buffer b ! i) = unat (ab_allocated b)" using assms(1) that(1) by (simp add: audio_ok_def ch_def)
    then have "d ! i ! (nat offset + k) = samples_of sample (fa_cache c) ! (k * ch + i)"
      using d(2) [OF that(1)] that(2) assms(10) small(1) by (simp add: nth_append)
    moreover have "Suc k * ch \<le> n * ch" using that(2) by (intro mult_le_mono1) simp
    then have "2 * (k * ch + i) + 1 < length (fa_cache c)" using that(1) fit cl by simp
    ultimately show ?thesis by (simp add: nth_samples_of)
  qed
  have ok: "audio_ok (b\<lparr>ab_buffer := d\<rparr>)" using deinterlace_from_ok [OF assms(1) d(1)] .
  have "take (len - 2 * ch * n) (?rest @ drop (len - 2 * ch * n) (fa_cache c)) = drop (2 * ch * n) (take len (fa_cache c))"
    using lr by (simp add: drop_take)
  moreover have "length (?rest @ drop (len - 2 * ch * n) (fa_cache c)) = fa_buffer_size"
    using lr cl by (simp add: fa_buffer_size_def)
  ultimately show ?thesis
    unfolding ch_def [symmetric] len_def [symmetric] n_def [symmetric]
    using r smp ok by (intro exI [of _ n] exI [of _ d] exI [of _ ?c]) simp
qed

definition cached_audio :: "unit ff_audio" where
  "cached_audio = \<lparr>fa_codec = \<lparr>ac_channels = 2, ac_sample_rate = 1, ac_samples = 9, ac_bit_rate = 0, ac_position = 0\<rparr>,
     fa_decoder = \<lparr>ff_current_known = False, ff_current_time = 0, ff_queue = [], ff_open = [], ff_world = ()\<rparr>,
     fa_stream = 0, fa_time_base = (1, 1), fa_cache = [1, 0, 2, 0, 3, 0, 4, 0] @ replicate 128992 0, fa_cache_length = 8\<rparr>"

theorem audio_cache_read_witness:
  "\<exists>b c'. fa_read_cache (\<lambda>a b. a) (audio_new (\<lambda>_ _. 0) 2 4) 1 2 cached_audio = Inr ((1, b), c') \<and> fa_cache_length c' = 4"
  using audio_cache_read [of "audio_new (\<lambda>_ _. 0) 2 4" cached_audio 1 2 "\<lambda>a b. a"]
  by (auto simp: audio_new_ok) (auto simp: audio_new_def cached_audio_def fa_buffer_size_def)

end
