(* ===== verification/Png.thy ===== *)
theory Png
  imports Imaging File_Stream
begin

text \<open>
  Loading of PNG images (\<^verbatim>\<open>source/imaging/png.cpp\<close>).  The calls of libpng are a parameter, the
  record \<open>png_calls\<close> over a state \<open>'w\<close>, of which the stream that libpng reads from is a part.  An
  exception thrown by the callbacks passes through libpng.
\<close>

section \<open>Calls of libpng\<close>

datatype png_colour =
    PNG_COLOR_TYPE_GRAY | PNG_COLOR_TYPE_GRAY_ALPHA | PNG_COLOR_TYPE_PALETTE
  | PNG_COLOR_TYPE_RGB | PNG_COLOR_TYPE_RGB_ALPHA | PNG_COLOR_TYPE_OTHER

text \<open>\<open>pc_read_png\<close> reads the whole image, whose rows are then \<open>pc_rows\<close>; \<open>pc_read_image\<close> gives the
  rows that are written through the row pointers.\<close>

record 'w png_calls =
  pc_create_read :: "'w \<Rightarrow> bool \<times> 'w"
  pc_create_info :: "'w \<Rightarrow> bool \<times> 'w"
  pc_destroy :: "'w \<Rightarrow> 'w"
  pc_read_png :: "('w, unit) io"
  pc_read_info :: "('w, unit) io"
  pc_read_image :: "('w, bytes list) io"
  pc_width :: "'w \<Rightarrow> nat"
  pc_height :: "'w \<Rightarrow> nat"
  pc_bit_depth :: "'w \<Rightarrow> u8"
  pc_colour_type :: "'w \<Rightarrow> png_colour"
  pc_rows :: "'w \<Rightarrow> bytes list"

section \<open>Callbacks\<close>

definition libpng_read :: "'s stream_ops \<Rightarrow> nat \<Rightarrow> 's \<Rightarrow> (bytes \<times> 's) result" where
  "libpng_read ops n s =
     bind_r (so_read ops n s) (\<lambda>(bs, s').
     if length bs \<noteq> n then throw (InvalidArgumentException '''') else Inr (bs, s'))"

definition libpng_error :: "string \<Rightarrow> 'a result" where
  "libpng_error message = throw (Exception message)"

section \<open>LoadImage\<close>

definition png_description :: "u8 \<Rightarrow> png_colour \<Rightarrow> pixel_description result" where
  "png_description depth c =
     (case c of
        PNG_COLOR_TYPE_GRAY \<Rightarrow> Inr (pixel_new depth 0x01)
      | PNG_COLOR_TYPE_GRAY_ALPHA \<Rightarrow> Inr (pixel_new depth 0x21)
      | PNG_COLOR_TYPE_PALETTE \<Rightarrow> Inr (pixel_new depth 0x02)
      | PNG_COLOR_TYPE_RGB \<Rightarrow> Inr (pixel_new depth 0x1C)
      | PNG_COLOR_TYPE_RGB_ALPHA \<Rightarrow> Inr (pixel_new depth 0x3C)
      | PNG_COLOR_TYPE_OTHER \<Rightarrow> throw (NotSupportedException ''''))"

text \<open>Row \<open>i\<close> starts \<^verbatim>\<open>i * width * GetPixelSize()\<close> bytes into the image data, in 32 bit arithmetic.\<close>

definition png_row_offset :: "bitmap \<Rightarrow> nat \<Rightarrow> nat" where
  "png_row_offset img i = i * bm_width img * pixel_size (bm_description img) mod 2 ^ 32"

definition png_row_size :: "bitmap \<Rightarrow> nat" where
  "png_row_size img = bm_width img * pixel_size (bm_description img) mod 2 ^ 32"

text \<open>Copying of the rows that libpng keeps, and writing of rows through pointers into the image.\<close>

definition png_copy_rows :: "bytes list \<Rightarrow> bitmap \<Rightarrow> bitmap result" where
  "png_copy_rows rows img =
     bind_r (fold_r (\<lambda>i m.
       bind_r (peek rows i) (\<lambda>row.
       bind_r (mem_read row 0 (png_row_size img)) (\<lambda>bs. mem_write m (png_row_offset img i) bs)))
       [0..<bm_height img] (bm_data img)) (\<lambda>m.
     Inr (img\<lparr>bm_data := m\<rparr>))"

definition png_write_rows :: "bytes list \<Rightarrow> bitmap \<Rightarrow> bitmap result" where
  "png_write_rows rows img =
     bind_r (fold_r (\<lambda>i m. bind_r (peek rows i) (\<lambda>row. mem_write m (png_row_offset img i) row))
       [0..<bm_height img] (bm_data img)) (\<lambda>m.
     Inr (img\<lparr>bm_data := m\<rparr>))"

definition png_load_body :: "'w png_calls \<Rightarrow> bool \<Rightarrow> ('w, bitmap option) io" where
  "png_load_body pc transform =
     bind_w (if transform then pc_read_png pc else pc_read_info pc) (\<lambda>_ w.
     bind_w (return_w (png_description (if transform then 8 else pc_bit_depth pc w) (pc_colour_type pc w))) (\<lambda>pixels.
     bind_w (return_w (bitmap_new (pc_width pc w) (pc_height pc w) pixels NoInterlace)) (\<lambda>img.
     bind_w
       (if transform then return_w (png_copy_rows (pc_rows pc w) img)
        else bind_w (pc_read_image pc) (\<lambda>rows. return_w (png_write_rows rows img))) (\<lambda>img' w'.
     (Inr (Some img'), pc_destroy pc w')))) w)"

definition png_load :: "'w png_calls \<Rightarrow> bool \<Rightarrow> ('w, bitmap option) io" where
  "png_load pc transform w =
     (case pc_create_read pc w of (created, w1) \<Rightarrow>
        if \<not> created then (Inr None, w1)
        else (case pc_create_info pc w1 of (info, w2) \<Rightarrow>
          if \<not> info then (Inr None, pc_destroy pc w2)
          else png_load_body pc transform w2))"

text \<open>The overload for a path reads from a \<^verbatim>\<open>FileStream\<close> that it opens and that is closed at
  the end, also by an exception; \<open>pc\<close> gives the calls of libpng on the stream it is handed.\<close>

definition png_load_path ::
    "'w os_calls \<Rightarrow> ('w stream_ops \<Rightarrow> 'w png_calls) \<Rightarrow> bstring \<Rightarrow> bool \<Rightarrow> ('w, bitmap option) io" where
  "png_load_path os pc path transform =
     bind_w (file_stream_open os path Open ReadOnly owner_read_write) (\<lambda>fs w.
     case png_load (pc (file_stream_ops os fs)) transform w of (r, w') \<Rightarrow>
       (r, snd (file_stream_destroy os fs w')))"

section \<open>Correctness\<close>

lemma length_concat_same: "\<forall>x\<in>set xs. length x = n \<Longrightarrow> length (concat xs) = length xs * n"
  by (induction xs) auto

lemma fold_rows:
  assumes "k \<le> h" "length m = h * n" "length rows = h" "\<And>row. row \<in> set rows \<Longrightarrow> length row = n"
    and f: "\<And>i m. i < h \<Longrightarrow> f i m = mem_write m (i * n) (rows ! i)"
  shows "fold_r f [0..<k] m = Inr (concat (take k rows) @ drop (k * n) m)"
  using assms(1)
proof (induction k)
  case (Suc k)
  have "\<forall>row\<in>set (take k rows). length row = n" using assms(4) by (meson in_set_takeD)
  from length_concat_same [OF this] have l: "length (concat (take k rows)) = k * n" using assms(3) Suc.prems by simp
  have "k < length rows" using assms(3) Suc.prems by simp
  then have r: "length (rows ! k) = n" by (intro assms(4) nth_mem)
  have "Suc k * n \<le> h * n" using Suc.prems by (rule mult_le_mono1)
  then have room: "k * n + n \<le> length m" using assms(2) by simp
  have "fold_r f [0..<Suc k] m = f k (concat (take k rows) @ drop (k * n) m)"
    using Suc by (cases "f k (concat (take k rows) @ drop (k * n) m)") (simp_all add: fold_r_append)
  also have "\<dots> = Inr (concat (take k rows) @ rows ! k @ drop n (drop (k * n) m))"
    using f [of k] Suc.prems mem_write_prefix [of "rows ! k" "drop (k * n) m" "concat (take k rows)"] l r room by simp
  also have "\<dots> = Inr (concat (take (Suc k) rows) @ drop (Suc k * n) m)"
    using assms(3) Suc.prems by (simp add: take_Suc_conv_app_nth add.commute)
  finally show ?case .
qed simp

lemma offsets_small:
  assumes "i < (h::nat)" "w * h * n < 2 ^ 31"
  shows "i * w * n mod 2 ^ 32 = i * (w * n)"
proof -
  have "i * (w * n) \<le> h * (w * n)" using assms(1) by (intro mult_le_mono1) simp
  also have "\<dots> = w * h * n" by simp
  finally have "i * (w * n) < 2 ^ 31" using assms(2) by (rule le_less_trans)
  then show ?thesis by (simp only: mult.assoc below_31)
qed

lemma png_copy_rows_exact:
  assumes "w * h * pixel_size d < 2 ^ 31" "length rows = h" "\<And>row. row \<in> set rows \<Longrightarrow> length row = w * pixel_size d"
    and "img = \<lparr>bm_palette = pal, bm_description = d, bm_interlacing = il, bm_width = w, bm_height = h, bm_data = m\<rparr>"
    and "length m = w * h * pixel_size d"
  shows "png_copy_rows rows img = Inr (img\<lparr>bm_data := concat rows\<rparr>)"
proof -
  let ?n = "w * pixel_size d"
  let ?f = "\<lambda>i m. bind_r (peek rows i) (\<lambda>row. bind_r (mem_read row 0 (png_row_size img)) (\<lambda>bs. mem_write m (png_row_offset img i) bs))"
  have lm: "length m = h * ?n" using assms(5) by simp
  have step: "?f i m' = mem_write m' (i * ?n) (rows ! i)" if "i < h" for i m'
  proof -
    have "Suc 0 * ?n \<le> h * ?n" using that by (intro mult_le_mono1) simp
    also have "\<dots> = w * h * pixel_size d" by simp
    finally have "Suc 0 * ?n < 2 ^ 31" using assms(1) by (rule le_less_trans)
    then have "?n mod 2 ^ 32 = ?n" using below_31 [of ?n] by simp
    then have sz: "png_row_size img = ?n" by (simp add: png_row_size_def assms(4))
    have off: "png_row_offset img i = i * ?n" using offsets_small [OF that assms(1)] by (simp add: png_row_offset_def assms(4))
    have "length (rows ! i) = ?n" using assms(2,3) that by simp
    then show ?thesis using assms(2) that by (simp add: sz off peek_def mem_read_def)
  qed
  have "fold_r ?f [0..<h] m = Inr (concat (take h rows) @ drop (h * ?n) m)"
    by (rule fold_rows [OF order_refl lm assms(2,3)]) (use step in auto)
  then show ?thesis using assms(2) lm by (simp add: png_copy_rows_def assms(4))
qed

lemma png_descriptions:
  "png_description 8 c = Inr d \<Longrightarrow> whole_bytes d"
  by (cases c) (auto simp: png_description_def whole_bytes_def pixel_depth_def pixel_size_def pixel_new_def colour_types_def
      round_up_def round_down_def)

text \<open>Loading a PNG image with the transformation to eight bits, when libpng reads it, gives a bitmap of its
  width, height and colour type whose data are the rows that libpng delivers, one after
  another, and releases libpng's structures; nothing is written outside the bitmap.\<close>

theorem png_load_transformed:
  assumes "pc_create_read pc w = (True, w1)" "pc_create_info pc w1 = (True, w2)" "pc_read_png pc w2 = (Inr (), w3)"
    and "png_description 8 (pc_colour_type pc w3) = Inr d"
    and "pc_width pc w3 * pc_height pc w3 * pixel_size d < 2 ^ 31"
    and "length (pc_rows pc w3) = pc_height pc w3" "\<And>row. row \<in> set (pc_rows pc w3) \<Longrightarrow> length row = pc_width pc w3 * pixel_size d"
  shows "\<exists>img. png_load pc True w = (Inr (Some img), pc_destroy pc w3) \<and> bm_width img = pc_width pc w3 \<and>
    bm_height img = pc_height pc w3 \<and> bm_description img = d \<and> bm_data img = concat (pc_rows pc w3)"
proof -
  let ?w = "pc_width pc w3" and ?h = "pc_height pc w3"
  let ?img = "\<lparr>bm_palette = None, bm_description = d, bm_interlacing = NoInterlace, bm_width = ?w, bm_height = ?h,
    bm_data = replicate (?w * ?h * pixel_size d) 0\<rparr>"
  have "bitmap_new ?w ?h d NoInterlace = Inr ?img" using bitmap_new_size [OF png_descriptions [OF assms(4)] assms(5)] .
  moreover have "png_copy_rows (pc_rows pc w3) ?img = Inr (?img\<lparr>bm_data := concat (pc_rows pc w3)\<rparr>)"
    by (rule png_copy_rows_exact [OF assms(5-7) refl length_replicate])
  ultimately show ?thesis using assms(1-4)
    by (simp add: png_load_def png_load_body_def bind_w_def return_w_def)
qed

definition tiny_png :: "unit png_calls" where
  "tiny_png = \<lparr>pc_create_read = Pair True, pc_create_info = Pair True, pc_destroy = id, pc_read_png = Pair (Inr ()),
     pc_read_info = Pair (Inr ()), pc_read_image = Pair (Inr [[1, 2, 3], [4, 5, 6]]), pc_width = (\<lambda>_. 3), pc_height = (\<lambda>_. 2),
     pc_bit_depth = (\<lambda>_. 1), pc_colour_type = (\<lambda>_. PNG_COLOR_TYPE_GRAY), pc_rows = (\<lambda>_. [[1, 2, 3], [4, 5, 6]])\<rparr>"

theorem png_load_transformed_witness:
  "\<exists>img. fst (png_load tiny_png True ()) = Inr (Some img) \<and> bm_data img = [1, 2, 3, 4, 5, 6]"
proof -
  have one: "pixel_size (pixel_new 8 1) = 1"
    by (simp add: pixel_size_def pixel_depth_def pixel_new_def colour_types_def round_up_def round_down_def)
  have rows: "length row = pc_width tiny_png () * pixel_size (pixel_new 8 1)" if "row \<in> set (pc_rows tiny_png ())" for row
    using that unfolding one by (auto simp: tiny_png_def)
  have "\<exists>img. png_load tiny_png True () = (Inr (Some img), pc_destroy tiny_png ()) \<and> bm_width img = pc_width tiny_png () \<and>
    bm_height img = pc_height tiny_png () \<and> bm_description img = pixel_new 8 1 \<and> bm_data img = concat (pc_rows tiny_png ())"
    by (rule png_load_transformed [where w = "()" and ?w1.0 = "()" and ?w2.0 = "()" and ?w3.0 = "()", OF _ _ _ _ _ _ rows])
      (simp_all only: one, simp_all add: tiny_png_def png_description_def)
  then show ?thesis by (auto simp: tiny_png_def)
qed

text \<open>Without the transformation an image of one bit per pixel is overrun: the rows are placed as if
  each pixel took a byte.\<close>

lemma png_one_bit_overruns: "fst (png_load tiny_png False ()) = Inl Undefined"
  by (simp add: png_load_def png_load_body_def tiny_png_def bind_w_def return_w_def png_description_def bitmap_new_def
      bitmap_allocate_def image_data_size_def pixel_depth_def pixel_new_def colour_types_def round_up_def round_down_def
      Let_def s32_def png_write_rows_def peek_def mem_write_def png_row_offset_def pixel_size_def upt_rec)

end
