(* ===== verification/Free_Type.thy ===== *)
theory Free_Type
  imports Font Streams
begin

text \<open>
  Fonts of the FreeType library (\<^verbatim>\<open>source/imaging/freetypefont.cpp\<close>).  The calls of the library are a
  parameter, the record \<open>ft_calls\<close> over a state \<open>'w\<close>; a call that may fail gives its error code.  The
  stream that the library reads through \<open>ft_read\<close> is a part of that state.
\<close>

section \<open>Calls of the library\<close>

datatype ft_pixel_mode = FT_PIXEL_MODE_MONO | FT_PIXEL_MODE_GRAY | FT_PIXEL_MODE_LCD | FT_PIXEL_MODE_LCD_V | FT_PIXEL_MODE_OTHER

text \<open>The glyph slot: lengths are in 64ths of a pixel, \<open>sl_pitch\<close> is the distance of the rows of the
  rendered image in its buffer.\<close>

record ft_slot =
  sl_advance_x :: int
  sl_width :: int
  sl_height :: int
  sl_bearing_x :: int
  sl_bearing_y :: int
  sl_mode :: ft_pixel_mode
  sl_columns :: nat
  sl_rows :: nat
  sl_pitch :: int
  sl_buffer :: bytes

record ft_metrics =
  fm_x_ppem :: u16
  fm_y_ppem :: u16
  fm_ascender :: int
  fm_descender :: int
  fm_height :: int

record 'w ft_calls =
  ftc_init :: "'w \<Rightarrow> int \<times> 'w"
  ftc_open_face :: "int \<Rightarrow> 'w \<Rightarrow> int \<times> 'w"
  ftc_done_face :: "'w \<Rightarrow> 'w"
  ftc_done_library :: "'w \<Rightarrow> 'w"
  ftc_set_pixel_sizes :: "nat \<Rightarrow> nat \<Rightarrow> 'w \<Rightarrow> int \<times> 'w"
  ftc_set_char_size :: "int \<Rightarrow> int \<Rightarrow> nat \<Rightarrow> nat \<Rightarrow> 'w \<Rightarrow> int \<times> 'w"
  ftc_char_index :: "u32 \<Rightarrow> 'w \<Rightarrow> nat"
  ftc_load_glyph :: "nat \<Rightarrow> 'w \<Rightarrow> int \<times> 'w"
  ftc_render_glyph :: "'w \<Rightarrow> int \<times> 'w"
  ftc_kerning :: "nat \<Rightarrow> nat \<Rightarrow> 'w \<Rightarrow> int option"
  ftc_slot :: "'w \<Rightarrow> ft_slot"
  ftc_metrics :: "'w \<Rightarrow> ft_metrics"

text \<open>The library's state with the number of \<^verbatim>\<open>FT_StreamRec\<close> that the font has allocated, and the
  callback that reads \<open>n\<close> bytes at an offset.\<close>

record 'w ft_world =
  fw_library :: 'w
  fw_records :: nat

definition ft_read :: "'s stream_ops \<Rightarrow> nat \<Rightarrow> nat \<Rightarrow> 's \<Rightarrow> (bytes \<times> 's) result" where
  "ft_read ops offset n s =
     (let s' = if so_get_position ops s \<noteq> offset then so_set_position ops offset s else s in
      if n = 0 then Inr ([], s') else so_read ops n s')"

section \<open>FreeTypeFont\<close>

text \<open>Calls that fail with an exception, and the quantities in 64ths that are shifted right and left.\<close>

definition ft_call :: "exn \<Rightarrow> ('w \<Rightarrow> int \<times> 'w) \<Rightarrow> ('w ft_world, unit) io" where
  "ft_call e call w =
     (case call (fw_library w) of (status, l) \<Rightarrow>
        (if status \<noteq> 0 then throw e else Inr (), w\<lparr>fw_library := l\<rparr>))"

definition from_26_6 :: "int \<Rightarrow> int" where
  "from_26_6 x = s32 (drop_bit 6 x)"

definition to_26_6 :: "int \<Rightarrow> int result" where
  "to_26_6 x = (if 0 \<le> x \<and> push_bit 6 x < 2 ^ 31 then Inr (push_bit 6 x) else Inl Undefined)"

definition ft_new :: "'w ft_calls \<Rightarrow> int \<Rightarrow> ('w ft_world, 'i font) io" where
  "ft_new c face_index =
     bind_w (ft_call (Exception '''') (ftc_init c)) (\<lambda>_ w.
     (case ftc_open_face c face_index (fw_library w) of (status, l) \<Rightarrow>
        let w' = w\<lparr>fw_library := l, fw_records := fw_records w + 1\<rparr> in
        if status \<noteq> 0 then (throw (Exception ''''), w'\<lparr>fw_library := ftc_done_library c l\<rparr>)
        else (Inr font_new, w')))"

definition ft_destroy :: "'w ft_calls \<Rightarrow> 'w ft_world \<Rightarrow> 'w ft_world" where
  "ft_destroy c w =
     w\<lparr>fw_library := ftc_done_library c (ftc_done_face c (fw_library w)), fw_records := fw_records w - 1\<rparr>"

definition ft_set_pixel_size :: "'w ft_calls \<Rightarrow> int \<Rightarrow> int \<Rightarrow> 'i font \<Rightarrow> ('w ft_world, 'i font) io" where
  "ft_set_pixel_size c x y f =
     bind_w (ft_call (NotSupportedException '''') (ftc_set_pixel_sizes c (u32_of x) (u32_of y))) (\<lambda>_.
     return_w (Inr (font_set_pixel_size x y f)))"

definition ft_set_point_size :: "'w ft_calls \<Rightarrow> int \<Rightarrow> int \<Rightarrow> int \<Rightarrow> int \<Rightarrow> 'i font \<Rightarrow> ('w ft_world, 'i font) io" where
  "ft_set_point_size c x y dpi_x dpi_y f =
     bind_w (return_w (to_26_6 x)) (\<lambda>x'.
     bind_w (return_w (to_26_6 y)) (\<lambda>y'.
     bind_w (ft_call (NotSupportedException '''') (ftc_set_char_size c x' y' (u32_of dpi_x) (u32_of dpi_y))) (\<lambda>_ w.
     (let m = ftc_metrics c (fw_library w) in
      (Inr (font_set_pixel_size (uint (fm_x_ppem m)) (uint (fm_y_ppem m)) f), w)))))"

definition ft_load_glyph :: "'w ft_calls \<Rightarrow> u32 \<Rightarrow> ('w ft_world, 'i glyph) io" where
  "ft_load_glyph c character w =
     (let index = s32 (int (ftc_char_index c character (fw_library w))) in
      bind_w (ft_call (Exception '''') (ftc_load_glyph c (u32_of index))) (\<lambda>_ w'.
      (let slot = ftc_slot c (fw_library w') in
       (Inr \<lparr>gl_image = None, gl_character = character, gl_index = index, gl_advance = from_26_6 (sl_advance_x slot),
          gl_width = from_26_6 (sl_width slot), gl_height = from_26_6 (sl_height slot),
          gl_bearing_x = from_26_6 (sl_bearing_x slot), gl_bearing_y = from_26_6 (sl_bearing_y slot)\<rparr>, w'))) w)"

definition ft_description :: "ft_pixel_mode \<Rightarrow> pixel_description result" where
  "ft_description mode =
     (case mode of
        FT_PIXEL_MODE_MONO \<Rightarrow> Inr (pixel_new 1 0x01)
      | FT_PIXEL_MODE_GRAY \<Rightarrow> Inr pixel_I8
      | FT_PIXEL_MODE_LCD \<Rightarrow> Inr pixel_I8
      | FT_PIXEL_MODE_LCD_V \<Rightarrow> Inr pixel_I8
      | FT_PIXEL_MODE_OTHER \<Rightarrow> throw (NotSupportedException ''''))"

definition ft_copy_bitmap :: "ft_slot \<Rightarrow> bitmap \<Rightarrow> bitmap result" where
  "ft_copy_bitmap slot img =
     bind_r (mem_read (sl_buffer slot) 0 (image_data_size (bm_width img) (bm_height img) (bm_description img) mod 2 ^ 32)) (\<lambda>bs.
     bind_r (mem_write (bm_data img) 0 bs) (\<lambda>m. Inr (img\<lparr>bm_data := m\<rparr>)))"

definition ft_render_glyph :: "'w ft_calls \<Rightarrow> bitmap glyph \<Rightarrow> ('w ft_world, bitmap) io" where
  "ft_render_glyph c g =
     bind_w (ft_call (Exception '''') (ftc_load_glyph c (u32_of (gl_index g)))) (\<lambda>_.
     bind_w (ft_call (Exception '''') (ftc_render_glyph c)) (\<lambda>_ w.
     (let slot = ftc_slot c (fw_library w) in
      bind_w (return_w (ft_description (sl_mode slot))) (\<lambda>description.
      bind_w (return_w (bitmap_new (sl_columns slot) (sl_rows slot) description NoInterlace)) (\<lambda>img.
      return_w (ft_copy_bitmap slot img))) w)))"

text \<open>A call of \<^verbatim>\<open>FT_Get_Kerning\<close> that fails leaves the vector as it is, uninitialised.\<close>

definition ft_get_kerning :: "'w ft_calls \<Rightarrow> 'w ft_world \<Rightarrow> 'i glyph option \<Rightarrow> 'i glyph option \<Rightarrow> int result" where
  "ft_get_kerning c w g previous =
     (case (previous, g) of
        (Some p, Some g') \<Rightarrow>
          (case ftc_kerning c (u32_of (gl_index p)) (u32_of (gl_index g')) (fw_library w) of
             None \<Rightarrow> Inl Undefined
           | Some k \<Rightarrow> Inr (from_26_6 k))
      | _ \<Rightarrow> Inr 0)"

definition ft_get_baseline :: "'w ft_calls \<Rightarrow> 'w ft_world \<Rightarrow> int" where
  "ft_get_baseline c w = from_26_6 (fm_ascender (ftc_metrics c (fw_library w)))"

definition ft_get_descender :: "'w ft_calls \<Rightarrow> 'w ft_world \<Rightarrow> int" where
  "ft_get_descender c w = from_26_6 (fm_descender (ftc_metrics c (fw_library w)))"

definition ft_get_height :: "'w ft_calls \<Rightarrow> 'w ft_world \<Rightarrow> nat" where
  "ft_get_height c w = u32_of (drop_bit 6 (fm_height (ftc_metrics c (fw_library w))))"

section \<open>The callback\<close>

context input_stream
begin

text \<open>Whatever the position of the stream, the callback reads the bytes at the offset it is given.\<close>

lemma read_at:
  assumes "ok s" "offset \<le> length (contents s)" "n < 2 ^ 63"
  shows "\<exists>s'. ft_read ops offset n s = Inr (take n (drop offset (contents s)), s') \<and> ok s' \<and> contents s' = contents s"
proof -
  define t where "t = (if so_get_position ops s \<noteq> offset then so_set_position ops offset s else s)"
  have t: "ok t" "contents t = contents s" "so_get_position ops t = offset"
    using assms(1,2) set_position [OF assms(1,2)] by (auto simp: t_def)
  show ?thesis
    using read_contents [OF t(1) assms(3)] t by (auto simp: ft_read_def Let_def simp flip: t_def)
qed

end

text \<open>FreeType reads the font from a memory stream as if every read began at its own offset:
  the order of its reads and the position of the stream do not matter.\<close>

theorem ft_reads_independent:
  assumes "memory_ok s" "\<forall>(offset, n)\<in>set requests. offset \<le> length (memory_contents s) \<and> n < 2 ^ 63"
  shows "\<exists>s'. fold_r (\<lambda>(offset, n) (out, t). bind_r (ft_read (memory_ops g) offset n t) (\<lambda>(bs, t'). Inr (out @ [bs], t')))
      requests (out0, s) = Inr (out0 @ map (\<lambda>(offset, n). take n (drop offset (memory_contents s))) requests, s') \<and>
    memory_contents s' = memory_contents s"
  using assms
proof (induction requests arbitrary: s out0)
  case (Cons r requests)
  obtain offset n where r: "r = (offset, n)" by force
  obtain t where t: "ft_read (memory_ops g) offset n s = Inr (take n (drop offset (memory_contents s)), t)"
    "memory_ok t" "memory_contents t = memory_contents s"
    using mem.read_at [of s offset n g] Cons.prems by (auto simp: r)
  then show ?case using Cons.IH [of t "out0 @ [take n (drop offset (memory_contents s))]"] Cons.prems by (simp add: r)
qed simp

theorem ft_reads_independent_witness:
  "\<exists>s'. fold_r (\<lambda>(offset, n) (out, t). bind_r (ft_read (memory_ops (\<lambda>_. 0)) offset n t) (\<lambda>(bs, t'). Inr (out @ [bs], t')))
      [(2, 2), (0, 1)] ([], four_bytes) = Inr ([take 2 (drop 2 (memory_contents four_bytes)), take 1 (drop 0 (memory_contents four_bytes))], s')"
  using ft_reads_independent [of four_bytes "[(2, 2), (0, 1)]" "\<lambda>_. 0" "[]"]
  by (auto simp: four_bytes_def memory_ok_def memory_contents_def)

section \<open>Sizes and errors\<close>

lemma from_to_26_6: "to_26_6 x = Inr y \<Longrightarrow> from_26_6 y = x"
  by (auto simp: to_26_6_def from_26_6_def push_bit_eq_mult drop_bit_eq_div s32_id split: if_splits)

lemma from_26_6_floor: "- (2 ^ 31) \<le> x \<Longrightarrow> x < 2 ^ 31 \<Longrightarrow> from_26_6 x = x div 64"
  by (simp add: from_26_6_def drop_bit_eq_div s32_id)

lemma ft_call_error: "call (fw_library w) = (status, l) \<Longrightarrow> status \<noteq> 0 \<Longrightarrow> ft_call e call w = (throw e, w\<lparr>fw_library := l\<rparr>)"
  by (simp add: ft_call_def)

lemma ft_call_ok: "call (fw_library w) = (0, l) \<Longrightarrow> ft_call e call w = (Inr (), w\<lparr>fw_library := l\<rparr>)"
  by (simp add: ft_call_def)

text \<open>A face that does not open releases the library, and its \<^verbatim>\<open>FT_StreamRec\<close> is never deleted; a font
  that opens deletes it with the font.\<close>

lemma ft_new_leaks:
  assumes "ftc_init c (fw_library w) = (0, l)" "ftc_open_face c i l = (status, l')" "status \<noteq> 0"
  shows "ft_new c i w = (throw (Exception ''''), \<lparr>fw_library = ftc_done_library c l', fw_records = fw_records w + 1\<rparr>)"
  using assms by (simp add: ft_new_def bind_w_def ft_call_def)

lemma ft_new_destroy:
  assumes "ftc_init c (fw_library w) = (0, l)" "ftc_open_face c i l = (0, l')"
  obtains w' where "ft_new c i w = (Inr font_new, w')" "fw_records (ft_destroy c w') = fw_records w"
  using assms by (simp add: ft_new_def bind_w_def ft_call_def ft_destroy_def)

lemma ft_set_pixel_size_fails:
  assumes "ftc_set_pixel_sizes c (u32_of x) (u32_of y) (fw_library w) = (status, l)" "status \<noteq> 0"
  shows "ft_set_pixel_size c x y f w = (throw (NotSupportedException ''''), w\<lparr>fw_library := l\<rparr>)"
  using assms by (simp add: ft_set_pixel_size_def bind_w_def ft_call_error)

text \<open>A new size leaves the glyphs of the old size in the cache, from which they are still taken.\<close>

lemma ft_set_pixel_size_keeps_glyphs:
  assumes "font_ok fc f" "dict_abs (ft_cache f) ch = Some g" "ft_set_pixel_size c x y f w = (Inr f', w')"
  shows "font_get_glyph fc' ch cache f' = Inr (g, f')"
proof -
  have "ft_cache f' = ft_cache f"
    using assms(3) by (auto simp: ft_set_pixel_size_def bind_w_def ft_call_def return_w_def font_set_pixel_size_def
        split: prod.splits sum.splits if_splits)
  then show ?thesis using assms(1,2)
    by (auto simp: font_get_glyph_def font_ok_def dict.contains_key_abs domIff dict.get_item_abs)
qed

section \<open>Rendering\<close>

lemma pixel_I8_size [simp]: "pixel_depth pixel_I8 = 8" "pixel_size pixel_I8 = 1"
  by (simp_all add: pixel_size_def pixel_depth_def pixel_I8_def pixel_new_def colour_types_def round_up_def round_down_def)

lemma pixel_I8_whole: "whole_bytes pixel_I8"
  by (simp add: whole_bytes_def)

lemma byte_in_word [simp]: "(ucast (ucast (v :: u8) :: u32) :: u8) = v"
  by (rule bit_eqI) (auto simp: bit_ucast_iff)

lemma get_pixel_I8:
  assumes "bm_description b = pixel_I8" "x < bm_width b" "y < bm_height b" "y * bm_width b + x < length (bm_data b)"
  shows "bitmap_get_pixel host b x y = (let v = bm_data b ! (y * bm_width b + x) in Inr (colour_new v v v v))"
proof -
  have "take_components pal pixel_I8 colour_types (ucast v) c = Inr (colour_new v v v v)" for pal c and v :: u8
    by (simp add: pixel_I8_def pixel_new_def colour_types_def component_bits_8_ucast)
  then show ?thesis using assms by (simp add: bitmap_get_pixel_def pixel_load_def peek_def Let_def)
qed

text \<open>Rendering a glyph in 8 bit grey values, when the rows of FreeType's buffer follow each other without
  gaps, gives an image of the size of FreeType's whose pixel at a place is the grey value that the buffer has there.\<close>

theorem ft_render_gray_exact:
  assumes "ftc_load_glyph c (u32_of (gl_index g)) (fw_library w) = (0, l)" "ftc_render_glyph c l = (0, l')"
    and "ftc_slot c l' = slot" "sl_mode slot \<in> {FT_PIXEL_MODE_GRAY, FT_PIXEL_MODE_LCD, FT_PIXEL_MODE_LCD_V}"
    and "sl_pitch slot = int (sl_columns slot)" "sl_columns slot * sl_rows slot < 2 ^ 31"
    and "length (sl_buffer slot) = sl_columns slot * sl_rows slot"
  shows "\<exists>img. ft_render_glyph c g w = (Inr img, w\<lparr>fw_library := l'\<rparr>) \<and> bm_width img = sl_columns slot \<and>
    bm_height img = sl_rows slot \<and>
    (\<forall>x < sl_columns slot. \<forall>y < sl_rows slot.
      let v = sl_buffer slot ! (y * nat (sl_pitch slot) + x) in bitmap_get_pixel host img x y = Inr (colour_new v v v v))"
proof -
  let ?n = "sl_columns slot * sl_rows slot"
  let ?img = "\<lambda>m. \<lparr>bm_palette = None, bm_description = pixel_I8, bm_interlacing = NoInterlace, bm_width = sl_columns slot,
    bm_height = sl_rows slot, bm_data = m\<rparr>"
  have d: "ft_description (sl_mode slot) = Inr pixel_I8" using assms(4) by (auto simp: ft_description_def)
  have n: "sl_columns slot * sl_rows slot * pixel_size pixel_I8 < 2 ^ 31" using assms(6) by simp
  have new: "bitmap_new (sl_columns slot) (sl_rows slot) pixel_I8 NoInterlace = Inr (?img (replicate ?n 0))"
    using bitmap_new_size [OF pixel_I8_whole n] by simp
  have "ft_copy_bitmap slot (?img (replicate ?n 0)) = Inr (?img (sl_buffer slot))"
    using image_data_size_bytes [OF pixel_I8_whole n] below_31 [OF assms(6)] assms(7)
    by (simp add: ft_copy_bitmap_def mem_read_def mem_write_def)
  then have r: "ft_render_glyph c g w = (Inr (?img (sl_buffer slot)), w\<lparr>fw_library := l'\<rparr>)"
    using assms(1-3) d new by (simp add: ft_render_glyph_def bind_w_def return_w_def ft_call_def Let_def)
  have "bitmap_get_pixel host (?img (sl_buffer slot)) x y =
      (let v = sl_buffer slot ! (y * nat (sl_pitch slot) + x) in Inr (colour_new v v v v))"
    if "x < sl_columns slot" "y < sl_rows slot" for x y
  proof -
    have "Suc y * sl_columns slot \<le> sl_rows slot * sl_columns slot" using that(2) by (intro mult_le_mono1) simp
    then have "y * sl_columns slot + x < length (sl_buffer slot)" using that(1) assms(7) by (simp add: mult.commute)
    then show ?thesis using that get_pixel_I8 [of "?img (sl_buffer slot)" x y host] assms(5) by simp
  qed
  then show ?thesis using r by (intro exI [of _ "?img (sl_buffer slot)"]) (simp add: Let_def)
qed

text \<open>A library whose state is its slot, for one glyph of two rows of two grey values.\<close>

definition test_glyph :: "bitmap glyph" where
  "test_glyph = \<lparr>gl_image = None, gl_character = 0x41, gl_index = 1, gl_advance = 2, gl_width = 2, gl_height = 2,
     gl_bearing_x = 0, gl_bearing_y = 2\<rparr>"

definition test_slot :: "int \<Rightarrow> bytes \<Rightarrow> ft_slot" where
  "test_slot pitch buffer = \<lparr>sl_advance_x = 128, sl_width = 128, sl_height = 128, sl_bearing_x = 0, sl_bearing_y = 128,
     sl_mode = FT_PIXEL_MODE_GRAY, sl_columns = 2, sl_rows = 2, sl_pitch = pitch, sl_buffer = buffer\<rparr>"

definition test_library :: "ft_slot ft_calls" where
  "test_library = \<lparr>ftc_init = Pair 0, ftc_open_face = (\<lambda>_. Pair 0), ftc_done_face = id, ftc_done_library = id,
     ftc_set_pixel_sizes = (\<lambda>_ _. Pair 0), ftc_set_char_size = (\<lambda>_ _ _ _. Pair 0), ftc_char_index = (\<lambda>_ _. 1),
     ftc_load_glyph = (\<lambda>_. Pair 0), ftc_render_glyph = Pair 0, ftc_kerning = (\<lambda>_ _ _. Some 0), ftc_slot = id,
     ftc_metrics = (\<lambda>_. \<lparr>fm_x_ppem = 2, fm_y_ppem = 2, fm_ascender = 128, fm_descender = 0, fm_height = 128\<rparr>)\<rparr>"

theorem ft_render_gray_exact_witness:
  "\<exists>img. fst (ft_render_glyph test_library test_glyph \<lparr>fw_library = test_slot 2 [1, 2, 3, 4], fw_records = 1\<rparr>) = Inr img \<and>
    bitmap_get_pixel True img 1 1 = Inr (colour_new 4 4 4 4)"
  using ft_render_gray_exact [of test_library test_glyph "\<lparr>fw_library = test_slot 2 [1, 2, 3, 4], fw_records = 1\<rparr>"
      "test_slot 2 [1, 2, 3, 4]" "test_slot 2 [1, 2, 3, 4]" "test_slot 2 [1, 2, 3, 4]" True]
  by (force simp: test_library_def test_slot_def Let_def)

text \<open>With rows four bytes apart the second row of the image is taken from the gap after the first.\<close>

lemma ft_render_ignores_pitch:
  "\<exists>img. fst (ft_render_glyph test_library test_glyph
      \<lparr>fw_library = test_slot 4 [1, 2, 0, 0, 3, 4, 0, 0], fw_records = 1\<rparr>) = Inr img \<and> bm_data img = [1, 2, 0, 0]"
  by (simp add: test_library_def test_slot_def test_glyph_def ft_render_glyph_def bind_w_def return_w_def ft_call_def Let_def
      ft_description_def bitmap_new_size [OF pixel_I8_whole] ft_copy_bitmap_def image_data_size_bytes [OF pixel_I8_whole]
      mem_read_def mem_write_def)

end
