(* ===== verification/Console.thy ===== *)
theory Console
  imports File_System Endian
begin

text \<open>
  The console (\<^verbatim>\<open>include/bricks/io/console.h\<close>, \<^verbatim>\<open>source/io/console.cpp\<close>): a reader and two
  writers over duplicates of the standard handles, made when it is first asked for.
\<close>

section \<open>Console and StandardConsole\<close>

text \<open>A reader or writer is its stream and its byte order.\<close>

record navigator =
  nv_stream :: file_stream
  nv_endianness :: endian

record console =
  co_in :: navigator
  co_out :: navigator
  co_error :: navigator

definition console_new :: "file_stream \<Rightarrow> file_stream \<Rightarrow> file_stream \<Rightarrow> console" where
  "console_new i out e = \<lparr>co_in = \<lparr>nv_stream = i, nv_endianness = Native\<rparr>,
     co_out = \<lparr>nv_stream = out, nv_endianness = Native\<rparr>, co_error = \<lparr>nv_stream = e, nv_endianness = Native\<rparr>\<rparr>"

definition console_streams :: "console \<Rightarrow> file_stream list" where
  "console_streams c = [nv_stream (co_error c), nv_stream (co_out c), nv_stream (co_in c)]"

text \<open>Streams that are destroyed while an exception propagates; one that its destructor throws as well
  ends the program.\<close>

definition unwind :: "'w os_calls \<Rightarrow> file_stream list \<Rightarrow> error \<Rightarrow> ('w, 'a) io" where
  "unwind os fs e w =
     (case fold_w (file_stream_destroy os) fs w of
        (Inl _, w') \<Rightarrow> (Inl Undefined, w')
      | (Inr _, w') \<Rightarrow> (Inl e, w'))"

text \<open>The arguments are evaluated in one of the orders that the language leaves open.  A stream
  that cannot be made destroys those that were.\<close>

definition standard_stream :: "'w os_calls \<Rightarrow> file_stream list \<Rightarrow> file_handle \<Rightarrow> ('w, file_stream) io" where
  "standard_stream os made h w =
     (case file_stream_of_handle os h w of
        (Inl e, w') \<Rightarrow> unwind os made e w'
      | (Inr f, w') \<Rightarrow> (Inr f, w'))"

definition standard_console_new :: "'w os_calls \<Rightarrow> ('w, console) io" where
  "standard_console_new os =
     bind_w (standard_stream os [] 0) (\<lambda>i.
     bind_w (standard_stream os [i] 1) (\<lambda>out.
     bind_w (standard_stream os [out, i] 2) (\<lambda>e. return_w (Inr (console_new i out e)))))"

text \<open>The members are destroyed in the reverse of their order.\<close>

definition console_destroy :: "'w os_calls \<Rightarrow> console \<Rightarrow> ('w, unit) io" where
  "console_destroy os c = fold_w (file_stream_destroy os) (console_streams c)"

definition console_get_default :: "'w os_calls \<Rightarrow> console option \<Rightarrow> ('w, console \<times> console option) io" where
  "console_get_default os default_console =
     (case default_console of
        Some c \<Rightarrow> return_w (Inr (c, Some c))
      | None \<Rightarrow> bind_w (standard_console_new os) (\<lambda>c. return_w (Inr (c, Some c))))"

section \<open>Handles\<close>

lemma console_get_default_once:
  assumes "console_get_default os d w = (Inr (c, d'), w')"
  shows "console_get_default os d' w'' = (Inr (c, d'), w'')"
  using assms by (auto simp: console_get_default_def return_w_def bind_w_def split: option.splits prod.splits sum.splits)

text \<open>A system on which \<^verbatim>\<open>dup\<close> and \<^verbatim>\<open>close\<close> keep a set of open handles.\<close>

definition dup_closes :: "'w os_calls \<Rightarrow> ('w \<Rightarrow> int set) \<Rightarrow> bool" where
  "dup_closes os opened \<longleftrightarrow>
     (\<forall>w h. case os_dup os h w of (r, w') \<Rightarrow>
        if r < 0 then opened w' = opened w \<and> (\<exists>x. os_throw os w' = throw x)
        else r \<notin> opened w \<and> r < 2 ^ 31 \<and> opened w' = insert r (opened w)) \<and>
     (\<forall>w h. h \<in> opened w \<longrightarrow> (case os_close os h w of (r, w') \<Rightarrow> r = 0 \<and> opened w' = opened w - {h}))"

lemma of_handle_cases:
  assumes "dup_closes os opened"
  obtains (fails) x w' where "file_stream_of_handle os h w = (throw x, w')" "opened w' = opened w"
    | (opens) f w' where "file_stream_of_handle os h w = (Inr f, w')" "handle_fd (fs_handle f) \<notin> opened w"
        "opened w' = insert (handle_fd (fs_handle f)) (opened w)"
proof -
  obtain r w' where d: "os_dup os (handle_fd h) w = (r, w')" by force
  have "case os_dup os (handle_fd h) w of (r, w') \<Rightarrow>
      if r < 0 then opened w' = opened w \<and> (\<exists>x. os_throw os w' = throw x)
      else r \<notin> opened w \<and> r < 2 ^ 31 \<and> opened w' = insert r (opened w)"
    using assms [unfolded dup_closes_def, THEN conjunct1, THEN spec [of _ w], THEN spec [of _ "handle_fd h"]] .
  then have r: "if r < 0 then opened w' = opened w \<and> (\<exists>x. os_throw os w' = throw x)
      else r \<notin> opened w \<and> r < 2 ^ 31 \<and> opened w' = insert r (opened w)"
    by (simp add: d)
  show thesis
  proof (cases "r < 0")
    case True
    then obtain x where "os_throw os w' = throw x" using r by auto
    then have "file_stream_of_handle os h w = (throw x, w')" using d True
      by (simp add: file_stream_of_handle_def bind_w_def posix_duplicate_def os_check_def)
    then show thesis using True r by (intro fails [of x w']) auto
  next
    case False
    then have "handle_fd (u64_of r) = r" using r by (simp add: handle_fd_def u64_of_def s32_id)
    then show thesis using False r d
      by (intro opens [of "\<lparr>fs_handle = u64_of r, fs_path = empty_path\<rparr>" w'])
        (auto simp: file_stream_of_handle_def bind_w_def posix_duplicate_def os_check_def return_w_def)
  qed
qed

lemma destroy_closes:
  assumes "dup_closes os opened" "handle_fd (fs_handle f) \<in> opened w"
  obtains w' where "file_stream_destroy os f w = (Inr (), w')" "opened w' = opened w - {handle_fd (fs_handle f)}"
proof -
  obtain r w' where c: "os_close os (handle_fd (fs_handle f)) w = (r, w')" by force
  then have "r = 0 \<and> opened w' = opened w - {handle_fd (fs_handle f)}"
    using assms by (auto simp: dup_closes_def split: prod.splits)
  then show thesis using c by (intro that [of w']) (simp_all add: file_stream_destroy_def posix_close_def os_check_def)
qed

lemma destroy_all_closes:
  assumes "dup_closes os opened" "distinct (map (handle_fd \<circ> fs_handle) fs)" "set (map (handle_fd \<circ> fs_handle) fs) \<subseteq> opened w"
  shows "\<exists>w'. fold_w (file_stream_destroy os) fs w = (Inr (), w') \<and> opened w' = opened w - set (map (handle_fd \<circ> fs_handle) fs)"
  using assms(2,3)
proof (induction fs arbitrary: w)
  case (Cons f fs)
  obtain w1 where w1: "file_stream_destroy os f w = (Inr (), w1)" "opened w1 = opened w - {handle_fd (fs_handle f)}"
    using destroy_closes [OF assms(1)] Cons.prems(2) by force
  have "handle_fd (fs_handle f) \<notin> set (map (handle_fd \<circ> fs_handle) fs)" "set (map (handle_fd \<circ> fs_handle) fs) \<subseteq> opened w"
    using Cons.prems by simp_all
  then have "set (map (handle_fd \<circ> fs_handle) fs) \<subseteq> opened w1" using w1(2) by blast
  then obtain w2 where w2: "fold_w (file_stream_destroy os) fs w1 = (Inr (), w2)"
    "opened w2 = opened w1 - set (map (handle_fd \<circ> fs_handle) fs)"
    using Cons.IH [of w1] Cons.prems(1) by auto
  then show ?case using w1 by (auto simp: bind_w_def)
qed (simp add: return_w_def)

text \<open>The streams made so far are open, beside the handles \<open>H\<close> that were.\<close>

definition holds_beside :: "('w \<Rightarrow> int set) \<Rightarrow> int set \<Rightarrow> file_stream list \<Rightarrow> 'w \<Rightarrow> bool" where
  "holds_beside opened H fs w \<longleftrightarrow> distinct (map (handle_fd \<circ> fs_handle) fs) \<and>
     opened w = H \<union> set (map (handle_fd \<circ> fs_handle) fs) \<and> H \<inter> set (map (handle_fd \<circ> fs_handle) fs) = {}"

lemma holds_beside_destroy:
  assumes "dup_closes os opened" "holds_beside opened H fs w"
  shows "\<exists>w'. fold_w (file_stream_destroy os) fs w = (Inr (), w') \<and> opened w' = H"
  using destroy_all_closes [OF assms(1), of fs w] assms(2) unfolding holds_beside_def by blast

lemma standard_stream_cases:
  assumes "dup_closes os opened" "holds_beside opened H fs w"
  obtains (fails) x w' where "standard_stream os fs h w = (throw x, w')" "opened w' = H"
    | (opens) f w' where "standard_stream os fs h w = (Inr f, w')" "holds_beside opened H (f # fs) w'"
  using assms(1)
proof (cases rule: of_handle_cases [where h = h and w = w])
  case (fails x w1)
  then have "holds_beside opened H fs w1" using assms(2) by (simp add: holds_beside_def)
  then obtain w' where "fold_w (file_stream_destroy os) fs w1 = (Inr (), w')" "opened w' = H"
    using holds_beside_destroy [OF assms(1)] by blast
  then show thesis using fails by (intro that(1) [of x w']) (simp_all add: standard_stream_def unwind_def)
next
  case (opens f w')
  then show thesis using assms(2) by (intro that(2) [of f w']) (auto simp: standard_stream_def holds_beside_def)
qed

text \<open>C26: Making the standard console either throws and leaves the open handles as they were, or opens three
  new ones, which the console's destructor closes again.\<close>

theorem standard_console_handles:
  assumes "dup_closes os opened"
  shows "(\<exists>x w'. standard_console_new os w = (throw x, w') \<and> opened w' = opened w) \<or>
    (\<exists>c w' w''. standard_console_new os w = (Inr c, w') \<and> card (opened w' - opened w) = 3 \<and>
      console_destroy os c w' = (Inr (), w'') \<and> opened w'' = opened w)"
proof -
  have "holds_beside opened (opened w) [] w" by (simp add: holds_beside_def)
  from assms this show ?thesis
  proof (cases rule: standard_stream_cases [where h = 0])
    case (opens i w1)
    from assms this(2) show ?thesis
    proof (cases rule: standard_stream_cases [where h = 1])
      case (opens out w2)
      note out = this
      from assms this(2) show ?thesis
      proof (cases rule: standard_stream_cases [where h = 2])
        case (opens e w3)
        have new: "standard_console_new os w = (Inr (console_new i out e), w3)"
          using \<open>standard_stream os [] 0 w = _\<close> out(1) opens(1) by (simp add: standard_console_new_def bind_w_def return_w_def)
        have "opened w3 - opened w = set (map (handle_fd \<circ> fs_handle) [e, out, i])"
          using opens(2) by (auto simp: holds_beside_def)
        moreover have "card (set (map (handle_fd \<circ> fs_handle) [e, out, i])) = 3"
          using opens(2) by (simp only: holds_beside_def distinct_card) simp
        moreover obtain w4 where "console_destroy os (console_new i out e) w3 = (Inr (), w4)" "opened w4 = opened w"
          using holds_beside_destroy [OF assms opens(2)] by (auto simp: console_destroy_def console_streams_def console_new_def)
        ultimately show ?thesis using new by auto
      qed (use \<open>standard_stream os [] 0 w = _\<close> out(1) in \<open>auto simp: standard_console_new_def bind_w_def\<close>)
    qed (use \<open>standard_stream os [] 0 w = _\<close> in \<open>auto simp: standard_console_new_def bind_w_def\<close>)
  qed (auto simp: standard_console_new_def bind_w_def)
qed

text \<open>A system whose world is \<^verbatim>\<open>errno\<close> and the open handles, as the types of directory entries.\<close>

definition opened_handles :: "int \<times> dirent list \<Rightarrow> int set" where
  "opened_handles w = set (map (int \<circ> d_type) (snd w))"

definition handle_os :: "(int \<times> dirent list) os_calls" where
  "handle_os = one_directory\<lparr>
     os_dup := (\<lambda>_ (e, ds). let n = Suc (foldr max (map d_type ds) 2) in
       if n < 2 ^ 31 then (int n, (e, \<lparr>d_type = n, d_name = []\<rparr> # ds)) else (- 1, (24, ds))),
     os_close := (\<lambda>h (e, ds). if h \<in> set (map (int \<circ> d_type) ds) then (0, (e, filter (\<lambda>d. int (d_type d) \<noteq> h) ds))
       else (- 1, (9, ds)))\<rparr>"

lemma foldr_max_above: "(x :: nat) \<in> set xs \<Longrightarrow> x \<le> foldr max xs a"
  by (induction xs) auto

lemma handle_os_dup_closes: "dup_closes handle_os opened_handles"
proof -
  have "1 + int (foldr max (map d_type ds) 2) \<noteq> int (d_type x)" if "x \<in> set ds" for x :: dirent and ds
    using foldr_max_above [of "d_type x" "map d_type ds" 2] that by simp
  then show ?thesis
    by (auto simp: dup_closes_def handle_os_def opened_handles_def one_directory_def os_throw_def throw_errno_def Let_def
        split: if_splits)
qed

theorem standard_console_handles_witness:
  "\<exists>c w' w''. standard_console_new handle_os (0, []) = (Inr c, w') \<and> opened_handles w' = {3, 4, 5} \<and>
    console_destroy handle_os c w' = (Inr (), w'') \<and> opened_handles w'' = {}"
proof -
  have "\<exists>c w'. standard_console_new handle_os (0, []) = (Inr c, w') \<and> opened_handles w' = {3, 4, 5}"
    by (simp add: standard_console_new_def standard_stream_def file_stream_of_handle_def posix_duplicate_def os_check_def
        bind_w_def return_w_def handle_os_def one_directory_def Let_def opened_handles_def) auto
  then show ?thesis
    using standard_console_handles [OF handle_os_dup_closes, of "(0, [])"] by (auto simp: opened_handles_def)
qed

end
