(* ===== verification/Locks.thy ===== *)
theory Locks
  imports Time_Span Ref_Count
begin

text \<open>
  Mutexes, scoped locks, conditions, condition locks, semaphores and thread-local storage
  (\<^verbatim>\<open>mutex.h\<close>, \<^verbatim>\<open>mutexlock.h\<close>, \<^verbatim>\<open>condition.h\<close>,
  \<^verbatim>\<open>conditionlock.h\<close>, \<^verbatim>\<open>semaphore.h\<close>, \<^verbatim>\<open>timedtry_internal.h\<close>,
  \<^verbatim>\<open>threadlocalstorage.h\<close> and \<^verbatim>\<open>source/threading/\<close>).  Each is the state the
  POSIX object keeps.  A call that may block is a partial step: None while the thread has to
  wait.  Threads are named by values of type \<open>'t\<close>.  An unlock by a thread that does not hold
  a normal mutex is undefined, as POSIX says; a recursive mutex reports it and the code ignores
  the report.
\<close>

section \<open>Mutexes\<close>

datatype mutex_type = NormalLock | RecursiveLock

record 't mutex =
  mx_type :: mutex_type
  mx_owner :: "'t option"
  mx_depth :: nat

definition mutex_new :: "mutex_type \<Rightarrow> 't mutex" where
  "mutex_new ty = \<lparr>mx_type = ty, mx_owner = None, mx_depth = 0\<rparr>"

definition mutex_lock :: "'t \<Rightarrow> ('t, 'z) mutex_scheme \<Rightarrow> ('t, 'z) mutex_scheme option" where
  "mutex_lock t m =
     (case mx_owner m of
        None \<Rightarrow> Some (m\<lparr>mx_owner := Some t, mx_depth := 1\<rparr>)
      | Some u \<Rightarrow>
          if u = t \<and> mx_type m = RecursiveLock then Some (m\<lparr>mx_depth := mx_depth m + 1\<rparr>) else None)"

definition mutex_try_lock :: "'t \<Rightarrow> ('t, 'z) mutex_scheme \<Rightarrow> bool \<times> ('t, 'z) mutex_scheme" where
  "mutex_try_lock t m = (case mutex_lock t m of None \<Rightarrow> (False, m) | Some m' \<Rightarrow> (True, m'))"

definition mutex_unlock :: "'t \<Rightarrow> ('t, 'z) mutex_scheme \<Rightarrow> ('t, 'z) mutex_scheme result" where
  "mutex_unlock t m =
     (if mx_owner m \<noteq> Some t then (if mx_type m = NormalLock then Inl Undefined else Inr m)
      else if mx_depth m \<le> 1 then Inr (m\<lparr>mx_owner := None, mx_depth := 0\<rparr>)
      else Inr (m\<lparr>mx_depth := mx_depth m - 1\<rparr>))"

definition mutex_ok :: "('t, 'z) mutex_scheme \<Rightarrow> bool" where
  "mutex_ok m \<longleftrightarrow> (mx_owner m = None \<longleftrightarrow> mx_depth m = 0) \<and> (mx_type m = NormalLock \<longrightarrow> mx_depth m \<le> 1)"

lemma mutex_ok_new [simp]: "mutex_ok (mutex_new ty)"
  by (simp add: mutex_ok_def mutex_new_def)

lemma mutex_ok_lock: "mutex_ok m \<Longrightarrow> mutex_lock t m = Some m' \<Longrightarrow> mutex_ok m'"
  by (auto simp: mutex_ok_def mutex_lock_def split: option.splits if_splits)

lemma mutex_ok_unlock: "mutex_ok m \<Longrightarrow> mutex_unlock t m = Inr m' \<Longrightarrow> mutex_ok m'"
  by (auto simp: mutex_ok_def mutex_unlock_def split: if_splits)

lemma mutex_lock_owner: "mutex_lock t m = Some m' \<Longrightarrow> mx_owner m' = Some t"
  by (auto simp: mutex_lock_def split: option.splits if_splits)

lemma mutex_lock_blocks: "mx_owner m = Some u \<Longrightarrow> u \<noteq> t \<Longrightarrow> mutex_lock t m = None"
  by (simp add: mutex_lock_def)

lemma mutex_unlock_lock:
  assumes "mutex_ok m" and "mutex_lock t m = Some m'"
  shows "mutex_unlock t m' = Inr m"
  using assms
  by (cases "mx_owner m") (auto simp: mutex_ok_def mutex_lock_def mutex_unlock_def split: if_splits)

section \<open>Timed attempts\<close>

text \<open>The two loops of \<^verbatim>\<open>timedtry_internal.h\<close>, used where the system has no timed calls.
  An attempt changes the world and returns an error number; \<open>now\<close> reads the clock.\<close>

definition ebusy :: int where "ebusy = 16"
definition eagain :: int where "eagain = 11"

partial_function (option) timed_try_busy ::
    "('w \<Rightarrow> int \<times> 'w) \<Rightarrow> ('w \<Rightarrow> 'w) \<Rightarrow> ('w \<Rightarrow> time) \<Rightarrow> time \<Rightarrow> 'w \<Rightarrow> (int \<times> 'w) option" where
  "timed_try_busy attempt delay now timeout w =
     (case attempt w of (r, w1) \<Rightarrow>
        let w2 = (if r = ebusy then delay w1 else w1) in
        if r \<noteq> ebusy \<and> time_less timeout (now w2) then timed_try_busy attempt delay now timeout w2
        else Some (r, w2))"

partial_function (option) timed_try_again ::
    "('w \<Rightarrow> int \<times> 'w) \<Rightarrow> ('w \<Rightarrow> int) \<Rightarrow> ('w \<Rightarrow> 'w) \<Rightarrow> ('w \<Rightarrow> time) \<Rightarrow> time \<Rightarrow> 'w \<Rightarrow> (int \<times> 'w) option" where
  "timed_try_again attempt err delay now timeout w =
     (case attempt w of (r, w1) \<Rightarrow>
        let r' = (if r < 0 \<and> err w1 = eagain then eagain else r);
            w2 = (if r < 0 \<and> err w1 = eagain then delay w1 else w1) in
        if r' \<noteq> eagain \<and> time_less timeout (now w2) then timed_try_again attempt err delay now timeout w2
        else Some (if r' = eagain then - 1 else r', w2))"

text \<open>The world of a timed lock is the mutex and the time.\<close>

definition mutex_attempt :: "'t \<Rightarrow> ('t, 'z) mutex_scheme \<times> time \<Rightarrow> int \<times> ('t, 'z) mutex_scheme \<times> time" where
  "mutex_attempt t mc =
     (case mc of (m, c) \<Rightarrow> (case mutex_try_lock t m of (ok, m') \<Rightarrow> (if ok then 0 else ebusy, (m', c))))"

definition try_resolution :: timespan where
  "try_resolution = convert_nanoseconds 10000000"

definition timed_nano_delay :: "'m \<times> time \<Rightarrow> 'm \<times> time" where
  "timed_nano_delay mc = (case mc of (m, c) \<Rightarrow> (m, time_add_assign c try_resolution))"

definition mutex_lock_until ::
    "'t \<Rightarrow> time \<Rightarrow> ('t, 'z) mutex_scheme \<times> time \<Rightarrow> (bool \<times> ('t, 'z) mutex_scheme \<times> time) option" where
  "mutex_lock_until t timeout mc =
     map_option (\<lambda>(r, mc'). (r = 0, mc')) (timed_try_busy (mutex_attempt t) timed_nano_delay snd timeout mc)"

definition mutex_lock_for ::
    "'t \<Rightarrow> timespan \<Rightarrow> ('t, 'z) mutex_scheme \<times> time \<Rightarrow> (bool \<times> ('t, 'z) mutex_scheme \<times> time) option" where
  "mutex_lock_for t span mc = mutex_lock_until t (time_add_assign (snd mc) span) mc"

text \<open>The loop condition is the wrong way round.  An attempt that finds the mutex held gives up
  after one delay, however far the deadline is; one that succeeds after the deadline is made
  again, finds its own lock and reports failure with the mutex held.\<close>

lemma timed_lock_gives_up:
  assumes "mx_owner m = Some u" and "u \<noteq> t"
  shows "mutex_lock_until t timeout (m, c) = Some (False, m, time_add_assign c try_resolution)"
  using assms
  by (simp add: mutex_lock_until_def mutex_attempt_def mutex_try_lock_def mutex_lock_blocks
      timed_try_busy.simps timed_nano_delay_def ebusy_def)

lemma timed_lock_late_fails_holding:
  assumes "mx_owner m = None" and "mx_type m = NormalLock" and "time_less timeout c"
  shows "\<exists>c'. mutex_lock_until t timeout (m, c) = Some (False, m\<lparr>mx_owner := Some t, mx_depth := 1\<rparr>, c')"
proof -
  let ?m = "m\<lparr>mx_owner := Some t, mx_depth := 1\<rparr>"
  have "mutex_attempt t (m, c) = (0, (?m, c))" and "mutex_attempt t (?m, c) = (ebusy, (?m, c))"
    using assms by (simp_all add: mutex_attempt_def mutex_try_lock_def mutex_lock_def)
  then have "timed_try_busy (mutex_attempt t) timed_nano_delay snd timeout (m, c) =
      Some (ebusy, timed_nano_delay (?m, c))"
    using assms(3) by (subst timed_try_busy.simps, subst timed_try_busy.simps) (simp add: ebusy_def)
  then show ?thesis by (simp add: mutex_lock_until_def timed_nano_delay_def ebusy_def)
qed

section \<open>Scoped locks\<close>

record mutex_scope =
  ms_locked :: bool

definition mutex_scope_new :: "'t \<Rightarrow> ('t, 'z) mutex_scheme \<Rightarrow> bool \<Rightarrow> (mutex_scope \<times> ('t, 'z) mutex_scheme) option" where
  "mutex_scope_new t m try =
     (if try then (case mutex_try_lock t m of (ok, m') \<Rightarrow> Some (\<lparr>ms_locked = ok\<rparr>, m'))
      else map_option (\<lambda>m'. (\<lparr>ms_locked = True\<rparr>, m')) (mutex_lock t m))"

definition mutex_scope_unlock ::
    "'t \<Rightarrow> mutex_scope \<Rightarrow> ('t, 'z) mutex_scheme \<Rightarrow> (mutex_scope \<times> ('t, 'z) mutex_scheme) result" where
  "mutex_scope_unlock t l m =
     (if ms_locked l then bind_r (mutex_unlock t m) (\<lambda>m'. Inr (l\<lparr>ms_locked := False\<rparr>, m')) else Inr (l, m))"

definition mutex_scope_destroy :: "'t \<Rightarrow> mutex_scope \<Rightarrow> ('t, 'z) mutex_scheme \<Rightarrow> ('t, 'z) mutex_scheme result" where
  "mutex_scope_destroy t l m = bind_r (mutex_scope_unlock t l m) (\<lambda>(l', m'). Inr m')"

text \<open>What a scoped lock needs of the mutex it guards.\<close>

locale lockable =
  fixes lock :: "'t \<Rightarrow> 'm \<Rightarrow> 'm option"
    and unlock :: "'t \<Rightarrow> 'm \<Rightarrow> 'm result"
    and holder :: "'m \<Rightarrow> 't option"
    and ok :: "'m \<Rightarrow> bool"
  assumes lock_holder: "lock t m = Some m' \<Longrightarrow> holder m' = Some t"
    and lock_excludes: "holder m = Some u \<Longrightarrow> u \<noteq> t \<Longrightarrow> lock t m = None"
    and unlock_lock: "ok m \<Longrightarrow> lock t m = Some m' \<Longrightarrow> unlock t m' = Inr m"
    and lock_ok: "ok m \<Longrightarrow> lock t m = Some m' \<Longrightarrow> ok m'"
begin

lemma nested_unlock:
  assumes "ok m" and "lock t m = Some m1" and "lock t m1 = Some m2"
  shows "bind_r (unlock t m2) (unlock t) = Inr m"
  by (simp add: unlock_lock [OF lock_ok [OF assms(1,2)] assms(3)] unlock_lock [OF assms(1,2)])

lemma no_two_holders: "lock t m = Some m' \<Longrightarrow> u \<noteq> t \<Longrightarrow> lock u m' = None"
  using lock_holder lock_excludes by metis

end

interpretation mx: lockable mutex_lock mutex_unlock mx_owner mutex_ok
  by unfold_locales (auto intro: mutex_lock_owner mutex_lock_blocks mutex_unlock_lock mutex_ok_lock)

lemma mutex_scope_restores:
  assumes "mutex_ok m" and "mutex_scope_new t m try = Some (l, m')"
  shows "mutex_scope_destroy t l m' = Inr m"
  using assms mx.unlock_lock [of m t]
  by (auto simp: mutex_scope_new_def mutex_scope_destroy_def mutex_scope_unlock_def mutex_try_lock_def
      split: if_splits option.splits)

lemma mutex_scope_unlock_once:
  assumes "mutex_scope_unlock t l m = Inr (l', m')"
  shows "mutex_scope_destroy t l' m' = Inr m'"
  using assms
  by (auto simp: mutex_scope_unlock_def mutex_scope_destroy_def bind_r_Inr_iff split: if_splits)

section \<open>Conditions\<close>

text \<open>A condition is a mutex with the set of the threads that wait on it.  The call to wait is
  two steps: it gives up the mutex and joins the set; once some signal has taken it from the set
  it locks the mutex again.  A signal takes at least one thread from the set, if there is one;
  which ones is its argument.\<close>

record 't condition = "'t mutex" +
  cn_waiting :: "'t set"

definition condition_new :: "'t condition" where
  "condition_new = \<lparr>mx_type = NormalLock, mx_owner = None, mx_depth = 0, cn_waiting = {}\<rparr>"

definition condition_wait :: "'t \<Rightarrow> ('t, 'z) condition_scheme \<Rightarrow> ('t, 'z) condition_scheme result" where
  "condition_wait t c = bind_r (mutex_unlock t c) (\<lambda>c'. Inr (c'\<lparr>cn_waiting := insert t (cn_waiting c')\<rparr>))"

definition condition_resume :: "'t \<Rightarrow> ('t, 'z) condition_scheme \<Rightarrow> ('t, 'z) condition_scheme option" where
  "condition_resume t c = (if t \<in> cn_waiting c then None else mutex_lock t c)"

definition condition_signal :: "'t set \<Rightarrow> ('t, 'z) condition_scheme \<Rightarrow> ('t, 'z) condition_scheme option" where
  "condition_signal S c =
     (if S \<subseteq> cn_waiting c \<and> (S = {} \<longrightarrow> cn_waiting c = {}) then Some (c\<lparr>cn_waiting := cn_waiting c - S\<rparr>) else None)"

definition condition_broadcast :: "('t, 'z) condition_scheme \<Rightarrow> ('t, 'z) condition_scheme" where
  "condition_broadcast c = c\<lparr>cn_waiting := {}\<rparr>"

text \<open>\<^verbatim>\<open>Lock\<close> with a predicate, step by step; \<open>expired\<close> says whether the deadline of the
  timed version has passed.  The timed version that gives up unlocks the mutex.\<close>

datatype lock_phase = Locking | Testing | Waiting | Expired | Holding | Failed

fun condition_lock_step ::
    "(('t, 'z) condition_scheme \<Rightarrow> bool) \<Rightarrow> 't \<Rightarrow> bool \<Rightarrow> lock_phase \<Rightarrow> ('t, 'z) condition_scheme \<Rightarrow>
     (lock_phase \<times> ('t, 'z) condition_scheme) option" where
  "condition_lock_step p t expired Locking c =
     (case mutex_lock t c of Some c' \<Rightarrow> Some (Testing, c')
      | None \<Rightarrow> (if expired then Some (Failed, c) else None))"
| "condition_lock_step p t expired Testing c =
     (if p c then Some (Holding, c)
      else (case condition_wait t c of Inl e \<Rightarrow> None | Inr c' \<Rightarrow> Some (Waiting, c')))"
| "condition_lock_step p t expired Waiting c =
     (if expired then map_option (Pair Expired) (mutex_lock t (c\<lparr>cn_waiting := cn_waiting c - {t}\<rparr>))
      else map_option (Pair Testing) (condition_resume t c))"
| "condition_lock_step p t expired Expired c =
     (case mutex_unlock t c of Inl e \<Rightarrow> None | Inr c' \<Rightarrow> Some (Failed, c'))"
| "condition_lock_step p t expired Holding c = None"
| "condition_lock_step p t expired Failed c = None"

definition condition_try_lock ::
    "(('t, 'z) condition_scheme \<Rightarrow> bool) \<Rightarrow> 't \<Rightarrow> ('t, 'z) condition_scheme \<Rightarrow> (bool \<times> ('t, 'z) condition_scheme) result" where
  "condition_try_lock p t c =
     (case mutex_try_lock t c of (ok, c') \<Rightarrow>
        if ok then (if p c' then Inr (True, c') else bind_r (mutex_unlock t c') (\<lambda>c''. Inr (False, c'')))
        else Inr (False, c'))"

text \<open>The thread holds the mutex in the phases Testing, Expired and Holding, and no other thread
  changes the owner of a mutex that is held.\<close>

definition phase_holds :: "'t \<Rightarrow> lock_phase \<Rightarrow> ('t, 'z) condition_scheme \<Rightarrow> bool" where
  "phase_holds t ph c \<longleftrightarrow> (ph \<in> {Testing, Expired, Holding} \<longrightarrow> mx_owner c = Some t) \<and>
     (ph \<in> {Waiting, Failed} \<and> mx_type c = NormalLock \<longrightarrow> mx_owner c \<noteq> Some t)"

lemma condition_lock_step_holds:
  assumes "condition_lock_step p t expired ph c = Some (ph', c')"
    and "phase_holds t ph c" and "mutex_ok c" and "mx_type c = NormalLock"
    and "ph = Locking \<Longrightarrow> mx_owner c \<noteq> Some t"
  shows "phase_holds t ph' c' \<and> mutex_ok c' \<and> mx_type c' = NormalLock \<and> (ph' = Holding \<longrightarrow> p c')"
proof (cases ph)
  case Locking
  then show ?thesis using assms mutex_ok_lock [of c t c']
    by (auto simp: phase_holds_def mutex_lock_def split: option.splits if_splits)
next
  case Testing
  then show ?thesis using assms
    by (auto simp: phase_holds_def condition_wait_def mutex_unlock_def mutex_ok_def split: if_splits)
next
  case Waiting
  then show ?thesis using assms
    by (auto simp: phase_holds_def condition_resume_def mutex_lock_def mutex_ok_def split: option.splits if_splits)
next
  case Expired
  then show ?thesis using assms
    by (auto simp: phase_holds_def mutex_unlock_def mutex_ok_def split: if_splits)
qed (use assms in auto)

section \<open>Condition locks\<close>

record 't condition_lock = "'t condition" +
  cl_condition :: int

definition condition_lock_new :: "int \<Rightarrow> 't condition_lock" where
  "condition_lock_new v = \<lparr>mx_type = NormalLock, mx_owner = None, mx_depth = 0, cn_waiting = {}, cl_condition = v\<rparr>"

definition set_condition :: "int \<Rightarrow> 't condition_lock \<Rightarrow> 't condition_lock" where
  "set_condition v c = c\<lparr>cl_condition := v\<rparr>"

definition condition_is :: "int \<Rightarrow> 't condition_lock \<Rightarrow> bool" where
  "condition_is v c \<longleftrightarrow> cl_condition c = v"

definition condition_lock_lock_step ::
    "int \<Rightarrow> 't \<Rightarrow> bool \<Rightarrow> lock_phase \<Rightarrow> 't condition_lock \<Rightarrow> (lock_phase \<times> 't condition_lock) option" where
  "condition_lock_lock_step v = condition_lock_step (condition_is v)"

definition condition_lock_try_lock :: "int \<Rightarrow> 't \<Rightarrow> 't condition_lock \<Rightarrow> (bool \<times> 't condition_lock) result" where
  "condition_lock_try_lock v = condition_try_lock (condition_is v)"

definition condition_lock_signal :: "int \<Rightarrow> 't set \<Rightarrow> 't condition_lock \<Rightarrow> 't condition_lock option" where
  "condition_lock_signal v S c = condition_signal S (set_condition v c)"

definition condition_lock_broadcast :: "int \<Rightarrow> 't condition_lock \<Rightarrow> 't condition_lock" where
  "condition_lock_broadcast v c = condition_broadcast (set_condition v c)"

definition condition_lock_unlock :: "int \<Rightarrow> 't \<Rightarrow> 't condition_lock \<Rightarrow> 't condition_lock result" where
  "condition_lock_unlock v t c = mutex_unlock t (condition_lock_broadcast v c)"

lemma condition_lock_try_lock_result:
  assumes "mutex_ok c" and "mx_type c = NormalLock"
  shows "condition_lock_try_lock v t c =
    (if mx_owner c = None \<and> cl_condition c = v then Inr (True, c\<lparr>mx_owner := Some t, mx_depth := 1\<rparr>) else Inr (False, c))"
  using assms
  by (auto simp: condition_lock_try_lock_def condition_try_lock_def mutex_try_lock_def mutex_lock_def
      condition_is_def mutex_unlock_def mutex_ok_def split: option.splits)

section \<open>Semaphores\<close>

record semaphore =
  sm_count :: nat

definition sem_value_max :: nat where
  "sem_value_max = 2 ^ 31 - 1"

text \<open>\<^verbatim>\<open>sem_init\<close> rejects a value above the largest; the object is then not
  initialised.\<close>

definition semaphore_new :: "int \<Rightarrow> semaphore result" where
  "semaphore_new v =
     (let n = nat (v mod 2 ^ 32) in if n \<le> sem_value_max then Inr \<lparr>sm_count = n\<rparr> else Inl Undefined)"

definition semaphore_get_value :: "semaphore \<Rightarrow> int" where
  "semaphore_get_value s = int (sm_count s)"

definition semaphore_signal :: "semaphore \<Rightarrow> semaphore" where
  "semaphore_signal s = (if sm_count s < sem_value_max then s\<lparr>sm_count := sm_count s + 1\<rparr> else s)"

definition semaphore_wait :: "semaphore \<Rightarrow> semaphore option" where
  "semaphore_wait s = (if sm_count s = 0 then None else Some (s\<lparr>sm_count := sm_count s - 1\<rparr>))"

definition semaphore_try_wait :: "semaphore \<Rightarrow> bool \<times> semaphore" where
  "semaphore_try_wait s = (case semaphore_wait s of None \<Rightarrow> (False, s) | Some s' \<Rightarrow> (True, s'))"

definition semaphore_attempt :: "semaphore \<times> time \<Rightarrow> int \<times> semaphore \<times> time" where
  "semaphore_attempt sc =
     (case sc of (s, c) \<Rightarrow> (case semaphore_try_wait s of (ok, s') \<Rightarrow> (if ok then 0 else - 1, (s', c))))"

text \<open>A failed \<^verbatim>\<open>sem_trywait\<close> on a semaphore sets \<^verbatim>\<open>errno\<close> to \<^verbatim>\<open>EAGAIN\<close>.\<close>

definition semaphore_wait_until :: "time \<Rightarrow> semaphore \<times> time \<Rightarrow> (bool \<times> semaphore \<times> time) option" where
  "semaphore_wait_until timeout sc =
     map_option (\<lambda>(r, sc'). (r = 0, sc'))
       (timed_try_again semaphore_attempt (\<lambda>_. eagain) timed_nano_delay snd timeout sc)"

definition semaphore_wait_for :: "timespan \<Rightarrow> semaphore \<times> time \<Rightarrow> (bool \<times> semaphore \<times> time) option" where
  "semaphore_wait_for span sc = semaphore_wait_until (time_sub_assign (snd sc) span) sc"

lemma semaphore_signal_wait:
  "sm_count s < sem_value_max \<Longrightarrow> semaphore_wait (semaphore_signal s) = Some s"
  by (simp add: semaphore_signal_def semaphore_wait_def)

text \<open>A wait with a time span has its deadline in the past, so after a successful attempt the
  loop goes on: it takes one unit after the other and then reports failure.\<close>

lemma time_not_less_self: "\<not> time_less c c"
  by (simp add: time_less_def)

lemma timed_wait_drains:
  assumes "time_less timeout c"
  shows "timed_try_again semaphore_attempt (\<lambda>_. eagain) timed_nano_delay snd timeout (s, c) =
    Some (- 1, s\<lparr>sm_count := 0\<rparr>, time_add_assign c try_resolution)"
proof (induction "sm_count s" arbitrary: s)
  case 0
  then show ?case
    by (subst timed_try_again.simps)
      (simp add: semaphore_attempt_def semaphore_try_wait_def semaphore_wait_def timed_nano_delay_def eagain_def)
next
  case (Suc n)
  then have "semaphore_attempt (s, c) = (0, (s\<lparr>sm_count := n\<rparr>, c))"
    by (auto simp: semaphore_attempt_def semaphore_try_wait_def semaphore_wait_def)
  then show ?case using Suc.hyps(1) [of "s\<lparr>sm_count := n\<rparr>"] assms
    by (subst timed_try_again.simps) (simp add: eagain_def)
qed

lemma semaphore_wait_for_drains:
  assumes "time_less (time_sub_assign c span) c"
  shows "semaphore_wait_for span (s, c) = Some (False, s\<lparr>sm_count := 0\<rparr>, time_add_assign c try_resolution)"
  by (simp add: semaphore_wait_for_def semaphore_wait_until_def timed_wait_drains [OF assms])

section \<open>Thread-local storage\<close>

text \<open>For a key the system keeps a pointer per thread; the library stores there a cell with the
  value, which may be the null pointer.  The destructor of the storage frees no cell.\<close>

type_synonym ('t, 'v) local_storage = "'t \<Rightarrow> 'v option"

definition storage_new :: "('t, 'v) local_storage" where
  "storage_new = (\<lambda>_. None)"

definition storage_has_data :: "'t \<Rightarrow> ('t, 'v) local_storage \<Rightarrow> bool" where
  "storage_has_data t st \<longleftrightarrow> st t \<noteq> None"

definition storage_get_data :: "'t \<Rightarrow> ('t, 'v option) local_storage \<Rightarrow> 'v option" where
  "storage_get_data t st = (case st t of None \<Rightarrow> None | Some v \<Rightarrow> v)"

definition storage_set_data :: "'t \<Rightarrow> 'v \<Rightarrow> ('t, 'v) local_storage \<Rightarrow> ('t, 'v) local_storage" where
  "storage_set_data t v st = st(t := Some v)"

definition storage_thread_exit :: "'t \<Rightarrow> ('t, 'v) local_storage \<Rightarrow> ('t, 'v) local_storage" where
  "storage_thread_exit t st = st(t := None)"

text \<open>The storage of values and the storage of counted objects.\<close>

definition local_get_value :: "'t \<Rightarrow> ('t, 'v) local_storage \<Rightarrow> 'v result" where
  "local_get_value t st = (case st t of None \<Rightarrow> throw (Exception '''') | Some v \<Rightarrow> Inr v)"

definition local_set_value :: "'t \<Rightarrow> 'v \<Rightarrow> ('t, 'v) local_storage \<Rightarrow> ('t, 'v) local_storage" where
  "local_set_value t v st = (if storage_has_data t st then st(t := Some v) else storage_set_data t v st)"

definition auto_local_get_value :: "'t \<Rightarrow> ('t, nat option) local_storage \<Rightarrow> nat option" where
  "auto_local_get_value t st = (if storage_has_data t st then storage_get_data t st else None)"

definition auto_local_set_value ::
    "'t \<Rightarrow> nat option \<Rightarrow> ('t, nat option) local_storage \<Rightarrow> heap \<Rightarrow> (('t, nat option) local_storage \<times> heap) result" where
  "auto_local_set_value t v st h =
     bind_r (if storage_has_data t st then release (storage_get_data t st) h else Inr h) (\<lambda>h1.
     bind_r (retain v h1) (\<lambda>h2. Inr (storage_set_data t v st, h2)))"

definition auto_local_thread_exit ::
    "'t \<Rightarrow> ('t, nat option) local_storage \<Rightarrow> heap \<Rightarrow> (('t, nat option) local_storage \<times> heap) result" where
  "auto_local_thread_exit t st h =
     bind_r (if storage_has_data t st then release (storage_get_data t st) h else Inr h) (\<lambda>h1.
     Inr (storage_thread_exit t st, h1))"

lemma local_set_get: "local_get_value t (local_set_value u v st) = (if t = u then Inr v else local_get_value t st)"
  by (simp add: local_get_value_def local_set_value_def storage_set_data_def)

text \<open>The old object is released before the new one is retained: storing again the object that
  only the storage holds frees it first.\<close>

lemma auto_local_set_same_freed:
  assumes "live_object h a = Some \<lparr>ob_count = 1, ob_fields = []\<rparr>" and "st t = Some (Some a)"
  shows "auto_local_set_value t (Some a) st h = Inl Undefined"
  using assms
  by (auto simp: auto_local_set_value_def storage_has_data_def storage_get_data_def release_def retain_def
      live_object_def split: if_splits)

section \<open>Tasks\<close>

text \<open>A task is created with its mutex locked by its creator and unlocks it when it has run; \<open>tk_call\<close>
  is its delegate.  Waiting for it locks and unlocks the mutex.\<close>

record ('t, 'w, 'v) task =
  tk_mutex :: "'t mutex"
  tk_thread :: "nat option"
  tk_call :: "'w \<Rightarrow> 'v \<times> 'w"
  tk_ret :: "'v option"

definition task_new :: "'t \<Rightarrow> ('w \<Rightarrow> 'v \<times> 'w) \<Rightarrow> ('t, 'w, 'v) task option" where
  "task_new t f =
     map_option (\<lambda>m. \<lparr>tk_mutex = m, tk_thread = None, tk_call = f, tk_ret = None\<rparr>) (mutex_lock t (mutex_new NormalLock))"

definition task_main :: "('t, 'w, 'v) task \<Rightarrow> 'w \<Rightarrow> ('t, 'w, 'v) task \<times> 'w" where
  "task_main k w = (case tk_call k w of (v, w') \<Rightarrow> (k\<lparr>tk_ret := Some v\<rparr>, w'))"

definition task_run :: "'t \<Rightarrow> ('t, 'w, 'v) task \<Rightarrow> 'w \<Rightarrow> (('t, 'w, 'v) task \<times> 'w) result" where
  "task_run t k w =
     (case task_main k w of (k', w') \<Rightarrow> bind_r (mutex_unlock t (tk_mutex k')) (\<lambda>m. Inr (k'\<lparr>tk_mutex := m\<rparr>, w')))"

definition task_base_wait :: "'t \<Rightarrow> ('t, 'w, 'v) task \<Rightarrow> ('t, 'w, 'v) task result option" where
  "task_base_wait t k =
     map_option (\<lambda>(l, m). bind_r (mutex_scope_destroy t l m) (\<lambda>m'. Inr (k\<lparr>tk_mutex := m'\<rparr>)))
       (mutex_scope_new t (tk_mutex k) False)"

definition task_wait :: "'t \<Rightarrow> ('t, 'w, 'v) task \<Rightarrow> ('v \<times> ('t, 'w, 'v) task) result option" where
  "task_wait t k =
     map_option (\<lambda>r. bind_r r (\<lambda>k'. case tk_ret k' of None \<Rightarrow> Inl Undefined | Some v \<Rightarrow> Inr (v, k'))) (task_base_wait t k)"

definition task_try_wait :: "'t \<Rightarrow> ('t, 'w, 'v) task \<Rightarrow> (bool \<times> ('t, 'w, 'v) task) result" where
  "task_try_wait t k =
     (case mutex_scope_new t (tk_mutex k) True of
        None \<Rightarrow> Inl Undefined
      | Some (l, m) \<Rightarrow> bind_r (mutex_scope_destroy t l m) (\<lambda>m'. Inr (ms_locked l, k\<lparr>tk_mutex := m'\<rparr>)))"

text \<open>A task run by the thread that created it can be waited for and gives its delegate's value; run
  by any other thread, as the task queue does, it unlocks a normal mutex it does not hold.\<close>

lemma task_wait_done:
  assumes "mutex_ok (tk_mutex k)" and "mutex_lock u (tk_mutex k) = Some m" and "tk_ret k = Some v"
  shows "task_wait u k = Some (Inr (v, k))"
  using mutex_unlock_lock [OF assms(1,2)] assms(2,3)
  by (simp add: task_wait_def task_base_wait_def mutex_scope_new_def mutex_scope_destroy_def mutex_scope_unlock_def)

lemma task_run_wait:
  assumes "task_new t f = Some k" and "f w = (v, w')"
  shows "\<exists>k'. task_run t k w = Inr (k', w') \<and> task_wait u k' = Some (Inr (v, k'))"
proof -
  have "task_run t k w = Inr (k\<lparr>tk_mutex := mutex_new NormalLock, tk_ret := Some v\<rparr>, w')"
    using assms by (auto simp: task_new_def task_run_def task_main_def mutex_new_def mutex_lock_def mutex_unlock_def)
  then show ?thesis
    using task_wait_done [of "k\<lparr>tk_mutex := mutex_new NormalLock, tk_ret := Some v\<rparr>" u _ v]
    by (simp add: mutex_lock_def mutex_new_def mutex_ok_def)
qed

lemma task_run_elsewhere_undefined:
  assumes "task_new t f = Some k" and "u \<noteq> t"
  shows "task_run u k w = Inl Undefined"
  using assms
  by (auto simp: task_new_def task_run_def task_main_def mutex_new_def mutex_lock_def mutex_unlock_def split: prod.splits)

end
