(* ===== verification/Monitor.thy ===== *)
theory Monitor
  imports Locks
begin

text \<open>
  \<^verbatim>\<open>Monitor\<close>, \<^verbatim>\<open>AutoMonitor\<close> and \<^verbatim>\<open>MonitorLock\<close> (\<^verbatim>\<open>include/bricks/threading/monitor.h\<close>):
  an object that is only reached through \<^verbatim>\<open>operator->\<close>, which makes a temporary that holds a
  recursive mutex until the end of the full expression.  Threads that evaluate such expressions
  interleave freely in \<open>monitor_run\<close>; the theorem says that the result is that of evaluating the
  expressions one after another.
\<close>

section \<open>Monitor and MonitorLock\<close>

text \<open>The monitored object is a value of type \<open>'a\<close> and a call of one of its methods a function on it.\<close>

record ('t, 'a) monitor =
  mo_mutex :: "'t mutex"
  mo_object :: 'a

definition monitor_new :: "'a \<Rightarrow> ('t, 'a) monitor" where
  "monitor_new x = \<lparr>mo_mutex = mutex_new RecursiveLock, mo_object = x\<rparr>"

text \<open>\<^verbatim>\<open>operator->\<close> of the monitor constructs a \<^verbatim>\<open>MonitorLock\<close>, whose destructor is that of its
  \<^verbatim>\<open>MutexLock\<close> and whose own \<^verbatim>\<open>operator->\<close> gives the object.\<close>

definition monitor_arrow :: "'t \<Rightarrow> ('t, 'a) monitor \<Rightarrow> (mutex_scope \<times> ('t, 'a) monitor) option" where
  "monitor_arrow t mo = map_option (\<lambda>(l, m). (l, mo\<lparr>mo_mutex := m\<rparr>)) (mutex_scope_new t (mo_mutex mo) False)"

definition monitor_lock_call :: "('a \<Rightarrow> 'a) \<Rightarrow> ('t, 'a) monitor \<Rightarrow> ('t, 'a) monitor" where
  "monitor_lock_call f mo = mo\<lparr>mo_object := f (mo_object mo)\<rparr>"

definition monitor_lock_destroy :: "'t \<Rightarrow> mutex_scope \<Rightarrow> ('t, 'a) monitor \<Rightarrow> ('t, 'a) monitor result" where
  "monitor_lock_destroy t l mo = bind_r (mutex_scope_destroy t l (mo_mutex mo)) (\<lambda>m. Inr (mo\<lparr>mo_mutex := m\<rparr>))"

section \<open>AutoMonitor\<close>

text \<open>It retains the object, and its implicit copy constructor does not.\<close>

definition auto_monitor_new :: "nat option \<Rightarrow> heap \<Rightarrow> (nat option \<times> heap) result" where
  "auto_monitor_new p h = bind_r (retain p h) (\<lambda>h'. Inr (p, h'))"

definition auto_monitor_destroy :: "nat option \<Rightarrow> heap \<Rightarrow> heap result" where
  "auto_monitor_destroy p h = release p h"

definition auto_monitor_copy :: "nat option \<Rightarrow> heap \<Rightarrow> nat option \<times> heap" where
  "auto_monitor_copy p h = (p, h)"

lemma auto_monitor_balanced:
  assumes "live_object h a = Some ob" "ob_count ob + 1 \<noteq> 0" "ob_count ob \<noteq> 0" "auto_monitor_new (Some a) h = Inr (p, h')"
  shows "p = Some a" "auto_monitor_destroy p h' = Inr h"
proof -
  have a: "a < length (hp_objects h)" "hp_objects h ! a = Some ob" using assms(1) by (auto simp: live_object_def split: if_splits)
  have h': "h' = h\<lparr>hp_objects := (hp_objects h)[a := Some (ob\<lparr>ob_count := ob_count ob + 1\<rparr>)]\<rparr>" and p: "p = Some a"
    using assms(1,4) by (auto simp: auto_monitor_new_def retain_def)
  have "live_object h' a = Some (ob\<lparr>ob_count := ob_count ob + 1\<rparr>)" using a(1) by (simp add: h' live_object_def)
  then show "auto_monitor_destroy p h' = Inr h" using assms(3) a
    by (simp add: p auto_monitor_destroy_def release_def) (simp add: h' list_update_same_conv)
  show "p = Some a" by (rule p)
qed

text \<open>A copy releases what it did not retain: the owner is left with a deleted object.\<close>

lemma auto_monitor_copy_releases_twice:
  "bind_r (auto_monitor_new (Some 0) \<lparr>hp_objects = [Some \<lparr>ob_count = 1, ob_fields = []\<rparr>], hp_vars = []\<rparr>) (\<lambda>(p, h).
     case auto_monitor_copy p h of (q, h1) \<Rightarrow>
       bind_r (auto_monitor_destroy q h1) (\<lambda>h2. bind_r (auto_monitor_destroy p h2) (release (Some 0)))) = Inl Undefined"
  by (simp add: auto_monitor_new_def retain_def live_object_def auto_monitor_copy_def auto_monitor_destroy_def release_def)

section \<open>Threads that share a monitor\<close>

text \<open>A full expression is a list of uses of \<^verbatim>\<open>operator->\<close> and of calls; it starts with the former.  At
  its end the temporaries are destroyed, the newest first.  An event of the run is the lock of
  an expression's first temporary, a call, or the unlock of its last temporary.\<close>

datatype 'a action = Arrow | Call "'a \<Rightarrow> 'a"

datatype 'a monitor_event = Enter | Called "'a \<Rightarrow> 'a" | Leave | Quiet

record ('t, 'a) monitor_system =
  my_monitor :: "('t, 'a) monitor"
  my_code :: "'t \<Rightarrow> 'a action list"
  my_locks :: "'t \<Rightarrow> mutex_scope list"

definition monitor_start :: "'a \<Rightarrow> ('t, 'a) monitor_system" where
  "monitor_start x = \<lparr>my_monitor = monitor_new x, my_code = (\<lambda>_. []), my_locks = (\<lambda>_. [])\<rparr>"

inductive monitor_step :: "('t, 'a) monitor_system \<Rightarrow> 't \<Rightarrow> 'a monitor_event \<Rightarrow> ('t, 'a) monitor_system \<Rightarrow> bool" where
  begin_expression: "my_code s t = [] \<Longrightarrow> my_locks s t = [] \<Longrightarrow>
    monitor_step s t Quiet (s\<lparr>my_code := (my_code s)(t := Arrow # as)\<rparr>)"
| arrow: "my_code s t = Arrow # as \<Longrightarrow> monitor_arrow t (my_monitor s) = Some (l, mo) \<Longrightarrow>
    monitor_step s t (if my_locks s t = [] then Enter else Quiet)
      \<lparr>my_monitor = mo, my_code = (my_code s)(t := as), my_locks = (my_locks s)(t := l # my_locks s t)\<rparr>"
| call: "my_code s t = Call f # as \<Longrightarrow>
    monitor_step s t (Called f)
      (s\<lparr>my_monitor := monitor_lock_call f (my_monitor s), my_code := (my_code s)(t := as)\<rparr>)"
| end_expression: "my_code s t = [] \<Longrightarrow> my_locks s t = l # ls \<Longrightarrow> monitor_lock_destroy t l (my_monitor s) = Inr mo \<Longrightarrow>
    monitor_step s t (if ls = [] then Leave else Quiet)
      (s\<lparr>my_monitor := mo, my_locks := (my_locks s)(t := ls)\<rparr>)"

inductive monitor_run :: "('t, 'a) monitor_system \<Rightarrow> ('t \<times> 'a monitor_event) list \<Rightarrow> ('t, 'a) monitor_system \<Rightarrow> bool" where
  none: "monitor_run s [] s"
| step: "monitor_run s es s' \<Longrightarrow> monitor_step s' t e s'' \<Longrightarrow> monitor_run s (es @ [(t, e)]) s''"

text \<open>The visible events of expressions evaluated one after another, and of one that is not over.\<close>

definition visible :: "('t \<times> 'a monitor_event) list \<Rightarrow> ('t \<times> 'a monitor_event) list" where
  "visible es = [e \<leftarrow> es. snd e \<noteq> Quiet]"

definition open_block :: "('t \<times> ('a \<Rightarrow> 'a) list) option \<Rightarrow> ('t \<times> 'a monitor_event) list" where
  "open_block cur = (case cur of None \<Rightarrow> [] | Some (t, fs) \<Rightarrow> (t, Enter) # map (\<lambda>f. (t, Called f)) fs)"

definition block :: "'t \<times> ('a \<Rightarrow> 'a) list \<Rightarrow> ('t \<times> 'a monitor_event) list" where
  "block b = open_block (Some b) @ [(fst b, Leave)]"

definition calls_of :: "('t \<times> ('a \<Rightarrow> 'a) list) option \<Rightarrow> ('a \<Rightarrow> 'a) list" where
  "calls_of cur = (case cur of None \<Rightarrow> [] | Some b \<Rightarrow> snd b)"

definition serial_result :: "('t \<times> ('a \<Rightarrow> 'a) list) list \<Rightarrow> 'a \<Rightarrow> 'a" where
  "serial_result bs = fold (\<lambda>b. fold (\<lambda>f. f) (snd b)) bs"

section \<open>Exclusion\<close>

text \<open>Who is inside, against the mutex and the temporaries of all threads.\<close>

definition monitor_inv :: "'t option \<Rightarrow> ('t, 'a) monitor_system \<Rightarrow> bool" where
  "monitor_inv who s \<longleftrightarrow>
     (let m = mo_mutex (my_monitor s) in
      mx_type m = RecursiveLock \<and> mx_owner m = who \<and>
      mx_depth m = (case who of None \<Rightarrow> 0 | Some t \<Rightarrow> length (my_locks s t)) \<and>
      (\<forall>t. (my_locks s t \<noteq> [] \<longleftrightarrow> who = Some t) \<and> (\<forall>l\<in>set (my_locks s t). ms_locked l) \<and>
        (my_locks s t = [] \<longrightarrow> my_code s t = [] \<or> hd (my_code s t) = Arrow)))"

lemma monitor_inv_start: "monitor_inv None (monitor_start x)"
  by (simp add: monitor_inv_def monitor_start_def monitor_new_def mutex_new_def)

lemma monitor_inv_begin:
  "monitor_inv who s \<Longrightarrow> my_locks s t = [] \<Longrightarrow> monitor_inv who (s\<lparr>my_code := (my_code s)(t := Arrow # as)\<rparr>)"
  by (auto simp: monitor_inv_def Let_def split: option.splits)

lemma monitor_inv_arrow:
  assumes "monitor_inv who s" "my_code s t = Arrow # as" "monitor_arrow t (my_monitor s) = Some (l, mo)"
  shows "(if my_locks s t = [] then who = None else who = Some t)"
    and "monitor_inv (Some t) \<lparr>my_monitor = mo, my_code = (my_code s)(t := as), my_locks = (my_locks s)(t := l # my_locks s t)\<rparr>"
    and "mo_object mo = mo_object (my_monitor s)"
  using assms
  by (auto simp: monitor_inv_def Let_def monitor_arrow_def mutex_scope_new_def mutex_lock_def split: option.splits if_splits)

lemma monitor_inv_call:
  assumes "monitor_inv who s" "my_code s t = Call f # as"
  shows "who = Some t"
    and "monitor_inv who (s\<lparr>my_monitor := monitor_lock_call f (my_monitor s), my_code := (my_code s)(t := as)\<rparr>)"
proof -
  show "who = Some t" using assms by (fastforce simp: monitor_inv_def Let_def)
  then show "monitor_inv who (s\<lparr>my_monitor := monitor_lock_call f (my_monitor s), my_code := (my_code s)(t := as)\<rparr>)"
    using assms by (auto simp: monitor_inv_def Let_def monitor_lock_call_def)
qed

lemma monitor_inv_end:
  assumes "monitor_inv who s" "my_code s t = []" "my_locks s t = l # ls" "monitor_lock_destroy t l (my_monitor s) = Inr mo"
  shows "who = Some t"
    and "monitor_inv (if ls = [] then None else who) (s\<lparr>my_monitor := mo, my_locks := (my_locks s)(t := ls)\<rparr>)"
    and "mo_object mo = mo_object (my_monitor s)"
proof -
  show who: "who = Some t" using assms(1,3) by (auto simp: monitor_inv_def Let_def)
  have l: "ms_locked l" "mx_owner (mo_mutex (my_monitor s)) = Some t" "mx_depth (mo_mutex (my_monitor s)) = Suc (length ls)"
    using assms(1,3) who by (simp_all add: monitor_inv_def Let_def) (metis list.set_intros(1))
  have mo: "mo = (my_monitor s)\<lparr>mo_mutex := (if ls = [] then (mo_mutex (my_monitor s))\<lparr>mx_owner := None, mx_depth := 0\<rparr>
      else (mo_mutex (my_monitor s))\<lparr>mx_depth := length ls\<rparr>)\<rparr>"
    using assms(4) l by (auto simp: monitor_lock_destroy_def mutex_scope_destroy_def mutex_scope_unlock_def mutex_unlock_def)
  show "mo_object mo = mo_object (my_monitor s)" by (simp add: mo)
  show "monitor_inv (if ls = [] then None else who) (s\<lparr>my_monitor := mo, my_locks := (my_locks s)(t := ls)\<rparr>)"
    using assms(1-3) who by (auto simp: monitor_inv_def Let_def mo) (metis list.set_intros(2))
qed

section \<open>Every run is serial\<close>

definition serial :: "'a \<Rightarrow> ('t \<times> 'a monitor_event) list \<Rightarrow> ('t \<times> ('a \<Rightarrow> 'a) list) list \<Rightarrow>
    ('t \<times> ('a \<Rightarrow> 'a) list) option \<Rightarrow> ('t, 'a) monitor_system \<Rightarrow> bool" where
  "serial x es bs cur s \<longleftrightarrow> visible es = concat (map block bs) @ open_block cur \<and>
     mo_object (my_monitor s) = fold (\<lambda>f. f) (calls_of cur) (serial_result bs x) \<and> monitor_inv (map_option fst cur) s"

lemma visible_append: "visible (es @ [(t, e)]) = visible es @ (if e = Quiet then [] else [(t, e)])"
  by (simp add: visible_def)

lemma serial_step:
  assumes "monitor_step s t e s'" "serial x es bs cur s"
  shows "\<exists>bs cur. serial x (es @ [(t, e)]) bs cur s'"
  using assms
proof (induction rule: monitor_step.induct)
  case (begin_expression s t as)
  then have "serial x (es @ [(t, Quiet)]) bs cur (s\<lparr>my_code := (my_code s)(t := Arrow # as)\<rparr>)"
    using monitor_inv_begin by (auto simp: serial_def visible_append)
  then show ?case by blast
next
  case (arrow s t as l mo)
  let ?s = "\<lparr>my_monitor = mo, my_code = (my_code s)(t := as), my_locks = (my_locks s)(t := l # my_locks s t)\<rparr>"
  have inv: "monitor_inv (map_option fst cur) s" using arrow(3) by (simp add: serial_def)
  note a = monitor_inv_arrow [OF inv arrow(1,2)]
  show ?case
  proof (cases "my_locks s t = []")
    case True
    then have "cur = None" using a(1) by simp
    then have "serial x (es @ [(t, Enter)]) bs (Some (t, [])) ?s"
      using arrow(3) a(2,3) by (simp add: serial_def visible_append open_block_def calls_of_def)
    then show ?thesis using True by auto
  next
    case False
    then have "map_option fst cur = Some t" using a(1) by (simp split: if_splits)
    then have "serial x (es @ [(t, Quiet)]) bs cur ?s"
      using arrow(3) a(2,3) by (auto simp: serial_def visible_append)
    then show ?thesis using False by auto
  qed
next
  case (call s t f as)
  have inv: "monitor_inv (map_option fst cur) s" using call(2) by (simp add: serial_def)
  note a = monitor_inv_call [OF inv call(1)]
  then obtain fs where "cur = Some (t, fs)" by auto
  then have "serial x (es @ [(t, Called f)]) bs (Some (t, fs @ [f]))
      (s\<lparr>my_monitor := monitor_lock_call f (my_monitor s), my_code := (my_code s)(t := as)\<rparr>)"
    using call(2) a(2) by (simp add: serial_def visible_append open_block_def calls_of_def monitor_lock_call_def)
  then show ?case by blast
next
  case (end_expression s t l ls mo)
  let ?s = "s\<lparr>my_monitor := mo, my_locks := (my_locks s)(t := ls)\<rparr>"
  have inv: "monitor_inv (map_option fst cur) s" using end_expression(4) by (simp add: serial_def)
  note a = monitor_inv_end [OF inv end_expression(1-3)]
  then obtain fs where cur: "cur = Some (t, fs)" by auto
  show ?case
  proof (cases "ls = []")
    case True
    then have "serial x (es @ [(t, Leave)]) (bs @ [(t, fs)]) None ?s"
      using end_expression(4) a(2,3) cur by (simp add: serial_def visible_append block_def open_block_def calls_of_def serial_result_def)
    then show ?thesis using True by auto
  next
    case False
    then have "serial x (es @ [(t, Quiet)]) bs cur ?s"
      using end_expression(4) a(2,3) cur by (simp add: serial_def visible_append)
    then show ?thesis using False by auto
  qed
qed

lemma serial_run: "monitor_run s0 es s \<Longrightarrow> s0 = monitor_start x \<Longrightarrow> \<exists>bs cur. serial x es bs cur s"
proof (induction rule: monitor_run.induct)
  case (none s)
  then have "serial x [] [] None s"
    using monitor_inv_start by (simp add: serial_def visible_def open_block_def calls_of_def serial_result_def) (simp add: monitor_start_def monitor_new_def)
  then show ?case by blast
next
  case (step s es s' t e s'')
  then obtain bs cur where "serial x es bs cur s'" by blast
  with step.hyps(2) show ?case by (rule serial_step)
qed

text \<open>C32: However threads interleave that reach an object through a monitor, the locks, calls and unlocks are
  those of the full expressions evaluated one after another, with at most one not over, and the
  object is what the calls make of it in this order.\<close>

theorem monitor_serializable:
  assumes "monitor_run (monitor_start x) es s"
  shows "\<exists>bs cur. visible es = concat (map block bs) @ open_block cur \<and>
    mo_object (my_monitor s) = fold (\<lambda>f. f) (calls_of cur) (serial_result bs x)"
  using serial_run [OF assms refl] by (auto simp: serial_def)

text \<open>Two threads; the second has to wait with its \<^verbatim>\<open>m->dec()\<close> until the first is through with its
  \<^verbatim>\<open>m->inc(m->get())\<close>, for which it holds the mutex twice.\<close>

theorem monitor_serializable_witness:
  "\<exists>es s. monitor_run (monitor_start (1 :: int)) es s \<and>
    visible es = [(True, Enter), (True, Called (\<lambda>n. n + 1)), (True, Leave), (False, Enter), (False, Called (\<lambda>n. n - 3))] \<and>
    (\<exists>bs cur. visible es = concat (map block bs) @ open_block cur \<and>
      mo_object (my_monitor s) = fold (\<lambda>f. f) (calls_of cur) (serial_result bs 1))"
proof -
  let ?s0 = "monitor_start (1 :: int) :: (bool, int) monitor_system"
  let ?m = "\<lambda>who d. \<lparr>mx_type = RecursiveLock, mx_owner = who, mx_depth = d\<rparr>"
  let ?st = "\<lambda>who d v ct cf lt lf. \<lparr>my_monitor = \<lparr>mo_mutex = ?m who d, mo_object = v\<rparr>, my_code = case_bool ct cf, my_locks = case_bool lt lf\<rparr>"
  let ?l = "\<lparr>ms_locked = True\<rparr>"
  let ?inc = "\<lambda>n :: int. n + 1" and ?dec = "\<lambda>n :: int. n - 3"
  have upd: "(case_bool x y)(True := z) = case_bool z y" "(case_bool x y)(False := z) = case_bool x z" for x y z :: 'z
    by (auto simp: fun_eq_iff split: bool.splits)
  note ev = upd monitor_arrow_def mutex_scope_new_def mutex_lock_def monitor_lock_destroy_def mutex_scope_destroy_def
    mutex_scope_unlock_def mutex_unlock_def monitor_lock_call_def numeral_2_eq_2
  note st = monitor_run.step [OF _ monitor_step.begin_expression] monitor_run.step [OF _ monitor_step.arrow]
    monitor_run.step [OF _ monitor_step.call] monitor_run.step [OF _ monitor_step.end_expression]
  have "?s0 = ?st None 0 1 [] [] [] []"
    by (auto simp: monitor_start_def monitor_new_def mutex_new_def fun_eq_iff split: bool.splits)
  then have "monitor_run ?s0 [] (?st None 0 1 [] [] [] [])" using monitor_run.none [of ?s0] by simp
  from st(1) [OF this, of True "[Arrow, Call ?inc]"]
  have "monitor_run ?s0 [(True, Quiet)] (?st None 0 1 [Arrow, Arrow, Call ?inc] [] [] [])" by (simp add: ev)
  from st(1) [OF this, of False "[Call ?dec]"]
  have "monitor_run ?s0 [(True, Quiet), (False, Quiet)] (?st None 0 1 [Arrow, Arrow, Call ?inc] [Arrow, Call ?dec] [] [])"
    by (simp add: ev)
  from st(2) [OF this, of True]
  have "monitor_run ?s0 [(True, Quiet), (False, Quiet), (True, Enter)]
      (?st (Some True) 1 1 [Arrow, Call ?inc] [Arrow, Call ?dec] [?l] [])"
    by (simp add: ev)
  from st(2) [OF this, of True]
  have "monitor_run ?s0 [(True, Quiet), (False, Quiet), (True, Enter), (True, Quiet)]
      (?st (Some True) 2 1 [Call ?inc] [Arrow, Call ?dec] [?l, ?l] [])"
    by (simp add: ev)
  from st(3) [OF this, of True]
  have "monitor_run ?s0 [(True, Quiet), (False, Quiet), (True, Enter), (True, Quiet), (True, Called ?inc)]
      (?st (Some True) 2 2 [] [Arrow, Call ?dec] [?l, ?l] [])"
    by (simp add: ev)
  from st(4) [OF this, of True]
  have "monitor_run ?s0 [(True, Quiet), (False, Quiet), (True, Enter), (True, Quiet), (True, Called ?inc), (True, Quiet)]
      (?st (Some True) 1 2 [] [Arrow, Call ?dec] [?l] [])"
    by (simp add: ev)
  from st(4) [OF this, of True]
  have "monitor_run ?s0 [(True, Quiet), (False, Quiet), (True, Enter), (True, Quiet), (True, Called ?inc), (True, Quiet), (True, Leave)]
      (?st None 0 2 [] [Arrow, Call ?dec] [] [])"
    by (simp add: ev)
  from st(2) [OF this, of False]
  have "monitor_run ?s0 [(True, Quiet), (False, Quiet), (True, Enter), (True, Quiet), (True, Called ?inc), (True, Quiet), (True, Leave),
      (False, Enter)] (?st (Some False) 1 2 [] [Call ?dec] [] [?l])"
    by (simp add: ev)
  from st(3) [OF this, of False]
  have r: "monitor_run ?s0 [(True, Quiet), (False, Quiet), (True, Enter), (True, Quiet), (True, Called ?inc), (True, Quiet), (True, Leave),
      (False, Enter), (False, Called ?dec)] (?st (Some False) 1 (- 1) [] [] [] [?l])"
    by (simp add: ev)
  note c = conjI [OF r conjI [OF _ monitor_serializable [OF r]]]
  show ?thesis by (rule exI, rule exI, rule c) (simp add: visible_def)
qed

text \<open>As long as some thread is inside an expression, a thread that is inside one can go on.\<close>

lemma monitor_progress:
  assumes inv: "monitor_inv who s" and busy: "my_code s t0 \<noteq> [] \<or> my_locks s t0 \<noteq> []"
  shows "\<exists>t e s'. (my_code s t \<noteq> [] \<or> my_locks s t \<noteq> []) \<and> monitor_step s t e s'"
proof -
  note i = inv [unfolded monitor_inv_def Let_def]
  define t where "t = (case who of None \<Rightarrow> t0 | Some u \<Rightarrow> u)"
  have who: "who = None \<or> who = Some t" by (auto simp: t_def split: option.splits)
  have b: "my_code s t \<noteq> [] \<or> my_locks s t \<noteq> []"
    using i busy by (auto simp: t_def split: option.splits)
  have "\<exists>e s'. monitor_step s t e s'"
  proof (cases "my_code s t")
    case Nil
    then obtain l ls where l: "my_locks s t = l # ls" using b by (cases "my_locks s t") auto
    have "\<exists>mo. monitor_lock_destroy t l (my_monitor s) = Inr mo"
      using i l who by (auto simp: monitor_lock_destroy_def mutex_scope_destroy_def mutex_scope_unlock_def mutex_unlock_def)
    then show ?thesis using monitor_step.end_expression [OF Nil l] by blast
  next
    case (Cons a as)
    show ?thesis
    proof (cases a)
      case Arrow
      obtain l mo where "monitor_arrow t (my_monitor s) = Some (l, mo)"
        using i who by (auto simp: monitor_arrow_def mutex_scope_new_def mutex_lock_def split: option.splits)
      from monitor_step.arrow [OF Cons [unfolded Arrow] this] show ?thesis by blast
    next
      case (Call f)
      from monitor_step.call [OF Cons [unfolded Call]] show ?thesis by blast
    qed
  qed
  then show ?thesis using b by blast
qed

end
