(* ===== verification/Task_Queue.thy ===== *)
theory Task_Queue
  imports Locks Collections "HOL-Library.Multiset"
begin

text \<open>
  The task queue: worker threads that take tasks from a shared queue under a condition lock
  (\<^verbatim>\<open>include/bricks/threading/taskqueue.h\<close>, \<^verbatim>\<open>source/threading/taskqueue.cpp\<close>,
  \<^verbatim>\<open>task.h\<close>, \<^verbatim>\<open>task.cpp\<close>).  One client thread pushes tasks, starts and stops
  the queue; the workers and the client interleave.  A step is what one thread does between two
  points where another can interfere: the lock is taken, given up, waited on, or a task is run.
  A task is a number.
\<close>

section \<open>State\<close>

definition cond_waiting :: int where "cond_waiting = 0"
definition cond_ready :: int where "cond_ready = 1"
definition cond_cancel :: int where "cond_cancel = 2"

datatype actor = Client | Worker nat

text \<open>Where a worker stands in its loop.  \<open>Joined\<close> is a thread that was joined, whose
  \<^verbatim>\<open>Thread\<close> object has no handle any more; \<open>Unstarted\<close> is a thread the system did not
  create.\<close>

datatype worker_pc =
    Acquire
  | Check
  | Sleeping
  | Test
  | Taken nat
  | Signalled nat
  | Running nat
  | Ended
  | Joined
  | Unstarted

text \<open>Where the client stands: in \<^verbatim>\<open>PushTask\<close>, \<^verbatim>\<open>Start\<close> or \<^verbatim>\<open>Stop\<close>.\<close>

datatype client_pc =
    Idle
  | Pushing nat
  | Pushed
  | Starting int
  | Spawning int
  | Stopping bool
  | Stopped_Locked bool
  | Joining nat
  | Client_Threw

record task_queue =
  tq_thread_count :: int
  tq_queue :: "nat deque"
  tq_lock :: "actor condition_lock"
  tq_workers :: "worker_pc list"
  tq_client :: client_pc

definition task_queue_new :: "nat comparison \<Rightarrow> int \<Rightarrow> task_queue" where
  "task_queue_new cmp n =
     \<lparr>tq_thread_count = n, tq_queue = deque_new cmp, tq_lock = condition_lock_new cond_waiting,
      tq_workers = [], tq_client = Idle\<rparr>"

definition condition_status :: "nat deque \<Rightarrow> int" where
  "condition_status q = (if deque_get_count q \<noteq> 0 then cond_ready else cond_cancel)"

definition thread_count :: "int \<Rightarrow> int \<Rightarrow> int" where
  "thread_count n hardware = (if n \<noteq> 0 then n else if hardware \<noteq> 0 then hardware else 2)"

section \<open>Steps\<close>

datatype event = Silent | Push nat | Start | Take nat nat | Done nat nat | Returned

abbreviation set_pc :: "nat \<Rightarrow> worker_pc \<Rightarrow> task_queue \<Rightarrow> task_queue" where
  "set_pc i pc s \<equiv> s\<lparr>tq_workers := (tq_workers s)[i := pc]\<rparr>"

abbreviation pc_is :: "task_queue \<Rightarrow> nat \<Rightarrow> worker_pc \<Rightarrow> bool" where
  "pc_is s i pc \<equiv> i < length (tq_workers s) \<and> tq_workers s ! i = pc"

text \<open>A worker: the body of \<^verbatim>\<open>TaskQueueThread\<close>.  The scoped lock is unlocked at the end of
  every turn of the loop.\<close>

inductive worker_step :: "nat \<Rightarrow> task_queue \<Rightarrow> event \<Rightarrow> task_queue \<Rightarrow> bool" where
  acquire: "pc_is s i Acquire \<Longrightarrow> mutex_lock (Worker i) (tq_lock s) = Some l \<Longrightarrow>
     worker_step i s Silent (set_pc i Check (s\<lparr>tq_lock := l\<rparr>))"
| sleep: "pc_is s i Check \<Longrightarrow> cl_condition (tq_lock s) = cond_waiting \<Longrightarrow>
     condition_wait (Worker i) (tq_lock s) = Inr l \<Longrightarrow>
     worker_step i s Silent (set_pc i Sleeping (s\<lparr>tq_lock := l\<rparr>))"
| resume: "pc_is s i Sleeping \<Longrightarrow> condition_resume (Worker i) (tq_lock s) = Some l \<Longrightarrow>
     worker_step i s Silent (set_pc i Check (s\<lparr>tq_lock := l\<rparr>))"
| spurious: "pc_is s i Sleeping \<Longrightarrow> Worker i \<in> cn_waiting (tq_lock s) \<Longrightarrow>
     worker_step i s Silent (s\<lparr>tq_lock := (tq_lock s)\<lparr>cn_waiting := cn_waiting (tq_lock s) - {Worker i}\<rparr>\<rparr>)"
| go: "pc_is s i Check \<Longrightarrow> cl_condition (tq_lock s) \<noteq> cond_waiting \<Longrightarrow>
     worker_step i s Silent (set_pc i Test s)"
| take: "pc_is s i Test \<Longrightarrow> deque_get_count (tq_queue s) \<noteq> 0 \<Longrightarrow> deque_pop_item (tq_queue s) = Inr (t, q) \<Longrightarrow>
     worker_step i s (Take i t) (set_pc i (Taken t) (s\<lparr>tq_queue := q\<rparr>))"
| signal: "pc_is s i (Taken t) \<Longrightarrow>
     condition_lock_signal (condition_status (tq_queue s)) S (tq_lock s) = Some l \<Longrightarrow>
     worker_step i s Silent (set_pc i (Signalled t) (s\<lparr>tq_lock := l\<rparr>))"
| unlock: "pc_is s i (Signalled t) \<Longrightarrow> mutex_unlock (Worker i) (tq_lock s) = Inr l \<Longrightarrow>
     worker_step i s Silent (set_pc i (Running t) (s\<lparr>tq_lock := l\<rparr>))"
| run: "pc_is s i (Running t) \<Longrightarrow> worker_step i s (Done i t) (set_pc i Acquire s)"
| leave: "pc_is s i Test \<Longrightarrow> deque_get_count (tq_queue s) = 0 \<Longrightarrow> cl_condition (tq_lock s) = cond_cancel \<Longrightarrow>
     mutex_unlock (Worker i) (tq_lock s) = Inr l \<Longrightarrow>
     worker_step i s Silent (set_pc i Ended (s\<lparr>tq_lock := l\<rparr>))"
| again: "pc_is s i Test \<Longrightarrow> deque_get_count (tq_queue s) = 0 \<Longrightarrow> cl_condition (tq_lock s) \<noteq> cond_cancel \<Longrightarrow>
     mutex_unlock (Worker i) (tq_lock s) = Inr l \<Longrightarrow>
     worker_step i s Silent (set_pc i Acquire (s\<lparr>tq_lock := l\<rparr>))"

text \<open>The client.  \<^verbatim>\<open>Start\<close> reads the queue and writes the condition without the lock; the
  hardware's thread count is an argument of the relation.  \<^verbatim>\<open>Stop\<close> that waits joins the
  threads in order: a thread that has set its status to stopped is left as it is, one that has
  not is joined and its handle removed; waiting for a thread without a handle throws.\<close>

inductive client_step :: "int \<Rightarrow> task_queue \<Rightarrow> event \<Rightarrow> task_queue \<Rightarrow> bool" where
  push_lock: "tq_client s = Idle \<Longrightarrow> mutex_lock Client (tq_lock s) = Some l \<Longrightarrow>
     client_step hw s Silent (s\<lparr>tq_lock := l, tq_client := Pushing t\<rparr>)"
| push: "tq_client s = Pushing t \<Longrightarrow> condition_lock_signal cond_ready S (tq_lock s) = Some l \<Longrightarrow>
     client_step hw s (Push t) (s\<lparr>tq_queue := queue_push (tq_queue s) t, tq_lock := l, tq_client := Pushed\<rparr>)"
| push_unlock: "tq_client s = Pushed \<Longrightarrow> mutex_unlock Client (tq_lock s) = Inr l \<Longrightarrow>
     client_step hw s Silent (s\<lparr>tq_lock := l, tq_client := Idle\<rparr>)"
| start: "tq_client s = Idle \<Longrightarrow>
     client_step hw s Start (s\<lparr>tq_client := Starting (condition_status (tq_queue s))\<rparr>)"
| start_set: "tq_client s = Starting v \<Longrightarrow>
     client_step hw s Silent (s\<lparr>tq_lock := set_condition v (tq_lock s),
       tq_thread_count := thread_count (tq_thread_count s) hw, tq_client := Spawning 0\<rparr>)"
| spawn: "tq_client s = Spawning k \<Longrightarrow> k < tq_thread_count s \<Longrightarrow> pc = Acquire \<or> pc = Unstarted \<Longrightarrow>
     client_step hw s Silent (s\<lparr>tq_workers := tq_workers s @ [pc], tq_client := Spawning (k + 1)\<rparr>)"
| spawn_end: "tq_client s = Spawning k \<Longrightarrow> \<not> k < tq_thread_count s \<Longrightarrow>
     client_step hw s Returned (s\<lparr>tq_client := Idle\<rparr>)"
| stop_lock: "tq_client s = Idle \<Longrightarrow> mutex_lock Client (tq_lock s) = Some l \<Longrightarrow>
     client_step hw s Silent (s\<lparr>tq_lock := l, tq_client := Stopping wait\<rparr>)"
| stop_return: "tq_client s = Stopping wait \<Longrightarrow> cl_condition (tq_lock s) = cond_cancel \<Longrightarrow>
     mutex_unlock Client (tq_lock s) = Inr l \<Longrightarrow>
     client_step hw s Returned (s\<lparr>tq_lock := l, tq_client := Idle\<rparr>)"
| stop_signal: "tq_client s = Stopping wait \<Longrightarrow> cl_condition (tq_lock s) \<noteq> cond_cancel \<Longrightarrow>
     condition_lock_signal cond_cancel S (tq_lock s) = Some l \<Longrightarrow>
     client_step hw s Silent (s\<lparr>tq_lock := l, tq_client := Stopped_Locked wait\<rparr>)"
| stop_unlock: "tq_client s = Stopped_Locked wait \<Longrightarrow> mutex_unlock Client (tq_lock s) = Inr l \<Longrightarrow>
     client_step hw s Silent (s\<lparr>tq_lock := l, tq_client := (if wait then Joining 0 else Idle)\<rparr>)"
| join: "tq_client s = Joining i \<Longrightarrow> pc_is s i Ended \<Longrightarrow> pc = Ended \<or> pc = Joined \<Longrightarrow>
     client_step hw s Silent (set_pc i pc (s\<lparr>tq_client := Joining (Suc i)\<rparr>))"
| join_throw: "tq_client s = Joining i \<Longrightarrow> pc_is s i Unstarted \<or> pc_is s i Joined \<Longrightarrow>
     client_step hw s Returned (s\<lparr>tq_client := Client_Threw\<rparr>)"
| join_end: "tq_client s = Joining i \<Longrightarrow> i = length (tq_workers s) \<Longrightarrow>
     client_step hw s Returned (s\<lparr>tq_client := Idle\<rparr>)"

text \<open>Runs with the events of their steps, the newest last.\<close>

inductive tq_run :: "int \<Rightarrow> task_queue \<Rightarrow> event list \<Rightarrow> task_queue \<Rightarrow> bool" where
  none: "tq_run hw s [] s"
| worker: "tq_run hw s es s' \<Longrightarrow> worker_step i s' e s'' \<Longrightarrow> tq_run hw s (es @ [e]) s''"
| client: "tq_run hw s es s' \<Longrightarrow> client_step hw s' e s'' \<Longrightarrow> tq_run hw s (es @ [e]) s''"

definition tasks_pushed :: "event list \<Rightarrow> nat list" where
  "tasks_pushed es = concat (map (\<lambda>e. case e of Push t \<Rightarrow> [t] | _ \<Rightarrow> []) es)"

definition tasks_taken :: "event list \<Rightarrow> nat list" where
  "tasks_taken es = concat (map (\<lambda>e. case e of Take i t \<Rightarrow> [t] | _ \<Rightarrow> []) es)"

definition tasks_done :: "event list \<Rightarrow> nat list" where
  "tasks_done es = concat (map (\<lambda>e. case e of Done i t \<Rightarrow> [t] | _ \<Rightarrow> []) es)"

section \<open>Mutual exclusion\<close>

fun worker_holds :: "worker_pc \<Rightarrow> bool" where
  "worker_holds Check = True"
| "worker_holds Test = True"
| "worker_holds (Taken t) = True"
| "worker_holds (Signalled t) = True"
| "worker_holds _ = False"

fun client_holds :: "client_pc \<Rightarrow> bool" where
  "client_holds (Pushing t) = True"
| "client_holds Pushed = True"
| "client_holds (Stopping b) = True"
| "client_holds (Stopped_Locked b) = True"
| "client_holds _ = False"

fun holds :: "task_queue \<Rightarrow> actor \<Rightarrow> bool" where
  "holds s Client = client_holds (tq_client s)"
| "holds s (Worker i) \<longleftrightarrow> i < length (tq_workers s) \<and> worker_holds (tq_workers s ! i)"

definition lock_inv :: "task_queue \<Rightarrow> bool" where
  "lock_inv s \<longleftrightarrow> mx_type (tq_lock s) = NormalLock \<and> mutex_ok (tq_lock s) \<and>
     (\<forall>a. mx_owner (tq_lock s) = Some a \<longleftrightarrow> holds s a)"

text \<open>What the operations of the lock do to its owner.\<close>

lemma mutex_lock_normal:
  "mx_type m = NormalLock \<Longrightarrow>
   mutex_lock a m = Some l \<longleftrightarrow> mx_owner m = None \<and> l = m\<lparr>mx_owner := Some a, mx_depth := 1\<rparr>"
  by (auto simp: mutex_lock_def split: option.splits)

lemma mutex_unlock_normal:
  "mx_type m = NormalLock \<Longrightarrow> mutex_ok m \<Longrightarrow>
   mutex_unlock a m = Inr l \<longleftrightarrow> mx_owner m = Some a \<and> l = m\<lparr>mx_owner := None, mx_depth := 0\<rparr>"
  by (auto simp: mutex_unlock_def mutex_ok_def)

lemma condition_lock_signal_Some:
  "condition_lock_signal v S c = Some l \<longleftrightarrow> S \<subseteq> cn_waiting c \<and> (S = {} \<longrightarrow> cn_waiting c = {}) \<and>
     l = c\<lparr>cl_condition := v, cn_waiting := cn_waiting c - S\<rparr>"
  by (auto simp: condition_lock_signal_def condition_signal_def set_condition_def)

lemmas lock_ops = mutex_lock_normal mutex_unlock_normal condition_lock_signal_Some condition_wait_def
  condition_resume_def bind_r_Inr_iff set_condition_def

lemma holds_set_pc:
  "i < length (tq_workers s) \<Longrightarrow> holds (set_pc i pc s) a = (if a = Worker i then worker_holds pc else holds s a)"
  by (cases a) auto

lemma holds_update [simp]:
  "holds (s\<lparr>tq_lock := l\<rparr>) a = holds s a" "holds (s\<lparr>tq_queue := q\<rparr>) a = holds s a"
  "holds (s\<lparr>tq_thread_count := n\<rparr>) a = holds s a"
  by (cases a; simp)+

lemma holds_client:
  "holds (s\<lparr>tq_client := c\<rparr>) a = (if a = Client then client_holds c else holds s a)"
  by (cases a) auto

lemma lock_inv_acquired:
  assumes "lock_inv s" and "mutex_lock (Worker i) (tq_lock s) = Some l" and "i < length (tq_workers s)" and "worker_holds pc"
  shows "lock_inv (set_pc i pc (s\<lparr>tq_lock := l\<rparr>))"
  using assms holds_set_pc [of i "s\<lparr>tq_lock := l\<rparr>" pc]
  by (auto simp: lock_inv_def mutex_lock_normal mutex_ok_def)

lemma lock_inv_owner:
  assumes "lock_inv s" and "mx_owner (tq_lock s) = Some b"
  shows "holds s a \<longleftrightarrow> a = b"
  using assms by (auto simp: lock_inv_def)

lemma lock_inv_released:
  assumes "lock_inv s" and "mutex_unlock (Worker i) (tq_lock s) = Inr l" and "i < length (tq_workers s)"
    and "\<not> worker_holds pc"
  shows "lock_inv (set_pc i pc (s\<lparr>tq_lock := l\<rparr>))"
proof -
  have l: "mx_owner (tq_lock s) = Some (Worker i)" "l = (tq_lock s)\<lparr>mx_owner := None, mx_depth := 0\<rparr>"
    using assms(1,2) by (auto simp: lock_inv_def mutex_unlock_normal)
  have "\<not> holds (set_pc i pc (s\<lparr>tq_lock := l\<rparr>)) a" for a
    using assms(3,4) lock_inv_owner [OF assms(1) l(1)] holds_set_pc [of i "s\<lparr>tq_lock := l\<rparr>" pc a] by simp
  then show ?thesis using assms(1) l(2) by (simp add: lock_inv_def mutex_ok_def)
qed

lemma set_pc_lock: "(set_pc i pc s)\<lparr>tq_lock := l\<rparr> = set_pc i pc (s\<lparr>tq_lock := l\<rparr>)"
  by simp

lemma lock_inv_pc:
  assumes "lock_inv s" and "i < length (tq_workers s)" and "worker_holds pc = worker_holds (tq_workers s ! i)"
  shows "lock_inv (set_pc i pc s)"
proof -
  have "holds (set_pc i pc s) a = holds s a" for a
    using assms(2,3) by (simp add: holds_set_pc)
  then show ?thesis using assms(1) by (simp add: lock_inv_def)
qed

lemma lock_inv_lock:
  assumes "lock_inv s" and "mx_type l = mx_type (tq_lock s)" and "mx_owner l = mx_owner (tq_lock s)"
    and "mx_depth l = mx_depth (tq_lock s)"
  shows "lock_inv (s\<lparr>tq_lock := l\<rparr>)"
  using assms by (simp add: lock_inv_def mutex_ok_def)

lemma lock_inv_queue [simp]: "lock_inv (s\<lparr>tq_queue := q\<rparr>) = lock_inv s" "lock_inv (s\<lparr>tq_thread_count := n\<rparr>) = lock_inv s"
  by (simp_all add: lock_inv_def)

lemma lock_inv_client:
  assumes "lock_inv s" and "client_holds c = client_holds (tq_client s)"
  shows "lock_inv (s\<lparr>tq_client := c\<rparr>)"
proof -
  have "holds (s\<lparr>tq_client := c\<rparr>) a = holds s a" for a
    using assms(2) by (simp add: holds_client)
  then show ?thesis using assms(1) by (simp add: lock_inv_def)
qed

lemma lock_inv_client_acquired:
  assumes "lock_inv s" and "mutex_lock Client (tq_lock s) = Some l" and "client_holds c"
  shows "lock_inv (s\<lparr>tq_lock := l, tq_client := c\<rparr>)"
  using assms holds_client [of c "s\<lparr>tq_lock := l\<rparr>"]
  by (auto simp: lock_inv_def mutex_lock_normal mutex_ok_def)

lemma lock_inv_client_released:
  assumes "lock_inv s" and "mutex_unlock Client (tq_lock s) = Inr l" and "\<not> client_holds c"
  shows "lock_inv (s\<lparr>tq_lock := l, tq_client := c\<rparr>)"
proof -
  have l: "mx_owner (tq_lock s) = Some Client" "l = (tq_lock s)\<lparr>mx_owner := None, mx_depth := 0\<rparr>"
    using assms(1,2) by (auto simp: lock_inv_def mutex_unlock_normal)
  have "\<not> holds (s\<lparr>tq_lock := l, tq_client := c\<rparr>) a" for a
    using assms(3) lock_inv_owner [OF assms(1) l(1)] holds_client [of c "s\<lparr>tq_lock := l\<rparr>" a] by simp
  then show ?thesis using assms(1) l(2) by (simp add: lock_inv_def mutex_ok_def)
qed

lemma condition_wait_unlocks:
  "condition_wait a c = Inr l \<longleftrightarrow>
   (\<exists>l'. mutex_unlock a c = Inr l' \<and> l = l'\<lparr>cn_waiting := insert a (cn_waiting l')\<rparr>)"
  by (auto simp: condition_wait_def bind_r_Inr_iff)

lemma worker_step_lock_inv: "worker_step i s e s' \<Longrightarrow> lock_inv s \<Longrightarrow> lock_inv s'"
proof (induction rule: worker_step.induct)
  case (sleep s i l)
  then obtain l' where l: "mutex_unlock (Worker i) (tq_lock s) = Inr l'" "l = l'\<lparr>cn_waiting := insert (Worker i) (cn_waiting l')\<rparr>"
    by (auto simp: condition_wait_unlocks)
  have "lock_inv (set_pc i Sleeping (s\<lparr>tq_lock := l'\<rparr>))"
    using lock_inv_released [OF sleep.prems l(1), of Sleeping] sleep.hyps(1) by simp
  from lock_inv_lock [OF this, of l] show ?case unfolding set_pc_lock by (simp add: l(2))
next
  case (take s i t q)
  then show ?case using lock_inv_pc [of "s\<lparr>tq_queue := q\<rparr>" i "Taken t"] by simp
next
  case (signal s i t S l)
  then show ?case using lock_inv_pc [of "s\<lparr>tq_lock := l\<rparr>" i "Signalled t"] lock_inv_lock [of s l]
    by (simp add: condition_lock_signal_Some)
qed (auto simp: condition_resume_def intro: lock_inv_acquired [simplified] lock_inv_released [simplified] lock_inv_pc lock_inv_lock
    split: if_splits)

lemma client_step_lock_inv: "client_step hw s e s' \<Longrightarrow> lock_inv s \<Longrightarrow> lock_inv s'"
proof (induction rule: client_step.induct)
  case (push s t S l hw)
  then show ?case
    using lock_inv_client [of "s\<lparr>tq_queue := queue_push (tq_queue s) t, tq_lock := l\<rparr>" Pushed]
      lock_inv_lock [of "s\<lparr>tq_queue := queue_push (tq_queue s) t\<rparr>" l]
    by (simp add: condition_lock_signal_Some)
next
  case (start_set s v hw)
  then show ?case
    using lock_inv_client [of "s\<lparr>tq_lock := set_condition v (tq_lock s), tq_thread_count := thread_count (tq_thread_count s) hw\<rparr>" "Spawning 0"]
      lock_inv_lock [of s "set_condition v (tq_lock s)"]
    by (simp add: set_condition_def)
next
  case (spawn s k pc hw)
  have "holds (s\<lparr>tq_workers := tq_workers s @ [pc], tq_client := Spawning (k + 1)\<rparr>) a = holds s a" for a
    using spawn.hyps by (cases a) (auto simp: nth_append less_Suc_eq)
  then show ?case using spawn.prems by (simp add: lock_inv_def)
next
  case (stop_signal s wait S l hw)
  then show ?case
    using lock_inv_client [of "s\<lparr>tq_lock := l\<rparr>" "Stopped_Locked wait"] lock_inv_lock [of s l]
    by (simp add: condition_lock_signal_Some)
next
  case (join s i pc hw)
  then show ?case
    using lock_inv_pc [OF lock_inv_client [OF join.prems, of "Joining (Suc i)"], of i pc] by auto
qed (auto intro: lock_inv_client lock_inv_client_acquired lock_inv_client_released)

lemma holds_new: "\<not> holds (task_queue_new cmp n) a"
  by (cases a) (simp_all add: task_queue_new_def)

lemma lock_inv_new: "lock_inv (task_queue_new cmp n)"
  using holds_new [of cmp n] by (simp add: lock_inv_def task_queue_new_def condition_lock_new_def mutex_ok_def)

lemma tq_run_lock_inv: "tq_run hw s es s' \<Longrightarrow> lock_inv s \<Longrightarrow> lock_inv s'"
  by (induction rule: tq_run.induct) (auto intro: worker_step_lock_inv client_step_lock_inv)

section \<open>Tasks\<close>

fun in_hand :: "worker_pc \<Rightarrow> nat list" where
  "in_hand (Taken t) = [t]"
| "in_hand (Signalled t) = [t]"
| "in_hand (Running t) = [t]"
| "in_hand _ = []"

definition tasks_in_hand :: "task_queue \<Rightarrow> nat multiset" where
  "tasks_in_hand s = mset (concat (map in_hand (tq_workers s)))"

lemma mset_concat_update:
  "i < length xs \<Longrightarrow> mset (concat (map f (xs[i := y]))) + mset (f (xs ! i)) = mset (concat (map f xs)) + mset (f y)"
  by (induction xs arbitrary: i) (auto split: nat.split)

lemma in_hand_set_pc:
  assumes "pc_is s i pc"
  shows "tasks_in_hand (set_pc i pc' s) + mset (in_hand pc) = tasks_in_hand s + mset (in_hand pc')"
  using mset_concat_update [of i "tq_workers s" in_hand pc'] assms by (simp add: tasks_in_hand_def)

lemma in_hand_update [simp]:
  "tasks_in_hand (s\<lparr>tq_lock := l\<rparr>) = tasks_in_hand s" "tasks_in_hand (s\<lparr>tq_queue := q\<rparr>) = tasks_in_hand s"
  "tasks_in_hand (s\<lparr>tq_client := c\<rparr>) = tasks_in_hand s" "tasks_in_hand (s\<lparr>tq_thread_count := n\<rparr>) = tasks_in_hand s"
  by (simp_all add: tasks_in_hand_def)

lemma events_append [simp]:
  "tasks_pushed [] = []" "tasks_taken [] = []" "tasks_done [] = []"
  "tasks_pushed (es @ [e]) = tasks_pushed es @ (case e of Push t \<Rightarrow> [t] | _ \<Rightarrow> [])"
  "tasks_taken (es @ [e]) = tasks_taken es @ (case e of Take i t \<Rightarrow> [t] | _ \<Rightarrow> [])"
  "tasks_done (es @ [e]) = tasks_done es @ (case e of Done i t \<Rightarrow> [t] | _ \<Rightarrow> [])"
  by (simp_all add: tasks_pushed_def tasks_taken_def tasks_done_def)

definition accounted :: "event list \<Rightarrow> task_queue \<Rightarrow> bool" where
  "accounted es s \<longleftrightarrow> tasks_pushed es = tasks_taken es @ dq_queue (tq_queue s) \<and>
     mset (tasks_taken es) = mset (tasks_done es) + tasks_in_hand s"

lemma worker_step_accounted: "worker_step i s e s' \<Longrightarrow> accounted es s \<Longrightarrow> accounted (es @ [e]) s'"
proof (induction rule: worker_step.induct)
  case (take s i t q)
  then show ?case
    using in_hand_set_pc [of i "s\<lparr>tq_queue := q\<rparr>" Test "Taken t"]
    by (auto simp: accounted_def deque_pop_item_def deque_get_count_def split: if_splits list.splits)
next
  case (signal s i t S l)
  then show ?case using in_hand_set_pc [of i "s\<lparr>tq_lock := l\<rparr>" "Taken t" "Signalled t"] by (simp add: accounted_def)
next
  case (unlock s i t l)
  then show ?case using in_hand_set_pc [of i "s\<lparr>tq_lock := l\<rparr>" "Signalled t" "Running t"] by (simp add: accounted_def)
next
  case (run s i t)
  then show ?case using in_hand_set_pc [of i s "Running t" "Acquire"] by (simp add: accounted_def)
next
  case (acquire s i l)
  then show ?case using in_hand_set_pc [of i "s\<lparr>tq_lock := l\<rparr>" Acquire Check] by (simp add: accounted_def)
next
  case (sleep s i l)
  then show ?case using in_hand_set_pc [of i "s\<lparr>tq_lock := l\<rparr>" Check Sleeping] by (simp add: accounted_def)
next
  case (resume s i l)
  then show ?case using in_hand_set_pc [of i "s\<lparr>tq_lock := l\<rparr>" Sleeping Check] by (simp add: accounted_def)
next
  case (go s i)
  then show ?case using in_hand_set_pc [of i s Check Test] by (simp add: accounted_def)
next
  case (leave s i l)
  then show ?case using in_hand_set_pc [of i "s\<lparr>tq_lock := l\<rparr>" Test Ended] by (simp add: accounted_def)
next
  case (again s i l)
  then show ?case using in_hand_set_pc [of i "s\<lparr>tq_lock := l\<rparr>" Test Acquire] by (simp add: accounted_def)
qed (simp add: accounted_def)

lemma client_step_accounted: "client_step hw s e s' \<Longrightarrow> accounted es s \<Longrightarrow> accounted (es @ [e]) s'"
proof (induction rule: client_step.induct)
  case (push s t S l hw)
  then show ?case by (simp add: accounted_def queue_push_def)
next
  case (spawn s k pc hw)
  then show ?case by (auto simp: accounted_def tasks_in_hand_def)
next
  case (join s i pc hw)
  then have "in_hand pc = []" by auto
  then show ?case using in_hand_set_pc [of i "s\<lparr>tq_client := Joining (Suc i)\<rparr>" Ended pc] join by (simp add: accounted_def)
qed (simp_all add: accounted_def)

lemma tq_run_accounted: "tq_run hw (task_queue_new cmp n) es s \<Longrightarrow> accounted es s"
proof (induction hw "task_queue_new cmp n" es s rule: tq_run.induct)
  case none
  then show ?case by (simp add: accounted_def task_queue_new_def deque_new_def tasks_in_hand_def)
qed (auto intro: worker_step_accounted client_step_accounted)


text \<open>C23: The lock of the task queue excludes: in every state that a run reaches, at most one of
  the client and the workers is between its acquisition of the lock and its release, and the
  lock is free when none is.\<close>

theorem task_queue_mutual_exclusion:
  assumes "tq_run hw (task_queue_new cmp n) es s"
  shows "(\<forall>a. mx_owner (tq_lock s) = Some a \<longleftrightarrow> holds s a) \<and> (\<forall>a b. holds s a \<and> holds s b \<longrightarrow> a = b)"
proof -
  have "lock_inv s" by (rule tq_run_lock_inv [OF assms lock_inv_new])
  then have "mx_owner (tq_lock s) = Some a \<longleftrightarrow> holds s a" for a by (simp add: lock_inv_def)
  then show ?thesis by (metis option.inject)
qed

section \<open>Progress\<close>

text \<open>After one start no worker ever waits on the condition, and a condition of ready means that a
  task is there, or that a worker has just taken the last one and not yet said so.\<close>

definition cond_known :: "int \<Rightarrow> bool" where
  "cond_known v \<longleftrightarrow> v = cond_waiting \<or> v = cond_ready \<or> v = cond_cancel"

fun client_starts :: "client_pc \<Rightarrow> bool" where
  "client_starts (Starting v) = True"
| "client_starts (Spawning k) = True"
| "client_starts _ = False"

definition started_inv :: "nat \<Rightarrow> task_queue \<Rightarrow> bool" where
  "started_inv starts s \<longleftrightarrow>
     cond_known (cl_condition (tq_lock s)) \<and>
     Sleeping \<notin> set (tq_workers s) \<and>
     (starts = 0 \<longrightarrow> tq_workers s = [] \<and> \<not> client_starts (tq_client s)) \<and>
     (\<forall>v. tq_client s = Starting v \<longrightarrow> tq_workers s = [] \<and> v = condition_status (tq_queue s)) \<and>
     (tq_workers s \<noteq> [] \<or> (\<exists>k. tq_client s = Spawning k) \<longrightarrow> cl_condition (tq_lock s) \<noteq> cond_waiting) \<and>
     (cl_condition (tq_lock s) = cond_ready \<longrightarrow>
        dq_queue (tq_queue s) \<noteq> [] \<or> (\<exists>t. Taken t \<in> set (tq_workers s)))"

lemmas cond_defs = cond_waiting_def cond_ready_def cond_cancel_def

lemma condition_status_known:
  "cond_known (condition_status q)" "condition_status q \<noteq> cond_waiting"
  "condition_status q = cond_ready \<longleftrightarrow> dq_queue q \<noteq> []"
  by (auto simp: condition_status_def cond_known_def cond_defs deque_get_count_def)

lemma set_update_other:
  assumes "i < length xs" and "xs ! i \<noteq> x" and "y \<noteq> x"
  shows "x \<in> set (xs[i := y]) \<longleftrightarrow> x \<in> set xs"
  using assms unfolding in_set_conv_nth by (metis length_list_update nth_list_update_eq nth_list_update_neq)

lemma started_inv_pc:
  assumes "started_inv n s" and "i < length (tq_workers s)" and "pc \<noteq> Sleeping"
    and "\<And>t. tq_workers s ! i \<noteq> Taken t" and "\<And>t. pc \<noteq> Taken t"
  shows "started_inv n (set_pc i pc s)"
proof -
  have s: "Sleeping \<notin> set ((tq_workers s)[i := pc])"
    using assms(1,3) set_update_subset_insert [of "tq_workers s" i pc] by (auto simp: started_inv_def)
  have "Taken t \<in> set ((tq_workers s)[i := pc]) \<longleftrightarrow> Taken t \<in> set (tq_workers s)" for t
    using assms(2,4,5) by (simp add: set_update_other)
  with s show ?thesis using assms(1) by (auto simp: started_inv_def)
qed

lemma started_inv_lock:
  assumes "started_inv n s" and "cl_condition l = cl_condition (tq_lock s)"
  shows "started_inv n (s\<lparr>tq_lock := l\<rparr>)"
  using assms by (simp add: started_inv_def)

lemma taken_owner:
  assumes "lock_inv s" and "holds s (Worker i)" and "Taken t \<in> set (tq_workers s)"
  shows "tq_workers s ! i = Taken t"
proof -
  obtain j where j: "j < length (tq_workers s)" "tq_workers s ! j = Taken t"
    using assms(3) by (auto simp: in_set_conv_nth)
  then have h: "holds s (Worker j)" by simp
  have o: "mx_owner (tq_lock s) = Some (Worker i)"
    using assms(1,2) unfolding lock_inv_def by blast
  have "Worker j = Worker i" using h unfolding lock_inv_owner [OF assms(1) o] .
  then show ?thesis using j(2) by simp
qed

lemma client_step_started:
  assumes "client_step hw s e s'" and "lock_inv s" and "started_inv n s" and "e = Start \<Longrightarrow> n = 0"
  shows "started_inv (if e = Start then Suc n else n) s'"
  using assms
proof (induction rule: client_step.induct)
  case (start_set s v hw)
  then show ?case using condition_status_known [of "tq_queue s"]
    by (auto simp: started_inv_def set_condition_def)
next
  case (push s t S l hw)
  then show ?case
    by (auto simp: started_inv_def condition_lock_signal_Some queue_push_def cond_known_def cond_defs)
next
  case (stop_signal s wait S l hw)
  then show ?case
    by (auto simp: started_inv_def condition_lock_signal_Some cond_known_def cond_defs)
next
  case (spawn s k pc hw)
  then show ?case by (auto simp: started_inv_def nth_append less_Suc_eq)
next
  case (join s i pc hw)
  then have "started_inv n (s\<lparr>tq_client := Joining (Suc i)\<rparr>)" by (auto simp: started_inv_def)
  from started_inv_pc [OF this, of i pc] show ?case using join by auto
qed (auto simp: started_inv_def lock_ops lock_inv_def)

lemma worker_step_started:
  assumes "worker_step i s e s'" and "lock_inv s" and "started_inv n s"
  shows "started_inv n s'"
  using assms
proof (induction rule: worker_step.induct)
  case (acquire s i l)
  then show ?case
    using started_inv_pc [OF started_inv_lock [OF acquire.prems(2), of l], of i Check]
    by (simp add: lock_inv_def lock_ops)
next
  case (sleep s i l)
  then show ?case by (auto simp: started_inv_def)
next
  case (resume s i l)
  then show ?case by (auto simp: started_inv_def in_set_conv_nth)
next
  case (spurious s i)
  then show ?case by (auto simp: started_inv_def in_set_conv_nth)
next
  case (go s i)
  then show ?case using started_inv_pc [OF go.prems(2), of i Test] by simp
next
  case (take s i t q)
  have "Taken t \<in> set ((tq_workers s)[i := Taken t])" using take.hyps(1) by (simp add: set_update_memI)
  moreover have "Sleeping \<notin> set ((tq_workers s)[i := Taken t])"
    using take.prems(2) set_update_subset_insert [of "tq_workers s" i "Taken t"] by (auto simp: started_inv_def)
  ultimately show ?case using take by (auto simp: started_inv_def)
next
  case (signal s i t S l)
  have "Sleeping \<notin> set ((tq_workers s)[i := Signalled t])"
    using signal.prems(2) set_update_subset_insert [of "tq_workers s" i "Signalled t"] by (auto simp: started_inv_def)
  then show ?case using signal condition_status_known [of "tq_queue s"]
    by (auto simp: started_inv_def condition_lock_signal_Some)
next
  case (unlock s i t l)
  then show ?case
    using started_inv_pc [OF started_inv_lock [OF unlock.prems(2), of l], of i "Running t"]
    by (simp add: lock_inv_def lock_ops)
next
  case (run s i t)
  then show ?case using started_inv_pc [OF run.prems(2), of i Acquire] by simp
next
  case (leave s i l)
  then show ?case
    using started_inv_pc [OF started_inv_lock [OF leave.prems(2), of l], of i Ended]
    by (simp add: lock_inv_def lock_ops)
next
  case (again s i l)
  then show ?case
    using started_inv_pc [OF started_inv_lock [OF again.prems(2), of l], of i Acquire]
    by (simp add: lock_inv_def lock_ops)
qed

lemma tq_run_started:
  assumes "tq_run hw (task_queue_new cmp n) es s" and "count_list es Start \<le> 1"
  shows "started_inv (count_list es Start) s"
  using assms
proof (induction hw "task_queue_new cmp n" es s rule: tq_run.induct)
  case none
  then show ?case
    by (simp add: started_inv_def task_queue_new_def condition_lock_new_def cond_known_def cond_defs)
next
  case (worker hw es s i e s')
  have "e \<noteq> Start" using worker.hyps(3) by cases auto
  then show ?case
    using worker worker_step_started [OF worker.hyps(3) tq_run_lock_inv [OF worker.hyps(1) lock_inv_new]] by simp
next
  case (client hw es s e s')
  then show ?case
    using client_step_started [OF client.hyps(3) tq_run_lock_inv [OF client.hyps(1) lock_inv_new], of "count_list es Start"]
    by auto
qed

text \<open>A run of the workers alone, with its length.\<close>

inductive workers_run :: "task_queue \<Rightarrow> nat \<Rightarrow> task_queue \<Rightarrow> bool" where
  stop: "workers_run s 0 s"
| step: "workers_run s k s' \<Longrightarrow> worker_step i s' e s'' \<Longrightarrow> workers_run s (Suc k) s''"

text \<open>An upper bound for the steps that are left.\<close>

fun pc_work :: "worker_pc \<Rightarrow> nat" where
  "pc_work Acquire = 3"
| "pc_work Check = 2"
| "pc_work Test = 1"
| "pc_work (Taken t) = 6"
| "pc_work (Signalled t) = 5"
| "pc_work (Running t) = 4"
| "pc_work _ = 0"

definition work :: "task_queue \<Rightarrow> nat" where
  "work s = 6 * length (dq_queue (tq_queue s)) + sum_list (map pc_work (tq_workers s))"

fun alive :: "worker_pc \<Rightarrow> bool" where
  "alive Ended = False"
| "alive Joined = False"
| "alive Unstarted = False"
| "alive pc = True"

definition some_alive :: "task_queue \<Rightarrow> bool" where
  "some_alive s \<longleftrightarrow> (\<exists>pc \<in> set (tq_workers s). alive pc)"

lemma sum_work_update:
  "i < length xs \<Longrightarrow> sum_list (map pc_work (xs[i := y])) + pc_work (xs ! i) = sum_list (map pc_work xs) + pc_work y"
  by (induction xs arbitrary: i) (auto split: nat.split)

lemma ready_test:
  assumes "started_inv n s" and "lock_inv s" and "pc_is s i Test" and "dq_queue (tq_queue s) = []"
  shows "cl_condition (tq_lock s) = cond_cancel"
proof -
  have "holds s (Worker i)" using assms(3) by simp
  then have "Taken t \<notin> set (tq_workers s)" for t using taken_owner [OF assms(2), of i t] assms(3) by auto
  moreover have "tq_workers s \<noteq> []" using assms(3) by auto
  ultimately show ?thesis using assms(1,4) by (auto simp: started_inv_def cond_known_def)
qed

lemma worker_step_work:
  assumes "worker_step i s e s'" and "lock_inv s" and "started_inv n s"
  shows "work s' < work s"
  using assms
proof (induction rule: worker_step.induct)
  case (take s i t q)
  then show ?case using sum_work_update [of i "tq_workers s" "Taken t"]
    by (auto simp: work_def deque_pop_item_def deque_get_count_def split: if_splits list.splits)
next
  case (again s i l)
  then show ?case using ready_test [OF again.prems(2,1), of i] by (simp add: deque_get_count_def)
next
  case (sleep s i l)
  then have "tq_workers s \<noteq> []" by auto
  then show ?case using sleep by (auto simp: started_inv_def)
next
  case (resume s i l)
  then show ?case by (auto simp: started_inv_def in_set_conv_nth)
next
  case (spurious s i)
  then show ?case by (auto simp: started_inv_def in_set_conv_nth)
next
  case (acquire s i l)
  then show ?case using sum_work_update [of i "tq_workers s" Check] by (simp add: work_def)
next
  case (go s i)
  then show ?case using sum_work_update [of i "tq_workers s" Test] by (simp add: work_def)
next
  case (signal s i t S l)
  then show ?case using sum_work_update [of i "tq_workers s" "Signalled t"] by (simp add: work_def)
next
  case (unlock s i t l)
  then show ?case using sum_work_update [of i "tq_workers s" "Running t"] by (simp add: work_def)
next
  case (run s i t)
  then show ?case using sum_work_update [of i "tq_workers s" Acquire] by (simp add: work_def)
next
  case (leave s i l)
  then show ?case using sum_work_update [of i "tq_workers s" Ended] by (simp add: work_def)
qed

text \<open>A worker that holds the lock, or runs a task, can always go on.\<close>

lemma worker_enabled:
  assumes "lock_inv s" and "started_inv n s" and "pc_is s i pc" and "worker_holds pc \<or> (\<exists>t. pc = Running t)"
  shows "\<exists>e s'. worker_step i s e s'"
proof -
  have l: "mx_type (tq_lock s) = NormalLock" "mutex_ok (tq_lock s)" using assms(1) by (simp_all add: lock_inv_def)
  have u: "\<exists>l. mutex_unlock (Worker i) (tq_lock s) = Inr l" if "worker_holds pc"
  proof -
    have "holds s (Worker i)" using assms(3) that by simp
    then have "mx_owner (tq_lock s) = Some (Worker i)" using assms(1) unfolding lock_inv_def by blast
    then show ?thesis using l by (simp add: mutex_unlock_normal)
  qed
  have ne: "tq_workers s \<noteq> []" using assms(3) by auto
  show ?thesis
  proof (cases pc)
    case Check
    then show ?thesis using worker_step.go [of i s] assms(2,3) ne by (auto simp: started_inv_def)
  next
    case Test
    obtain l where l: "mutex_unlock (Worker i) (tq_lock s) = Inr l" using u Test by auto
    show ?thesis
    proof (cases "dq_queue (tq_queue s)")
      case Nil
      then have "cl_condition (tq_lock s) = cond_cancel"
        using ready_test [OF assms(2,1), of i] assms(3) Test by simp
      then show ?thesis using worker_step.leave [of i s l] assms(3) Test Nil l by (auto simp: deque_get_count_def)
    next
      case (Cons t ts)
      then have "deque_pop_item (tq_queue s) = Inr (t, (tq_queue s)\<lparr>dq_queue := ts\<rparr>)"
        by (simp add: deque_pop_item_def)
      then show ?thesis using worker_step.take [of i s t] assms(3) Test Cons by (auto simp: deque_get_count_def)
    qed
  next
    case (Taken t)
    have "condition_lock_signal (condition_status (tq_queue s)) (cn_waiting (tq_lock s)) (tq_lock s) \<noteq> None"
      by (simp add: condition_lock_signal_def condition_signal_def set_condition_def)
    then show ?thesis using worker_step.signal [of i s t] assms(3) Taken by blast
  next
    case (Signalled t)
    then show ?thesis using worker_step.unlock [of i s t] assms(3) u by auto
  next
    case (Running t)
    then show ?thesis using worker_step.run [of i s t] assms(3) by auto
  qed (use assms(4) in auto)
qed

lemma worker_progress:
  assumes "lock_inv s" and "started_inv n s" and "\<not> client_holds (tq_client s)" and "some_alive s"
  shows "\<exists>i e s'. worker_step i s e s'"
proof -
  obtain i where i: "i < length (tq_workers s)" "alive (tq_workers s ! i)"
    using assms(4) by (auto simp: some_alive_def in_set_conv_nth)
  have "tq_workers s ! i \<noteq> Sleeping" using assms(2) i(1) by (auto simp: started_inv_def in_set_conv_nth)
  then consider "worker_holds (tq_workers s ! i) \<or> (\<exists>t. tq_workers s ! i = Running t)" | "tq_workers s ! i = Acquire"
    using i(2) by (cases "tq_workers s ! i") auto
  then show ?thesis
  proof cases
    case 1
    then show ?thesis using worker_enabled [OF assms(1,2), of i] i(1) by blast
  next
    case 2
    show ?thesis
    proof (cases "mx_owner (tq_lock s)")
      case None
      then show ?thesis using worker_step.acquire [of i s] 2 i(1) assms(1)
        by (auto simp: lock_inv_def mutex_lock_normal)
    next
      case (Some a)
      then have "holds s a" using assms(1) unfolding lock_inv_def by blast
      then obtain j where "j < length (tq_workers s)" "worker_holds (tq_workers s ! j)"
        using assms(3) by (cases a) auto
      then show ?thesis using worker_enabled [OF assms(1,2), of j] by blast
    qed
  qed
qed

lemma alive_updated: "i < length ws \<Longrightarrow> alive pc \<Longrightarrow> \<exists>w \<in> set (ws[i := pc]). alive w"
  by (auto intro: set_update_memI)

lemma worker_step_alive:
  assumes "worker_step i s e s'" and "some_alive s \<or> dq_queue (tq_queue s) = []"
  shows "some_alive s' \<or> dq_queue (tq_queue s') = []" and "tq_client s' = tq_client s"
proof -
  show "tq_client s' = tq_client s" using assms(1) by cases auto
  show "some_alive s' \<or> dq_queue (tq_queue s') = []"
    using assms
  proof (cases rule: worker_step.cases)
    case spurious
    then show ?thesis using assms(2) by (simp add: some_alive_def)
  qed (auto simp: deque_get_count_def some_alive_def alive_updated)
qed

lemma workers_run_keeps:
  assumes "workers_run s k s'" and "lock_inv s" and "started_inv n s" and "some_alive s"
  shows "lock_inv s' \<and> started_inv n s' \<and> (some_alive s' \<or> dq_queue (tq_queue s') = []) \<and>
    tq_client s' = tq_client s \<and> k + work s' \<le> work s"
  using assms
proof (induction rule: workers_run.induct)
  case (step s k s' i e s'')
  then have i: "lock_inv s'" "started_inv n s'" "some_alive s' \<or> dq_queue (tq_queue s') = []"
    "tq_client s' = tq_client s" "k + work s' \<le> work s" by auto
  show ?case
    using worker_step_lock_inv [OF step.hyps(2) i(1)] worker_step_started [OF step.hyps(2) i(1,2)]
      worker_step_alive [OF step.hyps(2) i(3)] worker_step_work [OF step.hyps(2) i(1,2)] i(4,5) by simp
qed simp


section \<open>What the queue does not do\<close>

text \<open>When the workers have ended a task that is pushed later stays in the queue: the queue gets no
  new worker but by another start.\<close>

lemma dead_workers_stay:
  assumes "\<not> some_alive s" and "worker_step i s e s'"
  shows False
proof -
  have "alive (tq_workers s ! i) \<and> i < length (tq_workers s)" using assms(2) by cases auto
  then show ?thesis using assms(1) by (auto simp: some_alive_def)
qed

text \<open>Taking the last task sets the condition to cancel before the task is run; \<^verbatim>\<open>Stop\<close> then
  returns at once, also when it was told to wait.\<close>

lemma last_task_cancels:
  assumes "lock_inv s" and "pc_is s i (Taken t)" and "dq_queue (tq_queue s) = []"
  shows "\<exists>s'. worker_step i s Silent s' \<and> pc_is s' i (Signalled t) \<and> cl_condition (tq_lock s') = cond_cancel"
proof -
  let ?l = "(tq_lock s)\<lparr>cl_condition := cond_cancel, cn_waiting := {}\<rparr>"
  have "condition_lock_signal (condition_status (tq_queue s)) (cn_waiting (tq_lock s)) (tq_lock s) = Some ?l"
    using assms(3) by (simp add: condition_lock_signal_def condition_signal_def set_condition_def
        condition_status_def deque_get_count_def)
  from worker_step.signal [OF assms(2) this] show ?thesis using assms(2) by auto
qed

lemma stop_does_not_wait:
  assumes "tq_client s = Idle" and "mx_type (tq_lock s) = NormalLock" and "mx_owner (tq_lock s) = None"
    and "cl_condition (tq_lock s) = cond_cancel"
  shows "\<exists>s1 s2. client_step hw s Silent s1 \<and> tq_client s1 = Stopping True \<and>
    client_step hw s1 Returned s2 \<and> tq_client s2 = Idle \<and> tq_workers s2 = tq_workers s"
proof -
  let ?l = "(tq_lock s)\<lparr>mx_owner := Some Client, mx_depth := 1\<rparr>"
  let ?s1 = "s\<lparr>tq_lock := ?l, tq_client := Stopping True\<rparr>"
  have "client_step hw s Silent ?s1"
    using assms by (intro client_step.stop_lock) (auto simp: mutex_lock_normal)
  moreover have "client_step hw ?s1 Returned (?s1\<lparr>tq_lock := ?l\<lparr>mx_owner := None, mx_depth := 0\<rparr>, tq_client := Idle\<rparr>)"
    using assms by (intro client_step.stop_return) (auto simp: mutex_unlock_def)
  ultimately show ?thesis
    by (intro exI [of _ ?s1] exI [of _ "?s1\<lparr>tq_lock := ?l\<lparr>mx_owner := None, mx_depth := 0\<rparr>, tq_client := Idle\<rparr>"]) simp
qed

section \<open>A run\<close>

text \<open>A queue for one thread: task 7 is pushed, the queue is started and its worker runs the task.\<close>

definition demo :: "client_pc \<Rightarrow> worker_pc list \<Rightarrow> nat list \<Rightarrow> actor option \<Rightarrow> int \<Rightarrow> task_queue" where
  "demo c ws q owner v =
     \<lparr>tq_thread_count = 1, tq_queue = \<lparr>dq_comparison = compare_default, dq_queue = q\<rparr>,
      tq_lock = \<lparr>mx_type = NormalLock, mx_owner = owner, mx_depth = (if owner = None then 0 else 1),
        cn_waiting = {}, cl_condition = v\<rparr>,
      tq_workers = ws, tq_client = c\<rparr>"

lemmas demo_ops = demo_def mutex_lock_def mutex_unlock_def condition_lock_signal_Some set_condition_def
  queue_push_def condition_status_def deque_get_count_def deque_pop_item_def thread_count_def cond_defs

lemma demo_new: "task_queue_new compare_default 1 = demo Idle [] [] None cond_waiting"
  by (simp add: task_queue_new_def condition_lock_new_def deque_new_def demo_def)

lemma demo_client:
  "client_step 0 (demo Idle [] [] None cond_waiting) Silent (demo (Pushing 7) [] [] (Some Client) cond_waiting)"
  "client_step 0 (demo (Pushing 7) [] [] (Some Client) cond_waiting) (Push 7) (demo Pushed [] [7] (Some Client) cond_ready)"
  "client_step 0 (demo Pushed [] [7] (Some Client) cond_ready) Silent (demo Idle [] [7] None cond_ready)"
  "client_step 0 (demo Idle [] [7] None cond_ready) Start (demo (Starting cond_ready) [] [7] None cond_ready)"
  "client_step 0 (demo (Starting cond_ready) [] [7] None cond_ready) Silent (demo (Spawning 0) [] [7] None cond_ready)"
  "client_step 0 (demo (Spawning 0) [] [7] None cond_ready) Silent (demo (Spawning 1) [Acquire] [7] None cond_ready)"
  "client_step 0 (demo (Spawning 1) [Acquire] [7] None cond_ready) Returned (demo Idle [Acquire] [7] None cond_ready)"
proof -
  show "client_step 0 (demo Idle [] [] None cond_waiting) Silent (demo (Pushing 7) [] [] (Some Client) cond_waiting)"
    using client_step.push_lock [of "demo Idle [] [] None cond_waiting" _ 0 7] by (simp add: demo_ops)
  show "client_step 0 (demo (Pushing 7) [] [] (Some Client) cond_waiting) (Push 7) (demo Pushed [] [7] (Some Client) cond_ready)"
    using client_step.push [of "demo (Pushing 7) [] [] (Some Client) cond_waiting" 7 "{}" _ 0] by (simp add: demo_ops)
  show "client_step 0 (demo Pushed [] [7] (Some Client) cond_ready) Silent (demo Idle [] [7] None cond_ready)"
    using client_step.push_unlock [of "demo Pushed [] [7] (Some Client) cond_ready" _ 0] by (simp add: demo_ops)
  show "client_step 0 (demo Idle [] [7] None cond_ready) Start (demo (Starting cond_ready) [] [7] None cond_ready)"
    using client_step.start [of "demo Idle [] [7] None cond_ready" 0] by (simp add: demo_ops)
  show "client_step 0 (demo (Starting cond_ready) [] [7] None cond_ready) Silent (demo (Spawning 0) [] [7] None cond_ready)"
    using client_step.start_set [of "demo (Starting cond_ready) [] [7] None cond_ready" cond_ready 0] by (simp add: demo_ops)
  show "client_step 0 (demo (Spawning 0) [] [7] None cond_ready) Silent (demo (Spawning 1) [Acquire] [7] None cond_ready)"
    using client_step.spawn [of "demo (Spawning 0) [] [7] None cond_ready" 0 Acquire 0] by (simp add: demo_ops)
  show "client_step 0 (demo (Spawning 1) [Acquire] [7] None cond_ready) Returned (demo Idle [Acquire] [7] None cond_ready)"
    using client_step.spawn_end [of "demo (Spawning 1) [Acquire] [7] None cond_ready" 1 0] by (simp add: demo_ops)
qed

definition demo_events :: "event list" where
  "demo_events = [Silent, Push 7, Silent, Start, Silent, Silent, Returned]"

lemma demo_started: "tq_run 0 (task_queue_new compare_default 1) demo_events (demo Idle [Acquire] [7] None cond_ready)"
proof -
  have "tq_run 0 (demo Idle [] [] None cond_waiting)
      ((((((([] @ [Silent]) @ [Push 7]) @ [Silent]) @ [Start]) @ [Silent]) @ [Silent]) @ [Returned])
      (demo Idle [Acquire] [7] None cond_ready)"
    by (rule tq_run.client [OF _ demo_client(7)], rule tq_run.client [OF _ demo_client(6)],
        rule tq_run.client [OF _ demo_client(5)], rule tq_run.client [OF _ demo_client(4)],
        rule tq_run.client [OF _ demo_client(3)], rule tq_run.client [OF _ demo_client(2)],
        rule tq_run.client [OF _ demo_client(1)], rule tq_run.none)
  then show ?thesis by (simp add: demo_new demo_events_def)
qed

lemma demo_worker:
  "worker_step 0 (demo Idle [Acquire] [7] None cond_ready) Silent (demo Idle [Check] [7] (Some (Worker 0)) cond_ready)"
  "worker_step 0 (demo Idle [Check] [7] (Some (Worker 0)) cond_ready) Silent (demo Idle [Test] [7] (Some (Worker 0)) cond_ready)"
  "worker_step 0 (demo Idle [Test] [7] (Some (Worker 0)) cond_ready) (Take 0 7) (demo Idle [Taken 7] [] (Some (Worker 0)) cond_ready)"
proof -
  show "worker_step 0 (demo Idle [Acquire] [7] None cond_ready) Silent (demo Idle [Check] [7] (Some (Worker 0)) cond_ready)"
    using worker_step.acquire [of 0 "demo Idle [Acquire] [7] None cond_ready"] by (simp add: demo_ops)
  show "worker_step 0 (demo Idle [Check] [7] (Some (Worker 0)) cond_ready) Silent (demo Idle [Test] [7] (Some (Worker 0)) cond_ready)"
    using worker_step.go [of 0 "demo Idle [Check] [7] (Some (Worker 0)) cond_ready"] by (simp add: demo_ops)
  show "worker_step 0 (demo Idle [Test] [7] (Some (Worker 0)) cond_ready) (Take 0 7) (demo Idle [Taken 7] [] (Some (Worker 0)) cond_ready)"
    using worker_step.take [of 0 "demo Idle [Test] [7] (Some (Worker 0)) cond_ready" 7] by (simp add: demo_ops)
qed

lemma demo_taken:
  "tq_run 0 (task_queue_new compare_default 1) (((demo_events @ [Silent]) @ [Silent]) @ [Take 0 7])
     (demo Idle [Taken 7] [] (Some (Worker 0)) cond_ready)"
  by (rule tq_run.worker [OF _ demo_worker(3)], rule tq_run.worker [OF _ demo_worker(2)],
      rule tq_run.worker [OF _ demo_worker(1)], rule demo_started)


theorem task_queue_mutual_exclusion_witness:
  "mx_owner (tq_lock (demo Idle [Taken 7] [] (Some (Worker 0)) cond_ready)) = Some (Worker 0) \<and>
   \<not> holds (demo Idle [Taken 7] [] (Some (Worker 0)) cond_ready) Client"
  using task_queue_mutual_exclusion [OF demo_taken] by (simp add: demo_def)


end
