(* ===== verification/Threads.thy ===== *)
theory Threads
  imports Locks
begin

text \<open>
  Threads (\<^verbatim>\<open>include/bricks/threading/thread.h\<close>, \<^verbatim>\<open>source/threading/thread.cpp\<close>): a
  thread object, the cells that hold the system's thread identifiers, and the condition locks that
  publish the status.  The calls of the POSIX library are a parameter over a state \<open>'w\<close> of the
  world; a thread identifier of the system is a value of type \<open>'p\<close>.  The state of an operation is
  the thread object it is called on together with the shared parts.
\<close>

section \<open>State\<close>

definition status_none :: int where "status_none = 0"
definition status_initialized :: int where "status_initialized = 1"
definition status_started :: int where "status_started = 2"
definition status_stopped :: int where "status_stopped = 3"

record 'd thread =
  th_handle :: "nat option"
  th_delegate :: 'd
  th_status :: "nat option"
  th_stack_size :: int
  th_priority :: int
  th_owned :: bool

text \<open>\<open>ts_cells\<close> are the identifiers allocated with \<^verbatim>\<open>new pthread_t()\<close>, none of which the code
  ever frees, \<open>ts_locks\<close> the status locks and \<open>ts_local\<close> the thread objects in
  \<^verbatim>\<open>localThreads\<close>.  Reference counts are left to the theory of pointers.\<close>

record ('d, 't, 'p, 'w) thread_state =
  ts_thread :: "'d thread"
  ts_cells :: "'p list"
  ts_locks :: "'t condition_lock list"
  ts_local :: "('t, 'd thread) local_storage"
  ts_world :: 'w

record ('p, 'w) thread_calls =
  pt_create :: "int option \<Rightarrow> 'w \<Rightarrow> 'p option \<times> 'w"
  pt_cancel :: "'p \<Rightarrow> 'w \<Rightarrow> 'w"
  pt_detach :: "'p \<Rightarrow> 'w \<Rightarrow> 'w"
  pt_join :: "'p \<Rightarrow> 'w \<Rightarrow> int \<times> 'w"
  pt_kill :: "'p \<Rightarrow> int \<Rightarrow> 'w \<Rightarrow> 'w"
  pt_set_priority :: "'p \<Rightarrow> int \<Rightarrow> 'w \<Rightarrow> 'w"
  pt_sleep :: "int \<Rightarrow> 'w \<Rightarrow> 'w"
  pt_usleep :: "int \<Rightarrow> 'w \<Rightarrow> 'w"

section \<open>Thread identifiers\<close>

text \<open>\<^verbatim>\<open>SetHandle\<close> copies the identifier it is given into its own cell.  Given the null
  pointer it deletes its argument, that is nothing, and forgets the cell.\<close>

definition thread_id_set_handle :: "nat option \<Rightarrow> 'p option \<Rightarrow> 'p list \<Rightarrow> nat option \<times> 'p list" where
  "thread_id_set_handle h v cells =
     (case v of
        Some p \<Rightarrow> (case h of None \<Rightarrow> (Some (length cells), cells @ [p]) | Some a \<Rightarrow> (Some a, cells[a := p]))
      | None \<Rightarrow> (None, cells))"

definition thread_id_read :: "nat option \<Rightarrow> 'p list \<Rightarrow> 'p result" where
  "thread_id_read h cells = (case h of None \<Rightarrow> Inl Undefined | Some a \<Rightarrow> peek cells a)"

text \<open>The copy has a fresh cell, whose first contents are \<open>p0\<close>.\<close>

definition thread_id_copy :: "'p \<Rightarrow> nat option \<Rightarrow> 'p list \<Rightarrow> (nat option \<times> 'p list) result" where
  "thread_id_copy p0 h cells =
     (case h of
        None \<Rightarrow> Inr (thread_id_set_handle (Some (length cells)) None (cells @ [p0]))
      | Some a \<Rightarrow> bind_r (peek cells a) (\<lambda>p. Inr (thread_id_set_handle (Some (length cells)) (Some p) (cells @ [p0]))))"

definition thread_id_destroy :: "nat option \<Rightarrow> 'p list \<Rightarrow> nat option \<times> 'p list" where
  "thread_id_destroy h cells = thread_id_set_handle h None cells"

lemma thread_id_leaks:
  assumes "thread_id_set_handle None (Some p) cells = (h, cells')"
  shows "snd (thread_id_destroy h cells') = cells @ [p]"
  using assms by (auto simp: thread_id_set_handle_def thread_id_destroy_def)

lemma thread_id_set_read: "thread_id_set_handle None (Some p) cells = (h, cells') \<Longrightarrow> thread_id_read h cells' = Inr p"
  by (auto simp: thread_id_set_handle_def thread_id_read_def peek_def)

section \<open>Thread objects\<close>

definition thread_new :: "'d \<Rightarrow> 'd thread" where
  "thread_new d = \<lparr>th_handle = None, th_delegate = d, th_status = None, th_stack_size = 0, th_priority = 0, th_owned = True\<rparr>"

text \<open>The object the started thread makes for itself shares the status lock.\<close>

definition thread_copy :: "'p \<Rightarrow> 'd thread \<Rightarrow> 'p list \<Rightarrow> ('d thread \<times> 'p list) result" where
  "thread_copy p0 th cells =
     bind_r (thread_id_copy p0 (th_handle th) cells) (\<lambda>(h, cells'). Inr (th\<lparr>th_handle := h\<rparr>, cells'))"

definition set_thread_id :: "'p option \<Rightarrow> ('d, 't, 'p, 'w) thread_state \<Rightarrow> ('d, 't, 'p, 'w) thread_state" where
  "set_thread_id v s =
     (case thread_id_set_handle (th_handle (ts_thread s)) v (ts_cells s) of (h, cells) \<Rightarrow>
        s\<lparr>ts_thread := (ts_thread s)\<lparr>th_handle := h\<rparr>, ts_cells := cells\<rparr>)"

definition thread_cleanup :: "('d, 't, 'p, 'w) thread_state \<Rightarrow> ('d, 't, 'p, 'w) thread_state" where
  "thread_cleanup s = (if th_handle (ts_thread s) \<noteq> None then set_thread_id None s else s)"

definition status_lock :: "('d, 't, 'p, 'w) thread_state \<Rightarrow> 't condition_lock result" where
  "status_lock s = (case th_status (ts_thread s) of None \<Rightarrow> Inl Undefined | Some i \<Rightarrow> peek (ts_locks s) i)"

definition set_status_lock :: "'t condition_lock \<Rightarrow> ('d, 't, 'p, 'w) thread_state \<Rightarrow> ('d, 't, 'p, 'w) thread_state" where
  "set_status_lock l s = (case th_status (ts_thread s) of None \<Rightarrow> s | Some i \<Rightarrow> s\<lparr>ts_locks := (ts_locks s)[i := l]\<rparr>)"

definition thread_get_status :: "('d, 't, 'p, 'w) thread_state \<Rightarrow> int result" where
  "thread_get_status s =
     (if th_owned (ts_thread s)
      then (if th_handle (ts_thread s) = None then Inr status_initialized
            else bind_r (status_lock s) (\<lambda>l. Inr (cl_condition l)))
      else Inr (if th_handle (ts_thread s) = None then status_stopped else status_started))"

text \<open>\<^verbatim>\<open>Start\<close>, called by the thread \<open>t\<close>.  The new lock is free, so locking it does not
  block.\<close>

definition thread_start ::
    "('p, 'w) thread_calls \<Rightarrow> 't \<Rightarrow> (('d, 't, 'p, 'w) thread_state, unit) io" where
  "thread_start pt t s =
     (if th_handle (ts_thread s) \<noteq> None then (throw (InvalidOperationException ''''), s)
      else
        let stack = (if th_stack_size (ts_thread s) \<noteq> 0 then Some (th_stack_size (ts_thread s)) else None);
            l = condition_lock_new status_started
        in (case mutex_lock t l of
              None \<Rightarrow> (Inl Undefined, s)
            | Some l' \<Rightarrow>
                let s1 = s\<lparr>ts_thread := (ts_thread s)\<lparr>th_status := Some (length (ts_locks s))\<rparr>,
                           ts_locks := ts_locks s @ [l']\<rparr>
                in (case pt_create pt stack (ts_world s1) of
                      (None, w) \<Rightarrow> (Inr (), s1\<lparr>ts_world := w\<rparr>)
                    | (Some p, w) \<Rightarrow> (Inr (), set_thread_id (Some p) (s1\<lparr>ts_world := w\<rparr>)))))"

text \<open>The cleanup of the started thread \<open>u\<close>, and its main function: a copy of the thread object, which
  becomes the thread's local object, the delegate, the cleanup.\<close>

definition static_cleanup :: "'t \<Rightarrow> (('d, 't, 'p, 'w) thread_state, unit) io" where
  "static_cleanup u s =
     (case bind_r (status_lock s) (condition_lock_unlock status_stopped u) of
        Inl e \<Rightarrow> (Inl e, s)
      | Inr l \<Rightarrow> (Inr (), set_status_lock l s))"

definition static_main ::
    "('d \<Rightarrow> 'w \<Rightarrow> 'w) \<Rightarrow> 'p \<Rightarrow> 't \<Rightarrow> (('d, 't, 'p, 'w) thread_state, unit) io" where
  "static_main call p0 u s =
     (case thread_copy p0 (ts_thread s) (ts_cells s) of
        Inl e \<Rightarrow> (Inl e, s)
      | Inr (th, cells) \<Rightarrow>
          static_cleanup u (s\<lparr>ts_thread := th, ts_cells := cells, ts_local := storage_set_data u th (ts_local s),
            ts_world := call (th_delegate th) (ts_world s)\<rparr>))"

definition with_thread_id ::
    "('p \<Rightarrow> 'w \<Rightarrow> 'w) \<Rightarrow> (('d, 't, 'p, 'w) thread_state, unit) io" where
  "with_thread_id f s =
     (case thread_id_read (th_handle (ts_thread s)) (ts_cells s) of
        Inl e \<Rightarrow> (Inl e, s)
      | Inr p \<Rightarrow> (Inr (), s\<lparr>ts_world := f p (ts_world s)\<rparr>))"

definition thread_stop :: "('p, 'w) thread_calls \<Rightarrow> (('d, 't, 'p, 'w) thread_state, unit) io" where
  "thread_stop pt s =
     bind_w (return_w (thread_get_status s)) (\<lambda>st.
     if st = status_started then with_thread_id (pt_cancel pt) else return_w (Inr ())) s"

definition thread_detach :: "('p, 'w) thread_calls \<Rightarrow> (('d, 't, 'p, 'w) thread_state, unit) io" where
  "thread_detach pt s =
     bind_w (if th_owned (ts_thread s)
             then bind_w (return_w (thread_get_status s)) (\<lambda>st.
               if st = status_started then with_thread_id (pt_detach pt) else return_w (Inr ()))
             else return_w (Inr ()))
       (\<lambda>_ s'. (Inr (), thread_cleanup s')) s"

definition thread_wait :: "('p, 'w) thread_calls \<Rightarrow> (('d, 't, 'p, 'w) thread_state, unit) io" where
  "thread_wait pt s =
     bind_w (return_w (thread_get_status s)) (\<lambda>st s.
     if st = status_stopped then (Inr (), s)
     else if st \<noteq> status_started then (throw (InvalidOperationException ''''), s)
     else (case thread_id_read (th_handle (ts_thread s)) (ts_cells s) of
             Inl e \<Rightarrow> (Inl e, s)
           | Inr p \<Rightarrow> (case pt_join pt p (ts_world s) of (r, w) \<Rightarrow>
               if r \<noteq> 0 then (throw (Exception ''''), s\<lparr>ts_world := w\<rparr>)
               else (Inr (), thread_cleanup (s\<lparr>ts_world := w\<rparr>))))) s"

text \<open>The waits that may fail, given how the lock of the status is asked for: at once, or until a
  deadline.\<close>

definition thread_wait_with ::
    "('p, 'w) thread_calls \<Rightarrow> 't \<Rightarrow> ('t condition_lock \<Rightarrow> (bool \<times> 't condition_lock) result) \<Rightarrow>
     (('d, 't, 'p, 'w) thread_state, bool) io" where
  "thread_wait_with pt t acquire s =
     (if \<not> th_owned (ts_thread s) then (throw (NotSupportedException ''''), s)
      else (case bind_r (status_lock s) acquire of
              Inl e \<Rightarrow> (Inl e, s)
            | Inr (False, l) \<Rightarrow> (Inr False, set_status_lock l s)
            | Inr (True, l) \<Rightarrow>
                (case mutex_unlock t l of
                   Inl e \<Rightarrow> (Inl e, s)
                 | Inr l' \<Rightarrow> bind_w (thread_wait pt) (\<lambda>_. return_w (Inr True)) (set_status_lock l' s))))"

definition thread_wait_until ::
    "('p, 'w) thread_calls \<Rightarrow> 't \<Rightarrow> (int \<Rightarrow> 't \<Rightarrow> 't condition_lock \<Rightarrow> (bool \<times> 't condition_lock) result) \<Rightarrow>
     (('d, 't, 'p, 'w) thread_state, bool) io" where
  "thread_wait_until pt t lock_until = thread_wait_with pt t (lock_until status_stopped t)"

definition thread_try_wait :: "('p, 'w) thread_calls \<Rightarrow> 't \<Rightarrow> (('d, 't, 'p, 'w) thread_state, bool) io" where
  "thread_try_wait pt t = thread_wait_with pt t (condition_lock_try_lock status_stopped t)"

definition thread_signal :: "('p, 'w) thread_calls \<Rightarrow> int \<Rightarrow> (('d, 't, 'p, 'w) thread_state, unit) io" where
  "thread_signal pt signal = with_thread_id (\<lambda>p. pt_kill pt p signal)"

definition thread_set_stack_size :: "int \<Rightarrow> (('d, 't, 'p, 'w) thread_state, unit) io" where
  "thread_set_stack_size v s =
     bind_w (return_w (thread_get_status s)) (\<lambda>st s.
     if st \<noteq> status_initialized then (throw (InvalidOperationException ''''), s)
     else (Inr (), s\<lparr>ts_thread := (ts_thread s)\<lparr>th_stack_size := v\<rparr>\<rparr>)) s"

definition thread_set_priority :: "('p, 'w) thread_calls \<Rightarrow> int \<Rightarrow> (('d, 't, 'p, 'w) thread_state, unit) io" where
  "thread_set_priority pt v s =
     (let s1 = s\<lparr>ts_thread := (ts_thread s)\<lparr>th_priority := v\<rparr>\<rparr> in
      bind_w (return_w (thread_get_status s1)) (\<lambda>st.
      if st = status_started then with_thread_id (\<lambda>p. pt_set_priority pt p v) else return_w (Inr ())) s1)"

definition thread_destroy :: "('p, 'w) thread_calls \<Rightarrow> (('d, 't, 'p, 'w) thread_state, unit) io" where
  "thread_destroy = thread_detach"

text \<open>The current thread's object: that of the local storage, or a new one that does not own its
  thread.\<close>

definition get_current_thread ::
    "'p \<Rightarrow> 'd \<Rightarrow> 't \<Rightarrow> ('d, 't, 'p, 'w) thread_state \<Rightarrow> 'd thread \<times> ('d, 't, 'p, 'w) thread_state" where
  "get_current_thread self d t s =
     (case ts_local s t of
        Some th \<Rightarrow> (th, s)
      | None \<Rightarrow>
          (case thread_id_set_handle None (Some self) (ts_cells s) of (h, cells) \<Rightarrow>
             let th = (thread_new d)\<lparr>th_owned := False, th_handle := h\<rparr>
             in (th, s\<lparr>ts_local := storage_set_data t th (ts_local s), ts_cells := cells\<rparr>)))"

section \<open>Sleeping\<close>

definition thread_sleep_for :: "('p, 'w) thread_calls \<Rightarrow> timespan \<Rightarrow> 'w \<Rightarrow> 'w" where
  "thread_sleep_for pt span w =
     (let seconds = s32 (as_seconds span);
          w1 = (if 0 < seconds then pt_sleep pt seconds w else w);
          microseconds = s32 (convert_to_microseconds (s64 (span - convert_seconds seconds)))
      in if 0 < microseconds then pt_usleep pt microseconds w1 else w1)"

definition thread_sleep_until :: "('p, 'w) thread_calls \<Rightarrow> time \<Rightarrow> time \<Rightarrow> 'w \<Rightarrow> 'w" where
  "thread_sleep_until pt now deadline = thread_sleep_for pt (time_diff deadline now)"

section \<open>Properties\<close>

lemma owned_status:
  assumes "th_owned (ts_thread s)" and "th_handle (ts_thread s) = Some a" and "th_status (ts_thread s) = Some i"
    and "i < length (ts_locks s)"
  shows "thread_get_status s = Inr (cl_condition (ts_locks s ! i))"
  using assms by (simp add: thread_get_status_def status_lock_def peek_def)

lemma thread_start_state:
  assumes "th_handle (ts_thread s) = None"
    and "pt_create pt (if th_stack_size (ts_thread s) \<noteq> 0 then Some (th_stack_size (ts_thread s)) else None) (ts_world s) = (Some p, w)"
  shows "thread_start pt t s = (Inr (), s\<lparr>ts_thread := (ts_thread s)\<lparr>th_handle := Some (length (ts_cells s)), th_status := Some (length (ts_locks s))\<rparr>,
    ts_cells := ts_cells s @ [p], ts_locks := ts_locks s @ [(condition_lock_new status_started)\<lparr>mx_owner := Some t, mx_depth := 1\<rparr>], ts_world := w\<rparr>)"
  using assms
  by (simp add: thread_start_def Let_def mutex_lock_def condition_lock_new_def set_thread_id_def thread_id_set_handle_def)

text \<open>The started thread unlocks the status lock, which the thread that called \<^verbatim>\<open>Start\<close>
  holds.\<close>

lemma static_cleanup_undefined:
  assumes "th_status (ts_thread s) = Some i" and "i < length (ts_locks s)"
    and "mx_type (ts_locks s ! i) = NormalLock" and "mx_owner (ts_locks s ! i) = Some t" and "u \<noteq> t"
  shows "fst (static_cleanup u s) = Inl Undefined"
  using assms
  by (simp add: static_cleanup_def status_lock_def peek_def condition_lock_unlock_def condition_lock_broadcast_def
      condition_broadcast_def set_condition_def mutex_unlock_def)

text \<open>The life of a thread object.  Starting an owned thread that has no handle, when the system
  creates the thread, publishes the status started and stores the identifier; a second
  \<^verbatim>\<open>Start\<close> throws and changes nothing; setting the stack size then throws.  \<^verbatim>\<open>TryWait\<close>
  reports that the thread has not stopped, and \<^verbatim>\<open>Wait\<close> joins exactly the stored identifier and
  takes the object back to its initial status.\<close>

theorem thread_lifecycle:
  assumes "th_handle (ts_thread s) = None" and "th_owned (ts_thread s)"
    and "pt_create pt (if th_stack_size (ts_thread s) \<noteq> 0 then Some (th_stack_size (ts_thread s)) else None) (ts_world s) = (Some p, w)"
    and "pt_join pt p w = (0, w')"
  shows "\<exists>s1 s2. thread_start pt t s = (Inr (), s1) \<and> thread_get_status s1 = Inr status_started \<and>
    thread_start pt u s1 = (throw (InvalidOperationException ''''), s1) \<and>
    thread_set_stack_size v s1 = (throw (InvalidOperationException ''''), s1) \<and>
    thread_try_wait pt u s1 = (Inr False, s1) \<and>
    thread_wait pt s1 = (Inr (), s2) \<and> ts_world s2 = w' \<and> thread_get_status s2 = Inr status_initialized"
proof -
  let ?l = "(condition_lock_new status_started)\<lparr>mx_owner := Some t, mx_depth := 1\<rparr>"
  define s1 where "s1 = s\<lparr>ts_thread := (ts_thread s)\<lparr>th_handle := Some (length (ts_cells s)), th_status := Some (length (ts_locks s))\<rparr>,
    ts_cells := ts_cells s @ [p], ts_locks := ts_locks s @ [?l], ts_world := w\<rparr>"
  have start: "thread_start pt t s = (Inr (), s1)"
    unfolding s1_def by (rule thread_start_state [OF assms(1,3)])
  have lock: "status_lock s1 = Inr ?l" by (simp add: s1_def status_lock_def peek_def)
  then have status: "thread_get_status s1 = Inr status_started"
    using assms(2) by (simp add: s1_def thread_get_status_def condition_lock_new_def)
  have again: "thread_start pt u s1 = (throw (InvalidOperationException ''''), s1)"
    by (simp add: thread_start_def s1_def)
  have stack: "thread_set_stack_size v s1 = (throw (InvalidOperationException ''''), s1)"
    by (simp add: thread_set_stack_size_def bind_w_def return_w_def status status_started_def status_initialized_def)
  have "condition_lock_try_lock status_stopped u ?l = Inr (False, ?l)"
    by (simp add: condition_lock_try_lock_def condition_try_lock_def mutex_try_lock_def mutex_lock_def condition_lock_new_def)
  moreover have "set_status_lock ?l s1 = s1" by (simp add: s1_def set_status_lock_def)
  ultimately have waits: "thread_try_wait pt u s1 = (Inr False, s1)"
    using assms(2) lock by (simp add: thread_try_wait_def thread_wait_with_def) (simp add: s1_def)
  have id: "thread_id_read (th_handle (ts_thread s1)) (ts_cells s1) = Inr p" "ts_world s1 = w"
    by (simp_all add: s1_def thread_id_read_def peek_def)
  define s2 where "s2 = thread_cleanup (s1\<lparr>ts_world := w'\<rparr>)"
  have wait: "thread_wait pt s1 = (Inr (), s2)"
    using assms(4) by (simp add: thread_wait_def bind_w_def return_w_def status id s2_def status_started_def status_stopped_def)
  have "ts_world s2 = w'" "thread_get_status s2 = Inr status_initialized"
    using assms(2)
    by (simp_all add: s2_def s1_def thread_cleanup_def set_thread_id_def thread_id_set_handle_def thread_get_status_def)
  with start status again stack waits wait show ?thesis by blast
qed

text \<open>The same object is given again to the same thread.\<close>

lemma get_current_thread_again:
  assumes "get_current_thread self d t s = (th, s')"
  shows "get_current_thread self' d' t s' = (th, s')"
  using assms
  by (auto simp: get_current_thread_def storage_set_data_def Let_def split: option.splits prod.splits)

definition one_thread :: "(nat, nat) thread_calls" where
  "one_thread = \<lparr>pt_create = (\<lambda>_ w. (Some 9, w + 1)), pt_cancel = (\<lambda>_ w. w), pt_detach = (\<lambda>_ w. w),
     pt_join = (\<lambda>_ w. (0, w - 1)), pt_kill = (\<lambda>_ _ w. w), pt_set_priority = (\<lambda>_ _ w. w),
     pt_sleep = (\<lambda>n w. w + nat n * 1000000), pt_usleep = (\<lambda>n w. w + nat n)\<rparr>"

theorem thread_lifecycle_witness:
  "\<exists>s1. thread_start one_thread (0 :: nat) \<lparr>ts_thread = thread_new (), ts_cells = [], ts_locks = [], ts_local = storage_new, ts_world = 0\<rparr> = (Inr (), s1) \<and>
    thread_get_status s1 = Inr status_started"
  using thread_lifecycle [of "\<lparr>ts_thread = thread_new (), ts_cells = [], ts_locks = [], ts_local = storage_new, ts_world = 0\<rparr>" one_thread 9 1 0 "0 :: nat" 1 0]
  by (auto simp: thread_new_def one_thread_def)

text \<open>Sleeping lasts as long as asked.  For a span that is not negative and shorter than
  2 ^ 31 seconds the whole seconds and the rest in microseconds that the two calls of the system
  get add up to the span, rounded down to a microsecond, and the rest is less than a second.\<close>

theorem sleep_exact:
  assumes "0 \<le> span" and "span < 2 ^ 31 * ticks_second"
  shows "\<exists>sec usec. 0 \<le> sec \<and> 0 \<le> usec \<and> usec < 1000000 \<and> sec * 1000000 + usec = span div ticks_microsecond \<and>
    thread_sleep_for pt span w =
      (let w1 = (if 0 < sec then pt_sleep pt sec w else w) in if 0 < usec then pt_usleep pt usec w1 else w1)"
proof -
  define sec where "sec = span div ticks_second"
  define usec where "usec = (span - sec * ticks_second) div ticks_microsecond"
  have sec: "0 \<le> sec" "sec < 2147483648" "sec * 10000000 \<le> span" "span < (sec + 1) * 10000000"
    using assms unfolding sec_def ticks_second_def by simp_all
  have usec: "0 \<le> usec" "usec < 1000000" "sec * 1000000 + usec = span div ticks_microsecond"
    using sec(3,4) unfolding usec_def ticks_second_def ticks_microsecond_def by simp_all
  have a: "s32 (as_seconds span) = sec"
    using sec(1,2) assms(1) by (simp add: as_seconds_def c_div_nonneg ticks_second_def sec_def s32_abs)
  have b: "s64 (sec * ticks_second) = sec * ticks_second"
    using sec(1,2) by (intro s64_abs) (simp add: ticks_second_def)
  have c: "s64 (span - sec * ticks_second) = span - sec * ticks_second"
    using sec(3,4) by (intro s64_abs) (simp add: ticks_second_def)
  have d: "s32 (convert_to_microseconds (span - sec * ticks_second)) = usec"
    using sec(3) usec(1,2) by (simp add: convert_to_microseconds_def c_div_nonneg ticks_second_def ticks_microsecond_def usec_def s32_abs)
  have "thread_sleep_for pt span w =
      (let w1 = (if 0 < sec then pt_sleep pt sec w else w) in if 0 < usec then pt_usleep pt usec w1 else w1)"
    unfolding thread_sleep_for_def a convert_seconds_def b c d Let_def ..
  with sec(1) usec show ?thesis by blast
qed

theorem sleep_exact_witness: "thread_sleep_for one_thread 15000000 0 = 1500000"
proof -
  have p: "(0 :: int) \<le> 15000000" "15000000 < 2 ^ 31 * ticks_second" by (simp_all add: ticks_second_def)
  from sleep_exact [OF p, of one_thread 0] obtain sec usec where
    r: "0 \<le> sec" "0 \<le> usec" "usec < 1000000" "sec * 1000000 + usec = 15000000 div ticks_microsecond"
    "thread_sleep_for one_thread 15000000 0 =
      (let w1 = (if 0 < sec then pt_sleep one_thread sec 0 else 0) in if 0 < usec then pt_usleep one_thread usec w1 else w1)"
    by (elim exE conjE)
  have e: "sec * 1000000 + usec = 1500000" using r(4) by (simp add: ticks_microsecond_def)
  have sec: "sec = 1" using e r(2,3) by arith
  have "usec = 500000" using e sec by simp
  with sec show ?thesis using r(5) by (simp add: one_thread_def)
qed

end
