(* ===== verification/Java_Types.thy ===== *)
theory Java_Types
  imports Prelude
begin

text \<open>
  Types and signatures of the Java bindings (\<^verbatim>\<open>java/jreference.h\<close>, \<^verbatim>\<open>java/jmethoddelegate.h\<close>,
  \<^verbatim>\<open>jmethoddelegate_internal.h\<close>, \<^verbatim>\<open>java/lang/\<close>): the template \<^verbatim>\<open>JSignature\<close> computes the descriptor
  that the Java virtual machine finds a method by, and \<^verbatim>\<open>JMethodDelegateValue\<close> packs the arguments of
  a call.  The theorems relate both to a parser of descriptors that is written from the
  specification of the virtual machine.
\<close>

section \<open>Types\<close>

text \<open>The rows of the table \<^verbatim>\<open>BRICKS_JAVA_TYPES_DEFINITIONS_ALL\<close>, and references.\<close>

datatype java_type =
    JVoid | JBoolean | JByte | JChar | JShort | JInt | JLong | JFloat | JDouble | JReferenceType

text \<open>The C++ types that have a signature: \<open>TClass\<close> is a class with a qualified name, \<open>TArray\<close> an
  array class of either library.\<close>

datatype cpp_type =
    TVoid | TBool | TS8 | TU8 | TChar | TS16 | TU16 | TS32 | TU32 | TS64 | TU64 | TFloat | TDouble
  | TClass string | TObject | TString
  | TConst cpp_type | TPointer cpp_type | TRef cpp_type
  | TArray cpp_type
  | TFunction cpp_type "cpp_type list"

fun java_signature :: "cpp_type \<Rightarrow> string" where
  "java_signature TVoid = ''V''"
| "java_signature TBool = ''Z''"
| "java_signature TS8 = ''B''"
| "java_signature TU8 = ''B''"
| "java_signature TChar = ''C''"
| "java_signature TU16 = ''S''"
| "java_signature TS16 = ''S''"
| "java_signature TU32 = ''I''"
| "java_signature TS32 = ''I''"
| "java_signature TU64 = ''J''"
| "java_signature TS64 = ''J''"
| "java_signature TFloat = ''F''"
| "java_signature TDouble = ''D''"
| "java_signature (TClass name) = ''L'' @ name @ '';''"
| "java_signature TObject = ''Ljava/lang/Object;''"
| "java_signature TString = ''Ljava/lang/String;''"
| "java_signature (TConst t) = java_signature t"
| "java_signature (TPointer t) = java_signature t"
| "java_signature (TRef t) = java_signature t"
| "java_signature (TArray t) = ''['' @ java_signature t"
| "java_signature (TFunction r ts) = ''('' @ concat (map java_signature ts) @ '')'' @ java_signature r"

section \<open>Arguments\<close>

text \<open>A \<^verbatim>\<open>jvalue\<close> with the member that was written; a reference is a number, null is 0.  Signed and
  unsigned integers are the words of their bits; \<open>'f\<close> are the floating point numbers.\<close>

datatype 'f jvalue = JZ bool | JB u8 | JC u16 | JS u16 | JI u32 | JJ u64 | JF 'f | JD 'f | JL nat

datatype 'f argument =
    ABool bool | AS8 u8 | AU8 u8 | AChar u8 | AU16 u16 | AS16 u16 | AS32 u32 | AU32 u32 | AS64 u64 | AU64 u64
  | AFloat 'f | ADouble 'f | AReference nat

text \<open>A plain \<^verbatim>\<open>char\<close> is signed; it is widened with its sign.\<close>

fun jmethod_delegate_value :: "'f argument \<Rightarrow> 'f jvalue" where
  "jmethod_delegate_value (ABool v) = JZ v"
| "jmethod_delegate_value (AS8 v) = JB v"
| "jmethod_delegate_value (AU8 v) = JB v"
| "jmethod_delegate_value (AChar v) = JC (scast v)"
| "jmethod_delegate_value (AU16 v) = JS v"
| "jmethod_delegate_value (AS16 v) = JS v"
| "jmethod_delegate_value (AS32 v) = JI v"
| "jmethod_delegate_value (AU32 v) = JI v"
| "jmethod_delegate_value (AS64 v) = JJ v"
| "jmethod_delegate_value (AU64 v) = JJ v"
| "jmethod_delegate_value (AFloat v) = JF v"
| "jmethod_delegate_value (ADouble v) = JD v"
| "jmethod_delegate_value (AReference r) = JL r"

definition jmethod_delegate_array :: "'f argument list \<Rightarrow> 'f jvalue list" where
  "jmethod_delegate_array args = map jmethod_delegate_value args"

section \<open>Descriptors\<close>

text \<open>The descriptors of the virtual machine's specification, and their parser.\<close>

datatype descriptor = DBase java_type | DClass string | DArray descriptor

fun base_descriptor :: "char \<Rightarrow> java_type option" where
  "base_descriptor c =
     (if c = CHR ''V'' then Some JVoid else if c = CHR ''Z'' then Some JBoolean else if c = CHR ''B'' then Some JByte
      else if c = CHR ''C'' then Some JChar else if c = CHR ''S'' then Some JShort else if c = CHR ''I'' then Some JInt
      else if c = CHR ''J'' then Some JLong else if c = CHR ''F'' then Some JFloat else if c = CHR ''D'' then Some JDouble
      else None)"

fun parse_field :: "string \<Rightarrow> (descriptor \<times> string) option" where
  "parse_field [] = None"
| "parse_field (c # cs) =
     (if c = CHR ''['' then map_option (\<lambda>(d, r). (DArray d, r)) (parse_field cs)
      else if c = CHR ''L'' then
        (case dropWhile (\<lambda>c. c \<noteq> CHR '';'') cs of [] \<Rightarrow> None | _ # r \<Rightarrow> Some (DClass (takeWhile (\<lambda>c. c \<noteq> CHR '';'') cs), r))
      else map_option (\<lambda>b. (DBase b, cs)) (base_descriptor c))"

text \<open>The arguments up to the closing parenthesis; there are not more than characters.\<close>

fun parse_arguments :: "nat \<Rightarrow> string \<Rightarrow> (descriptor list \<times> string) option" where
  "parse_arguments 0 cs = None"
| "parse_arguments (Suc n) cs =
     (case cs of [] \<Rightarrow> None
      | c # cs' \<Rightarrow>
          if c = CHR '')'' then Some ([], cs')
          else (case parse_field cs of None \<Rightarrow> None
            | Some (d, r) \<Rightarrow> map_option (\<lambda>(ds, r'). (d # ds, r')) (parse_arguments n r)))"

definition parse_method :: "string \<Rightarrow> (descriptor list \<times> descriptor) option" where
  "parse_method cs =
     (case cs of [] \<Rightarrow> None
      | c # cs' \<Rightarrow>
          if c \<noteq> CHR ''('' then None
          else (case parse_arguments (length cs') cs' of None \<Rightarrow> None
            | Some (ds, r) \<Rightarrow> (case parse_field r of Some (d, []) \<Rightarrow> Some (ds, d) | _ \<Rightarrow> None)))"

text \<open>The Java type that a C++ type stands for, the types that may occur in a signature, and the
  values of a type.\<close>

fun java_descriptor :: "cpp_type \<Rightarrow> descriptor" where
  "java_descriptor TVoid = DBase JVoid"
| "java_descriptor TBool = DBase JBoolean"
| "java_descriptor TS8 = DBase JByte"
| "java_descriptor TU8 = DBase JByte"
| "java_descriptor TChar = DBase JChar"
| "java_descriptor TU16 = DBase JShort"
| "java_descriptor TS16 = DBase JShort"
| "java_descriptor TU32 = DBase JInt"
| "java_descriptor TS32 = DBase JInt"
| "java_descriptor TU64 = DBase JLong"
| "java_descriptor TS64 = DBase JLong"
| "java_descriptor TFloat = DBase JFloat"
| "java_descriptor TDouble = DBase JDouble"
| "java_descriptor (TClass name) = DClass name"
| "java_descriptor TObject = DClass ''java/lang/Object''"
| "java_descriptor TString = DClass ''java/lang/String''"
| "java_descriptor (TConst t) = java_descriptor t"
| "java_descriptor (TPointer t) = java_descriptor t"
| "java_descriptor (TRef t) = java_descriptor t"
| "java_descriptor (TArray t) = DArray (java_descriptor t)"
| "java_descriptor (TFunction r ts) = undefined"

fun plain_type :: "cpp_type \<Rightarrow> bool" where
  "plain_type (TClass name) \<longleftrightarrow> CHR '';'' \<notin> set name"
| "plain_type (TConst t) \<longleftrightarrow> plain_type t"
| "plain_type (TPointer t) \<longleftrightarrow> plain_type t"
| "plain_type (TRef t) \<longleftrightarrow> plain_type t"
| "plain_type (TArray t) \<longleftrightarrow> plain_type t"
| "plain_type (TFunction r ts) \<longleftrightarrow> False"
| "plain_type _ \<longleftrightarrow> True"

fun stripped :: "cpp_type \<Rightarrow> cpp_type" where
  "stripped (TConst t) = stripped t"
| "stripped (TRef t) = stripped t"
| "stripped t = t"

text \<open>An argument of a type; objects, strings and arrays, and pointers to objects and arrays, are
  passed as references.\<close>

fun argument_type :: "'f argument \<Rightarrow> cpp_type option" where
  "argument_type (ABool v) = Some TBool"
| "argument_type (AS8 v) = Some TS8"
| "argument_type (AU8 v) = Some TU8"
| "argument_type (AChar v) = Some TChar"
| "argument_type (AS16 v) = Some TS16"
| "argument_type (AU16 v) = Some TU16"
| "argument_type (AS32 v) = Some TS32"
| "argument_type (AU32 v) = Some TU32"
| "argument_type (AS64 v) = Some TS64"
| "argument_type (AU64 v) = Some TU64"
| "argument_type (AFloat v) = Some TFloat"
| "argument_type (ADouble v) = Some TDouble"
| "argument_type (AReference r) = None"

fun reference_type :: "cpp_type \<Rightarrow> bool" where
  "reference_type (TClass n) = True"
| "reference_type TObject = True"
| "reference_type TString = True"
| "reference_type (TArray t) = True"
| "reference_type (TPointer t) = (reference_type t \<and> t \<noteq> TString)"
| "reference_type (TConst t) = reference_type t"
| "reference_type (TRef t) = reference_type t"
| "reference_type _ = False"

definition argument_of :: "cpp_type \<Rightarrow> 'f argument \<Rightarrow> bool" where
  "argument_of t a \<longleftrightarrow> (case argument_type a of Some u \<Rightarrow> stripped t = u | None \<Rightarrow> reference_type t)"

text \<open>What the virtual machine reads from a \<^verbatim>\<open>jvalue\<close> for an argument with a descriptor.\<close>

fun jvalue_type :: "'f jvalue \<Rightarrow> java_type" where
  "jvalue_type (JZ v) = JBoolean"
| "jvalue_type (JB v) = JByte"
| "jvalue_type (JC v) = JChar"
| "jvalue_type (JS v) = JShort"
| "jvalue_type (JI v) = JInt"
| "jvalue_type (JJ v) = JLong"
| "jvalue_type (JF v) = JFloat"
| "jvalue_type (JD v) = JDouble"
| "jvalue_type (JL v) = JReferenceType"

definition member_for :: "descriptor \<Rightarrow> 'f jvalue \<Rightarrow> bool" where
  "member_for d v \<longleftrightarrow> jvalue_type v = (case d of DBase b \<Rightarrow> b | _ \<Rightarrow> JReferenceType)"

section \<open>Signatures are read back\<close>

lemma parse_field_class:
  "CHR '';'' \<notin> set name \<Longrightarrow> parse_field (CHR ''L'' # name @ CHR '';'' # rest) = Some (DClass name, rest)"
proof -
  assume "CHR '';'' \<notin> set name"
  then have "takeWhile (\<lambda>c. c \<noteq> CHR '';'') (name @ CHR '';'' # rest) = name"
    "dropWhile (\<lambda>c. c \<noteq> CHR '';'') (name @ CHR '';'' # rest) = CHR '';'' # rest"
    by (induction name) auto
  then show ?thesis by simp
qed

lemma parse_field_signature:
  "plain_type t \<Longrightarrow> parse_field (java_signature t @ rest) = Some (java_descriptor t, rest)"
  by (induction t arbitrary: rest) (simp_all add: parse_field_class del: parse_field.simps(2), simp_all)

lemma signature_head:
  assumes "plain_type t" obtains c cs where "java_signature t = c # cs" "c \<noteq> CHR '')''"
  using assms by (induction t arbitrary: thesis) auto

lemma parse_arguments_signatures:
  assumes "\<forall>t\<in>set ts. plain_type t" "length ts < n"
  shows "parse_arguments n (concat (map java_signature ts) @ CHR '')'' # rest) = Some (map java_descriptor ts, rest)"
  using assms
proof (induction ts arbitrary: n)
  case Nil
  then show ?case by (cases n) simp_all
next
  case (Cons t ts)
  then obtain m where n: "n = Suc m" "length ts < m" by (cases n) auto
  have t: "plain_type t" using Cons.prems by simp
  then obtain c cs where c: "java_signature t = c # cs" "c \<noteq> CHR '')''" by (rule signature_head)
  have "parse_field (c # cs @ concat (map java_signature ts) @ CHR '')'' # rest) =
      Some (java_descriptor t, concat (map java_signature ts) @ CHR '')'' # rest)"
    using parse_field_signature [OF t] c(1) by (metis append_Cons)
  then show ?case using Cons c n by (simp del: parse_field.simps)
qed

lemma signatures_length: "\<forall>t\<in>set ts. plain_type t \<Longrightarrow> length ts \<le> length (concat (map java_signature ts))"
proof (induction ts)
  case (Cons t ts)
  then obtain c cs where "java_signature t = c # cs" by (meson list.set_intros(1) signature_head)
  then show ?case using Cons by simp
qed simp

lemma parse_method_signature:
  assumes "\<forall>t\<in>set ts. plain_type t" "plain_type r"
  shows "parse_method (java_signature (TFunction r ts)) = Some (map java_descriptor ts, java_descriptor r)"
proof -
  let ?s = "concat (map java_signature ts) @ CHR '')'' # java_signature r"
  have "length ts < length ?s" using signatures_length [OF assms(1)] by simp
  from parse_arguments_signatures [OF assms(1) this]
  have "parse_arguments (length ?s) ?s = Some (map java_descriptor ts, java_signature r)" .
  moreover have "parse_field (java_signature r) = Some (java_descriptor r, [])"
    using parse_field_signature [OF assms(2), of "[]"] by simp
  ultimately show ?thesis by (simp add: parse_method_def)
qed

text \<open>The signature that is computed from a C++ function type is a method descriptor of the Java
  virtual machine, and parsing it gives the Java types of its arguments and of its result.\<close>

theorem signature_roundtrip:
  assumes "\<forall>t\<in>set ts. plain_type t" "plain_type r"
  shows "parse_method (java_signature (TFunction r ts)) = Some (map java_descriptor ts, java_descriptor r)"
  by (rule parse_method_signature [OF assms])

theorem signature_roundtrip_witness:
  "parse_method (java_signature (TFunction TVoid [TConst (TRef TString), TArray TU8, TS64])) =
    Some ([DClass ''java/lang/String'', DArray (DBase JByte), DBase JLong], DBase JVoid)"
  by (subst signature_roundtrip) simp_all

lemma java_descriptor_stripped: "java_descriptor (stripped t) = java_descriptor t"
  by (induction t) simp_all

lemma reference_descriptor: "reference_type t \<Longrightarrow> \<exists>n d. java_descriptor t \<in> {DClass n, DArray d}"
  by (induction t) auto

lemma member_for_argument:
  assumes "argument_of t a" shows "member_for (java_descriptor t) (jmethod_delegate_value a)"
proof (cases "argument_type a")
  case None
  then have "jvalue_type (jmethod_delegate_value a) = JReferenceType" by (cases a) simp_all
  then show ?thesis using assms None reference_descriptor [of t] by (auto simp: argument_of_def member_for_def)
next
  case (Some u)
  then have "stripped t = u" using assms by (simp add: argument_of_def)
  then have "java_descriptor t = java_descriptor u" using java_descriptor_stripped [of t] by simp
  then show ?thesis using Some by (cases a) (auto simp: member_for_def)
qed

text \<open>C38: The arguments that a method delegate packs are in the members of \<^verbatim>\<open>jvalue\<close> that the virtual
  machine reads for the signature under which the delegate looks up the method.\<close>

theorem arguments_match_signature:
  assumes "\<forall>t\<in>set ts. plain_type t" "plain_type r" "list_all2 argument_of ts args"
  shows "\<exists>ds d. parse_method (java_signature (TFunction r ts)) = Some (ds, d) \<and>
    list_all2 member_for ds (jmethod_delegate_array args)"
proof -
  have "argument_of t a \<Longrightarrow> member_for (java_descriptor t) (jmethod_delegate_value a)" for t and a :: "'a argument"
    by (rule member_for_argument)
  then have "list_all2 member_for (map java_descriptor ts) (jmethod_delegate_array args)"
    using assms(3) by (simp add: jmethod_delegate_array_def list_all2_map1 list_all2_map2 list_all2_mono)
  then show ?thesis using parse_method_signature [OF assms(1,2)] by blast
qed

theorem arguments_match_signature_witness:
  "\<exists>ds d. parse_method (java_signature (TFunction TVoid [TBool, TPointer (TClass ''a/B'')])) = Some (ds, d) \<and>
    list_all2 member_for ds (jmethod_delegate_array [ABool True, AReference 7 :: nat argument])"
  by (rule arguments_match_signature) (simp_all add: argument_of_def)

text \<open>A character above 127 is passed to Java with a sign that it does not have there.\<close>

lemma char_widened: "jmethod_delegate_value (AChar 0xE9) = JC 0xFFE9"
  by simp

end
