(* ===== verification/Java_VM.thy ===== *)
theory Java_VM
  imports Java_Types Locks BString
begin

text \<open>
  The Java bindings (\<^verbatim>\<open>java/jvm.h\<close>, \<^verbatim>\<open>jreference.h\<close>, \<^verbatim>\<open>jobject.h\<close>, \<^verbatim>\<open>jclass.h\<close>,
  \<^verbatim>\<open>jmethod.h\<close>, \<^verbatim>\<open>jfield.h\<close>, \<^verbatim>\<open>jmethoddelegate_internal.h\<close> and \<^verbatim>\<open>source/java/\<close>).  The calls of
  the Java native interface are a parameter, the record \<open>jni_calls\<close> over the state \<open>'w\<close> of the
  virtual machine.  Each takes the environment of the calling thread.  References, classes and the
  identifiers of methods and fields are numbers; 0 is the null pointer.
\<close>

section \<open>Calls of the native interface\<close>

text \<open>The three families of calls, \<^verbatim>\<open>Call<type>Method\<close>, \<^verbatim>\<open>CallStatic<type>Method\<close> and
  \<^verbatim>\<open>CallNonvirtual<type>Method\<close>, which take the class as well.\<close>

datatype call_family = Instance_Call | Static_Call | Nonvirtual_Call nat

record ('f, 'w) jni_calls =
  jn_attach :: "'w \<Rightarrow> int \<times> nat \<times> 'w"
  jn_find_class :: "nat \<Rightarrow> bytes \<Rightarrow> 'w \<Rightarrow> nat \<times> 'w"
  jn_new_global_ref :: "nat \<Rightarrow> nat \<Rightarrow> 'w \<Rightarrow> nat \<times> 'w"
  jn_delete_global_ref :: "nat \<Rightarrow> nat \<Rightarrow> 'w \<Rightarrow> unit \<times> 'w"
  jn_get_object_class :: "nat \<Rightarrow> nat \<Rightarrow> 'w \<Rightarrow> nat \<times> 'w"
  jn_get_superclass :: "nat \<Rightarrow> nat \<Rightarrow> 'w \<Rightarrow> nat \<times> 'w"
  jn_is_instance_of :: "nat \<Rightarrow> nat \<Rightarrow> nat \<Rightarrow> 'w \<Rightarrow> bool \<times> 'w"
  jn_alloc_object :: "nat \<Rightarrow> nat \<Rightarrow> 'w \<Rightarrow> nat \<times> 'w"
  jn_get_field_id :: "nat \<Rightarrow> bool \<Rightarrow> nat \<Rightarrow> bytes \<Rightarrow> bytes \<Rightarrow> 'w \<Rightarrow> nat \<times> 'w"
  jn_get_method_id :: "nat \<Rightarrow> bool \<Rightarrow> nat \<Rightarrow> bytes \<Rightarrow> bytes \<Rightarrow> 'w \<Rightarrow> nat \<times> 'w"
  jn_to_reflected_method :: "nat \<Rightarrow> nat \<Rightarrow> nat \<Rightarrow> bool \<Rightarrow> 'w \<Rightarrow> nat \<times> 'w"
  jn_to_reflected_field :: "nat \<Rightarrow> nat \<Rightarrow> nat \<Rightarrow> bool \<Rightarrow> 'w \<Rightarrow> nat \<times> 'w"
  jn_call_method :: "nat \<Rightarrow> call_family \<Rightarrow> java_type \<Rightarrow> nat \<Rightarrow> nat \<Rightarrow> 'f jvalue list \<Rightarrow> 'w \<Rightarrow> 'f jvalue \<times> 'w"
  jn_get_field :: "nat \<Rightarrow> bool \<Rightarrow> java_type \<Rightarrow> nat \<Rightarrow> nat \<Rightarrow> 'w \<Rightarrow> 'f jvalue \<times> 'w"
  jn_set_field :: "nat \<Rightarrow> bool \<Rightarrow> java_type \<Rightarrow> nat \<Rightarrow> nat \<Rightarrow> 'f jvalue \<Rightarrow> 'w \<Rightarrow> unit \<times> 'w"

text \<open>The program's side: the machine's state and the environments that \<^verbatim>\<open>JVM\<close> keeps per thread.\<close>

record ('t, 'w) jvm =
  vm_state :: 'w
  vm_environments :: "('t, nat) local_storage"

section \<open>JVM\<close>

definition jvm_new :: "'w \<Rightarrow> ('t, 'w) jvm" where
  "jvm_new w = \<lparr>vm_state = w, vm_environments = storage_new\<rparr>"

text \<open>A new machine: its status is not looked at, so that after a failure the environment is what
  \<open>JNI_CreateJavaVM\<close> left in the variable.  The thread that makes it has its environment.\<close>

definition jvm_create :: "(int \<Rightarrow> 'w \<Rightarrow> int \<times> nat \<times> 'w) \<Rightarrow> 't \<Rightarrow> int \<Rightarrow> 'w \<Rightarrow> ('t, 'w) jvm" where
  "jvm_create create_java_vm t version w =
     (case create_java_vm version w of (status, env, w') \<Rightarrow>
        \<lparr>vm_state = w', vm_environments = local_set_value t env storage_new\<rparr>)"

definition jvm_destroy :: "('w \<Rightarrow> 'w) \<Rightarrow> bool \<Rightarrow> ('t, 'w) jvm \<Rightarrow> ('t, 'w) jvm" where
  "jvm_destroy destroy_java_vm owner vm =
     (if owner then vm\<lparr>vm_state := destroy_java_vm (vm_state vm)\<rparr> else vm)"

text \<open>The current machine: the one that was set, or a new object for the first of those the process
  has.  \<open>current\<close> is the static pointer, \<open>wrap\<close> the constructor from a \<^verbatim>\<open>JavaVM*\<close>.\<close>

definition jvm_set_current :: "'j option \<Rightarrow> 'j option \<Rightarrow> 'j option" where
  "jvm_set_current vm current = vm"

definition jvm_get_current :: "('m \<Rightarrow> 'j) \<Rightarrow> 'm list \<Rightarrow> 'j option \<Rightarrow> 'j option" where
  "jvm_get_current wrap created current =
     (case current of
        Some vm \<Rightarrow> Some vm
      | None \<Rightarrow> (case created of [] \<Rightarrow> None | m # ms \<Rightarrow> Some (wrap m)))"

definition jvm_get_env :: "('f, 'w, 'j) jni_calls_scheme \<Rightarrow> 't \<Rightarrow> (('t, 'w) jvm, nat) io" where
  "jvm_get_env J t vm =
     (if storage_has_data t (vm_environments vm) then (local_get_value t (vm_environments vm), vm)
      else (case jn_attach J (vm_state vm) of (status, env, w) \<Rightarrow>
        if status \<noteq> 0 then (throw (Exception ''''), vm\<lparr>vm_state := w\<rparr>)
        else (Inr env, vm\<lparr>vm_state := w, vm_environments := local_set_value t env (vm_environments vm)\<rparr>)))"

text \<open>A call \<^verbatim>\<open>GetEnv()->...\<close> by a thread.\<close>

definition jni :: "('f, 'w, 'j) jni_calls_scheme \<Rightarrow> 't \<Rightarrow> (nat \<Rightarrow> 'w \<Rightarrow> 'a \<times> 'w) \<Rightarrow> (('t, 'w) jvm, 'a) io" where
  "jni J t call = bind_w (jvm_get_env J t) (\<lambda>env vm.
     case call env (vm_state vm) of (x, w) \<Rightarrow> (Inr x, vm\<lparr>vm_state := w\<rparr>))"

section \<open>JReference\<close>

record jreference =
  jr_reference :: nat
  jr_global :: bool

definition reference_new :: "nat \<Rightarrow> bool \<Rightarrow> jreference" where
  "reference_new r global = \<lparr>jr_reference = r, jr_global = global\<rparr>"

definition make_global :: "('f, 'w, 'j) jni_calls_scheme \<Rightarrow> 't \<Rightarrow> ('z jreference_scheme) \<Rightarrow> (('t, 'w) jvm, 'z jreference_scheme) io" where
  "make_global J t x =
     (if jr_global x then return_w (Inr x)
      else bind_w (jni J t (\<lambda>env. jn_new_global_ref J env (jr_reference x))) (\<lambda>r.
        if r = 0 then return_w (throw (OutOfMemoryException ''''))
        else return_w (Inr (x\<lparr>jr_reference := r, jr_global := True\<rparr>))))"

definition reference_copy :: "('f, 'w, 'j) jni_calls_scheme \<Rightarrow> 't \<Rightarrow> 'z jreference_scheme \<Rightarrow> (('t, 'w) jvm, jreference) io" where
  "reference_copy J t x =
     (let y = \<lparr>jr_reference = jr_reference x, jr_global = False\<rparr> in
      if jr_global x then make_global J t y else return_w (Inr y))"

definition reference_destroy :: "('f, 'w, 'j) jni_calls_scheme \<Rightarrow> 't \<Rightarrow> 'z jreference_scheme \<Rightarrow> (('t, 'w) jvm, unit) io" where
  "reference_destroy J t x =
     (if jr_global x then jni J t (\<lambda>env. jn_delete_global_ref J env (jr_reference x)) else return_w (Inr ()))"

text \<open>The class declares no assignment operator: the implicit one copies the members.\<close>

definition reference_assign :: "jreference \<Rightarrow> jreference \<Rightarrow> jreference" where
  "reference_assign x y = x\<lparr>jr_reference := jr_reference y, jr_global := jr_global y\<rparr>"

section \<open>JClass and JObject\<close>

text \<open>A class is a reference; an object has the reference of its class once that was asked for.\<close>

record jobject = jreference +
  jo_class :: "jreference option"

definition jvm_get_class :: "('f, 'w, 'j) jni_calls_scheme \<Rightarrow> 't \<Rightarrow> bstring \<Rightarrow> (('t, 'w) jvm, jreference option) io" where
  "jvm_get_class J t name =
     bind_w (jni J t (\<lambda>env. jn_find_class J env (c_string name))) (\<lambda>c.
     return_w (Inr (if c = 0 then None else Some (reference_new c False))))"

definition class_of_object :: "('f, 'w, 'j) jni_calls_scheme \<Rightarrow> 't \<Rightarrow> nat \<Rightarrow> (('t, 'w) jvm, jreference) io" where
  "class_of_object J t r =
     bind_w (jni J t (\<lambda>env. jn_get_object_class J env r)) (\<lambda>c. return_w (Inr (reference_new c False)))"

definition object_new :: "nat \<Rightarrow> bool \<Rightarrow> jobject" where
  "object_new r global = \<lparr>jr_reference = r, jr_global = global, jo_class = None\<rparr>"

definition object_of_class :: "jreference \<Rightarrow> nat \<Rightarrow> bool \<Rightarrow> jobject" where
  "object_of_class c r global = \<lparr>jr_reference = r, jr_global = global, jo_class = Some c\<rparr>"

definition object_of_reference :: "('f, 'w, 'j) jni_calls_scheme \<Rightarrow> 't \<Rightarrow> 'z jreference_scheme \<Rightarrow> (('t, 'w) jvm, jobject) io" where
  "object_of_reference J t x =
     bind_w (reference_copy J t x) (\<lambda>y. return_w (Inr (object_new (jr_reference y) (jr_global y))))"

definition fill_class :: "('f, 'w, 'j) jni_calls_scheme \<Rightarrow> 't \<Rightarrow> jobject \<Rightarrow> (('t, 'w) jvm, jobject) io" where
  "fill_class J t x =
     bind_w (class_of_object J t (jr_reference x)) (\<lambda>c. return_w (Inr (x\<lparr>jo_class := Some c\<rparr>)))"

definition object_get_class :: "('f, 'w, 'j) jni_calls_scheme \<Rightarrow> 't \<Rightarrow> jobject \<Rightarrow> (('t, 'w) jvm, jreference \<times> jobject) io" where
  "object_get_class J t x =
     (case jo_class x of
        Some c \<Rightarrow> return_w (Inr (c, x))
      | None \<Rightarrow> bind_w (fill_class J t x) (\<lambda>x'. return_w
          (case jo_class x' of None \<Rightarrow> Inl Undefined | Some c \<Rightarrow> Inr (c, x'))))"

definition is_type_of :: "('f, 'w, 'j) jni_calls_scheme \<Rightarrow> 't \<Rightarrow> jobject \<Rightarrow> jreference \<Rightarrow> (('t, 'w) jvm, bool) io" where
  "is_type_of J t x c = jni J t (\<lambda>env. jn_is_instance_of J env (jr_reference x) (jr_reference c))"

definition class_get_superclass :: "('f, 'w, 'j) jni_calls_scheme \<Rightarrow> 't \<Rightarrow> jreference \<Rightarrow> (('t, 'w) jvm, jreference) io" where
  "class_get_superclass J t c =
     bind_w (jni J t (\<lambda>env. jn_get_superclass J env (jr_reference c))) (\<lambda>s. return_w (Inr (reference_new s False)))"

definition class_allocate :: "('f, 'w, 'j) jni_calls_scheme \<Rightarrow> 't \<Rightarrow> jreference \<Rightarrow> (('t, 'w) jvm, jobject) io" where
  "class_allocate J t c =
     bind_w (jni J t (\<lambda>env. jn_alloc_object J env (jr_reference c))) (\<lambda>r. return_w (Inr (object_of_class c r False)))"

section \<open>JMethod and JField\<close>

datatype member_kind = Virtual_Member | Static_Member | Nonvirtual_Member

record jmethod =
  jm_class :: jreference
  jm_method :: nat
  jm_kind :: member_kind

record jfield =
  jf_class :: jreference
  jf_field :: nat
  jf_static :: bool

text \<open>A signature as a C string.\<close>

definition signature_bytes :: "cpp_type \<Rightarrow> bytes" where
  "signature_bytes ty = map (\<lambda>c. word_of_nat (of_char c)) (java_signature ty) @ [0]"

definition class_get_method :: "('f, 'w, 'j) jni_calls_scheme \<Rightarrow> 't \<Rightarrow> jreference \<Rightarrow> bytes \<Rightarrow> bytes \<Rightarrow> (('t, 'w) jvm, jmethod option) io" where
  "class_get_method J t c name signature =
     bind_w (jni J t (\<lambda>env. jn_get_method_id J env False (jr_reference c) name signature)) (\<lambda>m.
     return_w (Inr (if m = 0 then None else Some \<lparr>jm_class = c, jm_method = m, jm_kind = Virtual_Member\<rparr>)))"

definition class_get_static_method :: "('f, 'w, 'j) jni_calls_scheme \<Rightarrow> 't \<Rightarrow> jreference \<Rightarrow> bytes \<Rightarrow> bytes \<Rightarrow> (('t, 'w) jvm, jmethod option) io" where
  "class_get_static_method J t c name signature =
     bind_w (jni J t (\<lambda>env. jn_get_method_id J env True (jr_reference c) name signature)) (\<lambda>m.
     return_w (Inr (if m = 0 then None else Some \<lparr>jm_class = c, jm_method = m, jm_kind = Static_Member\<rparr>)))"

definition init_name :: bytes where
  "init_name = [0x3C, 0x69, 0x6E, 0x69, 0x74, 0x3E, 0]"

definition class_get_constructor :: "('f, 'w, 'j) jni_calls_scheme \<Rightarrow> 't \<Rightarrow> jreference \<Rightarrow> bytes \<Rightarrow> (('t, 'w) jvm, jmethod option) io" where
  "class_get_constructor J t c signature =
     bind_w (jni J t (\<lambda>env. jn_get_method_id J env False (jr_reference c) init_name signature)) (\<lambda>m.
     return_w (Inr (if m = 0 then None else Some \<lparr>jm_class = c, jm_method = m, jm_kind = Nonvirtual_Member\<rparr>)))"

definition class_get_field :: "('f, 'w, 'j) jni_calls_scheme \<Rightarrow> 't \<Rightarrow> jreference \<Rightarrow> bytes \<Rightarrow> bytes \<Rightarrow> (('t, 'w) jvm, jfield option) io" where
  "class_get_field J t c name signature =
     bind_w (jni J t (\<lambda>env. jn_get_field_id J env False (jr_reference c) name signature)) (\<lambda>f.
     return_w (Inr (if f = 0 then None else Some \<lparr>jf_class = c, jf_field = f, jf_static = False\<rparr>)))"

definition class_get_static_field :: "('f, 'w, 'j) jni_calls_scheme \<Rightarrow> 't \<Rightarrow> jreference \<Rightarrow> bytes \<Rightarrow> bytes \<Rightarrow> (('t, 'w) jvm, jfield option) io" where
  "class_get_static_field J t c name signature =
     bind_w (jni J t (\<lambda>env. jn_get_field_id J env True (jr_reference c) name signature)) (\<lambda>f.
     return_w (Inr (if f = 0 then None else Some \<lparr>jf_class = c, jf_field = f, jf_static = True\<rparr>)))"

definition method_get_reflection :: "('f, 'w, 'j) jni_calls_scheme \<Rightarrow> 't \<Rightarrow> jmethod \<Rightarrow> (('t, 'w) jvm, jobject) io" where
  "method_get_reflection J t m =
     bind_w (jni J t (\<lambda>env. jn_to_reflected_method J env (jr_reference (jm_class m)) (jm_method m) (jm_kind m = Static_Member)))
       (\<lambda>r. return_w (Inr (object_new r False)))"

definition nonvirtual_of_method :: "jmethod \<Rightarrow> jmethod" where
  "nonvirtual_of_method m = m\<lparr>jm_kind := Nonvirtual_Member\<rparr>"

text \<open>The calls of the three classes, for every result type but objects, and for objects.\<close>

definition method_family :: "jmethod \<Rightarrow> call_family" where
  "method_family m =
     (case jm_kind m of
        Virtual_Member \<Rightarrow> Instance_Call
      | Static_Member \<Rightarrow> Static_Call
      | Nonvirtual_Member \<Rightarrow> Nonvirtual_Call (jr_reference (jm_class m)))"

definition method_call :: "('f, 'w, 'j) jni_calls_scheme \<Rightarrow> 't \<Rightarrow> java_type \<Rightarrow> jmethod \<Rightarrow> nat \<Rightarrow> 'f jvalue list \<Rightarrow> (('t, 'w) jvm, 'f jvalue) io" where
  "method_call J t ty m obj args =
     jni J t (\<lambda>env. jn_call_method J env (method_family m) ty obj (jm_method m) args)"

definition method_call_object :: "('f, 'w, 'j) jni_calls_scheme \<Rightarrow> 't \<Rightarrow> jmethod \<Rightarrow> nat \<Rightarrow> 'f jvalue list \<Rightarrow> (('t, 'w) jvm, jobject) io" where
  "method_call_object J t m obj args =
     bind_w (method_call J t JReferenceType m obj args) (\<lambda>v.
     return_w (case v of JL r \<Rightarrow> Inr (object_new r False) | _ \<Rightarrow> Inl Undefined))"

definition static_method_call :: "('f, 'w, 'j) jni_calls_scheme \<Rightarrow> 't \<Rightarrow> java_type \<Rightarrow> jmethod \<Rightarrow> 'f jvalue list \<Rightarrow> (('t, 'w) jvm, 'f jvalue) io" where
  "static_method_call J t ty m args = method_call J t ty m (jr_reference (jm_class m)) args"

text \<open>The accessors of the primitive types are virtual; those of objects are not, so \<^verbatim>\<open>JField::GetValue\<close>
  and \<^verbatim>\<open>SetValue\<close>, which \<^verbatim>\<open>JStaticField\<close> forwards to, use the calls for instance fields.\<close>

definition field_get_reflection :: "('f, 'w, 'j) jni_calls_scheme \<Rightarrow> 't \<Rightarrow> jfield \<Rightarrow> (('t, 'w) jvm, jobject) io" where
  "field_get_reflection J t f =
     bind_w (jni J t (\<lambda>env. jn_to_reflected_field J env (jr_reference (jf_class f)) (jf_field f) (jf_static f)))
       (\<lambda>r. return_w (Inr (object_new r False)))"

definition field_get :: "('f, 'w, 'j) jni_calls_scheme \<Rightarrow> 't \<Rightarrow> java_type \<Rightarrow> jfield \<Rightarrow> nat \<Rightarrow> (('t, 'w) jvm, 'f jvalue) io" where
  "field_get J t ty f obj =
     jni J t (\<lambda>env. jn_get_field J env (jf_static f \<and> ty \<noteq> JReferenceType) ty obj (jf_field f))"

definition field_set :: "('f, 'w, 'j) jni_calls_scheme \<Rightarrow> 't \<Rightarrow> java_type \<Rightarrow> jfield \<Rightarrow> nat \<Rightarrow> 'f jvalue \<Rightarrow> (('t, 'w) jvm, unit) io" where
  "field_set J t ty f obj v =
     jni J t (\<lambda>env. jn_set_field J env (jf_static f \<and> ty \<noteq> JReferenceType) ty obj (jf_field f) v)"

definition field_get_object :: "('f, 'w, 'j) jni_calls_scheme \<Rightarrow> 't \<Rightarrow> jfield \<Rightarrow> nat \<Rightarrow> (('t, 'w) jvm, jobject) io" where
  "field_get_object J t f obj =
     bind_w (field_get J t JReferenceType f obj) (\<lambda>v.
     return_w (case v of JL r \<Rightarrow> Inr (object_new r False) | _ \<Rightarrow> Inl Undefined))"

definition static_field_get :: "('f, 'w, 'j) jni_calls_scheme \<Rightarrow> 't \<Rightarrow> java_type \<Rightarrow> jfield \<Rightarrow> (('t, 'w) jvm, 'f jvalue) io" where
  "static_field_get J t ty f = field_get J t ty f (jr_reference (jf_class f))"

definition static_field_set :: "('f, 'w, 'j) jni_calls_scheme \<Rightarrow> 't \<Rightarrow> java_type \<Rightarrow> jfield \<Rightarrow> 'f jvalue \<Rightarrow> (('t, 'w) jvm, unit) io" where
  "static_field_set J t ty f v = field_set J t ty f (jr_reference (jf_class f)) v"

text \<open>\<^verbatim>\<open>JField::SetObjectValue\<close>, and the accessors for objects of \<^verbatim>\<open>JStaticField\<close>, which take the
  class as the object and do use the calls for static fields.\<close>

definition field_set_object :: "('f, 'w, 'j) jni_calls_scheme \<Rightarrow> 't \<Rightarrow> jfield \<Rightarrow> nat \<Rightarrow> nat \<Rightarrow> (('t, 'w) jvm, unit) io" where
  "field_set_object J t f obj value = jni J t (\<lambda>env. jn_set_field J env False JReferenceType obj (jf_field f) (JL value))"

definition static_field_get_object_value :: "('f, 'w, 'j) jni_calls_scheme \<Rightarrow> 't \<Rightarrow> jfield \<Rightarrow> nat \<Rightarrow> (('t, 'w) jvm, jobject) io" where
  "static_field_get_object_value J t f clazz =
     bind_w (jni J t (\<lambda>env. jn_get_field J env True JReferenceType clazz (jf_field f))) (\<lambda>v.
     return_w (case v of JL r \<Rightarrow> Inr (object_new r False) | _ \<Rightarrow> Inl Undefined))"

definition static_field_set_object_value :: "('f, 'w, 'j) jni_calls_scheme \<Rightarrow> 't \<Rightarrow> jfield \<Rightarrow> nat \<Rightarrow> nat \<Rightarrow> (('t, 'w) jvm, unit) io" where
  "static_field_set_object_value J t f clazz value =
     jni J t (\<lambda>env. jn_set_field J env True JReferenceType clazz (jf_field f) (JL value))"

section \<open>Method delegates\<close>

text \<open>The results' types by the function type of the delegate.\<close>

definition result_type :: "cpp_type \<Rightarrow> java_type" where
  "result_type ty =
     (case ty of TFunction r ts \<Rightarrow> (case java_descriptor r of DBase b \<Rightarrow> b | _ \<Rightarrow> JReferenceType) | _ \<Rightarrow> JVoid)"

definition method_delegate_call ::
    "('f, 'w, 'j) jni_calls_scheme \<Rightarrow> 't \<Rightarrow> cpp_type \<Rightarrow> jmethod option \<Rightarrow> nat \<Rightarrow> 'f argument list \<Rightarrow> (('t, 'w) jvm, 'f jvalue) io" where
  "method_delegate_call J t ty m obj args =
     (case m of None \<Rightarrow> return_w (Inl Undefined)
      | Some m \<Rightarrow> method_call J t (result_type ty) m obj (jmethod_delegate_array args))"

definition static_method_delegate_call ::
    "('f, 'w, 'j) jni_calls_scheme \<Rightarrow> 't \<Rightarrow> cpp_type \<Rightarrow> jmethod option \<Rightarrow> 'f argument list \<Rightarrow> (('t, 'w) jvm, 'f jvalue) io" where
  "static_method_delegate_call J t ty m args =
     (case m of None \<Rightarrow> return_w (Inl Undefined)
      | Some m \<Rightarrow> static_method_call J t (result_type ty) m (jmethod_delegate_array args))"

record bound_method =
  bd_object :: jobject
  bd_method :: "jmethod option"
  bd_name :: bytes

record bound_static_method =
  bs_class :: jreference
  bs_method :: "jmethod option"
  bs_name :: bytes

definition bound_lookup :: "('f, 'w, 'j) jni_calls_scheme \<Rightarrow> 't \<Rightarrow> cpp_type \<Rightarrow> bound_method \<Rightarrow> (('t, 'w) jvm, bound_method) io" where
  "bound_lookup J t ty d =
     (if bd_method d \<noteq> None then return_w (Inr d)
      else bind_w (object_get_class J t (bd_object d)) (\<lambda>(c, x).
        bind_w (class_get_method J t c (bd_name d) (signature_bytes ty)) (\<lambda>m.
        return_w (Inr (d\<lparr>bd_object := x, bd_method := m\<rparr>)))))"

definition bound_method_call ::
    "('f, 'w, 'j) jni_calls_scheme \<Rightarrow> 't \<Rightarrow> cpp_type \<Rightarrow> bound_method \<Rightarrow> 'f argument list \<Rightarrow> (('t, 'w) jvm, 'f jvalue \<times> bound_method) io" where
  "bound_method_call J t ty d args =
     bind_w (bound_lookup J t ty d) (\<lambda>d'.
     bind_w (method_delegate_call J t ty (bd_method d') (jr_reference (bd_object d')) args) (\<lambda>v. return_w (Inr (v, d'))))"

definition bound_static_lookup ::
    "('f, 'w, 'j) jni_calls_scheme \<Rightarrow> 't \<Rightarrow> cpp_type \<Rightarrow> bound_static_method \<Rightarrow> (('t, 'w) jvm, bound_static_method) io" where
  "bound_static_lookup J t ty d =
     (if bs_method d \<noteq> None then return_w (Inr d)
      else bind_w (class_get_static_method J t (bs_class d) (bs_name d) (signature_bytes ty)) (\<lambda>m.
        return_w (Inr (d\<lparr>bs_method := m\<rparr>))))"

definition bound_static_method_call ::
    "('f, 'w, 'j) jni_calls_scheme \<Rightarrow> 't \<Rightarrow> cpp_type \<Rightarrow> bound_static_method \<Rightarrow> 'f argument list \<Rightarrow> (('t, 'w) jvm, 'f jvalue \<times> bound_static_method) io" where
  "bound_static_method_call J t ty d args =
     bind_w (bound_static_lookup J t ty d) (\<lambda>d'.
     bind_w (static_method_delegate_call J t ty (bs_method d') args) (\<lambda>v. return_w (Inr (v, d'))))"

text \<open>\<^verbatim>\<open>JClass::Construct\<close> with arguments of the types \<open>ts\<close>.\<close>

definition class_construct ::
    "('f, 'w, 'j) jni_calls_scheme \<Rightarrow> 't \<Rightarrow> jreference \<Rightarrow> cpp_type list \<Rightarrow> 'f argument list \<Rightarrow> (('t, 'w) jvm, jobject) io" where
  "class_construct J t c ts args =
     bind_w (class_allocate J t c) (\<lambda>x.
     bind_w (class_get_constructor J t c (signature_bytes (TFunction TVoid ts))) (\<lambda>m.
     bind_w (method_delegate_call J t (TFunction TVoid ts) m (jr_reference x) args) (\<lambda>_. return_w (Inr x))))"

section \<open>Environments\<close>

text \<open>A thread is attached on its first call only.\<close>

lemma jvm_create_attached: "jvm_get_env J t (jvm_create create t version w) = (Inr (fst (snd (create version w))), jvm_create create t version w)"
  by (simp add: jvm_create_def jvm_get_env_def storage_has_data_def local_set_value_def local_get_value_def storage_set_data_def
      storage_get_data_def split: prod.split)

lemma get_env_once:
  assumes "jvm_get_env J t vm = (Inr env, vm')"
  shows "jvm_get_env J t vm' = (Inr env, vm')" and "u \<noteq> t \<Longrightarrow> vm_environments vm' u = vm_environments vm u"
  using assms
  by (auto simp: jvm_get_env_def storage_has_data_def local_get_value_def local_set_value_def storage_set_data_def
      split: prod.splits if_splits)

text \<open>A bound delegate looks its method up on the first call that finds it; a name that the class does
  not have leaves a null pointer, which is then called.\<close>

lemma bound_lookup_once:
  assumes "bound_lookup J t ty d vm = (Inr d', vm')" "bd_method d' \<noteq> None"
  shows "bound_lookup J u ty d' = return_w (Inr d')"
  using assms(2) by (simp add: bound_lookup_def)

lemma bound_unknown_undefined:
  assumes "bound_lookup J t ty d vm = (Inr d', vm')" "bd_method d' = None"
  shows "bound_method_call J t ty d args vm = (Inl Undefined, vm')"
  using assms by (simp add: bound_method_call_def bind_w_def method_delegate_call_def return_w_def)

text \<open>The object in a static field is read with the call for instance fields.\<close>

lemma static_object_field_instance_call:
  "static_field_get J t JReferenceType f = jni J t (\<lambda>env. jn_get_field J env False JReferenceType (jr_reference (jf_class f)) (jf_field f))"
  by (simp add: static_field_get_def field_get_def)

section \<open>Global references\<close>

text \<open>What the native interface says of global references: \<open>globals\<close> are those not yet deleted.\<close>

definition counts_globals :: "('f, 'w, 'j) jni_calls_scheme \<Rightarrow> ('w \<Rightarrow> nat set) \<Rightarrow> bool" where
  "counts_globals J globals \<longleftrightarrow>
     (\<forall>w. globals (snd (snd (jn_attach J w))) = globals w) \<and>
     (\<forall>env r w. case jn_new_global_ref J env r w of (g, w') \<Rightarrow>
        if g = 0 then globals w' = globals w else g \<notin> globals w \<and> globals w' = insert g (globals w)) \<and>
     (\<forall>env r w. r \<in> globals w \<longrightarrow> globals (snd (jn_delete_global_ref J env r w)) = globals w - {r})"

text \<open>A program that makes, copies, globalises and destroys references, in any threads.  The
  variables are a list; an operation on one that is not alive is not a program.\<close>

datatype reference_op = New_Reference nat | Copy_Reference nat | Make_Global nat | Destroy_Reference nat

definition live_reference :: "jreference option list \<Rightarrow> nat \<Rightarrow> jreference option" where
  "live_reference xs i = (if i < length xs then xs ! i else None)"

fun run_reference_op ::
    "('f, 'w, 'j) jni_calls_scheme \<Rightarrow> 't \<Rightarrow> reference_op \<Rightarrow> jreference option list \<times> ('t, 'w) jvm \<Rightarrow> jreference option list \<times> ('t, 'w) jvm" where
  "run_reference_op J t (New_Reference r) (xs, vm) = (xs @ [Some (reference_new r False)], vm)"
| "run_reference_op J t (Copy_Reference i) (xs, vm) =
     (case live_reference xs i of None \<Rightarrow> (xs, vm)
      | Some x \<Rightarrow> (case reference_copy J t x vm of (Inl e, vm') \<Rightarrow> (xs, vm') | (Inr y, vm') \<Rightarrow> (xs @ [Some y], vm')))"
| "run_reference_op J t (Make_Global i) (xs, vm) =
     (case live_reference xs i of None \<Rightarrow> (xs, vm)
      | Some x \<Rightarrow> (case make_global J t x vm of (Inl e, vm') \<Rightarrow> (xs, vm') | (Inr y, vm') \<Rightarrow> (xs[i := Some y], vm')))"
| "run_reference_op J t (Destroy_Reference i) (xs, vm) =
     (case live_reference xs i of None \<Rightarrow> (xs, vm)
      | Some x \<Rightarrow> (case reference_destroy J t x vm of (Inl e, vm') \<Rightarrow> (xs, vm') | (Inr _, vm') \<Rightarrow> (xs[i := None], vm')))"

definition held_global :: "jreference option \<Rightarrow> nat option" where
  "held_global x = (case x of Some y \<Rightarrow> if jr_global y then Some (jr_reference y) else None | None \<Rightarrow> None)"

definition held_globals :: "jreference option list \<Rightarrow> nat list" where
  "held_globals xs = List.map_filter held_global xs"

definition globals_held :: "('w \<Rightarrow> nat set) \<Rightarrow> nat set \<Rightarrow> jreference option list \<times> ('t, 'w) jvm \<Rightarrow> bool" where
  "globals_held globals G s \<longleftrightarrow> distinct (held_globals (fst s)) \<and> G \<inter> set (held_globals (fst s)) = {} \<and>
     globals (vm_state (snd s)) = G \<union> set (held_globals (fst s))"

lemma attach_globals:
  assumes "counts_globals J globals" "jvm_get_env J t vm = (r, vm1)"
  shows "globals (vm_state vm1) = globals (vm_state vm)"
proof (cases "storage_has_data t (vm_environments vm)")
  case True
  then show ?thesis using assms(2) by (simp add: jvm_get_env_def)
next
  case False
  obtain st env w where a: "jn_attach J (vm_state vm) = (st, env, w)" by (metis prod_cases3)
  have "globals (snd (snd (jn_attach J (vm_state vm)))) = globals (vm_state vm)" using assms(1) by (simp add: counts_globals_def)
  then have "globals w = globals (vm_state vm)" by (simp only: a snd_conv)
  moreover have "vm_state vm1 = w" using assms(2) False a by (simp add: jvm_get_env_def split: if_splits) auto
  ultimately show ?thesis by (simp only:)
qed

lemma jni_cases:
  assumes "counts_globals J globals"
  obtains (fails) e vm' where "jni J t call vm = (Inl e, vm')" "globals (vm_state vm') = globals (vm_state vm)"
    | (calls) env w x w' vm' where "globals w = globals (vm_state vm)" "call env w = (x, w')"
        "jni J t call vm = (Inr x, vm')" "vm_state vm' = w'"
proof (cases "jvm_get_env J t vm")
  case (Pair r vm1)
  note g = attach_globals [OF assms Pair]
  show thesis
  proof (cases r)
    case (Inl e)
    then show thesis using Pair g by (intro fails [of e vm1]) (simp_all add: jni_def bind_w_def)
  next
    case (Inr env)
    obtain x w' where "call env (vm_state vm1) = (x, w')" by force
    then show thesis using Pair g Inr
      by (intro calls [of "vm_state vm1" env x w' "vm1\<lparr>vm_state := w'\<rparr>"]) (simp_all add: jni_def bind_w_def)
  qed
qed

lemma make_global_jni:
  assumes "\<not> jr_global x"
  shows "jni J t (\<lambda>env. jn_new_global_ref J env (jr_reference x)) vm = (Inl e, vm') \<Longrightarrow> make_global J t x vm = (Inl e, vm')"
    and "jni J t (\<lambda>env. jn_new_global_ref J env (jr_reference x)) vm = (Inr g, vm') \<Longrightarrow>
      make_global J t x vm = (if g = 0 then throw (OutOfMemoryException '''') else Inr (x\<lparr>jr_reference := g, jr_global := True\<rparr>), vm')"
  using assms by (simp_all add: make_global_def bind_w_def return_w_def)

text \<open>A reference that is made global holds a new global reference; otherwise there is none.\<close>

lemma make_global_cases:
  assumes "counts_globals J globals" "\<not> jr_global x"
  obtains (fails) e vm' where "make_global J t x vm = (Inl e, vm')" "globals (vm_state vm') = globals (vm_state vm)"
    | (made) g vm' where "make_global J t x vm = (Inr (x\<lparr>jr_reference := g, jr_global := True\<rparr>), vm')"
        "g \<notin> globals (vm_state vm)" "globals (vm_state vm') = insert g (globals (vm_state vm))"
  using assms(1)
proof (cases rule: jni_cases [where t = t and call = "\<lambda>env. jn_new_global_ref J env (jr_reference x)" and vm = vm])
  case (fails e vm')
  then show thesis by (intro that(1) [of e vm'] make_global_jni(1) [OF assms(2)])
next
  case (calls env w g w' vm')
  have "case jn_new_global_ref J env (jr_reference x) w of (g, w') \<Rightarrow>
      if g = 0 then globals w' = globals w else g \<notin> globals w \<and> globals w' = insert g (globals w)"
    by (rule assms(1) [unfolded counts_globals_def, THEN conjunct2, THEN conjunct1, THEN spec, THEN spec, THEN spec])
  then have new: "if g = 0 then globals w' = globals w else g \<notin> globals w \<and> globals w' = insert g (globals w)"
    using calls(2) by simp
  note m = make_global_jni(2) [OF assms(2) calls(3)]
  show thesis
  proof (cases "g = 0")
    case True
    then show thesis using m new calls(1,4) by (intro that(1) [of _ vm']) auto
  next
    case False
    then show thesis using m new calls(1,4) by (intro that(2) [of g vm']) auto
  qed
qed

lemma destroy_global_cases:
  assumes "counts_globals J globals" "jr_global x" "jr_reference x \<in> globals (vm_state vm)"
  obtains (fails) e vm' where "reference_destroy J t x vm = (Inl e, vm')" "globals (vm_state vm') = globals (vm_state vm)"
    | (deleted) vm' where "reference_destroy J t x vm = (Inr (), vm')"
        "globals (vm_state vm') = globals (vm_state vm) - {jr_reference x}"
  using assms(1)
proof (cases rule: jni_cases [where t = t and call = "\<lambda>env. jn_delete_global_ref J env (jr_reference x)" and vm = vm])
  case (fails e vm')
  then show thesis using that(1) assms(2) by (simp add: reference_destroy_def)
next
  case (calls env w u w' vm')
  have "globals (snd (jn_delete_global_ref J env (jr_reference x) w)) = globals w - {jr_reference x}"
    using assms(1,3) calls(1) unfolding counts_globals_def by blast
  then show thesis using that(2) [of vm'] calls assms(2) by (simp add: reference_destroy_def)
qed

lemma held_globals_simps [simp]:
  "held_globals [] = []"
  "held_globals (x # xs) = (case held_global x of None \<Rightarrow> held_globals xs | Some r \<Rightarrow> r # held_globals xs)"
  by (simp_all add: held_globals_def List.map_filter_def split: option.splits)

lemma held_globals_append: "held_globals (xs @ ys) = held_globals xs @ held_globals ys"
  by (simp add: held_globals_def List.map_filter_def)

lemma held_globals_split:
  assumes "live_reference xs i = Some x"
  obtains as bs where "xs = as @ Some x # bs" "length as = i"
proof
  have i: "i < length xs" "xs ! i = Some x" using assms by (auto simp: live_reference_def split: if_splits)
  show "xs = take i xs @ Some x # drop (Suc i) xs" using id_take_nth_drop [OF i(1)] i(2) by simp
  show "length (take i xs) = i" using i(1) by simp
qed

lemma globals_held_step:
  assumes "counts_globals J globals" "globals_held globals G (xs, vm)"
  shows "globals_held globals G (run_reference_op J t op (xs, vm))"
proof (cases op)
  case (New_Reference r)
  then show ?thesis using assms(2)
    by (simp add: globals_held_def held_globals_append held_global_def reference_new_def)
next
  case (Copy_Reference i)
  show ?thesis
  proof (cases "live_reference xs i")
    case (Some x)
    let ?y = "\<lparr>jr_reference = jr_reference x, jr_global = False\<rparr>"
    have c: "reference_copy J t x = (if jr_global x then make_global J t ?y else return_w (Inr ?y))"
      by (simp add: reference_copy_def)
    show ?thesis
    proof (cases "jr_global x")
      case True
      have "\<not> jr_global ?y" by simp
      from assms(1) this show ?thesis
      proof (cases rule: make_global_cases [where t = t and vm = vm])
        case (fails e vm')
        then show ?thesis using Copy_Reference Some True c assms(2) by (simp add: globals_held_def)
      next
        case (made g vm')
        then show ?thesis using Copy_Reference Some True c assms(2)
          by (auto simp: globals_held_def held_globals_append held_global_def)
      qed
    qed (use Copy_Reference Some c assms(2) in \<open>simp add: return_w_def globals_held_def held_globals_append held_global_def\<close>)
  qed (use Copy_Reference assms(2) in simp)
next
  case (Make_Global i)
  show ?thesis
  proof (cases "live_reference xs i")
    case (Some x)
    obtain as bs where xs: "xs = as @ Some x # bs" "length as = i" using held_globals_split [OF Some] by blast
    show ?thesis
    proof (cases "jr_global x")
      case False
      from assms(1) this show ?thesis
      proof (cases rule: make_global_cases [where t = t and vm = vm])
        case (fails e vm')
        then show ?thesis using Make_Global Some assms(2) by (simp add: globals_held_def)
      next
        case (made g vm')
        then show ?thesis using Make_Global Some False assms(2) xs
          by (auto simp: globals_held_def held_globals_append held_global_def)
      qed
    qed (use Make_Global Some xs assms(2) in \<open>auto simp: make_global_def return_w_def\<close>)
  qed (use Make_Global assms(2) in simp)
next
  case (Destroy_Reference i)
  show ?thesis
  proof (cases "live_reference xs i")
    case (Some x)
    obtain as bs where xs: "xs = as @ Some x # bs" "length as = i" using held_globals_split [OF Some] by blast
    show ?thesis
    proof (cases "jr_global x")
      case True
      then have "jr_reference x \<in> globals (vm_state vm)"
        using assms(2) xs by (simp add: globals_held_def held_globals_append held_global_def)
      from assms(1) True this show ?thesis
      proof (cases rule: destroy_global_cases [where t = t])
        case (fails e vm')
        then show ?thesis using Destroy_Reference Some assms(2) by (simp add: globals_held_def)
      next
        case (deleted vm')
        then show ?thesis using Destroy_Reference Some True assms(2) xs
          by (auto simp: globals_held_def held_globals_append held_global_def)
      qed
    qed (use Destroy_Reference Some xs assms(2) in
        \<open>auto simp: reference_destroy_def return_w_def globals_held_def held_globals_append held_global_def\<close>)
  qed (use Destroy_Reference assms(2) in simp)
qed


text \<open>A machine whose state is its global references.\<close>

definition test_jni :: "(nat, nat list) jni_calls" where
  "test_jni = \<lparr>jn_attach = (\<lambda>w. (0, 1, w)), jn_find_class = (\<lambda>_ _ w. (5, w)),
     jn_new_global_ref = (\<lambda>_ _ w. let g = Suc (foldr max w 0) in (g, g # w)),
     jn_delete_global_ref = (\<lambda>_ r w. ((), filter (\<lambda>g. g \<noteq> r) w)),
     jn_get_object_class = (\<lambda>_ _ w. (5, w)), jn_get_superclass = (\<lambda>_ _ w. (0, w)), jn_is_instance_of = (\<lambda>_ _ _ w. (True, w)),
     jn_alloc_object = (\<lambda>_ _ w. (6, w)), jn_get_field_id = (\<lambda>_ _ _ _ _ w. (7, w)), jn_get_method_id = (\<lambda>_ _ _ _ _ w. (0, w)),
     jn_to_reflected_method = (\<lambda>_ _ _ _ w. (8, w)), jn_to_reflected_field = (\<lambda>_ _ _ _ w. (9, w)),
     jn_call_method = (\<lambda>_ _ _ _ _ _ w. (JL 0, w)), jn_get_field = (\<lambda>_ _ _ _ _ w. (JL 0, w)), jn_set_field = (\<lambda>_ _ _ _ _ _ w. ((), w))\<rparr>"

lemma foldr_max_bound: "(x :: nat) \<in> set xs \<Longrightarrow> x \<le> foldr max xs a"
  by (induction xs) auto

lemma test_jni_counts: "counts_globals test_jni set"
  by (auto simp: counts_globals_def test_jni_def Let_def dest: foldr_max_bound [where a = 0])


text \<open>The implicit assignment leaves two objects with one global reference, which both delete, and the
  reference of the first with none.\<close>

lemma reference_assign_deletes_twice:
  "jr_global y \<Longrightarrow> held_globals [Some (reference_assign x y), Some y] = [jr_reference y, jr_reference y]"
  by (simp add: held_global_def reference_assign_def)

end
