(* ===== verification/Java_Array.thy ===== *)
theory Java_Array
  imports Java_VM
begin

text \<open>
  Java arrays and strings (\<^verbatim>\<open>java/lang/array.h\<close>, \<^verbatim>\<open>java/lang/string.h\<close>,
  \<^verbatim>\<open>java/lang/object.h\<close>).  The calls for arrays and strings extend the record of the native
  interface.  \<^verbatim>\<open>Array::SetItem\<close> of primitive arrays and \<^verbatim>\<open>GetArray\<close> are left out: the one does
  not compile, the other has no definition.
\<close>

section \<open>Calls for arrays and strings\<close>

text \<open>\<open>jn_get_elements\<close> gives a buffer with the elements, or the null pointer; \<open>jn_get_region\<close> what it
  writes to the caller's buffer, nothing if the region is not inside the array.\<close>

record ('f, 'w) jni_data_calls = "('f, 'w) jni_calls" +
  jn_get_array_length :: "nat \<Rightarrow> nat \<Rightarrow> 'w \<Rightarrow> int \<times> 'w"
  jn_new_array :: "nat \<Rightarrow> java_type \<Rightarrow> int \<Rightarrow> 'w \<Rightarrow> nat \<times> 'w"
  jn_get_elements :: "nat \<Rightarrow> java_type \<Rightarrow> nat \<Rightarrow> 'w \<Rightarrow> 'f jvalue list option \<times> 'w"
  jn_release_elements :: "nat \<Rightarrow> java_type \<Rightarrow> nat \<Rightarrow> 'f jvalue list option \<Rightarrow> 'w \<Rightarrow> unit \<times> 'w"
  jn_get_region :: "nat \<Rightarrow> java_type \<Rightarrow> nat \<Rightarrow> int \<Rightarrow> int \<Rightarrow> 'w \<Rightarrow> 'f jvalue list option \<times> 'w"
  jn_set_region :: "nat \<Rightarrow> java_type \<Rightarrow> nat \<Rightarrow> int \<Rightarrow> 'f jvalue list \<Rightarrow> 'w \<Rightarrow> unit \<times> 'w"
  jn_new_object_array :: "nat \<Rightarrow> int \<Rightarrow> nat \<Rightarrow> 'w \<Rightarrow> nat \<times> 'w"
  jn_get_object_element :: "nat \<Rightarrow> nat \<Rightarrow> int \<Rightarrow> 'w \<Rightarrow> nat \<times> 'w"
  jn_set_object_element :: "nat \<Rightarrow> nat \<Rightarrow> int \<Rightarrow> nat \<Rightarrow> 'w \<Rightarrow> unit \<times> 'w"
  jn_new_string_utf :: "nat \<Rightarrow> bytes \<Rightarrow> 'w \<Rightarrow> nat \<times> 'w"
  jn_get_string_utf :: "nat \<Rightarrow> nat \<Rightarrow> 'w \<Rightarrow> bytes option \<times> 'w"
  jn_release_string_utf :: "nat \<Rightarrow> nat \<Rightarrow> bytes option \<Rightarrow> 'w \<Rightarrow> unit \<times> 'w"

section \<open>Arrays of primitive types\<close>

text \<open>The element type of an array of \<open>T\<close>, and the conversion of an element to \<open>T\<close>.\<close>

definition element_type :: "cpp_type \<Rightarrow> java_type" where
  "element_type ty = (case java_descriptor ty of DBase b \<Rightarrow> b | _ \<Rightarrow> JReferenceType)"

definition element_value :: "cpp_type \<Rightarrow> 'f jvalue \<Rightarrow> 'f argument result" where
  "element_value ty v =
     (case v of
        JZ b \<Rightarrow> if ty = TBool then Inr (ABool b) else Inl Undefined
      | JB b \<Rightarrow> if ty = TS8 then Inr (AS8 b) else if ty = TU8 then Inr (AU8 b) else Inl Undefined
      | JC c \<Rightarrow> if ty = TChar then Inr (AChar (ucast c)) else Inl Undefined
      | JS s \<Rightarrow> if ty = TS16 then Inr (AS16 s) else if ty = TU16 then Inr (AU16 s) else Inl Undefined
      | JI i \<Rightarrow> if ty = TS32 then Inr (AS32 i) else if ty = TU32 then Inr (AU32 i) else Inl Undefined
      | JJ j \<Rightarrow> if ty = TS64 then Inr (AS64 j) else if ty = TU64 then Inr (AU64 j) else Inl Undefined
      | JF x \<Rightarrow> if ty = TFloat then Inr (AFloat x) else Inl Undefined
      | JD x \<Rightarrow> if ty = TDouble then Inr (ADouble x) else Inl Undefined
      | JL r \<Rightarrow> Inl Undefined)"

definition jarray_set_items ::
    "('f, 'w, 'j) jni_data_calls_scheme \<Rightarrow> 't \<Rightarrow> cpp_type \<Rightarrow> jobject \<Rightarrow> 'f argument list \<Rightarrow> int \<Rightarrow> int \<Rightarrow> (('t, 'w) jvm, unit) io" where
  "jarray_set_items J t ty x buffer offset len =
     bind_w (return_w (mem_read buffer 0 (nat len))) (\<lambda>items.
     jni J t (\<lambda>env. jn_set_region J env (element_type ty) (jr_reference x) offset (map jmethod_delegate_value items)))"

definition jarray_create ::
    "('f, 'w, 'j) jni_data_calls_scheme \<Rightarrow> 't \<Rightarrow> cpp_type \<Rightarrow> 'f argument list option \<Rightarrow> int \<Rightarrow> jobject \<Rightarrow> (('t, 'w) jvm, jobject) io" where
  "jarray_create J t ty data len x =
     bind_w (jni J t (\<lambda>env. jn_new_array J env (element_type ty) len)) (\<lambda>r.
     let x1 = x\<lparr>jr_reference := r\<rparr> in
     bind_w (case data of None \<Rightarrow> return_w (Inr ()) | Some items \<Rightarrow> jarray_set_items J t ty x1 items 0 len) (\<lambda>_.
     bind_w (class_of_object J t r) (\<lambda>c. return_w (Inr (x1\<lparr>jo_class := Some c\<rparr>)))))"

text \<open>The elements are written through a pointer into the buffer, one for each item of the list.\<close>

fun write_items :: "'f jvalue list \<Rightarrow> nat \<Rightarrow> 'f argument list \<Rightarrow> 'f jvalue list result" where
  "write_items buffer i [] = Inr buffer"
| "write_items buffer i (a # as) =
     bind_r (poke buffer i (jmethod_delegate_value a)) (\<lambda>buffer'. write_items buffer' (Suc i) as)"

definition jarray_create_from ::
    "('f, 'w, 'j) jni_data_calls_scheme \<Rightarrow> 't \<Rightarrow> cpp_type \<Rightarrow> 'f argument list \<Rightarrow> jobject \<Rightarrow> (('t, 'w) jvm, jobject) io" where
  "jarray_create_from J t ty items x =
     bind_w (jarray_create J t ty None (s32 (int (length items))) x) (\<lambda>x1.
     bind_w (jni J t (\<lambda>env. jn_get_elements J env (element_type ty) (jr_reference x1))) (\<lambda>buffer.
     bind_w (return_w (case buffer of
         None \<Rightarrow> if items = [] then Inr None else Inl Undefined
       | Some b \<Rightarrow> bind_r (write_items b 0 items) (\<lambda>b'. Inr (Some b')))) (\<lambda>buffer'.
     bind_w (jni J t (\<lambda>env. jn_release_elements J env (element_type ty) (jr_reference x1) buffer')) (\<lambda>_.
     return_w (Inr x1)))))"

definition jarray_new ::
    "('f, 'w, 'j) jni_data_calls_scheme \<Rightarrow> 't \<Rightarrow> cpp_type \<Rightarrow> 'f argument list option \<Rightarrow> int \<Rightarrow> (('t, 'w) jvm, jobject) io" where
  "jarray_new J t ty data len = jarray_create J t ty data len (object_new 0 False)"

definition jarray_new_from ::
    "('f, 'w, 'j) jni_data_calls_scheme \<Rightarrow> 't \<Rightarrow> cpp_type \<Rightarrow> 'f argument list \<Rightarrow> (('t, 'w) jvm, jobject) io" where
  "jarray_new_from J t ty items = jarray_create_from J t ty items (object_new 0 False)"

definition jarray_get_count :: "('f, 'w, 'j) jni_data_calls_scheme \<Rightarrow> 't \<Rightarrow> jobject \<Rightarrow> (('t, 'w) jvm, int) io" where
  "jarray_get_count J t x = jni J t (\<lambda>env. jn_get_array_length J env (jr_reference x))"

text \<open>An index outside the array leaves the result uninitialised.\<close>

definition jarray_get_item ::
    "('f, 'w, 'j) jni_data_calls_scheme \<Rightarrow> 't \<Rightarrow> cpp_type \<Rightarrow> jobject \<Rightarrow> int \<Rightarrow> (('t, 'w) jvm, 'f argument) io" where
  "jarray_get_item J t ty x index =
     bind_w (jni J t (\<lambda>env. jn_get_region J env (element_type ty) (jr_reference x) index 1)) (\<lambda>vs.
     return_w (case vs of Some (v # _) \<Rightarrow> element_value ty v | _ \<Rightarrow> Inl Undefined))"

definition jarray_get_items ::
    "('f, 'w, 'j) jni_data_calls_scheme \<Rightarrow> 't \<Rightarrow> cpp_type \<Rightarrow> jobject \<Rightarrow> int \<Rightarrow> int \<Rightarrow> (('t, 'w) jvm, 'f jvalue list option) io" where
  "jarray_get_items J t ty x offset len =
     jni J t (\<lambda>env. jn_get_region J env (element_type ty) (jr_reference x) offset len)"

section \<open>Arrays of objects\<close>

text \<open>The class of the array is assigned to the parameter that hides the member, which stays null.\<close>

definition object_array_create ::
    "('f, 'w, 'j) jni_data_calls_scheme \<Rightarrow> 't \<Rightarrow> int \<Rightarrow> jreference \<Rightarrow> jobject \<Rightarrow> (('t, 'w) jvm, jobject) io" where
  "object_array_create J t len c x =
     bind_w (jni J t (\<lambda>env. jn_new_object_array J env len (jr_reference c))) (\<lambda>r.
     bind_w (class_of_object J t r) (\<lambda>_. return_w (Inr (x\<lparr>jr_reference := r\<rparr>))))"

fun object_array_fill ::
    "('f, 'w, 'j) jni_data_calls_scheme \<Rightarrow> 't \<Rightarrow> jobject \<Rightarrow> int \<Rightarrow> jreference list \<Rightarrow> (('t, 'w) jvm, unit) io" where
  "object_array_fill J t x index [] = return_w (Inr ())"
| "object_array_fill J t x index (item # items) =
     bind_w (jni J t (\<lambda>env. jn_set_object_element J env (jr_reference x) index (jr_reference item))) (\<lambda>_.
     object_array_fill J t x (index + 1) items)"

definition object_array_new :: "('f, 'w, 'j) jni_data_calls_scheme \<Rightarrow> 't \<Rightarrow> jreference \<Rightarrow> int \<Rightarrow> (('t, 'w) jvm, jobject) io" where
  "object_array_new J t c len = object_array_create J t len c (object_new 0 False)"

definition object_array_new_from ::
    "('f, 'w, 'j) jni_data_calls_scheme \<Rightarrow> 't \<Rightarrow> jreference \<Rightarrow> jreference list \<Rightarrow> (('t, 'w) jvm, jobject) io" where
  "object_array_new_from J t c items =
     bind_w (object_array_create J t (s32 (int (length items))) c (object_new 0 False)) (\<lambda>x.
     bind_w (object_array_fill J t x 0 items) (\<lambda>_. return_w (Inr x)))"

definition object_array_get_item :: "('f, 'w, 'j) jni_data_calls_scheme \<Rightarrow> 't \<Rightarrow> jobject \<Rightarrow> int \<Rightarrow> (('t, 'w) jvm, nat) io" where
  "object_array_get_item J t x index = jni J t (\<lambda>env. jn_get_object_element J env (jr_reference x) index)"

definition object_array_set_item :: "('f, 'w, 'j) jni_data_calls_scheme \<Rightarrow> 't \<Rightarrow> jobject \<Rightarrow> int \<Rightarrow> jreference \<Rightarrow> (('t, 'w) jvm, unit) io" where
  "object_array_set_item J t x index item =
     jni J t (\<lambda>env. jn_set_object_element J env (jr_reference x) index (jr_reference item))"

section \<open>Strings\<close>

text \<open>The class of strings is looked up by its name; a null pointer is dereferenced if it is not found.
  \<open>js_length\<close> is the bound method that every string object carries, over the type \<^verbatim>\<open>int()\<close>.\<close>

definition string_class_name :: string where
  "string_class_name = ''java/lang/String''"

definition qualified_class :: "('f, 'w, 'j) jni_calls_scheme \<Rightarrow> 't \<Rightarrow> string \<Rightarrow> (('t, 'w) jvm, jreference) io" where
  "qualified_class J t name =
     bind_w (jni J t (\<lambda>env. jn_find_class J env (map (\<lambda>c. word_of_nat (of_char c)) name @ [0]))) (\<lambda>c.
     if c = 0 then return_w (Inl Undefined) else reference_copy J t (reference_new c False))"

record java_string =
  js_object :: jobject
  js_length :: bound_method

definition length_name :: bytes where
  "length_name = [0x6C, 0x65, 0x6E, 0x67, 0x74, 0x68, 0]"

definition string_fill_methods :: "('f, 'w, 'j) jni_calls_scheme \<Rightarrow> 't \<Rightarrow> jobject \<Rightarrow> (('t, 'w) jvm, java_string) io" where
  "string_fill_methods J t x =
     bind_w (qualified_class J t string_class_name) (\<lambda>c.
     let x' = x\<lparr>jo_class := Some c\<rparr> in
     return_w (Inr \<lparr>js_object = x', js_length = \<lparr>bd_object = x', bd_method = None, bd_name = length_name\<rparr>\<rparr>))"

definition java_string_new :: "('f, 'w, 'j) jni_data_calls_scheme \<Rightarrow> 't \<Rightarrow> bstring \<Rightarrow> (('t, 'w) jvm, java_string) io" where
  "java_string_new J t s =
     bind_w (qualified_class J t string_class_name) (\<lambda>c.
     bind_w (jni J t (\<lambda>env. jn_new_string_utf J env (c_string s))) (\<lambda>r.
     string_fill_methods J t \<lparr>jr_reference = r, jr_global = False, jo_class = Some c\<rparr>))"

definition java_string_get :: "(nat \<Rightarrow> u8) \<Rightarrow> ('f, 'w, 'j) jni_data_calls_scheme \<Rightarrow> 't \<Rightarrow> java_string \<Rightarrow> (('t, 'w) jvm, bstring) io" where
  "java_string_get g J t x =
     bind_w (jni J t (\<lambda>env. jn_get_string_utf J env (jr_reference (js_object x)))) (\<lambda>ptr.
     bind_w (return_w (case ptr of None \<Rightarrow> Inl Undefined | Some p \<Rightarrow> string_of_cstr g p npos)) (\<lambda>ret.
     bind_w (jni J t (\<lambda>env. jn_release_string_utf J env (jr_reference (js_object x)) ptr)) (\<lambda>_. return_w (Inr ret))))"

definition java_string_length :: "('f, 'w, 'j) jni_calls_scheme \<Rightarrow> 't \<Rightarrow> java_string \<Rightarrow> (('t, 'w) jvm, 'f jvalue \<times> java_string) io" where
  "java_string_length J t x =
     bind_w (bound_method_call J t (TFunction TS32 []) (js_length x) []) (\<lambda>(v, d). return_w (Inr (v, x\<lparr>js_length := d\<rparr>)))"

definition java_string_of_reference :: "('f, 'w, 'j) jni_calls_scheme \<Rightarrow> 't \<Rightarrow> 'z jreference_scheme \<Rightarrow> (('t, 'w) jvm, java_string) io" where
  "java_string_of_reference J t x = bind_w (object_of_reference J t x) (string_fill_methods J t)"

text \<open>\<^verbatim>\<open>TypeConversion<String>\<close>: from a reference to a string and back.\<close>

definition convert_string :: "(nat \<Rightarrow> u8) \<Rightarrow> ('f, 'w, 'j) jni_data_calls_scheme \<Rightarrow> 't \<Rightarrow> 'z jreference_scheme \<Rightarrow> (('t, 'w) jvm, bstring) io" where
  "convert_string g J t x = bind_w (java_string_of_reference J t x) (java_string_get g J t)"

definition trevnoc_string :: "('f, 'w, 'j) jni_data_calls_scheme \<Rightarrow> 't \<Rightarrow> bstring \<Rightarrow> (('t, 'w) jvm, nat) io" where
  "trevnoc_string J t s = bind_w (java_string_new J t s) (\<lambda>x. return_w (Inr (jr_reference (js_object x))))"

section \<open>Arrays hold the items\<close>

text \<open>The native interface's arrays, as what is known of their elements.\<close>

definition array_machine :: "('f, 'w, 'j) jni_data_calls_scheme \<Rightarrow> ('w \<Rightarrow> nat \<Rightarrow> 'f jvalue list option) \<Rightarrow> bool" where
  "array_machine J arrays \<longleftrightarrow>
     (\<forall>env ty n w. 0 \<le> n \<longrightarrow> (case jn_new_array J env ty n w of (r, w') \<Rightarrow>
        \<exists>vs. length vs = nat n \<and> arrays w' = (arrays w)(r \<mapsto> vs))) \<and>
     (\<forall>env ty r w vs. arrays w r = Some vs \<longrightarrow> (case jn_get_elements J env ty r w of (b, w') \<Rightarrow> b = Some vs \<and> arrays w' = arrays w)) \<and>
     (\<forall>env ty r w us vs. arrays w r = Some us \<longrightarrow> length vs = length us \<longrightarrow>
        arrays (snd (jn_release_elements J env ty r (Some vs) w)) = (arrays w)(r \<mapsto> vs)) \<and>
     (\<forall>env r w vs. arrays w r = Some vs \<longrightarrow> (case jn_get_array_length J env r w of (n, w') \<Rightarrow> n = int (length vs) \<and> arrays w' = arrays w)) \<and>
     (\<forall>env ty r w vs i. arrays w r = Some vs \<longrightarrow> 0 \<le> i \<longrightarrow> i < int (length vs) \<longrightarrow>
        (case jn_get_region J env ty r i 1 w of (b, w') \<Rightarrow> b = Some [vs ! nat i] \<and> arrays w' = arrays w)) \<and>
     (\<forall>env r w. arrays (snd (jn_get_object_class J env r w)) = arrays w)"

lemma jni_attached:
  assumes "vm_environments vm t = Some env" "call env (vm_state vm) = (x, w)"
  shows "jni J t call vm = (Inr x, vm\<lparr>vm_state := w\<rparr>)"
  using assms by (simp add: jni_def bind_w_def jvm_get_env_def storage_has_data_def local_get_value_def)

lemma write_items_all:
  "length buffer = length pre + length as \<Longrightarrow> take (length pre) buffer = pre \<Longrightarrow>
   write_items buffer (length pre) as = Inr (pre @ map jmethod_delegate_value as)"
proof (induction as arbitrary: buffer pre)
  case (Cons a as)
  let ?b = "buffer[length pre := jmethod_delegate_value a]"
  have "take (length pre) ?b = pre" using Cons.prems(2) by simp
  then have t: "take (length (pre @ [jmethod_delegate_value a])) ?b = pre @ [jmethod_delegate_value a]"
    using Cons.prems(1) by (simp add: take_Suc_conv_app_nth)
  have l: "length ?b = length (pre @ [jmethod_delegate_value a]) + length as" using Cons.prems(1) by simp
  show ?case using Cons.IH [OF l t] Cons.prems(1) by (simp add: poke_def)
qed simp

lemma element_value_argument:
  "argument_type a = Some ty \<Longrightarrow> element_value ty (jmethod_delegate_value a) = Inr a"
proof -
  have c: "ucast (scast c :: u16) = c" for c :: u8
  proof (rule bit_word_eqI)
    fix n assume "n < LENGTH(8)"
    then have "n < 7 \<or> n = 7" by auto
    then show "bit (ucast (scast c :: u16) :: u8) n = bit c n" by (auto simp: bit_ucast_iff bit_signed_iff min_def)
  qed
  show "argument_type a = Some ty \<Longrightarrow> element_value ty (jmethod_delegate_value a) = Inr a"
    by (cases a) (auto simp: element_value_def c)
qed


text \<open>A machine whose state is a single array.\<close>

definition one_array_jni :: "(nat, nat jvalue list) jni_data_calls" where
  "one_array_jni = \<lparr>jn_attach = (\<lambda>w. (0, 1, w)), jn_find_class = (\<lambda>_ _ w. (5, w)), jn_new_global_ref = (\<lambda>_ _ w. (0, w)),
     jn_delete_global_ref = (\<lambda>_ _ w. ((), w)), jn_get_object_class = (\<lambda>_ _ w. (5, w)), jn_get_superclass = (\<lambda>_ _ w. (0, w)),
     jn_is_instance_of = (\<lambda>_ _ _ w. (True, w)), jn_alloc_object = (\<lambda>_ _ w. (6, w)), jn_get_field_id = (\<lambda>_ _ _ _ _ w. (7, w)),
     jn_get_method_id = (\<lambda>_ _ _ _ _ w. (0, w)), jn_to_reflected_method = (\<lambda>_ _ _ _ w. (8, w)),
     jn_to_reflected_field = (\<lambda>_ _ _ _ w. (9, w)), jn_call_method = (\<lambda>_ _ _ _ _ _ w. (JL 0, w)),
     jn_get_field = (\<lambda>_ _ _ _ _ w. (JL 0, w)), jn_set_field = (\<lambda>_ _ _ _ _ _ w. ((), w)),
     jn_get_array_length = (\<lambda>_ _ w. (int (length w), w)), jn_new_array = (\<lambda>_ _ n w. (3, replicate (nat n) (JL 0))),
     jn_get_elements = (\<lambda>_ _ _ w. (Some w, w)), jn_release_elements = (\<lambda>_ _ _ b w. ((), case b of None \<Rightarrow> w | Some vs \<Rightarrow> vs)),
     jn_get_region = (\<lambda>_ _ _ i n w. (if 0 \<le> i \<and> 0 \<le> n \<and> i + n \<le> int (length w) then Some (take (nat n) (drop (nat i) w)) else None, w)),
     jn_set_region = (\<lambda>_ _ _ i vs w. ((), take (nat i) w @ vs @ drop (nat i + length vs) w)),
     jn_new_object_array = (\<lambda>_ n _ w. (3, replicate (nat n) (JL 0))), jn_get_object_element = (\<lambda>_ _ _ w. (0, w)),
     jn_set_object_element = (\<lambda>_ _ _ _ w. ((), w)), jn_new_string_utf = (\<lambda>_ _ w. (4, w)),
     jn_get_string_utf = (\<lambda>_ _ w. (Some [0x61, 0], w)), jn_release_string_utf = (\<lambda>_ _ _ w. ((), w))\<rparr>"

lemma one_array_machine: "array_machine one_array_jni (\<lambda>w r. if r = 3 then Some w else None)"
proof -
  have "take (Suc 0) (drop i vs) = [vs ! i]" if "i < length vs" for i and vs :: "nat jvalue list"
    using that by (simp add: take_Suc_conv_app_nth drop_Suc hd_drop_conv_nth take_Suc)
  then show ?thesis by (auto simp: array_machine_def one_array_jni_def fun_eq_iff split: if_splits)
qed


text \<open>An array of objects never learns its class: the next call that asks for it looks it up.\<close>

lemma object_array_class_lost: "object_array_create J t len c (object_new 0 False) vm = (Inr x, vm') \<Longrightarrow> jo_class x = None"
  by (auto simp: object_array_create_def class_of_object_def object_new_def bind_w_def return_w_def split: prod.splits sum.splits)

end
