(* ===== verification/Sample.thy ===== *)
theory Sample
  imports File_Stream Delegates Dictionary
begin

text \<open>
  The sample program (\<^verbatim>\<open>sample/source/main.cpp\<close>), which is also the test of the library and
  joins its parts: a file written through a \<^verbatim>\<open>StreamWriter\<close> over a \<^verbatim>\<open>FileStream\<close> and read
  back, lists and dictionaries that are iterated, and an event whose handlers remove themselves
  while it runs.  What the program prints is a list of values; the formatting of
  \<^verbatim>\<open>String::Format\<close> is left out.  A debug build is modelled, in which a failed assertion throws.
\<close>

section \<open>The test file\<close>

definition sample_assert :: "string \<Rightarrow> bool \<Rightarrow> unit result" where
  "sample_assert text c =
     (if c then Inr () else throw (InternalInconsistencyException (''Assert failed: '' @ text)))"

definition sample_text :: bytes where
  "sample_text = [0x6F, 0x68, 0x61, 0x69]"

definition literal :: "bytes \<Rightarrow> bstring" where
  "literal bs = \<lparr>bs_buffer = \<lparr>d_block = bs @ [0], d_length = length bs + 1, d_owned = True\<rparr>, bs_cached = 0\<rparr>"

text \<open>The path of the file is the argument \<open>path\<close>; \<open>junk\<close> is the writer's block for padding.\<close>

definition sample_write_file :: "'w os_calls \<Rightarrow> bool \<Rightarrow> bytes \<Rightarrow> bstring \<Rightarrow> 'w \<Rightarrow> 'w result" where
  "sample_write_file os host junk path w =
     bind_r (io_result (file_stream_open os path Create WriteOnly owner_read_write w)) (\<lambda>(fs, w).
     (let ops = file_stream_ops os fs in
      bind_r (write_int32 ops host BigEndian 0x1337BAAD Unknown w) (\<lambda>w.
      bind_r (write_string ops junk (literal sample_text) npos w) (\<lambda>w.
      bind_r (write_byte ops 0 w) (\<lambda>w.
      bind_r (write_int16 ops host BigEndian 0xF33D LittleEndian w) (\<lambda>w.
      bind_r (io_result (file_stream_destroy os fs w)) (\<lambda>(_, w). Inr w)))))))"

definition sample_read_file :: "'w os_calls \<Rightarrow> bool \<Rightarrow> bstring \<Rightarrow> 'w \<Rightarrow> (u32 \<times> bytes \<times> u16 \<times> 'w) result option" where
  "sample_read_file os host path w =
     (case io_result (file_stream_open os path Open ReadOnly owner_read_write w) of
        Inl e \<Rightarrow> Some (Inl e)
      | Inr (fs, w) \<Rightarrow>
          (let ops = file_stream_ops os fs in
           (case bind_r (read_int32 ops host LittleEndian BigEndian w) (\<lambda>(num, w).
                 bind_r (sample_assert ''num == 0x1337BAAD'' (num = 0x1337BAAD)) (\<lambda>_. Inr (num, w))) of
              Inl e \<Rightarrow> Some (Inl e)
            | Inr (num, w) \<Rightarrow>
                map_option (\<lambda>r.
                  bind_r r (\<lambda>(str, w).
                  bind_r (sample_assert ''str == \"ohai\"'' (str = sample_text)) (\<lambda>_.
                  bind_r (read_int16 ops host LittleEndian Unknown w) (\<lambda>(num2, w).
                  bind_r (sample_assert ''num2 == 0xF33D'' (num2 = 0xF33D)) (\<lambda>_.
                  bind_r (sample_assert ''reader->IsEndOfFile()'' (nav_is_end_of_file ops w)) (\<lambda>_.
                  Inr (num, str, num2, w)))))))
                (read_cstring ops 0 w))))"

text \<open>What is in the file between the two.\<close>

definition sample_bytes :: bytes where
  "sample_bytes = [0x13, 0x37, 0xBA, 0xAD] @ sample_text @ [0] @ [0x3D, 0xF3]"

lemma length_sample_bytes: "length sample_bytes = 11"
  by (simp add: sample_bytes_def sample_text_def)

lemma sample_ints:
  "endian_write swap32 host BigEndian 4 0x1337BAAD = Inr [0x13, 0x37, 0xBA, 0xAD]"
  "endian_write swap16 host LittleEndian 2 0xF33D = Inr [0x3D, 0xF3]"
proof -
  have "bytes_le 4 (0x1337BAAD :: u32) = [0xAD, 0xBA, 0x37, 0x13]" "bytes_le 2 (0xF33D :: u16) = [0x3D, 0xF3]"
    by code_simp+
  then show "endian_write swap32 host BigEndian 4 0x1337BAAD = Inr [0x13, 0x37, 0xBA, 0xAD]"
    "endian_write swap16 host LittleEndian 2 0xF33D = Inr [0x3D, 0xF3]"
    by (simp_all add: sw32.write_big sw16.write_little)
qed

lemma sample_ints_read:
  "endian_read swap32 host BigEndian [0x13, 0x37, 0xBA, 0xAD] = Inr 0x1337BAAD"
  "endian_read swap16 host LittleEndian [0x3D, 0xF3] = Inr 0xF33D"
  using sw32.write_read [of BigEndian host "0x1337BAAD"] sw16.write_read [of LittleEndian host "0xF33D"]
  by (simp_all add: sample_ints)

lemma sample_write_blocks:
  "bind_r (write_int32 ops host BigEndian 0x1337BAAD Unknown w) (\<lambda>w.
   bind_r (write_string ops junk (literal sample_text) npos w) (\<lambda>w.
   bind_r (write_byte ops 0 w) (\<lambda>w.
   bind_r (write_int16 ops host BigEndian 0xF33D LittleEndian w) rest))) =
   bind_r (fold_r (write_bytes ops) [[0x13, 0x37, 0xBA, 0xAD], sample_text, [0], [0x3D, 0xF3]] w) rest"
proof -
  have t: "get_size (literal sample_text) = 4" "c_string (literal sample_text) = sample_text @ [0]"
    "mem_read (sample_text @ [0]) 0 4 = Inr sample_text"
    by (simp_all add: get_size_def literal_def sample_text_def size_sub_def mem_read_def)
  show ?thesis
    by (simp add: write_int32_def write_int16_def write_int_def pick_endian_def sample_ints write_string_def t npos_def
        write_byte_def bind_r_assoc Let_def cong: bind_r_cong)
qed

context posix_files begin

lemma file_position_start:
  assumes "ps_desc (view w) (handle_fd (fs_handle f)) = Some k"
    and "ps_open (view w) k = \<lparr>of_inode = i, of_offset = 0, of_readable = r, of_writable = wr\<rparr>"
  shows "file_position view f w = 0" and "file_contents view f w = ps_data (view w) i"
    and "length (ps_data (view w) i) \<le> room \<Longrightarrow> file_ok view room (ps_names (view w), i) r wr f w"
  using assms by (simp_all add: file_position_def file_contents_def file_ok_def file_simps)

lemma sample_writes:
  assumes "os_open os (c_string path) (open_mode_flag Create OR file_mode_flag WriteOnly) owner_read_write w = (fd, w1)"
    and "0 \<le> fd" and "11 \<le> room"
  shows "\<exists>w2 i. sample_write_file os host junk path w = Inr w2 \<and>
    ps_names (view w2) (cstr_name (c_string path)) = Some i \<and> ps_data (view w2) i = sample_bytes"
proof -
  obtain f k i where f: "file_stream_open os path Create WriteOnly owner_read_write w = (Inr f, w1)"
    "handle_fd (fs_handle f) = fd" "ps_desc (view w1) fd = Some k"
    "ps_names (view w1) (cstr_name (c_string path)) = Some i"
    "ps_open (view w1) k = \<lparr>of_inode = i, of_offset = 0, of_readable = False, of_writable = True\<rparr>"
    "ps_data (view w1) i = []"
    using file_stream_open_exact [OF assms(1,2), of owner_read_write] by auto
  note start = file_position_start [where f = f and w = w1, unfolded f(2), OF f(3,5)]
  let ?z = "(ps_names (view w1), i)"
  have ok: "file_ok view room ?z False True f w1" by (rule start(3)) (simp add: f(6))
  let ?ops = "file_stream_ops os f" and ?blocks = "[[0x13, 0x37, 0xBA, 0xAD], sample_text, [0], [0x3D, 0xF3]]"
  have b: "concat ?blocks = sample_bytes" by (simp add: sample_bytes_def)
  obtain w2 where w2: "fold_r (write_bytes ?ops) ?blocks w1 = Inr w2" "file_ok view room ?z False True f w2"
    "file_contents view f w2 = sample_bytes"
    using output_stream.write_blocks_contents [OF file_output ok, of ?blocks] assms(3)
    unfolding b file_ops_simps(1) [OF ok] start(1,2) f(6)
    by (auto simp: length_sample_bytes overwrite_def)
  obtain w3 where w3: "file_stream_destroy os f w2 = (Inr (), w3)" "ps_data (view w3) = ps_data (view w2)"
    "ps_names (view w3) = ps_names (view w2)"
    using file_stream_destroy_exact [OF w2(2)] by auto
  have "sample_write_file os host junk path w =
      bind_r (fold_r (write_bytes ?ops) ?blocks w1) (\<lambda>w. bind_r (io_result (file_stream_destroy os f w)) (\<lambda>(_, w). Inr w))"
    unfolding sample_write_file_def f(1) by (simp only: io_result_def prod.case bind_r.simps Let_def sample_write_blocks)
  moreover have "ps_names (view w2) = ps_names (view w1)" "ps_data (view w2) i = sample_bytes"
    using file_okE [OF w2(2)] w2(3) by (metis fst_conv, metis snd_conv)
  ultimately show ?thesis using w2(1) w3 f(4) by (simp add: io_result_def)
qed

lemma sample_reads:
  assumes "os_open os (c_string path) (open_mode_flag Open OR file_mode_flag ReadOnly) owner_read_write w = (fd, w1)"
    and "0 \<le> fd" and "11 \<le> room"
    and "ps_names (view w) (cstr_name (c_string path)) = Some i" and "ps_data (view w) i = sample_bytes"
  shows "\<exists>w2. sample_read_file os host path w = Some (Inr (0x1337BAAD, sample_text, 0xF33D, w2))"
proof -
  obtain f k where f: "file_stream_open os path Open ReadOnly owner_read_write w = (Inr f, w1)"
    "handle_fd (fs_handle f) = fd" "ps_desc (view w1) fd = Some k"
    "ps_open (view w1) k = \<lparr>of_inode = i, of_offset = 0, of_readable = True, of_writable = False\<rparr>"
    "ps_data (view w1) i = sample_bytes"
    using file_stream_open_exact [OF assms(1,2), of owner_read_write] assms(4,5) by auto
  note start = file_position_start [where f = f and w = w1, unfolded f(2), OF f(3,4)]
  let ?z = "(ps_names (view w1), i)" and ?ops = "file_stream_ops os f"
  let ?num = "[0x13, 0x37, 0xBA, 0xAD] :: bytes" and ?num2 = "[0x3D, 0xF3] :: bytes"
  have ok: "file_ok view room ?z True False f w1"
    using assms(3) by (intro start(3)) (simp add: f(5) length_sample_bytes)
  note input = file_input [where z = ?z and wr = False and f = f]
  have c: "file_contents view f w1 = sample_bytes" by (simp add: start(2) f(5))
  obtain w2 where w2: "read_int32 ?ops host LittleEndian BigEndian w1 = Inr (0x1337BAAD, w2)"
    "file_ok view room ?z True False f w2" "file_contents view f w2 = sample_bytes" "so_get_position ?ops w2 = 4"
    using input_stream.read_int_at [OF input ok, of "[]" ?num "sample_text @ [0] @ ?num2" 4 swap32 host BigEndian LittleEndian
        "0x1337BAAD"] sample_ints_read(1) [of host]
    by (auto simp: c sample_bytes_def file_ops_simps(1) [OF ok] start(1) read_int32_def pick_endian_def)
  obtain w3 where w3: "read_cstring ?ops 0 w2 = Some (Inr (sample_text, w3))"
    "file_ok view room ?z True False f w3" "file_contents view f w3 = sample_bytes" "so_get_position ?ops w3 = 9"
    using input_stream.read_cstring_inside [OF input w2(2), of ?num sample_text 0 ?num2 "[]"] w2(3,4)
    by (auto simp: sample_bytes_def sample_text_def read_cstring_def)
  obtain w4 where w4: "read_int16 ?ops host LittleEndian Unknown w3 = Inr (0xF33D, w4)"
    "file_ok view room ?z True False f w4" "file_contents view f w4 = sample_bytes" "so_get_position ?ops w4 = 11"
    using input_stream.read_int_at [OF input w3(2), of "?num @ sample_text @ [0]" ?num2 "[]" 2 swap16 host Unknown LittleEndian
        "0xF33D"] sample_ints_read(2) [of host] w3(3,4)
    by (auto simp: sample_bytes_def sample_text_def read_int16_def pick_endian_def)
  have "nav_is_end_of_file ?ops w4"
    using w4(3,4) file_ops_simps(2) [OF w4(2)] by (simp add: nav_is_end_of_file_def length_sample_bytes)
  then show ?thesis using w2(1) w3(1) w4(1)
    by (simp add: sample_read_file_def f(1) io_result_def sample_assert_def)
qed

end

section \<open>Collections\<close>

text \<open>What \<^verbatim>\<open>testCollections\<close> prints: the items of an array, the entries of a dictionary and
  one of its values.\<close>

definition print_item :: "'a \<Rightarrow> 'a list \<Rightarrow> (bool \<times> 'a list) result" where
  "print_item x out = Inr (True, out @ [x])"

definition sample_array :: "int list result option" where
  "sample_array =
     (let a = array_add_item (array_add_item (array_add_item
        (array_new (compare_ordered (>) (<))) 5) 3) 7 in
      map_option (map_sum id snd) (iterate_while print_item (arr_vector a) []))"

definition sample_dictionary :: "((int \<times> string) list \<times> string) result option" where
  "sample_dictionary =
     (let d = dictionary_add (dictionary_add (dictionary_add
        (dictionary_new (compare_ordered (>) (<)) compare_default) 1 ''one'') 2 ''two'') 3 ''three'' in
      map_option (\<lambda>r. bind_r r (\<lambda>(it, out). bind_r (dictionary_get_item d 1) (\<lambda>v. Inr (out, v))))
        (for_each dict_move_next (dict_get_current d) print_item (dict_iterator_new d) True []))"

section \<open>Delegates\<close>

datatype sample_line = StaticDelegate | ClassDelegate int

text \<open>The world is \<^verbatim>\<open>value\<close> of the only \<^verbatim>\<open>TestDelegateClass\<close> object and the lines printed.  A
  removal that does not return is undefined here; that it returns is part of the theorem.\<close>

type_synonym sample_world = "int \<times> sample_line list"

definition test_delegate :: "(unit delegate_event \<times> sample_world, unit) io" where
  "test_delegate s = (case s of (e, v, out) \<Rightarrow> (Inr (), e, v, out @ [StaticDelegate]))"

definition test_delegate_function :: "nat \<Rightarrow> (unit delegate_event \<times> sample_world, unit) io" where
  "test_delegate_function this s =
     (case s of (e, v, out) \<Rightarrow>
        (let v' = s32 (v + 1); out' = out @ [ClassDelegate v'] in
         case event_remove_object e (Some this) of
           None \<Rightarrow> (Inl Undefined, e, v', out')
         | Some (Inl er) \<Rightarrow> (Inl er, e, v', out')
         | Some (Inr e') \<Rightarrow> (Inr (), e', v', out')))"

definition sample_callables :: "(unit, unit, unit, unit delegate_event \<times> sample_world) callables" where
  "sample_callables = \<lparr>cl_functor = (\<lambda>t a v x. return_w (Inl Undefined)), cl_functor_pointer = (\<lambda>t p x. return_w (Inl Undefined)),
     cl_function = (\<lambda>f x. test_delegate), cl_method = (\<lambda>t p m x. test_delegate_function p)\<rparr>"

text \<open>The five handlers: the delegate at address 1, copies of temporaries with a delegate, a function
  and a method of the object at address 100.\<close>

definition sample_handlers :: "unit delegate list" where
  "sample_handlers =
     [delegate_of_function 1 2 (Some 0), delegate_copy 3 (Some (Function 4 (Some 0))), delegate_copy 5 (Some (Function 6 (Some 0))),
      delegate_copy 7 (Some (MethodFunction 8 0 (Some 100) (Some 0))), delegate_copy 9 (Some (MethodFunction 10 0 (Some 100) (Some 0)))]"

definition sample_delegates :: "(unit result \<times> unit delegate_event \<times> sample_world) option" where
  "sample_delegates =
     (case fold_r (\<lambda>d e. event_add e d) sample_handlers (event_new (\<lambda>_. None)) of
        Inl er \<Rightarrow> Some (Inl er, event_new (\<lambda>_. None), 0, [])
      | Inr e \<Rightarrow>
          (case event_call (delegate_call sample_callables) 0 () (e, 0, []) of
             None \<Rightarrow> None
           | Some (Inl er, s) \<Rightarrow> Some (Inl er, s)
           | Some (Inr _, e, w) \<Rightarrow>
               (case event_remove e (delegate_of_function 1 2 (Some 0)) of
                  Inl er \<Rightarrow> Some (Inl er, e, w)
                | Inr e \<Rightarrow>
                    (case event_remove_object e (Some 100) of
                       None \<Rightarrow> None
                     | Some (Inl er) \<Rightarrow> Some (Inl er, e, w)
                     | Some (Inr e) \<Rightarrow>
                         (case sample_assert ''!*event'' (\<not> event_bool e) of
                            Inl er \<Rightarrow> Some (Inl er, e, w)
                          | Inr _ \<Rightarrow> event_call (delegate_call sample_callables) 0 () (e, w))))))"

lemma sample_collections:
  "sample_array = Some (Inr [5, 3, 7])"
  "sample_dictionary = Some (Inr ([(1, ''one''), (2, ''two''), (3, ''three'')], ''one''))"
  by (simp_all add: sample_array_def sample_dictionary_def iterate_while_def for_each.simps print_item_def array_add_item_def
    array_new_def pos_iterator_new_def pos_move_next_def pos_get_current_def peek_def dictionary_add_def dictionary_new_def
    map_assign_def insert_at_def compare_ordered_def stl_compare_def Let_def dict_iterator_new_def dict_move_next_def dict_get_current_def
    dictionary_get_item_def dictionary_find_def map_find_def peek_def)

lemma sample_delegates_called:
  "\<exists>e. sample_delegates =
    Some (Inr (), e, 2, [StaticDelegate, StaticDelegate, StaticDelegate, ClassDelegate 1, ClassDelegate 2]) \<and> gs_items e = []"
  by (simp add: sample_delegates_def sample_handlers_def event_add_def guard_add_item_def with_guard_def guard_iterators_def
      event_new_def guard_new_def array_new_def array_add_item_def delegate_of_function_def delegate_copy_def
      event_call_def event_loop.simps guard_get_iterator_def iterator_register_def guard_next_def guard_move_next_def guard_iterator_new_def
      pos_iterator_new_def pos_move_next_def guard_current_def guard_get_current_def pos_get_current_def peek_def
      sample_callables_def test_delegate_def test_delegate_function_def
      event_remove_object.simps guard_remove_item_def array_remove_item_def array_find_def matches_def event_compare_def
      list_changed_def guard_collect.simps guard_delete_iterator_def iterator_unregister_def remove_items.simps
      guard_remove_items_def event_remove_def erase_at_def s32_id Let_def event_bool_def array_get_count_def sample_assert_def)

section \<open>Properties\<close>

text \<open>C16: The file test of the sample program succeeds on every system whose calls do what POSIX
  says of files, has room for it and lets it open the file.  The file written is the eleven bytes
  that the byte orders asked for give, whatever the byte order of the host.  Opened again, also on a
  host of the other order, it reads back as the number, the string and the second number that were
  written, with the reader at the end of the file: none of the assertions throws.\<close>

theorem sample_file_reads_back:
  assumes "posix_files os view room" and "11 \<le> room"
    and "os_open os (c_string path) (open_mode_flag Create OR file_mode_flag WriteOnly) owner_read_write w = (fd, w1)"
    and "0 \<le> fd"
  shows "\<exists>w2 i. sample_write_file os host junk path w = Inr w2 \<and>
    ps_names (view w2) (cstr_name (c_string path)) = Some i \<and> ps_data (view w2) i = sample_bytes \<and>
    (\<forall>fd' w3 host'. os_open os (c_string path) (open_mode_flag Open OR file_mode_flag ReadOnly) owner_read_write w2 = (fd', w3) \<and>
       0 \<le> fd' \<longrightarrow> (\<exists>w4. sample_read_file os host' path w2 = Some (Inr (0x1337BAAD, sample_text, 0xF33D, w4))))"
  using posix_files.sample_writes [OF assms(1,3,4,2), of host junk] posix_files.sample_reads [OF assms(1) _ _ assms(2)]
  by blast

definition no_files :: plain_world where
  "no_files = \<lparr>pw_state = \<lparr>ps_names = (\<lambda>_. None), ps_data = (\<lambda>_. []), ps_desc = (\<lambda>_. None),
     ps_open = (\<lambda>_. \<lparr>of_inode = 0, of_offset = 0, of_readable = False, of_writable = False\<rparr>)\<rparr>, pw_next = 3\<rparr>"

theorem sample_file_reads_back_witness:
  "\<exists>w2 i. sample_write_file plain_os True [] (literal [0x74]) no_files = Inr w2 \<and>
    ps_names (pw_state w2) [0x74] = Some i \<and> ps_data (pw_state w2) i = sample_bytes"
proof -
  have n: "cstr_name (c_string (literal [0x74])) = [0x74]" by (simp add: cstr_name_def literal_def)
  have "fst (os_open plain_os (c_string (literal [0x74])) (open_mode_flag Create OR file_mode_flag WriteOnly)
      owner_read_write no_files) = 3"
    by (simp add: plain_os_def plain_open_def no_files_def Let_def o_creat_def o_trunc_def o_wronly_def)
  then obtain w1 where "os_open plain_os (c_string (literal [0x74])) (open_mode_flag Create OR file_mode_flag WriteOnly)
      owner_read_write no_files = (3, w1)"
    by (metis prod.collapse)
  from sample_file_reads_back [OF plain.posix_files_axioms _ this, of True "[]"] show ?thesis
    unfolding n by auto
qed

end
