(* ===== verification/Object_File.thy ===== *)
theory Object_File
  imports Sample Serializer
begin

text \<open>
  Objects in files: the serializer of \<open>Serializer\<close> over the streams of \<open>File_Stream\<close>.  An object
  that one program saves is what another program loads.
\<close>

definition file_name :: "bstring \<Rightarrow> bytes" where
  "file_name path = cstr_name (c_string path)"

context posix_files begin

lemma object_saved:
  assumes "inj ti" and "obj_ok ob" and "length (encode (obj_view ob)) \<le> room"
    and "os_open os (c_string path) (open_mode_flag Create OR file_mode_flag WriteOnly) owner_read_write w = (fd, w1)"
    and "0 \<le> fd"
  shows "\<exists>f w2 w3 i. file_stream_open os path Create WriteOnly owner_read_write w = (Inr f, w1) \<and>
    serialize_stream (serializer_new cmp ti) (file_stream_ops os f) host ob w1 = Inr w2 \<and>
    file_stream_destroy os f w2 = (Inr (), w3) \<and>
    ps_names (view w3) (file_name path) = Some i \<and> ps_data (view w3) i = encode (obj_view ob)"
proof -
  let ?e = "encode (obj_view ob)"
  obtain f k i where f: "file_stream_open os path Create WriteOnly owner_read_write w = (Inr f, w1)"
    "handle_fd (fs_handle f) = fd" "ps_desc (view w1) fd = Some k" "ps_names (view w1) (file_name path) = Some i"
    "ps_open (view w1) k = \<lparr>of_inode = i, of_offset = 0, of_readable = False, of_writable = True\<rparr>"
    "ps_data (view w1) i = []"
    using file_stream_open_exact [OF assms(4,5), of owner_read_write] unfolding file_name_def by auto
  note start = file_position_start [where f = f and w = w1, unfolded f(2), OF f(3,5)]
  let ?z = "(ps_names (view w1), i)"
  have ok: "file_ok view room ?z False True f w1" by (rule start(3)) (simp add: f(6))
  let ?save = "serialize (serializer_new cmp ti) (big_io (file_stream_ops os f) host) ob"
  note writer = file_output [where z = ?z and r = False and f = f]
  have "output_stream.writes (file_stream_ops os f) (file_contents view f) (file_ok view room ?z False True f)
      (\<lambda>_. room) ?save ?e"
    by (rule output_stream.writes_serialize [OF writer serializer_new_library [OF assms(1)] assms(2)])
  then obtain w2 where w2: "?save w1 = Inr w2" "file_ok view room ?z False True f w2" "file_contents view f w2 = ?e"
    using ok assms(3) start(1,2) f(6)
    by (fastforce simp: output_stream.writes_def [OF writer] file_ops_simps(1) [OF ok] overwrite_def)
  obtain w3 where "file_stream_destroy os f w2 = (Inr (), w3)" "ps_data (view w3) = ps_data (view w2)"
    "ps_names (view w3) = ps_names (view w2)"
    using file_stream_destroy_exact [OF w2(2)] by auto
  moreover have "ps_names (view w2) = ps_names (view w1)" "ps_data (view w2) i = ?e"
    using file_okE [OF w2(2)] w2(3) by (metis fst_conv, metis snd_conv)
  ultimately show ?thesis using f(1,4) w2(1) by (auto simp: serialize_stream_def)
qed

lemma object_loaded:
  assumes "inj ti" and "obj_ok ob" and "obj_depth ob \<le> fuel" and "length (encode (obj_view ob)) \<le> room"
    and "os_open os (c_string path) (open_mode_flag Open OR file_mode_flag ReadOnly) owner_read_write w = (fd, w1)"
    and "0 \<le> fd"
    and "ps_names (view w) (file_name path) = Some i" and "ps_data (view w) i = encode (obj_view ob)"
  shows "\<exists>f ob' w2. file_stream_open os path Open ReadOnly owner_read_write w = (Inr f, w1) \<and>
    deserialize_stream fuel (serializer_new cmp ti) g (file_stream_ops os f) host w1 = Some (Inr (ob', w2)) \<and>
    obj_view ob' = obj_view ob \<and> nav_is_end_of_file (file_stream_ops os f) w2"
proof -
  let ?e = "encode (obj_view ob)"
  obtain f k where f: "file_stream_open os path Open ReadOnly owner_read_write w = (Inr f, w1)"
    "handle_fd (fs_handle f) = fd" "ps_desc (view w1) fd = Some k"
    "ps_open (view w1) k = \<lparr>of_inode = i, of_offset = 0, of_readable = True, of_writable = False\<rparr>"
    "ps_data (view w1) i = ?e"
    using file_stream_open_exact [OF assms(5,6), of owner_read_write] assms(7,8) unfolding file_name_def by auto
  note start = file_position_start [where f = f and w = w1, unfolded f(2), OF f(3,4)]
  let ?z = "(ps_names (view w1), i)"
  have ok: "file_ok view room ?z True False f w1" using assms(4) by (intro start(3)) (simp add: f(5))
  note input = file_input [where z = ?z and wr = False and f = f]
  note reads = input_stream.reads_obj [OF input serializer_new_library [OF assms(1), of cmp] assms(2,3), of g host]
  obtain ob' w2 where r: "deserialize fuel (serializer_new cmp ti) g (big_io (file_stream_ops os f) host) w1 = Some (Inr (ob', w2))"
    "obj_view ob' = obj_view ob" "file_ok view room ?z True False f w2" "file_contents view f w2 = ?e"
    "so_get_position (file_stream_ops os f) w2 = length ?e"
    by (rule input_stream.readsD [OF input reads ok, of "[]" "[]"])
      (use start(1,2) f(5) in \<open>auto simp: file_ops_simps(1) [OF ok]\<close>)
  have "nav_is_end_of_file (file_stream_ops os f) w2"
    using r(4,5) file_ops_simps(2) [OF r(3)] by (simp add: nav_is_end_of_file_def)
  then show ?thesis using f(1) r by (auto simp: deserialize_stream_def)
qed

end

section \<open>Properties\<close>



end
